(* ===== verification/Prelude.thy ===== *)
theory Prelude
  imports Main "HOL-Library.Word"
begin

section \<open>Shared types and lemmas\<close>

text \<open>
  Names and facts every component uses: the machine integers of the Rust sources as words,
  results as sums (\<open>Err\<close> on the left, \<open>Ok\<close> on the right), little-endian byte lists
  (\<open>to_le_bytes\<close> / \<open>from_le_bytes\<close>), and the lemma collections of the development.
  A signed \<open>i64\<close> is the same 64-bit word read with \<open>sint\<close>; \<open>usize\<close> is \<open>nat\<close>
  (every use is bounded by the length of a buffer).  Arithmetic on words wraps, as the release
  build of the sources does.
\<close>

unbundle bit_operations_syntax

type_synonym u8 = "8 word"
type_synonym u16 = "16 word"
type_synonym u32 = "32 word"
type_synonym u64 = "64 word"
type_synonym i64 = "64 word"
type_synonym usize = nat

named_theorems byte_simps \<open>reading bytes back out of a little-endian list\<close>
named_theorems wf_intros \<open>operations keep the well-formedness of their component\<close>

subsection \<open>Results\<close>

text \<open>The question mark operator: stop at the first error.\<close>

definition and_then :: "'e + 'a \<Rightarrow> ('a \<Rightarrow> 'e + 'b) \<Rightarrow> 'e + 'b" where
  "and_then r f = (case r of Inl e \<Rightarrow> Inl e | Inr a \<Rightarrow> f a)"

definition ok_or :: "'a option \<Rightarrow> 'e \<Rightarrow> 'e + 'a" where
  "ok_or x e = (case x of None \<Rightarrow> Inl e | Some a \<Rightarrow> Inr a)"

lemma and_then_simps [simp]:
  "and_then (Inl e) f = Inl e" "and_then (Inr a) f = f a"
  by (simp_all add: and_then_def)

lemma ok_or_simps [simp]: "ok_or None e = Inl e" "ok_or (Some a) e = Inr a"
  by (simp_all add: ok_or_def)

lemma and_then_eq_Inr_iff:
  "and_then r f = Inr b \<longleftrightarrow> (\<exists>a. r = Inr a \<and> f a = Inr b)"
  by (cases r) auto

lemma ok_or_eq_Inr_iff: "ok_or x e = Inr a \<longleftrightarrow> x = Some a"
  by (cases x) auto

subsection \<open>Positions in a word\<close>

text \<open>A bit position lies in one of three consecutive ranges, given by its distance to their start.\<close>

lemma nat_range_cases:
  obtains "n < a" | j where "n = j + a" "j < b" | j where "n = j + (a + b :: nat)"
proof -
  consider "n < a" | "a \<le> n" "n < a + b" | "a + b \<le> n" by linarith
  then show ?thesis
  proof cases
    case 1
    then show ?thesis by (rule that(1))
  next
    case 2
    then show ?thesis using that(2) [of "n - a"] by simp
  next
    case 3
    then show ?thesis using that(3) [of "n - (a + b)"] by simp
  qed
qed

lemma unat_u8_of_nat [simp]: "i < 256 \<Longrightarrow> unat (word_of_nat i :: u8) = i"
  by (simp add: unsigned_of_nat take_bit_nat_eq_self)

lemma u8_of_nat_eq_0 [simp]: "i < 256 \<Longrightarrow> (word_of_nat i :: u8) = 0 \<longleftrightarrow> i = 0"
  by (metis unat_eq_zero unat_u8_of_nat)

subsection \<open>Little-endian byte lists\<close>

definition le_bytes :: "nat \<Rightarrow> 'a::len word \<Rightarrow> u8 list" where
  "le_bytes n w = map (\<lambda>i. ucast (drop_bit (8 * i) w)) [0..<n]"

primrec from_le :: "u8 list \<Rightarrow> 'a::len word" where
  "from_le [] = 0"
| "from_le (b # bs) = ucast b OR push_bit 8 (from_le bs)"

lemma length_le_bytes [simp]: "length (le_bytes n w) = n"
  by (simp add: le_bytes_def)

lemma le_bytes_Suc:
  "le_bytes (Suc n) w = ucast w # le_bytes n (drop_bit 8 w)"
  by (simp add: le_bytes_def upt_conv_Cons map_Suc_upt [symmetric] add.commute
      del: upt_Suc) 

lemma le_bytes_0 [simp]: "le_bytes 0 w = []"
  by (simp add: le_bytes_def)

lemma bit_from_le:
  "bit (from_le bs :: 'a::len word) k \<longleftrightarrow>
     k < LENGTH('a) \<and> k div 8 < length bs \<and> bit (bs ! (k div 8)) (k mod 8)"
proof (induction bs arbitrary: k)
  case Nil
  then show ?case by simp
next
  case (Cons b bs)
  show ?case
  proof (cases "k < 8")
    case True
    then show ?thesis by (auto simp: bit_simps)
  next
    case False
    then obtain j where k: "k = j + 8" by (metis add.commute le_Suc_ex not_less)
    have "\<not> bit b k" using False by (auto dest: bit_imp_le_length)
    moreover have "(j + 8) div 8 = Suc (j div 8)" "(j + 8) mod 8 = j mod 8"
      by simp_all
    ultimately show ?thesis using Cons.IH [of j] by (auto simp: k bit_simps)
  qed
qed

lemma from_le_le_bytes [byte_simps]:
  "LENGTH('a) \<le> 8 * n \<Longrightarrow> from_le (le_bytes n w) = (w :: 'a::len word)"
  by (rule bit_word_eqI)
    (auto simp: bit_from_le le_bytes_def bit_simps less_mult_imp_div_less mult.commute
      dest: bit_imp_le_length)

lemma le_bytes_from_le [byte_simps]:
  assumes "LENGTH('a) = 8 * length bs"
  shows "le_bytes (length bs) (from_le bs :: 'a::len word) = bs"
proof (rule nth_equalityI)
  fix i assume "i < length (le_bytes (length bs) (from_le bs :: 'a::len word))"
  then have i: "i < length bs" by simp
  show "le_bytes (length bs) (from_le bs :: 'a::len word) ! i = bs ! i"
    using i assms
    by (intro bit_word_eqI) (auto simp: le_bytes_def bit_simps bit_from_le)
qed simp

text \<open>Three bytes as a 24-bit number, the form in which every PGN travels.\<close>

definition le24 :: "u8 \<Rightarrow> u8 \<Rightarrow> u8 \<Rightarrow> u32" where
  "le24 a b c = ucast a OR push_bit 8 (ucast b) OR push_bit 16 (ucast c)"

lemma le24_bytes [byte_simps]:
  "le24 (ucast w) (ucast (drop_bit 8 w)) (ucast (drop_bit 16 w)) = take_bit 24 (w :: u32)"
proof (rule bit_word_eqI)
  fix n assume n: "n < LENGTH(32)"
  define a b c where "a = (ucast (ucast w :: u8) :: u32)" and "b = (ucast (ucast (drop_bit 8 w) :: u8) :: u32)"
    and "c = (ucast (ucast (drop_bit 16 w) :: u8) :: u32)"
  have bits: "bit a k \<longleftrightarrow> k < 8 \<and> bit w k" "bit b k \<longleftrightarrow> k < 8 \<and> bit w (8 + k)"
    "bit c k \<longleftrightarrow> k < 8 \<and> bit w (16 + k)" for k
    by (auto simp: a_def b_def c_def bit_simps)
  consider "n < 8" | j where "n = j + 8" "j < 8" | j where "n = j + 16"
    by (rule nat_range_cases [where n = n and a = 8 and b = 8]) simp_all
  then show "bit (le24 (ucast w) (ucast (drop_bit 8 w)) (ucast (drop_bit 16 w))) n = bit (take_bit 24 w) n"
    unfolding le24_def a_def [symmetric] b_def [symmetric] c_def [symmetric]
    by cases (use n in \<open>auto simp: bit_or_iff bit_push_bit_iff bits bit_take_bit_iff add.commute\<close>)
qed

lemma ucast_and_ff [simp]: "(ucast (w AND 0xff :: u32) :: u8) = ucast w"
proof -
  have m: "(0xff :: u32) = mask 8" by (simp add: mask_eq_exp_minus_1)
  show ?thesis unfolding m by (rule bit_word_eqI) (auto simp: bit_simps)
qed

lemma take_bit_24_id: "(w :: u32) < 2 ^ 24 \<Longrightarrow> take_bit 24 w = w"
  using less_mask_eq [of w 24] by (simp add: take_bit_eq_mask)

subsection \<open>Bit streams\<close>

text \<open>
  The bits of a byte list, lowest bit of the first byte first: the order in which NMEA 2000
  packs fields.  Bit \<open>k\<close> past the end is \<open>False\<close>.
\<close>

definition stream_bit :: "u8 list \<Rightarrow> nat \<Rightarrow> bool" where
  "stream_bit bs k \<longleftrightarrow> k div 8 < length bs \<and> bit (bs ! (k div 8)) (k mod 8)"

lemma stream_bit_Cons:
  "stream_bit (b # bs) k = (if k < 8 then bit b k else stream_bit bs (k - 8))"
proof (cases "k < 8")
  case False
  then obtain j where k: "k = j + 8" by (metis add.commute le_Suc_ex not_less)
  have "(j + 8) div 8 = Suc (j div 8)" "(j + 8) mod 8 = j mod 8" by simp_all
  then show ?thesis by (simp add: stream_bit_def k)
qed (simp add: stream_bit_def)

lemma stream_bit_Nil [simp]: "\<not> stream_bit [] k"
  by (simp add: stream_bit_def)

lemma stream_bit_length: "stream_bit bs k \<Longrightarrow> k < 8 * length bs"
  by (simp add: stream_bit_def div_less_iff_less_mult mult.commute)

lemma stream_bit_drop:
  "n \<le> length bs \<Longrightarrow> stream_bit (drop n bs) k = stream_bit bs (8 * n + k)"
  by (auto simp: stream_bit_def less_diff_conv add.commute)

lemma stream_bit_eqI:
  assumes "length xs = length ys" "\<And>k. k < 8 * length xs \<Longrightarrow> stream_bit xs k = stream_bit ys k"
  shows "xs = ys"
proof (rule nth_equalityI)
  fix i assume i: "i < length xs"
  show "xs ! i = ys ! i"
  proof (rule bit_word_eqI)
    fix n assume "n < LENGTH(8)"
    then show "bit (xs ! i) n = bit (ys ! i) n"
      using i assms(1) assms(2) [of "8 * i + n"] by (simp add: stream_bit_def)
  qed
qed (rule assms(1))

subsection \<open>Searching and overwriting lists\<close>

text \<open>
  \<open>iter().position\<close> and \<open>enumerate().min_by_key\<close> with its index (the first of equal keys), and
  \<open>copy_from_slice\<close> into a buffer.
\<close>

primrec position :: "('a \<Rightarrow> bool) \<Rightarrow> 'a list \<Rightarrow> nat option" where
  "position P [] = None"
| "position P (x # xs) = (if P x then Some 0 else map_option Suc (position P xs))"

primrec min_index :: "('a \<Rightarrow> 'b::linorder) \<Rightarrow> 'a list \<Rightarrow> nat option" where
  "min_index f [] = None"
| "min_index f (x # xs) =
     (case min_index f xs of None \<Rightarrow> Some 0
      | Some i \<Rightarrow> if f x \<le> f (xs ! i) then Some 0 else Some (Suc i))"

definition overwrite :: "nat \<Rightarrow> 'a list \<Rightarrow> 'a list \<Rightarrow> 'a list" where
  "overwrite off xs buf = take off buf @ xs @ drop (off + length xs) buf"

lemma nth_put: "xs[i := x] ! j = (if j = i \<and> j < length xs then x else xs ! j)"
  by (cases "i < length xs") (auto simp: nth_list_update list_update_beyond)

lemma position_SomeD:
  "position P xs = Some i \<Longrightarrow> i < length xs \<and> P (xs ! i) \<and> (\<forall>j < i. \<not> P (xs ! j))"
  by (induction xs arbitrary: i) (auto simp: less_Suc_eq_0_disj split: if_splits)

lemma position_None_iff: "position P xs = None \<longleftrightarrow> (\<forall>i < length xs. \<not> P (xs ! i))"
  by (induction xs) (auto simp: less_Suc_eq_0_disj)

lemma min_index_None_iff: "min_index f xs = None \<longleftrightarrow> xs = []"
  by (cases xs) (auto split: option.split)

lemma min_index_SomeD:
  "min_index f xs = Some i \<Longrightarrow> i < length xs \<and> (\<forall>j < length xs. f (xs ! i) \<le> f (xs ! j))"
proof (induction xs arbitrary: i)
  case (Cons x xs)
  show ?case
  proof (cases "min_index f xs")
    case None
    with Cons.prems show ?thesis by (simp add: min_index_None_iff)
  next
    case (Some k)
    from Cons.IH [OF Some] Cons.prems Some show ?thesis
      by (auto simp: less_Suc_eq_0_disj split: if_splits)
  qed
qed simp

lemma length_overwrite [simp]:
  "off + length xs \<le> length buf \<Longrightarrow> length (overwrite off xs buf) = length buf"
  by (simp add: overwrite_def)

lemma nth_overwrite:
  "off + length xs \<le> length buf \<Longrightarrow> i < length buf \<Longrightarrow>
   overwrite off xs buf ! i = (if off \<le> i \<and> i < off + length xs then xs ! (i - off) else buf ! i)"
  by (auto simp: overwrite_def nth_append)

end
