(* ===== verification/Bit_Fields.thy ===== *)
theory Bit_Fields
  imports Prelude
begin

section \<open>Bit-level extraction and packing (canboat-core/src/bits.rs, encode.rs)\<close>

text \<open>
  \<open>extract_bits\<close> with its loop, the sentinel classifiers, and the inverse \<open>write_bits\<close>
  of the encoder.  Both are specified against \<open>stream_bit\<close>: the payload is a stream of bits,
  lowest bit of the first byte first, and a field is a run of that stream.
\<close>

record extracted =
  ex_value :: i64
  ex_max :: i64
  ex_raw :: u64

subsection \<open>The extraction loop\<close>

text \<open>
  One round takes the bits of the current byte from \<open>first_bit\<close> on, as many as still needed.
  The loop ends when no bit is needed or no byte is left.  Results: value, maximum, number of bits.
\<close>

function extract_loop ::
  "u8 list \<Rightarrow> usize \<Rightarrow> usize \<Rightarrow> usize \<Rightarrow> u64 \<Rightarrow> u64 \<Rightarrow> usize \<Rightarrow> u64 \<times> u64 \<times> usize" where
  "extract_loop data first_bit remaining magnitude value max_v bits_extracted =
     (if remaining = 0 then (value, max_v, bits_extracted)
      else case data of
        [] \<Rightarrow> (value, max_v, bits_extracted)
      | byte # rest \<Rightarrow>
          (let in_this_byte = min (8 - first_bit) remaining;
               all_ones = push_bit in_this_byte 1 - 1;
               mask = push_bit first_bit all_ones;
               chunk = drop_bit first_bit (ucast byte AND mask);
               value' = value OR push_bit magnitude chunk;
               max_v' = max_v OR push_bit magnitude all_ones;
               magnitude' = magnitude + in_this_byte;
               remaining' = remaining - in_this_byte;
               first_bit' = first_bit + in_this_byte;
               bits_extracted' = bits_extracted + in_this_byte
           in if first_bit' \<ge> 8
              then extract_loop rest (first_bit' - 8) remaining' magnitude' value' max_v'
                     bits_extracted'
              else extract_loop data first_bit' remaining' magnitude' value' max_v'
                     bits_extracted'))"
  by pat_completeness auto
termination
  by (relation "measure (\<lambda>(data, fb, rem, _). length data + rem)") (auto split: list.splits)

declare extract_loop.simps [simp del]

definition extract_bits :: "u8 list \<Rightarrow> usize \<Rightarrow> usize \<Rightarrow> bool \<Rightarrow> i64 \<Rightarrow> extracted option" where
  "extract_bits data bit_offset bits sgnd off =
     (if bits = 0 \<or> bits > 64 then None
      else let byte_offset = bit_offset div 8 in
        if byte_offset \<ge> length data then None
        else let (value, max_v, bits_extracted) =
                   extract_loop (drop byte_offset data) (bit_offset mod 8) bits 0 0 0 0 in
          if bits_extracted = 0 then None
          else let bits = bits_extracted;
                   (value_signed, max_signed) =
                     (if sgnd then
                        (let max_signed = drop_bit 1 max_v in
                         if off \<noteq> 0 then (value + off, max_signed + off)
                         else let sign_bit = push_bit (bits - 1) 1 in
                           if value AND sign_bit \<noteq> 0
                           then (value OR NOT max_v, max_signed)
                           else (value, max_signed))
                      else if off \<noteq> 0 then (value + off, max_v + off)
                      else (value, max_v))
               in Some \<lparr>ex_value = value_signed, ex_max = max_signed, ex_raw = value\<rparr>)"

definition is_unavailable :: "extracted \<Rightarrow> bool" where
  "is_unavailable e =
     (let reserved = (if sint (ex_max e) \<ge> 7 then 2 else if sint (ex_max e) > 1 then 1 else 0)
      in reserved > 0 \<and> sint (ex_value e) > sint (ex_max e) - reserved)"

datatype sentinel = SNone | SUnknown | SOutOfRange | SReserved

definition classify_sentinel ::
  "extracted \<Rightarrow> u64 option \<Rightarrow> u64 option \<Rightarrow> u64 option \<Rightarrow> sentinel" where
  "classify_sentinel e unknown out_of_range reserved =
     (let raw = ex_raw e in
      if unknown = Some raw then SUnknown
      else if out_of_range = Some raw then SOutOfRange
      else if reserved = Some raw then SReserved
      else SNone)"

definition is_unavailable_with ::
  "extracted \<Rightarrow> u64 option \<Rightarrow> u64 option \<Rightarrow> u64 option \<Rightarrow> bool" where
  "is_unavailable_with e unknown out_of_range reserved =
     (classify_sentinel e unknown out_of_range reserved \<noteq> SNone)"

subsection \<open>The loop reads a run of the bit stream\<close>

text \<open>Bit \<open>k\<close> of a word into which \<open>n\<close> bits of \<open>P\<close> were placed from bit \<open>m\<close> on.\<close>

definition run_bits :: "(nat \<Rightarrow> bool) \<Rightarrow> nat \<Rightarrow> u64 \<Rightarrow> nat \<Rightarrow> nat \<Rightarrow> bool" where
  "run_bits P m v n k \<longleftrightarrow> bit v k \<or> m \<le> k \<and> k < m + n \<and> k < 64 \<and> P (k - m)"

definition loop_chunk :: "u8 \<Rightarrow> nat \<Rightarrow> nat \<Rightarrow> nat \<Rightarrow> u64 \<Rightarrow> u64" where
  "loop_chunk byte fb t m v =
     v OR push_bit m (drop_bit fb (ucast byte AND push_bit fb (push_bit t 1 - 1)))"

definition loop_ones :: "nat \<Rightarrow> nat \<Rightarrow> u64 \<Rightarrow> u64" where
  "loop_ones t m mx = mx OR push_bit m (push_bit t 1 - 1)"

lemma bit_ones: "bit (2 ^ n - 1 :: u64) k \<longleftrightarrow> k < n \<and> k < 64"
  by (simp flip: mask_eq_exp_minus_1) (auto simp: bit_simps)

lemma bit_loop_chunk:
  assumes "fb < 8" "t \<le> 8 - fb"
  shows "bit (loop_chunk byte fb t m v) k \<longleftrightarrow> run_bits (\<lambda>j. bit byte (fb + j)) m v t k"
proof -
  define x :: u64 where "x = drop_bit fb (ucast byte AND push_bit fb (push_bit t 1 - 1))"
  have x: "bit x j \<longleftrightarrow> j < t \<and> bit byte (fb + j)" for j
    using assms by (auto simp: x_def bit_simps bit_ones dest: bit_imp_le_length)
  have "bit (v OR push_bit m x) k \<longleftrightarrow> bit v k \<or> m \<le> k \<and> k < 64 \<and> bit x (k - m)"
    by (auto simp: bit_or_iff bit_push_bit_iff)
  then show ?thesis
    unfolding loop_chunk_def x_def [symmetric] run_bits_def x by auto
qed

lemma bit_loop_ones: "bit (loop_ones t m mx) k \<longleftrightarrow> run_bits (\<lambda>_. True) m mx t k"
  by (auto simp: loop_ones_def run_bits_def bit_simps bit_ones)

lemma extract_loop_stop [simp]:
  "extract_loop data fb 0 m v mx b = (v, mx, b)"
  "extract_loop [] fb rem m v mx b = (v, mx, b)"
  by (simp_all add: extract_loop.simps)

lemma extract_loop_last:
  "fb < 8 \<Longrightarrow> 0 < rem \<Longrightarrow> rem < 8 - fb \<Longrightarrow>
   extract_loop (byte # rest) fb rem m v mx b =
     (loop_chunk byte fb rem m v, loop_ones rem m mx, b + rem)"
  by (simp add: extract_loop.simps [of "byte # rest"] Let_def loop_chunk_def loop_ones_def)

lemma extract_loop_next:
  "fb < 8 \<Longrightarrow> 8 - fb \<le> rem \<Longrightarrow> 0 < rem \<Longrightarrow>
   extract_loop (byte # rest) fb rem m v mx b =
     extract_loop rest 0 (rem - (8 - fb)) (m + (8 - fb)) (loop_chunk byte fb (8 - fb) m v)
       (loop_ones (8 - fb) m mx) (b + (8 - fb))"
  by (simp add: extract_loop.simps [of "byte # rest"] Let_def loop_chunk_def loop_ones_def)

lemma extract_loop_spec:
  assumes "fb < 8" "extract_loop data fb rem m v mx b = (v', mx', b')"
  shows "b' = b + min rem (8 * length data - fb)
    \<and> (\<forall>k. bit v' k \<longleftrightarrow>
          run_bits (\<lambda>j. stream_bit data (fb + j)) m v (min rem (8 * length data - fb)) k)
    \<and> (\<forall>k. bit mx' k \<longleftrightarrow> run_bits (\<lambda>_. True) m mx (min rem (8 * length data - fb)) k)"
  using assms
proof (induction data arbitrary: fb rem m v mx b)
  case Nil
  then show ?case by (auto simp: run_bits_def)
next
  case (Cons byte rest)
  consider "rem = 0" | "0 < rem" "rem < 8 - fb" | "8 - fb \<le> rem" "0 < rem" by linarith
  then show ?case
  proof cases
    case 1
    with Cons.prems show ?thesis by (auto simp: run_bits_def)
  next
    case 2
    with Cons.prems have "min rem (8 * length (byte # rest) - fb) = rem" by simp
    with 2 Cons.prems show ?thesis
      by (auto simp: extract_loop_last bit_loop_chunk bit_loop_ones run_bits_def stream_bit_Cons)
  next
    case 3
    define n where "n = min (rem - (8 - fb)) (8 * length rest)"
    have split: "min rem (8 * length (byte # rest) - fb) = (8 - fb) + n"
      using 3 Cons.prems(1) by (simp add: n_def)
    have "extract_loop rest 0 (rem - (8 - fb)) (m + (8 - fb)) (loop_chunk byte fb (8 - fb) m v)
       (loop_ones (8 - fb) m mx) (b + (8 - fb)) = (v', mx', b')"
      using Cons.prems 3 by (simp add: extract_loop_next)
    from Cons.IH [OF _ this]
    have b: "b' = b + (8 - fb) + n"
      and v: "bit v' k \<longleftrightarrow> run_bits (stream_bit rest) (m + (8 - fb))
                (loop_chunk byte fb (8 - fb) m v) n k"
      and mx: "bit mx' k \<longleftrightarrow> run_bits (\<lambda>_. True) (m + (8 - fb)) (loop_ones (8 - fb) m mx) n k" for k
      by (simp_all add: n_def)
    have "bit v' k \<longleftrightarrow> run_bits (\<lambda>j. stream_bit (byte # rest) (fb + j)) m v ((8 - fb) + n) k" for k
      using Cons.prems(1) unfolding v
      by (cases "k < m + (8 - fb)")
        (auto simp: run_bits_def bit_loop_chunk stream_bit_Cons add.commute add.left_commute)
    moreover have "bit mx' k \<longleftrightarrow> run_bits (\<lambda>_. True) m mx ((8 - fb) + n) k" for k
      unfolding mx by (auto simp: run_bits_def bit_loop_ones)
    ultimately show ?thesis using b split by auto
  qed
qed

subsection \<open>Reference semantics of a field\<close>

text \<open>
  The word made of \<open>n\<close> stream bits from bit \<open>off\<close> on, and the result the decoder should
  give for it: the field is cut to the bits that exist, and a signed field is sign-extended from the
  cut width.
\<close>

definition stream_word :: "u8 list \<Rightarrow> nat \<Rightarrow> nat \<Rightarrow> u64" where
  "stream_word data off n = horner_sum of_bool 2 (map (\<lambda>k. stream_bit data (off + k)) [0..<n])"

definition field_width :: "u8 list \<Rightarrow> nat \<Rightarrow> nat \<Rightarrow> nat" where
  "field_width data off bits = min bits (8 * length data - off)"

definition field_spec :: "u8 list \<Rightarrow> nat \<Rightarrow> nat \<Rightarrow> bool \<Rightarrow> extracted option" where
  "field_spec data off bits sgnd =
     (if bits = 0 \<or> bits > 64 \<or> 8 * length data \<le> off then None
      else let n = field_width data off bits; raw = stream_word data off n in
        Some \<lparr>ex_value = (if sgnd then signed_take_bit (n - 1) raw else raw),
              ex_max = (if sgnd then mask (n - 1) else mask n), ex_raw = raw\<rparr>)"

lemma bit_stream_word: "bit (stream_word data off n) k \<longleftrightarrow> k < n \<and> k < 64 \<and> stream_bit data (off + k)"
  by (auto simp: stream_word_def bit_horner_sum_bit_word_iff)

lemma extract_loop_stream_word:
  assumes "off div 8 < length data" "bits \<le> 64"
  shows "extract_loop (drop (off div 8) data) (off mod 8) bits 0 0 0 0 =
    (stream_word data off (field_width data off bits), mask (field_width data off bits),
     field_width data off bits)"
proof -
  obtain v mx b where eq: "extract_loop (drop (off div 8) data) (off mod 8) bits 0 0 0 0 = (v, mx, b)"
    by (metis prod_cases3)
  have len: "8 * length (drop (off div 8) data) - off mod 8 = 8 * length data - off"
    unfolding length_drop by presburger
  have w: "field_width data off bits \<le> 64" using assms(2) by (simp add: field_width_def)
  have at: "stream_bit (drop (off div 8) data) (off mod 8 + k) = stream_bit data (off + k)" for k
    using assms(1) by (simp add: stream_bit_drop less_imp_le)
  note spec = extract_loop_spec [OF _ eq, unfolded len at, folded field_width_def]
  have "b = field_width data off bits" using spec by simp
  moreover have "v = stream_word data off (field_width data off bits)"
    using spec w by (intro bit_word_eqI) (simp add: run_bits_def bit_stream_word)
  moreover have "mx = mask (field_width data off bits)"
    using spec w by (intro bit_word_eqI) (simp add: run_bits_def bit_simps)
  ultimately show ?thesis using eq by simp
qed

lemma sign_extend_eq:
  fixes raw :: u64
  assumes "0 < n" "n \<le> 64" "\<And>k. bit raw k \<Longrightarrow> k < n"
  shows "(if raw AND push_bit (n - 1) 1 \<noteq> 0 then raw OR NOT (mask n) else raw) =
    signed_take_bit (n - 1) raw"
proof -
  have test: "raw AND push_bit (n - 1) 1 \<noteq> 0 \<longleftrightarrow> bit raw (n - 1)"
    by (simp add: bit_iff_and_push_bit_not_eq_0)
  show ?thesis unfolding test
  proof (rule bit_word_eqI)
    fix k assume "k < LENGTH(64)"
    then have k: "k < 64" by simp
    show "bit (if bit raw (n - 1) then raw OR NOT (mask n) else raw) k =
        bit (signed_take_bit (n - 1) raw) k"
    proof (cases "k < n")
      case True
      then have "min k (n - 1) = k" by simp
      with True k show ?thesis by (auto simp: bit_simps)
    next
      case False
      then have "min k (n - 1) = n - 1" "\<not> bit raw k" using assms by auto
      with False k show ?thesis by (auto simp: bit_simps)
    qed
  qed
qed

lemma drop_bit_mask_u64:
  "0 < n \<Longrightarrow> n \<le> 64 \<Longrightarrow> drop_bit (Suc 0) (mask n :: u64) = mask (n - Suc 0)"
  by (rule bit_word_eqI) (auto simp: bit_simps)

lemma extract_bits_eq_field_spec:
  "extract_bits data off bits sgnd 0 = field_spec data off bits sgnd"
proof (cases "bits = 0 \<or> bits > 64 \<or> 8 * length data \<le> off")
  case True
  then show ?thesis by (auto simp: extract_bits_def field_spec_def Let_def)
next
  case False
  then have off: "off div 8 < length data" and bits: "0 < bits" "bits \<le> 64" by auto
  define n where "n = field_width data off bits"
  have n: "0 < n" "n \<le> 64" using False bits by (auto simp: n_def field_width_def)
  have ext: "(if stream_word data off n AND push_bit (n - 1) 1 \<noteq> 0
      then stream_word data off n OR NOT (mask n) else stream_word data off n) =
    signed_take_bit (n - 1) (stream_word data off n)"
    by (rule sign_extend_eq) (use n in \<open>auto simp: bit_stream_word\<close>)
  show ?thesis
    using False off n bits extract_loop_stream_word [OF off bits(2)] ext
    by (auto simp: extract_bits_def field_spec_def n_def [symmetric] Let_def drop_bit_mask_u64
        split: if_splits)
qed

subsection \<open>The packer of the encoder (encode.rs, write\_bits)\<close>

primrec write_bits :: "u8 list \<Rightarrow> usize \<Rightarrow> usize \<Rightarrow> u64 \<Rightarrow> u8 list \<times> usize" where
  "write_bits buf next_bit 0 value = (buf, next_bit)"
| "write_bits buf next_bit (Suc bits) value =
     (let idx = next_bit div 8;
          bitpos = next_bit mod 8;
          buf = (if bitpos = 0 then buf @ [0] else buf);
          buf = (if value AND 1 \<noteq> 0 then buf[idx := (buf ! idx) OR push_bit bitpos 1] else buf)
      in write_bits buf (next_bit + 1) bits (drop_bit 1 value))"

text \<open>The buffer holds exactly the bytes that \<open>next_bit\<close> bits need, the rest of the last byte is 0.\<close>

definition packed :: "u8 list \<Rightarrow> usize \<Rightarrow> bool" where
  "packed buf next_bit \<longleftrightarrow>
     length buf = next_bit div 8 + (if next_bit mod 8 = 0 then 0 else 1) \<and> (\<forall>k. stream_bit buf k \<longrightarrow> k < next_bit)"

lemma packed_Nil [simp]: "packed [] 0"
  by (simp add: packed_def)

lemma stream_bit_append:
  "stream_bit (xs @ ys) k =
     (if k < 8 * length xs then stream_bit xs k else stream_bit ys (k - 8 * length xs))"
  by (induction xs arbitrary: k) (auto simp: stream_bit_Cons)

lemma stream_bit_zero [simp]: "\<not> stream_bit [0] k"
  by (cases "k div 8") (auto simp: stream_bit_def)

lemma stream_bit_set:
  assumes "i div 8 < length buf"
  shows "stream_bit (buf[i div 8 := (buf ! (i div 8)) OR push_bit (i mod 8) 1]) k
    \<longleftrightarrow> stream_bit buf k \<or> k = i"
proof -
  have "(k div 8 = i div 8 \<and> k mod 8 = i mod 8) \<longleftrightarrow> k = i"
    by (metis div_mod_decomp)
  then show ?thesis using assms
    by (auto simp: stream_bit_def nth_list_update bit_simps)
qed

lemma write_bits_spec:
  assumes "packed buf nb"
  shows "snd (write_bits buf nb n v) = nb + n
    \<and> packed (fst (write_bits buf nb n v)) (nb + n)
    \<and> (\<forall>k. stream_bit (fst (write_bits buf nb n v)) k \<longleftrightarrow>
          stream_bit buf k \<or> nb \<le> k \<and> k < nb + n \<and> bit v (k - nb))"
  using assms
proof (induction n arbitrary: buf nb v)
  case 0
  then show ?case by (auto simp: packed_def)
next
  case (Suc n)
  define b1 where "b1 = (if nb mod 8 = 0 then buf @ [0] else buf)"
  define b2 where
    "b2 = (if v AND 1 \<noteq> 0 then b1[nb div 8 := (b1 ! (nb div 8)) OR push_bit (nb mod 8) 1] else b1)"
  have step: "write_bits buf nb (Suc n) v = write_bits b2 (Suc nb) n (drop_bit 1 v)"
    by (simp add: b1_def b2_def Let_def)
  have len1: "length b1 = Suc nb div 8 + (if Suc nb mod 8 = 0 then 0 else 1)"
    using Suc.prems by (simp add: b1_def packed_def div_Suc mod_Suc)
  have s1: "stream_bit b1 k = stream_bit buf k" for k
    by (auto simp: b1_def stream_bit_append dest: stream_bit_length)
  have idx: "nb div 8 < length b1"
    unfolding len1 by (simp add: div_Suc)
  have odd: "v AND 1 \<noteq> 0 \<longleftrightarrow> bit v 0"
    using bit_iff_and_push_bit_not_eq_0 [of v 0] by simp
  have s2: "stream_bit b2 k \<longleftrightarrow> stream_bit buf k \<or> k = nb \<and> bit v 0" for k
    unfolding b2_def odd using stream_bit_set [OF idx] by (simp add: s1)
  have "length b2 = Suc nb div 8 + (if Suc nb mod 8 = 0 then 0 else 1)"
    using len1 by (simp add: b2_def)
  then have p2: "packed b2 (Suc nb)"
    using Suc.prems by (auto simp: packed_def s2 less_Suc_eq)
  note IH = Suc.IH [OF p2, of "drop_bit 1 v", folded step]
  have ih: "stream_bit (fst (write_bits buf nb (Suc n) v)) k \<longleftrightarrow>
      stream_bit b2 k \<or> Suc nb \<le> k \<and> k < Suc nb + n \<and> bit (drop_bit 1 v) (k - Suc nb)" for k
    using IH by blast
  have "stream_bit (fst (write_bits buf nb (Suc n) v)) k \<longleftrightarrow>
      stream_bit buf k \<or> nb \<le> k \<and> k < nb + Suc n \<and> bit v (k - nb)" for k
  proof (cases "Suc nb \<le> k")
    case True
    then obtain j where k: "k = Suc nb + j" using le_Suc_ex by blast
    then have "bit (drop_bit 1 v) (k - Suc nb) = bit v (k - nb)"
      by (simp add: bit_drop_bit_eq)
    with True show ?thesis unfolding ih s2 by auto
  next
    case False
    then show ?thesis unfolding ih s2 by (auto simp: not_less_eq_eq)
  qed
  moreover have "snd (write_bits buf nb (Suc n) v) = nb + Suc n"
    "packed (fst (write_bits buf nb (Suc n) v)) (nb + Suc n)"
    using IH by simp_all
  ultimately show ?case by blast
qed

text \<open>A field written at \<open>next_bit\<close> reads back from there, and earlier fields are unchanged.\<close>

lemma write_bits_word:
  assumes "packed buf nb" "n \<le> 64"
  shows "stream_word (fst (write_bits buf nb n v)) nb n = take_bit n v"
  using write_bits_spec [OF assms(1), of n v] assms
  by (intro bit_word_eqI)
    (auto simp: bit_stream_word bit_take_bit_iff packed_def dest: bit_imp_le_length)

lemma write_bits_before:
  assumes "packed buf nb" "off + m \<le> nb"
  shows "stream_word (fst (write_bits buf nb n v)) off m = stream_word buf off m"
  using write_bits_spec [OF assms(1), of n v] assms
  by (intro bit_word_eqI) (auto simp: bit_stream_word)

lemma write_bits_packed [wf_intros]:
  "packed buf nb \<Longrightarrow> packed (fst (write_bits buf nb n v)) (nb + n)"
  using write_bits_spec by blast

lemma write_bits_next: "snd (write_bits buf nb n v) = nb + n"
  by (induction n arbitrary: buf nb v) (simp_all add: Let_def)

lemma packed_length: "packed buf nb \<Longrightarrow> nb \<le> 8 * length buf"
  using mult_div_mod_eq [of 8 nb] by (auto simp: packed_def split: if_splits)

subsection \<open>Properties\<close>

text \<open>
  C24: For a field that lies in the payload, \<open>extract\_bits\<close> returns its bits from \<open>bit\_offset\<close> on, lowest bit of the first byte
  first, as the raw value; the value is the same, sign-extended from the width if the field is signed, and the maximum is all ones of
  the width (less the sign bit).  A field that starts past the end, has no bits or more than 64 is no field.  A field that starts in
  the payload and runs off its end is left out: the code cuts it to the bits there are, the doc comment says it is padded with ones.
\<close>

theorem extract_bits_correct:
  assumes "bit_offset + bits \<le> 8 * length data \<or> 8 * length data \<le> bit_offset \<or> bits = 0 \<or> 64 < bits"
  shows "extract_bits data bit_offset bits sgnd 0 =
    (if bits = 0 \<or> 64 < bits \<or> 8 * length data \<le> bit_offset then None
     else let raw = stream_word data bit_offset bits in
       Some \<lparr>ex_value = (if sgnd then signed_take_bit (bits - 1) raw else raw),
             ex_max = (if sgnd then mask (bits - 1) else mask bits), ex_raw = raw\<rparr>)"
  using assms by (auto simp: extract_bits_eq_field_spec field_spec_def field_width_def min_def)

lemma extract_bits_correct_witness:
  "extract_bits [0xE0, 0xFF, 0x01] 5 11 True 0 = Some \<lparr>ex_value = -1, ex_max = 1023, ex_raw = 2047\<rparr>"
proof -
  have "(5 :: nat) + 11 \<le> 8 * length [0xE0 :: u8, 0xFF, 0x01]" by simp
  then have "(5 :: nat) + 11 \<le> 8 * length [0xE0 :: u8, 0xFF, 0x01] \<or> 8 * length [0xE0 :: u8, 0xFF, 0x01] \<le> 5 \<or> (11 :: nat) = 0 \<or> 64 < (11 :: nat)" ..
  from extract_bits_correct [OF this, of True] have e: "extract_bits [0xE0, 0xFF, 0x01] 5 11 True 0 =
    (let raw = stream_word [0xE0, 0xFF, 0x01] 5 11 in Some \<lparr>ex_value = signed_take_bit 10 raw, ex_max = mask 10, ex_raw = raw\<rparr>)"
    by simp
  show ?thesis unfolding e by code_simp
qed

text \<open>What the code does at the end of the payload: the field is cut, its bits are not filled up.\<close>

lemma short_field_is_cut: "map_option ex_raw (extract_bits [0x34, 0x12] 0 32 False 0) = Some 0x1234"
  by code_simp

text \<open>
  C25: A value packed by the encoder's \<open>write\_bits\<close> reads back from its place with the
  decoder's \<open>extract\_bits\<close> as its low \<open>n\<close> bits, the write position moves on by
  \<open>n\<close>, and every field packed before keeps its raw value.
\<close>

theorem write_then_extract:
  assumes "packed buf next_bit" "0 < n" "n \<le> 64" "off + m \<le> next_bit" "0 < m" "m \<le> 64"
    and "write_bits buf next_bit n v = (buf', next_bit')"
  shows "map_option ex_raw (extract_bits buf' next_bit n sgnd 0) = Some (take_bit n v) \<and>
    next_bit' = next_bit + n \<and>
    map_option ex_raw (extract_bits buf' off m sgnd 0) = map_option ex_raw (extract_bits buf off m sgnd 0)"
proof -
  have buf': "buf' = fst (write_bits buf next_bit n v)" "next_bit' = next_bit + n"
    using assms(7) write_bits_next [of buf next_bit n v] by auto
  have "packed buf' (next_bit + n)" unfolding buf' by (rule write_bits_packed [OF assms(1)])
  then have len: "next_bit + n \<le> 8 * length buf'" "next_bit \<le> 8 * length buf"
    using packed_length assms(1) by auto
  have fw: "field_width buf' next_bit n = n" "field_width buf' off m = m" "field_width buf off m = m"
    using len assms by (simp_all add: field_width_def)
  have "stream_word buf' next_bit n = take_bit n v"
    unfolding buf' by (rule write_bits_word [OF assms(1,3)])
  moreover have "stream_word buf' off m = stream_word buf off m"
    unfolding buf' by (rule write_bits_before [OF assms(1,4)])
  ultimately show ?thesis
    using assms len fw buf'(2) by (simp add: extract_bits_eq_field_spec field_spec_def Let_def)
qed

lemma write_then_extract_witness:
  "map_option ex_raw (extract_bits [0xAB, 0x05] 8 3 False 0) = Some (take_bit 3 0xD) \<and>
   (11 :: nat) = 8 + 3 \<and>
   map_option ex_raw (extract_bits [0xAB, 0x05] 4 4 False 0) = map_option ex_raw (extract_bits [0xAB] 4 4 False 0)"
proof (rule write_then_extract [of "[0xAB]" 8 3 4 4 "0xD"])
  show "packed [0xAB] 8"
    by (auto simp: packed_def dest: stream_bit_length)
  show "write_bits [0xAB] 8 3 0xD = ([0xAB, 0x05], 11)" by code_simp
qed simp_all

end
