(* ===== verification/Can_Id.thy ===== *)
theory Can_Id
  imports Prelude
begin

section \<open>ISO 11783 CAN identifiers (canboat-core/src/format/common.rs)\<close>

text \<open>
  \<open>iso11783_decompose\<close> splits a 29-bit identifier into (priority, PGN, source, destination) and
  \<open>iso11783_compose\<close> builds it.  The lemmas show the two are inverse on the fields a 29-bit
  identifier can carry.
\<close>

definition iso11783_decompose :: "u32 \<Rightarrow> u8 \<times> u32 \<times> u8 \<times> u8" where
  "iso11783_decompose can_id =
     (let prio = ucast (drop_bit 26 can_id AND 0x7);
          rdp = drop_bit 24 can_id AND 0x3;
          pf = (ucast (drop_bit 16 can_id AND 0xff) :: u8);
          ps = (ucast (drop_bit 8 can_id AND 0xff) :: u8);
          src = ucast (can_id AND 0xff);
          (pgn, dst) =
            (if pf < 240 then (push_bit 16 rdp OR push_bit 8 (ucast pf), ps)
             else (push_bit 16 rdp OR push_bit 8 (ucast pf) OR ucast ps, 0xff))
      in (prio, pgn, src, dst))"

definition iso11783_compose :: "u8 \<Rightarrow> u32 \<Rightarrow> u8 \<Rightarrow> u8 \<Rightarrow> u32" where
  "iso11783_compose prio pgn src dst =
     (let can_id = (ucast src :: u32);
          pf = drop_bit 8 pgn AND 0xff;
          can_id = (if pf < 240 then (can_id OR push_bit 8 (ucast dst)) OR push_bit 8 pgn
                    else can_id OR push_bit 8 pgn)
      in can_id OR push_bit 26 (ucast prio))"

text \<open>The PDU format byte of a PGN; below 240 the destination rides in the identifier.\<close>

definition pgn_pf :: "u32 \<Rightarrow> u8" where
  "pgn_pf pgn = ucast (drop_bit 8 pgn)"

definition is_pdu1 :: "u32 \<Rightarrow> bool" where
  "is_pdu1 pgn \<longleftrightarrow> pgn_pf pgn < 240"

text \<open>What a CAN identifier can carry: a 3-bit priority, an 18-bit PGN, no low byte in a PDU1 PGN.\<close>

definition canid_fields :: "u8 \<Rightarrow> u32 \<Rightarrow> bool" where
  "canid_fields prio pgn \<longleftrightarrow>
     prio < 8 \<and> pgn < 2 ^ 18 \<and> (is_pdu1 pgn \<longrightarrow> pgn AND 0xff = 0)"

lemma ff_mask: "(0xff :: u32) = mask 8" "(0x7 :: u32) = mask 3" "(0x3 :: u32) = mask 2"
  by (simp_all add: mask_eq_exp_minus_1)

lemma bit_less_exp: "(w :: 'a::len word) < 2 ^ n \<Longrightarrow> bit w k \<Longrightarrow> k < n"
proof -
  assume "w < 2 ^ n" "bit w k"
  then have "bit (w AND mask n) k" by (simp only: less_mask_eq)
  then show "k < n" by (simp add: bit_simps)
qed

lemma bit_u8: "bit (b :: u8) k \<Longrightarrow> k < 8"
  using bit_imp_le_length [of b k] by simp

lemma bit_ucast_u8: "bit (ucast (x :: u32) :: u8) k \<longleftrightarrow> k < 8 \<and> bit x k"
  by (auto simp: bit_simps)

lemma bit_ucast_u32: "bit (ucast (x :: u8) :: u32) k \<longleftrightarrow> bit x k"
  by (auto simp: bit_simps dest: bit_imp_le_length)

lemma bit_mask_u32: "bit (mask m :: u32) k \<longleftrightarrow> k < m \<and> k < 32"
  by (auto simp: bit_simps)

lemma pf_u8: "(ucast (w AND 0xff :: u32) :: u8) = ucast w"
  by (rule bit_word_eqI) (auto simp: ff_mask bit_simps)

lemma pf_lt: "(drop_bit 8 pgn AND 0xff < (240 :: u32)) = is_pdu1 pgn"
proof -
  have "drop_bit 8 pgn AND 0xff = ucast (pgn_pf pgn)"
    unfolding pgn_pf_def by (rule bit_word_eqI) (auto simp: ff_mask bit_simps)
  moreover have "unat (ucast (pgn_pf pgn) :: u32) = unat (pgn_pf pgn)"
    by (simp add: unsigned_ucast_eq take_bit_nat_eq_self_iff) (use unsigned_less [of "pgn_pf pgn", where 'a=nat] in simp)
  ultimately show ?thesis
    by (simp add: is_pdu1_def word_less_nat_alt)
qed

lemma bit_compose:
  "bit (iso11783_compose prio pgn src dst) n \<longleftrightarrow> n < 32 \<and>
     (bit src n \<or> is_pdu1 pgn \<and> 8 \<le> n \<and> bit dst (n - 8) \<or> 8 \<le> n \<and> bit pgn (n - 8)
      \<or> 26 \<le> n \<and> bit prio (n - 26))"
  by (auto simp: iso11783_compose_def Let_def pf_lt bit_or_iff bit_push_bit_iff bit_ucast_u32
      dest: bit_imp_le_length)

text \<open>The PGN of an identifier is a mask of its bits 8 to 25: ten of them in PDU1, eighteen in PDU2.\<close>

definition id_pgn :: "u32 \<Rightarrow> u32" where
  "id_pgn can_id = (if is_pdu1 (drop_bit 8 can_id) then drop_bit 8 can_id AND push_bit 8 (mask 10)
     else drop_bit 8 can_id AND mask 18)"

lemma bit_id_pgn:
  "bit (id_pgn can_id) n \<longleftrightarrow>
     (is_pdu1 (drop_bit 8 can_id) \<longrightarrow> 8 \<le> n) \<and> n < 18 \<and> bit can_id (n + 8)"
  by (auto simp: id_pgn_def bit_and_iff bit_push_bit_iff bit_mask_u32 bit_drop_bit_eq add.commute)

lemma decompose_sel:
  "iso11783_decompose can_id =
     (ucast (drop_bit 26 can_id AND 0x7), id_pgn can_id, ucast can_id,
      (if is_pdu1 (drop_bit 8 can_id) then ucast (drop_bit 8 can_id) else 255))"
proof -
  have pf: "(ucast (drop_bit 16 can_id AND 0xff) :: u8) = pgn_pf (drop_bit 8 can_id)"
    by (simp add: pf_u8 pgn_pf_def)
  define r where "r = drop_bit 24 can_id AND 0x3"
  define p where "p = (ucast (pgn_pf (drop_bit 8 can_id)) :: u32)"
  define q where "q = (ucast (ucast (drop_bit 8 can_id) :: u8) :: u32)"
  have r: "bit r k \<longleftrightarrow> k < 2 \<and> bit can_id (k + 24)" for k
    by (auto simp: r_def ff_mask bit_and_iff bit_mask_u32 bit_drop_bit_eq add.commute)
  have p: "bit p k \<longleftrightarrow> k < 8 \<and> bit can_id (k + 16)" for k
    by (auto simp: p_def pgn_pf_def bit_ucast_u32 bit_ucast_u8 bit_drop_bit_eq add.commute)
  have q: "bit q k \<longleftrightarrow> k < 8 \<and> bit can_id (k + 8)" for k
    by (auto simp: q_def bit_ucast_u32 bit_ucast_u8 bit_drop_bit_eq add.commute)
  have hi: "bit (push_bit 16 r OR push_bit 8 p) n \<longleftrightarrow> 8 \<le> n \<and> n < 18 \<and> bit can_id (n + 8)" for n
  proof -
    consider "n < 8" | j where "n = j + 8" "j < 8" | j where "n = j + 16"
      by (rule nat_range_cases [where n = n and a = 8 and b = 8]) simp_all
    then show ?thesis
      by cases (auto simp: bit_or_iff bit_push_bit_iff r p add.commute)
  qed
  have low: "push_bit 16 r OR push_bit 8 p = drop_bit 8 can_id AND push_bit 8 (mask 10)"
  proof (rule bit_word_eqI)
    fix n assume "n < LENGTH(32)"
    show "bit (push_bit 16 r OR push_bit 8 p) n = bit (drop_bit 8 can_id AND push_bit 8 (mask 10)) n"
      unfolding hi by (auto simp: bit_and_iff bit_push_bit_iff bit_mask_u32 bit_drop_bit_eq add.commute)
  qed
  have all: "push_bit 16 r OR push_bit 8 p OR q = drop_bit 8 can_id AND mask 18"
  proof (rule bit_word_eqI)
    fix n assume "n < LENGTH(32)"
    have "bit ((push_bit 16 r OR push_bit 8 p) OR q) n = bit (drop_bit 8 can_id AND mask 18) n"
      unfolding bit_or_iff [of _ q] hi q
      by (auto simp: bit_and_iff bit_mask_u32 bit_drop_bit_eq add.commute)
    then show "bit (push_bit 16 r OR push_bit 8 p OR q) n = bit (drop_bit 8 can_id AND mask 18) n"
      by (simp add: or.assoc)
  qed
  show ?thesis
    unfolding iso11783_decompose_def Let_def pf r_def [symmetric] p_def [symmetric]
    unfolding pf_u8 q_def [symmetric] low all id_pgn_def is_pdu1_def
    by (cases "pgn_pf (drop_bit 8 can_id) < 240") simp_all
qed

lemma compose_decompose:
  assumes "canid_fields prio pgn"
  shows "iso11783_decompose (iso11783_compose prio pgn src dst) =
    (prio, pgn, src, if is_pdu1 pgn then dst else 255)"
proof -
  let ?id = "iso11783_compose prio pgn src dst"
  have prio: "bit prio k \<Longrightarrow> k < 3" and pgn: "bit pgn k \<Longrightarrow> k < 18" for k
    using assms bit_less_exp [of prio 3 k] bit_less_exp [of pgn 18 k]
    by (auto simp: canid_fields_def)
  have low: "is_pdu1 pgn \<Longrightarrow> bit pgn k \<Longrightarrow> 8 \<le> k" for k
  proof (rule ccontr)
    assume "is_pdu1 pgn" "bit pgn k" "\<not> 8 \<le> k"
    then have "bit (pgn AND 0xff) k" by (simp add: ff_mask bit_and_iff bit_mask_u32)
    with \<open>is_pdu1 pgn\<close> assms show False by (simp add: canid_fields_def)
  qed
  have "pgn_pf (drop_bit 8 ?id) = pgn_pf pgn"
    by (rule bit_word_eqI)
      (auto simp: pgn_pf_def bit_ucast_u8 bit_drop_bit_eq bit_compose dest: bit_u8 pgn)
  then have pdu: "is_pdu1 (drop_bit 8 ?id) = is_pdu1 pgn" by (simp add: is_pdu1_def)
  have "ucast (drop_bit 26 ?id AND 0x7) = prio"
    by (rule bit_word_eqI)
      (auto simp: ff_mask bit_ucast_u8 bit_and_iff bit_mask_u32 bit_drop_bit_eq bit_compose
        dest: bit_u8 pgn prio)
  moreover have "id_pgn ?id = pgn"
    by (rule bit_word_eqI)
      (auto simp: bit_id_pgn pdu bit_compose dest: bit_u8 pgn prio low)
  moreover have "(ucast ?id :: u8) = src"
    by (rule bit_word_eqI) (auto simp: bit_ucast_u8 bit_compose dest: bit_u8)
  moreover have "(ucast (drop_bit 8 ?id) :: u8) = dst" if "is_pdu1 pgn"
    using that by (intro bit_word_eqI)
      (auto simp: bit_ucast_u8 bit_drop_bit_eq bit_compose dest: bit_u8 low)
  ultimately show ?thesis by (simp add: decompose_sel pdu)
qed

lemma decompose_compose:
  assumes "iso11783_decompose can_id = (prio, pgn, src, dst)"
  shows "iso11783_compose prio pgn src dst = can_id AND mask 29"
proof -
  have sel: "prio = ucast (drop_bit 26 can_id AND 0x7)" "pgn = id_pgn can_id" "src = ucast can_id"
    "dst = (if is_pdu1 (drop_bit 8 can_id) then ucast (drop_bit 8 can_id) else 255)"
    using assms by (simp_all add: decompose_sel)
  have "pgn_pf pgn = pgn_pf (drop_bit 8 can_id)"
    by (rule bit_word_eqI)
      (auto simp: pgn_pf_def bit_ucast_u8 bit_drop_bit_eq sel(2) bit_id_pgn add.commute)
  then have pdu: "is_pdu1 pgn = is_pdu1 (drop_bit 8 can_id)" by (simp add: is_pdu1_def)
  have prio: "bit prio k \<longleftrightarrow> k < 3 \<and> bit can_id (k + 26)" for k
    by (auto simp: sel(1) ff_mask bit_ucast_u8 bit_and_iff bit_mask_u32 bit_drop_bit_eq add.commute)
  have src: "bit src k \<longleftrightarrow> k < 8 \<and> bit can_id k" for k
    by (auto simp: sel(3) bit_ucast_u8)
  have dst: "is_pdu1 pgn \<Longrightarrow> bit dst k \<longleftrightarrow> k < 8 \<and> bit can_id (k + 8)" for k
    by (auto simp: sel(4) pdu bit_ucast_u8 bit_drop_bit_eq add.commute)
  show ?thesis
  proof (rule bit_word_eqI)
    fix n assume n: "n < LENGTH(32)"
    consider "n < 8" | j where "n = j + 8" "j < 18" | j where "n = j + 26"
      by (rule nat_range_cases [where n = n and a = 8 and b = 18]) simp_all
    then show "bit (iso11783_compose prio pgn src dst) n = bit (can_id AND mask 29) n"
      using n by cases
        (auto simp: bit_compose prio src dst pdu [symmetric] sel(2) bit_id_pgn bit_and_iff bit_mask_u32)
  qed
qed

subsection \<open>Properties\<close>

text \<open>
  C27: Decomposing a composed identifier gives back priority, PGN and source, and the destination
  for a PDU1 PGN (255 for PDU2), for every 3-bit priority and every 18-bit PGN whose low byte is zero
  when it is PDU1.
\<close>

theorem canid_fields_roundtrip:
  assumes "canid_fields prio pgn"
  shows "iso11783_decompose (iso11783_compose prio pgn src dst) =
    (prio, pgn, src, if is_pdu1 pgn then dst else 255)"
  by (rule compose_decompose [OF assms])

lemma canid_fields_roundtrip_witness:
  "iso11783_decompose (iso11783_compose 3 129029 35 7) = (3, 129029, 35, if is_pdu1 129029 then 7 else 255)"
  by (rule canid_fields_roundtrip) (simp add: canid_fields_def is_pdu1_def pgn_pf_def)

text \<open>
  Composing what \<open>iso11783\_decompose\<close> read from an identifier gives its 29 bits back,
  whatever they are.
\<close>

theorem canid_bits_roundtrip:
  "(case iso11783_decompose can_id of (prio, pgn, src, dst) \<Rightarrow> iso11783_compose prio pgn src dst) =
    can_id AND 0x1FFFFFFF"
proof -
  obtain prio pgn src dst where d: "iso11783_decompose can_id = (prio, pgn, src, dst)"
    by (metis prod_cases4)
  have "(0x1FFFFFFF :: u32) = mask 29" by (simp add: mask_eq_exp_minus_1)
  then show ?thesis using decompose_compose [OF d] by (simp add: d)
qed

end
