(* ===== verification/Raw_Frame.thy ===== *)
theory Raw_Frame
  imports Prelude
begin

section \<open>The CAN frame type (canboat-core/src/frame.rs)\<close>

text \<open>
  \<open>RawFrame\<close>: header fields plus a payload that is one CAN frame (at most 8 bytes), a
  coalesced fast packet (at most 223) or a coalesced ISO TP message (at most 1785).  Field names
  carry the prefix \<open>rf_\<close>.
\<close>

definition FASTPACKET_MAX_SIZE :: usize where
  "FASTPACKET_MAX_SIZE = 223"

definition RAWFRAME_MAX_SIZE :: usize where
  "RAWFRAME_MAX_SIZE = 255 * 7"

definition ADDR_GLOBAL :: u8 where
  "ADDR_GLOBAL = 255"

definition ADDR_NULL :: u8 where
  "ADDR_NULL = 254"

record raw_frame =
  rf_timestamp :: "string option"
  rf_prio :: u8
  rf_pgn :: u32
  rf_src :: u8
  rf_dst :: u8
  rf_data :: "u8 list"

definition raw_frame_new ::
  "string option \<Rightarrow> u8 \<Rightarrow> u32 \<Rightarrow> u8 \<Rightarrow> u8 \<Rightarrow> u8 list \<Rightarrow> raw_frame" where
  "raw_frame_new timestamp prio pgn src dst data =
     (let payload = (if length data > RAWFRAME_MAX_SIZE then take RAWFRAME_MAX_SIZE data else data)
      in \<lparr>rf_timestamp = timestamp, rf_prio = prio, rf_pgn = pgn, rf_src = src, rf_dst = dst,
          rf_data = payload\<rparr>)"

lemma raw_frame_new_sel [simp]:
  "rf_timestamp (raw_frame_new t p g s d xs) = t"
  "rf_prio (raw_frame_new t p g s d xs) = p"
  "rf_pgn (raw_frame_new t p g s d xs) = g"
  "rf_src (raw_frame_new t p g s d xs) = s"
  "rf_dst (raw_frame_new t p g s d xs) = d"
  "rf_data (raw_frame_new t p g s d xs) = take RAWFRAME_MAX_SIZE xs"
  by (simp_all add: raw_frame_new_def Let_def)

lemma raw_frame_new_id:
  "length xs \<le> 1785 \<Longrightarrow>
   raw_frame_new t p g s d xs =
     \<lparr>rf_timestamp = t, rf_prio = p, rf_pgn = g, rf_src = s, rf_dst = d, rf_data = xs\<rparr>"
  by (simp add: raw_frame_new_def RAWFRAME_MAX_SIZE_def)

end
