(* ===== verification/Nmea_Name.thy ===== *)
theory Nmea_Name
  imports Prelude
begin

section \<open>The ISO NAME (canboat-io/src/name.rs)\<close>

text \<open>
  The \<open>Name\<close> builder with its setters and \<open>to_u64\<close>, the packing into 64 bits.  The lemmas
  show that the packing is the concatenation of the fields cut to their ISO widths.
\<close>

record name =
  unique_number :: u32
  manufacturer_code :: u16
  device_instance :: u8
  device_function :: u8
  device_class :: u8
  system_instance :: u8
  industry_group :: u8
  arbitrary_address_capable :: bool

definition name_new :: "u16 \<Rightarrow> u32 \<Rightarrow> name" where
  "name_new manufacturer unique =
     \<lparr>unique_number = unique, manufacturer_code = manufacturer, device_instance = 0,
      device_function = 0, device_class = 0, system_instance = 0, industry_group = 4,
      arbitrary_address_capable = True\<rparr>"

definition set_device_function :: "u8 \<Rightarrow> name \<Rightarrow> name" where
  "set_device_function v n = n\<lparr>device_function := v\<rparr>"

definition set_device_class :: "u8 \<Rightarrow> name \<Rightarrow> name" where
  "set_device_class v n = n\<lparr>device_class := v\<rparr>"

definition set_device_instance :: "u8 \<Rightarrow> name \<Rightarrow> name" where
  "set_device_instance v n = n\<lparr>device_instance := v\<rparr>"

definition set_system_instance :: "u8 \<Rightarrow> name \<Rightarrow> name" where
  "set_system_instance v n = n\<lparr>system_instance := v AND 0x0f\<rparr>"

definition set_industry_group :: "u8 \<Rightarrow> name \<Rightarrow> name" where
  "set_industry_group v n = n\<lparr>industry_group := v AND 0x07\<rparr>"

definition set_arbitrary_address_capable :: "bool \<Rightarrow> name \<Rightarrow> name" where
  "set_arbitrary_address_capable v n = n\<lparr>arbitrary_address_capable := v\<rparr>"

definition is_arbitrary_address_capable :: "name \<Rightarrow> bool" where
  "is_arbitrary_address_capable n = arbitrary_address_capable n"

definition name_to_u64 :: "name \<Rightarrow> u64" where
  "name_to_u64 n =
     (let unique = ucast (unique_number n AND 0x1fffff);
          mfr = ucast (manufacturer_code n AND 0x7ff);
          di = ucast (device_instance n) :: u64
      in unique
         OR push_bit 21 mfr
         OR push_bit 32 (di AND 0x07)
         OR push_bit 35 (drop_bit 3 di AND 0x1f)
         OR push_bit 40 (ucast (device_function n) AND 0xff)
         OR push_bit 49 (ucast (device_class n) AND 0x7f)
         OR push_bit 56 (ucast (system_instance n) AND 0x0f)
         OR push_bit 60 (ucast (industry_group n) AND 0x07)
         OR push_bit 63 (of_bool (arbitrary_address_capable n)))"

subsection \<open>The fields of a packed NAME\<close>

text \<open>Bit \<open>k\<close> of a NAME that packs the given fields, by the ISO 11783-5 layout.\<close>

definition name_bit :: "name \<Rightarrow> nat \<Rightarrow> bool" where
  "name_bit n k =
     (if k < 21 then bit (unique_number n) k
      else if k < 32 then bit (manufacturer_code n) (k - 21)
      else if k < 40 then bit (device_instance n) (k - 32)
      else if k < 48 then bit (device_function n) (k - 40)
      else if k < 49 then False
      else if k < 56 then bit (device_class n) (k - 49)
      else if k < 60 then bit (system_instance n) (k - 56)
      else if k < 63 then bit (industry_group n) (k - 60)
      else k = 63 \<and> arbitrary_address_capable n)"

lemma name_masks:
  "(0x1fffff :: u32) = mask 21" "(0x7ff :: u16) = mask 11" "(0x07 :: u64) = mask 3"
  "(0x1f :: u64) = mask 5" "(0xff :: u64) = mask 8" "(0x7f :: u64) = mask 7" "(0x0f :: u64) = mask 4"
  by (simp_all add: mask_eq_exp_minus_1)

lemma bit_field:
  "bit (push_bit m (ucast (b :: 'a::len word) AND mask w) :: u64) k \<longleftrightarrow>
     m \<le> k \<and> k < m + w \<and> k < 64 \<and> bit b (k - m)"
  by (auto simp: bit_simps dest: bit_imp_le_length)

lemma bit_field_unshifted:
  "bit (ucast ((b :: 'a::len word) AND mask w) :: u64) k \<longleftrightarrow> k < w \<and> k < 64 \<and> bit b k"
  by (auto simp: bit_simps dest: bit_imp_le_length)

lemma bit_push_ucast:
  "bit (push_bit m (ucast ((b :: 'a::len word) AND mask w)) :: u64) k \<longleftrightarrow>
     m \<le> k \<and> k < m + w \<and> k < 64 \<and> bit b (k - m)"
  by (auto simp: bit_simps dest: bit_imp_le_length)

lemma bit_of_bool_push:
  "bit (push_bit m (of_bool c) :: u64) k \<longleftrightarrow> k = m \<and> k < 64 \<and> c"
  by (auto simp: bit_simps)

lemma bit_di_high:
  "bit (push_bit 35 (drop_bit 3 (ucast (d :: u8)) AND mask 5) :: u64) k
     \<longleftrightarrow> 35 \<le> k \<and> k < 40 \<and> bit d (k - 32)"
proof -
  define e where "e = (drop_bit 3 (ucast d) AND mask 5 :: u64)"
  have e: "bit e j \<longleftrightarrow> j < 5 \<and> bit d (j + 3)" for j
    by (auto simp: e_def bit_simps add.commute)
  have "35 \<le> k \<Longrightarrow> k - 35 + 3 = k - 32" by simp
  then show ?thesis
    unfolding e_def [symmetric] by (auto simp: bit_push_bit_iff e)
qed

lemma bit_name_to_u64: "bit (name_to_u64 n) k \<longleftrightarrow> name_bit n k"
proof -
  consider "k < 21" | "21 \<le> k" "k < 32" | "32 \<le> k" "k < 35" | "35 \<le> k" "k < 40"
    | "40 \<le> k" "k < 48" | "k = 48" | "49 \<le> k" "k < 56" | "56 \<le> k" "k < 60" | "60 \<le> k" "k < 63"
    | "63 \<le> k" by linarith
  then show ?thesis
    unfolding name_to_u64_def Let_def name_masks bit_or_iff bit_field bit_field_unshifted
      bit_push_ucast bit_di_high bit_of_bool_push name_bit_def
    by cases (simp_all, auto)
qed

lemma slice_eq:
  assumes "LENGTH('a) \<le> 64" "\<And>k. k < m \<Longrightarrow> bit w (a + k) = bit (b :: 'a::len word) k"
  shows "take_bit m (drop_bit a (w :: u64)) = ucast (take_bit m b)"
proof (rule bit_word_eqI)
  fix k assume "k < LENGTH(64)"
  then show "bit (take_bit m (drop_bit a w)) k = bit (ucast (take_bit m b) :: u64) k"
    using assms by (auto simp: bit_take_bit_iff bit_drop_bit_eq bit_ucast_iff)
qed

lemma name_fields:
  "take_bit 21 (drop_bit 0 (name_to_u64 n)) = ucast (take_bit 21 (unique_number n))"
  "take_bit 11 (drop_bit 21 (name_to_u64 n)) = ucast (take_bit 11 (manufacturer_code n))"
  "take_bit 8 (drop_bit 32 (name_to_u64 n)) = ucast (take_bit 8 (device_instance n))"
  "take_bit 8 (drop_bit 40 (name_to_u64 n)) = ucast (take_bit 8 (device_function n))"
  "take_bit 7 (drop_bit 49 (name_to_u64 n)) = ucast (take_bit 7 (device_class n))"
  "take_bit 4 (drop_bit 56 (name_to_u64 n)) = ucast (take_bit 4 (system_instance n))"
  "take_bit 3 (drop_bit 60 (name_to_u64 n)) = ucast (take_bit 3 (industry_group n))"
  "bit (name_to_u64 n) 63 = arbitrary_address_capable n"
  by (rule slice_eq; simp add: bit_name_to_u64 name_bit_def)+
    (simp add: bit_name_to_u64 name_bit_def)

lemma top_bit_u64: "bit (w :: u64) 63 \<longleftrightarrow> \<not> uint w < 2 ^ 63"
proof -
  have "w AND mask 63 = w \<longleftrightarrow> \<not> bit w 63"
  proof
    assume "w AND mask 63 = w"
    then have "bit w 63 \<longleftrightarrow> bit (w AND mask 63) 63" by simp
    then show "\<not> bit w 63" by (simp add: bit_simps)
  next
    assume top: "\<not> bit w 63"
    show "w AND mask 63 = w"
    proof (rule bit_word_eqI)
      fix k assume "k < LENGTH(64)"
      then show "bit (w AND mask 63) k = bit w k"
        using top by (cases "k = 63") (auto simp: bit_simps)
    qed
  qed
  then show ?thesis unfolding mask_eq_iff by blast
qed

text \<open>A node that may move to another address has the larger NAME, so it loses to one that may not.\<close>

lemma name_less_if_not_capable:
  assumes "\<not> arbitrary_address_capable a" "arbitrary_address_capable b"
  shows "name_to_u64 a < name_to_u64 b"
proof -
  have "\<not> bit (name_to_u64 a) 63" "bit (name_to_u64 b) 63" using assms by (simp_all add: name_fields)
  then have "uint (name_to_u64 a) < uint (name_to_u64 b)" unfolding top_bit_u64 by linarith
  then show ?thesis by (simp add: word_less_def)
qed

subsection \<open>Properties\<close>

text \<open>
  \<open>to\_u64\<close> is the ISO 11783-5 layout: each field of the NAME stands at its position, cut to
  its width, bit 48 is zero and bit 63 says whether the node may move to another address; so a node that
  may not move always wins arbitration over one that may.
\<close>

theorem name_layout:
  "(\<forall>k. bit (name_to_u64 n) k = name_bit n k) \<and>
   (\<not> arbitrary_address_capable n \<longrightarrow> arbitrary_address_capable n' \<longrightarrow> name_to_u64 n < name_to_u64 n')"
  using bit_name_to_u64 name_less_if_not_capable by blast

lemma name_layout_witness:
  "name_to_u64 (set_arbitrary_address_capable False (name_new 381 7)) < name_to_u64 (name_new 275 9)"
  using name_layout [of "set_arbitrary_address_capable False (name_new 381 7)" "name_new 275 9"]
  by (simp add: set_arbitrary_address_capable_def name_new_def)

end
