(* ===== verification/Address_Claim.thy ===== *)
theory Address_Claim
  imports Raw_Frame Nmea_Name
begin

section \<open>The address-claim state machine (canboat-io/src/address\_claim.rs)\<close>

text \<open>
  \<open>AddressClaim\<close> of ISO 11783-5: the record, every operation, the invariant that all of them
  keep, and the contract each branch fulfils.  Frames are returned as lists; \<open>now\<close> is the
  \<open>u64\<close> clock in milliseconds, additions wrap as in the release build.
\<close>

definition ADDR_MAX :: u8 where "ADDR_MAX = 253"
definition CLAIM_TIMEOUT_MS :: u64 where "CLAIM_TIMEOUT_MS = 250"
definition SCAN_TIMEOUT_MS :: u64 where "SCAN_TIMEOUT_MS = 1000"
definition PGN_ISO_REQUEST :: u32 where "PGN_ISO_REQUEST = 59904"
definition PGN_ISO_ADDRESS_CLAIM :: u32 where "PGN_ISO_ADDRESS_CLAIM = 60928"

datatype claim_state = Disabled | Scanning | Pending | Claimed | Failed

record address_claim =
  ac_name :: u64
  ac_address :: u8
  ac_preferred :: u8
  ac_state :: claim_state
  ac_deadline :: u64
  ac_arbitrary :: bool
  ac_used :: "u8 \<Rightarrow> bool"

definition ac_new :: "u64 \<Rightarrow> u8 \<Rightarrow> bool \<Rightarrow> address_claim" where
  "ac_new nm preferred arbitrary =
     \<lparr>ac_name = nm, ac_address = preferred, ac_preferred = preferred, ac_state = Pending,
      ac_deadline = 0, ac_arbitrary = arbitrary, ac_used = (\<lambda>_. False)\<rparr>"

definition ac_for_name :: "name \<Rightarrow> u8 \<Rightarrow> address_claim" where
  "ac_for_name nm preferred =
     ac_new (name_to_u64 nm) preferred (is_arbitrary_address_capable nm)"

definition ac_disabled :: "u64 \<Rightarrow> address_claim" where
  "ac_disabled nm = (ac_new nm 0 True)\<lparr>ac_state := Disabled\<rparr>"

definition is_claimed :: "address_claim \<Rightarrow> bool" where
  "is_claimed ac \<longleftrightarrow> ac_state ac = Claimed"

definition claimed_address :: "address_claim \<Rightarrow> u8 option" where
  "claimed_address ac = (if is_claimed ac then Some (ac_address ac) else None)"

definition is_timing :: "address_claim \<Rightarrow> bool" where
  "is_timing ac \<longleftrightarrow> ac_state ac = Scanning \<or> ac_state ac = Pending"

definition claim_frame :: "address_claim \<Rightarrow> raw_frame" where
  "claim_frame ac =
     raw_frame_new None 6 PGN_ISO_ADDRESS_CLAIM (ac_address ac) ADDR_GLOBAL (le_bytes 8 (ac_name ac))"

definition request_frame :: "u8 \<Rightarrow> u8 \<Rightarrow> u32 \<Rightarrow> raw_frame" where
  "request_frame src dst pgn =
     raw_frame_new None 6 PGN_ISO_REQUEST src dst
       [ucast pgn, ucast (drop_bit 8 pgn), ucast (drop_bit 16 pgn)]"

definition pick_free :: "address_claim \<Rightarrow> u8 option" where
  "pick_free ac = find (\<lambda>a. \<not> ac_used ac a) (map word_of_nat [0..<unat ADDR_MAX + 1])"

definition ac_start :: "address_claim \<Rightarrow> u64 \<Rightarrow> address_claim \<times> raw_frame list" where
  "ac_start ac now =
     (if ac_state ac = Disabled then (ac, [])
      else (ac\<lparr>ac_state := Scanning, ac_deadline := now + SCAN_TIMEOUT_MS\<rparr>,
            [request_frame ADDR_NULL ADDR_GLOBAL PGN_ISO_ADDRESS_CLAIM]))"

definition enter_pending :: "u64 \<Rightarrow> address_claim \<Rightarrow> address_claim" where
  "enter_pending now ac = ac\<lparr>ac_state := Pending, ac_deadline := now + CLAIM_TIMEOUT_MS\<rparr>"

definition enter_failed :: "address_claim \<Rightarrow> address_claim" where
  "enter_failed ac = ac\<lparr>ac_address := ADDR_NULL, ac_state := Failed\<rparr>"

definition mark_used :: "u8 \<Rightarrow> address_claim \<Rightarrow> address_claim" where
  "mark_used src ac = ac\<lparr>ac_used := (ac_used ac)(src := True)\<rparr>"

definition on_address_claim ::
  "address_claim \<Rightarrow> u64 \<Rightarrow> u8 \<Rightarrow> u64 \<Rightarrow> address_claim \<times> raw_frame list" where
  "on_address_claim ac now src their_name =
     (if src > ADDR_MAX \<or> ac_state ac = Disabled then (ac, [])
      else if their_name = ac_name ac then (ac, [])
      else if ac_state ac = Scanning \<or> src \<noteq> ac_address ac then (mark_used src ac, [])
      else if ac_name ac < their_name then
        (let ac = enter_pending now ac in (ac, [claim_frame ac]))
      else
        (let ac = mark_used src ac in
         case (if ac_arbitrary ac then pick_free ac else None) of
           Some a \<Rightarrow> (let ac = enter_pending now (ac\<lparr>ac_address := a\<rparr>) in (ac, [claim_frame ac]))
         | None \<Rightarrow> (let ac = enter_failed ac in (ac, [claim_frame ac]))))"

definition respond_to_claim_request :: "address_claim \<Rightarrow> raw_frame option" where
  "respond_to_claim_request ac =
     (if ac_state ac = Claimed \<or> ac_state ac = Pending then Some (claim_frame ac) else None)"

definition begin_claim :: "address_claim \<Rightarrow> u64 \<Rightarrow> address_claim \<times> raw_frame list" where
  "begin_claim ac now =
     (let pending = (\<lambda>ac. let ac = enter_pending now ac in (ac, [claim_frame ac])) in
      if ac_used ac (ac_preferred ac) then
        (case pick_free ac of
           Some a \<Rightarrow> pending (ac\<lparr>ac_address := a\<rparr>)
         | None \<Rightarrow> (let ac = enter_failed ac in (ac, [claim_frame ac])))
      else pending (ac\<lparr>ac_address := ac_preferred ac\<rparr>))"

definition ac_tick :: "address_claim \<Rightarrow> u64 \<Rightarrow> address_claim \<times> raw_frame list" where
  "ac_tick ac now =
     (if ac_state ac = Scanning \<and> now \<ge> ac_deadline ac then begin_claim ac now
      else if ac_state ac = Pending \<and> now \<ge> ac_deadline ac then (ac\<lparr>ac_state := Claimed\<rparr>, [])
      else (ac, []))"

subsection \<open>Picking an address\<close>

lemma addr_list: "a \<le> ADDR_MAX \<longleftrightarrow> a \<in> set (map word_of_nat [0..<unat ADDR_MAX + 1])"
proof -
  have "a \<in> set (map word_of_nat [0..<254])" if "unat a < 254"
    using that by (auto simp: image_iff intro!: bexI [of _ "unat a"])
  moreover have "unat a < 254" if "a \<in> set (map word_of_nat [0..<254])"
    using that by (auto simp: unsigned_of_nat take_bit_nat_eq_self)
  ultimately show ?thesis
    by (auto simp: ADDR_MAX_def word_le_nat_alt less_Suc_eq_le simp flip: Suc_eq_plus1)
qed

lemma pick_free_SomeD:
  assumes "pick_free ac = Some a"
  shows "a \<le> ADDR_MAX" "\<not> ac_used ac a" "b < a \<Longrightarrow> ac_used ac b"
proof -
  obtain i where i: "i < unat ADDR_MAX + 1" "a = word_of_nat i" "\<not> ac_used ac a"
      "\<And>j. j < i \<Longrightarrow> ac_used ac (word_of_nat j)"
    using assms unfolding pick_free_def find_Some_iff by (auto simp del: upt_Suc)
  then have ua: "unat a = i"
    by (simp add: ADDR_MAX_def unsigned_of_nat take_bit_nat_eq_self)
  then show "a \<le> ADDR_MAX" using i(1) by (simp add: word_le_nat_alt)
  show "\<not> ac_used ac a" by (rule i(3))
  show "ac_used ac b" if "b < a"
    using i(4) [of "unat b"] that ua by (simp add: word_less_nat_alt)
qed

lemma pick_free_None_iff: "pick_free ac = None \<longleftrightarrow> (\<forall>a. a \<le> ADDR_MAX \<longrightarrow> ac_used ac a)"
  unfolding pick_free_def find_None_iff addr_list by blast

subsection \<open>The invariant\<close>

text \<open>The node stands on the wire under its address.\<close>

definition holds :: "address_claim \<Rightarrow> bool" where
  "holds ac \<longleftrightarrow> ac_state ac = Pending \<or> ac_state ac = Claimed"

text \<open>
  With an assignable preferred address: a holder's address is assignable and not known to be
  someone else's, and a failed node sits on the null address.
\<close>

definition ac_inv :: "address_claim \<Rightarrow> bool" where
  "ac_inv ac \<longleftrightarrow>
     ac_preferred ac \<le> ADDR_MAX \<and>
     (holds ac \<longrightarrow> ac_address ac \<le> ADDR_MAX \<and> \<not> ac_used ac (ac_address ac)) \<and>
     (ac_state ac = Failed \<longrightarrow> ac_address ac = ADDR_NULL)"

lemma enter_sel [simp]:
  "ac_name (enter_pending n ac) = ac_name ac" "ac_address (enter_pending n ac) = ac_address ac"
  "ac_state (enter_pending n ac) = Pending" "ac_used (enter_pending n ac) = ac_used ac"
  "ac_preferred (enter_pending n ac) = ac_preferred ac" "ac_arbitrary (enter_pending n ac) = ac_arbitrary ac"
  "ac_name (enter_failed ac) = ac_name ac" "ac_address (enter_failed ac) = ADDR_NULL"
  "ac_state (enter_failed ac) = Failed" "ac_used (enter_failed ac) = ac_used ac"
  "ac_preferred (enter_failed ac) = ac_preferred ac" "ac_arbitrary (enter_failed ac) = ac_arbitrary ac"
  "ac_name (mark_used s ac) = ac_name ac" "ac_address (mark_used s ac) = ac_address ac"
  "ac_state (mark_used s ac) = ac_state ac" "ac_used (mark_used s ac) = (ac_used ac)(s := True)"
  "ac_preferred (mark_used s ac) = ac_preferred ac" "ac_arbitrary (mark_used s ac) = ac_arbitrary ac"
  by (simp_all add: enter_pending_def enter_failed_def mark_used_def)

lemma claim_frame_sel [simp]:
  "rf_pgn (claim_frame ac) = PGN_ISO_ADDRESS_CLAIM" "rf_src (claim_frame ac) = ac_address ac"
  "rf_dst (claim_frame ac) = ADDR_GLOBAL" "rf_data (claim_frame ac) = le_bytes 8 (ac_name ac)"
  by (simp_all add: claim_frame_def RAWFRAME_MAX_SIZE_def)

lemma addr_null_reserved [simp]: "ADDR_MAX < ADDR_NULL" "\<not> ADDR_NULL \<le> ADDR_MAX"
  by (simp_all add: ADDR_MAX_def ADDR_NULL_def)

lemma ac_inv_new [wf_intros]: "preferred \<le> ADDR_MAX \<Longrightarrow> ac_inv (ac_new nm preferred arb)"
  by (simp add: ac_inv_def ac_new_def)

lemma ac_inv_disabled [wf_intros]: "ac_inv (ac_disabled nm)"
  by (simp add: ac_inv_def ac_disabled_def ac_new_def ADDR_MAX_def holds_def)

lemma ac_inv_start [wf_intros]: "ac_inv ac \<Longrightarrow> ac_inv (fst (ac_start ac now))"
  by (simp add: ac_inv_def ac_start_def holds_def)

lemma ac_inv_on_address_claim [wf_intros]:
  "ac_inv ac \<Longrightarrow> ac_inv (fst (on_address_claim ac now src nm))"
  by (cases "ac_state ac")
    (auto simp: on_address_claim_def ac_inv_def holds_def Let_def
      dest: pick_free_SomeD split: option.split)

lemma ac_inv_begin_claim [wf_intros]:
  "ac_inv ac \<Longrightarrow> ac_inv (fst (begin_claim ac now))"
  by (auto simp: begin_claim_def ac_inv_def holds_def Let_def
      dest: pick_free_SomeD split: option.split)

lemma ac_inv_tick [wf_intros]: "ac_inv ac \<Longrightarrow> ac_inv (fst (ac_tick ac now))"
  using ac_inv_begin_claim [of ac now] by (auto simp: ac_tick_def ac_inv_def holds_def)

subsection \<open>What the operations do\<close>

text \<open>
  A rival claim on the address the node holds: the lower NAME keeps it and says so again, the higher
  NAME moves to the lowest address not known to be used, or goes silent.
\<close>

lemma on_address_claim_defend:
  assumes "holds ac" "ac_inv ac" "ac_name ac < nm"
  shows "on_address_claim ac now (ac_address ac) nm =
    (enter_pending now ac, [claim_frame (enter_pending now ac)])"
  using assms by (auto simp: on_address_claim_def holds_def ac_inv_def Let_def)

lemma on_address_claim_yield:
  assumes "holds ac" "ac_inv ac" "nm < ac_name ac"
    "on_address_claim ac now (ac_address ac) nm = (ac', fs)"
  shows "ac_address ac' \<noteq> ac_address ac \<and> fs = [claim_frame ac'] \<and>
    (if ac_arbitrary ac \<and> (\<exists>a \<le> ADDR_MAX. a \<noteq> ac_address ac \<and> \<not> ac_used ac a)
     then ac_state ac' = Pending \<and> ac_address ac' \<le> ADDR_MAX \<and> \<not> ac_used ac (ac_address ac')
     else ac_state ac' = Failed)"
proof -
  let ?m = "mark_used (ac_address ac) ac"
  have eq: "on_address_claim ac now (ac_address ac) nm =
     (case (if ac_arbitrary ac then pick_free ?m else None) of
           Some a \<Rightarrow> (let ac = enter_pending now (?m\<lparr>ac_address := a\<rparr>) in (ac, [claim_frame ac]))
         | None \<Rightarrow> (let ac = enter_failed ?m in (ac, [claim_frame ac])))"
  proof -
    have "\<not> ac_name ac < nm" "nm \<noteq> ac_name ac" "ac_state ac \<noteq> Disabled" "ac_state ac \<noteq> Scanning"
      "\<not> ADDR_MAX < ac_address ac"
      using assms(1-3) by (auto simp: holds_def ac_inv_def)
    then show ?thesis by (simp add: on_address_claim_def Let_def)
  qed
  have null: "ADDR_NULL \<noteq> ac_address ac"
    using assms(1,2) by (auto simp: ac_inv_def ADDR_NULL_def ADDR_MAX_def word_le_nat_alt)
  show ?thesis
  proof (cases "if ac_arbitrary ac then pick_free ?m else None")
    case None
    then have "\<not> (ac_arbitrary ac \<and> (\<exists>a \<le> ADDR_MAX. a \<noteq> ac_address ac \<and> \<not> ac_used ac a))"
      by (auto simp: pick_free_None_iff split: if_splits)
    then show ?thesis using assms(4) None null unfolding eq by (auto simp: Let_def)
  next
    case (Some a)
    then have "ac_arbitrary ac" "pick_free ?m = Some a" by (auto split: if_splits)
    moreover from this have "a \<le> ADDR_MAX" "\<not> ac_used ac a" "a \<noteq> ac_address ac"
      using pick_free_SomeD(1,2) [of ?m a] by (auto split: if_splits)
    ultimately show ?thesis using assms(4) Some unfolding eq by (auto simp: Let_def)
  qed
qed

text \<open>Whatever arrives, a node whose NAME is the lower one keeps its address.\<close>

lemma lower_name_keeps_address:
  assumes "holds ac" "ac_name ac < nm"
  shows "ac_address (fst (on_address_claim ac now src nm)) = ac_address ac"
    and "holds (fst (on_address_claim ac now src nm))"
  using assms by (auto simp: on_address_claim_def holds_def Let_def)

text \<open>
  Every step that puts a node on an address broadcasts a claim for it: the frames of the step hold a
  claim of the new address unless the node held that address before.
\<close>

lemma tick_announces:
  assumes "ac_tick ac now = (ac', fs)" "holds ac'"
  shows "holds ac \<and> ac_address ac' = ac_address ac \<or> fs = [claim_frame ac']"
  using assms
  by (auto simp: ac_tick_def begin_claim_def Let_def holds_def split: if_splits option.splits)

lemma on_address_claim_announces:
  assumes "on_address_claim ac now src nm = (ac', fs)" "holds ac'"
  shows "holds ac \<and> ac_address ac' = ac_address ac \<and> \<not> (src = ac_address ac \<and> nm \<noteq> ac_name ac \<and> src \<le> ADDR_MAX)
    \<or> fs = [claim_frame ac']"
  using assms
  by (auto simp: on_address_claim_def Let_def holds_def split: if_splits option.splits)

lemma ac_name_const [simp]:
  "ac_name (fst (ac_start ac now)) = ac_name ac" "ac_name (fst (ac_tick ac now)) = ac_name ac"
  "ac_name (fst (on_address_claim ac now src nm)) = ac_name ac"
  by (auto simp: ac_start_def ac_tick_def begin_claim_def on_address_claim_def Let_def
      split: option.split)

subsection \<open>Properties\<close>

text \<open>A run of one node.\<close>

datatype claim_event = EvStart u64 | EvTick u64 | EvClaim u64 u8 u64

fun claim_run :: "address_claim \<Rightarrow> claim_event list \<Rightarrow> address_claim" where
  "claim_run ac [] = ac"
| "claim_run ac (EvStart now # es) = claim_run (fst (ac_start ac now)) es"
| "claim_run ac (EvTick now # es) = claim_run (fst (ac_tick ac now)) es"
| "claim_run ac (EvClaim now src nm # es) = claim_run (fst (on_address_claim ac now src nm)) es"

lemma ac_inv_run: "ac_inv ac \<Longrightarrow> ac_inv (claim_run ac es)"
  by (induction ac es rule: claim_run.induct) (simp_all add: wf_intros)

text \<open>
  Whatever sequence of starts, ticks and received claims a node goes through from an assignable
  preferred address, a node that stands on the wire stands on an assignable address it has not seen
  anyone else use, and a failed node sits on the null address.
\<close>

theorem claim_run_invariant:
  assumes "preferred \<le> 253"
  shows "let ac = claim_run (ac_new nm preferred arbitrary) es in
    (ac_state ac = Pending \<or> ac_state ac = Claimed \<longrightarrow>
       ac_address ac \<le> 253 \<and> \<not> ac_used ac (ac_address ac)) \<and>
    (ac_state ac = Failed \<longrightarrow> ac_address ac = 254)"
  using ac_inv_run [OF ac_inv_new, of preferred nm arbitrary es] assms
  by (simp add: Let_def ac_inv_def holds_def ADDR_MAX_def ADDR_NULL_def)

lemma claim_run_invariant_witness:
  "let ac = claim_run (ac_new 9 10 True) [EvStart 0, EvTick 1000, EvClaim 1001 10 5] in
    (ac_state ac = Pending \<or> ac_state ac = Claimed \<longrightarrow>
       ac_address ac \<le> 253 \<and> \<not> ac_used ac (ac_address ac)) \<and>
    (ac_state ac = Failed \<longrightarrow> ac_address ac = 254)"
  by (rule claim_run_invariant) simp

text \<open>
  C26: A rival claim on the address a node stands on is settled by NAME.  The lower NAME stays and
  repeats its claim; the higher one moves to an assignable address it has not seen used and claims
  that, or, when it may not move or knows no free address, leaves the bus and says so.
\<close>

theorem arbitration:
  assumes "holds ac" "ac_inv ac" "nm \<noteq> ac_name ac"
    and "on_address_claim ac now (ac_address ac) nm = (ac', frames)"
  shows "if ac_name ac < nm
    then ac' = ac\<lparr>ac_state := Pending, ac_deadline := now + 250\<rparr> \<and> frames = [claim_frame ac]
    else frames = [claim_frame ac'] \<and> ac_address ac' \<noteq> ac_address ac \<and>
      (if ac_arbitrary ac \<and> (\<exists>a \<le> 253. a \<noteq> ac_address ac \<and> \<not> ac_used ac a)
       then ac_state ac' = Pending \<and> ac_address ac' \<le> 253 \<and> \<not> ac_used ac (ac_address ac')
       else ac_state ac' = Failed)"
proof (cases "ac_name ac < nm")
  case True
  have "claim_frame (enter_pending now ac) = claim_frame ac" by (simp add: claim_frame_def)
  with on_address_claim_defend [OF assms(1,2) True, of now] True assms(4) show ?thesis
    by (auto simp: enter_pending_def CLAIM_TIMEOUT_MS_def)
next
  case False
  then have "nm < ac_name ac" using assms(3) by simp
  from on_address_claim_yield [OF assms(1,2) this assms(4)] False show ?thesis
    unfolding ADDR_MAX_def by simp
qed

lemma arbitration_witness:
  "fst (on_address_claim (ac_new 9 10 True) 7 10 12) = (ac_new 9 10 True)\<lparr>ac_state := Pending, ac_deadline := 257\<rparr>"
  using arbitration [of "ac_new 9 10 True" 12 7 "fst (on_address_claim (ac_new 9 10 True) 7 10 12)"
      "snd (on_address_claim (ac_new 9 10 True) 7 10 12)"]
    ac_inv_new [of 10 9 True]
  by (simp add: holds_def ac_new_def ADDR_MAX_def)

end
