(* ===== verification/Claim_Bus.thy ===== *)
theory Claim_Bus
  imports Address_Claim
begin

section \<open>Address claiming on a whole bus\<close>

text \<open>
  Many \<open>AddressClaim\<close> nodes on one bus, run through the operations of Address\_Claim only.
  A frame a node sends is appended to the inbox of every other node; each node reads its own inbox in
  order and at its own pace, and ticks, answers a claim request, restarts or resets at any
  time.  The invariant: when two nodes stand on one address, a claim that will tell one of them is
  still unread.  So once all claims have been read, no two nodes share an address.
\<close>

record bus =
  bus_node :: "nat \<Rightarrow> address_claim"
  bus_inbox :: "nat \<Rightarrow> raw_frame list"

text \<open>What the caller of the module does with a received frame.\<close>

definition deliver_claim :: "address_claim \<Rightarrow> u64 \<Rightarrow> raw_frame \<Rightarrow> address_claim \<times> raw_frame list" where
  "deliver_claim ac now f =
     (if rf_pgn f = PGN_ISO_ADDRESS_CLAIM
      then on_address_claim ac now (rf_src f) (from_le (rf_data f)) else (ac, []))"

text \<open>Node \<open>i\<close> becomes \<open>ac\<close>, and its frames go to everyone else.\<close>

definition bus_update :: "nat \<Rightarrow> address_claim \<times> raw_frame list \<Rightarrow> bus \<Rightarrow> bus" where
  "bus_update i r b =
     \<lparr>bus_node = (bus_node b)(i := fst r),
      bus_inbox = (\<lambda>j. if j = i then bus_inbox b j else bus_inbox b j @ snd r)\<rparr>"

definition bus_start :: "nat \<Rightarrow> u64 \<Rightarrow> bus \<Rightarrow> bus" where
  "bus_start i now b = bus_update i (ac_start (bus_node b i) now) b"

definition bus_tick :: "nat \<Rightarrow> u64 \<Rightarrow> bus \<Rightarrow> bus" where
  "bus_tick i now b = bus_update i (ac_tick (bus_node b i) now) b"

definition bus_respond :: "nat \<Rightarrow> bus \<Rightarrow> bus" where
  "bus_respond i b = bus_update i (bus_node b i,
     case respond_to_claim_request (bus_node b i) of None \<Rightarrow> [] | Some f \<Rightarrow> [f]) b"

definition bus_read :: "nat \<Rightarrow> u64 \<Rightarrow> bus \<Rightarrow> bus" where
  "bus_read i now b =
     (case bus_inbox b i of [] \<Rightarrow> b
      | f # rest \<Rightarrow> bus_update i (deliver_claim (bus_node b i) now f)
                     (b\<lparr>bus_inbox := (bus_inbox b)(i := rest)\<rparr>))"

definition bus_reset :: "nat \<Rightarrow> u8 \<Rightarrow> bool \<Rightarrow> u64 \<Rightarrow> bus \<Rightarrow> bus" where
  "bus_reset i preferred arbitrary now b =
     bus_update i (ac_start (ac_new (ac_name (bus_node b i)) preferred arbitrary) now) b"

definition active :: "address_claim \<Rightarrow> bool" where
  "active ac \<longleftrightarrow> ac_state ac \<noteq> Disabled"

inductive bus_step :: "bus \<Rightarrow> bus \<Rightarrow> bool" where
  start: "bus_step b (bus_start i now b)"
| tick: "bus_step b (bus_tick i now b)"
| respond: "bus_step b (bus_respond i b)"
| read: "bus_step b (bus_read i now b)"
| reset: "active (bus_node b i) \<Longrightarrow> preferred \<le> ADDR_MAX \<Longrightarrow>
    bus_step b (bus_reset i preferred arbitrary now b)"

inductive_cases bus_stepE: "bus_step b b'"

text \<open>
  At the start every node is either disabled or has just begun to scan for an assignable preferred
  address, the NAMEs of the nodes that take part differ, and nothing is in flight.
\<close>

definition fresh_node :: "address_claim \<Rightarrow> bool" where
  "fresh_node ac \<longleftrightarrow> (\<exists>nm. ac = ac_disabled nm) \<or>
     (\<exists>nm p arb now. p \<le> ADDR_MAX \<and> ac = fst (ac_start (ac_new nm p arb) now))"

definition distinct_names :: "bus \<Rightarrow> bool" where
  "distinct_names b \<longleftrightarrow> (\<forall>i j. i \<noteq> j \<and> active (bus_node b i) \<and> active (bus_node b j) \<longrightarrow>
     ac_name (bus_node b i) \<noteq> ac_name (bus_node b j))"

inductive bus_reachable :: "bus \<Rightarrow> bool" where
  init: "(\<And>i. fresh_node (bus_node b i)) \<Longrightarrow> distinct_names b \<Longrightarrow> (\<And>i. bus_inbox b i = []) \<Longrightarrow>
    bus_reachable b"
| step: "bus_reachable b \<Longrightarrow> bus_step b b' \<Longrightarrow> bus_reachable b'"

definition all_read :: "bus \<Rightarrow> bool" where
  "all_read b \<longleftrightarrow> (\<forall>i. active (bus_node b i) \<longrightarrow> bus_inbox b i = [])"

subsection \<open>The invariant of the bus\<close>

definition claim_of :: "u8 \<Rightarrow> u64 \<Rightarrow> raw_frame \<Rightarrow> bool" where
  "claim_of a nm f \<longleftrightarrow>
     rf_pgn f = PGN_ISO_ADDRESS_CLAIM \<and> rf_src f = a \<and> from_le (rf_data f) = nm"

definition unread :: "bus \<Rightarrow> nat \<Rightarrow> nat \<Rightarrow> bool" where
  "unread b i j \<longleftrightarrow>
     (\<exists>f \<in> set (bus_inbox b j). claim_of (ac_address (bus_node b i)) (ac_name (bus_node b i)) f)"

definition clash :: "bus \<Rightarrow> nat \<Rightarrow> nat \<Rightarrow> bool" where
  "clash b i j \<longleftrightarrow> i \<noteq> j \<and> holds (bus_node b i) \<and> holds (bus_node b j) \<and>
     ac_address (bus_node b i) = ac_address (bus_node b j)"

definition bus_inv :: "bus \<Rightarrow> bool" where
  "bus_inv b \<longleftrightarrow> (\<forall>i. ac_inv (bus_node b i)) \<and> distinct_names b \<and>
     (\<forall>i j. clash b i j \<longrightarrow> unread b i j \<or> unread b j i)"

lemma claim_of_claim_frame: "claim_of (ac_address ac) (ac_name ac) (claim_frame ac)"
  using from_le_le_bytes [of 8 "ac_name ac"] by (simp add: claim_of_def)

lemma holds_active: "holds ac \<Longrightarrow> active ac"
  by (auto simp: holds_def active_def)

lemma clash_sym: "clash b i j \<Longrightarrow> clash b j i"
  by (auto simp: clash_def)

lemma bus_update_sel [simp]:
  "bus_node (bus_update i r b) j = (if j = i then fst r else bus_node b j)"
  "bus_inbox (bus_update i r b) j = (if j = i then bus_inbox b j else bus_inbox b j @ snd r)"
  by (simp_all add: bus_update_def)

text \<open>
  One node moves.  The invariant holds again if the node broadcasts a claim for where it now stands,
  or stood there before and dropped no rival's claim to that address from its inbox.
\<close>

lemma bus_inv_update:
  assumes inv: "bus_inv b"
    and ac: "ac_inv (fst r)" "ac_name (fst r) = ac_name (bus_node b i)"
      "active (fst r) \<Longrightarrow> active (bus_node b i)"
    and sub: "bus_node b' = bus_node b" "\<And>j. j \<noteq> i \<Longrightarrow> bus_inbox b' j = bus_inbox b j"
    and ann: "holds (fst r) \<Longrightarrow> claim_frame (fst r) \<in> set (snd r) \<or>
      (holds (bus_node b i) \<and> ac_address (fst r) = ac_address (bus_node b i) \<and>
       (\<forall>f \<in> set (bus_inbox b i). f \<in> set (bus_inbox b' i) \<or>
          (\<forall>nm. claim_of (ac_address (fst r)) nm f \<longrightarrow> nm = ac_name (fst r))))"
  shows "bus_inv (bus_update i r b')"
proof -
  let ?b = "bus_update i r b'"
  have names: "distinct_names ?b"
    using inv ac sub unfolding distinct_names_def bus_inv_def by (auto split: if_splits)
  have old: "unread ?b k l" if "unread b k l" "k \<noteq> i" "l \<noteq> i" for k l
    using that sub unfolding unread_def by auto
  have one: "unread ?b i j \<or> unread ?b j i" if "clash ?b i j" for j
  proof -
    from that have j: "j \<noteq> i" "holds (fst r)" "holds (bus_node b j)"
      "ac_address (fst r) = ac_address (bus_node b j)"
      using sub by (auto simp: clash_def)
    from ann [OF j(2)] show ?thesis
    proof
      assume "claim_frame (fst r) \<in> set (snd r)"
      then show ?thesis using j(1) claim_of_claim_frame [of "fst r"] unfolding unread_def by auto
    next
      assume st: "holds (bus_node b i) \<and> ac_address (fst r) = ac_address (bus_node b i) \<and>
       (\<forall>f \<in> set (bus_inbox b i). f \<in> set (bus_inbox b' i) \<or>
          (\<forall>nm. claim_of (ac_address (fst r)) nm f \<longrightarrow> nm = ac_name (fst r)))"
      with j have c: "clash b i j" by (simp add: clash_def)
      have ne: "ac_name (bus_node b i) \<noteq> ac_name (bus_node b j)"
        using inv j st holds_active unfolding bus_inv_def distinct_names_def by auto
      from c inv have "unread b i j \<or> unread b j i" by (simp add: bus_inv_def)
      then show ?thesis
      proof
        assume "unread b i j"
        then show ?thesis using j(1) st ac(2) sub unfolding unread_def by auto
      next
        assume "unread b j i"
        then obtain f where f: "f \<in> set (bus_inbox b i)"
            "claim_of (ac_address (bus_node b j)) (ac_name (bus_node b j)) f"
          by (auto simp: unread_def)
        then have "f \<in> set (bus_inbox b' i)" using st j(4) ne ac(2) by auto
        then have "unread ?b j i" using f j(1) sub unfolding unread_def by auto
        then show ?thesis ..
      qed
    qed
  qed
  have "unread ?b k l \<or> unread ?b l k" if c: "clash ?b k l" for k l
  proof (cases "k = i \<or> l = i")
    case True
    then show ?thesis using one [of l] one [of k] c clash_sym [OF c] by auto
  next
    case False
    then have "clash b k l" using c sub by (simp add: clash_def)
    then show ?thesis using inv old False unfolding bus_inv_def by blast
  qed
  moreover have "\<forall>j. ac_inv (bus_node ?b j)" using inv ac sub by (simp add: bus_inv_def)
  ultimately show ?thesis using names unfolding bus_inv_def by blast
qed

lemma active_step:
  "active (fst (ac_start ac now)) \<Longrightarrow> active ac" "active (fst (ac_tick ac now)) \<Longrightarrow> active ac"
  "active (fst (deliver_claim ac now f)) \<Longrightarrow> active ac"
  by (auto simp: active_def ac_start_def ac_tick_def deliver_claim_def on_address_claim_def
      split: if_splits)

lemma start_not_holding [simp]: "\<not> holds (fst (ac_start ac now))"
  by (simp add: ac_start_def holds_def)

lemma bus_inv_step: "bus_inv b \<Longrightarrow> bus_step b b' \<Longrightarrow> bus_inv b'"
proof (erule bus_stepE)
  fix i now assume inv: "bus_inv b" and b': "b' = bus_start i now b"
  then have ac: "ac_inv (bus_node b i)" by (simp add: bus_inv_def)
  show "bus_inv b'" unfolding b' bus_start_def
    by (rule bus_inv_update [OF inv])
      (use ac active_step(1) in \<open>simp_all add: ac_inv_start\<close>)
next
  fix i now assume inv: "bus_inv b" and b': "b' = bus_tick i now b"
  then have ac: "ac_inv (bus_node b i)" by (simp add: bus_inv_def)
  have "holds (fst (ac_tick (bus_node b i) now)) \<Longrightarrow>
      holds (bus_node b i) \<and> ac_address (fst (ac_tick (bus_node b i) now)) = ac_address (bus_node b i)
      \<or> snd (ac_tick (bus_node b i) now) = [claim_frame (fst (ac_tick (bus_node b i) now))]"
    by (rule tick_announces) simp_all
  with ac show "bus_inv b'" unfolding b' bus_tick_def
    by (intro bus_inv_update [OF inv]) (auto simp: ac_inv_tick dest: active_step)
next
  fix i assume inv: "bus_inv b" and b': "b' = bus_respond i b"
  then have ac: "ac_inv (bus_node b i)" by (simp add: bus_inv_def)
  show "bus_inv b'" unfolding b' bus_respond_def
    by (rule bus_inv_update [OF inv]) (use ac in auto)
next
  fix i now assume inv: "bus_inv b" and b': "b' = bus_read i now b"
  then have ac: "ac_inv (bus_node b i)" by (simp add: bus_inv_def)
  show "bus_inv b'"
  proof (cases "bus_inbox b i")
    case Nil
    then show ?thesis using inv b' by (simp add: bus_read_def)
  next
    case (Cons f rest)
    let ?r = "deliver_claim (bus_node b i) now f"
    have "holds (fst ?r) \<Longrightarrow> snd ?r = [claim_frame (fst ?r)] \<or>
        (holds (bus_node b i) \<and> ac_address (fst ?r) = ac_address (bus_node b i) \<and>
         (\<forall>nm. claim_of (ac_address (fst ?r)) nm f \<longrightarrow> nm = ac_name (fst ?r)))"
    proof (cases "rf_pgn f = PGN_ISO_ADDRESS_CLAIM")
      case True
      assume h: "holds (fst ?r)"
      obtain ac' fs where r: "on_address_claim (bus_node b i) now (rf_src f) (from_le (rf_data f)) = (ac', fs)"
        by (cases "on_address_claim (bus_node b i) now (rf_src f) (from_le (rf_data f))")
      with True have eq: "?r = (ac', fs)" by (simp add: deliver_claim_def)
      from h have h': "holds ac'" by (simp add: eq)
      have nm: "ac_name ac' = ac_name (bus_node b i)"
        using ac_name_const(3) [of "bus_node b i" now "rf_src f" "from_le (rf_data f)"] r by simp
      have "ac_inv ac'" using ac_inv_on_address_claim [OF ac, of now "rf_src f" "from_le (rf_data f)"] r by simp
      then have "ac_address ac' \<le> ADDR_MAX" using h' by (simp add: ac_inv_def)
      then show ?thesis using on_address_claim_announces [OF r h'] nm unfolding eq claim_of_def by auto
    next
      case False
      assume h: "holds (fst ?r)"
      with False show ?thesis by (simp add: deliver_claim_def claim_of_def)
    qed
    moreover have "ac_inv (fst ?r)" "ac_name (fst ?r) = ac_name (bus_node b i)"
      using ac by (simp_all add: deliver_claim_def ac_inv_on_address_claim)
    ultimately show ?thesis unfolding b' bus_read_def Cons list.case
      using Cons active_step(3) [of "bus_node b i" now f]
      by (intro bus_inv_update [OF inv]) auto
  qed
next
  fix i p arb now assume inv: "bus_inv b" and b': "b' = bus_reset i p arb now b"
    and i: "active (bus_node b i)" "p \<le> ADDR_MAX"
  show "bus_inv b'" unfolding b' bus_reset_def
    by (rule bus_inv_update [OF inv])
      (use i in \<open>simp_all add: ac_inv_start ac_inv_new\<close>, simp add: ac_new_def)
qed

lemma fresh_node_inv: "fresh_node ac \<Longrightarrow> ac_inv ac \<and> \<not> holds ac"
  by (auto simp: fresh_node_def ac_inv_disabled ac_inv_start ac_inv_new)
    (auto simp: ac_disabled_def ac_start_def ac_new_def holds_def)

lemma bus_inv_reachable: "bus_reachable b \<Longrightarrow> bus_inv b"
proof (induction rule: bus_reachable.induct)
  case (init b)
  then show ?case using fresh_node_inv by (auto simp: bus_inv_def clash_def)
next
  case (step b b')
  then show ?case using bus_inv_step by blast
qed

lemma no_shared_address:
  "bus_reachable b \<Longrightarrow> all_read b \<Longrightarrow> i \<noteq> j \<Longrightarrow> holds (bus_node b i) \<Longrightarrow> holds (bus_node b j) \<Longrightarrow>
   ac_address (bus_node b i) \<noteq> ac_address (bus_node b j)"
  using bus_inv_reachable [of b] holds_active
  unfolding bus_inv_def clash_def unread_def all_read_def by fastforce

subsection \<open>Properties\<close>

text \<open>
  C3: On a bus of any number of claiming nodes with different NAMEs, whatever the order of their starts,
  ticks, answers, resets and the reading of each other's claims: once every claim has been read, no two
  nodes that stand on the wire have the same address.
\<close>

theorem claimed_addresses_distinct:
  assumes "bus_reachable b" "all_read b" "i \<noteq> j"
    and "holds (bus_node b i)" "holds (bus_node b j)"
  shows "ac_address (bus_node b i) \<noteq> ac_address (bus_node b j)"
  by (rule no_shared_address [OF assms])

definition two_nodes :: bus where
  "two_nodes = \<lparr>bus_node = (\<lambda>i. if i = 0 then fst (ac_start (ac_new 1 10 True) 0)
      else if i = 1 then fst (ac_start (ac_new 2 10 True) 0) else ac_disabled 0), bus_inbox = (\<lambda>_. [])\<rparr>"

text \<open>Both prefer address 10 and claim it at once; the higher NAME moves to address 0.\<close>

definition two_nodes_end :: bus where
  "two_nodes_end =
     bus_read 0 1003 (bus_read 1 1002 (bus_read 1 1001 (bus_read 0 1001
       (bus_tick 1 1000 (bus_tick 0 1000 two_nodes)))))"

lemma fresh_nodes: "p \<le> ADDR_MAX \<Longrightarrow> fresh_node (fst (ac_start (ac_new nm p arb) now))"
  "fresh_node (ac_disabled nm)"
  unfolding fresh_node_def by blast+

lemma two_nodes_reachable: "bus_reachable two_nodes_end"
proof -
  have "bus_reachable two_nodes"
  proof (rule bus_reachable.init)
    fix i
    show "fresh_node (bus_node two_nodes i)"
      unfolding two_nodes_def by (simp add: fresh_nodes ADDR_MAX_def)
    show "bus_inbox two_nodes i = []" by (simp add: two_nodes_def)
  qed (auto simp: distinct_names_def two_nodes_def active_def ac_disabled_def ac_start_def ac_new_def)
  then show ?thesis
    unfolding two_nodes_end_def by (intro bus_reachable.step [OF _ bus_step.tick]
      bus_reachable.step [OF _ bus_step.read])
qed

lemma pick_free_zero: "\<not> ac_used ac 0 \<Longrightarrow> pick_free ac = Some 0"
  by (simp add: pick_free_def upt_conv_Cons del: upt_Suc)

text \<open>The run, one node at a time: node 0 keeps address 10, node 1 ends on address 0.\<close>

definition node_a :: address_claim where
  "node_a = \<lparr>ac_name = 1, ac_address = 10, ac_preferred = 10, ac_state = Pending, ac_deadline = 1250,
     ac_arbitrary = True, ac_used = (\<lambda>_. False)\<rparr>"

definition node_b :: address_claim where
  "node_b = node_a\<lparr>ac_name := 2\<rparr>"

definition node_b_moved :: address_claim where
  "node_b_moved = node_b\<lparr>ac_address := 0, ac_used := (\<lambda>_. False)(10 := True), ac_deadline := 1251\<rparr>"

lemma read_claim:
  "bus_inbox b i = claim_frame ac # rest \<Longrightarrow>
   bus_read i now b = bus_update i (on_address_claim (bus_node b i) now (ac_address ac) (ac_name ac))
     (b\<lparr>bus_inbox := (bus_inbox b)(i := rest)\<rparr>)"
  using from_le_le_bytes [of 8 "ac_name ac"] by (simp add: bus_read_def deliver_claim_def)

lemma two_nodes_runs:
  "ac_tick (bus_node two_nodes 0) 1000 = (node_a, [claim_frame node_a])"
  "ac_tick (bus_node two_nodes 1) 1000 = (node_b, [claim_frame node_b])"
  "on_address_claim node_a 1001 10 2 = (node_a\<lparr>ac_deadline := 1251\<rparr>, [claim_frame node_a])"
  "on_address_claim node_b 1001 10 1 = (node_b_moved, [claim_frame node_b_moved])"
  "on_address_claim node_b_moved 1002 10 1 = (node_b_moved, [])"
  "on_address_claim (node_a\<lparr>ac_deadline := 1251\<rparr>) 1003 0 2 =
     (node_a\<lparr>ac_deadline := 1251, ac_used := (\<lambda>_. False)(0 := True)\<rparr>, [])"
  by (simp_all add: two_nodes_def ac_tick_def ac_start_def ac_new_def begin_claim_def enter_pending_def
      node_a_def node_b_def node_b_moved_def on_address_claim_def mark_used_def pick_free_zero Let_def
      ADDR_MAX_def SCAN_TIMEOUT_MS_def CLAIM_TIMEOUT_MS_def claim_frame_def)

lemma two_nodes_end_state:
  "bus_node two_nodes_end 0 = node_a\<lparr>ac_deadline := 1251, ac_used := (\<lambda>_. False)(0 := True)\<rparr>"
  "bus_node two_nodes_end 1 = node_b_moved"
  "i \<noteq> 0 \<Longrightarrow> i \<noteq> 1 \<Longrightarrow> bus_node two_nodes_end i = ac_disabled 0"
  "bus_inbox two_nodes_end 0 = []" "bus_inbox two_nodes_end 1 = []"
proof -
  define b1 where "b1 = bus_tick 0 1000 two_nodes"
  define b2 where "b2 = bus_tick 1 1000 b1"
  define b3 where "b3 = bus_read 0 1001 b2"
  define b4 where "b4 = bus_read 1 1001 b3"
  define b5 where "b5 = bus_read 1 1002 b4"
  have ini: "bus_inbox two_nodes i = []" "i \<noteq> 0 \<Longrightarrow> i \<noteq> 1 \<Longrightarrow> bus_node two_nodes i = ac_disabled 0" for i
    by (simp_all add: two_nodes_def)
  have 1: "bus_node b1 0 = node_a" "bus_node b1 1 = bus_node two_nodes 1" "bus_inbox b1 0 = []"
    "bus_inbox b1 1 = [claim_frame node_a]" "i \<noteq> 0 \<Longrightarrow> i \<noteq> 1 \<Longrightarrow> bus_node b1 i = ac_disabled 0" for i
    by (simp_all add: b1_def bus_tick_def two_nodes_runs ini del: One_nat_def)
  have 2: "bus_node b2 0 = node_a" "bus_node b2 1 = node_b" "bus_inbox b2 0 = [claim_frame node_b]"
    "bus_inbox b2 1 = [claim_frame node_a]" "i \<noteq> 0 \<Longrightarrow> i \<noteq> 1 \<Longrightarrow> bus_node b2 i = ac_disabled 0" for i
    by (simp_all add: b2_def bus_tick_def two_nodes_runs 1 del: One_nat_def)
  have adr: "ac_address node_a = 10" "ac_name node_a = 1" "ac_address node_b = 10" "ac_name node_b = 2"
    "ac_address node_b_moved = 0" "ac_name node_b_moved = 2"
    by (simp_all add: node_a_def node_b_def node_b_moved_def)
  have 3: "bus_node b3 0 = node_a\<lparr>ac_deadline := 1251\<rparr>" "bus_node b3 1 = node_b" "bus_inbox b3 0 = []"
    "bus_inbox b3 1 = [claim_frame node_a, claim_frame node_a]"
    "i \<noteq> 0 \<Longrightarrow> i \<noteq> 1 \<Longrightarrow> bus_node b3 i = ac_disabled 0" for i
    by (simp_all add: b3_def read_claim [OF 2(3)] two_nodes_runs 2 adr del: One_nat_def)
  have 4: "bus_node b4 0 = node_a\<lparr>ac_deadline := 1251\<rparr>" "bus_node b4 1 = node_b_moved"
    "bus_inbox b4 0 = [claim_frame node_b_moved]" "bus_inbox b4 1 = [claim_frame node_a]"
    "i \<noteq> 0 \<Longrightarrow> i \<noteq> 1 \<Longrightarrow> bus_node b4 i = ac_disabled 0" for i
    by (simp_all add: b4_def read_claim [OF 3(4)] two_nodes_runs 3 adr del: One_nat_def)
  have 5: "bus_node b5 0 = node_a\<lparr>ac_deadline := 1251\<rparr>" "bus_node b5 1 = node_b_moved"
    "bus_inbox b5 0 = [claim_frame node_b_moved]" "bus_inbox b5 1 = []"
    "i \<noteq> 0 \<Longrightarrow> i \<noteq> 1 \<Longrightarrow> bus_node b5 i = ac_disabled 0" for i
    by (simp_all add: b5_def read_claim [OF 4(4)] two_nodes_runs 4 adr del: One_nat_def)
  have 6: "two_nodes_end = bus_read 0 1003 b5"
    by (simp add: two_nodes_end_def b1_def b2_def b3_def b4_def b5_def)
  show "bus_node two_nodes_end 0 = node_a\<lparr>ac_deadline := 1251, ac_used := (\<lambda>_. False)(0 := True)\<rparr>"
    "bus_node two_nodes_end 1 = node_b_moved"
    "i \<noteq> 0 \<Longrightarrow> i \<noteq> 1 \<Longrightarrow> bus_node two_nodes_end i = ac_disabled 0"
    "bus_inbox two_nodes_end 0 = []" "bus_inbox two_nodes_end 1 = []"
    by (simp_all add: 6 read_claim [OF 5(3)] two_nodes_runs 5 adr del: One_nat_def)
qed

lemma claimed_addresses_distinct_witness:
  "ac_address (bus_node two_nodes_end 0) \<noteq> ac_address (bus_node two_nodes_end 1)"
proof (rule claimed_addresses_distinct [OF two_nodes_reachable])
  show "all_read two_nodes_end"
    unfolding all_read_def
  proof (intro allI impI)
    fix i assume "active (bus_node two_nodes_end i)"
    moreover have "\<not> active (ac_disabled 0)" by (simp add: active_def ac_disabled_def)
    ultimately have "i = 0 \<or> i = 1" using two_nodes_end_state(3) [of i] by fastforce
    then show "bus_inbox two_nodes_end i = []" using two_nodes_end_state by auto
  qed
qed (simp_all add: two_nodes_end_state holds_def node_a_def node_b_def node_b_moved_def
    del: One_nat_def)

end
