(* ===== verification/Packet_Type.thy ===== *)
theory Packet_Type
  imports Prelude
begin

section \<open>Single frame or fast packet (canboat-io/src/fastpacket.rs, canboat-io/build.rs)\<close>

text \<open>
  \<open>build.rs\<close> turns the PGN database into the table \<open>FASTPACKET_MIXED\<close>, and
  \<open>packet_type\<close> classifies a PGN by range and by that table.  A database entry is the
  triple of what the generator reads from it: the PGN number, whether it is a range fallback, whether its
  type is \<open>Fast\<close>.
\<close>

datatype frame_packet_type = Single | Fast | Other

record pgn_entry =
  pe_pgn :: u32
  pe_fallback :: bool
  pe_fast :: bool

definition MIXED_START :: u32 where "MIXED_START = 0x1F000"
definition MIXED_END :: u32 where "MIXED_END = 0x20000"
definition PROPRIETARY_START :: u32 where "PROPRIETARY_START = 0x1FF00"
definition CANBOAT_PGN_START :: u32 where "CANBOAT_PGN_START = 0x40000"

definition in_mixed :: "u32 \<Rightarrow> bool" where
  "in_mixed pgn \<longleftrightarrow> MIXED_START \<le> pgn \<and> pgn < MIXED_END"

definition default_table :: "bool list" where
  "default_table =
     map (\<lambda>i. MIXED_START + word_of_nat i \<ge> PROPRIETARY_START) [0..<unat (MIXED_END - MIXED_START)]"

definition table_step :: "bool list \<Rightarrow> pgn_entry \<Rightarrow> bool list" where
  "table_step fast p =
     (if \<not> in_mixed (pe_pgn p) then fast
      else if pe_fallback p then fast
      else fast[unat (pe_pgn p - MIXED_START) := pe_fast p])"

definition build_table :: "pgn_entry list \<Rightarrow> bool list" where
  "build_table db = foldl table_step default_table db"

definition packet_type :: "bool list \<Rightarrow> u32 \<Rightarrow> frame_packet_type" where
  "packet_type FASTPACKET_MIXED pgn =
     (if in_mixed pgn then
        (if FASTPACKET_MIXED ! unat (pgn - MIXED_START) then Fast else Single)
      else if 0x10000 \<le> pgn \<and> pgn < MIXED_START then Fast
      else if pgn \<ge> CANBOAT_PGN_START then Fast
      else Single)"

text \<open>What the table must say: the last real entry of a PGN decides, else the proprietary default.\<close>

definition db_fast :: "pgn_entry list \<Rightarrow> u32 \<Rightarrow> bool" where
  "db_fast db pgn =
     (case filter (\<lambda>p. pe_pgn p = pgn \<and> \<not> pe_fallback p) db of
        [] \<Rightarrow> pgn \<ge> PROPRIETARY_START
      | ps \<Rightarrow> pe_fast (last ps))"

lemma length_table [simp]: "length (build_table db) = 4096"
proof -
  have "length (foldl table_step t db) = length t" for t
    by (induction db arbitrary: t) (simp_all add: table_step_def)
  then show ?thesis by (simp add: build_table_def default_table_def MIXED_END_def MIXED_START_def)
qed

lemma mixed_index:
  assumes "in_mixed pgn"
  shows "unat (pgn - MIXED_START) < 4096" "MIXED_START + word_of_nat (unat (pgn - MIXED_START)) = pgn"
proof -
  have "MIXED_START \<le> pgn" "unat pgn < 131072"
    using assms by (simp_all add: in_mixed_def MIXED_END_def word_less_nat_alt)
  then show "unat (pgn - MIXED_START) < 4096" by (simp add: unat_sub MIXED_START_def)
qed simp

lemma mixed_index_inj:
  "in_mixed p \<Longrightarrow> in_mixed q \<Longrightarrow> unat (p - MIXED_START) = unat (q - MIXED_START) \<longleftrightarrow> p = q"
  by (metis word_eq_iff_unsigned diff_add_cancel)

lemma build_table_snoc: "build_table (db @ [p]) = table_step (build_table db) p"
  by (simp add: build_table_def)

lemma build_table_nth:
  assumes "in_mixed pgn"
  shows "build_table db ! unat (pgn - MIXED_START) = db_fast db pgn"
proof (induction db rule: rev_induct)
  case Nil
  show ?case using mixed_index [OF assms]
    by (simp add: build_table_def default_table_def db_fast_def MIXED_END_def MIXED_START_def)
next
  case (snoc p db)
  show ?case
  proof (cases "pe_pgn p = pgn \<and> \<not> pe_fallback p")
    case True
    then have "db_fast (db @ [p]) pgn = pe_fast p"
      unfolding db_fast_def by (cases "filter (\<lambda>p. pe_pgn p = pgn \<and> \<not> pe_fallback p) db") simp_all
    then show ?thesis using True mixed_index(1) [OF assms] assms
      by (simp add: build_table_snoc table_step_def)
  next
    case False
    then have "build_table (db @ [p]) ! unat (pgn - MIXED_START) = build_table db ! unat (pgn - MIXED_START)"
      using assms mixed_index_inj [of "pe_pgn p" pgn]
      by (auto simp: build_table_snoc table_step_def nth_list_update)
    with False snoc show ?thesis by (auto simp: db_fast_def)
  qed
qed

lemma packet_type_mixed:
  "in_mixed pgn \<Longrightarrow> packet_type (build_table db) pgn = (if db_fast db pgn then Fast else Single)"
  by (simp add: packet_type_def build_table_nth)

lemma packet_type_never_other: "packet_type t pgn \<noteq> Other"
  by (simp add: packet_type_def)

subsection \<open>Properties\<close>

text \<open>
  With the table built from a PGN database, \<open>packet\_type\<close> follows the last entry of the PGN
  that is not a range fallback for the PGNs 0x1F000 to 0x1FFFF (without one: fast exactly for the proprietary tail
  from 0x1FF00 on), is fast for 0x10000 to 0x1EFFF and for the synthetic PGNs from 0x40000 on, and single otherwise.
\<close>

theorem packet_type_from_database:
  "packet_type (build_table db) pgn =
     (if 0x1F000 \<le> pgn \<and> pgn < 0x20000 then (if db_fast db pgn then Fast else Single)
      else if 0x10000 \<le> pgn \<and> pgn < 0x1F000 \<or> 0x40000 \<le> pgn then Fast else Single)"
  using packet_type_mixed [of pgn db]
  by (auto simp: in_mixed_def MIXED_START_def MIXED_END_def CANBOAT_PGN_START_def packet_type_def)

end
