(* ===== verification/Reassembly.thy ===== *)
theory Reassembly
  imports Raw_Frame Packet_Type
begin

section \<open>Fast-packet and ISO TP reassembly (canboat-core/src/reassembly.rs)\<close>

text \<open>
  The state and every operation of \<open>Reassembler\<close>: the fast-packet slots keyed by
  (PGN, source, sequence), the ISO TP sessions keyed by source, and \<open>push\<close>, which dispatches
  between them.  Log lines are left out.  The properties are in Fast\_Packet and Iso\_Tp.
\<close>

definition REASSEMBLY_BUFFER_SIZE :: usize where "REASSEMBLY_BUFFER_SIZE = 64"
definition BUCKET_0_SIZE :: usize where "BUCKET_0_SIZE = 6"
definition BUCKET_N_SIZE :: usize where "BUCKET_N_SIZE = 7"
definition BUCKET_0_OFFSET :: usize where "BUCKET_0_OFFSET = 2"
definition BUCKET_N_OFFSET :: usize where "BUCKET_N_OFFSET = 1"
definition FASTPACKET_MAX_INDEX :: u32 where "FASTPACKET_MAX_INDEX = 0x1f"
definition PGN_ISO_TP_CM :: u32 where "PGN_ISO_TP_CM = 60416"
definition PGN_ISO_TP_DT :: u32 where "PGN_ISO_TP_DT = 60160"
definition TP_CM_BAM :: u8 where "TP_CM_BAM = 32"
definition TP_CM_RTS :: u8 where "TP_CM_RTS = 16"
definition TP_CM_ABORT :: u8 where "TP_CM_ABORT = 255"
definition ISO_TP_SLOTS :: usize where "ISO_TP_SLOTS = 16"
definition ISO_TP_MAX_SIZE :: usize where "ISO_TP_MAX_SIZE = 255 * BUCKET_N_SIZE"

datatype reassembly_error = EmptyData | OutOfSlots u32 u8

datatype reassembled =
    PassThrough raw_frame
  | Complete raw_frame
  | Partial
  | Error reassembly_error

record slot =
  sl_used :: bool
  sl_pgn :: u32
  sl_src :: u8
  sl_seq :: u8
  sl_frames :: u32
  sl_all_frames :: u32
  sl_size :: usize
  sl_age :: u64
  sl_data :: "u8 list"

record tp_slot =
  tp_used :: bool
  tp_src :: u8
  tp_dst :: u8
  tp_prio :: u8
  tp_target_pgn :: u32
  tp_total_size :: usize
  tp_packets :: u8
  tp_received :: "u64 list"
  tp_timestamp :: "string option"
  tp_data :: "u8 list"
  tp_age :: u64

record reassembler =
  ra_slots :: "slot list"
  ra_tp_slots :: "tp_slot list"
  ra_next_age :: u64
  ra_tp_next_age :: u64

definition slot_default :: slot where
  "slot_default =
     \<lparr>sl_used = False, sl_pgn = 0, sl_src = 0, sl_seq = 0, sl_frames = 0, sl_all_frames = 0,
      sl_size = 0, sl_age = 0, sl_data = replicate FASTPACKET_MAX_SIZE 0\<rparr>"

definition tp_slot_default :: tp_slot where
  "tp_slot_default =
     \<lparr>tp_used = False, tp_src = 0, tp_dst = 0, tp_prio = 0, tp_target_pgn = 0, tp_total_size = 0,
      tp_packets = 0, tp_received = [0, 0, 0, 0], tp_timestamp = None, tp_data = [], tp_age = 0\<rparr>"

definition reassembler_new :: reassembler where
  "reassembler_new =
     \<lparr>ra_slots = replicate REASSEMBLY_BUFFER_SIZE slot_default,
      ra_tp_slots = replicate ISO_TP_SLOTS tp_slot_default, ra_next_age = 0, ra_tp_next_age = 0\<rparr>"

subsection \<open>Fast-packet slots\<close>

definition find_slot :: "slot list \<Rightarrow> u32 \<Rightarrow> u8 \<Rightarrow> u8 \<Rightarrow> nat option" where
  "find_slot slots pgn src seq =
     position (\<lambda>s. sl_used s \<and> sl_pgn s = pgn \<and> sl_src s = src \<and> sl_seq s = seq) slots"

text \<open>The slot to claim: the first unused one, else the least recently claimed.\<close>

definition pick_slot :: "slot list \<Rightarrow> nat option" where
  "pick_slot slots =
     (case position (\<lambda>s. \<not> sl_used s) slots of
        Some i \<Rightarrow> Some i
      | None \<Rightarrow> min_index sl_age slots)"

definition slot_claimed :: "u32 \<Rightarrow> u8 \<Rightarrow> u8 \<Rightarrow> u64 \<Rightarrow> slot" where
  "slot_claimed pgn src seq age =
     slot_default\<lparr>sl_used := True, sl_pgn := pgn, sl_src := src, sl_seq := seq, sl_age := age\<rparr>"

definition claim_slot :: "reassembler \<Rightarrow> u32 \<Rightarrow> u8 \<Rightarrow> u8 \<Rightarrow> reassembler \<times> nat option" where
  "claim_slot r pgn src seq =
     (case pick_slot (ra_slots r) of
        None \<Rightarrow> (r, None)
      | Some idx \<Rightarrow>
          (r\<lparr>ra_next_age := ra_next_age r + 1,
             ra_slots := (ra_slots r)[idx := slot_claimed pgn src seq (ra_next_age r)]\<rparr>, Some idx))"

text \<open>What frame 0 declares: the payload size and the mask of the frame indices it needs.\<close>

definition declared_frames :: "u8 list \<Rightarrow> usize \<times> u32" where
  "declared_frames data =
     (let declared = (if 1 < length data then unat (data ! 1) else 0);
          size = min declared FASTPACKET_MAX_SIZE;
          needed = min (1 + size div BUCKET_N_SIZE) (unat FASTPACKET_MAX_INDEX + 1);
          all_frames = (if needed = 0 then 0 else if needed \<ge> 32 then - 1 else push_bit needed 1 - 1)
      in (size, all_frames))"

text \<open>A frame's payload goes into its bucket; a short frame is padded with \<open>0xFF\<close>.\<close>

definition store_bucket :: "nat \<Rightarrow> u8 list \<Rightarrow> u8 list \<Rightarrow> u8 list" where
  "store_bucket frame_index data buf =
     (let (dst_off, src_off, bucket_len) =
            (if frame_index = 0 then (0, BUCKET_0_OFFSET, BUCKET_0_SIZE)
             else (BUCKET_0_SIZE + (frame_index - 1) * BUCKET_N_SIZE, BUCKET_N_OFFSET, BUCKET_N_SIZE));
          end = min (dst_off + bucket_len) FASTPACKET_MAX_SIZE;
          bucket_capacity = end - dst_off;
          available = length data - src_off;
          copy_len = min available bucket_capacity;
          buf = overwrite dst_off (take copy_len (drop src_off data)) buf
      in overwrite (dst_off + copy_len) (replicate (bucket_capacity - copy_len) 0xff) buf)"

text \<open>One frame into its slot, and what \<open>push\<close> returns for it.\<close>

definition push_slot :: "slot \<Rightarrow> raw_frame \<Rightarrow> slot \<times> reassembled" where
  "push_slot slot frame =
     (let header = rf_data frame ! 0;
          frame_index = unat (header AND 0x1f);
          stale = sl_frames slot;
          duplicate = (stale AND push_bit frame_index 1 \<noteq> 0);
          new_all_frames = (if frame_index = 0 then Some (declared_frames (rf_data frame)) else None);
          completes_instantly =
            (case new_all_frames of None \<Rightarrow> False
             | Some (_, need) \<Rightarrow>
                 \<not> duplicate \<and> stale \<noteq> 0 \<and> need \<noteq> 1 \<and> (stale OR 1) AND need = need);
          slot = (if duplicate \<or> completes_instantly then slot\<lparr>sl_frames := 0\<rparr> else slot);
          slot = (case new_all_frames of None \<Rightarrow> slot
                  | Some (declared, all_frames) \<Rightarrow> slot\<lparr>sl_size := declared, sl_all_frames := all_frames\<rparr>);
          slot = slot\<lparr>sl_data := store_bucket frame_index (rf_data frame) (sl_data slot)\<rparr>;
          slot = slot\<lparr>sl_frames := sl_frames slot OR push_bit frame_index 1\<rparr>
      in if sl_all_frames slot \<noteq> 0 \<and> sl_frames slot = sl_all_frames slot
         then (slot\<lparr>sl_used := False, sl_frames := 0, sl_size := 0\<rparr>,
               Complete (frame\<lparr>rf_data := take (sl_size slot) (sl_data slot)\<rparr>))
         else (slot, Partial))"

definition push_fast :: "reassembler \<Rightarrow> raw_frame \<Rightarrow> reassembler \<times> reassembled" where
  "push_fast r frame =
     (let seq = rf_data frame ! 0 AND 0xe0;
          (r, slot_idx) = (case find_slot (ra_slots r) (rf_pgn frame) (rf_src frame) seq of
                             Some i \<Rightarrow> (r, Some i)
                           | None \<Rightarrow> claim_slot r (rf_pgn frame) (rf_src frame) seq)
      in case slot_idx of
           None \<Rightarrow> (r, Error (OutOfSlots (rf_pgn frame) (rf_src frame)))
         | Some i \<Rightarrow>
             (let (slot, out) = push_slot (ra_slots r ! i) frame
              in (r\<lparr>ra_slots := (ra_slots r)[i := slot]\<rparr>, out)))"

subsection \<open>ISO TP sessions\<close>

definition find_tp_slot :: "tp_slot list \<Rightarrow> u8 \<Rightarrow> nat option" where
  "find_tp_slot tps src = position (\<lambda>s. tp_used s \<and> tp_src s = src) tps"

definition pick_tp_slot :: "tp_slot list \<Rightarrow> nat option" where
  "pick_tp_slot tps =
     (case position (\<lambda>s. \<not> tp_used s) tps of
        Some i \<Rightarrow> Some i
      | None \<Rightarrow> min_index tp_age tps)"

definition claim_tp_slot :: "reassembler \<Rightarrow> u8 \<Rightarrow> reassembler \<times> nat option" where
  "claim_tp_slot r src =
     (case find_tp_slot (ra_tp_slots r) src of
        Some existing \<Rightarrow>
          (let age = ra_tp_next_age r + 1 in
           (r\<lparr>ra_tp_next_age := age,
              ra_tp_slots := (ra_tp_slots r)[existing :=
                (ra_tp_slots r ! existing)\<lparr>tp_src := src, tp_age := age, tp_used := True\<rparr>]\<rparr>,
            Some existing))
      | None \<Rightarrow>
          (case pick_tp_slot (ra_tp_slots r) of
             None \<Rightarrow> (r, None)
           | Some idx \<Rightarrow>
               (let age = ra_tp_next_age r + 1 in
                (r\<lparr>ra_tp_next_age := age,
                   ra_tp_slots := (ra_tp_slots r)[idx :=
                     tp_slot_default\<lparr>tp_used := True, tp_src := src, tp_age := age\<rparr>]\<rparr>,
                 Some idx))))"

definition handle_tp_cm :: "reassembler \<Rightarrow> raw_frame \<Rightarrow> reassembler \<times> reassembled" where
  "handle_tp_cm r frame =
     (let data = rf_data frame in
      if data = [] then (r, Error EmptyData)
      else let control = data ! 0 in
        if control = TP_CM_ABORT then
          (case find_tp_slot (ra_tp_slots r) (rf_src frame) of
             Some i \<Rightarrow>
               (r\<lparr>ra_tp_slots := (ra_tp_slots r)[i := (ra_tp_slots r ! i)\<lparr>tp_used := False\<rparr>]\<rparr>, Partial)
           | None \<Rightarrow> (r, Partial))
        else if control \<noteq> TP_CM_BAM \<and> control \<noteq> TP_CM_RTS then (r, Partial)
        else if length data < 8 then (r, Partial)
        else
          let total_size = unat (from_le [data ! 1, data ! 2] :: u16);
              packets = data ! 3;
              target_pgn = le24 (data ! 5) (data ! 6) (data ! 7) in
          if packets = 0 \<or> total_size = 0 \<or> total_size > ISO_TP_MAX_SIZE then (r, Partial)
          else case claim_tp_slot r (rf_src frame) of
            (r, None) \<Rightarrow> (r, Error (OutOfSlots target_pgn (rf_src frame)))
          | (r, Some i) \<Rightarrow>
              (r\<lparr>ra_tp_slots := (ra_tp_slots r)[i := (ra_tp_slots r ! i)
                   \<lparr>tp_dst := rf_dst frame, tp_prio := rf_prio frame, tp_target_pgn := target_pgn,
                    tp_total_size := total_size, tp_packets := packets, tp_received := [0, 0, 0, 0],
                    tp_timestamp := rf_timestamp frame, tp_data := replicate total_size 0xff\<rparr>]\<rparr>,
               Partial))"

text \<open>All declared sequence numbers are in: the full words of the bitmap, then the bits of the last.\<close>

definition tp_complete :: "u8 \<Rightarrow> u64 list \<Rightarrow> bool" where
  "tp_complete packets received =
     (let packets = unat packets;
          full_words = packets div 64;
          partial_bits = packets mod 64;
          all_full = list_all (\<lambda>w. w = - 1) (take full_words received);
          last_ok =
            (if partial_bits = 0 then True
             else let mask = push_bit partial_bits 1 - 1 in (received ! full_words) AND mask = mask)
      in all_full \<and> last_ok)"

definition handle_tp_dt :: "reassembler \<Rightarrow> raw_frame \<Rightarrow> reassembler \<times> reassembled" where
  "handle_tp_dt r frame =
     (let data = rf_data frame in
      if data = [] then (r, Error EmptyData)
      else case find_tp_slot (ra_tp_slots r) (rf_src frame) of
        None \<Rightarrow> (r, Partial)
      | Some i \<Rightarrow>
          (let slot = ra_tp_slots r ! i;
               sequence = data ! 0;
               put = (\<lambda>s. r\<lparr>ra_tp_slots := (ra_tp_slots r)[i := s]\<rparr>) in
           if sequence = 0 \<or> sequence > tp_packets slot then (r, Partial)
           else
             let seq_zero_based = unat (sequence - 1);
                 bit_word = seq_zero_based div 64;
                 bit_slot = seq_zero_based mod 64;
                 slot = slot\<lparr>tp_received := (tp_received slot)[bit_word :=
                               (tp_received slot ! bit_word) OR push_bit bit_slot 1]\<rparr>;
                 offset = seq_zero_based * BUCKET_N_SIZE;
                 end = min (offset + BUCKET_N_SIZE) (tp_total_size slot);
                 copy_len = end - offset;
                 avail = length data - 1;
                 n = min copy_len avail;
                 slot = (if n > 0
                         then slot\<lparr>tp_data := overwrite offset (take n (drop 1 data)) (tp_data slot)\<rparr>
                         else slot) in
             if \<not> tp_complete (tp_packets slot) (tp_received slot) then (put slot, Partial)
             else (put (slot\<lparr>tp_timestamp := None, tp_used := False\<rparr>),
                   Complete \<lparr>rf_timestamp = tp_timestamp slot, rf_prio = tp_prio slot,
                     rf_pgn = tp_target_pgn slot, rf_src = rf_src frame, rf_dst = tp_dst slot,
                     rf_data = take (tp_total_size slot) (tp_data slot)\<rparr>)))"

subsection \<open>The entry point\<close>

definition push :: "reassembler \<Rightarrow> raw_frame \<Rightarrow> frame_packet_type \<Rightarrow> reassembler \<times> reassembled" where
  "push r frame ptype =
     (if rf_pgn frame = PGN_ISO_TP_CM then handle_tp_cm r frame
      else if rf_pgn frame = PGN_ISO_TP_DT then handle_tp_dt r frame
      else if length (rf_data frame) > 8 \<or> ptype \<noteq> Fast then (r, PassThrough frame)
      else if rf_data frame = [] then (r, Error EmptyData)
      else push_fast r frame)"

end
