(* ===== verification/Slot_Table.thy ===== *)
theory Slot_Table
  imports Prelude
begin

section \<open>The interface of a slot table\<close>

text \<open>
  The reassembler keeps two tables of slots, each searched by a key and refilled by claiming a free
  slot or evicting an old one.  The locale states what both promise, and proves once what
  their clients need: the keys of used slots stay distinct, a claimed slot is found under its key, and
  other keys keep their slots unless one was evicted.
\<close>

locale slot_table =
  fixes used :: "'s \<Rightarrow> bool"
    and key :: "'s \<Rightarrow> 'k"
    and find :: "'s list \<Rightarrow> 'k \<Rightarrow> nat option"
    and pick :: "'s list \<Rightarrow> nat option"
  assumes find_Some: "find xs k = Some i \<Longrightarrow> i < length xs \<and> used (xs ! i) \<and> key (xs ! i) = k"
    and find_None: "find xs k = None \<Longrightarrow> i < length xs \<Longrightarrow> used (xs ! i) \<Longrightarrow> key (xs ! i) \<noteq> k"
    and pick_Some: "pick xs = Some i \<Longrightarrow> i < length xs"
    and pick_free: "pick xs = Some i \<Longrightarrow> j < length xs \<Longrightarrow> \<not> used (xs ! j) \<Longrightarrow> \<not> used (xs ! i)"
    and pick_None: "pick xs = None \<Longrightarrow> xs = []"
begin

definition distinct_keys :: "'s list \<Rightarrow> bool" where
  "distinct_keys xs \<longleftrightarrow> (\<forall>i j. i < length xs \<longrightarrow> j < length xs \<longrightarrow> used (xs ! i) \<longrightarrow> used (xs ! j) \<longrightarrow>
     key (xs ! i) = key (xs ! j) \<longrightarrow> i = j)"

lemma distinct_keysD:
  "distinct_keys xs \<Longrightarrow> i < length xs \<Longrightarrow> j < length xs \<Longrightarrow> used (xs ! i) \<Longrightarrow> used (xs ! j) \<Longrightarrow>
   key (xs ! i) = key (xs ! j) \<Longrightarrow> i = j"
  unfolding distinct_keys_def by blast

lemma find_iff:
  assumes "distinct_keys xs"
  shows "find xs k = Some i \<longleftrightarrow> i < length xs \<and> used (xs ! i) \<and> key (xs ! i) = k"
proof
  assume "i < length xs \<and> used (xs ! i) \<and> key (xs ! i) = k"
  then show "find xs k = Some i"
    using assms find_None [of xs k i] find_Some [of xs k] distinct_keysD [OF assms]
    by (cases "find xs k") auto
qed (rule find_Some)

lemma find_None_iff: "find xs k = None \<longleftrightarrow> (\<forall>i < length xs. used (xs ! i) \<longrightarrow> key (xs ! i) \<noteq> k)"
  using find_None [of xs k] find_Some [of xs k] by (cases "find xs k") auto

lemma distinct_unused: "(\<And>i. i < length xs \<Longrightarrow> \<not> used (xs ! i)) \<Longrightarrow> distinct_keys xs"
  unfolding distinct_keys_def by blast

text \<open>Putting a slot back under a key that no other slot has.\<close>

lemma distinct_put:
  assumes "distinct_keys xs" "find xs (key s) = Some i \<or> find xs (key s) = None"
  shows "distinct_keys (xs[i := s])"
proof -
  have other: "j = i" if "j < length xs" "used (xs ! j)" "key (xs ! j) = key s" for j
    using assms(2) find_iff [OF assms(1), of "key s" j] that by auto
  show ?thesis unfolding distinct_keys_def
  proof (intro allI impI)
    fix a b
    assume ab: "a < length (xs[i := s])" "b < length (xs[i := s])" "used (xs[i := s] ! a)"
      "used (xs[i := s] ! b)" "key (xs[i := s] ! a) = key (xs[i := s] ! b)"
    show "a = b"
    proof (cases "a = i \<or> b = i")
      case True
      show ?thesis
      proof (rule ccontr)
        assume ne: "a \<noteq> b"
        show False
        proof (cases "a = i")
          case True
          with ab ne have "b < length xs" "used (xs ! b)" "key (xs ! b) = key s"
            by (simp_all add: nth_put)
          from other [OF this] ne True show False by simp
        next
          case False
          with \<open>a = i \<or> b = i\<close> ab have "a < length xs" "used (xs ! a)" "key (xs ! a) = key s"
            by (simp_all add: nth_put)
          from other [OF this] False show False by simp
        qed
      qed
    next
      case False
      then show ?thesis using ab distinct_keysD [OF assms(1), of a b] by (simp add: nth_put)
    qed
  qed
qed

lemma find_put_same:
  assumes "distinct_keys xs" "find xs (key s) = Some i \<or> find xs (key s) = None" "i < length xs" "used s"
  shows "find (xs[i := s]) (key s) = Some i"
  using find_iff [OF distinct_put [OF assms(1,2)]] assms(3,4) by simp

text \<open>A slot under another key is untouched unless it was the one overwritten.\<close>

lemma find_put_other:
  assumes "distinct_keys xs" "find xs (key s) = Some i \<or> find xs (key s) = None"
    "k \<noteq> key s" "find xs k = Some j" "j \<noteq> i"
  shows "find (xs[i := s]) k = Some j"
  using find_iff [OF distinct_put [OF assms(1,2)]] find_iff [OF assms(1)] assms(3-) by simp

lemma find_put_None:
  assumes "find xs k = None" "k \<noteq> key s \<or> \<not> used s"
  shows "find (xs[i := s]) k = None"
  using assms unfolding find_None_iff nth_put by auto

lemma find_release:
  assumes "distinct_keys xs" "find xs k = Some i" "\<not> used s"
  shows "find (xs[i := s]) k = None"
  unfolding find_None_iff
proof (intro allI impI)
  fix j assume j: "j < length (xs[i := s])" "used (xs[i := s] ! j)"
  then have "j \<noteq> i" using assms(3) by (auto simp: nth_put)
  then show "key (xs[i := s] ! j) \<noteq> k"
    using j find_iff [OF assms(1), of k j] assms(2) by (auto simp: nth_put)
qed

text \<open>As long as a slot is free, claiming overwrites no slot in use.\<close>

lemma pick_keeps_used:
  "pick xs = Some i \<Longrightarrow> j < length xs \<Longrightarrow> \<not> used (xs ! j) \<Longrightarrow> find xs k \<noteq> Some i"
  using pick_free find_Some by blast

end

text \<open>The search and the refill policy both tables share.\<close>

lemma position_slot_find:
  "position (\<lambda>s. used s \<and> key s = k) xs = Some i \<Longrightarrow> i < length xs \<and> used (xs ! i) \<and> key (xs ! i) = k"
  "position (\<lambda>s. used s \<and> key s = k) xs = None \<Longrightarrow> i < length xs \<Longrightarrow> used (xs ! i) \<Longrightarrow> key (xs ! i) \<noteq> k"
  using position_SomeD [of "\<lambda>s. used s \<and> key s = k" xs] position_None_iff [of "\<lambda>s. used s \<and> key s = k" xs]
  by auto

lemma slot_pick:
  assumes "p = (case position (\<lambda>s. \<not> used s) xs of Some i \<Rightarrow> Some i | None \<Rightarrow> min_index age xs)"
  shows "p = Some i \<Longrightarrow> i < length xs"
    and "p = Some i \<Longrightarrow> j < length xs \<Longrightarrow> \<not> used (xs ! j) \<Longrightarrow> \<not> used (xs ! i)"
    and "p = None \<Longrightarrow> xs = []"
  using assms position_SomeD [of "\<lambda>s. \<not> used s" xs] position_None_iff [of "\<lambda>s. \<not> used s" xs]
    min_index_SomeD [of age xs] min_index_None_iff [of age xs]
  by (auto split: option.splits)

end
