(* ===== verification/Fast_Packet.thy ===== *)
theory Fast_Packet
  imports Reassembly Slot_Table
begin

section \<open>Fast packets: the sender's split and the receiver's slot\<close>

text \<open>
  The split of a payload into fast-packet frames (the loop of \<open>Bus::send_pgn\<close> in
  canboat-io/src/device/socketcan.rs) and what one reassembly slot makes of such frames: it completes
  with the payload exactly when the last missing frame comes in.
\<close>

subsection \<open>The split\<close>

function fast_frames_loop :: "u8 \<Rightarrow> u8 list \<Rightarrow> u8 \<Rightarrow> usize \<Rightarrow> usize \<Rightarrow> u8 list list" where
  "fast_frames_loop seq data index remaining offset =
     (if remaining = 0 then []
      else let frame = replicate 8 0xff;
               frame = frame[0 := push_bit 5 seq OR (index AND 0x1f)];
               frame = (if index = 0 then frame[1 := word_of_nat (length data)] else frame);
               (chunk, payload_start) =
                 (if index = 0 then (min remaining 6, 2) else (min remaining 7, 1));
               frame = overwrite payload_start (take chunk (drop offset data)) frame
           in frame # fast_frames_loop seq data (index + 1) (remaining - chunk) (offset + chunk))"
  by pat_completeness auto
termination
  by (relation "measure (\<lambda>(_, _, _, remaining, _). remaining)") (auto split: if_splits)

declare fast_frames_loop.simps [simp del]

definition fast_frames :: "u8 \<Rightarrow> u8 list \<Rightarrow> u8 list list" where
  "fast_frames seq data = fast_frames_loop seq data 0 (length data) 0"

text \<open>Frame \<open>i\<close> of the split, its place in the payload, and the number of frames.\<close>

definition seg_off :: "nat \<Rightarrow> nat" where
  "seg_off i = (if i = 0 then 0 else 6 + (i - 1) * 7)"

definition seg_len :: "nat \<Rightarrow> nat" where
  "seg_len i = (if i = 0 then 6 else 7)"

definition frame_count :: "nat \<Rightarrow> nat" where
  "frame_count len = 1 + len div 7"

definition fragment :: "u8 \<Rightarrow> u8 list \<Rightarrow> nat \<Rightarrow> u8 list" where
  "fragment seq data i =
     (let head = push_bit 5 seq OR (word_of_nat i AND 0x1f);
          body = take (seg_len i) (drop (seg_off i) data);
          body = body @ replicate (seg_len i - length body) 0xff
      in if i = 0 then head # word_of_nat (length data) # body else head # body)"

lemma seg_off_Suc: "seg_off (Suc i) = seg_off i + seg_len i"
  by (cases i) (simp_all add: seg_off_def seg_len_def)

lemma seg_len_pos [simp]: "0 < seg_len i"
  by (simp add: seg_len_def)

lemma seg_off_less_iff:
  assumes "0 < len"
  shows "seg_off i < len \<longleftrightarrow> i < frame_count len"
proof (cases i)
  case 0
  then show ?thesis using assms by (simp add: seg_off_def frame_count_def)
next
  case (Suc j)
  have "j + 1 \<le> len div 7 \<longleftrightarrow> (j + 1) * 7 \<le> len"
    by (rule less_eq_div_iff_mult_less_eq) simp
  then show ?thesis using Suc by (auto simp: seg_off_def frame_count_def)
qed

lemma length_fragment [simp]: "length (fragment seq data i) = 8"
  by (simp add: fragment_def seg_len_def)

lemma fast_frame_eq_fragment:
  assumes "chunk = min (length data - seg_off i) (seg_len i)"
  shows "overwrite (if i = 0 then 2 else 1) (take chunk (drop (seg_off i) data))
    (if i = 0 then (replicate 8 0xff)[0 := push_bit 5 seq OR (word_of_nat i AND 0x1f), 1 := word_of_nat (length data)]
     else (replicate 8 0xff)[0 := push_bit 5 seq OR (word_of_nat i AND 0x1f)]) = fragment seq data i"
proof -
  have r: "(replicate 8 (0xff :: u8))[0 := h] = h # replicate 7 0xff"
    "(replicate 8 (0xff :: u8))[0 := h, 1 := l] = h # l # replicate 6 0xff" for h l
    by (simp_all add: numeral_eq_Suc)
  have t: "take chunk (drop (seg_off i) data) = take (seg_len i) (drop (seg_off i) data)"
    using assms by (simp add: min_def take_all)
  show ?thesis
  proof (cases "i = 0")
    case True
    show ?thesis unfolding t unfolding True fragment_def Let_def if_True simp_thms(6) r(2)
      by (simp add: overwrite_def seg_len_def drop_Cons' del: replicate.simps)
  next
    case False
    show ?thesis unfolding t fragment_def Let_def r(1)
      using False by (simp add: overwrite_def seg_len_def drop_Cons' del: replicate.simps)
  qed
qed

lemma fast_frames_loop_eq:
  assumes "length data \<le> 223" "0 < length data" "i \<le> frame_count (length data)"
    "offset = seg_off i \<or> length data \<le> seg_off i"
  shows "fast_frames_loop seq data (word_of_nat i) (length data - seg_off i) offset =
    map (fragment seq data) [i..<frame_count (length data)]"
  using assms(3,4)
proof (induction "frame_count (length data) - i" arbitrary: i offset)
  case 0
  then have "length data - seg_off i = 0"
    using seg_off_less_iff [of "length data" i] assms(2) by simp
  with 0 show ?case by (simp add: fast_frames_loop.simps)
next
  case (Suc m)
  then have i: "i < frame_count (length data)" by simp
  then have i256: "i < 256" using assms(1) by (simp add: frame_count_def)
  have lt: "seg_off i < length data" using seg_off_less_iff [OF assms(2)] i by simp
  then have off: "offset = seg_off i" using Suc.prems by simp
  define chunk where "chunk = min (length data - seg_off i) (seg_len i)"
  have nxt: "length data - seg_off i - chunk = length data - seg_off (Suc i)"
    "seg_off i + chunk = seg_off (Suc i) \<or> length data \<le> seg_off (Suc i)"
    by (auto simp: chunk_def seg_off_Suc)
  have IH: "fast_frames_loop seq data (word_of_nat (Suc i)) (length data - seg_off (Suc i)) (seg_off i + chunk)
      = map (fragment seq data) [Suc i..<frame_count (length data)]"
    by (rule Suc.hyps(1)) (use Suc.hyps(2) i nxt in auto)
  have "fast_frames_loop seq data (word_of_nat i) (length data - seg_off i) offset =
      fragment seq data i # fast_frames_loop seq data (word_of_nat (Suc i))
        (length data - seg_off (Suc i)) (seg_off i + chunk)"
  proof (cases "i = 0")
    case True
    with lt i256 nxt(1) fast_frame_eq_fragment [OF chunk_def, of seq] show ?thesis
      by (simp add: fast_frames_loop.simps [of seq data 0] Let_def off chunk_def seg_len_def)
  next
    case False
    with lt i256 nxt(1) fast_frame_eq_fragment [OF chunk_def, of seq] show ?thesis
      by (simp add: fast_frames_loop.simps [of seq data "word_of_nat i"] Let_def off chunk_def
          seg_len_def add.commute)
  qed
  then show ?case using i IH by (simp add: upt_conv_Cons)
qed

lemma fast_frames_eq:
  "length data \<le> 223 \<Longrightarrow> 0 < length data \<Longrightarrow>
   fast_frames seq data = map (fragment seq data) [0..<frame_count (length data)]"
  using fast_frames_loop_eq [of data 0 0 seq] by (simp add: fast_frames_def seg_off_def)

subsection \<open>One slot\<close>

text \<open>Reading a fragment back: its index, its sequence, and the bytes of its bucket.\<close>

lemma u8_mask5: "(0x1f :: u8) = mask 5" "(0xe0 :: u8) = NOT (mask 5)"
  by (simp_all add: mask_eq_exp_minus_1)

lemma fragment_head: "fragment seq data i ! 0 = push_bit 5 seq OR (word_of_nat i AND 0x1f)"
  by (simp add: fragment_def Let_def)

lemma fragment_index:
  assumes "i < 32"
  shows "unat (fragment seq data i ! 0 AND 0x1f) = i"
proof -
  have "fragment seq data i ! 0 AND 0x1f = take_bit 5 (word_of_nat i)"
    unfolding fragment_head u8_mask5
    by (rule bit_word_eqI) (auto simp: bit_or_iff bit_and_iff bit_push_bit_iff bit_mask_iff bit_take_bit_iff)
  then show ?thesis
    using assms by (simp add: unsigned_take_bit_eq take_bit_nat_eq_self)
qed

lemma fragment_seq: "fragment seq data i ! 0 AND 0xe0 = push_bit 5 seq"
  unfolding fragment_head u8_mask5
  by (rule bit_word_eqI) (auto simp: bit_or_iff bit_and_iff bit_push_bit_iff bit_mask_iff bit_not_iff)

lemma fragment_declared:
  assumes "length data \<le> 223"
  shows "declared_frames (fragment seq data 0) = (length data, mask (frame_count (length data)))"
proof -
  have "fragment seq data 0 ! 1 = word_of_nat (length data)" by (simp add: fragment_def Let_def)
  moreover have "frame_count (length data) \<le> 32" using assms by (simp add: frame_count_def)
  moreover have "(mask 32 :: u32) = - 1" by (rule bit_word_eqI) (simp add: bit_simps)
  ultimately show ?thesis
    using assms by (auto simp: declared_frames_def Let_def FASTPACKET_MAX_SIZE_def
      FASTPACKET_MAX_INDEX_def BUCKET_N_SIZE_def frame_count_def mask_eq_exp_minus_1)
qed

lemma store_fragment:
  assumes "length buf = 223" "i < 32"
  shows "length (store_bucket i (fragment seq data i) buf) = 223"
    and "k < 223 \<Longrightarrow> store_bucket i (fragment seq data i) buf ! k =
      (if seg_off i \<le> k \<and> k < seg_off i + seg_len i
       then (if k < length data then data ! k else 0xff) else buf ! k)"
proof -
  define body where "body = drop (if i = 0 then 2 else 1) (fragment seq data i)"
  have len: "length body = seg_len i" by (simp add: body_def seg_len_def)
  have fits: "seg_off i + seg_len i \<le> 223"
    using assms(2) by (cases i) (simp_all add: seg_off_def seg_len_def)
  have st: "store_bucket i (fragment seq data i) buf = overwrite (seg_off i) body buf"
  proof -
    define o' where "o' = (if i = 0 then (2 :: nat) else 1)"
    have "store_bucket i (fragment seq data i) buf =
        overwrite (seg_off i + seg_len i) (replicate 0 0xff)
          (overwrite (seg_off i) (take (seg_len i) (drop o' (fragment seq data i))) buf)"
      using fits unfolding store_bucket_def Let_def BUCKET_0_SIZE_def BUCKET_N_SIZE_def
        BUCKET_0_OFFSET_def BUCKET_N_OFFSET_def FASTPACKET_MAX_SIZE_def
      by (cases "i = 0") (simp_all add: seg_off_def seg_len_def o'_def min_absorb1)
    then show ?thesis using len by (simp add: body_def o'_def overwrite_def [of "seg_off i + seg_len i"])
  qed
  show "length (store_bucket i (fragment seq data i) buf) = 223"
    unfolding st using fits len assms(1) by simp
  have body: "body ! j = (if seg_off i + j < length data then data ! (seg_off i + j) else 0xff)"
    if "j < seg_len i" for j
    using that by (cases "i = 0") (auto simp: body_def fragment_def Let_def nth_append min_def)
  show "store_bucket i (fragment seq data i) buf ! k =
      (if seg_off i \<le> k \<and> k < seg_off i + seg_len i
       then (if k < length data then data ! k else 0xff) else buf ! k)" if "k < 223"
    unfolding st using that fits len assms(1) body [of "k - seg_off i"] by (auto simp: nth_overwrite)
qed

lemma seg_disjoint:
  "seg_off i \<le> k \<Longrightarrow> k < seg_off i + seg_len i \<Longrightarrow> seg_off j \<le> k \<Longrightarrow> k < seg_off j + seg_len j \<Longrightarrow> i = j"
  by (cases i; cases j) (auto simp: seg_off_def seg_len_def)

lemma seg_cover: obtains i where "seg_off i \<le> k" "k < seg_off i + seg_len i"
proof (cases "k < 6")
  case True
  then show ?thesis using that [of 0] by (simp add: seg_off_def seg_len_def)
next
  case False
  have "7 * ((k - 6) div 7) \<le> k - 6" "k - 6 < 7 * ((k - 6) div 7) + 7"
    using mod_less_divisor [of 7 "k - 6"] mult_div_mod_eq [of 7 "k - 6"] by linarith+
  then show ?thesis using False that [of "Suc ((k - 6) div 7)"] by (simp add: seg_off_def seg_len_def mult.commute)
qed

text \<open>The slot holds the fragments with the indices \<open>S\<close> of one payload, and nothing else.\<close>

definition assembling :: "u8 list \<Rightarrow> slot \<Rightarrow> nat set \<Rightarrow> bool" where
  "assembling data s S \<longleftrightarrow>
     length (sl_data s) = 223 \<and>
     (\<forall>k. bit (sl_frames s) k \<longleftrightarrow> k \<in> S) \<and>
     (if 0 \<in> S then sl_size s = length data \<and> sl_all_frames s = mask (frame_count (length data))
      else sl_all_frames s = 0) \<and>
     (\<forall>i \<in> S. \<forall>k < length data. seg_off i \<le> k \<and> k < seg_off i + seg_len i \<longrightarrow> sl_data s ! k = data ! k)"

lemma assembling_fresh: "assembling data (slot_claimed pgn src seq age) {}"
  by (simp add: assembling_def slot_claimed_def slot_default_def FASTPACKET_MAX_SIZE_def)

lemma mask_covers_iff:
  "(w OR 1) AND mask n = (mask n :: u32) \<longleftrightarrow> (\<forall>k < n. k < 32 \<longrightarrow> k = 0 \<or> bit w k)"
proof
  assume eq: "(w OR 1) AND mask n = mask n"
  show "\<forall>k < n. k < 32 \<longrightarrow> k = 0 \<or> bit w k"
  proof (intro allI impI)
    fix k :: nat assume "k < n" "k < 32"
    then have "bit (mask n :: u32) k" by (simp add: bit_mask_iff)
    then have "bit ((w OR 1) AND mask n) k" by (simp only: eq)
    then show "k = 0 \<or> bit w k" by (auto simp: bit_and_iff bit_or_iff bit_1_iff)
  qed
next
  assume "\<forall>k < n. k < 32 \<longrightarrow> k = 0 \<or> bit w k"
  then show "(w OR 1) AND mask n = mask n"
    by (intro bit_word_eqI) (auto simp: bit_and_iff bit_or_iff bit_1_iff bit_mask_iff)
qed

lemma test_bit_u32: "w AND push_bit n 1 \<noteq> 0 \<longleftrightarrow> bit (w :: u32) n"
  by (simp add: bit_iff_and_push_bit_not_eq_0)

lemma bit_set_u32: "bit (w OR push_bit n 1 :: u32) k \<longleftrightarrow> bit w k \<or> k = n \<and> k < 32"
  by (auto simp: bit_simps)

text \<open>
  The next fragment of a payload comes into its slot.  It was not there yet, and it is not frame 0 in
  the last place.  The slot completes if this was the last one and goes on assembling if not.
\<close>

lemma push_slot_fragment:
  assumes asm: "assembling data s S" and len: "0 < length data" "length data \<le> 223"
    and i: "i < frame_count (length data)" "i \<notin> S" "S \<subseteq> {..<frame_count (length data)}"
    and late: "i = 0 \<Longrightarrow> S = {} \<or> insert 0 S \<noteq> {..<frame_count (length data)}"
    and f: "rf_data f = fragment seq data i"
  shows "if insert i S = {..<frame_count (length data)}
    then snd (push_slot s f) = Complete (f\<lparr>rf_data := data\<rparr>) \<and> \<not> sl_used (fst (push_slot s f))
    else snd (push_slot s f) = Partial \<and> assembling data (fst (push_slot s f)) (insert i S)"
proof -
  define n where "n = frame_count (length data)"
  have n: "0 < n" "n \<le> 32" using len by (simp_all add: n_def frame_count_def)
  have i32: "i < 32" using i(1) n by (simp add: n_def)
  have frames: "bit (sl_frames s) k \<longleftrightarrow> k \<in> S" for k using asm by (simp add: assembling_def)
  have idx: "unat (rf_data f ! 0 AND 0x1f) = i" by (simp add: f fragment_index [OF i32])
  have dup: "\<not> (sl_frames s AND push_bit i 1 \<noteq> 0)"
    using i(2) unfolding test_bit_u32 frames .
  have fresh0: "\<not> ((sl_frames s \<noteq> 0 \<and> mask n \<noteq> (1 :: u32)) \<and> (sl_frames s OR 1) AND mask n = mask n)" if "i = 0"
  proof
    assume c: "(sl_frames s \<noteq> 0 \<and> mask n \<noteq> (1 :: u32)) \<and> (sl_frames s OR 1) AND mask n = mask n"
    then have "{..<n} \<subseteq> insert 0 S" using n(2) unfolding mask_covers_iff frames by auto
    moreover have "S \<noteq> {}"
    proof
      assume "S = {}"
      then have "sl_frames s = 0" using frames by (intro bit_word_eqI) simp
      with c show False by simp
    qed
    moreover have "insert 0 S \<subseteq> {..<n}" using i that by (auto simp: n_def)
    ultimately show False using late [OF that] by (auto simp: n_def)
  qed
  define s1 where "s1 = (if i = 0 then s\<lparr>sl_size := length data, sl_all_frames := mask n\<rparr> else s)"
  define s2 where "s2 = s1\<lparr>sl_data := store_bucket i (fragment seq data i) (sl_data s1),
    sl_frames := sl_frames s1 OR push_bit i 1\<rparr>"
  have step: "push_slot s f =
      (if sl_all_frames s2 \<noteq> 0 \<and> sl_frames s2 = sl_all_frames s2
       then (s2\<lparr>sl_used := False, sl_frames := 0, sl_size := 0\<rparr>,
             Complete (f\<lparr>rf_data := take (sl_size s2) (sl_data s2)\<rparr>))
       else (s2, Partial))"
  proof (cases "i = 0")
    case True
    have "declared_frames (rf_data f) = (length data, mask n)"
      using fragment_declared [OF len(2)] f True by (simp add: n_def)
    with True show ?thesis using fresh0 dup idx
      unfolding push_slot_def Let_def idx by (auto simp: s1_def s2_def f)
  next
    case False
    then show ?thesis using dup unfolding push_slot_def Let_def idx by (simp add: s1_def s2_def f)
  qed
  have sel: "sl_frames s2 = sl_frames s OR push_bit i 1"
    "sl_data s2 = store_bucket i (fragment seq data i) (sl_data s)"
    "sl_size s2 = (if i = 0 then length data else sl_size s)"
    "sl_all_frames s2 = (if i = 0 then mask n else sl_all_frames s)"
    by (simp_all add: s1_def s2_def)
  have buf: "length (sl_data s) = 223" using asm by (simp add: assembling_def)
  have fr: "bit (sl_frames s2) k \<longleftrightarrow> k \<in> insert i S" for k
    unfolding sel bit_set_u32 frames using i32 by auto
  have dat: "sl_data s2 ! k = data ! k"
    if "j \<in> insert i S" "k < length data" "seg_off j \<le> k" "k < seg_off j + seg_len j" for j k
  proof (cases "j = i")
    case True
    then show ?thesis
      using that len store_fragment(2) [OF buf i32, of k seq data] unfolding sel by simp
  next
    case False
    then have "\<not> (seg_off i \<le> k \<and> k < seg_off i + seg_len i)" using seg_disjoint that(3,4) by blast
    moreover have "sl_data s ! k = data ! k" using that False asm unfolding assembling_def by blast
    ultimately show ?thesis
      using that len store_fragment(2) [OF buf i32, of k seq data] unfolding sel by simp
  qed
  have asm2: "assembling data s2 (insert i S)"
    unfolding assembling_def
  proof (intro conjI allI ballI impI)
    show "length (sl_data s2) = 223" unfolding sel by (rule store_fragment(1) [OF buf i32])
    show "if 0 \<in> insert i S
      then sl_size s2 = length data \<and> sl_all_frames s2 = mask (frame_count (length data))
      else sl_all_frames s2 = 0"
      unfolding sel using asm by (auto simp: assembling_def n_def)
  qed (use fr dat in auto)
  have all: "sl_all_frames s2 \<noteq> 0 \<and> sl_frames s2 = sl_all_frames s2 \<longleftrightarrow> insert i S = {..<n}"
  proof (cases "0 \<in> insert i S")
    case True
    then have a: "sl_all_frames s2 = mask n" using asm2 by (simp add: assembling_def n_def)
    have "bit (mask n :: u32) 0" using n by (simp add: bit_mask_iff)
    then have nz: "mask n \<noteq> (0 :: u32)" by (metis bit_0_eq bot_apply bot_bool_def)
    have b: "bit (sl_frames s2) k \<longleftrightarrow> k \<in> insert i S" for k
      using asm2 unfolding assembling_def by blast
    have m: "bit (mask n :: u32) k \<longleftrightarrow> k \<in> {..<n}" for k
      using n(2) by (auto simp: bit_mask_iff)
    have "sl_frames s2 = mask n \<longleftrightarrow> insert i S = {..<n}"
      using b m by (metis bit_eqI set_eqI)
    then show ?thesis using a nz by simp
  next
    case False
    then have "sl_all_frames s2 = 0" "insert i S \<noteq> {..<n}" using asm2 n(1) by (auto simp: assembling_def)
    then show ?thesis by simp
  qed
  have whole: "take (sl_size s2) (sl_data s2) = data" if full: "insert i S = {..<n}"
  proof -
    have sz: "sl_size s2 = length data" "length (sl_data s2) = 223"
      using asm2 full n(1) by (auto simp: assembling_def)
    show ?thesis
    proof (rule nth_equalityI)
      fix k assume "k < length (take (sl_size s2) (sl_data s2))"
      then have k: "k < length data" using sz by simp
      obtain j where j: "seg_off j \<le> k" "k < seg_off j + seg_len j" by (rule seg_cover)
      then have "j \<in> insert i S" using seg_off_less_iff [OF len(1), of j] k full by (simp add: n_def)
      then have "sl_data s2 ! k = data ! k"
        using asm2 k j unfolding assembling_def by blast
      then show "take (sl_size s2) (sl_data s2) ! k = data ! k" using k sz by simp
    qed (use sz len in simp)
  qed
  show ?thesis
    using all whole asm2 unfolding step n_def by auto
qed

lemma push_slot_key:
  "sl_pgn (fst (push_slot s f)) = sl_pgn s" "sl_src (fst (push_slot s f)) = sl_src s"
  "sl_seq (fst (push_slot s f)) = sl_seq s" "sl_age (fst (push_slot s f)) = sl_age s"
  "snd (push_slot s f) = Partial \<Longrightarrow> sl_used (fst (push_slot s f)) = sl_used s"
  "snd (push_slot s f) \<noteq> Partial \<Longrightarrow> \<not> sl_used (fst (push_slot s f))"
  by (auto simp: push_slot_def Let_def case_prod_beta split: option.splits if_splits)

end
