(* ===== verification/Assembly.thy ===== *)
theory Assembly
  imports Prelude
begin

section \<open>The interface of a message assembler\<close>

text \<open>
  Fast packets and ISO TP transfers are both put together from numbered pieces that arrive among
  other traffic.  The locale states what one push must do to the pieces seen so far of a message
  \<open>m\<close>: a push that is not of the message leaves them alone, a piece adds its number, and the
  piece that makes the set full delivers the message.  From this the locale proves what a whole
  sequence of pushes returns.
\<close>

locale assembly =
  fixes step :: "'r \<Rightarrow> 'x \<Rightarrow> 'r \<times> 'o"
    and wf :: "'r \<Rightarrow> bool"
    and room :: "'r \<Rightarrow> 'x \<Rightarrow> bool"
    and valid :: "'m \<Rightarrow> bool"
    and own :: "'m \<Rightarrow> 'x \<Rightarrow> bool"
    and piece :: "'m \<Rightarrow> nat \<Rightarrow> 'x \<Rightarrow> bool"
    and seen :: "'m \<Rightarrow> 'r \<Rightarrow> nat set \<Rightarrow> bool"
    and full :: "'m \<Rightarrow> nat set"
    and ok :: "'m \<Rightarrow> nat set \<Rightarrow> nat \<Rightarrow> bool"
    and more :: 'o
    and result :: "'m \<Rightarrow> 'x \<Rightarrow> 'o"
  assumes wf_step: "wf r \<Longrightarrow> wf (fst (step r x))"
    and bystander: "valid m \<Longrightarrow> wf r \<Longrightarrow> room r x \<Longrightarrow> \<not> own m x \<Longrightarrow> seen m r S \<Longrightarrow>
      seen m (fst (step r x)) S"
    and own_step: "valid m \<Longrightarrow> wf r \<Longrightarrow> own m x \<Longrightarrow> piece m i x \<Longrightarrow> seen m r S \<Longrightarrow> i \<in> full m \<Longrightarrow>
      S \<subseteq> full m \<Longrightarrow> S \<noteq> full m \<Longrightarrow> ok m S i \<Longrightarrow>
      if insert i S = full m then snd (step r x) = result m x
      else snd (step r x) = more \<and> seen m (fst (step r x)) (insert i S)"
begin

text \<open>Every push finds room, and what the pushes of the message return.\<close>

fun roomy :: "'r \<Rightarrow> 'x list \<Rightarrow> bool" where
  "roomy r [] = True"
| "roomy r (x # xs) = (room r x \<and> roomy (fst (step r x)) xs)"

fun outputs :: "'m \<Rightarrow> 'r \<Rightarrow> 'x list \<Rightarrow> 'o list" where
  "outputs m r [] = []"
| "outputs m r (x # xs) =
     (if own m x then [snd (step r x)] else []) @ outputs m (fst (step r x)) xs"

text \<open>The pieces come in an acceptable order, and only the last one makes the set full.\<close>

fun order_ok :: "'m \<Rightarrow> nat set \<Rightarrow> nat list \<Rightarrow> bool" where
  "order_ok m S [] = False"
| "order_ok m S (i # is) =
     (i \<in> full m \<and> ok m S i \<and>
      (if is = [] then insert i S = full m else insert i S \<noteq> full m \<and> order_ok m (insert i S) is))"

lemma outputs_none: "filter (own m) xs = [] \<Longrightarrow> outputs m r xs = []"
  by (induction xs arbitrary: r) (auto split: if_splits)

lemma outputs_run:
  "valid m \<Longrightarrow> wf r \<Longrightarrow> roomy r xs \<Longrightarrow> seen m r S \<Longrightarrow> S \<subseteq> full m \<Longrightarrow> S \<noteq> full m \<Longrightarrow>
   list_all2 (piece m) is (filter (own m) xs) \<Longrightarrow> order_ok m S is \<Longrightarrow>
   outputs m r xs = replicate (length is - 1) more @ [result m (last (filter (own m) xs))]"
proof (induction xs arbitrary: r S "is")
  case Nil
  then show ?case by (cases "is") auto
next
  case (Cons x xs)
  let ?r = "fst (step r x)"
  have wf: "wf ?r" by (rule wf_step) fact
  have room: "room r x" "roomy ?r xs" using Cons.prems(3) by simp_all
  show ?case
  proof (cases "own m x")
    case False
    have "seen m ?r S" by (rule bystander) fact+
    from Cons.IH [OF Cons.prems(1) wf room(2) this Cons.prems(5,6) _ Cons.prems(8)] Cons.prems(7) False
    show ?thesis by simp
  next
    case True
    obtain i ks where ks: "is = i # ks" using Cons.prems(8) by (cases "is") auto
    then have p: "piece m i x" and rest: "list_all2 (piece m) ks (filter (own m) xs)"
      using Cons.prems(7) True by simp_all
    have i: "i \<in> full m" "ok m S i" using Cons.prems(8) ks by simp_all
    note step = own_step [OF Cons.prems(1,2) True p Cons.prems(4) i(1) Cons.prems(5,6) i(2)]
    show ?thesis
    proof (cases "ks = []")
      case True
      then have "filter (own m) xs = []" "insert i S = full m" using rest Cons.prems(8) ks by simp_all
      then show ?thesis using step ks True \<open>own m x\<close> by (simp add: outputs_none)
    next
      case False
      then have o: "insert i S \<noteq> full m" "order_ok m (insert i S) ks" "filter (own m) xs \<noteq> []"
        using rest Cons.prems(8) ks by auto
      then have st: "snd (step r x) = more" "seen m ?r (insert i S)" using step by simp_all
      have "outputs m ?r xs = replicate (length ks - 1) more @ [result m (last (filter (own m) xs))]"
        by (rule Cons.IH [OF Cons.prems(1) wf room(2) st(2) _ o(1) rest o(2)])
          (use i(1) Cons.prems(5) in simp)
      moreover have "replicate (length ks) more = more # replicate (length ks - 1) more"
        using False by (cases ks) simp_all
      ultimately show ?thesis using \<open>own m x\<close> st(1) ks o(3) by simp
    qed
  qed
qed

end

end
