(* ===== verification/Fast_Reassembly.thy ===== *)
theory Fast_Reassembly
  imports Fast_Packet Assembly "HOL-Library.Multiset"
begin

section \<open>The reassembler: invariant and fast-packet reassembly\<close>

text \<open>
  Both tables of the reassembler are slot tables; the invariant \<open>reassembler_wf\<close> holds
  after every \<open>push\<close>; and the fragments of a payload, in any order that does not end in frame 0 and
  interleaved with any other traffic that leaves a slot free, come out as one payload.
\<close>

definition sl_key :: "slot \<Rightarrow> u32 \<times> u8 \<times> u8" where
  "sl_key s = (sl_pgn s, sl_src s, sl_seq s)"

definition find_key :: "slot list \<Rightarrow> u32 \<times> u8 \<times> u8 \<Rightarrow> nat option" where
  "find_key xs k = find_slot xs (fst k) (fst (snd k)) (snd (snd k))"

interpretation fast: slot_table sl_used sl_key find_key pick_slot
proof unfold_locales
  fix xs k i
  have eq: "find_key xs k = position (\<lambda>s. sl_used s \<and> sl_key s = k) xs"
    unfolding find_key_def find_slot_def sl_key_def
    by (cases k) (simp add: conj_ac)
  show "find_key xs k = Some i \<Longrightarrow> i < length xs \<and> sl_used (xs ! i) \<and> sl_key (xs ! i) = k"
    unfolding eq by (rule position_slot_find)
  show "find_key xs k = None \<Longrightarrow> i < length xs \<Longrightarrow> sl_used (xs ! i) \<Longrightarrow> sl_key (xs ! i) \<noteq> k"
    unfolding eq by (rule position_slot_find)
qed (rule slot_pick [OF pick_slot_def]; assumption)+

interpretation tp: slot_table tp_used tp_src find_tp_slot pick_tp_slot
proof unfold_locales
  fix xs k i
  show "find_tp_slot xs k = Some i \<Longrightarrow> i < length xs \<and> tp_used (xs ! i) \<and> tp_src (xs ! i) = k"
    unfolding find_tp_slot_def by (rule position_slot_find)
  show "find_tp_slot xs k = None \<Longrightarrow> i < length xs \<Longrightarrow> tp_used (xs ! i) \<Longrightarrow> tp_src (xs ! i) \<noteq> k"
    unfolding find_tp_slot_def by (rule position_slot_find)
qed (rule slot_pick [OF pick_tp_slot_def]; assumption)+

subsection \<open>The invariant\<close>

definition slot_wf :: "slot \<Rightarrow> bool" where
  "slot_wf s \<longleftrightarrow> length (sl_data s) = FASTPACKET_MAX_SIZE \<and> sl_size s \<le> FASTPACKET_MAX_SIZE"

definition tp_slot_wf :: "tp_slot \<Rightarrow> bool" where
  "tp_slot_wf s \<longleftrightarrow> length (tp_received s) = 4 \<and> length (tp_data s) = tp_total_size s \<and>
     tp_total_size s \<le> ISO_TP_MAX_SIZE"

definition reassembler_wf :: "reassembler \<Rightarrow> bool" where
  "reassembler_wf r \<longleftrightarrow>
     length (ra_slots r) = REASSEMBLY_BUFFER_SIZE \<and> length (ra_tp_slots r) = ISO_TP_SLOTS \<and>
     list_all slot_wf (ra_slots r) \<and> list_all tp_slot_wf (ra_tp_slots r) \<and>
     fast.distinct_keys (ra_slots r) \<and> tp.distinct_keys (ra_tp_slots r)"

lemma list_all_put: "list_all P xs \<Longrightarrow> P x \<Longrightarrow> list_all P (xs[i := x])"
  by (auto simp: list_all_length nth_put)

lemma reassembler_wf_new: "reassembler_wf reassembler_new"
  by (auto simp: reassembler_wf_def reassembler_new_def slot_default_def tp_slot_default_def
      slot_wf_def tp_slot_wf_def list_all_iff intro!: fast.distinct_unused tp.distinct_unused)

lemma overwrite_Nil [simp]: "overwrite off [] buf = buf"
  by (simp add: overwrite_def)

lemma length_two_writes:
  assumes "length buf = n" "cap = min (dst + len) n - dst" "length xs \<le> cap"
  shows "length (overwrite (dst + length xs) (replicate (cap - length xs) x) (overwrite dst xs buf)) = n"
proof (cases "dst \<le> n")
  case True
  then have "dst + length xs \<le> n" "dst + length xs + (cap - length xs) \<le> n"
    using assms(2,3) by linarith+
  then show ?thesis using assms(1) by simp
next
  case False
  then have "cap = 0" using assms(2) by simp
  then show ?thesis using assms(1,3) by simp
qed

lemma store_bucket_length [simp]:
  assumes "length buf = FASTPACKET_MAX_SIZE"
  shows "length (store_bucket i data buf) = FASTPACKET_MAX_SIZE"
proof -
  define d where "d = (if i = 0 then 0 else BUCKET_0_SIZE + (i - 1) * BUCKET_N_SIZE)"
  define so where "so = (if i = 0 then BUCKET_0_OFFSET else BUCKET_N_OFFSET)"
  define l where "l = (if i = 0 then BUCKET_0_SIZE else BUCKET_N_SIZE)"
  define cap where "cap = min (d + l) FASTPACKET_MAX_SIZE - d"
  define xs where "xs = take (min (length data - so) cap) (drop so data)"
  have "(if i = 0 then (0, BUCKET_0_OFFSET, BUCKET_0_SIZE)
      else (BUCKET_0_SIZE + (i - 1) * BUCKET_N_SIZE, BUCKET_N_OFFSET, BUCKET_N_SIZE)) = (d, so, l)"
    by (simp add: d_def so_def l_def)
  then have "store_bucket i data buf =
      overwrite (d + min (length data - so) cap) (replicate (cap - min (length data - so) cap) 0xff)
        (overwrite d xs buf)"
    unfolding store_bucket_def Let_def by (simp only: prod.case cap_def [symmetric] xs_def [symmetric])
  moreover have "length xs = min (length data - so) cap" by (simp add: xs_def)
  ultimately show ?thesis
    using length_two_writes [OF assms cap_def, of xs] by simp
qed

lemma declared_frames_size: "fst (declared_frames data) \<le> FASTPACKET_MAX_SIZE"
  by (simp add: declared_frames_def Let_def)

lemma slot_wf_push_slot: "slot_wf s \<Longrightarrow> slot_wf (fst (push_slot s f))"
  using declared_frames_size [of "rf_data f"]
  by (auto simp: push_slot_def Let_def slot_wf_def case_prod_beta split: option.splits if_splits)

lemma slot_wf_claimed: "slot_wf (slot_claimed pgn src seq age)"
  by (simp add: slot_wf_def slot_claimed_def slot_default_def)

lemma sl_key_push_slot [simp]: "sl_key (fst (push_slot s f)) = sl_key s"
  by (simp add: sl_key_def push_slot_key)

definition frame_key :: "raw_frame \<Rightarrow> u32 \<times> u8 \<times> u8" where
  "frame_key f = (rf_pgn f, rf_src f, rf_data f ! 0 AND 0xe0)"

text \<open>What \<open>push\_fast\<close> does: one slot, found or claimed, takes the frame.\<close>

lemma push_fast_effect:
  assumes "reassembler_wf r"
  obtains i s0 where
    "i < length (ra_slots r)"
    "find_key (ra_slots r) (frame_key f) = Some i \<and> s0 = ra_slots r ! i \<or>
     find_key (ra_slots r) (frame_key f) = None \<and> pick_slot (ra_slots r) = Some i \<and>
       s0 = slot_claimed (rf_pgn f) (rf_src f) (rf_data f ! 0 AND 0xe0) (ra_next_age r)"
    "ra_slots (fst (push_fast r f)) = (ra_slots r)[i := fst (push_slot s0 f)]"
    "snd (push_fast r f) = snd (push_slot s0 f)"
    "ra_tp_slots (fst (push_fast r f)) = ra_tp_slots r"
proof (cases "find_key (ra_slots r) (frame_key f)")
  case (Some i)
  then have "find_slot (ra_slots r) (rf_pgn f) (rf_src f) (rf_data f ! 0 AND 0xe0) = Some i"
    by (simp add: find_key_def frame_key_def)
  then show ?thesis using that [of i "ra_slots r ! i"] Some fast.find_Some [OF Some]
    by (simp add: push_fast_def Let_def case_prod_beta)
next
  case None
  then have n: "find_slot (ra_slots r) (rf_pgn f) (rf_src f) (rf_data f ! 0 AND 0xe0) = None"
    by (simp add: find_key_def frame_key_def)
  obtain i where i: "pick_slot (ra_slots r) = Some i"
    using fast.pick_None [of "ra_slots r"] assms
    by (cases "pick_slot (ra_slots r)") (auto simp: reassembler_wf_def REASSEMBLY_BUFFER_SIZE_def)
  then show ?thesis
    using that [of i "slot_claimed (rf_pgn f) (rf_src f) (rf_data f ! 0 AND 0xe0) (ra_next_age r)"]
      n None fast.pick_Some [OF i]
    by (simp add: push_fast_def claim_slot_def Let_def case_prod_beta)
qed

lemma sl_key_claimed [simp]: "sl_key (slot_claimed pgn src seq age) = (pgn, src, seq)"
  by (simp add: sl_key_def slot_claimed_def)

lemma push_fast_effect_key:
  assumes "find_key xs (frame_key f) = Some i \<and> s0 = xs ! i \<or>
     find_key xs (frame_key f) = None \<and> pick_slot xs = Some i \<and>
       s0 = slot_claimed (rf_pgn f) (rf_src f) (rf_data f ! 0 AND 0xe0) age"
  shows "sl_key s0 = frame_key f"
  using assms fast.find_Some [of xs "frame_key f" i] by (auto simp: frame_key_def)

lemma push_fast_wf [wf_intros]:
  assumes "reassembler_wf r"
  shows "reassembler_wf (fst (push_fast r f))"
proof -
  obtain i s0 where i: "i < length (ra_slots r)"
    and s0: "find_key (ra_slots r) (frame_key f) = Some i \<and> s0 = ra_slots r ! i \<or>
     find_key (ra_slots r) (frame_key f) = None \<and> pick_slot (ra_slots r) = Some i \<and>
       s0 = slot_claimed (rf_pgn f) (rf_src f) (rf_data f ! 0 AND 0xe0) (ra_next_age r)"
    and eff: "ra_slots (fst (push_fast r f)) = (ra_slots r)[i := fst (push_slot s0 f)]"
      "snd (push_fast r f) = snd (push_slot s0 f)"
      "ra_tp_slots (fst (push_fast r f)) = ra_tp_slots r"
    by (rule push_fast_effect [OF assms, of f]) (rule that)
  note key = push_fast_effect_key [OF s0]
  have wf0: "slot_wf s0" using s0 i assms by (auto simp: slot_wf_claimed reassembler_wf_def list_all_length)
  have "fast.distinct_keys ((ra_slots r)[i := fst (push_slot s0 f)])"
    by (rule fast.distinct_put) (use assms s0 key in \<open>auto simp: reassembler_wf_def\<close>)
  then show ?thesis
    using assms slot_wf_push_slot [OF wf0] unfolding reassembler_wf_def eff
    by (simp add: list_all_put)
qed

lemma tp_claimed_wf: "tp_slot_wf (tp_slot_default\<lparr>tp_used := True, tp_src := src, tp_age := age\<rparr>)"
  by (simp add: tp_slot_wf_def tp_slot_default_def)

lemma claim_tp_slot_effect:
  assumes "reassembler_wf r"
  obtains i s0 where
    "i < length (ra_tp_slots r)"
    "find_tp_slot (ra_tp_slots r) src = Some i \<or>
     find_tp_slot (ra_tp_slots r) src = None \<and> pick_tp_slot (ra_tp_slots r) = Some i"
    "tp_used s0" "tp_src s0 = src" "tp_slot_wf s0"
    "snd (claim_tp_slot r src) = Some i"
    "ra_tp_slots (fst (claim_tp_slot r src)) = (ra_tp_slots r)[i := s0]"
    "ra_slots (fst (claim_tp_slot r src)) = ra_slots r"
proof (cases "find_tp_slot (ra_tp_slots r) src")
  case (Some i)
  have "tp_slot_wf (ra_tp_slots r ! i)"
    using assms tp.find_Some [OF Some] by (simp add: reassembler_wf_def list_all_length)
  then show ?thesis
    by (intro that [of i "(ra_tp_slots r ! i)\<lparr>tp_src := src, tp_age := ra_tp_next_age r + 1, tp_used := True\<rparr>"])
      (use Some tp.find_Some [OF Some] in \<open>simp_all add: claim_tp_slot_def tp_slot_wf_def Let_def\<close>)
next
  case None
  obtain i where i: "pick_tp_slot (ra_tp_slots r) = Some i"
    using tp.pick_None [of "ra_tp_slots r"] assms
    by (cases "pick_tp_slot (ra_tp_slots r)") (auto simp: reassembler_wf_def ISO_TP_SLOTS_def)
  show ?thesis
    by (rule that [of i "tp_slot_default\<lparr>tp_used := True, tp_src := src, tp_age := ra_tp_next_age r + 1\<rparr>"])
      (use i None tp.pick_Some [OF i] tp_claimed_wf in \<open>simp_all add: claim_tp_slot_def Let_def\<close>)
qed

lemma tp_put_wf:
  assumes "reassembler_wf r" "ra_slots r' = ra_slots r" "ra_tp_slots r' = (ra_tp_slots r)[i := s]"
    "find_tp_slot (ra_tp_slots r) (tp_src s) = Some i \<or> find_tp_slot (ra_tp_slots r) (tp_src s) = None"
    "tp_slot_wf s"
  shows "reassembler_wf r'"
  using assms tp.distinct_put [of "ra_tp_slots r" s i] unfolding reassembler_wf_def
  by (simp add: list_all_put)

lemma handle_tp_cm_wf [wf_intros]:
  assumes "reassembler_wf r"
  shows "reassembler_wf (fst (handle_tp_cm r f))"
proof -
  have abort: "reassembler_wf (r\<lparr>ra_tp_slots := (ra_tp_slots r)[i := (ra_tp_slots r ! i)\<lparr>tp_used := False\<rparr>]\<rparr>)"
    if "find_tp_slot (ra_tp_slots r) (rf_src f) = Some i" for i
    using assms tp.find_Some [OF that] that
    by (intro tp_put_wf [OF assms, of _ i "(ra_tp_slots r ! i)\<lparr>tp_used := False\<rparr>"])
      (auto simp: tp_slot_wf_def reassembler_wf_def list_all_length)
  obtain i s0 where c: "i < length (ra_tp_slots r)"
    "find_tp_slot (ra_tp_slots r) (rf_src f) = Some i \<or>
     find_tp_slot (ra_tp_slots r) (rf_src f) = None \<and> pick_tp_slot (ra_tp_slots r) = Some i"
    "tp_used s0" "tp_src s0 = rf_src f" "tp_slot_wf s0"
    and snd: "snd (claim_tp_slot r (rf_src f)) = Some i"
    and slots: "ra_tp_slots (fst (claim_tp_slot r (rf_src f))) = (ra_tp_slots r)[i := s0]"
      "ra_slots (fst (claim_tp_slot r (rf_src f))) = ra_slots r"
    by (rule claim_tp_slot_effect [OF assms, of "rf_src f"]) (rule that)
  obtain r1 where claim: "claim_tp_slot r (rf_src f) = (r1, Some i)"
    using snd by (cases "claim_tp_slot r (rf_src f)") simp
  have opened: "reassembler_wf (r1\<lparr>ra_tp_slots := (ra_tp_slots r1)[i := (ra_tp_slots r1 ! i)
        \<lparr>tp_dst := d, tp_prio := p, tp_target_pgn := g, tp_total_size := n, tp_packets := k,
         tp_received := [0, 0, 0, 0], tp_timestamp := t, tp_data := replicate n 0xff\<rparr>]\<rparr>)"
    if "n \<le> ISO_TP_MAX_SIZE" for d p g n k t
    using c slots that unfolding claim
    by (intro tp_put_wf [OF assms, of _ i "s0\<lparr>tp_dst := d, tp_prio := p, tp_target_pgn := g, tp_total_size := n, tp_packets := k,
         tp_received := [0, 0, 0, 0], tp_timestamp := t, tp_data := replicate n 0xff\<rparr>"])
      (auto simp: tp_slot_wf_def)
  consider "rf_data f = []" | "rf_data f \<noteq> []" "rf_data f ! 0 = TP_CM_ABORT"
    | "rf_data f \<noteq> []" "rf_data f ! 0 \<noteq> TP_CM_ABORT" "\<not> (rf_data f ! 0 = TP_CM_BAM \<or> rf_data f ! 0 = TP_CM_RTS) \<or>
        length (rf_data f) < 8"
    | "rf_data f \<noteq> []" "rf_data f ! 0 \<noteq> TP_CM_ABORT" "rf_data f ! 0 = TP_CM_BAM \<or> rf_data f ! 0 = TP_CM_RTS"
        "\<not> length (rf_data f) < 8" by blast
  then show ?thesis
  proof cases
    case 2
    then show ?thesis using assms abort
      by (cases "find_tp_slot (ra_tp_slots r) (rf_src f)") (simp_all add: handle_tp_cm_def Let_def)
  next
    case 4
    define n where "n = unat (from_le [rf_data f ! 1, rf_data f ! 2] :: u16)"
    show ?thesis
    proof (cases "rf_data f ! 3 = 0 \<or> n = 0 \<or> ISO_TP_MAX_SIZE < n")
      case True
      then show ?thesis using 4 assms
        unfolding handle_tp_cm_def Let_def n_def [symmetric] by simp
    next
      case False
      then have "n \<le> ISO_TP_MAX_SIZE" by simp
      with False show ?thesis using 4 opened
        unfolding handle_tp_cm_def Let_def n_def [symmetric] by (auto simp: claim)
    qed
  qed (use assms in \<open>auto simp: handle_tp_cm_def Let_def\<close>)
qed

lemma handle_tp_dt_wf [wf_intros]:
  assumes "reassembler_wf r"
  shows "reassembler_wf (fst (handle_tp_dt r f))"
proof (cases "rf_data f = [] \<or> find_tp_slot (ra_tp_slots r) (rf_src f) = None")
  case True
  then show ?thesis using assms by (auto simp: handle_tp_dt_def Let_def)
next
  case False
  then obtain i where i: "find_tp_slot (ra_tp_slots r) (rf_src f) = Some i" "rf_data f \<noteq> []" by auto
  then have s: "tp_slot_wf (ra_tp_slots r ! i)" "tp_src (ra_tp_slots r ! i) = rf_src f"
    using assms tp.find_Some [OF i(1)] by (simp_all add: reassembler_wf_def list_all_length)
  have put: "reassembler_wf (r\<lparr>ra_tp_slots := (ra_tp_slots r)[i := s']\<rparr>)"
    if "tp_slot_wf s'" "tp_src s' = rf_src f" for s'
    using i that by (intro tp_put_wf [OF assms, of _ i s']) auto
  show ?thesis
    using s assms unfolding handle_tp_dt_def Let_def
    by (auto simp: i intro!: put) (auto simp: tp_slot_wf_def)
qed

lemma push_wf [wf_intros]: "reassembler_wf r \<Longrightarrow> reassembler_wf (fst (push r f t))"
  by (simp add: push_def handle_tp_cm_wf handle_tp_dt_wf push_fast_wf)

subsection \<open>A payload among other traffic\<close>

text \<open>Which pushes reach the fast-packet table, and which of them belong to the burst with key \<open>k\<close>.\<close>

type_synonym traffic = "(raw_frame \<times> frame_packet_type) list"

definition is_fragment :: "raw_frame \<times> frame_packet_type \<Rightarrow> bool" where
  "is_fragment x \<longleftrightarrow> snd x = Fast \<and> rf_pgn (fst x) \<noteq> PGN_ISO_TP_CM \<and> rf_pgn (fst x) \<noteq> PGN_ISO_TP_DT \<and>
     rf_data (fst x) \<noteq> [] \<and> length (rf_data (fst x)) \<le> 8"

definition of_burst :: "u32 \<times> u8 \<times> u8 \<Rightarrow> raw_frame \<times> frame_packet_type \<Rightarrow> bool" where
  "of_burst k x \<longleftrightarrow> is_fragment x \<and> frame_key (fst x) = k"

definition has_room :: "reassembler \<Rightarrow> raw_frame \<times> frame_packet_type \<Rightarrow> bool" where
  "has_room r x \<longleftrightarrow> (is_fragment x \<longrightarrow> find_key (ra_slots r) (frame_key (fst x)) \<noteq> None \<or>
     list_ex (\<lambda>s. \<not> sl_used s) (ra_slots r))"

definition burst_state :: "reassembler \<Rightarrow> u32 \<times> u8 \<times> u8 \<Rightarrow> u8 list \<Rightarrow> nat set \<Rightarrow> bool" where
  "burst_state r k data S \<longleftrightarrow>
     (if S = {} then find_key (ra_slots r) k = None
      else \<exists>i. find_key (ra_slots r) k = Some i \<and> assembling data (ra_slots r ! i) S)"

lemma push_fragment: "is_fragment x \<Longrightarrow> push r (fst x) (snd x) = push_fast r (fst x)"
  by (simp add: is_fragment_def push_def)

lemma tp_keeps_slots:
  "ra_slots (fst (handle_tp_cm r f)) = ra_slots r" "ra_slots (fst (handle_tp_dt r f)) = ra_slots r"
  by (auto simp: handle_tp_cm_def handle_tp_dt_def claim_tp_slot_def Let_def split: option.split)

lemma push_other: "\<not> is_fragment x \<Longrightarrow> ra_slots (fst (push r (fst x) (snd x))) = ra_slots r"
  by (auto simp: is_fragment_def push_def tp_keeps_slots)

lemma burst_state_bystander:
  assumes "reassembler_wf r" "has_room r x" "\<not> of_burst k x" "burst_state r k data S"
  shows "burst_state (fst (push r (fst x) (snd x))) k data S"
proof (cases "is_fragment x")
  case False
  then show ?thesis using assms(4) by (simp add: burst_state_def push_other)
next
  case True
  let ?f = "fst x" and ?xs = "ra_slots r"
  have k: "k \<noteq> frame_key ?f" using True assms(3) by (auto simp: of_burst_def)
  obtain i s0 where i: "i < length ?xs"
    and s0: "find_key ?xs (frame_key ?f) = Some i \<and> s0 = ?xs ! i \<or>
     find_key ?xs (frame_key ?f) = None \<and> pick_slot ?xs = Some i \<and>
       s0 = slot_claimed (rf_pgn ?f) (rf_src ?f) (rf_data ?f ! 0 AND 0xe0) (ra_next_age r)"
    and eff: "ra_slots (fst (push_fast r ?f)) = ?xs[i := fst (push_slot s0 ?f)]"
      "snd (push_fast r ?f) = snd (push_slot s0 ?f)"
      "ra_tp_slots (fst (push_fast r ?f)) = ra_tp_slots r"
    by (rule push_fast_effect [OF assms(1), of ?f]) (rule that)
  have key: "sl_key (fst (push_slot s0 ?f)) = frame_key ?f"
    using push_fast_effect_key [OF s0] by simp
  have dist: "fast.distinct_keys ?xs" using assms(1) by (simp add: reassembler_wf_def)
  have none: "find_key (?xs[i := fst (push_slot s0 ?f)]) k = None" if "find_key ?xs k = None"
    using that k key by (intro fast.find_put_None) simp_all
  have some: "find_key (?xs[i := fst (push_slot s0 ?f)]) k = Some j \<and> j \<noteq> i" if "find_key ?xs k = Some j" for j
  proof -
    have "j \<noteq> i"
    proof
      assume ji: "j = i"
      show False using s0
      proof
        assume "find_key ?xs (frame_key ?f) = Some i \<and> s0 = ?xs ! i"
        then show False using that ji k fast.find_Some [of ?xs k j] fast.find_Some [of ?xs "frame_key ?f" i] by simp
      next
        assume n: "find_key ?xs (frame_key ?f) = None \<and> pick_slot ?xs = Some i \<and>
          s0 = slot_claimed (rf_pgn ?f) (rf_src ?f) (rf_data ?f ! 0 AND 0xe0) (ra_next_age r)"
        then obtain m where "m < length ?xs" "\<not> sl_used (?xs ! m)"
          using assms(2) True by (auto simp: has_room_def list_ex_length)
        then show False using fast.pick_keeps_used [of ?xs i m k] n that ji by simp
      qed
    qed
    moreover have "find_key (?xs[i := fst (push_slot s0 ?f)]) k = Some j"
      by (rule fast.find_put_other [OF dist]) (use s0 key k that \<open>j \<noteq> i\<close> in auto)
    ultimately show ?thesis by simp
  qed
  show ?thesis
    using assms(4) none some unfolding burst_state_def push_fragment [OF True] eff
    by (auto simp: nth_put split: if_splits)
qed

lemma burst_state_step:
  assumes "reassembler_wf r" "of_burst k x" "burst_state r k data S"
    and len: "0 < length data" "length data \<le> 223"
    and i: "i < frame_count (length data)" "i \<notin> S" "S \<subseteq> {..<frame_count (length data)}"
    and late: "i = 0 \<Longrightarrow> S = {} \<or> insert 0 S \<noteq> {..<frame_count (length data)}"
    and f: "rf_data (fst x) = fragment seq data i"
  shows "if insert i S = {..<frame_count (length data)}
    then snd (push r (fst x) (snd x)) = Complete ((fst x)\<lparr>rf_data := data\<rparr>)
    else snd (push r (fst x) (snd x)) = Partial \<and>
      burst_state (fst (push r (fst x) (snd x))) k data (insert i S)"
proof -
  let ?f = "fst x" and ?xs = "ra_slots r"
  have x: "is_fragment x" "frame_key ?f = k" using assms(2) by (auto simp: of_burst_def)
  obtain j s0 where j: "j < length ?xs"
    and s0: "find_key ?xs (frame_key ?f) = Some j \<and> s0 = ?xs ! j \<or>
     find_key ?xs (frame_key ?f) = None \<and> pick_slot ?xs = Some j \<and>
       s0 = slot_claimed (rf_pgn ?f) (rf_src ?f) (rf_data ?f ! 0 AND 0xe0) (ra_next_age r)"
    and eff: "ra_slots (fst (push_fast r ?f)) = ?xs[j := fst (push_slot s0 ?f)]"
      "snd (push_fast r ?f) = snd (push_slot s0 ?f)"
      "ra_tp_slots (fst (push_fast r ?f)) = ra_tp_slots r"
    by (rule push_fast_effect [OF assms(1), of ?f]) (rule that)
  have asm: "assembling data s0 S"
    using s0 assms(3) x(2) assembling_fresh by (auto simp: burst_state_def split: if_splits)
  have used: "sl_used s0" using s0 fast.find_Some [of ?xs k j] x(2)
    by (auto simp: slot_claimed_def)
  have key: "sl_key (fst (push_slot s0 ?f)) = k" using push_fast_effect_key [OF s0] x(2) by simp
  have dist: "fast.distinct_keys ?xs" using assms(1) by (simp add: reassembler_wf_def)
  note step = push_slot_fragment [OF asm len i late f]
  show ?thesis
  proof (cases "insert i S = {..<frame_count (length data)}")
    case True
    then show ?thesis using step eff push_fragment [OF x(1)] by simp
  next
    case False
    then have out: "snd (push_slot s0 ?f) = Partial" "assembling data (fst (push_slot s0 ?f)) (insert i S)"
      using step by simp_all
    have "find_key (?xs[j := fst (push_slot s0 ?f)]) (sl_key (fst (push_slot s0 ?f))) = Some j"
      by (rule fast.find_put_same [OF dist])
        (use s0 key x(2) j used push_slot_key(5) [OF out(1)] in auto)
    then have "find_key (?xs[j := fst (push_slot s0 ?f)]) k = Some j" by (simp only: key)
    then show ?thesis
      using False out eff j unfolding burst_state_def push_fragment [OF x(1)] by simp
  qed
qed

text \<open>A message: PGN, source, sequence counter, payload; and the interface for its pieces.\<close>

type_synonym fp_message = "u32 \<times> u8 \<times> u8 \<times> u8 list"

definition push_step :: "reassembler \<Rightarrow> raw_frame \<times> frame_packet_type \<Rightarrow> reassembler \<times> reassembled" where
  "push_step r x = push r (fst x) (snd x)"

definition fp_key :: "fp_message \<Rightarrow> u32 \<times> u8 \<times> u8" where
  "fp_key m = (case m of (pgn, src, seq, data) \<Rightarrow> (pgn, src, push_bit 5 seq))"

definition fp_data :: "fp_message \<Rightarrow> u8 list" where
  "fp_data m = (case m of (pgn, src, seq, data) \<Rightarrow> data)"

definition fp_piece :: "fp_message \<Rightarrow> nat \<Rightarrow> raw_frame \<times> frame_packet_type \<Rightarrow> bool" where
  "fp_piece m i x \<longleftrightarrow> (case m of (pgn, src, seq, data) \<Rightarrow> rf_data (fst x) = fragment seq data i)"

definition fp_full :: "fp_message \<Rightarrow> nat set" where
  "fp_full m = {..<frame_count (length (fp_data m))}"

definition fp_result :: "fp_message \<Rightarrow> raw_frame \<times> frame_packet_type \<Rightarrow> reassembled" where
  "fp_result m x = Complete ((fst x)\<lparr>rf_data := fp_data m\<rparr>)"

interpretation fp_asm: assembly push_step reassembler_wf has_room
  "\<lambda>m. 0 < length (fp_data m) \<and> length (fp_data m) \<le> 223" "\<lambda>m. of_burst (fp_key m)" fp_piece
  "\<lambda>m r. burst_state r (fp_key m) (fp_data m)" fp_full
  "\<lambda>m S i. i \<notin> S \<and> (i = 0 \<longrightarrow> S = {} \<or> insert 0 S \<noteq> fp_full m)" Partial fp_result
proof unfold_locales
  fix r x assume "reassembler_wf r"
  then show "reassembler_wf (fst (push_step r x))" unfolding push_step_def by (rule push_wf)
next
  fix m :: fp_message and r x S
  assume "reassembler_wf r" "has_room r x" "\<not> of_burst (fp_key m) x" "burst_state r (fp_key m) (fp_data m) S"
  then show "burst_state (fst (push_step r x)) (fp_key m) (fp_data m) S"
    unfolding push_step_def by (rule burst_state_bystander)
next
  fix m r x i S
  assume a: "0 < length (fp_data m) \<and> length (fp_data m) \<le> 223" "reassembler_wf r" "of_burst (fp_key m) x"
    "fp_piece m i x" "burst_state r (fp_key m) (fp_data m) S" "i \<in> fp_full m" "S \<subseteq> fp_full m" "S \<noteq> fp_full m"
    "i \<notin> S \<and> (i = 0 \<longrightarrow> S = {} \<or> insert 0 S \<noteq> fp_full m)"
  obtain pgn src seq data where m: "m = (pgn, src, seq, data)" by (cases m) auto
  show "if insert i S = fp_full m then snd (push_step r x) = fp_result m x
      else snd (push_step r x) = Partial \<and> burst_state (fst (push_step r x)) (fp_key m) (fp_data m) (insert i S)"
    using burst_state_step [OF a(2,3,5), of i seq] a(1,4,6,7,9)
    unfolding push_step_def fp_full_def fp_result_def m by (simp add: fp_piece_def fp_data_def)
qed

text \<open>A permutation of the fragments that does not end in fragment 0 of several is an acceptable order.\<close>

lemma fp_order_ok:
  "distinct ns \<Longrightarrow> ns \<noteq> [] \<Longrightarrow> S \<inter> set ns = {} \<Longrightarrow> S \<union> set ns = fp_full m \<Longrightarrow>
   (last ns = 0 \<Longrightarrow> S = {} \<and> ns = [0]) \<Longrightarrow> fp_asm.order_ok m S ns"
proof (induction ns arbitrary: S)
  case (Cons i ks)
  show ?case
  proof (cases "ks = []")
    case True
    then show ?thesis using Cons.prems(3-5) by auto
  next
    case False
    then obtain k where "k \<in> set ks" by (cases ks) auto
    then have "k \<in> fp_full m" "k \<notin> insert i S" using Cons.prems(1,3,4) by auto
    then have ne: "insert i S \<noteq> fp_full m" by blast
    moreover have "fp_asm.order_ok m (insert i S) ks"
    proof (rule Cons.IH)
      show "distinct ks" "insert i S \<inter> set ks = {}" using Cons.prems(1,3) by auto
      show "insert i S \<union> set ks = fp_full m" using Cons.prems(4) by simp
      show "insert i S = {} \<and> ks = [0]" if "last ks = 0" using Cons.prems(5) that False by simp
    qed (rule False)
    moreover have "i \<in> fp_full m" "i \<notin> S" "i = 0 \<Longrightarrow> insert 0 S \<noteq> fp_full m"
      using Cons.prems(3,4) ne by auto
    ultimately show ?thesis using False by simp
  qed
qed simp

text \<open>No slot is evicted as long as at most 64 keys are in play.\<close>

definition keys_in :: "(u32 \<times> u8 \<times> u8) set \<Rightarrow> reassembler \<Rightarrow> bool" where
  "keys_in K r \<longleftrightarrow> (\<forall>i < length (ra_slots r). sl_used (ra_slots r ! i) \<longrightarrow> sl_key (ra_slots r ! i) \<in> K)"

lemma room_few_keys:
  assumes "reassembler_wf r" "keys_in K r" "finite K" "card K \<le> 64"
    "is_fragment x \<Longrightarrow> frame_key (fst x) \<in> K"
  shows "has_room r x"
  unfolding has_room_def
proof (intro impI, rule ccontr)
  assume x: "is_fragment x"
  assume "\<not> (find_key (ra_slots r) (frame_key (fst x)) \<noteq> None \<or> list_ex (\<lambda>s. \<not> sl_used s) (ra_slots r))"
  then have none: "find_key (ra_slots r) (frame_key (fst x)) = None"
    and used: "\<And>i. i < length (ra_slots r) \<Longrightarrow> sl_used (ra_slots r ! i)"
    by (auto simp: list_ex_length)
  let ?key = "\<lambda>i. sl_key (ra_slots r ! i)" and ?n = "length (ra_slots r)"
  have n: "?n = 64" and dist: "fast.distinct_keys (ra_slots r)"
    using assms(1) by (simp_all add: reassembler_wf_def REASSEMBLY_BUFFER_SIZE_def)
  have "inj_on ?key {..<?n}"
    using fast.distinct_keysD [OF dist] used by (auto simp: inj_on_def)
  then have "card (?key ` {..<?n}) = 64" using n by (simp add: card_image)
  moreover have "?key ` {..<?n} \<subseteq> K - {frame_key (fst x)}"
    using assms(2) used none unfolding keys_in_def fast.find_None_iff by auto
  ultimately have "64 \<le> card (K - {frame_key (fst x)})"
    using card_mono [of "K - {frame_key (fst x)}" "?key ` {..<?n}"] assms(3) by simp
  moreover have "card (K - {frame_key (fst x)}) < card K"
    by (rule psubset_card_mono [OF assms(3)]) (use assms(5) x in auto)
  ultimately show False using assms(4) by simp
qed

lemma keys_in_push:
  assumes "reassembler_wf r" "keys_in K r" "is_fragment x \<Longrightarrow> frame_key (fst x) \<in> K"
  shows "keys_in K (fst (push r (fst x) (snd x)))"
proof (cases "is_fragment x")
  case False
  then show ?thesis using assms(2) by (simp add: keys_in_def push_other)
next
  case True
  let ?f = "fst x" and ?xs = "ra_slots r"
  obtain i s0 where i: "i < length ?xs"
    and s0: "find_key ?xs (frame_key ?f) = Some i \<and> s0 = ?xs ! i \<or>
     find_key ?xs (frame_key ?f) = None \<and> pick_slot ?xs = Some i \<and>
       s0 = slot_claimed (rf_pgn ?f) (rf_src ?f) (rf_data ?f ! 0 AND 0xe0) (ra_next_age r)"
    and eff: "ra_slots (fst (push_fast r ?f)) = ?xs[i := fst (push_slot s0 ?f)]"
      "snd (push_fast r ?f) = snd (push_slot s0 ?f)"
      "ra_tp_slots (fst (push_fast r ?f)) = ra_tp_slots r"
    by (rule push_fast_effect [OF assms(1), of ?f]) (rule that)
  show ?thesis
    using assms(2,3) True push_fast_effect_key [OF s0] unfolding keys_in_def push_fragment [OF True] eff
    by (simp add: nth_put)
qed

lemma roomy_few_keys:
  assumes "finite K" "card K \<le> 64"
  shows "reassembler_wf r \<Longrightarrow> keys_in K r \<Longrightarrow> (\<forall>x \<in> set tr. is_fragment x \<longrightarrow> frame_key (fst x) \<in> K) \<Longrightarrow>
    fp_asm.roomy r tr"
proof (induction tr arbitrary: r)
  case (Cons x tr)
  have "has_room r x" by (rule room_few_keys [OF Cons.prems(1,2) assms]) (use Cons.prems(3) in simp)
  moreover have "reassembler_wf (fst (push_step r x))" "keys_in K (fst (push_step r x))"
    unfolding push_step_def using Cons.prems by (auto intro: push_wf keys_in_push)
  then have "fp_asm.roomy (fst (push_step r x)) tr"
    by (rule Cons.IH) (use Cons.prems(3) in simp)
  ultimately show ?case by simp
qed simp

lemma keys_in_new [simp]: "keys_in K reassembler_new"
  by (simp add: keys_in_def reassembler_new_def slot_default_def)

subsection \<open>Properties\<close>

text \<open>
  C23: After any sequence of frames the reassembler is well formed: 64 fast-packet slots and 16 ISO TP
  slots, payload buffers of the right length, declared sizes within them, and never two slots in use
  for one key, so no index of \<open>push\<close> is out of range and no message is assembled twice.
\<close>

theorem reassembler_invariant:
  "reassembler_wf (foldl (\<lambda>r x. fst (push r (fst x) (snd x))) reassembler_new traffic)"
  by (induction traffic rule: rev_induct) (simp_all add: reassembler_wf_new push_wf)

text \<open>
  C2: The frames into which the sender splits a payload of at most 223 bytes, received in any order in
  which frame 0 is not the last of several, and interleaved with any other traffic that leaves a slot
  free, give exactly one completed message, and it is the payload.
\<close>

theorem fast_packet_reassembled:
  assumes "reassembler_wf r" "0 < length data" "length data \<le> 223"
    and "find_slot (ra_slots r) pgn src (push_bit 5 seq) = None"
    and "fp_asm.roomy r traffic"
    and "burst = filter (of_burst (pgn, src, push_bit 5 seq)) traffic"
    and "mset (map (\<lambda>x. rf_data (fst x)) burst) = mset (fast_frames seq data)"
    and "rf_data (fst (last burst)) = hd (fast_frames seq data) \<Longrightarrow> length (fast_frames seq data) = 1"
  shows "fp_asm.outputs (pgn, src, seq, data) r traffic =
    replicate (length (fast_frames seq data) - 1) Partial @ [Complete ((fst (last burst))\<lparr>rf_data := data\<rparr>)]"
proof -
  let ?n = "frame_count (length data)" and ?frag = "fragment seq data"
  have n: "0 < ?n" "?n \<le> 32" using assms(2,3) by (simp_all add: frame_count_def)
  have ff: "fast_frames seq data = map ?frag [0..<?n]" by (rule fast_frames_eq [OF assms(3,2)])
  define idx where "idx = (\<lambda>ys :: u8 list. unat (ys ! 0 AND 0x1f))"
  have idx: "idx (?frag i) = i" if "i < ?n" for i
    using fragment_index [of i seq data] that n by (simp add: idx_def)
  define ys where "ys = map (\<lambda>x. rf_data (fst x)) burst"
  define ns where "ns = map idx ys"
  have ys: "mset ys = mset (map ?frag [0..<?n])" using assms(7) by (simp only: ys_def ff)
  have set: "set ys = ?frag ` {0..<?n}" using mset_eq_setD [OF ys] by simp
  have "mset ns = mset (map idx (map ?frag [0..<?n]))"
    unfolding ns_def mset_map [of idx] ys ..
  also have "map idx (map ?frag [0..<?n]) = [0..<?n]"
    by (rule nth_equalityI) (simp_all add: idx)
  finally have perm: "mset ns = mset [0..<?n]" .
  have ns: "distinct ns" "set ns = {..<?n}" "length ns = ?n"
    using mset_eq_imp_distinct_iff [OF perm] mset_eq_setD [OF perm] mset_eq_length [OF perm]
    by (simp_all add: atLeast0LessThan)
  have "map (\<lambda>y. ?frag (idx y)) ys = ys"
    by (rule map_idI) (use set idx in auto)
  then have frag: "ys = map ?frag ns" by (simp add: ns_def comp_def)
  have ne: "ns \<noteq> []" using ns(3) n(1) by auto
  have late: "ns = [0]" if "last ns = 0"
  proof -
    have "last ys = ?frag 0" unfolding frag using ne that by (simp add: last_map)
    then have "rf_data (fst (last burst)) = hd (fast_frames seq data)"
    proof -
      have "burst \<noteq> []" using frag ne by (auto simp: ys_def)
      then have "rf_data (fst (last burst)) = last ys" by (simp add: ys_def last_map)
      then show ?thesis using \<open>last ys = ?frag 0\<close> n(1) by (simp add: ff hd_map)
    qed
    then have "?n = 1" using assms(8) by (simp add: ff)
    then show ?thesis using ns by (cases ns) auto
  qed
  let ?m = "(pgn, src, seq, data)"
  have key: "fp_key ?m = (pgn, src, push_bit 5 seq)" "fp_data ?m = data" "fp_full ?m = {..<?n}"
    by (simp_all add: fp_key_def fp_data_def fp_full_def)
  have order: "fp_asm.order_ok ?m {} ns"
    by (rule fp_order_ok) (use ns ne late key in auto)
  have pieces: "list_all2 (fp_piece ?m) ns (filter (of_burst (fp_key ?m)) traffic)"
  proof -
    have "map ?frag ns = map (\<lambda>x. rf_data (fst x)) burst" using frag by (simp add: ys_def)
    then have "list_all2 (=) (map ?frag ns) (map (\<lambda>x. rf_data (fst x)) burst)"
      by (simp only: list.rel_eq)
    then have "list_all2 (\<lambda>i x. rf_data (fst x) = ?frag i) ns burst"
      unfolding list.rel_map by (simp only: eq_commute)
    moreover have "fp_piece ?m = (\<lambda>i x. rf_data (fst x) = ?frag i)"
      by (simp add: fun_eq_iff fp_piece_def)
    ultimately show ?thesis unfolding key assms(6) [symmetric] by simp
  qed
  have "fp_asm.outputs ?m r traffic = replicate (length ns - 1) Partial @
      [fp_result ?m (last (filter (of_burst (fp_key ?m)) traffic))]"
    by (rule fp_asm.outputs_run [OF _ assms(1,5) _ _ _ pieces order])
      (use assms(2-4) key n(1) in \<open>auto simp: burst_state_def find_key_def\<close>)
  then show ?thesis using ns(3) assms(6) key by (simp add: ff fp_result_def)
qed

definition demo_payload :: "u8 list" where
  "demo_payload = [1, 2, 3, 4, 5, 6, 7, 8, 9, 10, 11, 12, 13, 14]"

definition demo_frame :: "u8 \<Rightarrow> u8 list \<Rightarrow> raw_frame \<times> frame_packet_type" where
  "demo_frame src data =
     (\<lparr>rf_timestamp = None, rf_prio = 3, rf_pgn = 129029, rf_src = src, rf_dst = 255, rf_data = data\<rparr>, Fast)"

definition demo_traffic :: traffic where
  "demo_traffic =
     [demo_frame 5 (fragment 3 demo_payload 1), demo_frame 9 (fragment 3 demo_payload 1),
      demo_frame 5 (fragment 3 demo_payload 0), demo_frame 5 (fragment 3 demo_payload 2)]"

lemma demo_frame_key:
  "frame_key (fst (demo_frame s (fragment q d i))) = (129029, s, push_bit 5 q)"
  "is_fragment (demo_frame s (fragment q d i))"
  "rf_data (fst (demo_frame s x)) = x"
  using length_fragment [of q d i]
  by (auto simp: demo_frame_def frame_key_def fragment_seq is_fragment_def PGN_ISO_TP_CM_def PGN_ISO_TP_DT_def
      simp del: length_fragment)

lemma fast_packet_reassembled_witness:
  "fp_asm.outputs (129029, 5, 3, demo_payload) reassembler_new demo_traffic =
     [Partial, Partial, Complete ((fst (demo_frame 5 (fragment 3 demo_payload 2)))\<lparr>rf_data := demo_payload\<rparr>)]"
proof -
  have len: "0 < length demo_payload" "length demo_payload \<le> 223" by (simp_all add: demo_payload_def)
  have ff: "fast_frames 3 demo_payload =
      [fragment 3 demo_payload 0, fragment 3 demo_payload 1, fragment 3 demo_payload 2]"
    unfolding fast_frames_eq [OF len(2,1)] by (simp add: frame_count_def demo_payload_def upt_rec numeral_2_eq_2)
  have burst: "filter (of_burst (129029, 5, push_bit 5 3)) demo_traffic =
      [demo_frame 5 (fragment 3 demo_payload 1), demo_frame 5 (fragment 3 demo_payload 0),
       demo_frame 5 (fragment 3 demo_payload 2)]"
    by (simp add: demo_traffic_def of_burst_def demo_frame_key)
  have none: "find_slot (ra_slots reassembler_new) 129029 5 (push_bit 5 3) = None"
    by (simp add: find_slot_def position_None_iff reassembler_new_def slot_default_def)
  have room: "fp_asm.roomy reassembler_new demo_traffic"
    by (rule roomy_few_keys [of "{(129029, 5, push_bit 5 3), (129029, 9, push_bit 5 3)}"])
      (simp_all add: reassembler_wf_new demo_traffic_def demo_frame_key)
  have "fragment 3 demo_payload 2 \<noteq> fragment 3 demo_payload 0"
    using fragment_index [of 2 3 demo_payload] fragment_index [of 0 3 demo_payload] by auto
  then have "fp_asm.outputs (129029, 5, 3, demo_payload) reassembler_new demo_traffic =
      replicate (length (fast_frames 3 demo_payload) - 1) Partial @
      [Complete ((fst (last (filter (of_burst (129029, 5, push_bit 5 3)) demo_traffic)))\<lparr>rf_data := demo_payload\<rparr>)]"
    by (intro fast_packet_reassembled [OF reassembler_wf_new len none room refl])
      (unfold burst ff, simp_all add: demo_frame_key)
  then show ?thesis unfolding burst ff by (simp add: numeral_2_eq_2)
qed

end
