(* ===== verification/Iso_Tp.thy ===== *)
theory Iso_Tp
  imports Fast_Reassembly
begin

section \<open>ISO TP transfers\<close>

text \<open>
  A transfer is opened by a BAM or RTS frame and carried by numbered data frames of seven bytes.  The
  reassembler delivers it when the last missing number arrives, in any order, with repetitions and
  among other traffic.
\<close>

subsection \<open>The bitmap of received numbers\<close>

definition received_bit :: "u64 list \<Rightarrow> nat \<Rightarrow> bool" where
  "received_bit ws k \<longleftrightarrow> bit (ws ! (k div 64)) (k mod 64)"

lemma all_ones_iff: "w = (- 1 :: u64) \<longleftrightarrow> (\<forall>k < 64. bit w k)"
proof
  assume a: "\<forall>k < 64. bit w k"
  show "w = - 1" by (rule bit_word_eqI) (use a in simp)
qed simp

lemma covers_mask_iff: "w AND mask n = (mask n :: u64) \<longleftrightarrow> (\<forall>k < n. k < 64 \<longrightarrow> bit w k)"
proof
  assume eq: "w AND mask n = mask n"
  show "\<forall>k < n. k < 64 \<longrightarrow> bit w k"
  proof (intro allI impI)
    fix k :: nat assume "k < n" "k < 64"
    then have "bit (w AND mask n) k" unfolding eq by (simp add: bit_mask_iff)
    then show "bit w k" by (simp add: bit_and_iff)
  qed
next
  assume "\<forall>k < n. k < 64 \<longrightarrow> bit w k"
  then show "w AND mask n = mask n"
    by (intro bit_word_eqI) (auto simp: bit_and_iff bit_mask_iff)
qed

lemma tp_complete_iff:
  assumes "length ws = 4"
  shows "tp_complete packets ws \<longleftrightarrow> (\<forall>k < unat packets. received_bit ws k)"
proof -
  define n where "n = unat packets"
  have n: "n div 64 < 4" using unsigned_less [of packets, where 'a = nat] by (simp add: n_def)
  have full: "list_all (\<lambda>w. w = - 1) (take (n div 64) ws) \<longleftrightarrow> (\<forall>k < 64 * (n div 64). received_bit ws k)"
  proof
    assume a: "list_all (\<lambda>w. w = - 1) (take (n div 64) ws)"
    show "\<forall>k < 64 * (n div 64). received_bit ws k"
    proof (intro allI impI)
      fix k assume "k < 64 * (n div 64)"
      then have "k div 64 < n div 64" by (simp add: div_less_iff_less_mult mult.commute)
      then have "ws ! (k div 64) = - 1" using a n assms by (simp add: list_all_length)
      then show "received_bit ws k" by (simp add: received_bit_def)
    qed
  next
    assume a: "\<forall>k < 64 * (n div 64). received_bit ws k"
    have "ws ! j = - 1" if "j < n div 64" for j
      unfolding all_ones_iff
    proof (intro allI impI)
      fix k :: nat assume "k < 64"
      then show "bit (ws ! j) k" using a [rule_format, of "64 * j + k"] that by (simp add: received_bit_def)
    qed
    then show "list_all (\<lambda>w. w = - 1) (take (n div 64) ws)" using n assms by (simp add: list_all_length)
  qed
  have last: "(if n mod 64 = 0 then True
      else let m = push_bit (n mod 64) 1 - 1 in ws ! (n div 64) AND m = m) \<longleftrightarrow>
    (\<forall>k < n mod 64. received_bit ws (64 * (n div 64) + k))"
  proof -
    have m: "push_bit (n mod 64) 1 - 1 = (mask (n mod 64) :: u64)" by (simp add: mask_eq_exp_minus_1)
    have lt: "k < n mod 64 \<Longrightarrow> k < 64" for k by (rule less_trans [of k "n mod 64"]) simp_all
    have at: "received_bit ws (64 * (n div 64) + k) = bit (ws ! (n div 64)) k" if "k < 64" for k
      using that by (simp add: received_bit_def)
    have "(\<forall>k < n mod 64. k < 64 \<longrightarrow> bit (ws ! (n div 64)) k) \<longleftrightarrow>
        (\<forall>k < n mod 64. received_bit ws (64 * (n div 64) + k))"
      using lt at by blast
    then show ?thesis unfolding Let_def m covers_mask_iff by (cases "n mod 64 = 0") auto
  qed
  have split: "(\<forall>k < n. received_bit ws k) \<longleftrightarrow>
      (\<forall>k < 64 * (n div 64). received_bit ws k) \<and> (\<forall>k < n mod 64. received_bit ws (64 * (n div 64) + k))"
  proof -
    have eq: "n = 64 * (n div 64) + n mod 64" by simp
    show ?thesis
    proof (intro iffI conjI allI impI)
      fix k assume "\<forall>k < n. received_bit ws k" "k < 64 * (n div 64)"
      then show "received_bit ws k" using eq by (metis less_le_trans le_add1)
    next
      fix k assume "\<forall>k < n. received_bit ws k" "k < n mod 64"
      then show "received_bit ws (64 * (n div 64) + k)" using eq by (metis add_less_cancel_left)
    next
      fix k
      assume a: "(\<forall>k < 64 * (n div 64). received_bit ws k) \<and> (\<forall>k < n mod 64. received_bit ws (64 * (n div 64) + k))"
        and k: "k < n"
      show "received_bit ws k"
      proof (cases "k < 64 * (n div 64)")
        case False
        then obtain j where "k = 64 * (n div 64) + j" using le_Suc_ex not_less by blast
        then show ?thesis using a k eq by (metis add_less_cancel_left)
      qed (use a in blast)
    qed
  qed
  show ?thesis
    unfolding tp_complete_def Let_def n_def [symmetric] split full [symmetric]
      last [unfolded Let_def, symmetric] by (rule refl)
qed

lemma received_bit_set:
  assumes "length ws = 4" "i < 256" "k < 256"
  shows "received_bit (ws[i div 64 := (ws ! (i div 64)) OR push_bit (i mod 64) 1]) k \<longleftrightarrow>
    received_bit ws k \<or> k = i"
proof -
  have "(k div 64 = i div 64 \<and> k mod 64 = i mod 64) \<longleftrightarrow> k = i" by (metis div_mod_decomp)
  moreover have "i div 64 < 4" using assms(2) by (simp add: div_less_iff_less_mult)
  ultimately show ?thesis using assms(1)
    by (auto simp: received_bit_def nth_list_update bit_simps)
qed

subsection \<open>One transfer\<close>

record tp_message =
  tm_src :: u8
  tm_dst :: u8
  tm_prio :: u8
  tm_pgn :: u32
  tm_timestamp :: "string option"
  tm_packets :: u8
  tm_data :: "u8 list"

definition tm_valid :: "tp_message \<Rightarrow> bool" where
  "tm_valid m \<longleftrightarrow> 0 < length (tm_data m) \<and> length (tm_data m) \<le> 7 * unat (tm_packets m)"

definition tm_announces :: "tp_message \<Rightarrow> raw_frame \<Rightarrow> bool" where
  "tm_announces m f \<longleftrightarrow>
     rf_pgn f = PGN_ISO_TP_CM \<and> rf_src f = tm_src m \<and> rf_dst f = tm_dst m \<and> rf_prio f = tm_prio m \<and>
     rf_timestamp f = tm_timestamp m \<and> 8 \<le> length (rf_data f) \<and>
     (rf_data f ! 0 = TP_CM_BAM \<or> rf_data f ! 0 = TP_CM_RTS) \<and>
     unat (from_le [rf_data f ! 1, rf_data f ! 2] :: u16) = length (tm_data m) \<and>
     rf_data f ! 3 = tm_packets m \<and> le24 (rf_data f ! 5) (rf_data f ! 6) (rf_data f ! 7) = tm_pgn m"

text \<open>Data frame \<open>i\<close> of the transfer; what pads the last one does not matter.\<close>

definition tm_piece :: "tp_message \<Rightarrow> nat \<Rightarrow> raw_frame \<times> frame_packet_type \<Rightarrow> bool" where
  "tm_piece m i x \<longleftrightarrow>
     rf_pgn (fst x) = PGN_ISO_TP_DT \<and> rf_data (fst x) \<noteq> [] \<and> rf_data (fst x) ! 0 = word_of_nat (i + 1) \<and>
     take (length (tm_data m) - 7 * i) (take 7 (drop 1 (rf_data (fst x)))) = take 7 (drop (7 * i) (tm_data m))"

definition tm_full :: "tp_message \<Rightarrow> nat set" where
  "tm_full m = {..<unat (tm_packets m)}"

definition tm_own :: "tp_message \<Rightarrow> raw_frame \<times> frame_packet_type \<Rightarrow> bool" where
  "tm_own m x \<longleftrightarrow> rf_src (fst x) = tm_src m \<and>
     (rf_pgn (fst x) = PGN_ISO_TP_CM \<or> rf_pgn (fst x) = PGN_ISO_TP_DT)"

definition tm_result :: "tp_message \<Rightarrow> raw_frame \<times> frame_packet_type \<Rightarrow> reassembled" where
  "tm_result m x = Complete \<lparr>rf_timestamp = tm_timestamp m, rf_prio = tm_prio m, rf_pgn = tm_pgn m,
     rf_src = tm_src m, rf_dst = tm_dst m, rf_data = tm_data m\<rparr>"

definition session_of :: "tp_message \<Rightarrow> tp_slot \<Rightarrow> nat set \<Rightarrow> bool" where
  "session_of m s S \<longleftrightarrow>
     tp_dst s = tm_dst m \<and> tp_prio s = tm_prio m \<and> tp_target_pgn s = tm_pgn m \<and>
     tp_timestamp s = tm_timestamp m \<and> tp_packets s = tm_packets m \<and>
     tp_total_size s = length (tm_data m) \<and> length (tp_data s) = length (tm_data m) \<and>
     length (tp_received s) = 4 \<and> (\<forall>k < 256. received_bit (tp_received s) k \<longleftrightarrow> k \<in> S) \<and>
     (\<forall>i \<in> S. \<forall>k < length (tm_data m). 7 * i \<le> k \<and> k < 7 * i + 7 \<longrightarrow> tp_data s ! k = tm_data m ! k)"

definition tm_seen :: "tp_message \<Rightarrow> reassembler \<Rightarrow> nat set \<Rightarrow> bool" where
  "tm_seen m r S \<longleftrightarrow>
     (\<exists>i. find_tp_slot (ra_tp_slots r) (tm_src m) = Some i \<and> session_of m (ra_tp_slots r ! i) S)"

definition tp_room :: "reassembler \<Rightarrow> raw_frame \<times> frame_packet_type \<Rightarrow> bool" where
  "tp_room r x \<longleftrightarrow> (rf_pgn (fst x) = PGN_ISO_TP_CM \<longrightarrow>
     find_tp_slot (ra_tp_slots r) (rf_src (fst x)) \<noteq> None \<or> list_ex (\<lambda>s. \<not> tp_used s) (ra_tp_slots r))"

text \<open>One data frame of the transfer in its session.\<close>

lemma tp_dt_piece:
  assumes "reassembler_wf r" "tm_valid m" "tm_own m x" "tm_piece m i x" "tm_seen m r S"
    and i: "i < unat (tm_packets m)" and S: "S \<subseteq> tm_full m"
  shows "if insert i S = tm_full m then snd (handle_tp_dt r (fst x)) = tm_result m x
    else snd (handle_tp_dt r (fst x)) = Partial \<and> tm_seen m (fst (handle_tp_dt r (fst x))) (insert i S)"
proof -
  let ?f = "fst x" and ?L = "length (tm_data m)" and ?tps = "ra_tp_slots r"
  obtain j where j: "find_tp_slot ?tps (tm_src m) = Some j" "session_of m (?tps ! j) S"
    using assms(5) by (auto simp: tm_seen_def)
  have src: "rf_src ?f = tm_src m" using assms(3) by (simp add: tm_own_def)
  have ne: "rf_data ?f \<noteq> []" and head: "rf_data ?f ! 0 = word_of_nat (i + 1)"
    and chunk: "take (?L - 7 * i) (take 7 (drop 1 (rf_data ?f))) = take 7 (drop (7 * i) (tm_data m))"
    using assms(4) by (simp_all add: tm_piece_def)
  have n256: "unat (tm_packets m) < 256" using unsigned_less [of "tm_packets m", where 'a = nat] by simp
  have seq: "rf_data ?f ! 0 \<noteq> 0" "\<not> rf_data ?f ! 0 > tp_packets (?tps ! j)" "unat (rf_data ?f ! 0 - 1) = i"
  proof -
    have u: "unat (word_of_nat (i + 1) :: u8) = i + 1"
      by (rule unat_u8_of_nat) (use i n256 in simp)
    show "rf_data ?f ! 0 \<noteq> 0" unfolding head using u by (metis unat_0 Suc_eq_plus1 nat.distinct(1))
    show "\<not> rf_data ?f ! 0 > tp_packets (?tps ! j)"
      unfolding head using u i j(2) by (simp add: session_of_def word_less_nat_alt)
    have "(word_of_nat (i + 1) - 1 :: u8) = word_of_nat i" by simp
    then show "unat (rf_data ?f ! 0 - 1) = i" unfolding head using i n256 by simp
  qed
  define c where "c = min (7 * i + 7) ?L - 7 * i"
  have len_chunk: "min c (length (rf_data ?f) - 1) = c"
    using arg_cong [OF chunk, of length] by (auto simp: c_def min_def split: if_splits)
  define buf where "buf = (if c > 0 then overwrite (7 * i) (take c (drop 1 (rf_data ?f))) (tp_data (?tps ! j))
      else tp_data (?tps ! j))"
  define rec where "rec = (tp_received (?tps ! j))[i div 64 :=
      (tp_received (?tps ! j) ! (i div 64)) OR push_bit (i mod 64) 1]"
  define s2 where "s2 = (?tps ! j)\<lparr>tp_received := rec, tp_data := buf\<rparr>"
  have exec: "handle_tp_dt r ?f =
      (if \<not> tp_complete (tm_packets m) rec then (r\<lparr>ra_tp_slots := ?tps[j := s2]\<rparr>, Partial)
       else (r\<lparr>ra_tp_slots := ?tps[j := s2\<lparr>tp_timestamp := None, tp_used := False\<rparr>]\<rparr>,
             Complete \<lparr>rf_timestamp = tm_timestamp m, rf_prio = tm_prio m, rf_pgn = tm_pgn m,
               rf_src = tm_src m, rf_dst = tm_dst m, rf_data = take ?L buf\<rparr>))"
    using ne seq j len_chunk src unfolding handle_tp_dt_def Let_def
    by (simp add: session_of_def s2_def rec_def buf_def BUCKET_N_SIZE_def c_def mult.commute)
  have old: "length (tp_data (?tps ! j)) = ?L" "length (tp_received (?tps ! j)) = 4"
    using j(2) by (simp_all add: session_of_def)
  have ch: "drop 1 (rf_data ?f) ! t = tm_data m ! (7 * i + t)" if "t < 7" "7 * i + t < ?L" for t
    using arg_cong [OF chunk, of "\<lambda>xs. xs ! t"] that by (simp add: less_diff_conv add.commute)
  have len_c: "length (take c (drop 1 (rf_data ?f))) = c" using len_chunk by (simp add: min.commute)
  have buf: "buf ! k = (if 7 * i \<le> k \<and> k < 7 * i + 7 then tm_data m ! k else tp_data (?tps ! j) ! k)"
    if k: "k < ?L" for k
  proof (cases "c > 0")
    case True
    then have c: "7 * i + c \<le> ?L" "\<And>k. k < ?L \<Longrightarrow> k < 7 * i + c \<longleftrightarrow> k < 7 * i + 7" by (auto simp: c_def)
    have "buf ! k = (if 7 * i \<le> k \<and> k < 7 * i + c then take c (drop 1 (rf_data ?f)) ! (k - 7 * i)
        else tp_data (?tps ! j) ! k)"
      using True c(1) k old len_c by (simp add: buf_def nth_overwrite)
    then show ?thesis
    proof (cases "7 * i \<le> k \<and> k < 7 * i + 7")
      case True
      with c(2) [OF k] have "k < 7 * i + c" by simp
      with True have "k - 7 * i < c" "k - 7 * i < 7" by linarith+
      with True ch [of "k - 7 * i"] k \<open>k < 7 * i + c\<close> \<open>buf ! k = _\<close> show ?thesis by simp
    qed (use c(2) [OF k] in auto)
  next
    case False
    then have "\<not> (7 * i \<le> k \<and> k < 7 * i + 7)" using k by (auto simp: c_def)
    with False show ?thesis by (auto simp: buf_def)
  qed
  have len_buf: "length buf = ?L" using old len_c by (auto simp: buf_def c_def)
  have bits: "received_bit rec k \<longleftrightarrow> k \<in> insert i S" if "k < 256" for k
    using received_bit_set [OF old(2), of i k] that i n256 j(2) by (auto simp: rec_def session_of_def)
  have sess: "session_of m s2 (insert i S)"
    using j(2) bits buf len_buf old(2) unfolding session_of_def s2_def by (auto simp: rec_def)
  have compl: "tp_complete (tm_packets m) rec \<longleftrightarrow> insert i S = tm_full m"
  proof -
    have "length rec = 4" using old by (simp add: rec_def)
    then have "tp_complete (tm_packets m) rec \<longleftrightarrow> (\<forall>k < unat (tm_packets m). k \<in> insert i S)"
      using bits n256 by (auto simp: tp_complete_iff)
    then show ?thesis using i S by (auto simp: tm_full_def)
  qed
  have whole: "take ?L buf = tm_data m" if full: "insert i S = tm_full m"
  proof (rule nth_equalityI)
    fix k assume "k < length (take ?L buf)"
    then have k: "k < ?L" using len_buf by simp
    then have "k div 7 < unat (tm_packets m)"
      using assms(2) by (simp add: tm_valid_def div_less_iff_less_mult mult.commute)
    then have "k div 7 \<in> insert i S" unfolding full by (simp add: tm_full_def)
    moreover have "7 * (k div 7) \<le> k" "k < 7 * (k div 7) + 7"
      using mult_div_mod_eq [of 7 k] mod_less_divisor [of 7 k] by linarith+
    ultimately have "tp_data s2 ! k = tm_data m ! k"
      using sess k unfolding session_of_def by blast
    then show "take ?L buf ! k = tm_data m ! k" using k len_buf by (simp add: s2_def)
  qed (use len_buf in simp)
  have slot: "j < length ?tps" "tp_used (?tps ! j)" "tp_src (?tps ! j) = tm_src m"
    using tp.find_Some [OF j(1)] by simp_all
  have find: "find_tp_slot (?tps[j := s2]) (tm_src m) = Some j"
    using tp.find_put_same [of ?tps s2 j] assms(1) slot j(1) by (simp add: reassembler_wf_def s2_def)
  show ?thesis
  proof (cases "insert i S = tm_full m")
    case True
    then show ?thesis using compl whole by (simp add: exec tm_result_def)
  next
    case False
    then show ?thesis using compl find sess j(1) tp.find_Some [OF j(1)]
      by (auto simp: exec tm_seen_def)
  qed
qed

subsection \<open>Opening a session, and traffic of other sources\<close>

lemma tp_cm_opens:
  assumes "reassembler_wf r" "tm_valid m" "tm_announces m f"
  shows "snd (handle_tp_cm r f) = Partial \<and> tm_seen m (fst (handle_tp_cm r f)) {}"
proof -
  obtain i s0 where i: "i < length (ra_tp_slots r)"
    and find: "find_tp_slot (ra_tp_slots r) (rf_src f) = Some i \<or>
     find_tp_slot (ra_tp_slots r) (rf_src f) = None \<and> pick_tp_slot (ra_tp_slots r) = Some i"
    and s0: "tp_used s0" "tp_src s0 = rf_src f" "tp_slot_wf s0"
    and snd: "snd (claim_tp_slot r (rf_src f)) = Some i"
    and slots: "ra_tp_slots (fst (claim_tp_slot r (rf_src f))) = (ra_tp_slots r)[i := s0]"
      "ra_slots (fst (claim_tp_slot r (rf_src f))) = ra_slots r"
    by (rule claim_tp_slot_effect [OF assms(1), of "rf_src f"]) (rule that)
  obtain r1 where claim: "claim_tp_slot r (rf_src f) = (r1, Some i)"
    using snd by (cases "claim_tp_slot r (rf_src f)") simp
  define s1 where "s1 = s0\<lparr>tp_dst := rf_dst f, tp_prio := rf_prio f, tp_target_pgn := tm_pgn m,
    tp_total_size := length (tm_data m), tp_packets := tm_packets m, tp_received := [0, 0, 0, 0],
    tp_timestamp := rf_timestamp f, tp_data := replicate (length (tm_data m)) 0xff\<rparr>"
  have len: "0 < length (tm_data m)" "length (tm_data m) \<le> ISO_TP_MAX_SIZE" "tm_packets m \<noteq> 0"
  proof -
    have "unat (tm_packets m) < 256" using unsigned_less [of "tm_packets m", where 'a = nat] by simp
    then show "0 < length (tm_data m)" "length (tm_data m) \<le> ISO_TP_MAX_SIZE" "tm_packets m \<noteq> 0"
      using assms(2) by (auto simp: tm_valid_def ISO_TP_MAX_SIZE_def BUCKET_N_SIZE_def)
  qed
  have data: "rf_data f \<noteq> []" "rf_data f ! 0 \<noteq> TP_CM_ABORT" "\<not> length (rf_data f) < 8"
    "\<not> (rf_data f ! 0 \<noteq> TP_CM_BAM \<and> rf_data f ! 0 \<noteq> TP_CM_RTS)"
    using assms(3) by (auto simp: tm_announces_def TP_CM_ABORT_def TP_CM_BAM_def TP_CM_RTS_def)
  have exec: "handle_tp_cm r f = (r1\<lparr>ra_tp_slots := (ra_tp_slots r)[i := s1]\<rparr>, Partial)"
    using data len assms(3) slots i unfolding claim fst_conv handle_tp_cm_def Let_def
    by (auto simp: claim tm_announces_def s1_def)
  have src: "rf_src f = tm_src m" using assms(3) by (simp add: tm_announces_def)
  have "find_tp_slot ((ra_tp_slots r)[i := s1]) (tp_src s1) = Some i"
    by (rule tp.find_put_same)
      (use assms(1) i find s0 in \<open>auto simp: reassembler_wf_def s1_def\<close>)
  moreover have "tp_src s1 = tm_src m" using s0 src by (simp add: s1_def)
  moreover have "session_of m s1 {}"
  proof -
    have "received_bit [0, 0, 0, 0] k = False" if "k < 256" for k
    proof -
      have "k div 64 \<in> {0, 1, 2, 3}" using that by auto
      then show ?thesis by (auto simp: received_bit_def)
    qed
    then show ?thesis using assms(3) by (simp add: session_of_def s1_def tm_announces_def)
  qed
  ultimately show ?thesis using i unfolding exec tm_seen_def by simp
qed

text \<open>A TP frame changes at most one session, the one of its own source.\<close>

lemma tp_frame_effect:
  assumes "reassembler_wf r" "rf_pgn f = PGN_ISO_TP_CM \<or> rf_pgn f = PGN_ISO_TP_DT"
  obtains "ra_tp_slots (fst (push r f t)) = ra_tp_slots r"
  | i s where "ra_tp_slots (fst (push r f t)) = (ra_tp_slots r)[i := s]" "tp_src s = rf_src f"
      "find_tp_slot (ra_tp_slots r) (rf_src f) = Some i \<or>
       find_tp_slot (ra_tp_slots r) (rf_src f) = None \<and> pick_tp_slot (ra_tp_slots r) = Some i \<and>
         rf_pgn f = PGN_ISO_TP_CM"
proof -
  have eff: "ra_tp_slots (fst (push r f t)) = ra_tp_slots r \<or>
    (\<exists>i s. ra_tp_slots (fst (push r f t)) = (ra_tp_slots r)[i := s] \<and> tp_src s = rf_src f \<and>
      (find_tp_slot (ra_tp_slots r) (rf_src f) = Some i \<or>
       find_tp_slot (ra_tp_slots r) (rf_src f) = None \<and> pick_tp_slot (ra_tp_slots r) = Some i \<and>
         rf_pgn f = PGN_ISO_TP_CM))"
  proof (cases "rf_pgn f = PGN_ISO_TP_CM")
    case True
    have put: "ra_tp_slots (fst (handle_tp_cm r f)) = ra_tp_slots r \<or>
        (\<exists>i s. ra_tp_slots (fst (handle_tp_cm r f)) = (ra_tp_slots r)[i := s] \<and> tp_src s = rf_src f \<and>
          (find_tp_slot (ra_tp_slots r) (rf_src f) = Some i \<or>
           find_tp_slot (ra_tp_slots r) (rf_src f) = None \<and> pick_tp_slot (ra_tp_slots r) = Some i))"
    proof -
      obtain i s0 where find: "find_tp_slot (ra_tp_slots r) (rf_src f) = Some i \<or>
         find_tp_slot (ra_tp_slots r) (rf_src f) = None \<and> pick_tp_slot (ra_tp_slots r) = Some i"
        and i: "i < length (ra_tp_slots r)" and s0: "tp_src s0 = rf_src f"
        and snd: "snd (claim_tp_slot r (rf_src f)) = Some i"
        and slots: "ra_tp_slots (fst (claim_tp_slot r (rf_src f))) = (ra_tp_slots r)[i := s0]"
        by (rule claim_tp_slot_effect [OF assms(1), of "rf_src f"]) (rule that)
      obtain r1 where claim: "claim_tp_slot r (rf_src f) = (r1, Some i)"
        using snd by (cases "claim_tp_slot r (rf_src f)") simp
      have r1: "ra_tp_slots r1 = (ra_tp_slots r)[i := s0]" using slots by (simp add: claim)
      consider "rf_data f \<noteq> []" "rf_data f ! 0 = TP_CM_ABORT"
        | "ra_tp_slots (fst (handle_tp_cm r f)) = ra_tp_slots r"
        | s where "ra_tp_slots (fst (handle_tp_cm r f)) = (ra_tp_slots r)[i := s]" "tp_src s = rf_src f"
      proof -
        consider "rf_data f = []" | "rf_data f \<noteq> []" "rf_data f ! 0 = TP_CM_ABORT"
          | "rf_data f \<noteq> []" "rf_data f ! 0 \<noteq> TP_CM_ABORT" by blast
        then show ?thesis
        proof cases
          case 3
          define n where "n = unat (from_le [rf_data f ! 1, rf_data f ! 2] :: u16)"
          define g where "g = le24 (rf_data f ! 5) (rf_data f ! 6) (rf_data f ! 7)"
          define s where "s = s0\<lparr>tp_dst := rf_dst f, tp_prio := rf_prio f, tp_target_pgn := g,
             tp_total_size := n, tp_packets := rf_data f ! 3, tp_received := [0, 0, 0, 0],
             tp_timestamp := rf_timestamp f, tp_data := replicate n 0xff\<rparr>"
          have "ra_tp_slots (fst (handle_tp_cm r f)) = ra_tp_slots r \<or>
              ra_tp_slots (fst (handle_tp_cm r f)) = (ra_tp_slots r)[i := s]"
            using 3 i r1 unfolding handle_tp_cm_def Let_def n_def [symmetric] g_def [symmetric]
            by (auto simp: claim s_def)
          moreover have "tp_src s = rf_src f" using s0 by (simp add: s_def)
          ultimately show ?thesis using that(2,3) by blast
        qed (use that in \<open>simp_all add: handle_tp_cm_def\<close>)
      qed
      then show ?thesis
      proof cases
        case 1
        then show ?thesis
          using tp.find_Some [of "ra_tp_slots r" "rf_src f"]
          by (cases "find_tp_slot (ra_tp_slots r) (rf_src f)") (auto simp: handle_tp_cm_def Let_def)
      next
        case 3
        then show ?thesis using find by blast
      qed simp
    qed
    then show ?thesis using True by (auto simp: push_def)
  next
    case False
    then have dt: "push r f t = handle_tp_dt r f" using assms(2) by (simp add: push_def)
    show ?thesis
    proof (cases "rf_data f = [] \<or> find_tp_slot (ra_tp_slots r) (rf_src f) = None")
      case True
      then have "ra_tp_slots (fst (handle_tp_dt r f)) = ra_tp_slots r"
        by (auto simp: handle_tp_dt_def Let_def)
      then show ?thesis unfolding dt by blast
    next
      case False
      then obtain j where j: "find_tp_slot (ra_tp_slots r) (rf_src f) = Some j" by auto
      then have src: "tp_src (ra_tp_slots r ! j) = rf_src f" using tp.find_Some by blast
      have "ra_tp_slots (fst (handle_tp_dt r f)) = ra_tp_slots r \<or>
          (\<exists>s. ra_tp_slots (fst (handle_tp_dt r f)) = (ra_tp_slots r)[j := s] \<and> tp_src s = rf_src f)"
        using False src unfolding handle_tp_dt_def Let_def by (auto simp: j)
      then show ?thesis unfolding dt using j by blast
    qed
  qed
  then show thesis using that by blast
qed

lemma push_tp_other:
  assumes "rf_pgn f \<noteq> PGN_ISO_TP_CM" "rf_pgn f \<noteq> PGN_ISO_TP_DT"
  shows "ra_tp_slots (fst (push r f t)) = ra_tp_slots r"
  using assms by (auto simp: push_def push_fast_def claim_slot_def Let_def case_prod_beta split: option.splits)

lemma tm_seen_bystander:
  assumes "reassembler_wf r" "tp_room r x" "\<not> tm_own m x" "tm_seen m r S"
  shows "tm_seen m (fst (push_step r x)) S"
proof (cases "rf_pgn (fst x) = PGN_ISO_TP_CM \<or> rf_pgn (fst x) = PGN_ISO_TP_DT")
  case False
  then show ?thesis using assms(4) by (simp add: tm_seen_def push_step_def push_tp_other)
next
  case True
  let ?tps = "ra_tp_slots r"
  obtain j where j: "find_tp_slot ?tps (tm_src m) = Some j" "session_of m (?tps ! j) S"
    using assms(4) by (auto simp: tm_seen_def)
  have src: "tm_src m \<noteq> rf_src (fst x)" using assms(3) True by (auto simp: tm_own_def)
  show ?thesis
  proof (rule tp_frame_effect [OF assms(1) True, of "snd x"])
    assume "ra_tp_slots (fst (push r (fst x) (snd x))) = ?tps"
    then show ?thesis using assms(4) by (simp add: tm_seen_def push_step_def)
  next
    fix i s
    assume eff: "ra_tp_slots (fst (push r (fst x) (snd x))) = ?tps[i := s]" "tp_src s = rf_src (fst x)"
      and at: "find_tp_slot ?tps (rf_src (fst x)) = Some i \<or>
        find_tp_slot ?tps (rf_src (fst x)) = None \<and> pick_tp_slot ?tps = Some i \<and> rf_pgn (fst x) = PGN_ISO_TP_CM"
    have ne: "j \<noteq> i"
    proof
      assume ji: "j = i"
      show False using at
      proof
        assume "find_tp_slot ?tps (rf_src (fst x)) = Some i"
        then show False using ji src tp.find_Some [OF j(1)] tp.find_Some [of ?tps "rf_src (fst x)" i] by simp
      next
        assume n: "find_tp_slot ?tps (rf_src (fst x)) = None \<and> pick_tp_slot ?tps = Some i \<and>
          rf_pgn (fst x) = PGN_ISO_TP_CM"
        then obtain k where "k < length ?tps" "\<not> tp_used (?tps ! k)"
          using assms(2) by (auto simp: tp_room_def list_ex_length)
        then show False using tp.pick_keeps_used [of ?tps i k "tm_src m"] n ji j(1) by simp
      qed
    qed
    have "find_tp_slot (?tps[i := s]) (tm_src m) = Some j"
      by (rule tp.find_put_other)
        (use assms(1) eff(2) at src j(1) ne in \<open>auto simp: reassembler_wf_def\<close>)
    then show ?thesis using j(2) ne by (simp add: tm_seen_def push_step_def eff)
  qed
qed

interpretation tp_asm: assembly push_step reassembler_wf tp_room tm_valid tm_own tm_piece tm_seen
  tm_full "\<lambda>m S i. True" Partial tm_result
proof unfold_locales
  fix r x assume "reassembler_wf r"
  then show "reassembler_wf (fst (push_step r x))" unfolding push_step_def by (rule push_wf)
next
  fix m r x S
  assume "reassembler_wf r" "tp_room r x" "\<not> tm_own m x" "tm_seen m r S"
  then show "tm_seen m (fst (push_step r x)) S" by (rule tm_seen_bystander)
next
  fix m r x i S
  assume a: "tm_valid m" "reassembler_wf r" "tm_own m x" "tm_piece m i x" "tm_seen m r S" "i \<in> tm_full m"
    "S \<subseteq> tm_full m"
  have "push_step r x = handle_tp_dt r (fst x)"
    using a(4) by (simp add: push_step_def push_def tm_piece_def PGN_ISO_TP_CM_def PGN_ISO_TP_DT_def)
  then show "if insert i S = tm_full m then snd (push_step r x) = tm_result m x
      else snd (push_step r x) = Partial \<and> tm_seen m (fst (push_step r x)) (insert i S)"
    using tp_dt_piece [OF a(2,1,3,4,5) _ a(7)] a(6) by (simp add: tm_full_def)
qed

lemma tp_order_ok:
  "S \<union> set ns = tm_full m \<Longrightarrow> S \<union> set (butlast ns) \<noteq> tm_full m \<Longrightarrow> S \<noteq> tm_full m \<Longrightarrow> tp_asm.order_ok m S ns"
proof (induction ns arbitrary: S)
  case (Cons i ks)
  show ?case
  proof (cases "ks = []")
    case False
    have "insert i S \<noteq> tm_full m"
    proof
      assume "insert i S = tm_full m"
      then have "S \<union> set (butlast (i # ks)) = tm_full m"
        using Cons.prems(1) False in_set_butlastD [of _ ks] by auto
      then show False using Cons.prems(2) by simp
    qed
    moreover from this have "tp_asm.order_ok m (insert i S) ks"
      using Cons.prems False by (intro Cons.IH) simp_all
    ultimately show ?thesis using Cons.prems(1) False by auto
  qed (use Cons.prems in auto)
qed simp

subsection \<open>Properties\<close>

text \<open>
  C20: Once a BAM or RTS frame has announced a transfer, its data frames, in any order, with any of them
  repeated, and interleaved with any other traffic that leaves a session slot free, return exactly one
  completed message, at the frame that supplies the last missing number, and it carries the announced
  PGN, priority and addresses and the sender's payload.
\<close>

theorem iso_tp_reassembled:
  assumes "reassembler_wf r" "tm_valid m" "tm_announces m f"
    and "tp_asm.roomy (fst (push r f t)) traffic"
    and "list_all2 (tm_piece m) ns (filter (tm_own m) traffic)"
    and "set ns = {..<unat (tm_packets m)}" "set (butlast ns) \<noteq> {..<unat (tm_packets m)}"
  shows "snd (push r f t) = Partial \<and>
    tp_asm.outputs m (fst (push r f t)) traffic =
      replicate (length ns - 1) Partial @
      [Complete \<lparr>rf_timestamp = rf_timestamp f, rf_prio = rf_prio f, rf_pgn = tm_pgn m,
        rf_src = rf_src f, rf_dst = rf_dst f, rf_data = tm_data m\<rparr>]"
proof -
  have cm: "push r f t = handle_tp_cm r f" using assms(3) by (simp add: push_def tm_announces_def)
  then have out: "snd (push r f t) = Partial" using tp_cm_opens [OF assms(1-3)] by simp
  have seen: "tm_seen m (fst (push r f t)) {}" using tp_cm_opens [OF assms(1-3)] cm by simp
  have "0 < unat (tm_packets m)"
    using assms(2) by (cases "unat (tm_packets m)") (auto simp: tm_valid_def)
  then have "0 \<in> tm_full m" by (simp add: tm_full_def)
  then have ne: "{} \<noteq> tm_full m" by blast
  have "tp_asm.order_ok m {} ns"
    by (rule tp_order_ok) (use assms(6,7) ne in \<open>simp_all add: tm_full_def\<close>)
  then have "tp_asm.outputs m (fst (push r f t)) traffic = replicate (length ns - 1) Partial @
      [tm_result m (last (filter (tm_own m) traffic))]"
    by (intro tp_asm.outputs_run [OF assms(2) push_wf [OF assms(1)] assms(4) seen _ _ assms(5)])
      (use ne in auto)
  then show ?thesis
    using out assms(3) by (simp add: tm_result_def tm_announces_def)
qed

definition tp_demo :: tp_message where
  "tp_demo = \<lparr>tm_src = 5, tm_dst = 255, tm_prio = 7, tm_pgn = 129540, tm_timestamp = None,
     tm_packets = 2, tm_data = [1, 2, 3, 4, 5, 6, 7, 8, 9]\<rparr>"

definition tp_demo_frame :: "u32 \<Rightarrow> u8 list \<Rightarrow> raw_frame" where
  "tp_demo_frame pgn data =
     \<lparr>rf_timestamp = None, rf_prio = 7, rf_pgn = pgn, rf_src = 5, rf_dst = 255, rf_data = data\<rparr>"

lemma iso_tp_reassembled_witness:
  "tp_asm.outputs tp_demo (fst (push reassembler_new
       (tp_demo_frame 60416 [32, 9, 0, 2, 255, 0x04, 0xfa, 0x01]) Single))
     [(tp_demo_frame 60160 [2, 8, 9, 255, 255, 255, 255, 255], Single),
      (tp_demo_frame 127250 [1, 2, 3, 4, 5, 6, 7, 8], Single),
      (tp_demo_frame 60160 [2, 8, 9, 255, 255, 255, 255, 255], Single),
      (tp_demo_frame 60160 [1, 1, 2, 3, 4, 5, 6, 7], Single)] =
   [Partial, Partial, Complete (tp_demo_frame 129540 [1, 2, 3, 4, 5, 6, 7, 8, 9])]"
proof -
  let ?cm = "tp_demo_frame 60416 [32, 9, 0, 2, 255, 0x04, 0xfa, 0x01]"
  let ?traffic = "[(tp_demo_frame 60160 [2, 8, 9, 255, 255, 255, 255, 255], Single),
      (tp_demo_frame 127250 [1, 2, 3, 4, 5, 6, 7, 8], Single),
      (tp_demo_frame 60160 [2, 8, 9, 255, 255, 255, 255, 255], Single),
      (tp_demo_frame 60160 [1, 1, 2, 3, 4, 5, 6, 7], Single)]"
  have valid: "tm_valid tp_demo" by (simp add: tm_valid_def tp_demo_def)
  have ann: "tm_announces tp_demo ?cm"
    by (simp add: tm_announces_def tp_demo_def tp_demo_frame_def PGN_ISO_TP_CM_def TP_CM_BAM_def le24_def)
  have own: "filter (tm_own tp_demo) ?traffic =
     [(tp_demo_frame 60160 [2, 8, 9, 255, 255, 255, 255, 255], Single),
      (tp_demo_frame 60160 [2, 8, 9, 255, 255, 255, 255, 255], Single),
      (tp_demo_frame 60160 [1, 1, 2, 3, 4, 5, 6, 7], Single)]"
    by (simp add: tm_own_def tp_demo_def tp_demo_frame_def PGN_ISO_TP_CM_def PGN_ISO_TP_DT_def)
  have room: "tp_asm.roomy (fst (push reassembler_new ?cm Single)) ?traffic"
    by (simp add: tp_room_def tp_demo_frame_def PGN_ISO_TP_CM_def)
  have pieces: "list_all2 (tm_piece tp_demo) [1, 1, 0] (filter (tm_own tp_demo) ?traffic)"
    unfolding own by (simp add: tm_piece_def tp_demo_def tp_demo_frame_def PGN_ISO_TP_DT_def)
  have two: "{..<unat (tm_packets tp_demo)} = {1, 0}"
  proof -
    have "unat (tm_packets tp_demo) = 2" by (simp add: tp_demo_def)
    then show ?thesis by (simp add: lessThan_nat_numeral lessThan_Suc)
  qed
  have all: "set [1, 1, 0] = {..<unat (tm_packets tp_demo)}" unfolding two by simp
  have last: "set (butlast [1, 1, 0]) \<noteq> {..<unat (tm_packets tp_demo)}" unfolding two by simp
  have run: "tp_asm.outputs tp_demo (fst (push reassembler_new ?cm Single)) ?traffic =
      replicate (length [1, 1, 0 :: nat] - 1) Partial @
      [Complete \<lparr>rf_timestamp = rf_timestamp ?cm, rf_prio = rf_prio ?cm, rf_pgn = tm_pgn tp_demo,
        rf_src = rf_src ?cm, rf_dst = rf_dst ?cm, rf_data = tm_data tp_demo\<rparr>]"
    by (rule iso_tp_reassembled [OF reassembler_wf_new valid ann room pieces all last, THEN conjunct2])
  show ?thesis unfolding run by (simp add: tp_demo_def tp_demo_frame_def numeral_2_eq_2)
qed

end
