(* ===== verification/Ascii.thy ===== *)
theory Ascii
  imports Prelude "HOL-Library.Char_ord"
begin

section \<open>Text helpers\<close>

text \<open>
  Strings of the sources are lists of bytes here; white space and digits are the ASCII ones.  Decimal
  printing and parsing, splitting and trimming, as the Rust standard library does them on such text.
\<close>

definition digit_char :: "nat \<Rightarrow> char" where
  "digit_char d = char_of (48 + d)"

definition is_digit :: "char \<Rightarrow> bool" where
  "is_digit c \<longleftrightarrow> 48 \<le> (of_char c :: nat) \<and> (of_char c :: nat) \<le> 57"

definition digit_value :: "char \<Rightarrow> nat" where
  "digit_value c = of_char c - 48"

text \<open>\<open>to\_string\<close> of an unsigned integer, and its zero-padded form \<open>\{:0w\}\<close>.\<close>

fun show_nat :: "nat \<Rightarrow> string" where
  "show_nat n = (if n < 10 then [digit_char n] else show_nat (n div 10) @ [digit_char (n mod 10)])"

declare show_nat.simps [simp del]

definition pad_left :: "char \<Rightarrow> nat \<Rightarrow> string \<Rightarrow> string" where
  "pad_left c w s = replicate (w - length s) c @ s"

definition show_padded :: "nat \<Rightarrow> nat \<Rightarrow> string" where
  "show_padded w n = pad_left CHR ''0'' w (show_nat n)"

text \<open>The value of a run of digits, and \<open>parse\<close> of an unsigned integer of at most \<open>m\<close>.\<close>

definition digits_value :: "string \<Rightarrow> nat" where
  "digits_value s = foldl (\<lambda>v c. 10 * v + digit_value c) 0 s"

definition parse_unsigned :: "nat \<Rightarrow> string \<Rightarrow> nat option" where
  "parse_unsigned m s =
     (let t = (case s of c # r \<Rightarrow> if c = CHR ''+'' \<and> r \<noteq> [] then r else s | [] \<Rightarrow> s) in
      if t = [] \<or> \<not> list_all is_digit t \<or> digits_value t > m then None else Some (digits_value t))"

definition is_space :: "char \<Rightarrow> bool" where
  "is_space c \<longleftrightarrow> (of_char c :: nat) \<in> {9, 10, 11, 12, 13, 32}"

definition trim_start :: "string \<Rightarrow> string" where
  "trim_start s = dropWhile is_space s"

definition trim_end :: "string \<Rightarrow> string" where
  "trim_end s = rev (dropWhile is_space (rev s))"

definition trim :: "string \<Rightarrow> string" where
  "trim s = trim_end (trim_start s)"

text \<open>\<open>split\<close> at every occurrence of a character (at least one piece), and \<open>split\_once\<close>.\<close>

fun split_on :: "char \<Rightarrow> string \<Rightarrow> string list" where
  "split_on d [] = [[]]"
| "split_on d (c # s) =
     (if c = d then [] # split_on d s
      else case split_on d s of p # ps \<Rightarrow> (c # p) # ps | [] \<Rightarrow> [[c]])"

fun split_once :: "char \<Rightarrow> string \<Rightarrow> (string \<times> string) option" where
  "split_once d [] = None"
| "split_once d (c # s) =
     (if c = d then Some ([], s)
      else case split_once d s of Some (a, b) \<Rightarrow> Some (c # a, b) | None \<Rightarrow> None)"

text \<open>\<open>splitn\<close>: at most \<open>n\<close> pieces, the last one keeps the rest.\<close>

fun splitn :: "nat \<Rightarrow> char \<Rightarrow> string \<Rightarrow> string list" where
  "splitn 0 d s = []"
| "splitn (Suc 0) d s = [s]"
| "splitn (Suc (Suc n)) d s = (case split_once d s of None \<Rightarrow> [s] | Some (a, b) \<Rightarrow> a # splitn (Suc n) d b)"

definition split_whitespace :: "string \<Rightarrow> string list" where
  "split_whitespace s =
     filter (\<lambda>p. p \<noteq> []) (split_on CHR '' '' (map (\<lambda>c. if is_space c then CHR '' '' else c) s))"

definition starts_with :: "string \<Rightarrow> string \<Rightarrow> bool" where
  "starts_with s p \<longleftrightarrow> take (length p) s = p"

definition strip_prefix :: "string \<Rightarrow> string \<Rightarrow> string option" where
  "strip_prefix s p = (if starts_with s p then Some (drop (length p) s) else None)"

text \<open>Joining with a separator.\<close>

fun join :: "string \<Rightarrow> string list \<Rightarrow> string" where
  "join sep [] = []"
| "join sep [s] = s"
| "join sep (s # ss) = s @ sep @ join sep ss"

subsection \<open>Digits\<close>

lemma of_char_digit [simp]: "d < 10 \<Longrightarrow> (of_char (digit_char d) :: nat) = 48 + d"
  by (simp add: digit_char_def)

lemma digit_value_digit [simp]: "d < 10 \<Longrightarrow> digit_value (digit_char d) = d"
  by (simp add: digit_value_def)

lemma is_digit_digit [simp]: "d < 10 \<Longrightarrow> is_digit (digit_char d)"
  by (simp add: is_digit_def)

lemma digits_value_snoc [simp]: "digits_value (s @ [c]) = 10 * digits_value s + digit_value c"
  by (simp add: digits_value_def)

lemma digits_value_Nil [simp]: "digits_value [] = 0"
  by (simp add: digits_value_def)

lemma show_nat_digits: "list_all is_digit (show_nat n)"
  by (induction n rule: show_nat.induct) (simp add: show_nat.simps)

lemma show_nat_value [simp]: "digits_value (show_nat n) = n"
proof (induction n rule: show_nat.induct)
  case (1 n)
  have "digits_value [c] = digit_value c" for c
    using digits_value_snoc [of "[]" c] by simp
  then show ?case using 1 by (cases "n < 10") (simp_all add: show_nat.simps [of n])
qed

lemma show_nat_nonempty [simp]: "show_nat n \<noteq> []"
  by (simp add: show_nat.simps)

lemma digit_not_plus: "is_digit c \<Longrightarrow> c \<noteq> CHR ''+''"
  by (auto simp: is_digit_def)

lemma parse_unsigned_digits:
  "s \<noteq> [] \<Longrightarrow> list_all is_digit s \<Longrightarrow> digits_value s \<le> m \<Longrightarrow> parse_unsigned m s = Some (digits_value s)"
  by (cases s) (auto simp: parse_unsigned_def Let_def digit_not_plus)

lemma parse_show_nat [simp]: "n \<le> m \<Longrightarrow> parse_unsigned m (show_nat n) = Some n"
  using parse_unsigned_digits [of "show_nat n" m] by (simp add: show_nat_digits)

lemma parse_unsigned_SomeD:
  assumes "parse_unsigned m s = Some z"
  obtains r where "z = digits_value r" "list_all is_digit r" "length r \<le> length s" "r \<noteq> []" "z \<le> m"
proof -
  define t where "t = (case s of c # r \<Rightarrow> if c = CHR ''+'' \<and> r \<noteq> [] then r else s | [] \<Rightarrow> s)"
  have "length t \<le> length s" by (auto simp: t_def split: list.split)
  moreover have "t \<noteq> []" "list_all is_digit t" "z = digits_value t" "z \<le> m"
    using assms unfolding parse_unsigned_def Let_def t_def [symmetric] by (auto split: if_splits)
  ultimately show thesis by (intro that)
qed

lemma zero_char: "CHR ''0'' = digit_char 0"
  by code_simp

lemma digits_value_zeros [simp]: "digits_value (replicate k CHR ''0'' @ s) = digits_value s"
proof -
  have "foldl (\<lambda>v c. 10 * v + digit_value c) 0 (replicate k CHR ''0'') = 0"
    by (induction k) (simp_all add: zero_char)
  then show ?thesis by (simp add: digits_value_def)
qed

lemma show_padded_digits: "list_all is_digit (show_padded w n)"
  by (simp add: show_padded_def pad_left_def show_nat_digits list_all_iff) 
     (auto simp: zero_char show_nat_digits [unfolded list_all_iff])

lemma show_padded_value [simp]: "digits_value (show_padded w n) = n"
  by (simp add: show_padded_def pad_left_def)

lemma length_show_nat: "n < 10 ^ k \<Longrightarrow> 0 < k \<Longrightarrow> length (show_nat n) \<le> k"
proof (induction n arbitrary: k rule: show_nat.induct)
  case (1 n)
  show ?case
  proof (cases "n < 10")
    case False
    then obtain j where k: "k = Suc j" "0 < j" using 1 by (cases k; cases "k - 1") auto
    then have "n div 10 < 10 ^ j" using 1(2) by (simp add: div_less_iff_less_mult)
    from 1(1) [OF False this k(2)] show ?thesis using False k by (simp add: show_nat.simps [of n])
  qed (use 1 in \<open>simp add: show_nat.simps [of n]\<close>)
qed

lemma length_show_padded: "n < 10 ^ w \<Longrightarrow> 0 < w \<Longrightarrow> length (show_padded w n) = w"
  using length_show_nat [of n w] by (simp add: show_padded_def pad_left_def)

subsection \<open>Splitting\<close>

lemma split_on_none: "d \<notin> set s \<Longrightarrow> split_on d s = [s]"
  by (induction s) auto

lemma split_on_append: "d \<notin> set s \<Longrightarrow> split_on d (s @ d # t) = s # split_on d t"
  by (induction s) auto

lemma split_once_append: "d \<notin> set s \<Longrightarrow> split_once d (s @ d # t) = Some (s, t)"
  by (induction s) auto

lemma digit_set: "list_all is_digit s \<Longrightarrow> \<not> is_digit c \<Longrightarrow> c \<notin> set s"
  by (auto simp: list_all_iff)

lemma split_on_join:
  "ts \<noteq> [] \<Longrightarrow> \<forall>t \<in> set ts. d \<notin> set t \<Longrightarrow> split_on d (join [d] ts) = ts"
proof (induction "[d]" ts rule: join.induct)
  case (3 s v va)
  then show ?case by (simp add: split_on_append)
qed (simp_all add: split_on_none)

lemma map_no_space: "list_all (\<lambda>c. \<not> is_space c) s \<Longrightarrow> map (\<lambda>c. if is_space c then CHR '' '' else c) s = s"
  by (induction s) auto

lemma space_is_space [simp]: "is_space CHR '' ''"
  by (simp add: is_space_def)

lemma split_whitespace_join:
  assumes "\<forall>t \<in> set ts. t \<noteq> [] \<and> list_all (\<lambda>c. \<not> is_space c) t"
  shows "split_whitespace (join '' '' ts) = ts"
proof (cases "ts = []")
  case False
  have "map (\<lambda>c. if is_space c then CHR '' '' else c) (join '' '' ts) = join '' '' ts"
    using assms by (induction "'' ''" ts rule: join.induct) (auto simp: map_no_space)
  moreover have "\<forall>t \<in> set ts. CHR '' '' \<notin> set t"
    using assms space_is_space unfolding list_all_iff by blast
  ultimately show ?thesis
    using assms False by (simp add: split_whitespace_def split_on_join filter_id_conv)
qed (simp add: split_whitespace_def)

lemma digits_value_Cons:
  "digits_value (c # s) = digit_value c * 10 ^ length s + digits_value s"
proof (induction s rule: rev_induct)
  case (snoc x xs)
  have "digits_value (c # xs @ [x]) = 10 * digits_value (c # xs) + digit_value x"
    using digits_value_snoc [of "c # xs" x] by simp
  then show ?case using snoc by (simp add: algebra_simps)
qed (simp add: digits_value_def)

lemma digits_value_bound: "list_all is_digit s \<Longrightarrow> digits_value s < 10 ^ length s"
proof (induction s rule: rev_induct)
  case (snoc c s)
  then have "digits_value s < 10 ^ length s" "digit_value c \<le> 9"
    by (auto simp: is_digit_def digit_value_def)
  then show ?case by simp
qed simp

lemma digit_value_inj: "is_digit a \<Longrightarrow> is_digit b \<Longrightarrow> digit_value a = digit_value b \<Longrightarrow> a = b"
  unfolding is_digit_def digit_value_def by (metis eq_diff_iff of_char_eq_iff)

lemma digits_value_inj:
  "length a = length b \<Longrightarrow> list_all is_digit a \<Longrightarrow> list_all is_digit b \<Longrightarrow>
   digits_value a = digits_value b \<Longrightarrow> a = b"
proof (induction a b rule: rev_induct2)
  case (4 x xs y ys)
  have "digit_value x \<le> 9" "digit_value y \<le> 9" using 4 by (auto simp: is_digit_def digit_value_def)
  then have "digits_value xs = digits_value ys \<and> digit_value x = digit_value y" using 4(5) by simp presburger
  then show ?case using 4 digit_value_inj by auto
qed auto

text \<open>A run of \<open>w\<close> digits is the padded form of its value.\<close>

lemma show_padded_digits_value:
  assumes "length s = w" "0 < w" "list_all is_digit s"
  shows "show_padded w (digits_value s) = s"
proof (rule digits_value_inj)
  have "digits_value s < 10 ^ w" using digits_value_bound [OF assms(3)] assms(1) by simp
  then show "length (show_padded w (digits_value s)) = length s" using length_show_padded assms by simp
qed (use assms show_padded_digits in simp_all)

end
