(* ===== verification/Ngt1.thy ===== *)
theory Ngt1
  imports Raw_Frame Ascii
begin

section \<open>The NGT-1 and EBL framing (canboat-core/src/format/ngt1.rs)\<close>

text \<open>
  The byte decoder \<open>Ngt1Decoder\<close> (one state machine for NGT-1 frames and EBL header records),
  the framing of outgoing messages, and the conversion of messages to frames.  The lemmas show that the
  decoder inverts the framing from any state that is not in the middle of an escape, so that it also
  finds back into step after noise.
\<close>

definition DLE :: u8 where "DLE = 0x10"
definition STX :: u8 where "STX = 0x02"
definition ETX :: u8 where "ETX = 0x03"
definition ESC :: u8 where "ESC = 0x1b"
definition SOH :: u8 where "SOH = 0x01"
definition LF :: u8 where "LF = 0x0a"
definition FILETIME_TO_UNIX_MS :: u64 where "FILETIME_TO_UNIX_MS = 11644473600000"
definition EBL_TIMESTAMP :: u8 where "EBL_TIMESTAMP = 0x03"
definition N2K_MSG_RECEIVED :: u8 where "N2K_MSG_RECEIVED = 0x93"
definition N2K_MSG_SEND :: u8 where "N2K_MSG_SEND = 0x94"
definition NGT_MSG_SEND :: u8 where "NGT_MSG_SEND = 0xA1"

record ngt_message =
  nm_command :: u8
  nm_payload :: "u8 list"

datatype ngt_error = ShortMessage | BadChecksum | LengthMismatch u8 usize | BadEscape u8

datatype ebl_header = Timestamp u64 | Unknown u8 "u8 list"

datatype ngt_event = Message ngt_message | Header ebl_header | NgtErr ngt_error

datatype prev_state = PrevIdle | PrevInFrame | PrevInHeader

datatype dec_state = Idle | InFrame | InHeader | Escape prev_state

record ngt_decoder =
  nd_state :: dec_state
  nd_buf :: "u8 list"
  nd_ebl :: bool

definition ngt_decoder_new :: ngt_decoder where
  "ngt_decoder_new = \<lparr>nd_state = Idle, nd_buf = [], nd_ebl = False\<rparr>"

definition ngt_decoder_with_ebl :: ngt_decoder where
  "ngt_decoder_with_ebl = ngt_decoder_new\<lparr>nd_ebl := True\<rparr>"

definition is_escape :: "ngt_decoder \<Rightarrow> u8 \<Rightarrow> bool" where
  "is_escape d b \<longleftrightarrow> b = DLE \<or> nd_ebl d \<and> b = ESC"

primrec restore :: "prev_state \<Rightarrow> dec_state" where
  "restore PrevIdle = Idle"
| "restore PrevInFrame = InFrame"
| "restore PrevInHeader = InHeader"

definition finish_frame :: "u8 list \<Rightarrow> ngt_event option" where
  "finish_frame raw =
     (if length raw < 3 then Some (NgtErr ShortMessage)
      else if foldl (+) 0 raw \<noteq> 0 then Some (NgtErr BadChecksum)
      else let command = raw ! 0; declared = raw ! 1; actual = length raw - 3 in
        if unat declared \<noteq> actual then Some (NgtErr (LengthMismatch declared actual))
        else Some (Message \<lparr>nm_command = command, nm_payload = drop 2 (take (length raw - 1) raw)\<rparr>))"

definition finish_header :: "u8 list \<Rightarrow> ngt_event option" where
  "finish_header raw =
     (if raw = [] then None
      else if raw ! 0 = EBL_TIMESTAMP \<and> length raw \<ge> 9 then
        (let ticks = from_le (take 8 (drop 1 raw)) :: u64;
             ms = ticks div 10000;
             unix_ms = (if ms < FILETIME_TO_UNIX_MS then 0 else ms - FILETIME_TO_UNIX_MS)
         in Some (Header (Timestamp unix_ms)))
      else Some (Header (Unknown (raw ! 0) (drop 1 raw))))"

definition push_byte :: "ngt_decoder \<Rightarrow> u8 \<Rightarrow> ngt_decoder \<times> ngt_event option" where
  "push_byte d b =
     (case nd_state d of
        Idle \<Rightarrow> (if is_escape d b then d\<lparr>nd_state := Escape PrevIdle\<rparr> else d, None)
      | InFrame \<Rightarrow>
          (if is_escape d b then d\<lparr>nd_state := Escape PrevInFrame\<rparr> else d\<lparr>nd_buf := nd_buf d @ [b]\<rparr>, None)
      | InHeader \<Rightarrow>
          (if nd_ebl d \<and> b = ESC then d\<lparr>nd_state := Escape PrevInHeader\<rparr>
           else d\<lparr>nd_buf := nd_buf d @ [b]\<rparr>, None)
      | Escape prev \<Rightarrow>
          (if b = STX then (d\<lparr>nd_buf := [], nd_state := InFrame\<rparr>, None)
           else if b = ETX then (d\<lparr>nd_buf := [], nd_state := Idle\<rparr>, finish_frame (nd_buf d))
           else if b = SOH \<and> nd_ebl d then (d\<lparr>nd_buf := [], nd_state := InHeader\<rparr>, None)
           else if b = LF \<and> nd_ebl d then (d\<lparr>nd_buf := [], nd_state := Idle\<rparr>, finish_header (nd_buf d))
           else if b = DLE then
             (d\<lparr>nd_buf := (if prev = PrevInFrame \<or> prev = PrevInHeader then nd_buf d @ [DLE] else nd_buf d),
                nd_state := restore prev\<rparr>, None)
           else if b = ESC \<and> nd_ebl d then
             (d\<lparr>nd_buf := (if prev = PrevInFrame \<or> prev = PrevInHeader then nd_buf d @ [ESC] else nd_buf d),
                nd_state := restore prev\<rparr>, None)
           else (d\<lparr>nd_state := Idle, nd_buf := []\<rparr>,
                 if prev = PrevInFrame \<or> prev = PrevInHeader then Some (NgtErr (BadEscape b)) else None)))"

fun push_bytes :: "ngt_decoder \<Rightarrow> u8 list \<Rightarrow> ngt_decoder \<times> ngt_event list" where
  "push_bytes d [] = (d, [])"
| "push_bytes d (b # bs) =
     (let (d, ev) = push_byte d b; (d, evs) = push_bytes d bs
      in (d, (case ev of None \<Rightarrow> evs | Some e \<Rightarrow> e # evs)))"

subsection \<open>Framing\<close>

definition write_stuffed :: "u8 \<Rightarrow> u8 list" where
  "write_stuffed b = (if b = DLE then [b, DLE] else [b])"

text \<open>The checksum that the loop of the encoder keeps.\<close>

definition ngt_checksum :: "u8 \<Rightarrow> u8 list \<Rightarrow> u8" where
  "ngt_checksum cmd payload =
     (let total = foldl (+) (cmd + word_of_nat (length payload)) payload in 0 - total)"

text \<open>The assertion on the length of the payload makes the encoder panic, here \<open>None\<close>.\<close>

definition encode_ngt_message :: "u8 \<Rightarrow> u8 list \<Rightarrow> u8 list option" where
  "encode_ngt_message cmd payload =
     (if length payload > 255 then None
      else Some ([DLE, STX] @ write_stuffed cmd @ write_stuffed (word_of_nat (length payload)) @
     concat (map write_stuffed payload) @ write_stuffed (ngt_checksum cmd payload) @ [DLE, ETX]))"

definition encode_n2k_send_payload :: "raw_frame \<Rightarrow> u8 list" where
  "encode_n2k_send_payload frame =
     [rf_prio frame, ucast (rf_pgn frame AND 0xff), ucast (drop_bit 8 (rf_pgn frame) AND 0xff),
      ucast (drop_bit 16 (rf_pgn frame) AND 0xff), rf_dst frame, word_of_nat (length (rf_data frame))]
     @ rf_data frame"

definition encode_n2k_send_frame :: "raw_frame \<Rightarrow> u8 list option" where
  "encode_n2k_send_frame frame = encode_ngt_message N2K_MSG_SEND (encode_n2k_send_payload frame)"

definition NGT_STARTUP_SEQ :: "u8 list" where
  "NGT_STARTUP_SEQ = [0x11, 0x02, 0x00]"

definition encode_startup_ping :: "u8 list option" where
  "encode_startup_ping = encode_ngt_message NGT_MSG_SEND NGT_STARTUP_SEQ"

subsection \<open>Messages to frames\<close>

definition to_raw_frame :: "ngt_message \<Rightarrow> raw_frame option" where
  "to_raw_frame m =
     (let p = nm_payload m in
      if nm_command m \<noteq> N2K_MSG_RECEIVED then None
      else if length p < 11 then None
      else let pgn = le24 (p ! 1) (p ! 2) (p ! 3);
               ts_ms = ucast (p ! 6) OR push_bit 8 (ucast (p ! 7)) OR push_bit 16 (ucast (p ! 8))
                 OR push_bit 24 (ucast (p ! 9)) :: u32;
               dlen = unat (p ! 10) in
        if 11 + dlen > length p then None
        else Some \<lparr>rf_timestamp = Some (show_nat (unat ts_ms)), rf_prio = p ! 0, rf_pgn = pgn,
                   rf_src = p ! 5, rf_dst = p ! 4, rf_data = take dlen (drop 11 p)\<rparr>)"

definition to_raw_frame_any_dir :: "ngt_message \<Rightarrow> raw_frame option" where
  "to_raw_frame_any_dir m =
     (let p = nm_payload m in
      if nm_command m = N2K_MSG_RECEIVED then to_raw_frame m
      else if nm_command m = N2K_MSG_SEND then
        (if length p < 6 then None
         else let pgn = le24 (p ! 1) (p ! 2) (p ! 3);
                  dlen = unat (p ! 5) in
           if 6 + dlen > length p then None
           else Some \<lparr>rf_timestamp = None, rf_prio = p ! 0, rf_pgn = pgn, rf_src = 0, rf_dst = p ! 4,
                      rf_data = take dlen (drop 6 p)\<rparr>)
      else if p = [] then None
      else Some \<lparr>rf_timestamp = None, rf_prio = 0, rf_pgn = 0x40000 + ucast (p ! 0), rf_src = 0,
                 rf_dst = 0, rf_data = drop 1 p\<rparr>)"

subsection \<open>The decoder inverts the framing\<close>

lemmas ngt_bytes = DLE_def STX_def ETX_def ESC_def SOH_def LF_def

lemma push_bytes_append:
  "push_bytes d (xs @ ys) =
     (let (d1, e1) = push_bytes d xs; (d2, e2) = push_bytes d1 ys in (d2, e1 @ e2))"
  by (induction xs arbitrary: d) (auto simp: Let_def case_prod_beta split: option.split)

text \<open>Stuffing for a decoder: \<open>DLE\<close> always, \<open>ESC\<close> too in EBL mode.\<close>

definition stuff :: "bool \<Rightarrow> u8 \<Rightarrow> u8 list" where
  "stuff ebl b = (if b = DLE \<or> ebl \<and> b = ESC then [b, b] else [b])"

lemma write_stuffed_eq: "write_stuffed b = stuff False b"
  by (simp add: write_stuffed_def stuff_def)

lemma push_stuffed:
  "nd_state d = InFrame \<Longrightarrow> push_bytes d (stuff (nd_ebl d) b) = (d\<lparr>nd_buf := nd_buf d @ [b]\<rparr>, [])"
  by (cases d) (auto simp: stuff_def push_byte_def is_escape_def ngt_bytes)

lemma push_stuffed_list:
  "nd_state d = InFrame \<Longrightarrow>
   push_bytes d (concat (map (stuff (nd_ebl d)) bs)) = (d\<lparr>nd_buf := nd_buf d @ bs\<rparr>, [])"
proof (induction bs arbitrary: d)
  case (Cons b bs)
  let ?d = "d\<lparr>nd_buf := nd_buf d @ [b]\<rparr>"
  have "push_bytes ?d (concat (map (stuff (nd_ebl ?d)) bs)) = (?d\<lparr>nd_buf := nd_buf ?d @ bs\<rparr>, [])"
    by (rule Cons.IH) (use Cons.prems in simp)
  then show ?case using Cons.prems by (simp add: push_bytes_append push_stuffed)
qed simp

definition framed :: "bool \<Rightarrow> u8 \<Rightarrow> u8 list \<Rightarrow> u8 list" where
  "framed ebl cmd payload =
     [DLE, STX] @ concat (map (stuff ebl)
       ([cmd, word_of_nat (length payload)] @ payload @ [ngt_checksum cmd payload])) @ [DLE, ETX]"

lemma encode_ngt_message_framed:
  "encode_ngt_message cmd payload = (if length payload > 255 then None else Some (framed False cmd payload))"
  by (simp add: encode_ngt_message_def framed_def write_stuffed_eq [abs_def])

lemma foldl_plus_u8: "foldl (+) (a :: u8) xs = a + foldl (+) 0 xs"
  by (induction xs arbitrary: a) (simp, metis (no_types) add.assoc add_0 foldl_Cons)

lemma finish_framed:
  assumes "length payload < 256"
  shows "finish_frame ([cmd, word_of_nat (length payload)] @ payload @ [ngt_checksum cmd payload]) =
    Some (Message \<lparr>nm_command = cmd, nm_payload = payload\<rparr>)"
proof -
  have "foldl (+) 0 ([cmd, word_of_nat (length payload)] @ payload @ [ngt_checksum cmd payload]) = 0"
    by (simp add: ngt_checksum_def)
  then show ?thesis using assms by (simp add: finish_frame_def Let_def)
qed

text \<open>Outside an escape and a header record, a frame decodes to its message and leaves the decoder idle.\<close>

definition in_step :: "ngt_decoder \<Rightarrow> bool" where
  "in_step d \<longleftrightarrow> nd_state d = Idle \<or> nd_state d = InFrame"

lemma push_framed:
  assumes "in_step d" "length payload < 256" "ebl = nd_ebl d"
  shows "push_bytes d (framed ebl cmd payload) =
    (d\<lparr>nd_state := Idle, nd_buf := []\<rparr>, [Message \<lparr>nm_command = cmd, nm_payload = payload\<rparr>])"
proof -
  let ?inner = "[cmd, word_of_nat (length payload)] @ payload @ [ngt_checksum cmd payload]"
  let ?d = "d\<lparr>nd_state := InFrame, nd_buf := []\<rparr>"
  have start: "push_bytes d [DLE, STX] = (?d, [])"
    using assms(1) by (auto simp: in_step_def push_byte_def is_escape_def ngt_bytes)
  have body: "push_bytes ?d (concat (map (stuff (nd_ebl ?d)) ?inner)) = (?d\<lparr>nd_buf := nd_buf ?d @ ?inner\<rparr>, [])"
    by (rule push_stuffed_list) simp
  have stop: "push_bytes (?d\<lparr>nd_buf := ?inner\<rparr>) [DLE, ETX] =
      (d\<lparr>nd_state := Idle, nd_buf := []\<rparr>, [Message \<lparr>nm_command = cmd, nm_payload = payload\<rparr>])"
    using finish_framed [OF assms(2), of cmd]
    by (simp add: push_byte_def is_escape_def ngt_bytes)
  show ?thesis
    using start body stop unfolding framed_def push_bytes_append assms(3) by (simp add: Let_def)
qed

lemma push_framed_list:
  "in_step d \<Longrightarrow> (\<forall>(cmd, payload) \<in> set ms. length payload < 256) \<Longrightarrow>
   snd (push_bytes d (concat (map (\<lambda>(cmd, payload). framed (nd_ebl d) cmd payload) ms))) =
     map (\<lambda>(cmd, payload). Message \<lparr>nm_command = cmd, nm_payload = payload\<rparr>) ms"
proof (induction ms arbitrary: d)
  case (Cons m ms)
  obtain cmd payload where m: "m = (cmd, payload)" by (cases m)
  let ?d = "d\<lparr>nd_state := Idle, nd_buf := []\<rparr>"
  have "snd (push_bytes ?d (concat (map (\<lambda>(cmd, payload). framed (nd_ebl ?d) cmd payload) ms))) =
     map (\<lambda>(cmd, payload). Message \<lparr>nm_command = cmd, nm_payload = payload\<rparr>) ms"
    by (rule Cons.IH) (use Cons.prems(2) in \<open>simp_all add: in_step_def\<close>)
  then show ?case
    using push_framed [OF Cons.prems(1), of payload "nd_ebl d" cmd] Cons.prems(2)
    unfolding m by (simp add: push_bytes_append Let_def) (simp add: case_prod_beta)
qed simp

subsection \<open>Sending a frame\<close>

lemma send_payload_roundtrip:
  assumes "rf_pgn f < 2 ^ 24" "length (rf_data f) < 256"
  shows "to_raw_frame_any_dir \<lparr>nm_command = N2K_MSG_SEND, nm_payload = encode_n2k_send_payload f\<rparr> =
    Some (f\<lparr>rf_timestamp := None, rf_src := 0\<rparr>)"
  using assms
  by (simp add: to_raw_frame_any_dir_def encode_n2k_send_payload_def N2K_MSG_SEND_def N2K_MSG_RECEIVED_def
      Let_def le24_bytes take_bit_24_id)

subsection \<open>Properties\<close>

lemma encoded_framed:
  assumes "map (\<lambda>m. encode_ngt_message (nm_command m) (nm_payload m)) ms = map Some ws"
  shows "concat ws = concat (map (\<lambda>(cmd, payload). framed False cmd payload) (map (\<lambda>m. (nm_command m, nm_payload m)) ms))"
    "\<forall>m \<in> set ms. length (nm_payload m) < 256"
  using assms
proof (induction ms arbitrary: ws)
  case (Cons m ms)
  { case 1 then show ?case using Cons.IH(1) by (auto simp: Cons_eq_map_conv encode_ngt_message_framed split: if_splits) }
  { case 2 then show ?case using Cons.IH(2) by (auto simp: Cons_eq_map_conv encode_ngt_message_framed split: if_splits) }
qed simp_all

text \<open>
  C31: Any sequence of messages that \<open>encode\_ngt\_message\<close> accepts (payloads of at most 255 bytes), written to the wire and fed
  to the decoder, comes out as exactly these messages in order, whatever the decoder had collected before, unless it was in
  the middle of an escape or an EBL record.
\<close>

theorem ngt_stream_roundtrip:
  assumes "nd_ebl d = False" "nd_state d = Idle \<or> nd_state d = InFrame"
    and "map (\<lambda>m. encode_ngt_message (nm_command m) (nm_payload m)) ms = map Some ws"
  shows "snd (push_bytes d (concat ws)) = map Message ms"
proof -
  let ?ps = "map (\<lambda>m. (nm_command m, nm_payload m)) ms"
  note E = encoded_framed [OF assms(3)]
  have "snd (push_bytes d (concat (map (\<lambda>(cmd, payload). framed (nd_ebl d) cmd payload) ?ps))) =
      map (\<lambda>(cmd, payload). Message \<lparr>nm_command = cmd, nm_payload = payload\<rparr>) ?ps"
    by (rule push_framed_list) (use assms(1,2) E(2) in \<open>auto simp: in_step_def\<close>)
  then show ?thesis unfolding E(1) assms(1) by (simp add: comp_def)
qed

lemma ngt_stream_roundtrip_witness:
  "snd (push_bytes (ngt_decoder_new\<lparr>nd_state := InFrame, nd_buf := [7]\<rparr>)
     (concat [[DLE, STX, 0x93, 3, 0x10, 0x10, 0x02, 0x10, 0x10, 0x48, DLE, ETX], [DLE, STX, 0x10, 0x10, 0, 0xF0, DLE, ETX]])) =
   map Message [\<lparr>nm_command = 0x93, nm_payload = [0x10, 0x02, 0x10]\<rparr>, \<lparr>nm_command = 0x10, nm_payload = []\<rparr>]"
  by (rule ngt_stream_roundtrip)
    (simp_all add: ngt_decoder_new_def encode_ngt_message_def write_stuffed_def DLE_def ngt_checksum_def)

text \<open>
  The decoder never reports a message that was not framed: a message event comes only at the
  \<open>ETX\<close> of an escape, when the bytes collected since the last \<open>STX\<close> are a command, the length of the
  payload, the payload and a byte that makes their sum zero modulo 256.
\<close>

theorem ngt_message_checked:
  assumes "push_byte d b = (d', Some (Message m))"
  shows "b = 0x03 \<and> (\<exists>prev. nd_state d = Escape prev) \<and> nd_state d' = Idle \<and> nd_buf d' = [] \<and>
    length (nm_payload m) \<le> 255 \<and>
    (\<exists>c. nd_buf d = [nm_command m, word_of_nat (length (nm_payload m))] @ nm_payload m @ [c]) \<and>
    foldl (+) 0 (nd_buf d) = 0"
proof -
  have hdr: "finish_header raw \<noteq> Some (Message m)" for raw
    by (simp add: finish_header_def Let_def)
  have b: "b = ETX" "\<exists>prev. nd_state d = Escape prev" "d' = d\<lparr>nd_buf := [], nd_state := Idle\<rparr>"
    and fin: "finish_frame (nd_buf d) = Some (Message m)"
    using assms hdr unfolding push_byte_def by (auto split: dec_state.splits if_splits)
  let ?raw = "nd_buf d"
  have raw: "\<not> length ?raw < 3" "foldl (+) 0 ?raw = 0" "unat (?raw ! 1) = length ?raw - 3"
    "nm_command m = ?raw ! 0" "nm_payload m = drop 2 (take (length ?raw - 1) ?raw)"
    using fin unfolding finish_frame_def by (auto simp: Let_def split: if_splits)
  obtain x y zs where xyz: "?raw = x # y # zs" "zs \<noteq> []"
    using raw(1) by (cases ?raw; cases "tl ?raw"; cases "tl (tl ?raw)") auto
  have p: "nm_payload m = butlast zs" using raw(5) xyz by (simp add: butlast_conv_take drop_take)
  have "unat y = length (butlast zs)" using raw(3) xyz by simp
  then have "y = word_of_nat (length (nm_payload m))" using p of_nat_unat [of y, where 'a = "8 word"] by simp
  moreover have "length (nm_payload m) \<le> 255"
    using \<open>unat y = length (butlast zs)\<close> unsigned_less [of y, where 'a = nat] p by simp
  moreover have "?raw = [x, y] @ butlast zs @ [last zs]" using xyz by simp
  ultimately show ?thesis using b raw(2,4) p xyz(1) by (auto simp: ETX_def)
qed

lemma ngt_message_checked_witness:
  "\<exists>d m. push_byte d 3 = (d\<lparr>nd_buf := [], nd_state := Idle\<rparr>, Some (Message m)) \<and> foldl (+) 0 (nd_buf d) = 0"
proof -
  let ?d = "\<lparr>nd_state = Escape PrevInFrame, nd_buf = [0x42, 0, 0xBE], nd_ebl = False\<rparr>"
  have "push_byte ?d 3 = (?d\<lparr>nd_buf := [], nd_state := Idle\<rparr>, Some (Message \<lparr>nm_command = 0x42, nm_payload = []\<rparr>))"
    by (simp add: push_byte_def ngt_bytes finish_frame_def Let_def)
  from ngt_message_checked [OF this] this show ?thesis by blast
qed

text \<open>
  A frame sent through an NGT-1 (PGN of at most 24 bits, at most 249 data bytes) is read back from the
  wire with its priority, PGN, destination and data; the source and the time stamp do not travel.
\<close>

theorem ngt_send_roundtrip:
  assumes "rf_pgn f < 2 ^ 24" "length (rf_data f) \<le> 249"
  shows "\<exists>wire m. encode_n2k_send_frame f = Some wire \<and> snd (push_bytes ngt_decoder_new wire) = [Message m] \<and>
    to_raw_frame_any_dir m = Some (f\<lparr>rf_timestamp := None, rf_src := 0\<rparr>)"
proof -
  let ?p = "encode_n2k_send_payload f"
  have len: "length ?p < 256" using assms(2) by (simp add: encode_n2k_send_payload_def)
  have "in_step ngt_decoder_new" "nd_ebl ngt_decoder_new = False"
    by (simp_all add: ngt_decoder_new_def in_step_def)
  then have "snd (push_bytes ngt_decoder_new (framed False N2K_MSG_SEND ?p)) =
      [Message \<lparr>nm_command = N2K_MSG_SEND, nm_payload = ?p\<rparr>]"
    using push_framed [of ngt_decoder_new ?p False N2K_MSG_SEND] len by simp
  moreover have "encode_n2k_send_frame f = Some (framed False N2K_MSG_SEND ?p)"
    using len by (simp add: encode_n2k_send_frame_def encode_ngt_message_framed)
  ultimately show ?thesis using send_payload_roundtrip [of f] assms by auto
qed

lemma ngt_send_roundtrip_witness:
  "\<exists>wire m. encode_n2k_send_frame
      \<lparr>rf_timestamp = None, rf_prio = 3, rf_pgn = 129025, rf_src = 9, rf_dst = 255, rf_data = [0x10, 0x10, 3]\<rparr> = Some wire \<and>
    snd (push_bytes ngt_decoder_new wire) = [Message m] \<and>
    to_raw_frame_any_dir m = Some
      \<lparr>rf_timestamp = None, rf_prio = 3, rf_pgn = 129025, rf_src = 0, rf_dst = 255, rf_data = [0x10, 0x10, 3]\<rparr>"
  using ngt_send_roundtrip [of
      "\<lparr>rf_timestamp = None, rf_prio = 3, rf_pgn = 129025, rf_src = 9, rf_dst = 255, rf_data = [0x10, 0x10, 3]\<rparr>"]
  by simp

end
