(* ===== verification/Calendar.thy ===== *)
theory Calendar
  imports Ascii
begin

section \<open>Time stamps (canboat-core/src/format/timestamp.rs)\<close>

text \<open>
  The calendar functions, the parser \<open>to\_unix\_ms\<close>, the normaliser and the formatter
  \<open>format\_iso\<close> of the SocketCAN driver.  \<open>i64\<close> values are integers here (dates keep them small); the cast of
  the year to \<open>i32\<close> is written out.
\<close>

subsection \<open>Days and dates\<close>

definition trunc_div :: "int \<Rightarrow> int \<Rightarrow> int" where
  "trunc_div a b = (if a \<ge> 0 then a div b else - ((- a) div b))"

definition as_i32 :: "int \<Rightarrow> int" where
  "as_i32 x = signed_take_bit 31 x"

definition days_since_epoch :: "int \<Rightarrow> int \<Rightarrow> int \<Rightarrow> int option" where
  "days_since_epoch y m d =
     (if \<not> (1 \<le> m \<and> m \<le> 12) \<or> \<not> (1 \<le> d \<and> d \<le> 31) then None
      else let y = (if m \<le> 2 then y - 1 else y);
               era = trunc_div (if y \<ge> 0 then y else y - 399) 400;
               yoe = y - era * 400;
               mp = (if m > 2 then m - 3 else m + 9);
               doy = (153 * mp + 2) div 5 + d - 1;
               doe = yoe * 365 + yoe div 4 - yoe div 100 + doy
           in Some (era * 146097 + doe - 719468))"

definition year_of_era :: "int \<Rightarrow> int" where
  "year_of_era doe = (doe - doe div 1460 + doe div 36524 - doe div 146096) div 365"

definition days_to_ymd :: "int \<Rightarrow> int \<times> int \<times> int" where
  "days_to_ymd days =
     (let z = days + 719468;
          era = z div 146097;
          doe = z - era * 146097;
          yoe = year_of_era doe;
          y = as_i32 (yoe + era * 400);
          doy = doe - (365 * yoe + yoe div 4 - yoe div 100);
          mp = (5 * doy + 2) div 153;
          d = doy - (153 * mp + 2) div 5 + 1;
          m = (if mp < 10 then mp + 3 else mp - 9);
          y = (if m \<le> 2 then y + 1 else y)
      in (y, m, d))"

text \<open>
  A day of the 400-year era, split into centuries, four-year cycles, years and the day of the year
  (which begins in March).  Only the last year of a cycle may have a day 365, and the last
  cycle of a century only in the last century.
\<close>

definition era_day :: "int \<Rightarrow> int \<Rightarrow> int \<Rightarrow> int \<Rightarrow> bool" where
  "era_day c q t u \<longleftrightarrow> 0 \<le> c \<and> c \<le> 3 \<and> 0 \<le> q \<and> q \<le> 24 \<and> 0 \<le> t \<and> t \<le> 3 \<and> 0 \<le> u \<and>
     (u \<le> 364 \<or> u = 365 \<and> t = 3 \<and> (q = 24 \<longrightarrow> c = 3))"

lemma year_of_era_split:
  assumes "era_day c q t u"
  shows "year_of_era (36524 * c + 1461 * q + 365 * t + u) = 100 * c + 4 * q + t"
proof -
  define doe where "doe = 36524 * c + 1461 * q + 365 * t + u"
  define e where "e = 24 * c + q + 365 * t + u"
  have b: "0 \<le> c" "c \<le> 3" "0 \<le> q" "q \<le> 24" "0 \<le> t" "t \<le> 3" "0 \<le> u" "u \<le> 365"
    using assms by (auto simp: era_day_def)
  have e: "0 \<le> e" "e \<le> 1556" using b by (simp_all add: e_def)
  have "doe = e + 1460 * (25 * c + q)" by (simp add: doe_def e_def)
  then have d1460: "doe div 1460 = 25 * c + q + e div 1460" by simp
  have e01: "e div 1460 = (if 1460 \<le> e then 1 else 0)"
  proof (cases "1460 \<le> e")
    case True
    have "(e - 1460 + 1 * 1460) div 1460 = 1 + (e - 1460) div 1460" by (rule div_mult_self1) simp
    moreover have "(e - 1460) div 1460 = 0" using True e by simp
    ultimately show ?thesis using True by simp
  qed (use e in simp)
  define last where "last = (c = 3 \<and> q = 24 \<and> t = 3 \<and> u = 365)"
  have r: "1461 * q + 365 * t + u \<le> 36524" using b by simp
  have d36524: "doe div 36524 = c + (if last then 1 else 0)"
  proof (cases last)
    case True
    then show ?thesis by (simp add: last_def doe_def)
  next
    case False
    have "1461 * q + 365 * t + u < 36524"
      using False assms b unfolding last_def era_day_def by auto
    then have "(1461 * q + 365 * t + u) div 36524 = 0" using b by simp
    moreover have "doe = (1461 * q + 365 * t + u) + 36524 * c" by (simp add: doe_def)
    ultimately show ?thesis using False by simp
  qed
  have d146096: "doe div 146096 = (if last then 1 else 0)"
  proof (cases last)
    case True
    then show ?thesis by (simp add: last_def doe_def)
  next
    case False
    have "doe < 146096"
      using False assms b unfolding last_def era_day_def doe_def by auto
    moreover have "0 \<le> doe" using b by (simp add: doe_def)
    ultimately show ?thesis using False by simp
  qed
  have n: "doe - doe div 1460 + doe div 36524 - doe div 146096 =
      (u - (if 1460 \<le> e then 1 else 0)) + 365 * (100 * c + 4 * q + t)"
    unfolding d1460 d36524 d146096 e01 by (simp add: doe_def)
  have "0 \<le> u - (if 1460 \<le> e then 1 else 0)" "u - (if 1460 \<le> e then 1 else 0) < 365"
    using b assms unfolding e_def era_day_def by auto
  then have "(u - (if 1460 \<le> e then 1 else 0)) div 365 = 0" by simp
  then show ?thesis
    unfolding year_of_era_def doe_def [symmetric] n by simp
qed

lemma era_day_exists:
  assumes "0 \<le> doe" "doe < 146097"
  obtains c q t u where "era_day c q t u" "doe = 36524 * c + 1461 * q + 365 * t + u"
proof -
  define c where "c = min 3 (doe div 36524)"
  define r where "r = doe - 36524 * c"
  define q where "q = r div 1461"
  define s where "s = r mod 1461"
  define t where "t = min 3 (s div 365)"
  define u where "u = s - 365 * t"
  have dm: "doe = 36524 * (doe div 36524) + doe mod 36524" "0 \<le> doe mod 36524" "doe mod 36524 < 36524"
    by simp_all
  have c: "0 \<le> c" "c \<le> 3" using assms by (simp_all add: c_def pos_imp_zdiv_nonneg_iff)
  have r: "0 \<le> r" "r \<le> 36524" "c \<noteq> 3 \<Longrightarrow> r \<le> 36523"
    using dm assms c unfolding r_def c_def by (auto simp: min_def split: if_splits)
  have rq: "r = 1461 * q + s" "0 \<le> s" "s < 1461" by (simp_all add: q_def s_def)
  have q: "0 \<le> q" "q \<le> 24" using rq r by linarith+
  have sm: "s = 365 * (s div 365) + s mod 365" "0 \<le> s mod 365" "s mod 365 < 365" by simp_all
  have t: "0 \<le> t" "t \<le> 3" using rq by (simp_all add: t_def pos_imp_zdiv_nonneg_iff)
  have u: "0 \<le> u" "u \<le> 365" "t \<noteq> 3 \<Longrightarrow> u \<le> 364" "u = 365 \<Longrightarrow> s = 1460"
    using sm rq t unfolding u_def t_def by (auto simp: min_def split: if_splits)
  have "u = 365 \<Longrightarrow> q = 24 \<Longrightarrow> c = 3"
    using u(4) rq r by (cases "c = 3") auto
  then have "era_day c q t u" using c q t u by (auto simp: era_day_def)
  moreover have "doe = 36524 * c + 1461 * q + 365 * t + u"
    using rq(1) by (simp add: u_def r_def)
  ultimately show thesis by (rule that)
qed

subsection \<open>The two calendar functions are inverse\<close>

lemma trunc_div_floor: "trunc_div (if y \<ge> 0 then y else y - 399) 400 = y div (400 :: int)"
proof (cases "y \<ge> 0")
  case False
  have "- ((- (y - 399)) div 400) = y div 400"
  proof -
    have "- (y - 399) = 399 - (400 * (y div 400) + y mod 400)"
      by (simp only: mult_div_mod_eq minus_diff_eq)
    also have "\<dots> = (399 - y mod 400) + 400 * (- (y div 400))" by (simp only: mult_minus_right diff_conv_add_uminus minus_add_distrib add.assoc add.commute)
    finally have "(- (y - 399)) div 400 = ((399 - y mod 400) + 400 * (- (y div 400))) div 400" by simp
    also have "\<dots> = - (y div 400) + (399 - y mod 400) div 400" by (rule div_mult_self2) simp
    also have "(399 - y mod 400) div 400 = 0"
    proof -
      have "0 \<le> y mod 400" "y mod 400 < 400" by simp_all
      then show ?thesis by simp
    qed
    finally show ?thesis by simp
  qed
  then show ?thesis using False by (simp add: trunc_div_def)
qed (simp add: trunc_div_def)

text \<open>A month of the year that begins in March, its first day of the year and its length.\<close>

definition month_start :: "int \<Rightarrow> int" where
  "month_start mp = (153 * mp + 2) div 5"

definition civil_date :: "int \<Rightarrow> int \<Rightarrow> int \<Rightarrow> bool" where
  "civil_date y m d \<longleftrightarrow> 1 \<le> m \<and> m \<le> 12 \<and> 1 \<le> d \<and>
     d \<le> (if m = 2 then (if y mod 4 = 0 \<and> (y mod 100 \<noteq> 0 \<or> y mod 400 = 0) then 29 else 28)
           else if m = 4 \<or> m = 6 \<or> m = 9 \<or> m = 11 then 30 else 31)"

lemma year_digits:
  assumes "0 \<le> c" "c \<le> 3" "0 \<le> q" "q \<le> 24" "0 \<le> t" "t \<le> (3 :: int)"
  shows "(100 * c + 4 * q + t) div 4 = 25 * c + q" "(100 * c + 4 * q + t) div 100 = c"
    "0 \<le> 100 * c + 4 * q + t" "100 * c + 4 * q + t < 400"
proof -
  have "100 * c + 4 * q + t = t + 4 * (25 * c + q)" by simp
  moreover have "(t + 4 * (25 * c + q)) div 4 = 25 * c + q" using assms by simp
  ultimately show "(100 * c + 4 * q + t) div 4 = 25 * c + q" by simp
  have "100 * c + 4 * q + t = (4 * q + t) + 100 * c" by simp
  moreover have "(4 * q + t + 100 * c) div 100 = c" using assms by simp
  ultimately show "(100 * c + 4 * q + t) div 100 = c" by simp
qed (use assms in simp_all)

lemma days_to_ymd_sel:
  assumes "era_day c q t u" "days + 719468 = 146097 * era + (36524 * c + 1461 * q + 365 * t + u)"
  shows "days_to_ymd days =
    (let mp = (5 * u + 2) div 153; m = (if mp < 10 then mp + 3 else mp - 9);
         y = as_i32 (100 * c + 4 * q + t + era * 400)
     in (if m \<le> 2 then y + 1 else y, m, u - month_start mp + 1))"
proof -
  let ?doe = "36524 * c + 1461 * q + 365 * t + u"
  have b: "0 \<le> c" "c \<le> 3" "0 \<le> q" "q \<le> 24" "0 \<le> t" "t \<le> 3" "0 \<le> u" "u \<le> 365"
    "u = 365 \<Longrightarrow> t = 3 \<and> (q = 24 \<longrightarrow> c = 3)"
    using assms(1) by (auto simp: era_day_def)
  have lt: "0 \<le> ?doe" "?doe < 146097"
  proof -
    show "0 \<le> ?doe" using b by simp
    show "?doe < 146097" using b by linarith
  qed
  have "(days + 719468) div 146097 = era"
    unfolding assms(2) using lt by simp
  moreover have "days + 719468 - era * 146097 = ?doe" using assms(2) by simp
  moreover have "?doe - (365 * (100 * c + 4 * q + t) + (25 * c + q) - c) = u" by simp
  ultimately show ?thesis
    unfolding days_to_ymd_def Let_def year_of_era_split [OF assms(1)] month_start_def
    by (simp only: year_of_era_split [OF assms(1)] year_digits [OF b(1-6)])
qed

lemma as_i32_id: "- 2147483648 \<le> x \<Longrightarrow> x < 2147483648 \<Longrightarrow> as_i32 x = x"
  unfolding as_i32_def by (rule signed_take_bit_int_eq_self) simp_all

lemma month_start_values:
  "month_start 0 = 0" "month_start 1 = 31" "month_start 2 = 61" "month_start 3 = 92" "month_start 4 = 122"
  "month_start 5 = 153" "month_start 6 = 184" "month_start 7 = 214" "month_start 8 = 245"
  "month_start 9 = 275" "month_start 10 = 306" "month_start 11 = 337"
  by (simp_all add: month_start_def)

lemma month_of_day:
  assumes "0 \<le> u" "u \<le> (365 :: int)"
  shows "month_start ((5 * u + 2) div 153) \<le> u" "u - month_start ((5 * u + 2) div 153) \<le> 30"
proof -
  define mp where "mp = (5 * u + 2) div 153"
  have w: "153 * mp \<le> 5 * u + 2" "5 * u + 2 < 153 * mp + 153" unfolding mp_def by linarith+
  define s where "s = month_start mp"
  have s: "5 * s \<le> 153 * mp + 2" "153 * mp + 2 < 5 * s + 5" unfolding s_def month_start_def by linarith+
  have "5 * s \<le> 5 * u + 4" using w s by linarith
  then have "s \<le> u" by linarith
  moreover have "5 * u < 5 * s + 155" using w s by linarith
  then have "u - s \<le> 30" by linarith
  ultimately show "month_start ((5 * u + 2) div 153) \<le> u" "u - month_start ((5 * u + 2) div 153) \<le> 30"
    by (simp_all add: s_def mp_def)
qed

lemma ymd_roundtrip:
  assumes "- 700000000000 \<le> days" "days \<le> 700000000000"
  shows "case days_to_ymd days of (y, m, d) \<Rightarrow> days_since_epoch y m d = Some days"
proof -
  define era where "era = (days + 719468) div 146097"
  define doe where "doe = (days + 719468) mod 146097"
  have "0 \<le> doe" "doe < 146097" by (simp_all add: doe_def)
  then obtain c q t u where d: "era_day c q t u" "doe = 36524 * c + 1461 * q + 365 * t + u"
    by (rule era_day_exists)
  have days: "days + 719468 = 146097 * era + (36524 * c + 1461 * q + 365 * t + u)"
    unfolding d(2) [symmetric] by (simp add: era_def doe_def)
  have b: "0 \<le> c" "c \<le> 3" "0 \<le> q" "q \<le> 24" "0 \<le> t" "t \<le> 3" "0 \<le> u" "u \<le> 365"
    using d(1) by (auto simp: era_day_def)
  note yd = year_digits [OF b(1-6)]
  define Y where "Y = 100 * c + 4 * q + t + era * 400"
  have era: "- 5000000 \<le> era" "era \<le> 5000000" unfolding era_def using assms by linarith+
  have Y: "as_i32 Y = Y" by (rule as_i32_id) (use era yd in \<open>simp_all add: Y_def\<close>)
  define mp where "mp = (5 * u + 2) div 153"
  have mp: "0 \<le> mp" "mp \<le> 11" using b(7,8) unfolding mp_def by linarith+
  have day: "1 \<le> u - month_start mp + 1" "u - month_start mp + 1 \<le> 31"
    using month_of_day [OF b(7,8)] by (simp_all add: mp_def)
  define m where "m = (if mp < 10 then mp + 3 else mp - 9)"
  have m: "1 \<le> m" "m \<le> 12" "(if m > 2 then m - 3 else m + 9) = mp"
    "(if m \<le> 2 then (if m \<le> 2 then Y + 1 else Y) - 1 else (if m \<le> 2 then Y + 1 else Y)) = Y"
    using mp by (auto simp: m_def)
  have ed: "Y div 400 = era" "Y - era * 400 = 100 * c + 4 * q + t"
    using yd by (simp_all add: Y_def)
  have "days_since_epoch (if m \<le> 2 then Y + 1 else Y) m (u - month_start mp + 1) =
      Some (era * 146097 + ((100 * c + 4 * q + t) * 365 + (25 * c + q) - c + (month_start mp + (u - month_start mp + 1) - 1)) - 719468)"
    unfolding days_since_epoch_def trunc_div_floor Let_def m(3,4) ed yd(1,2)
    using m(1,2) day by (simp add: month_start_def)
  also have "\<dots> = Some days" using days by simp
  finally show ?thesis
    unfolding days_to_ymd_sel [OF d(1) days] Let_def mp_def [symmetric] m_def [symmetric] Y_def [symmetric] Y
    by simp
qed

text \<open>The years a four-digit time stamp can show.\<close>

lemma ymd_four_digits:
  assumes "0 \<le> days" "days \<le> 2932896" "days_to_ymd days = (y, m, d)"
  shows "0 \<le> y" "y \<le> 9999"
proof -
  define era where "era = (days + 719468) div 146097"
  define doe where "doe = (days + 719468) mod 146097"
  have doe: "0 \<le> doe" "doe < 146097" "days + 719468 = 146097 * era + doe"
    by (simp_all add: doe_def era_def)
  obtain c q t u where e: "era_day c q t u" "doe = 36524 * c + 1461 * q + 365 * t + u"
    using doe(1,2) by (rule era_day_exists)
  have days: "days + 719468 = 146097 * era + (36524 * c + 1461 * q + 365 * t + u)"
    using doe(3) e(2) by simp
  have b: "0 \<le> c" "c \<le> 3" "0 \<le> q" "q \<le> 24" "0 \<le> t" "t \<le> 3" "0 \<le> u" "u \<le> 365"
    using e(1) by (auto simp: era_day_def)
  have era: "4 \<le> era" "era \<le> 24" using doe assms(1,2) by linarith+
  define Y where "Y = 100 * c + 4 * q + t + era * 400"
  have Yb: "1600 \<le> Y" "Y \<le> 9999" using b era by (simp_all add: Y_def)
  then have Y: "as_i32 Y = Y" by (intro as_i32_id) simp_all
  define mp where "mp = (5 * u + 2) div 153"
  have "Y = 9999 \<longrightarrow> mp \<le> 9"
  proof
    assume "Y = 9999"
    then have "era = 24" "c = 3" "q = 24" "t = 3" using b era unfolding Y_def by linarith+
    then have "u \<le> 305" using days assms(2) by simp
    then show "mp \<le> 9" unfolding mp_def by linarith
  qed
  moreover have "y = (if (if mp < 10 then mp + 3 else mp - 9) \<le> 2 then Y + 1 else Y)"
    using assms(3) unfolding days_to_ymd_sel [OF e(1) days] Let_def mp_def [symmetric] Y_def [symmetric] Y
    by (simp only: prod.inject) metis
  moreover have "0 \<le> mp" using b(7) by (simp add: mp_def pos_imp_zdiv_nonneg_iff)
  ultimately show "0 \<le> y" "y \<le> 9999" using Yb by (auto split: if_splits)
qed

lemma month_of_date:
  assumes "civil_date y m d" "mp = (if m > 2 then m - 3 else m + 9)"
  shows "(5 * (month_start mp + d - 1) + 2) div 153 = mp" "0 \<le> mp" "mp \<le> 11"
    "0 \<le> month_start mp + d - 1"
    "month_start mp + d - 1 \<le> 364 \<or> month_start mp + d - 1 = 365 \<and> m = 2 \<and> d = 29"
proof -
  have b: "1 \<le> m" "m \<le> 12" "1 \<le> d" using assms(1) by (simp_all add: civil_date_def)
  then have "m = 1 \<or> m = 2 \<or> m = 3 \<or> m = 4 \<or> m = 5 \<or> m = 6 \<or> m = 7 \<or> m = 8 \<or> m = 9 \<or> m = 10 \<or> m = 11 \<or> m = 12"
    by presburger
  moreover have D: "d \<le> (if m = 2 then 29 else if m = 4 \<or> m = 6 \<or> m = 9 \<or> m = 11 then 30 else 31)"
    using assms(1) by (auto simp: civil_date_def split: if_splits)
  ultimately have "153 * mp \<le> 5 * (month_start mp + d - 1) + 2 \<and> 5 * (month_start mp + d - 1) + 2 < 153 * mp + 153"
    using b(3) unfolding assms(2) by (elim disjE) (simp_all add: month_start_values)
  then show "(5 * (month_start mp + d - 1) + 2) div 153 = mp" by linarith
  show "0 \<le> mp" "mp \<le> 11" using b assms(2) by (simp_all split: if_splits)
  have "0 \<le> month_start mp" using \<open>0 \<le> mp\<close> by (simp add: month_start_def pos_imp_zdiv_nonneg_iff)
  then show "0 \<le> month_start mp + d - 1" using b by simp
  have "month_start mp \<le> 306 \<or> mp = 11"
    using \<open>0 \<le> mp\<close> \<open>mp \<le> 11\<close> unfolding month_start_def by linarith
  then show "month_start mp + d - 1 \<le> 364 \<or> month_start mp + d - 1 = 365 \<and> m = 2 \<and> d = 29"
  proof
    assume "month_start mp \<le> 306"
    then show ?thesis using D by (simp split: if_splits)
  next
    assume "mp = 11"
    then have "m = 2" using b assms(2) by (simp split: if_splits)
    then show ?thesis using D \<open>mp = 11\<close> by (simp add: month_start_values) linarith
  qed
qed

lemma date_roundtrip:
  assumes "civil_date y m d" "- 1000000 \<le> y" "y \<le> 1000000"
  shows "\<exists>days. days_since_epoch y m d = Some days \<and> days_to_ymd days = (y, m, d)"
proof -
  define mp where "mp = (if m > 2 then m - 3 else m + 9)"
  note M = month_of_date [OF assms(1) mp_def]
  define u where "u = month_start mp + d - 1"
  define Y where "Y = (if m \<le> 2 then y - 1 else y)"
  define era where "era = Y div 400"
  define r where "r = Y mod 400"
  have r: "0 \<le> r" "r < 400" "Y = 400 * era + r" by (simp_all add: r_def era_def)
  define c q t where "c = r div 100" and "q = r mod 100 div 4" and "t = r mod 4"
  have r4: "r mod 100 mod 4 = r mod 4" by (rule mod_mod_cancel) simp
  have rs: "r = 100 * c + 4 * q + t"
    using mult_div_mod_eq [of 100 r] mult_div_mod_eq [of 4 "r mod 100"] unfolding c_def q_def t_def r4
    by linarith
  have cq: "0 \<le> c" "c \<le> 3" "0 \<le> q" "q \<le> 24" "0 \<le> t" "t \<le> 3"
    using r(1,2) pos_mod_bound [of 100 r] pos_mod_sign [of 100 r]
    unfolding c_def q_def t_def by simp_all
  have leap: "m = 2 \<Longrightarrow> d = 29 \<Longrightarrow> t = 3 \<and> (q = 24 \<longrightarrow> c = 3)"
  proof -
    assume md: "m = 2" "d = 29"
    then have l: "y mod 4 = 0" "y mod 100 \<noteq> 0 \<or> y mod 400 = 0"
      using assms(1) by (auto simp: civil_date_def split: if_splits)
    have y: "y = 4 * (100 * era + 25 * c + q) + (t + 1)" using md r(3) rs by (simp add: Y_def)
    have "(4 * (100 * era + 25 * c + q) + (t + 1)) mod 4 = (t + 1) mod 4" by (rule mod_mult_self4)
    then have "(t + 1) mod 4 = 0" using l(1) y by simp
    then have t: "t = 3" using cq(5,6) by presburger
    have "q = 24 \<longrightarrow> c = 3"
    proof
      assume q: "q = 24"
      have y2: "y = (4 * era + c + 1) * 100" using y t q by simp
      then have "y mod 100 = 0" by simp
      then have "y mod 400 = 0" using l by simp
      then have "4 * 100 dvd (4 * era + c + 1) * 100" unfolding y2 by (simp add: dvd_eq_mod_eq_0)
      then have "4 dvd (4 * era + c + 1)" by (rule dvd_times_right_cancel_iff [THEN iffD1, rotated]) simp
      then have "4 dvd 4 * era + (c + 1)" by (simp only: add.assoc)
      then have "4 dvd c + 1" by (simp only: dvd_add_right_iff dvd_triv_left)
      moreover have "c + 1 \<noteq> 1 \<and> c + 1 \<noteq> 2 \<and> c + 1 \<noteq> 3 \<or> c = 0 \<or> c = 1 \<or> c = 2" by linarith
      ultimately show "c = 3" using cq(1,2) by (elim disjE) auto
    qed
    then show ?thesis using t by simp
  qed
  have ed: "era_day c q t u"
    using cq M(4,5) leap by (auto simp: era_day_def u_def)
  have yd: "(100 * c + 4 * q + t) div 4 = 25 * c + q" "(100 * c + 4 * q + t) div 100 = c"
    using cq by (rule year_digits(1), rule year_digits(2))
  define days where "days = era * 146097 + (r * 365 + r div 4 - r div 100 + u) - 719468"
  have dm: "1 \<le> m" "m \<le> 12" "1 \<le> d" "d \<le> 31"
    using assms(1) by (auto simp: civil_date_def split: if_splits)
  have Yr: "Y - era * 400 = r" using r(3) by simp
  have "days_since_epoch y m d = Some days"
    unfolding days_since_epoch_def Let_def Y_def [symmetric] trunc_div_floor era_def [symmetric] Yr
      mp_def [symmetric]
    using dm by (simp add: month_start_def [symmetric] days_def u_def)
  moreover have "days_to_ymd days = (y, m, d)"
  proof -
    have "days + 719468 = 146097 * era + (36524 * c + 1461 * q + 365 * t + u)"
      unfolding days_def rs yd by simp
    note S = days_to_ymd_sel [OF ed this]
    have "- 10000000 \<le> Y" "Y \<le> 10000000" using assms(2,3) by (simp_all add: Y_def)
    then have i: "as_i32 (100 * c + 4 * q + t + era * 400) = Y"
      using r(3) rs by (subst as_i32_id) simp_all
    have mu: "(5 * u + 2) div 153 = mp" using M(1) by (simp add: u_def)
    have mm: "(if mp < 10 then mp + 3 else mp - 9) = m" using dm by (simp add: mp_def)
    show ?thesis unfolding S Let_def mu i mm by (simp add: Y_def u_def)
  qed
  ultimately show ?thesis by blast
qed

lemma days_since_epoch_SomeD:
  assumes "days_since_epoch y m d = Some n"
  shows "1 \<le> m" "m \<le> 12" "1 \<le> d" "d \<le> 31"
proof -
  have "(1 \<le> m \<and> m \<le> 12) \<and> (1 \<le> d \<and> d \<le> 31)"
  proof (rule ccontr)
    assume "\<not> ?thesis"
    then have "\<not> (1 \<le> m \<and> m \<le> 12) \<or> \<not> (1 \<le> d \<and> d \<le> 31)" by blast
    then have "days_since_epoch y m d = None" unfolding days_since_epoch_def by (simp only: if_True)
    then show False using assms by simp
  qed
  then show "1 \<le> m" "m \<le> 12" "1 \<le> d" "d \<le> 31" by simp_all
qed

end
