(* ===== verification/Timestamp.thy ===== *)
theory Timestamp
  imports Calendar
begin

section \<open>Time stamps as text (canboat-core/src/format/timestamp.rs)\<close>

text \<open>
  The parser \<open>to\_unix\_ms\<close>, the normaliser, the time of day and the ISO formatter the drivers
  share.  A slice \<open>s[a..b]\<close> of a text is \<open>slice a b s\<close>; texts are ASCII.
\<close>

definition slice :: "nat \<Rightarrow> nat \<Rightarrow> 'a list \<Rightarrow> 'a list" where
  "slice a b s = take (b - a) (drop a s)"

lemma length_slice [simp]: "b \<le> length s \<Longrightarrow> length (slice a b s) = b - a"
  by (simp add: slice_def)

lemma slice_append1: "b \<le> length s \<Longrightarrow> slice a b (s @ t) = slice a b s"
  by (simp add: slice_def)

lemma slice_append2: "length s \<le> a \<Longrightarrow> slice a b (s @ t) = slice (a - length s) (b - length s) t"
  by (simp add: slice_def)

lemma slice_all: "length s = b \<Longrightarrow> slice 0 b s = s"
  by (simp add: slice_def)

subsection \<open>Parsing\<close>

text \<open>\<open>parse::<i64>\<close>: an optional sign, then digits.\<close>

definition parse_i64 :: "string \<Rightarrow> int option" where
  "parse_i64 s =
     (case s of
        [] \<Rightarrow> None
      | c # r \<Rightarrow>
          if c = CHR ''-'' then
            (if r = [] \<or> \<not> list_all is_digit r \<or> digits_value r > 2 ^ 63 then None
             else Some (- int (digits_value r)))
          else map_option int (parse_unsigned (2 ^ 63 - 1) s))"

definition to_unix_ms :: "string \<Rightarrow> int option" where
  "to_unix_ms b =
     (if length b < 19 then None
      else Option.bind (parse_i64 (slice 0 4 b)) (\<lambda>y.
           Option.bind (parse_i64 (slice 5 7 b)) (\<lambda>mo.
           Option.bind (parse_i64 (slice 8 10 b)) (\<lambda>d.
           Option.bind (parse_i64 (slice 11 13 b)) (\<lambda>h.
           Option.bind (parse_i64 (slice 14 16 b)) (\<lambda>mi.
           Option.bind (parse_i64 (slice 17 19 b)) (\<lambda>s.
             if b ! 4 \<noteq> CHR ''-'' \<or> b ! 7 \<noteq> CHR ''-'' \<or> b ! 10 \<notin> {CHR ''T'', CHR ''-'', CHR '' ''}
               \<or> b ! 13 \<noteq> CHR '':'' \<or> b ! 16 \<noteq> CHR '':'' then None
             else let ms = (if length b \<ge> 23 \<and> (b ! 19 = CHR ''.'' \<or> b ! 19 = CHR '','')
                            then case parse_i64 (slice 20 23 b) of Some v \<Rightarrow> v | None \<Rightarrow> 0 else 0) in
               Option.bind (days_since_epoch y mo d) (\<lambda>days.
                 Some ((days * 86400 + h * 3600 + mi * 60 + s) * 1000 + ms)))))))))"

subsection \<open>The formatter\<close>

text \<open>\<open>\{:0w\}\<close> of a signed integer; the width counts the sign.\<close>

definition show_int_padded :: "nat \<Rightarrow> int \<Rightarrow> string" where
  "show_int_padded w x =
     (if x < 0 then CHR ''-'' # show_padded (w - 1) (nat (- x)) else show_padded w (nat x))"

definition format_iso :: "nat \<Rightarrow> string" where
  "format_iso ms =
     (let secs = ms div 1000; millis = ms mod 1000; days = secs div 86400; tod = secs mod 86400;
          (y, mo, d) = days_to_ymd (int days);
          h = tod div 3600; mi = (tod mod 3600) div 60; s = tod mod 60
      in show_int_padded 4 y @ ''-'' @ show_padded 2 (nat mo) @ ''-'' @ show_padded 2 (nat d) @ ''T'' @
         show_padded 2 h @ '':'' @ show_padded 2 mi @ '':'' @ show_padded 2 s @ ''.'' @
         show_padded 3 millis @ ''Z'')"

subsection \<open>Canonical time stamps\<close>

definition is_canonical :: "string \<Rightarrow> bool" where
  "is_canonical b \<longleftrightarrow>
     length b = 24 \<and> b ! 4 = CHR ''-'' \<and> b ! 7 = CHR ''-'' \<and> b ! 10 = CHR ''T'' \<and> b ! 13 = CHR '':''
     \<and> b ! 16 = CHR '':'' \<and> b ! 19 = CHR ''.'' \<and> b ! 23 = CHR ''Z''
     \<and> list_all is_digit (slice 0 4 b) \<and> list_all is_digit (slice 5 7 b) \<and> list_all is_digit (slice 8 10 b)
     \<and> list_all is_digit (slice 11 13 b) \<and> list_all is_digit (slice 14 16 b)
     \<and> list_all is_digit (slice 17 19 b) \<and> list_all is_digit (slice 20 23 b)"

text \<open>The fraction: the run of digits after index 8, padded and cut to three.\<close>

definition normalize_time :: "string \<Rightarrow> string option" where
  "normalize_time s =
     (if length s < 8 \<or> s ! 2 \<noteq> CHR '':'' \<or> s ! 5 \<noteq> CHR '':'' then None
      else if \<not> list_all is_digit (slice 0 2 s) \<or> \<not> list_all is_digit (slice 3 5 s)
        \<or> \<not> list_all is_digit (slice 6 8 s) then None
      else let h = digits_value (slice 0 2 s); m = digits_value (slice 3 5 s); sec = digits_value (slice 6 8 s) in
        if h \<ge> 24 \<or> m \<ge> 60 \<or> sec \<ge> 60 then None
        else if length s > 8 \<and> s ! 8 \<noteq> CHR ''.'' \<and> s ! 8 \<noteq> CHR '','' then None
        else let ms = (if length s > 8 then takeWhile is_digit (drop 9 s) else []);
                 ms = ms @ replicate (3 - length ms) CHR ''0''
             in Some (slice 0 2 s @ '':'' @ slice 3 5 s @ '':'' @ slice 6 8 s @ ''.'' @ take 3 ms))"

definition normalize_timestamp :: "string \<Rightarrow> string" where
  "normalize_timestamp ts =
     (if is_canonical ts then ts
      else let t = trim ts;
               dated = (if length t \<ge> 19 \<and> t ! 4 = CHR ''-'' \<and> t ! 7 = CHR ''-''
                           \<and> t ! 10 \<in> {CHR ''T'', CHR ''-'', CHR '' ''}
                           \<and> list_all is_digit (slice 0 4 t) \<and> list_all is_digit (slice 5 7 t)
                           \<and> list_all is_digit (slice 8 10 t)
                        then normalize_time (drop 11 t) else None) in
        case dated of
          Some time \<Rightarrow> take 10 t @ ''T'' @ time @ ''Z''
        | None \<Rightarrow> (case normalize_time t of Some time \<Rightarrow> time | None \<Rightarrow> ts))"

definition time_of_day :: "string option \<Rightarrow> string" where
  "time_of_day ts =
     (case ts of
        None \<Rightarrow> ''00:00:00.000''
      | Some raw \<Rightarrow>
          let s = normalize_timestamp raw in
          if length s = 24 \<and> s ! 10 = CHR ''T'' then slice 11 23 s
          else if length s = 12 \<and> s ! 2 = CHR '':'' then s
          else ''00:00:00.000'')"

subsection \<open>Canonical stamps\<close>

definition stamp :: "string \<Rightarrow> string \<Rightarrow> string \<Rightarrow> string \<Rightarrow> string \<Rightarrow> string \<Rightarrow> string \<Rightarrow> string" where
  "stamp Y M D h m s f =
     Y @ ''-'' @ M @ ''-'' @ D @ ''T'' @ h @ '':'' @ m @ '':'' @ s @ ''.'' @ f @ ''Z''"

lemma length_two: "length s = 2 \<longleftrightarrow> (\<exists>a b. s = [a, b])"
  by (auto simp: numeral_2_eq_2 length_Suc_conv)

lemma length_three: "length s = 3 \<longleftrightarrow> (\<exists>a b c. s = [a, b, c])"
  by (auto simp: numeral_3_eq_3 length_Suc_conv)

lemma length_four: "length s = 4 \<longleftrightarrow> (\<exists>a b c d. s = [a, b, c, d])"
  by (auto simp: numeral_eq_Suc length_Suc_conv)

lemma stamp_parts:
  assumes "length Y = 4" "length M = 2" "length D = 2" "length h = 2" "length m = 2" "length s = 2" "length f = 3"
  shows "length (stamp Y M D h m s f) = 24"
    "slice 0 4 (stamp Y M D h m s f) = Y" "slice 5 7 (stamp Y M D h m s f) = M"
    "slice 8 10 (stamp Y M D h m s f) = D" "slice 11 13 (stamp Y M D h m s f) = h"
    "slice 14 16 (stamp Y M D h m s f) = m" "slice 17 19 (stamp Y M D h m s f) = s"
    "slice 20 23 (stamp Y M D h m s f) = f"
    "stamp Y M D h m s f ! 4 = CHR ''-''" "stamp Y M D h m s f ! 7 = CHR ''-''"
    "stamp Y M D h m s f ! 10 = CHR ''T''" "stamp Y M D h m s f ! 13 = CHR '':''"
    "stamp Y M D h m s f ! 16 = CHR '':''" "stamp Y M D h m s f ! 19 = CHR ''.''"
    "stamp Y M D h m s f ! 23 = CHR ''Z''"
  using assms unfolding length_two length_three length_four stamp_def slice_def by auto

lemma parse_i64_digits:
  assumes "list_all is_digit s" "s \<noteq> []" "length s \<le> 18"
  shows "parse_i64 s = Some (int (digits_value s))"
proof -
  have "digits_value s < 10 ^ 18"
    using digits_value_bound [OF assms(1)] power_increasing [OF assms(3), of "10 :: nat"] by simp
  then have "digits_value s \<le> 2 ^ 63 - 1" by simp
  then have "parse_unsigned (2 ^ 63 - 1) s = Some (digits_value s)"
    by (rule parse_unsigned_digits [OF assms(2,1)])
  moreover have "hd s \<noteq> CHR ''-''" using assms(1,2) by (cases s) (auto simp: is_digit_def)
  ultimately show ?thesis using assms(2) by (cases s) (simp_all add: parse_i64_def)
qed

definition digit_parts :: "string \<Rightarrow> string \<Rightarrow> string \<Rightarrow> string \<Rightarrow> string \<Rightarrow> string \<Rightarrow> string \<Rightarrow> bool" where
  "digit_parts Y M D h m s f \<longleftrightarrow>
     length Y = 4 \<and> length M = 2 \<and> length D = 2 \<and> length h = 2 \<and> length m = 2 \<and> length s = 2 \<and> length f = 3
     \<and> list_all is_digit Y \<and> list_all is_digit M \<and> list_all is_digit D \<and> list_all is_digit h
     \<and> list_all is_digit m \<and> list_all is_digit s \<and> list_all is_digit f"

lemma stamp_canonical: "digit_parts Y M D h m s f \<Longrightarrow> is_canonical (stamp Y M D h m s f)"
  by (simp add: digit_parts_def is_canonical_def stamp_parts)

lemma to_unix_ms_stamp:
  assumes "digit_parts Y M D h m s f"
    "days_since_epoch (int (digits_value Y)) (int (digits_value M)) (int (digits_value D)) = Some days"
  shows "to_unix_ms (stamp Y M D h m s f) =
    Some ((days * 86400 + int (digits_value h) * 3600 + int (digits_value m) * 60 + int (digits_value s)) * 1000
      + int (digits_value f))"
proof -
  have L: "length Y = 4" "length M = 2" "length D = 2" "length h = 2" "length m = 2" "length s = 2" "length f = 3"
    and A: "list_all is_digit Y" "list_all is_digit M" "list_all is_digit D" "list_all is_digit h"
      "list_all is_digit m" "list_all is_digit s" "list_all is_digit f"
    using assms(1) by (simp_all add: digit_parts_def)
  have p: "parse_i64 x = Some (int (digits_value x))" if "list_all is_digit x" "length x = n" "n \<le> 4" "0 < n" for x n
    by (rule parse_i64_digits) (use that in auto)
  note P = p [OF A(1) L(1)] p [OF A(2) L(2)] p [OF A(3) L(3)] p [OF A(4) L(4)] p [OF A(5) L(5)]
    p [OF A(6) L(6)] p [OF A(7) L(7)]
  show ?thesis
    unfolding to_unix_ms_def stamp_parts [OF L] by (simp add: P assms(2) Let_def)
qed

lemma format_iso_stamp:
  assumes "ms < 253402300800000" "days_to_ymd (int (ms div 1000 div 86400)) = (y, mo, d)"
  defines "tod \<equiv> ms div 1000 mod 86400"
  defines "Y \<equiv> show_padded 4 (nat y)" and "M \<equiv> show_padded 2 (nat mo)" and "D \<equiv> show_padded 2 (nat d)"
    and "H \<equiv> show_padded 2 (tod div 3600)" and "Mi \<equiv> show_padded 2 (tod mod 3600 div 60)"
    and "S \<equiv> show_padded 2 (tod mod 60)" and "F \<equiv> show_padded 3 (ms mod 1000)"
  shows "format_iso ms = stamp Y M D H Mi S F" "digit_parts Y M D H Mi S F" "0 \<le> y" "0 \<le> mo" "0 \<le> d"
    "days_since_epoch y mo d = Some (int (ms div 1000 div 86400))"
proof -
  have days: "int (ms div 1000 div 86400) \<le> 2932896"
    using assms(1) by (simp add: div_mult2_eq [symmetric])
  note y = ymd_four_digits [OF _ days assms(2)]
  show y0: "0 \<le> y" using y by simp
  have dse: "days_since_epoch y mo d = Some (int (ms div 1000 div 86400))"
    using ymd_roundtrip [of "int (ms div 1000 div 86400)"] days assms(2) by simp
  then have md: "1 \<le> mo" "mo \<le> 12" "1 \<le> d" "d \<le> 31"
    by (rule days_since_epoch_SomeD)+
  then show "0 \<le> mo" "0 \<le> d" by simp_all
  have tod: "tod < 86400" by (simp add: tod_def)
  have b: "tod div 3600 < 100" "tod mod 3600 div 60 < 100" "tod mod 60 < 100" "ms mod 1000 < 1000"
    using tod by (simp_all add: less_mult_imp_div_less)
  show "format_iso ms = stamp Y M D H Mi S F"
    using assms(2) y0 by (simp add: format_iso_def Let_def show_int_padded_def stamp_def assms(3-))
  have len: "length (show_padded 2 n) = 2" if "n < 100" for n
    using length_show_padded [of n 2] that by simp
  have "length Y = 4" using length_show_padded [of "nat y" 4] y by (simp add: Y_def)
  moreover have "length F = 3" using length_show_padded [of "ms mod 1000" 3] by (simp add: F_def)
  moreover have "length M = 2" "length D = 2" "length H = 2" "length Mi = 2" "length S = 2"
    unfolding M_def D_def H_def Mi_def S_def using md by (intro len b; linarith)+
  ultimately show "digit_parts Y M D H Mi S F"
    unfolding digit_parts_def by (simp add: show_padded_digits Y_def M_def D_def H_def Mi_def S_def F_def)
  show "days_since_epoch y mo d = Some (int (ms div 1000 div 86400))" by (rule dse)
qed

lemma sum_parts:
  "ms = s * 1000 + f \<Longrightarrow> s = a * 86400 + t \<Longrightarrow> t = h * 3600 + m * 60 + x \<Longrightarrow>
   (int a * 86400 + int h * 3600 + int m * 60 + int x) * 1000 + int f = int ms"
  by simp

text \<open>
  The ISO time stamp a driver writes for a clock of \<open>ms\<close> milliseconds since 1970 is in canonical form, passes
  \<open>normalize\_timestamp\<close> unchanged and \<open>to\_unix\_ms\<close> reads \<open>ms\<close> back from it, up to
  the end of the year 9999.
\<close>

theorem iso_roundtrip:
  assumes "ms < 253402300800000"
  shows "to_unix_ms (format_iso ms) = Some (int ms) \<and> is_canonical (format_iso ms) \<and>
    normalize_timestamp (format_iso ms) = format_iso ms"
proof -
  obtain y mo d where ymd: "days_to_ymd (int (ms div 1000 div 86400)) = (y, mo, d)" by (metis prod_cases3)
  note F = format_iso_stamp [OF assms ymd]
  define secs where "secs = ms div 1000"
  define tod where "tod = secs mod 86400"
  have "tod = tod div 3600 * 3600 + tod mod 3600" "tod mod 3600 = tod mod 3600 div 60 * 60 + tod mod 3600 mod 60"
    by simp_all
  moreover have "tod mod 3600 mod 60 = tod mod 60" by (rule mod_mod_cancel) simp
  ultimately have t: "tod = tod div 3600 * 3600 + tod mod 3600 div 60 * 60 + tod mod 60" by linarith
  have "secs = secs div 86400 * 86400 + tod" "ms = secs * 1000 + ms mod 1000" by (simp_all add: tod_def secs_def)
  note sum_parts [OF this(2,1) t]
  then have "to_unix_ms (format_iso ms) = Some (int ms)"
    unfolding F(1) using to_unix_ms_stamp [OF F(2)] F(3-6)
    by (simp add: tod_def secs_def)
  moreover have c: "is_canonical (format_iso ms)" unfolding F(1) by (rule stamp_canonical [OF F(2)])
  moreover have "normalize_timestamp (format_iso ms) = format_iso ms" using c by (simp add: normalize_timestamp_def)
  ultimately show ?thesis by blast
qed

theorem iso_roundtrip_witness: "to_unix_ms (format_iso 1745600721993) = Some 1745600721993"
  using iso_roundtrip [of 1745600721993] by simp

subsection \<open>Normal forms\<close>

lemma slice_digits: "list_all is_digit s \<Longrightarrow> list_all is_digit (slice a b s)"
  by (auto simp: slice_def list_all_iff dest: in_set_takeD in_set_dropD)

lemma normalize_time_shape:
  assumes "normalize_time s = Some t"
  obtains h m x f where "t = h @ '':'' @ m @ '':'' @ x @ ''.'' @ f" "length h = 2" "length m = 2" "length x = 2"
    "length f = 3" "list_all is_digit h" "list_all is_digit m" "list_all is_digit x" "list_all is_digit f"
    "digits_value h < 24" "digits_value m < 60" "digits_value x < 60"
proof -
  define fr where "fr = (if length s > 8 then takeWhile is_digit (drop 9 s) else [])"
  define ms where "ms = fr @ replicate (3 - length fr) CHR ''0''"
  have fr: "list_all is_digit fr" by (auto simp: fr_def list_all_iff dest: set_takeWhileD)
  have z: "is_digit CHR ''0''" by (simp add: zero_char)
  have len: "\<not> length s < 8" using assms by (auto simp: normalize_time_def)
  have t: "t = slice 0 2 s @ '':'' @ slice 3 5 s @ '':'' @ slice 6 8 s @ ''.'' @ take 3 ms"
    and d: "list_all is_digit (slice 0 2 s)" "list_all is_digit (slice 3 5 s)" "list_all is_digit (slice 6 8 s)"
    and v: "digits_value (slice 0 2 s) < 24" "digits_value (slice 3 5 s) < 60" "digits_value (slice 6 8 s) < 60"
    using assms unfolding normalize_time_def Let_def fr_def [symmetric] ms_def
    by (simp_all split: if_splits)
  show thesis
  proof (rule that [OF t])
    show "length (take 3 ms) = 3" by (simp add: ms_def)
    show "list_all is_digit (take 3 ms)"
      using fr z by (auto simp: ms_def list_all_iff dest: in_set_takeD split: if_splits)
  qed (use d v len in simp_all)
qed

lemma normalize_time_canonical:
  assumes "length h = 2" "length m = 2" "length x = 2" "length f = 3" "list_all is_digit h"
    "list_all is_digit m" "list_all is_digit x" "list_all is_digit f"
    "digits_value h < 24" "digits_value m < 60" "digits_value x < 60"
  shows "normalize_time (h @ '':'' @ m @ '':'' @ x @ ''.'' @ f) = Some (h @ '':'' @ m @ '':'' @ x @ ''.'' @ f)"
proof -
  obtain a b c d e g i j k where l: "h = [a, b]" "m = [c, d]" "x = [e, g]" "f = [i, j, k]"
    using assms(1-4) unfolding length_two length_three by blast
  show ?thesis using assms(5-) unfolding l by (simp add: normalize_time_def slice_def)
qed

lemma trim_id: "s \<noteq> [] \<Longrightarrow> \<not> is_space (hd s) \<Longrightarrow> \<not> is_space (last s) \<Longrightarrow> trim s = s"
proof -
  assume s: "s \<noteq> []" "\<not> is_space (hd s)" "\<not> is_space (last s)"
  have "dropWhile is_space s = s" using s(1,2) by (cases s) simp_all
  moreover have "dropWhile is_space (rev s) = rev s"
    using s(1,3) by (cases s rule: rev_cases) simp_all
  ultimately show ?thesis by (simp add: trim_def trim_start_def trim_end_def)
qed

lemma digit_not_space: "is_digit c \<Longrightarrow> \<not> is_space c"
  by (auto simp: is_digit_def is_space_def)

lemma time_only_fixed:
  assumes "normalize_time s = Some t"
  shows "normalize_timestamp t = t"
proof -
  from assms obtain h m x f where t: "t = h @ '':'' @ m @ '':'' @ x @ ''.'' @ f" and l: "length h = 2" "length m = 2" "length x = 2"
    "length f = 3" and d: "list_all is_digit h" "list_all is_digit m" "list_all is_digit x" "list_all is_digit f"
    and v: "digits_value h < 24" "digits_value m < 60" "digits_value x < 60"
    by (rule normalize_time_shape)
  have n: "normalize_time t = Some t" unfolding t by (rule normalize_time_canonical [OF l d v])
  have len: "length t = 12" using l by (simp add: t)
  have "h \<noteq> []" "f \<noteq> []" using l by auto
  then have "is_digit (hd t)" "is_digit (last t)" using d by (auto simp: t list_all_iff)
  then have "trim t = t" using len by (intro trim_id) (auto simp: digit_not_space)
  then show ?thesis using n len by (simp add: normalize_timestamp_def is_canonical_def)
qed

lemma dated_canonical:
  assumes "length t \<ge> 19" "t ! 4 = CHR ''-''" "t ! 7 = CHR ''-''"
    "list_all is_digit (slice 0 4 t)" "list_all is_digit (slice 5 7 t)" "list_all is_digit (slice 8 10 t)"
    "normalize_time u = Some time"
  shows "is_canonical (take 10 t @ ''T'' @ time @ ''Z'')"
proof -
  from assms(7) obtain h m x f where t: "time = h @ '':'' @ m @ '':'' @ x @ ''.'' @ f" and l: "length h = 2" "length m = 2"
    "length x = 2" "length f = 3" and d: "list_all is_digit h" "list_all is_digit m" "list_all is_digit x" "list_all is_digit f"
    and "digits_value h < 24" "digits_value m < 60" "digits_value x < 60"
    by (rule normalize_time_shape)
  have "take 10 t = slice 0 4 t @ [t ! 4] @ slice 5 7 t @ [t ! 7] @ slice 8 10 t"
  proof (rule nth_equalityI)
    fix i assume "i < length (take 10 t)"
    then have i: "i < 10" using assms(1) by simp
    have "i = 0 \<or> i = 1 \<or> i = 2 \<or> i = 3 \<or> i = 4 \<or> i = 5 \<or> i = 6 \<or> i = 7 \<or> i = 8 \<or> i = 9" using i by presburger
    then show "take 10 t ! i = (slice 0 4 t @ [t ! 4] @ slice 5 7 t @ [t ! 7] @ slice 8 10 t) ! i"
      using assms(1) by (elim disjE) (simp_all add: nth_append slice_def)
  qed (use assms(1) in simp)
  then have e: "take 10 t @ ''T'' @ time @ ''Z'' = stamp (slice 0 4 t) (slice 5 7 t) (slice 8 10 t) h m x f"
    using assms(2,3) by (simp add: stamp_def t)
  show ?thesis unfolding e
    by (rule stamp_canonical) (use assms l d in \<open>simp add: digit_parts_def\<close>)
qed

text \<open>
  Normalising a time stamp a second time changes nothing: what \<open>normalize\_timestamp\<close> returns is a canonical
  date stamp, a canonical time, or the text it was given.
\<close>

theorem normalize_idempotent: "normalize_timestamp (normalize_timestamp ts) = normalize_timestamp ts"
proof (cases "is_canonical ts")
  case False
  define t where "t = trim ts"
  define cond where "cond = (length t \<ge> 19 \<and> t ! 4 = CHR ''-'' \<and> t ! 7 = CHR ''-'' \<and> t ! 10 \<in> {CHR ''T'', CHR ''-'', CHR '' ''}
    \<and> list_all is_digit (slice 0 4 t) \<and> list_all is_digit (slice 5 7 t) \<and> list_all is_digit (slice 8 10 t))"
  have N: "normalize_timestamp ts =
    (case (if cond then normalize_time (drop 11 t) else None) of Some time \<Rightarrow> take 10 t @ ''T'' @ time @ ''Z''
     | None \<Rightarrow> (case normalize_time t of Some time \<Rightarrow> time | None \<Rightarrow> ts))"
    using False unfolding normalize_timestamp_def Let_def t_def cond_def by simp
  show ?thesis
  proof (cases "if cond then normalize_time (drop 11 t) else None")
    case (Some time)
    then have c: "cond" "normalize_time (drop 11 t) = Some time" by (simp_all split: if_splits)
    have "is_canonical (take 10 t @ ''T'' @ time @ ''Z'')"
      by (rule dated_canonical [OF _ _ _ _ _ _ c(2)]) (use c(1) in \<open>simp_all add: cond_def\<close>)
    then show ?thesis unfolding N Some by (simp add: normalize_timestamp_def)
  next
    case None
    note dated = None
    show ?thesis
    proof (cases "normalize_time t")
      case None
      then show ?thesis using N dated by simp
    next
      case (Some time)
      then show ?thesis using N dated time_only_fixed by simp
    qed
  qed
qed (simp add: normalize_timestamp_def)

end
