(* ===== verification/Ebl.thy ===== *)
theory Ebl
  imports Ngt1 Timestamp
begin

section \<open>The EBL log encoder (canboat-core/src/format/ebl.rs)\<close>

text \<open>
  A record per frame: a time stamp header between \<open>ESC SOH\<close> and \<open>ESC LF\<close> in which only \<open>ESC\<close> is doubled,
  then an NGT-1 message in which \<open>DLE\<close> and \<open>ESC\<close> are.  The decoder is the one of Ngt1 in EBL mode.
\<close>

definition push_header_byte :: "u8 \<Rightarrow> u8 list" where
  "push_header_byte b = (if b = ESC then [b, ESC] else [b])"

definition push_message_byte :: "u8 \<Rightarrow> u8 list" where
  "push_message_byte b = (if b = DLE then [b, DLE] else if b = ESC then [b, ESC] else [b])"

definition encode_message :: "u8 \<Rightarrow> u8 list \<Rightarrow> u8 list" where
  "encode_message cmd payload =
     [DLE, STX] @ push_message_byte cmd @ push_message_byte (word_of_nat (length payload)) @
     concat (map push_message_byte payload) @
     push_message_byte (0 - foldl (+) (cmd + word_of_nat (length payload)) payload) @ [DLE, ETX]"

definition saturating_mul :: "u64 \<Rightarrow> u64 \<Rightarrow> u64" where
  "saturating_mul a b = (if unat a * unat b \<ge> 2 ^ 64 then - 1 else a * b)"

definition frame_unix_ms :: "raw_frame \<Rightarrow> u64" where
  "frame_unix_ms frame =
     (case Option.bind (rf_timestamp frame) to_unix_ms of Some ms \<Rightarrow> word_of_int (max 0 ms) | None \<Rightarrow> 0)"

definition ebl_payload :: "raw_frame \<Rightarrow> u8 list" where
  "ebl_payload frame =
     [rf_prio frame, ucast (rf_pgn frame AND 0xff), ucast (drop_bit 8 (rf_pgn frame) AND 0xff),
      ucast (drop_bit 16 (rf_pgn frame) AND 0xff), rf_dst frame, rf_src frame]
     @ le_bytes 4 (0 :: u32) @ [word_of_nat (length (rf_data frame))] @ rf_data frame"

definition encode_frame :: "raw_frame \<Rightarrow> u8 list" where
  "encode_frame frame =
     (let ticks = saturating_mul (frame_unix_ms frame + FILETIME_TO_UNIX_MS) 10000
      in [ESC, SOH] @ push_header_byte EBL_TIMESTAMP @ concat (map push_header_byte (le_bytes 8 ticks)) @
         [ESC, LF] @ encode_message N2K_MSG_RECEIVED (ebl_payload frame))"

subsection \<open>The message part is the framing of Ngt1 in EBL mode\<close>

lemma push_message_byte_eq: "push_message_byte b = stuff True b"
  by (simp add: push_message_byte_def stuff_def)

lemma encode_message_framed: "encode_message cmd payload = framed True cmd payload"
  by (simp add: encode_message_def framed_def push_message_byte_eq [abs_def] ngt_checksum_def Let_def)

subsection \<open>The header part\<close>

lemma push_header:
  "nd_ebl d \<Longrightarrow> nd_state d = InHeader \<Longrightarrow> push_bytes d (push_header_byte b) = (d\<lparr>nd_buf := nd_buf d @ [b]\<rparr>, [])"
  by (cases d) (auto simp: push_header_byte_def push_byte_def is_escape_def ngt_bytes)

lemma push_header_list:
  "nd_ebl d \<Longrightarrow> nd_state d = InHeader \<Longrightarrow>
   push_bytes d (concat (map push_header_byte bs)) = (d\<lparr>nd_buf := nd_buf d @ bs\<rparr>, [])"
proof (induction bs arbitrary: d)
  case (Cons b bs)
  let ?d = "d\<lparr>nd_buf := nd_buf d @ [b]\<rparr>"
  have "push_bytes ?d (concat (map push_header_byte bs)) = (?d\<lparr>nd_buf := nd_buf ?d @ bs\<rparr>, [])"
    by (rule Cons.IH) (use Cons.prems in simp_all)
  then show ?case using Cons.prems by (simp add: push_bytes_append push_header)
qed simp

lemma push_header_record:
  assumes "in_step d" "nd_ebl d"
  shows "push_bytes d ([ESC, SOH] @ concat (map push_header_byte raw) @ [ESC, LF]) =
    (d\<lparr>nd_state := Idle, nd_buf := []\<rparr>, case finish_header raw of None \<Rightarrow> [] | Some e \<Rightarrow> [e])"
proof -
  let ?d = "d\<lparr>nd_state := InHeader, nd_buf := []\<rparr>"
  have start: "push_bytes d [ESC, SOH] = (?d, [])"
    using assms by (auto simp: in_step_def push_byte_def is_escape_def ngt_bytes)
  have body: "push_bytes ?d (concat (map push_header_byte raw)) = (?d\<lparr>nd_buf := raw\<rparr>, [])"
    using push_header_list [of ?d raw] assms(2) by simp
  have stop: "push_bytes (?d\<lparr>nd_buf := raw\<rparr>) [ESC, LF] =
      (d\<lparr>nd_state := Idle, nd_buf := []\<rparr>, case finish_header raw of None \<Rightarrow> [] | Some e \<Rightarrow> [e])"
    using assms(2) by (auto simp: push_byte_def is_escape_def ngt_bytes split: option.split)
  show ?thesis using start body stop unfolding push_bytes_append by (simp add: Let_def)
qed

text \<open>The ticks of every time stamp the parser accepts fit, and the decoder inverts their scaling.\<close>

lemma parse_i64_bound:
  assumes "parse_i64 (slice a b s) = Some v" "b - a \<le> k"
  shows "- (10 ^ k) < v" "v < 10 ^ k"
proof -
  let ?t = "slice a b s"
  have len: "length ?t \<le> k" using assms(2) by (simp add: slice_def)
  have bd: "int (digits_value r) < 10 ^ k" if "list_all is_digit r" "length r \<le> length ?t" for r
  proof -
    have "digits_value r < 10 ^ k"
      by (rule less_le_trans [OF digits_value_bound [OF that(1)] power_increasing])
        (use that(2) len in simp_all)
    then show ?thesis by (metis of_nat_less_numeral_power_cancel_iff)
  qed
  have "(\<exists>r. v = - int (digits_value r) \<and> list_all is_digit r \<and> length r \<le> length ?t) \<or>
    (\<exists>r. v = int (digits_value r) \<and> list_all is_digit r \<and> length r \<le> length ?t)"
  proof (cases ?t)
    case (Cons c r)
    show ?thesis
    proof (cases "c = CHR ''-''")
      case True
      then show ?thesis using assms(1) Cons
        by (intro disjI1 exI [of _ r]) (simp add: parse_i64_def split: if_splits)
    next
      case False
      then obtain z where "parse_unsigned (2 ^ 63 - 1) ?t = Some z" "v = int z"
        using assms(1) Cons by (auto simp: parse_i64_def)
      then show ?thesis by (auto elim!: parse_unsigned_SomeD)
    qed
  qed (use assms(1) in \<open>simp add: parse_i64_def\<close>)
  then obtain r where r: "v = - int (digits_value r) \<or> v = int (digits_value r)" "list_all is_digit r"
    "length r \<le> length ?t" by blast
  have "int (digits_value r) < 10 ^ k" by (rule bd [OF r(2,3)])
  moreover have "(0 :: int) < 10 ^ k" by simp
  ultimately show "- (10 ^ k) < v" "v < 10 ^ k" using r(1) by linarith+
qed

lemma to_unix_ms_bound:
  assumes "to_unix_ms s = Some v"
  shows "v < 2 ^ 48"
proof -
  define ms where "ms = (if length s \<ge> 23 \<and> (s ! 19 = CHR ''.'' \<or> s ! 19 = CHR '','')
    then case parse_i64 (slice 20 23 s) of Some v \<Rightarrow> v | None \<Rightarrow> 0 else 0)"
  have ms: "ms = 0 \<or> parse_i64 (slice 20 23 s) = Some ms"
    unfolding ms_def by (simp split: option.split)
  from assms obtain y mo d h mi se days where
    P: "parse_i64 (slice 0 4 s) = Some y" "parse_i64 (slice 5 7 s) = Some mo" "parse_i64 (slice 8 10 s) = Some d"
      "parse_i64 (slice 11 13 s) = Some h" "parse_i64 (slice 14 16 s) = Some mi" "parse_i64 (slice 17 19 s) = Some se"
    and D: "days_since_epoch y mo d = Some days"
    and v: "v = (days * 86400 + h * 3600 + mi * 60 + se) * 1000 + ms"
    unfolding to_unix_ms_def Let_def ms_def [symmetric] bind_eq_Some_conv if_distrib
    by (auto simp only: bind_eq_Some_conv option.inject if_False if_True option.distinct intro: that split: if_splits)
  have b: "y < 10000" "h < 100" "mi < 100" "se < 100"
    using parse_i64_bound(2) [OF P(1), of 4] parse_i64_bound(2) [OF P(4), of 2] parse_i64_bound(2) [OF P(5), of 2]
      parse_i64_bound(2) [OF P(6), of 2] by simp_all
  have m: "ms < 1000" using ms parse_i64_bound(2) [of 20 23 s ms 3] by auto
  define Y where "Y = (if mo \<le> 2 then y - 1 else y)"
  define mp where "mp = (if mo > 2 then mo - 3 else mo + 9)"
  have md: "1 \<le> mo" "mo \<le> 12" "d \<le> 31" "days = Y div 400 * 146097 +
     ((Y - Y div 400 * 400) * 365 + (Y - Y div 400 * 400) div 4 - (Y - Y div 400 * 400) div 100 +
      ((153 * mp + 2) div 5 + d - 1)) - 719468"
    using D unfolding days_since_epoch_def Let_def trunc_div_floor Y_def mp_def by (simp_all split: if_splits)
  define e where "e = Y div 400"
  define r where "r = Y - Y div 400 * 400"
  have er: "e \<le> 24" "0 \<le> r" "r < 400" using b(1) by (simp_all add: e_def r_def Y_def minus_div_mult_eq_mod) linarith+
  have "mp \<le> 11" using md(1,2) by (simp add: mp_def)
  then have "(153 * mp + 2) div 5 \<le> 337" by linarith
  moreover have "r div 4 \<le> 100" "0 \<le> r div 100" using er by linarith+
  moreover have "days = e * 146097 + (r * 365 + r div 4 - r div 100 + ((153 * mp + 2) div 5 + d - 1)) - 719468"
    using md(4) by (simp add: e_def r_def)
  ultimately have "days < 3000000" using er md(3) by linarith
  then show "v < 2 ^ 48" using v b m by simp
qed

lemma ticks_roundtrip:
  assumes "ms < 2 ^ 48"
  shows "finish_header (EBL_TIMESTAMP # le_bytes 8 (saturating_mul (ms + FILETIME_TO_UNIX_MS) 10000)) =
    Some (Header (Timestamp ms))"
proof -
  have u: "unat ms < 2 ^ 48" using assms by (simp add: word_less_nat_alt)
  have f: "unat FILETIME_TO_UNIX_MS = 11644473600000" by (simp add: FILETIME_TO_UNIX_MS_def)
  have s: "unat (ms + FILETIME_TO_UNIX_MS) = unat ms + 11644473600000"
    using u f by (simp add: unat_word_ariths)
  have nosat: "saturating_mul (ms + FILETIME_TO_UNIX_MS) 10000 = (ms + FILETIME_TO_UNIX_MS) * 10000"
    using u by (simp add: saturating_mul_def s)
  let ?t = "(ms + FILETIME_TO_UNIX_MS) * 10000"
  have "unat ?t = (unat ms + 11644473600000) * 10000"
    unfolding unat_word_ariths(2) s using u by simp
  then have "unat (?t div 10000) = unat ms + 11644473600000" by (simp add: unat_div)
  then have q: "?t div 10000 = ms + FILETIME_TO_UNIX_MS" using s by (simp only: word_unat_eq_iff)
  have "\<not> ms + FILETIME_TO_UNIX_MS < FILETIME_TO_UNIX_MS" using s f by (simp add: word_less_nat_alt)
  moreover have "from_le (le_bytes 8 ?t) = ?t" by (rule from_le_le_bytes) simp
  moreover have "ms + FILETIME_TO_UNIX_MS - FILETIME_TO_UNIX_MS = ms" by simp
  moreover define T where "T = ?t"
  ultimately show ?thesis unfolding nosat using q
    unfolding T_def [symmetric] by (simp add: finish_header_def Let_def del: add_diff_cancel)
qed

lemma frame_unix_ms_bound: "frame_unix_ms f < 2 ^ 48"
proof (cases "Option.bind (rf_timestamp f) to_unix_ms")
  case (Some v)
  then have "v < 2 ^ 48" using to_unix_ms_bound by (auto simp: bind_eq_Some_conv)
  then show ?thesis using Some by (simp add: frame_unix_ms_def word_less_def uint_word_of_int)
qed (simp add: frame_unix_ms_def)

lemma ebl_payload_roundtrip:
  assumes "rf_pgn f < 2 ^ 24" "length (rf_data f) < 256"
  shows "to_raw_frame \<lparr>nm_command = N2K_MSG_RECEIVED, nm_payload = ebl_payload f\<rparr> = Some (f\<lparr>rf_timestamp := Some ''0''\<rparr>)"
proof -
  have z: "le_bytes 4 (0 :: u32) = [0, 0, 0, 0]" by (simp add: le_bytes_def upt_rec)
  have "show_nat 0 = ''0''" by (simp add: show_nat.simps zero_char)
  then show ?thesis using assms unfolding ebl_payload_def z
    by (simp add: to_raw_frame_def Let_def le24_bytes take_bit_24_id)
qed

lemma push_bytes_snd:
  "push_bytes d xs = (d', es) \<Longrightarrow> snd (push_bytes d (xs @ ys)) = es @ snd (push_bytes d' ys)"
  by (simp add: push_bytes_append Let_def case_prod_beta)

lemma ebl_log_events:
  "in_step d \<Longrightarrow> nd_ebl d \<Longrightarrow> \<forall>f \<in> set fs. rf_pgn f < 2 ^ 24 \<and> length (rf_data f) \<le> 244 \<Longrightarrow>
   snd (push_bytes d (concat (map encode_frame fs))) =
     concat (map (\<lambda>f. [Header (Timestamp (frame_unix_ms f)),
       Message \<lparr>nm_command = N2K_MSG_RECEIVED, nm_payload = ebl_payload f\<rparr>]) fs)"
proof (induction fs arbitrary: d)
  case (Cons f fs)
  let ?d = "d\<lparr>nd_state := Idle, nd_buf := []\<rparr>"
  let ?raw = "EBL_TIMESTAMP # le_bytes 8 (saturating_mul (frame_unix_ms f + FILETIME_TO_UNIX_MS) 10000)"
  let ?hdr = "[ESC, SOH] @ concat (map push_header_byte ?raw) @ [ESC, LF]"
  have hdr: "push_bytes d ?hdr = (?d, [Header (Timestamp (frame_unix_ms f))])"
    using push_header_record [OF Cons.prems(1,2), of ?raw] ticks_roundtrip [OF frame_unix_ms_bound [of f]] by simp
  have len: "length (ebl_payload f) < 256" using Cons.prems(3) by (simp add: ebl_payload_def)
  have st: "in_step ?d" "nd_ebl ?d" using Cons.prems(2) by (simp_all add: in_step_def)
  have msg: "push_bytes ?d (framed True N2K_MSG_RECEIVED (ebl_payload f)) =
      (?d, [Message \<lparr>nm_command = N2K_MSG_RECEIVED, nm_payload = ebl_payload f\<rparr>])"
    using push_framed [OF st(1) len, of True N2K_MSG_RECEIVED] st(2) by simp
  have e: "encode_frame f = ?hdr @ framed True N2K_MSG_RECEIVED (ebl_payload f)"
    by (simp add: encode_frame_def Let_def encode_message_framed)
  have IH: "snd (push_bytes ?d (concat (map encode_frame fs))) =
      concat (map (\<lambda>f. [Header (Timestamp (frame_unix_ms f)),
        Message \<lparr>nm_command = N2K_MSG_RECEIVED, nm_payload = ebl_payload f\<rparr>]) fs)"
    by (rule Cons.IH [OF st]) (use Cons.prems(3) in simp)
  have c: "concat (map encode_frame (f # fs)) =
      ?hdr @ framed True N2K_MSG_RECEIVED (ebl_payload f) @ concat (map encode_frame fs)"
    by (simp add: e)
  show ?case unfolding c push_bytes_snd [OF hdr] push_bytes_snd [OF msg] IH by simp
qed simp

text \<open>
  Frames written to an EBL log are read back by \<open>Ngt1Decoder::with\_ebl\<close> in order, each as its time stamp (milliseconds
  since 1970, zero when it has none) and a message with the same priority, PGN, addresses and data (PGNs of at most
  24 bits, at most 244 data bytes).
\<close>

theorem ebl_log_roundtrip:
  assumes "\<forall>f \<in> set fs. rf_pgn f < 2 ^ 24 \<and> length (rf_data f) \<le> 244"
  shows "snd (push_bytes ngt_decoder_with_ebl (concat (map encode_frame fs))) =
      concat (map (\<lambda>f. [Header (Timestamp (frame_unix_ms f)),
        Message \<lparr>nm_command = N2K_MSG_RECEIVED, nm_payload = ebl_payload f\<rparr>]) fs) \<and>
    (\<forall>f \<in> set fs. to_raw_frame \<lparr>nm_command = N2K_MSG_RECEIVED, nm_payload = ebl_payload f\<rparr> =
      Some (f\<lparr>rf_timestamp := Some ''0''\<rparr>))"
proof
  show "snd (push_bytes ngt_decoder_with_ebl (concat (map encode_frame fs))) =
      concat (map (\<lambda>f. [Header (Timestamp (frame_unix_ms f)),
        Message \<lparr>nm_command = N2K_MSG_RECEIVED, nm_payload = ebl_payload f\<rparr>]) fs)"
    by (rule ebl_log_events [OF _ _ assms]) (simp_all add: ngt_decoder_with_ebl_def ngt_decoder_new_def in_step_def)
qed (use assms ebl_payload_roundtrip in force)

theorem ebl_log_roundtrip_witness:
  "snd (push_bytes ngt_decoder_with_ebl (concat (map encode_frame
      [\<lparr>rf_timestamp = Some ''2025-04-25T17:05:21.993Z'', rf_prio = 3, rf_pgn = 127251, rf_src = 23, rf_dst = 255,
        rf_data = [0, 0x10, 0x1b, 0xff]\<rparr>]))) =
   [Header (Timestamp (frame_unix_ms \<lparr>rf_timestamp = Some ''2025-04-25T17:05:21.993Z'', rf_prio = 3, rf_pgn = 127251,
        rf_src = 23, rf_dst = 255, rf_data = [0, 0x10, 0x1b, 0xff]\<rparr>)),
    Message \<lparr>nm_command = N2K_MSG_RECEIVED, nm_payload = ebl_payload
      \<lparr>rf_timestamp = Some ''2025-04-25T17:05:21.993Z'', rf_prio = 3, rf_pgn = 127251, rf_src = 23, rf_dst = 255,
        rf_data = [0, 0x10, 0x1b, 0xff]\<rparr>\<rparr>]"
  using ebl_log_roundtrip [of "[\<lparr>rf_timestamp = Some ''2025-04-25T17:05:21.993Z'', rf_prio = 3, rf_pgn = 127251, rf_src = 23, rf_dst = 255,
        rf_data = [0, 0x10, 0x1b, 0xff]\<rparr>]"] by simp

end
