(* ===== verification/Hex.thy ===== *)
theory Hex
  imports Ascii
begin

section \<open>Hexadecimal text\<close>

text \<open>
  Printing (\<open>\{:x\}\<close>, \<open>\{:X\}\<close>, \<open>\{:02X\}\<close>) and \<open>from\_str\_radix(s, 16)\<close> of the Rust standard library, with the
  optional plus sign the latter accepts, and the cutting of a text into pieces of equal length.
\<close>

definition hex_char :: "bool \<Rightarrow> nat \<Rightarrow> char" where
  "hex_char up d = char_of (if d < 10 then 48 + d else if up then 55 + d else 87 + d)"

definition hex_value :: "char \<Rightarrow> nat option" where
  "hex_value c =
     (let n = of_char c in
      if 48 \<le> n \<and> n \<le> 57 then Some (n - 48)
      else if 97 \<le> n \<and> n \<le> 102 then Some (n - 87)
      else if 65 \<le> n \<and> n \<le> 70 then Some (n - 55) else None)"

definition is_hex :: "char \<Rightarrow> bool" where
  "is_hex c \<longleftrightarrow> hex_value c \<noteq> None"

fun show_hex :: "bool \<Rightarrow> nat \<Rightarrow> string" where
  "show_hex up n = (if n < 16 then [hex_char up n] else show_hex up (n div 16) @ [hex_char up (n mod 16)])"

declare show_hex.simps [simp del]

definition show_hex_padded :: "bool \<Rightarrow> nat \<Rightarrow> nat \<Rightarrow> string" where
  "show_hex_padded up w n = pad_left CHR ''0'' w (show_hex up n)"

definition hex_digits_value :: "string \<Rightarrow> nat" where
  "hex_digits_value s = foldl (\<lambda>v c. 16 * v + the (hex_value c)) 0 s"

definition parse_hex :: "nat \<Rightarrow> string \<Rightarrow> nat option" where
  "parse_hex m s =
     (let t = (case s of c # r \<Rightarrow> if c = CHR ''+'' \<and> r \<noteq> [] then r else s | [] \<Rightarrow> s) in
      if t = [] \<or> \<not> list_all is_hex t \<or> hex_digits_value t > m then None else Some (hex_digits_value t))"

text \<open>\<open>chunks(n)\<close>.\<close>

fun chunks_of :: "nat \<Rightarrow> 'a list \<Rightarrow> 'a list list" where
  "chunks_of n xs = (if xs = [] \<or> n = 0 then [] else take n xs # chunks_of n (drop n xs))"

declare chunks_of.simps [simp del]

text \<open>The bytes of a frame as two hexadecimal digits each.\<close>

definition show_byte :: "bool \<Rightarrow> u8 \<Rightarrow> string" where
  "show_byte up b = show_hex_padded up 2 (unat b)"

subsection \<open>Printing and parsing are inverse\<close>

lemma hex_value_char [simp]: "d < 16 \<Longrightarrow> hex_value (hex_char up d) = Some d"
  by (auto simp: hex_value_def hex_char_def Let_def)

lemma is_hex_char [simp]: "d < 16 \<Longrightarrow> is_hex (hex_char up d)"
  by (simp add: is_hex_def)

lemma hex_digits_value_snoc [simp]: "hex_digits_value (s @ [c]) = 16 * hex_digits_value s + the (hex_value c)"
  by (simp add: hex_digits_value_def)

lemma hex_digits_value_Nil [simp]: "hex_digits_value [] = 0"
  by (simp add: hex_digits_value_def)

lemma show_hex_digits: "list_all is_hex (show_hex up n)"
  by (induction up n rule: show_hex.induct) (simp add: show_hex.simps)

lemma show_hex_value [simp]: "hex_digits_value (show_hex up n) = n"
proof (induction up n rule: show_hex.induct)
  case (1 up n)
  have "hex_digits_value [c] = the (hex_value c)" for c
    using hex_digits_value_snoc [of "[]" c] by simp
  then show ?case using 1 by (cases "n < 16") (simp_all add: show_hex.simps [of up n])
qed

lemma show_hex_nonempty [simp]: "show_hex up n \<noteq> []"
  by (simp add: show_hex.simps)

lemma hex_not_plus: "is_hex c \<Longrightarrow> c \<noteq> CHR ''+''"
  by (auto simp: is_hex_def hex_value_def)

lemma parse_hex_digits:
  "s \<noteq> [] \<Longrightarrow> list_all is_hex s \<Longrightarrow> hex_digits_value s \<le> m \<Longrightarrow> parse_hex m s = Some (hex_digits_value s)"
  by (cases s) (auto simp: parse_hex_def Let_def hex_not_plus)

lemma zero_hex [simp]: "hex_value CHR ''0'' = Some 0" "is_hex CHR ''0''"
  by (simp_all add: hex_value_def is_hex_def)

lemma hex_digits_value_zeros [simp]: "hex_digits_value (replicate k CHR ''0'' @ s) = hex_digits_value s"
proof -
  have "foldl (\<lambda>v c. 16 * v + the (hex_value c)) 0 (replicate k CHR ''0'') = 0"
    by (induction k) simp_all
  then show ?thesis by (simp add: hex_digits_value_def)
qed

lemma show_hex_padded_digits: "list_all is_hex (show_hex_padded up w n)"
  using show_hex_digits [of up n] by (auto simp: show_hex_padded_def pad_left_def list_all_iff)

lemma show_hex_padded_value [simp]: "hex_digits_value (show_hex_padded up w n) = n"
  by (simp add: show_hex_padded_def pad_left_def)

lemma show_hex_padded_nonempty [simp]: "show_hex_padded up w n \<noteq> []"
  by (simp add: show_hex_padded_def pad_left_def)

lemma parse_show_hex [simp]: "n \<le> m \<Longrightarrow> parse_hex m (show_hex up n) = Some n"
  using parse_hex_digits [of "show_hex up n" m] by (simp add: show_hex_digits)

lemma parse_show_hex_padded [simp]: "n \<le> m \<Longrightarrow> parse_hex m (show_hex_padded up w n) = Some n"
  using parse_hex_digits [of "show_hex_padded up w n" m] by (simp add: show_hex_padded_digits)

lemma show_byte_two:
  "show_byte up b = [hex_char up (unat b div 16), hex_char up (unat b mod 16)]"
proof -
  have b: "unat b < 256" using unsigned_less [of b, where 'a = nat] by simp
  have z: "CHR ''0'' = hex_char up 0" unfolding hex_char_def by code_simp
  show ?thesis
  proof (cases "unat b < 16")
    case True
    then show ?thesis
      by (simp add: show_byte_def show_hex_padded_def pad_left_def show_hex.simps [of up "unat b"] z numeral_2_eq_2)
  next
    case False
    have "unat b div 16 < 16" using b by simp
    then have "show_hex up (unat b div 16) = [hex_char up (unat b div 16)]" by (simp add: show_hex.simps)
    then show ?thesis
      using False by (simp add: show_byte_def show_hex_padded_def pad_left_def show_hex.simps [of up "unat b"])
  qed
qed

lemma length_show_byte [simp]: "length (show_byte up b) = 2"
  by (simp add: show_byte_two)

lemma parse_show_byte [simp]: "parse_hex 255 (show_byte up b) = Some (unat b)"
  using unsigned_less [of b, where 'a = nat] by (simp add: show_byte_def)

lemma hex_not_in: "\<not> is_hex c \<Longrightarrow> list_all is_hex s \<Longrightarrow> c \<notin> set s"
  by (auto simp: list_all_iff)

lemma hex_not_space: "is_hex c \<Longrightarrow> \<not> is_space c"
  by (auto simp: is_hex_def hex_value_def is_space_def Let_def split: if_splits)

lemma show_byte_digits: "list_all is_hex (show_byte up b)"
  by (simp add: show_byte_def show_hex_padded_digits)

lemma chunks_of_append:
  "length x = n \<Longrightarrow> 0 < n \<Longrightarrow> chunks_of n (x @ xs) = x # chunks_of n xs"
  by (subst chunks_of.simps) auto

lemma chunks_of_Nil [simp]: "chunks_of n [] = []"
  by (simp add: chunks_of.simps)

lemma chunks_show_bytes: "chunks_of 2 (concat (map (show_byte up) bs)) = map (show_byte up) bs"
  by (induction bs) (simp_all add: chunks_of_append)

end
