(* ===== verification/Plain.thy ===== *)
theory Plain
  imports Hex Timestamp Raw_Frame
begin

section \<open>PLAIN and FAST lines (canboat-core/src/format/plain.rs)\<close>

text \<open>
  The line format every other tool reads and writes: the parser with its byte cursor and the byte offsets its errors
  carry, and the writer.  A \<open>u64\<close> collects the digits of a number and wraps, as in the release build.
\<close>

datatype parse_error =
    Empty
  | MissingTimestamp
  | BadHeader nat nat
  | BadInteger string string "nat option"
  | LengthTooLarge nat
  | BadPayloadCount nat nat
  | BadHexByte nat string "nat option"

definition byte_offset :: "parse_error \<Rightarrow> nat option" where
  "byte_offset e = (case e of BadInteger f v off \<Rightarrow> off | BadHexByte i v off \<Rightarrow> off | _ \<Rightarrow> None)"

text \<open>\<open>HEX\_NIBBLE\<close>: the sentinel \<open>0xff\<close> for a byte that is no hexadecimal digit.\<close>

definition hex_nibble :: "char \<Rightarrow> u8" where
  "hex_nibble c = (case hex_value c of Some d \<Rightarrow> word_of_nat d | None \<Rightarrow> 0xff)"

definition skip_spaces :: "string \<Rightarrow> nat \<Rightarrow> nat" where
  "skip_spaces b i = i + length (takeWhile (\<lambda>c. c = CHR '' '') (drop i b))"

definition skip_comma :: "string \<Rightarrow> nat \<Rightarrow> nat" where
  "skip_comma b i = (if i < length b \<and> b ! i = CHR '','' then i + 1 else i)"

definition take_uint_until_comma ::
  "nat \<Rightarrow> string \<Rightarrow> nat \<Rightarrow> nat \<Rightarrow> string \<Rightarrow> parse_error + nat \<times> nat" where
  "take_uint_until_comma m bytes cursor base field =
     (let start = skip_spaces bytes cursor;
          digits = takeWhile is_digit (drop start bytes);
          cursor = start + length digits;
          acc = foldl (\<lambda>v c. v * 10 + word_of_nat (digit_value c)) (0 :: u64) digits
      in if digits = [] then Inl (BadInteger field (slice start cursor bytes) (Some (base + start)))
         else let cursor = skip_comma bytes (skip_spaces bytes cursor) in
           if unat acc \<le> m then Inr (unat acc, cursor)
           else Inl (BadInteger field (show_nat (unat acc)) (Some (base + start))))"

text \<open>The payload loop; \<open>n\<close> is the number of bytes still to decode.\<close>

fun payload_loop :: "string \<Rightarrow> nat \<Rightarrow> nat \<Rightarrow> nat \<Rightarrow> u8 list \<Rightarrow> parse_error + u8 list" where
  "payload_loop b off 0 i acc = Inr acc"
| "payload_loop b off (Suc n) i acc =
     (if i \<ge> length b then Inr acc
      else let i = skip_spaces b i in
        if i + 2 > length b then Inl (BadHexByte (length acc) (drop i b) (Some (off + i)))
        else let hi = hex_nibble (b ! i); lo = hex_nibble (b ! (i + 1)) in
          if hi = 0xff \<or> lo = 0xff then Inl (BadHexByte (length acc) (slice i (i + 2) b) (Some (off + i)))
          else payload_loop b off n (skip_comma b (skip_spaces b (i + 2))) (acc @ [push_bit 4 hi OR lo]))"

definition trim_newlines :: "string \<Rightarrow> string" where
  "trim_newlines s = rev (dropWhile (\<lambda>c. c = CHR 0x0D \<or> c = CHR 0x0A) (rev s))"

definition plain_parse_line :: "string \<Rightarrow> parse_error + raw_frame" where
  "plain_parse_line s =
     (let line = trim_newlines s in
      if line = [] then Inl Empty
      else case split_once CHR '','' line of
        None \<Rightarrow> Inl MissingTimestamp
      | Some (ts, rest) \<Rightarrow>
          let timestamp = (if ts = [] then None else Some ts);
              base = length ts + 1
          in and_then (take_uint_until_comma 255 rest 0 base ''prio'') (\<lambda>(prio, cursor).
             and_then (take_uint_until_comma (2 ^ 32 - 1) rest cursor base ''pgn'') (\<lambda>(pgn, cursor).
             and_then (take_uint_until_comma 255 rest cursor base ''src'') (\<lambda>(src, cursor).
             and_then (take_uint_until_comma 255 rest cursor base ''dst'') (\<lambda>(dst, cursor).
             and_then (take_uint_until_comma (2 ^ 64 - 1) rest cursor base ''len'') (\<lambda>(len, cursor).
               if len > RAWFRAME_MAX_SIZE then Inl (LengthTooLarge len)
               else and_then (payload_loop (drop cursor rest) (base + cursor) len 0 []) (\<lambda>data.
                 if length data \<noteq> len then Inl (BadPayloadCount len (length data))
                 else Inr \<lparr>rf_timestamp = timestamp, rf_prio = word_of_nat prio, rf_pgn = word_of_nat pgn,
                           rf_src = word_of_nat src, rf_dst = word_of_nat dst, rf_data = data\<rparr>)))))))"

definition plain_write_line :: "raw_frame \<Rightarrow> string" where
  "plain_write_line f =
     (case rf_timestamp f of Some ts \<Rightarrow> normalize_timestamp ts | None \<Rightarrow> []) @
     '','' @ show_nat (unat (rf_prio f)) @ '','' @ show_nat (unat (rf_pgn f)) @ '','' @ show_nat (unat (rf_src f)) @
     '','' @ show_nat (unat (rf_dst f)) @ '','' @ show_nat (length (rf_data f)) @
     concat (map (\<lambda>b. CHR '','' # show_byte False b) (rf_data f))"

subsection \<open>Cursor steps\<close>

lemma skip_spaces_bound: "i \<le> length b \<Longrightarrow> i \<le> skip_spaces b i \<and> skip_spaces b i \<le> length b"
  using length_takeWhile_le [of "\<lambda>c. c = CHR '' ''" "drop i b"] by (simp add: skip_spaces_def)

lemma skip_comma_bound: "i \<le> length b \<Longrightarrow> i \<le> skip_comma b i \<and> skip_comma b i \<le> length b"
  by (auto simp: skip_comma_def)

lemma skip_spaces_none: "drop i b = [] \<or> hd (drop i b) \<noteq> CHR '' '' \<Longrightarrow> skip_spaces b i = i"
  by (cases "drop i b") (auto simp: skip_spaces_def)

lemma fold_digits_u64:
  "foldl (\<lambda>v c. v * 10 + word_of_nat (digit_value c)) (word_of_nat a :: u64) ds =
   word_of_nat (foldl (\<lambda>v c. 10 * v + digit_value c) a ds)"
proof (induction ds arbitrary: a)
  case (Cons c ds)
  then show ?case using Cons.IH [of "10 * a + digit_value c"] by (simp add: mult.commute)
qed simp

lemma take_uint_ok:
  assumes "drop cursor bytes = show_nat n @ rest" "rest = [] \<or> (\<exists>r. rest = CHR '','' # r)"
    "n \<le> m" "m < 2 ^ 64" "cursor \<le> length bytes"
  shows "take_uint_until_comma m bytes cursor base field =
    Inr (n, cursor + length (show_nat n) + (if rest = [] then 0 else 1))"
proof -
  have d: "is_digit (hd (show_nat n))"
    using show_nat_digits [of n] by (cases "show_nat n") (auto simp: list_all_iff)
  then have "hd (drop cursor bytes) \<noteq> CHR '' ''"
    unfolding assms(1) by (auto simp: is_digit_def)
  then have s: "skip_spaces bytes cursor = cursor" by (simp add: skip_spaces_none)
  have nd: "\<not> is_digit CHR '',''" by (simp add: is_digit_def)
  have tw: "takeWhile is_digit (show_nat n @ rest) = show_nat n"
    using show_nat_digits [of n] assms(2) nd
    by (subst takeWhile_append2) (auto simp: list_all_iff)
  have acc: "foldl (\<lambda>v c. v * 10 + word_of_nat (digit_value c)) (0 :: u64) (show_nat n) = word_of_nat n"
    using fold_digits_u64 [of 0 "show_nat n"] by (simp add: digits_value_def [symmetric])
  have un: "unat (word_of_nat n :: u64) = n" using assms(3,4) by (simp add: unat_of_nat)
  let ?c = "cursor + length (show_nat n)"
  have dr: "drop ?c bytes = rest" using arg_cong [OF assms(1), of "drop (length (show_nat n))"]
    by (simp add: add.commute)
  have s2: "skip_spaces bytes ?c = ?c" using assms(2) dr by (intro skip_spaces_none) auto
  have len: "length (drop cursor bytes) = length (show_nat n) + length rest" unfolding assms(1) by simp
  have c2: "skip_comma bytes ?c = ?c + (if rest = [] then 0 else 1)"
    using assms(2)
  proof
    assume r: "rest = []"
    then have "length bytes = ?c" using len assms(5) by simp
    then show ?thesis using r by (simp add: skip_comma_def)
  next
    assume "\<exists>r. rest = CHR '','' # r"
    then obtain r where r: "rest = CHR '','' # r" ..
    then have "?c < length bytes" using len assms(5) by simp
    moreover have "bytes ! ?c = CHR '',''" using dr r hd_drop_conv_nth [OF calculation] by simp
    ultimately show ?thesis using r by (simp add: skip_comma_def)
  qed
  show ?thesis
    unfolding take_uint_until_comma_def s Let_def assms(1) tw acc un s2 c2 using assms(3) by simp
qed

subsection \<open>The payload\<close>

lemma hex_nibble_char [simp]: "d < 16 \<Longrightarrow> hex_nibble (hex_char up d) = word_of_nat d"
  by (simp add: hex_nibble_def)

lemma nibble_not_ff: "d < 16 \<Longrightarrow> (word_of_nat d :: u8) \<noteq> 0xff"
  by (simp add: word_unat_eq_iff unat_of_nat)

lemma nibbles_byte: "push_bit 4 (word_of_nat (unat b div 16)) OR word_of_nat (unat b mod 16) = (b :: u8)"
proof -
  have "word_of_nat (unat b div 16) = drop_bit 4 b"
    using unsigned_less [of b, where 'a = nat]
    by (simp add: word_unat_eq_iff unat_drop_bit_eq unat_of_nat drop_bit_eq_div [where 'a = nat] del: unat_div)
  moreover have "word_of_nat (unat b mod 16) = take_bit 4 b"
    by (simp add: word_unat_eq_iff unsigned_take_bit_eq unat_of_nat take_bit_eq_mod [where 'a = nat] del: unat_mod)
  moreover have "push_bit 4 (drop_bit 4 b) OR take_bit 4 b = b"
    by (rule bit_word_eqI) (auto simp: bit_simps)
  ultimately show ?thesis by simp
qed

lemma drop_byte:
  assumes "drop i b = show_byte False x @ rest"
  shows "b ! i = hex_char False (unat x div 16)" "b ! (i + 1) = hex_char False (unat x mod 16)"
    "i + 2 \<le> length b" "drop (i + 2) b = rest" "skip_spaces b i = i"
proof -
  have l: "length (drop i b) = 2 + length rest" unfolding assms by simp
  then show len: "i + 2 \<le> length b" by simp
  have n: "b ! (i + k) = (show_byte False x @ rest) ! k" if "k < 2" for k
    using len that assms by (metis add_leD1 nth_drop)
  show "b ! i = hex_char False (unat x div 16)" "b ! (i + 1) = hex_char False (unat x mod 16)"
    using n [of 0] n [of 1] by (simp_all add: show_byte_two)
  show "drop (i + 2) b = rest" using arg_cong [OF assms, of "drop 2"] by (simp add: add.commute)
  have "is_hex (hd (show_byte False x))" using unsigned_less [of x, where 'a = nat] by (simp add: show_byte_two)
  moreover have "\<not> is_hex CHR '' ''" by (simp add: is_hex_def hex_value_def)
  ultimately show "skip_spaces b i = i"
    using assms by (intro skip_spaces_none) (auto simp: show_byte_two)
qed

lemma payload_loop_ok:
  assumes "drop i b = join '','' (map (show_byte False) bs)"
  shows "payload_loop b off (length bs) i acc = Inr (acc @ bs)"
  using assms
proof (induction bs arbitrary: i acc)
  case (Cons x bs)
  define rest where "rest = (if bs = [] then [] else CHR '','' # join '','' (map (show_byte False) bs))"
  have d: "drop i b = show_byte False x @ rest"
    using Cons.prems by (cases bs) (simp_all add: rest_def)
  note D = drop_byte [OF d]
  have s2: "skip_spaces b (i + 2) = i + 2" using D(4) by (intro skip_spaces_none) (simp add: rest_def)
  have nxt: "drop (skip_comma b (i + 2)) b = join '','' (map (show_byte False) bs)"
  proof (cases bs)
    case Nil
    then have "drop (i + 2) b = []" using D(4) by (simp add: rest_def)
    then show ?thesis using Nil by (simp add: skip_comma_def)
  next
    case (Cons y ys)
    then have r: "drop (i + 2) b = CHR '','' # join '','' (map (show_byte False) bs)" using D(4) by (simp add: rest_def)
    then have l: "i + 2 < length b" by (metis drop_eq_Nil2 list.distinct(1) not_less)
    then have "b ! (i + 2) = CHR '',''" using r hd_drop_conv_nth [OF l] by simp
    moreover have "drop (Suc (i + 2)) b = join '','' (map (show_byte False) bs)" using r by (metis drop_Suc list.sel(3) tl_drop)
    ultimately show ?thesis using l by (simp add: skip_comma_def)
  qed
  have x: "unat x div 16 < 16" "unat x mod 16 < 16" using unsigned_less [of x, where 'a = nat] by simp_all
  have il: "\<not> length b \<le> i" "\<not> i + 2 > length b" using D(3) by simp_all
  have "payload_loop b off (Suc (length bs)) i acc =
      payload_loop b off (length bs) (skip_comma b (i + 2)) (acc @ [x])"
    using il x by (simp only: payload_loop.simps if_False Let_def D(5,1,2) s2 hex_nibble_char nibble_not_ff nibbles_byte
        simp_thms if_True)
  also have "\<dots> = Inr ((acc @ [x]) @ bs)" by (rule Cons.IH [OF nxt])
  finally show ?case by simp
qed simp

lemma concat_comma_join:
  "concat (map (\<lambda>b. CHR '','' # show_byte u b) (x # xs)) = CHR '','' # join '','' (map (show_byte u) (x # xs))"
  by (induction xs arbitrary: x) simp_all

subsection \<open>Round trip\<close>

lemma show_nat_no_comma: "CHR '','' \<notin> set (show_nat n)"
  by (rule digit_set [OF show_nat_digits]) (simp add: is_digit_def)

lemma trim_newlines_id: "s \<noteq> [] \<Longrightarrow> last s \<noteq> CHR 0x0D \<Longrightarrow> last s \<noteq> CHR 0x0A \<Longrightarrow> trim_newlines s = s"
  by (cases s rule: rev_cases) (auto simp: trim_newlines_def)

lemma hex_not_newline: "is_hex c \<Longrightarrow> c \<noteq> CHR 0x0D \<and> c \<noteq> CHR 0x0A"
  by (auto simp: is_hex_def hex_value_def)

lemma digit_is_hex: "is_digit c \<Longrightarrow> is_hex c"
  by (auto simp: is_hex_def hex_value_def is_digit_def)

definition plain_tail :: "raw_frame \<Rightarrow> string" where
  "plain_tail f = show_nat (length (rf_data f)) @ concat (map (\<lambda>b. CHR '','' # show_byte False b) (rf_data f))"

lemma plain_tail_last: "plain_tail f \<noteq> []" "is_hex (last (plain_tail f))"
proof -
  show "plain_tail f \<noteq> []" by (simp add: plain_tail_def)
  show "is_hex (last (plain_tail f))"
  proof (cases "rf_data f" rule: rev_cases)
    case Nil
    have "last (show_nat 0) \<in> set (show_nat 0)" by simp
    then show ?thesis using Nil show_nat_digits [of 0] by (auto simp: plain_tail_def list_all_iff digit_is_hex)
  next
    case (snoc bs b)
    then show ?thesis using unsigned_less [of b, where 'a = nat] by (simp add: plain_tail_def show_byte_two)
  qed
qed

lemma plain_tail_parsed:
  assumes "drop c rest = plain_tail f" "length (rf_data f) \<le> 1785" "c \<le> length rest"
  shows "\<exists>c'. take_uint_until_comma (2 ^ 64 - 1) rest c base ''len'' = Inr (length (rf_data f), c') \<and>
    (\<forall>off. payload_loop (drop c' rest) off (length (rf_data f)) 0 [] = Inr (rf_data f))"
proof (cases "rf_data f")
  case Nil
  have "take_uint_until_comma (2 ^ 64 - 1) rest c base ''len'' =
      Inr (length (rf_data f), c + length (show_nat (length (rf_data f))) + (if ([] :: string) = [] then 0 else 1))"
    by (rule take_uint_ok) (use assms in \<open>simp_all add: plain_tail_def Nil\<close>)
  then show ?thesis by (simp add: Nil)
next
  case (Cons x xs)
  let ?n = "length (rf_data f)"
  let ?j = "join '','' (map (show_byte False) (rf_data f))"
  have d: "drop c rest = show_nat ?n @ CHR '','' # ?j"
    unfolding assms(1) plain_tail_def Cons concat_comma_join ..
  have "take_uint_until_comma (2 ^ 64 - 1) rest c base ''len'' =
      Inr (?n, c + length (show_nat ?n) + (if CHR '','' # ?j = [] then 0 else 1))"
    by (rule take_uint_ok [OF d]) (use assms in simp_all)
  moreover have "drop (c + length (show_nat ?n) + 1) rest = ?j"
    using arg_cong [OF d, of "drop (length (show_nat ?n) + 1)"] by (simp add: add.commute add.left_commute)
  then have "payload_loop (drop (c + length (show_nat ?n) + 1) rest) off ?n 0 [] = Inr ([] @ rf_data f)" for off
    by (intro payload_loop_ok) simp
  ultimately show ?thesis by simp
qed

lemma take_uint_field:
  assumes "drop c bytes = show_nat n @ CHR '','' # r" "n \<le> m" "m < 2 ^ 64" "c \<le> length bytes"
  obtains c' where "take_uint_until_comma m bytes c base field = Inr (n, c')" "drop c' bytes = r" "c' \<le> length bytes"
proof -
  let ?c = "c + length (show_nat n) + 1"
  have "take_uint_until_comma m bytes c base field = Inr (n, c + length (show_nat n) + (if CHR '','' # r = [] then 0 else 1))"
    by (rule take_uint_ok [OF assms(1) _ assms(2-4)]) simp
  then have "take_uint_until_comma m bytes c base field = Inr (n, ?c)" by simp
  moreover have "drop ?c bytes = r"
    using arg_cong [OF assms(1), of "drop (length (show_nat n) + 1)"] by (simp add: add.commute add.left_commute)
  moreover have "?c \<le> length bytes"
    using arg_cong [OF assms(1), of length] assms(4) by simp
  ultimately show thesis by (rule that)
qed

lemma plain_line_read:
  assumes "length (rf_data f) \<le> 1785"
    "\<And>ts. rf_timestamp f = Some ts \<Longrightarrow> normalize_timestamp ts \<noteq> [] \<and> CHR '','' \<notin> set (normalize_timestamp ts)"
  shows "plain_parse_line (plain_write_line f) =
    Inr (f\<lparr>rf_timestamp := map_option normalize_timestamp (rf_timestamp f)\<rparr>)"
proof -
  define ts where "ts = (case rf_timestamp f of Some ts \<Rightarrow> normalize_timestamp ts | None \<Rightarrow> [])"
  have ts: "CHR '','' \<notin> set ts" "(if ts = [] then None else Some ts) = map_option normalize_timestamp (rf_timestamp f)"
    using assms(2) by (auto simp: ts_def split: option.split)
  define rest where "rest = show_nat (unat (rf_prio f)) @ CHR '','' # show_nat (unat (rf_pgn f)) @ CHR '','' #
    show_nat (unat (rf_src f)) @ CHR '','' # show_nat (unat (rf_dst f)) @ CHR '','' # plain_tail f"
  have w: "plain_write_line f = ts @ CHR '','' # rest"
    by (simp add: plain_write_line_def ts_def rest_def plain_tail_def)
  have l: "is_hex (last (plain_write_line f))" using plain_tail_last [of f] by (simp add: w rest_def)
  have trim: "trim_newlines (plain_write_line f) = plain_write_line f"
    by (rule trim_newlines_id) (use l hex_not_newline in \<open>auto simp: w\<close>)
  have so: "split_once CHR '','' (plain_write_line f) = Some (ts, rest)" unfolding w by (rule split_once_append [OF ts(1)])
  have ne: "plain_write_line f \<noteq> []" by (simp add: w)
  let ?base = "length ts + 1"
  have u: "unat (rf_prio f) \<le> 255" "unat (rf_pgn f) \<le> 2 ^ 32 - 1" "unat (rf_src f) \<le> 255" "unat (rf_dst f) \<le> 255"
    using unsigned_less [of "rf_prio f", where 'a = nat] unsigned_less [of "rf_pgn f", where 'a = nat]
      unsigned_less [of "rf_src f", where 'a = nat] unsigned_less [of "rf_dst f", where 'a = nat] by simp_all
  have "drop 0 rest = show_nat (unat (rf_prio f)) @ CHR '','' # show_nat (unat (rf_pgn f)) @ CHR '','' #
    show_nat (unat (rf_src f)) @ CHR '','' # show_nat (unat (rf_dst f)) @ CHR '','' # plain_tail f"
    by (simp add: rest_def)
  from this u(1) _ le0 obtain c1 where c1: "take_uint_until_comma 255 rest 0 ?base ''prio'' = Inr (unat (rf_prio f), c1)"
    and d1: "drop c1 rest = show_nat (unat (rf_pgn f)) @ CHR '','' #
      show_nat (unat (rf_src f)) @ CHR '','' # show_nat (unat (rf_dst f)) @ CHR '','' # plain_tail f" and l1: "c1 \<le> length rest"
    by (rule take_uint_field) simp
  from d1 u(2) _ l1 obtain c2 where c2: "take_uint_until_comma (2 ^ 32 - 1) rest c1 ?base ''pgn'' = Inr (unat (rf_pgn f), c2)"
    and d2: "drop c2 rest = show_nat (unat (rf_src f)) @ CHR '','' # show_nat (unat (rf_dst f)) @ CHR '','' # plain_tail f"
    and l2: "c2 \<le> length rest" by (rule take_uint_field) simp
  from d2 u(3) _ l2 obtain c3 where c3: "take_uint_until_comma 255 rest c2 ?base ''src'' = Inr (unat (rf_src f), c3)"
    and d3: "drop c3 rest = show_nat (unat (rf_dst f)) @ CHR '','' # plain_tail f"
    and l3: "c3 \<le> length rest" by (rule take_uint_field) simp
  from d3 u(4) _ l3 obtain c4 where c4: "take_uint_until_comma 255 rest c3 ?base ''dst'' = Inr (unat (rf_dst f), c4)"
    and d4: "drop c4 rest = plain_tail f" and l4: "c4 \<le> length rest" by (rule take_uint_field) simp
  obtain c5 where c5: "take_uint_until_comma (2 ^ 64 - 1) rest c4 ?base ''len'' = Inr (length (rf_data f), c5)"
    and p: "payload_loop (drop c5 rest) (?base + c5) (length (rf_data f)) 0 [] = Inr (rf_data f)"
    using plain_tail_parsed [OF d4 assms(1) l4] by blast
  have size: "\<not> length (rf_data f) > RAWFRAME_MAX_SIZE" using assms(1) by (simp add: RAWFRAME_MAX_SIZE_def)
  show ?thesis
    unfolding plain_parse_line_def trim Let_def so ts(2) [symmetric]
    using ne size by (simp only: if_False if_True option.case prod.case c1 c2 c3 c4 c5 p and_then_simps) simp
qed

text \<open>
  A frame written as a PLAIN or FAST line is read back with the same header and data and its normalised time
  stamp, for every payload of at most 1785 bytes, as long as the time stamp holds no comma and is not empty.
\<close>

theorem plain_roundtrip:
  assumes "length (rf_data f) \<le> 1785"
    "\<And>ts. rf_timestamp f = Some ts \<Longrightarrow> normalize_timestamp ts \<noteq> [] \<and> CHR '','' \<notin> set (normalize_timestamp ts)"
  shows "plain_parse_line (plain_write_line f) =
    Inr (f\<lparr>rf_timestamp := map_option normalize_timestamp (rf_timestamp f)\<rparr>)"
  by (rule plain_line_read) (use assms in auto)

theorem plain_roundtrip_witness:
  "plain_parse_line (plain_write_line \<lparr>rf_timestamp = Some ''2011-04-25-06:25:03.603'', rf_prio = 3, rf_pgn = 129029,
      rf_src = 36, rf_dst = 255, rf_data = [0xe6, 0xf1]\<rparr>) =
   Inr \<lparr>rf_timestamp = Some ''2011-04-25T06:25:03.603Z'', rf_prio = 3, rf_pgn = 129029,
      rf_src = 36, rf_dst = 255, rf_data = [0xe6, 0xf1]\<rparr>"
proof -
  have n: "normalize_timestamp ''2011-04-25-06:25:03.603'' = ''2011-04-25T06:25:03.603Z''" by code_simp
  show ?thesis
    using plain_roundtrip [of "\<lparr>rf_timestamp = Some ''2011-04-25-06:25:03.603'', rf_prio = 3, rf_pgn = 129029,
      rf_src = 36, rf_dst = 255, rf_data = [0xe6, 0xf1]\<rparr>"] by (simp add: n)
qed

subsection \<open>Bounds\<close>

text \<open>An error points at most \<open>n\<close> bytes into the line, a result has the property \<open>P\<close>.\<close>

definition within :: "nat \<Rightarrow> parse_error + 'a \<Rightarrow> ('a \<Rightarrow> bool) \<Rightarrow> bool" where
  "within n r P \<longleftrightarrow>
     (case r of Inl e \<Rightarrow> (case byte_offset e of Some k \<Rightarrow> k \<le> n | None \<Rightarrow> True) | Inr a \<Rightarrow> P a)"

lemma within_and_then:
  "within n r P \<Longrightarrow> (\<And>a. P a \<Longrightarrow> within n (f a) Q) \<Longrightarrow> within n (and_then r f) Q"
  by (cases r) (simp_all add: within_def)

lemma take_uint_within:
  assumes "c \<le> length b" "base + length b \<le> n"
  shows "within n (take_uint_until_comma m b c base field) (\<lambda>(v, c'). c' \<le> length b)"
proof -
  let ?s = "skip_spaces b c"
  have s: "?s \<le> length b" using skip_spaces_bound [OF assms(1)] by simp
  let ?e = "?s + length (takeWhile is_digit (drop ?s b))"
  have e: "?e \<le> length b" using s length_takeWhile_le [of is_digit "drop ?s b"] by simp
  have "skip_comma b (skip_spaces b ?e) \<le> length b" using skip_comma_bound skip_spaces_bound [OF e] by simp
  then show ?thesis using s assms(2) by (simp add: take_uint_until_comma_def Let_def byte_offset_def within_def)
qed

lemma payload_loop_within:
  "i \<le> length b \<Longrightarrow> off + length b \<le> k \<Longrightarrow> within k (payload_loop b off n i acc) (\<lambda>data. length data \<le> length acc + n)"
proof (induction b off n i acc rule: payload_loop.induct)
  case (2 b off n i acc)
  let ?s = "skip_spaces b i"
  have s: "?s \<le> length b" using skip_spaces_bound [OF 2(2)] by simp
  show ?case
  proof (cases "length b \<le> i \<or> ?s + 2 > length b \<or> hex_nibble (b ! ?s) = 0xff \<or> hex_nibble (b ! (?s + 1)) = 0xff")
    case True
    then show ?thesis using s 2(3) by (auto simp: Let_def byte_offset_def within_def)
  next
    case False
    then have le: "?s + 2 \<le> length b" by simp
    have "skip_comma b (skip_spaces b (?s + 2)) \<le> length b"
      using skip_comma_bound skip_spaces_bound [OF le] by simp
    with 2(1) [OF _ refl _ refl refl] False 2(3) show ?thesis by (simp add: Let_def within_def split: sum.splits)
  qed
qed (simp add: within_def)

lemma payload_within:
  assumes "c \<le> length rest" "base + length rest \<le> n" "\<And>data. rf_data (G data) = data"
  shows "within n (if len > RAWFRAME_MAX_SIZE then Inl (LengthTooLarge len)
      else and_then (payload_loop (drop c rest) (base + c) len 0 []) (\<lambda>data.
        if length data \<noteq> len then Inl (BadPayloadCount len (length data)) else Inr (G data)))
    (\<lambda>f. length (rf_data f) \<le> 1785)"
proof (cases "len > RAWFRAME_MAX_SIZE")
  case False
  have "within n (payload_loop (drop c rest) (base + c) len 0 []) (\<lambda>data. length data \<le> length ([] :: u8 list) + len)"
    by (rule payload_loop_within) (use assms in simp_all)
  then have "within n (and_then (payload_loop (drop c rest) (base + c) len 0 []) (\<lambda>data.
        if length data \<noteq> len then Inl (BadPayloadCount len (length data)) else Inr (G data)))
    (\<lambda>f. length (rf_data f) \<le> 1785)"
    by (rule within_and_then) (use False assms(3) in \<open>simp add: within_def byte_offset_def RAWFRAME_MAX_SIZE_def\<close>)
  then show ?thesis using False by simp
qed (simp add: within_def byte_offset_def)

lemma trim_newlines_length: "length (trim_newlines s) \<le> length s"
  using length_dropWhile_le [of "\<lambda>c. c = CHR 0x0D \<or> c = CHR 0x0A" "rev s"] by (simp add: trim_newlines_def)

lemma split_once_SomeD: "split_once d s = Some (a, b) \<Longrightarrow> s = a @ d # b"
  by (induction s arbitrary: a b) (auto split: if_splits option.splits)

text \<open>
  C32: Whatever the input, the PLAIN parser stays in bounds: an error that carries a byte offset points into the line
  (or at its end), and a frame it accepts has at most 1785 data bytes.
\<close>

theorem plain_parse_in_bounds:
  "case plain_parse_line s of
     Inl e \<Rightarrow> (case byte_offset e of Some n \<Rightarrow> n \<le> length s | None \<Rightarrow> True)
   | Inr f \<Rightarrow> length (rf_data f) \<le> 1785"
proof -
  let ?line = "trim_newlines s"
  have "within (length s) (plain_parse_line s) (\<lambda>f. length (rf_data f) \<le> 1785)"
  proof (cases "?line = [] \<or> split_once CHR '','' ?line = None")
    case True
    then show ?thesis
      by (elim disjE) (simp_all add: plain_parse_line_def Let_def within_def byte_offset_def)
  next
    case False
    then obtain ts rest where so: "split_once CHR '','' ?line = Some (ts, rest)" and ne: "?line \<noteq> []" by auto
    have len: "length ts + 1 + length rest \<le> length s"
      using split_once_SomeD [OF so] trim_newlines_length [of s] by simp
    note T = take_uint_within [where n = "length s", OF _ len]
    show ?thesis
      unfolding plain_parse_line_def Let_def so option.case prod.case if_not_P [OF ne]
      by (rule within_and_then [OF T [OF le0]], clarify, rule within_and_then [OF T], assumption, clarify,
          rule within_and_then [OF T], assumption, clarify, rule within_and_then [OF T], assumption, clarify,
          rule within_and_then [OF T], assumption, clarify, rule payload_within [OF _ len], simp_all)
  qed
  then show ?thesis by (simp add: within_def)
qed

end
