(* ===== verification/Actisense_Ascii.thy ===== *)
theory Actisense_Ascii
  imports Plain Can_Id
begin

section \<open>Actisense N2K ASCII lines (canboat-core/src/format/actisense\_ascii.rs)\<close>

definition bad_integer :: "string \<Rightarrow> string \<Rightarrow> parse_error" where
  "bad_integer field v = BadInteger field v None"

definition actisense_write_line :: "raw_frame \<Rightarrow> string" where
  "actisense_write_line f =
     (let tod = filter (\<lambda>c. c \<noteq> CHR '':'') (time_of_day (rf_timestamp f));
          sdp = push_bit 12 (ucast (rf_src f)) OR push_bit 4 (ucast (rf_dst f)) OR ucast (rf_prio f) :: u32
      in ''A'' @ tod @ '' '' @ show_hex True (unat sdp) @ '' '' @ show_hex True (unat (rf_pgn f)) @
         (if rf_data f = [] then [] else CHR '' '' # concat (map (show_byte True) (rf_data f))))"

definition format_actisense_timestamp :: "string \<Rightarrow> parse_error + string" where
  "format_actisense_timestamp rest =
     (let bad = bad_integer ''timestamp'' rest in
      and_then
        (case split_once CHR ''.'' rest of
           Some (time, frac) \<Rightarrow>
             if length time < 6 then Inl bad else Inr (slice 0 2 time, slice 2 4 time, slice 4 6 time, frac)
         | None \<Rightarrow>
             if length rest \<ge> 6 then Inr (slice 0 2 rest, slice 2 4 rest, slice 4 6 rest, ''000'') else Inl bad)
        (\<lambda>(h, mm, ss, frac).
           and_then (ok_or (parse_unsigned (2 ^ 32 - 1) h) bad) (\<lambda>_.
           and_then (ok_or (parse_unsigned (2 ^ 32 - 1) mm) bad) (\<lambda>_.
           and_then (ok_or (parse_unsigned (2 ^ 32 - 1) ss) bad) (\<lambda>_.
           and_then (ok_or (parse_unsigned (2 ^ 32 - 1) frac) bad) (\<lambda>ms.
             Inr (h @ '':'' @ mm @ '':'' @ ss @ '','' @ show_padded 3 (ms mod 1000))))))))"

text \<open>The data tokens: every token is a run of two-digit pairs.\<close>

fun actisense_pairs :: "string list \<Rightarrow> u8 list \<Rightarrow> parse_error + u8 list" where
  "actisense_pairs [] data = Inr data"
| "actisense_pairs (s # ss) data =
     (case parse_hex 255 s of
        None \<Rightarrow> Inl (BadHexByte (length data) s None)
      | Some b \<Rightarrow> actisense_pairs ss (data @ [word_of_nat b]))"

fun actisense_tokens :: "string list \<Rightarrow> u8 list \<Rightarrow> parse_error + u8 list" where
  "actisense_tokens [] data = Inr data"
| "actisense_tokens (t # ts) data =
     (if length t mod 2 \<noteq> 0 then Inl (BadHexByte (length data) t None)
      else and_then (actisense_pairs (chunks_of 2 t) data) (actisense_tokens ts))"

definition actisense_parse_line :: "string \<Rightarrow> parse_error + raw_frame" where
  "actisense_parse_line s =
     (let line = trim_newlines s in
      if line = [] then Inl Empty
      else case split_whitespace line of
        [] \<Rightarrow> Inl MissingTimestamp
      | ts_tok # toks \<Rightarrow>
          if \<not> starts_with ts_tok ''A'' \<or> length ts_tok < 7 then Inl (bad_integer ''timestamp'' ts_tok)
          else and_then (format_actisense_timestamp (drop 1 ts_tok)) (\<lambda>timestamp.
            case toks of
              [] \<Rightarrow> Inl (BadHeader 3 1)
            | sdp_tok # toks \<Rightarrow>
                and_then (ok_or (parse_hex (2 ^ 32 - 1) sdp_tok) (bad_integer ''sdp'' sdp_tok)) (\<lambda>sdp.
                  let sdp = word_of_nat sdp :: u32;
                      prio = ucast (sdp AND 0xf);
                      dst = ucast (drop_bit 4 sdp AND 0xff);
                      src = ucast (drop_bit 12 sdp AND 0xff)
                  in case toks of
                    [] \<Rightarrow> Inl (BadHeader 3 2)
                  | pgn_tok # toks \<Rightarrow>
                      and_then (ok_or (parse_hex (2 ^ 32 - 1) pgn_tok) (bad_integer ''pgn'' pgn_tok)) (\<lambda>pgn.
                      and_then (actisense_tokens toks []) (\<lambda>data.
                        Inr \<lparr>rf_timestamp = Some timestamp, rf_prio = prio, rf_pgn = word_of_nat pgn,
                             rf_src = src, rf_dst = dst, rf_data = data\<rparr>)))))"

subsection \<open>Round trip\<close>

text \<open>A clock time \<open>HH:MM:SS.mmm\<close> in normal form, and the comma the parser puts before the milliseconds.\<close>

definition clock_text :: "string \<Rightarrow> bool" where
  "clock_text s \<longleftrightarrow> normalize_time s = Some s"

definition comma_ms :: "string \<Rightarrow> string" where
  "comma_ms s = map (\<lambda>c. if c = CHR ''.'' then CHR '','' else c) s"

lemma clock_parts:
  assumes "clock_text s"
  obtains h m x f where "s = h @ '':'' @ m @ '':'' @ x @ ''.'' @ f" "length h = 2" "length m = 2" "length x = 2"
    "length f = 3" "list_all is_digit h" "list_all is_digit m" "list_all is_digit x" "list_all is_digit f"
  using assms unfolding clock_text_def by (rule normalize_time_shape) (rule that)

lemma sdp_fields:
  assumes "(prio :: u8) < 16" "sdp = (push_bit 12 (ucast (src :: u8)) OR push_bit 4 (ucast (dst :: u8)) OR ucast prio :: u32)"
  shows "ucast (sdp AND 0xf) = prio" "ucast (drop_bit 4 sdp AND 0xff) = dst" "ucast (drop_bit 12 sdp AND 0xff) = src"
proof -
  have m: "(0xf :: u32) = mask 4" by (simp add: mask_eq_exp_minus_1)
  have p: "bit prio k \<Longrightarrow> k < 4" for k by (rule bit_less_exp [of prio 4]) (use assms(1) in simp_all)
  have s: "bit sdp k \<longleftrightarrow> k < 32 \<and> (12 \<le> k \<and> bit src (k - 12) \<or> 4 \<le> k \<and> bit dst (k - 4) \<or> bit prio k)" for k
    unfolding assms(2) by (auto simp: bit_or_iff bit_push_bit_iff bit_ucast_u32 dest: bit_imp_le_length)
  show "ucast (sdp AND 0xf) = prio" unfolding m
    by (rule bit_word_eqI) (auto simp: bit_ucast_u8 bit_and_iff bit_mask_u32 s dest: p)
  show "ucast (drop_bit 4 sdp AND 0xff) = dst" unfolding pf_u8
    by (rule bit_word_eqI) (auto simp: bit_ucast_u8 bit_drop_bit_eq s add.commute dest: p bit_u8)
  show "ucast (drop_bit 12 sdp AND 0xff) = src" unfolding pf_u8
    by (rule bit_word_eqI) (auto simp: bit_ucast_u8 bit_drop_bit_eq s add.commute dest: p bit_u8)
qed

lemma actisense_stamp:
  assumes "length h = 2" "length m = 2" "length x = 2" "length f = 3" "list_all is_digit h" "list_all is_digit m"
    "list_all is_digit x" "list_all is_digit f"
  shows "format_actisense_timestamp (h @ m @ x @ ''.'' @ f) = Inr (h @ '':'' @ m @ '':'' @ x @ '','' @ f)"
proof -
  have dot: "CHR ''.'' \<notin> set (h @ m @ x)" using assms(5-7) by (auto simp: list_all_iff is_digit_def)
  have so: "split_once CHR ''.'' (h @ m @ x @ ''.'' @ f) = Some (h @ m @ x, f)"
    using split_once_append [OF dot, of f] by simp
  have sl: "slice 0 2 (h @ m @ x) = h" "slice 2 4 (h @ m @ x) = m" "slice 4 6 (h @ m @ x) = x" "length (h @ m @ x) = 6"
    using assms(1-3) by (simp_all add: slice_def)
  have p: "parse_unsigned 4294967295 s = Some (digits_value s)" if "list_all is_digit s" "length s \<le> 3" "s \<noteq> []" for s
  proof (rule parse_unsigned_digits [OF that(3,1)])
    have "(10 :: nat) ^ length s \<le> 10 ^ 3" by (rule power_increasing) (use that in simp_all)
    then show "digits_value s \<le> 4294967295" using digits_value_bound [OF that(1)] by simp
  qed
  have ne: "h \<noteq> []" "m \<noteq> []" "x \<noteq> []" "f \<noteq> []" using assms by auto
  have "digits_value f < 1000" using digits_value_bound [OF assms(8)] assms(4) by simp
  then have "show_padded 3 (digits_value f mod 1000) = f"
    using show_padded_digits_value [OF assms(4) _ assms(8)] by simp
  then show ?thesis
    unfolding format_actisense_timestamp_def Let_def so option.case prod.case sl
    using assms ne by (simp add: p)
qed

lemma actisense_pairs_ok:
  "actisense_pairs (map (show_byte True) bs) data = Inr (data @ bs)"
  by (induction bs arbitrary: data) simp_all

lemma length_show_bytes: "length (concat (map (show_byte up) bs)) = 2 * length bs"
  by (induction bs) simp_all

lemma hex_token: "list_all is_hex s \<Longrightarrow> list_all (\<lambda>c. \<not> is_space c) s"
  by (auto simp: list_all_iff hex_not_space)

lemma show_bytes_hex: "list_all is_hex (concat (map (show_byte up) bs))"
  by (induction bs) (simp_all add: show_byte_digits)

lemma join_snoc: "ts \<noteq> [] \<Longrightarrow> join sep (ts @ [t]) = join sep ts @ sep @ t"
  by (induction sep ts rule: join.induct) simp_all

lemma actisense_roundtrip:
  assumes "clock_text (time_of_day (rf_timestamp f))" "rf_prio f < 16"
  shows "actisense_parse_line (actisense_write_line f) =
    Inr (f\<lparr>rf_timestamp := Some (comma_ms (time_of_day (rf_timestamp f)))\<rparr>)"
proof -
  from assms(1) obtain h m x fr where t: "time_of_day (rf_timestamp f) = h @ '':'' @ m @ '':'' @ x @ ''.'' @ fr"
    and l: "length h = 2" "length m = 2" "length x = 2" "length fr = 3"
    and d: "list_all is_digit h" "list_all is_digit m" "list_all is_digit x" "list_all is_digit fr"
    by (rule clock_parts)
  define tod where "tod = h @ m @ x @ ''.'' @ fr"
  have colon: "filter (\<lambda>c. c \<noteq> CHR '':'') s = s" "map (\<lambda>c. if c = CHR ''.'' then CHR '','' else c) s = s"
    if "list_all is_digit s" for s
  proof -
    have "CHR '':'' \<notin> set s" "CHR ''.'' \<notin> set s"
      by (rule digit_set [OF that], simp add: is_digit_def)+
    then show "filter (\<lambda>c. c \<noteq> CHR '':'') s = s" "map (\<lambda>c. if c = CHR ''.'' then CHR '','' else c) s = s"
      by (auto simp: filter_id_conv intro!: map_idI)
  qed
  have tod: "filter (\<lambda>c. c \<noteq> CHR '':'') (time_of_day (rf_timestamp f)) = tod"
    by (simp add: t tod_def colon d)
  have cm: "comma_ms (time_of_day (rf_timestamp f)) = h @ '':'' @ m @ '':'' @ x @ '','' @ fr"
    by (simp add: comma_ms_def t colon d)
  define sdp where "sdp = (push_bit 12 (ucast (rf_src f)) OR push_bit 4 (ucast (rf_dst f)) OR ucast (rf_prio f) :: u32)"
  define hs where "hs = show_hex True (unat sdp)"
  define hp where "hp = show_hex True (unat (rf_pgn f))"
  define dt where "dt = (if rf_data f = [] then [] else [concat (map (show_byte True) (rf_data f))])"
  have w: "actisense_write_line f = join '' '' ((''A'' @ tod) # hs # hp # dt)"
    by (simp add: actisense_write_line_def Let_def tod sdp_def [symmetric] hs_def hp_def dt_def)
  have nsd: "list_all (\<lambda>c. \<not> is_space c) s" if "list_all is_digit s" for s
    using that digit_not_space by (auto simp: list_all_iff)
  have nst: "list_all (\<lambda>c. \<not> is_space c) (''A'' @ tod)"
    using d nsd by (simp add: tod_def is_space_def)
  have tok: "\<forall>s \<in> set ((''A'' @ tod) # hs # hp # dt). s \<noteq> [] \<and> list_all (\<lambda>c. \<not> is_space c) s"
  proof -
    have "hs \<noteq> [] \<and> list_all (\<lambda>c. \<not> is_space c) hs" "hp \<noteq> [] \<and> list_all (\<lambda>c. \<not> is_space c) hp"
      by (simp_all add: hs_def hp_def hex_token show_hex_digits)
    moreover have "concat (map (show_byte True) (rf_data f)) \<noteq> []" if "rf_data f \<noteq> []"
      using that by (cases "rf_data f") (simp_all add: show_byte_two)
    ultimately show ?thesis using nst by (auto simp: dt_def hex_token [OF show_bytes_hex])
  qed
  have last: "is_hex (last (actisense_write_line f))" "actisense_write_line f \<noteq> []"
  proof -
    have hpl: "is_hex (last hp)" using show_hex_digits [of True "unat (rf_pgn f)"]
      by (simp add: hp_def list_all_iff last_in_set)
    have "is_hex (last (concat (map (show_byte True) (rf_data f))))" if "rf_data f \<noteq> []"
      using that show_bytes_hex [of True "rf_data f"] length_show_bytes [of True "rf_data f"]
      by (metis last_in_set length_0_conv list_all_iff mult_is_0 zero_neq_numeral)
    moreover have "concat (map (show_byte True) (rf_data f)) \<noteq> []" if "rf_data f \<noteq> []"
      using that by (cases "rf_data f") (simp_all add: show_byte_two)
    ultimately show "is_hex (last (actisense_write_line f))"
      using hpl unfolding w by (auto simp: dt_def hp_def)
    show "actisense_write_line f \<noteq> []" unfolding w by simp
  qed
  have trim: "trim_newlines (actisense_write_line f) = actisense_write_line f"
    using last hex_not_newline by (intro trim_newlines_id) auto
  have sw: "split_whitespace (actisense_write_line f) = (''A'' @ tod) # hs # hp # dt"
    unfolding w by (rule split_whitespace_join [OF tok])
  have lt: "length tod = 10" using l by (simp add: tod_def)
  have st: "format_actisense_timestamp tod = Inr (comma_ms (time_of_day (rf_timestamp f)))"
    unfolding tod_def cm by (rule actisense_stamp [OF l d])
  have ps: "parse_hex (2 ^ 32 - 1) hs = Some (unat sdp)" "parse_hex (2 ^ 32 - 1) hp = Some (unat (rf_pgn f))"
    unfolding hs_def hp_def using unsigned_less [of sdp, where 'a = nat] unsigned_less [of "rf_pgn f", where 'a = nat]
    by (simp_all add: parse_show_hex)
  have dt: "actisense_tokens dt [] = Inr (rf_data f)"
    by (simp add: dt_def length_show_bytes chunks_show_bytes actisense_pairs_ok)
  note F = sdp_fields [OF assms(2) sdp_def]
  show ?thesis
    unfolding actisense_parse_line_def Let_def trim sw
    using last(2) lt st ps dt F by (simp add: starts_with_def)
qed

end
