(* ===== verification/Ydwg02.thy ===== *)
theory Ydwg02
  imports Actisense_Ascii Can_Id
begin

section \<open>Yacht Devices YDWG-02 lines (canboat-core/src/format/ydwg02.rs)\<close>

text \<open>The host clock the parser takes the date from is the argument \<open>now\<close>, in seconds since 1970.\<close>

definition ydwg02_write_line :: "raw_frame \<Rightarrow> string" where
  "ydwg02_write_line f =
     (let canid = iso11783_compose (rf_prio f) (rf_pgn f) (rf_src f) (rf_dst f)
      in time_of_day (rf_timestamp f) @ '' R '' @ show_hex_padded True 8 (unat canid) @
         concat (map (\<lambda>b. CHR '' '' # show_byte True b) (rf_data f)))"

definition synth_iso_timestamp :: "int \<Rightarrow> string \<Rightarrow> string" where
  "synth_iso_timestamp now time =
     (let (y, m, d) = days_to_ymd (now div 86400)
      in show_int_padded 4 y @ ''-'' @ show_padded 2 (nat m) @ ''-'' @ show_padded 2 (nat d) @ ''T'' @ time)"

fun ydwg02_bytes :: "nat \<Rightarrow> string list \<Rightarrow> parse_error + u8 list" where
  "ydwg02_bytes i [] = Inr []"
| "ydwg02_bytes i (t # ts) =
     (case parse_hex 255 t of
        None \<Rightarrow> Inl (BadHexByte i t None)
      | Some b \<Rightarrow> and_then (ydwg02_bytes (i + 1) ts) (\<lambda>bs. Inr (word_of_nat b # bs)))"

definition ydwg02_parse_line :: "int \<Rightarrow> string \<Rightarrow> parse_error + raw_frame" where
  "ydwg02_parse_line now s =
     (let line = trim_newlines s in
      if line = [] then Inl Empty
      else case split_whitespace line of
        [] \<Rightarrow> Inl MissingTimestamp
      | [time_tok] \<Rightarrow> Inl (BadHeader 3 1)
      | [time_tok, dir] \<Rightarrow> Inl (BadHeader 3 2)
      | time_tok # dir # canid_tok # toks \<Rightarrow>
          and_then (ok_or (parse_hex (2 ^ 32 - 1) canid_tok) (bad_integer ''canid'' canid_tok)) (\<lambda>canid.
            let (prio, pgn, src, dst) = iso11783_decompose (word_of_nat canid)
            in and_then (ydwg02_bytes 0 toks) (\<lambda>data.
                 Inr \<lparr>rf_timestamp = Some (synth_iso_timestamp now time_tok), rf_prio = prio, rf_pgn = pgn,
                      rf_src = src, rf_dst = dst, rf_data = data\<rparr>)))"

subsection \<open>Round trip\<close>

lemma join_concat: "join sep (t # ts) = t @ concat (map (\<lambda>s. sep @ s) ts)"
  by (induction ts arbitrary: t) simp_all

lemma ydwg02_bytes_ok: "ydwg02_bytes i (map (show_byte True) bs) = Inr bs"
  by (induction bs arbitrary: i) simp_all

lemma clock_no_space: "clock_text s \<Longrightarrow> s \<noteq> [] \<and> list_all (\<lambda>c. \<not> is_space c) s"
proof -
  assume "clock_text s"
  then obtain h m x f where s: "s = h @ '':'' @ m @ '':'' @ x @ ''.'' @ f"
    and "list_all is_digit h" "list_all is_digit m" "list_all is_digit x" "list_all is_digit f" by (rule clock_parts)
  then show ?thesis using digit_not_space by (auto simp: list_all_iff is_space_def)
qed

lemma last_join: "last t \<noteq> c \<Longrightarrow> t \<noteq> [] \<Longrightarrow> last (join sep (ts @ [t])) \<noteq> c"
  by (cases "ts = []") (simp_all add: join_snoc)

lemma ydwg02_roundtrip:
  assumes "clock_text (time_of_day (rf_timestamp f))" "canid_fields (rf_prio f) (rf_pgn f)"
  shows "ydwg02_parse_line now (ydwg02_write_line f) =
    Inr (f\<lparr>rf_timestamp := Some (synth_iso_timestamp now (time_of_day (rf_timestamp f))),
           rf_dst := (if is_pdu1 (rf_pgn f) then rf_dst f else 255)\<rparr>)"
proof -
  let ?tod = "time_of_day (rf_timestamp f)"
  define canid where "canid = iso11783_compose (rf_prio f) (rf_pgn f) (rf_src f) (rf_dst f)"
  define hid where "hid = show_hex_padded True 8 (unat canid)"
  define toks where "toks = ?tod # ''R'' # hid # map (show_byte True) (rf_data f)"
  have w: "ydwg02_write_line f = join '' '' toks"
    by (simp add: ydwg02_write_line_def Let_def toks_def join_concat canid_def hid_def comp_def)
  have hid: "list_all is_hex hid" "hid \<noteq> []" by (simp_all add: hid_def show_hex_padded_digits)
  have sb: "show_byte True b \<noteq> []" for b by (simp add: show_byte_two)
  have tok: "\<forall>s \<in> set toks. s \<noteq> [] \<and> list_all (\<lambda>c. \<not> is_space c) s"
    using clock_no_space [OF assms(1)] hex_token [OF hid(1)] hid(2) hex_token [OF show_byte_digits [of True]] sb
    by (auto simp: toks_def is_space_def)
  have "is_hex (last (last toks))"
  proof (cases "rf_data f" rule: rev_cases)
    case Nil
    then show ?thesis using hid by (simp add: toks_def list_all_iff)
  next
    case (snoc bs b)
    then show ?thesis using show_byte_digits [of True b] by (simp add: toks_def show_byte_two)
  qed
  then have "last (last toks) \<noteq> CHR 0x0D" "last (last toks) \<noteq> CHR 0x0A" using hex_not_newline by auto
  moreover have tn: "toks \<noteq> []" by (simp add: toks_def)
  then have tl: "toks = butlast toks @ [last toks]" "last toks \<noteq> []" using tok last_in_set [OF tn] by simp_all
  ultimately have "last (join '' '' toks) \<noteq> CHR 0x0D" "last (join '' '' toks) \<noteq> CHR 0x0A"
    using last_join [of "last toks" _ "'' ''" "butlast toks"] tn by simp_all
  moreover have ne: "join '' '' toks \<noteq> []" by (simp add: toks_def)
  ultimately have trim: "trim_newlines (ydwg02_write_line f) = ydwg02_write_line f"
    unfolding w by (intro trim_newlines_id)
  have sw: "split_whitespace (ydwg02_write_line f) = toks" unfolding w by (rule split_whitespace_join [OF tok])
  have id: "parse_hex (2 ^ 32 - 1) hid = Some (unat canid)" "word_of_nat (unat canid) = canid"
    unfolding hid_def using unsigned_less [of canid, where 'a = nat] by simp_all
  have dc: "iso11783_decompose canid = (rf_prio f, rf_pgn f, rf_src f, if is_pdu1 (rf_pgn f) then rf_dst f else 255)"
    unfolding canid_def by (rule compose_decompose [OF assms(2)])
  show ?thesis
    unfolding ydwg02_parse_line_def Let_def trim sw
    using ne id dc by (simp add: w toks_def ydwg02_bytes_ok)
qed

end
