(* ===== verification/Captures.thy ===== *)
theory Captures
  imports Ydwg02
begin

section \<open>Capture formats that are only read (chetco.rs, airmar.rs, garmin\_csv.rs)\<close>

subsection \<open>Chetco\<close>

definition format_comma_ms :: "nat \<Rightarrow> string" where
  "format_comma_ms tstamp_ms =
     (let secs = tstamp_ms div 1000; ms = tstamp_ms mod 1000; days = secs div 86400; day_seconds = secs mod 86400;
          h = day_seconds div 3600; m = (day_seconds div 60) mod 60; s = day_seconds mod 60;
          (y, mo, d) = days_to_ymd (int days)
      in show_int_padded 4 y @ ''-'' @ show_padded 2 (nat mo) @ ''-'' @ show_padded 2 (nat d) @ ''T'' @
         show_padded 2 h @ '':'' @ show_padded 2 m @ '':'' @ show_padded 2 s @ '','' @ show_padded 3 ms)"

text \<open>The loop over the pairs of the data column; it stops at \<open>want\<close> bytes.\<close>

fun hex_pairs :: "nat \<Rightarrow> nat \<Rightarrow> string list \<Rightarrow> parse_error + u8 list" where
  "hex_pairs want i [] = Inr []"
| "hex_pairs want i (c # cs) =
     (if i \<ge> want then Inr []
      else case parse_hex 255 c of
        None \<Rightarrow> Inl (BadHexByte i c None)
      | Some b \<Rightarrow> and_then (hex_pairs want (i + 1) cs) (\<lambda>bs. Inr (word_of_nat b # bs)))"

definition odd_digits :: "string \<Rightarrow> parse_error" where
  "odd_digits s = BadHexByte (length s div 2) [if s = [] then CHR '' '' else last s] None"

definition chetco_parse_line :: "string \<Rightarrow> parse_error + raw_frame" where
  "chetco_parse_line s =
     (let line = trim_newlines s in
      if line = [] then Inl Empty
      else case strip_prefix line ''$PCDIN,'' of
        None \<Rightarrow> Inl MissingTimestamp
      | Some rest \<Rightarrow>
         (case splitn 4 CHR '','' rest of
            [] \<Rightarrow> Inl (BadHeader 4 1)
          | [_] \<Rightarrow> Inl (BadHeader 4 2)
          | [_, _] \<Rightarrow> Inl (BadHeader 4 3)
          | [_, _, _] \<Rightarrow> Inl (BadHeader 4 4)
          | pgn_tok # tstamp_tok # src_tok # data_tok # _ \<Rightarrow>
              and_then (ok_or (parse_hex (2 ^ 32 - 1) pgn_tok) (bad_integer ''pgn'' pgn_tok)) (\<lambda>pgn.
              and_then (ok_or (parse_hex (2 ^ 64 - 1) (takeWhile is_hex tstamp_tok)) (bad_integer ''tstamp'' tstamp_tok)) (\<lambda>ms.
              and_then (ok_or (parse_hex 255 src_tok) (bad_integer ''src'' src_tok)) (\<lambda>src.
                let data_str = takeWhile (\<lambda>c. c \<noteq> CHR ''*'') data_tok in
                if length data_str mod 2 \<noteq> 0 then Inl (odd_digits data_str)
                else and_then (hex_pairs FASTPACKET_MAX_SIZE 0 (chunks_of 2 data_str)) (\<lambda>data.
                  Inr \<lparr>rf_timestamp = Some (format_comma_ms ms), rf_prio = 0, rf_pgn = word_of_nat pgn,
                       rf_src = word_of_nat src, rf_dst = 255, rf_data = data\<rparr>))))))"

subsection \<open>Airmar\<close>

text \<open>\<open>split\_once(" - ")\<close>.\<close>

fun split_at_dash :: "string \<Rightarrow> (string \<times> string) option" where
  "split_at_dash [] = None"
| "split_at_dash (c # s) =
     (if starts_with (c # s) '' - '' then Some ([], drop 3 (c # s))
      else case split_at_dash s of None \<Rightarrow> None | Some (a, b) \<Rightarrow> Some (c # a, b))"

text \<open>The inner loop over the comma pieces of a token, then the loop over the tokens.\<close>

fun airmar_pieces :: "string list \<Rightarrow> u8 list \<Rightarrow> parse_error + u8 list" where
  "airmar_pieces [] data = Inr data"
| "airmar_pieces (t # ts) data =
     (if length data \<ge> FASTPACKET_MAX_SIZE then Inr data
      else case parse_hex 255 t of
        None \<Rightarrow> Inl (BadHexByte (length data) t None)
      | Some b \<Rightarrow> airmar_pieces ts (data @ [word_of_nat b]))"

fun airmar_tokens :: "string list \<Rightarrow> u8 list \<Rightarrow> parse_error + u8 list" where
  "airmar_tokens [] data = Inr data"
| "airmar_tokens (t # ts) data =
     and_then (airmar_pieces (filter (\<lambda>p. p \<noteq> []) (split_on CHR '','' t)) data) (airmar_tokens ts)"

definition airmar_parse_line :: "string \<Rightarrow> parse_error + raw_frame" where
  "airmar_parse_line s =
     (let line = trim_newlines s in
      if line = [] then Inl Empty
      else case split_at_dash line of
        None \<Rightarrow> Inl (BadHeader 3 1)
      | Some (timestamp, rest) \<Rightarrow>
         (case split_whitespace rest of
            [] \<Rightarrow> Inl (BadHeader 3 2)
          | [_] \<Rightarrow> Inl (BadHeader 3 3)
          | _ # canid_tok # toks \<Rightarrow>
              and_then (ok_or (parse_hex (2 ^ 32 - 1) canid_tok) (bad_integer ''canid'' canid_tok)) (\<lambda>canid.
                let (prio, pgn, src, dst) = iso11783_decompose (word_of_nat canid)
                in and_then (airmar_tokens toks []) (\<lambda>data.
                     Inr \<lparr>rf_timestamp = Some timestamp, rf_prio = prio, rf_pgn = pgn, rf_src = src, rf_dst = dst,
                          rf_data = data\<rparr>))))"

subsection \<open>Garmin CSV\<close>

datatype garmin_variant = Relative | Absolute

datatype garmin_line = GarminFrame raw_frame | GarminHeader

definition CSV1_HEADER :: string where
  "CSV1_HEADER = ''Sequence #,Timestamp,PGN,Name,Manufacturer,Remote Address,Local Address,Priority,Single Frame,Size,Packet''"

definition CSV2_HEADER :: string where
  "CSV2_HEADER = ''Sequence #,Month_Day_Year_Hours_Minutes_Seconds_msTicks,PGN,Processed PGN,Name,Manufacturer,Remote Address,Local Address,Priority,Single Frame,Size,Packet''"

text \<open>The next column, or the header error with the number of columns found so far.\<close>

definition next_column :: "nat \<Rightarrow> string list \<Rightarrow> parse_error + string \<times> string list" where
  "next_column found parts = (case parts of [] \<Rightarrow> Inl (BadHeader 11 found) | p # ps \<Rightarrow> Inr (p, ps))"

definition column_uint :: "nat \<Rightarrow> string \<Rightarrow> string \<Rightarrow> parse_error + nat" where
  "column_uint m field tok = ok_or (parse_unsigned m tok) (bad_integer field tok)"

fun skip_columns :: "nat \<Rightarrow> nat \<Rightarrow> string list \<Rightarrow> parse_error + string list" where
  "skip_columns skipped 0 parts = Inr parts"
| "skip_columns skipped (Suc n) parts =
     and_then (next_column (3 + skipped) parts) (\<lambda>(_, parts). skip_columns (skipped + 1) n parts)"

text \<open>The pieces of the absolute time stamp are read one by one; the first that is missing or no number is the error.\<close>

fun stamp_fields :: "nat \<Rightarrow> string \<Rightarrow> string list \<Rightarrow> parse_error + nat list" where
  "stamp_fields 0 tok p = Inr []"
| "stamp_fields (Suc n) tok p =
     (let bad = bad_integer ''tstamp'' tok in
      case p of
        [] \<Rightarrow> Inl bad
      | x # xs \<Rightarrow>
          and_then (ok_or (parse_unsigned (if n = 0 then 2 ^ 64 - 1 else 2 ^ 32 - 1) x) bad) (\<lambda>v.
          and_then (stamp_fields n tok xs) (\<lambda>vs. Inr (v # vs))))"

definition format_absolute_timestamp :: "string \<Rightarrow> parse_error + string" where
  "format_absolute_timestamp tok =
     and_then (stamp_fields 7 tok (split_on CHR ''_'' tok)) (\<lambda>v.
       Inr (show_padded 4 (v ! 2) @ ''-'' @ show_padded 2 (v ! 0) @ ''-'' @ show_padded 2 (v ! 1) @ ''T'' @
            show_padded 2 (v ! 3) @ '':'' @ show_padded 2 (v ! 4) @ '':'' @ show_padded 2 (v ! 5) @ '','' @
            show_padded 3 (v ! 6 mod 1000)))"

definition format_relative_timestamp :: "string \<Rightarrow> parse_error + string" where
  "format_relative_timestamp ms_str =
     and_then (column_uint (2 ^ 64 - 1) ''tstamp'' ms_str) (\<lambda>ms. Inr (format_comma_ms ms))"

definition garmin_packet :: "string \<Rightarrow> nat \<Rightarrow> parse_error + u8 list" where
  "garmin_packet packet_tok sz =
     (let hex_str = (case strip_prefix packet_tok ''0x'' of
            Some h \<Rightarrow> h
          | None \<Rightarrow> (case strip_prefix packet_tok ''0X'' of Some h \<Rightarrow> h | None \<Rightarrow> packet_tok))
      in if length hex_str mod 2 \<noteq> 0 then Inl (odd_digits hex_str)
         else hex_pairs (min sz FASTPACKET_MAX_SIZE) 0 (chunks_of 2 hex_str))"

definition garmin_parse_line :: "string \<Rightarrow> garmin_variant \<Rightarrow> parse_error + garmin_line" where
  "garmin_parse_line s variant =
     (let line = trim_newlines s in
      if line = [] then Inl Empty
      else if line = CSV1_HEADER \<or> line = CSV2_HEADER then Inr GarminHeader
      else and_then (next_column 0 (split_on CHR '','' line)) (\<lambda>(seq_tok, p).
        and_then (column_uint (2 ^ 32 - 1) ''seq'' seq_tok) (\<lambda>_.
        and_then (next_column 1 p) (\<lambda>(tstamp_tok, p).
        and_then (next_column 2 p) (\<lambda>(pgn_tok, p).
        and_then (column_uint (2 ^ 32 - 1) ''pgn'' pgn_tok) (\<lambda>pgn.
        and_then (skip_columns 0 (if variant = Absolute then 3 else 2) p) (\<lambda>p.
        and_then (next_column 5 p) (\<lambda>(src_tok, p).
        and_then (next_column 6 p) (\<lambda>(dst_tok, p).
        and_then (next_column 7 p) (\<lambda>(prio_tok, p).
        and_then (next_column 8 p) (\<lambda>(_, p).
        and_then (next_column 9 p) (\<lambda>(size_tok, p).
        and_then (next_column 10 p) (\<lambda>(packet_tok, _).
        and_then (column_uint 255 ''src'' src_tok) (\<lambda>src.
        and_then (column_uint 255 ''dst'' dst_tok) (\<lambda>dst.
        and_then (column_uint 255 ''prio'' prio_tok) (\<lambda>prio.
        and_then (column_uint (2 ^ 64 - 1) ''size'' size_tok) (\<lambda>sz.
        and_then (garmin_packet packet_tok sz) (\<lambda>data.
        and_then (if variant = Relative then format_relative_timestamp tstamp_tok
                  else format_absolute_timestamp tstamp_tok) (\<lambda>timestamp.
          Inr (GarminFrame \<lparr>rf_timestamp = Some timestamp, rf_prio = word_of_nat prio, rf_pgn = word_of_nat pgn,
                 rf_src = word_of_nat src, rf_dst = word_of_nat dst, rf_data = data\<rparr>))))))))))))))))))))"

end
