(* ===== verification/Base64.thy ===== *)
theory Base64
  imports Ascii
begin

section \<open>Base64 (canboat-core/src/format/ikonvert.rs)\<close>

text \<open>\<open>TABLE\<close> as a function of the 6-bit value.\<close>

definition b64_char :: "nat \<Rightarrow> char" where
  "b64_char v = char_of (if v < 26 then 65 + v else if v < 52 then 71 + v else if v < 62 then v - 4
     else if v = 62 then 43 else 47)"

definition b64_sextet :: "u32 \<Rightarrow> nat \<Rightarrow> char" where
  "b64_sextet n k = b64_char (unat (drop_bit k n AND 63))"

fun b64_encode :: "u8 list \<Rightarrow> string" where
  "b64_encode [] = []"
| "b64_encode [a] =
     (let n = push_bit 16 (ucast a) in [b64_sextet n 18, b64_sextet n 12, CHR ''='', CHR ''=''])"
| "b64_encode [a, b] =
     (let n = push_bit 16 (ucast a) OR push_bit 8 (ucast b)
      in [b64_sextet n 18, b64_sextet n 12, b64_sextet n 6, CHR ''=''])"
| "b64_encode (a # b # c # rest) =
     (let n = push_bit 16 (ucast a) OR push_bit 8 (ucast b) OR ucast c
      in [b64_sextet n 18, b64_sextet n 12, b64_sextet n 6, b64_sextet n 0] @ b64_encode rest)"

text \<open>The value of one character; the flag says that it was a padding character.\<close>

definition b64_value :: "char \<Rightarrow> (u8 \<times> bool) option" where
  "b64_value c =
     (let n = of_char c in
      if 65 \<le> n \<and> n \<le> 90 then Some (word_of_nat (n - 65), False)
      else if 97 \<le> n \<and> n \<le> 122 then Some (word_of_nat (n - 97 + 26), False)
      else if 48 \<le> n \<and> n \<le> 57 then Some (word_of_nat (n - 48 + 52), False)
      else if n = 43 then Some (62, False)
      else if n = 47 then Some (63, False)
      else if n = (61 :: nat) then Some (0, True)
      else None)"

text \<open>The loop over the groups of four: the bytes pushed and the padding characters counted.\<close>

definition b64_group :: "u8 \<Rightarrow> u8 \<Rightarrow> u8 \<Rightarrow> u8 \<Rightarrow> u8 list" where
  "b64_group a b c d =
     (let combined = push_bit 18 (ucast a) OR push_bit 12 (ucast b) OR push_bit 6 (ucast c) OR ucast d :: u32
      in [ucast (drop_bit 16 combined AND 0xff), ucast (drop_bit 8 combined AND 0xff), ucast (combined AND 0xff)])"

fun b64_groups :: "string \<Rightarrow> (u8 list \<times> nat) option" where
  "b64_groups (p # q # r # s # rest) =
     (case (b64_value p, b64_value q, b64_value r, b64_value s) of
        (Some (a, pa), Some (b, pb), Some (c, pc), Some (d, pd)) \<Rightarrow>
          (case b64_groups rest of
             None \<Rightarrow> None
           | Some (out, pad) \<Rightarrow>
               Some (b64_group a b c d @ out, (if pa then 1 else 0) + (if pb then 1 else 0) + (if pc then 1 else 0)
                 + (if pd then 1 else 0) + pad))
      | _ \<Rightarrow> None)"
| "b64_groups s = Some ([], 0)"

text \<open>
  \<open>out.len() - pad\<close> is a \<open>usize\<close> difference; when there are more padding characters than bytes it wraps and the truncation
  does nothing.
\<close>

definition b64_decode :: "string \<Rightarrow> u8 list option" where
  "b64_decode s0 =
     (let s = trim s0 in
      if s = [] then Some []
      else if length s mod 4 \<noteq> 0 then None
      else case b64_groups s of
        None \<Rightarrow> None
      | Some (out, pad) \<Rightarrow> Some (if pad > 0 \<and> pad \<le> length out then take (length out - pad) out else out))"

subsection \<open>Decoding inverts encoding\<close>

lemma b64_value_char: "v < 64 \<Longrightarrow> b64_value (b64_char v) = Some (word_of_nat v, False)"
proof -
  assume "v < 64"
  then consider "v < 26" | "26 \<le> v" "v < 52" | "52 \<le> v" "v < 62" | "v = 62" | "v = 63" by linarith
  then show ?thesis by cases (auto simp: b64_value_def b64_char_def Let_def)
qed

lemma b64_value_pad [simp]: "b64_value CHR ''='' = Some (0, True)"
  by (simp add: b64_value_def)

lemma b64_char_not_space: "v < 64 \<Longrightarrow> \<not> is_space (b64_char v)"
  by (auto simp: is_space_def b64_char_def)

lemma sextet_bound: "unat (w AND 63 :: u32) < 64"
proof -
  have m: "(63 :: u32) = mask 6" by (simp add: mask_eq_exp_minus_1)
  have "w AND 63 < 2 ^ 6" unfolding m by (rule and_mask_less') simp
  then show ?thesis by (simp add: word_less_nat_alt)
qed

lemma b64_value_sextet: "b64_value (b64_sextet n k) = Some (ucast (drop_bit k n AND 63), False)"
  unfolding b64_sextet_def using sextet_bound [of "drop_bit k n"] by (simp add: b64_value_char)

lemma b64_sextet_not_space: "\<not> is_space (b64_sextet n k)"
  unfolding b64_sextet_def by (rule b64_char_not_space [OF sextet_bound])

lemma bit_sextet: "bit (ucast (ucast (drop_bit k n AND 63 :: u32) :: u8) :: u32) j \<longleftrightarrow> j < 6 \<and> bit n (k + j)"
proof -
  have m: "(63 :: u32) = mask 6" by (simp add: mask_eq_exp_minus_1)
  show ?thesis unfolding m by (auto simp: bit_simps dest: bit_imp_le_length)
qed

definition low24 :: "u32 \<Rightarrow> bool" where
  "low24 n \<longleftrightarrow> (\<forall>k. bit n k \<longrightarrow> k < 24)"

lemma combine_sextets:
  assumes "low24 n"
  shows "push_bit 18 (ucast (ucast (drop_bit 18 n AND 63) :: u8)) OR push_bit 12 (ucast (ucast (drop_bit 12 n AND 63) :: u8))
    OR push_bit 6 (ucast (ucast (drop_bit 6 n AND 63) :: u8)) OR ucast (ucast (drop_bit 0 n AND 63) :: u8) = (n :: u32)"
proof (rule bit_word_eqI)
  fix j assume "j < LENGTH(32)"
  consider "j < 6" | i where "j = i + 6" "i < 6" | i where "j = i + 12" "i < 6" | i where "j = i + 18"
  proof -
    consider "j < 6" | "6 \<le> j" "j < 12" | "12 \<le> j" "j < 18" | "18 \<le> j" by linarith
    then show thesis
      by cases (use that(1) that(2) [of "j - 6"] that(3) [of "j - 12"] that(4) [of "j - 18"] in simp_all)
  qed
  then show "bit (push_bit 18 (ucast (ucast (drop_bit 18 n AND 63) :: u8)) OR push_bit 12 (ucast (ucast (drop_bit 12 n AND 63) :: u8))
    OR push_bit 6 (ucast (ucast (drop_bit 6 n AND 63) :: u8)) OR ucast (ucast (drop_bit 0 n AND 63) :: u8) :: u32) j = bit n j"
    proof cases
    case 4
    have "bit n (i + 18) \<Longrightarrow> i < 6 \<and> i < 14" for i using assms by (fastforce simp: low24_def)
    then show ?thesis using 4 assms
      by (auto simp: bit_or_iff bit_push_bit_iff bit_sextet bit_sextet [of 0, simplified] bit_drop_bit_eq add.commute)
  qed (use assms in \<open>auto simp: bit_or_iff bit_push_bit_iff bit_sextet bit_sextet [of 0, simplified] bit_drop_bit_eq add.commute\<close>)
qed

text \<open>A group decodes to the three bytes of its 24 bits.\<close>

lemma group_bytes:
  assumes "low24 n"
  shows "b64_group (ucast (drop_bit 18 n AND 63)) (ucast (drop_bit 12 n AND 63)) (ucast (drop_bit 6 n AND 63))
     (ucast (drop_bit 0 n AND 63)) = [ucast (drop_bit 16 n), ucast (drop_bit 8 n), ucast (n :: u32)]"
  unfolding b64_group_def Let_def combine_sextets [OF assms] by simp

lemma bytes_of_24:
  "ucast (drop_bit 16 (push_bit 16 (ucast a) OR push_bit 8 (ucast b) OR ucast c :: u32)) = (a :: u8)"
  "ucast (drop_bit 8 (push_bit 16 (ucast a) OR push_bit 8 (ucast b) OR ucast c :: u32)) = (b :: u8)"
  "ucast (push_bit 16 (ucast a) OR push_bit 8 (ucast b) OR ucast c :: u32) = (c :: u8)"
  by (rule bit_word_eqI, auto simp: bit_simps dest: bit_imp_le_length)+

lemma bits_of_24: "low24 (push_bit 16 (ucast (a :: u8)) OR push_bit 8 (ucast (b :: u8)) OR ucast (c :: u8))"
  by (auto simp: low24_def bit_simps dest: bit_imp_le_length)

lemma sextet_0:
  "ucast (drop_bit 0 (push_bit 16 (ucast (a :: u8)) OR push_bit 8 (ucast (b :: u8)) :: u32) AND 63) = (0 :: u8)"
  "ucast (drop_bit 0 (push_bit 16 (ucast (a :: u8)) :: u32) AND 63) = (0 :: u8)"
  "ucast (drop_bit 6 (push_bit 16 (ucast (a :: u8)) :: u32) AND 63) = (0 :: u8)"
proof -
  have m: "(63 :: u32) = mask 6" by (simp add: mask_eq_exp_minus_1)
  show "ucast (drop_bit 0 (push_bit 16 (ucast (a :: u8)) OR push_bit 8 (ucast (b :: u8)) :: u32) AND 63) = (0 :: u8)"
    "ucast (drop_bit 0 (push_bit 16 (ucast (a :: u8)) :: u32) AND 63) = (0 :: u8)"
    "ucast (drop_bit 6 (push_bit 16 (ucast (a :: u8)) :: u32) AND 63) = (0 :: u8)"
    unfolding m by (rule bit_word_eqI, auto simp: bit_simps)+
qed

lemma b64_groups_encode:
  "\<exists>out pad. b64_groups (b64_encode bs) = Some (out, pad) \<and> pad \<le> length out \<and> take (length out - pad) out = bs"
proof (induction bs rule: b64_encode.induct)
  case (2 a)
  let ?n = "push_bit 16 (ucast a) OR push_bit 8 (ucast (0 :: u8)) OR ucast (0 :: u8) :: u32"
  have n: "push_bit 16 (ucast a) = ?n" by simp
  have "b64_groups (b64_encode [a]) = Some (b64_group (ucast (drop_bit 18 ?n AND 63)) (ucast (drop_bit 12 ?n AND 63))
      (ucast (drop_bit 6 ?n AND 63)) (ucast (drop_bit 0 ?n AND 63)) @ [], 2)"
    using sextet_0(2,3) [of a] by (simp add: Let_def b64_value_sextet)
  then have e: "b64_groups (b64_encode [a]) = Some ([a, 0, 0], 2)"
    unfolding group_bytes [OF bits_of_24] bytes_of_24 append_Nil2 .
  show ?case unfolding e by simp
next
  case (3 a b)
  let ?n = "push_bit 16 (ucast a) OR push_bit 8 (ucast b) OR ucast (0 :: u8) :: u32"
  have "b64_groups (b64_encode [a, b]) = Some (b64_group (ucast (drop_bit 18 ?n AND 63)) (ucast (drop_bit 12 ?n AND 63))
      (ucast (drop_bit 6 ?n AND 63)) (ucast (drop_bit 0 ?n AND 63)) @ [], 1)"
    using sextet_0(1) [of a b] by (simp add: Let_def b64_value_sextet)
  then have e: "b64_groups (b64_encode [a, b]) = Some ([a, b, 0], 1)"
    unfolding group_bytes [OF bits_of_24] bytes_of_24 append_Nil2 .
  show ?case unfolding e by simp
next
  case (4 a b c rest)
  then obtain out pad where IH: "b64_groups (b64_encode rest) = Some (out, pad)" "pad \<le> length out"
    "take (length out - pad) out = rest" by blast
  let ?n = "push_bit 16 (ucast a) OR push_bit 8 (ucast b) OR ucast c :: u32"
  have "b64_groups (b64_encode (a # b # c # rest)) = Some (b64_group (ucast (drop_bit 18 ?n AND 63)) (ucast (drop_bit 12 ?n AND 63))
      (ucast (drop_bit 6 ?n AND 63)) (ucast (drop_bit 0 ?n AND 63)) @ out, pad)"
    by (simp add: Let_def b64_value_sextet IH(1))
  then have e: "b64_groups (b64_encode (a # b # c # rest)) = Some ([a, b, c] @ out, pad)"
    unfolding group_bytes [OF bits_of_24] bytes_of_24 .
  have "length ([a, b, c] @ out) - pad = length [a, b, c] + (length out - pad)" using IH(2) by simp
  then have "take (length ([a, b, c] @ out) - pad) ([a, b, c] @ out) = [a, b, c] @ rest"
    using IH(3) by simp
  then show ?case unfolding e using IH(2) by simp
qed simp

lemma b64_encode_length: "length (b64_encode bs) mod 4 = 0"
  by (induction bs rule: b64_encode.induct) (auto simp: Let_def)

lemma b64_encode_no_space: "list_all (\<lambda>c. \<not> is_space c) (b64_encode bs)"
proof -
  have "\<not> is_space CHR ''=''" by (simp add: is_space_def)
  then show ?thesis
    by (induction bs rule: b64_encode.induct) (auto simp: Let_def b64_sextet_not_space)
qed

lemma trim_no_space: "list_all (\<lambda>c. \<not> is_space c) s \<Longrightarrow> trim s = s"
proof -
  assume s: "list_all (\<lambda>c. \<not> is_space c) s"
  have "dropWhile is_space s = s" using s by (cases s) simp_all
  moreover have "dropWhile is_space (rev s) = rev s" using s by (cases s rule: rev_cases) simp_all
  ultimately show ?thesis by (simp add: trim_def trim_start_def trim_end_def)
qed

lemma b64_decode_encode: "b64_decode (b64_encode bs) = Some bs"
proof -
  obtain out pad where g: "b64_groups (b64_encode bs) = Some (out, pad)" "pad \<le> length out"
    "take (length out - pad) out = bs" using b64_groups_encode by blast
  then have "(if pad > 0 \<and> pad \<le> length out then take (length out - pad) out else out) = bs" by auto
  moreover have "b64_encode bs = [] \<Longrightarrow> bs = []" by (cases bs rule: b64_encode.cases) (auto simp: Let_def)
  ultimately show ?thesis
    using g(1) b64_encode_length [of bs] by (auto simp: b64_decode_def trim_no_space b64_encode_no_space Let_def)
qed

end
