(* ===== verification/Ikonvert_Lines.thy ===== *)
theory Ikonvert_Lines
  imports Base64 Actisense_Ascii
begin

section \<open>iKonvert sentences (canboat-core/src/format/ikonvert.rs)\<close>

text \<open>
  The received lines with their Base64 payload, the shorter lines sent to the device, and the network status frame made from
  the device's heartbeat.
\<close>

datatype ikonvert_line = IkFrame raw_frame | IkControl string | IkOther

definition ik_int :: "nat \<Rightarrow> string option \<Rightarrow> string \<Rightarrow> parse_error + nat" where
  "ik_int m raw field =
     (case raw of
        None \<Rightarrow> Inl (BadHeader 6 0)
      | Some s \<Rightarrow> ok_or (parse_unsigned m (trim s)) (bad_integer field s))"

definition field_at :: "'a list \<Rightarrow> nat \<Rightarrow> 'a option" where
  "field_at xs i = (if i < length xs then Some (xs ! i) else None)"

definition parse_n2k_line :: "string \<Rightarrow> parse_error + raw_frame" where
  "parse_n2k_line rest =
     (let it = splitn 6 CHR '','' rest in
      and_then (ik_int (2 ^ 32 - 1) (field_at it 0) ''pgn'') (\<lambda>pgn.
      and_then (ik_int 255 (field_at it 1) ''prio'') (\<lambda>prio.
      and_then (ik_int 255 (field_at it 2) ''src'') (\<lambda>src.
      and_then (ik_int 255 (field_at it 3) ''dst'') (\<lambda>dst.
      and_then (ok_or (field_at it 4) (BadHeader 6 4)) (\<lambda>ts.
      and_then (ok_or (field_at it 5) (BadHeader 6 5)) (\<lambda>b64.
      and_then (ok_or (b64_decode b64) (BadHexByte 0 b64 None)) (\<lambda>data.
        Inr \<lparr>rf_timestamp = Some ts, rf_prio = word_of_nat prio, rf_pgn = word_of_nat pgn,
             rf_src = word_of_nat src, rf_dst = word_of_nat dst, rf_data = data\<rparr>))))))))"

definition ikonvert_parse_line :: "string \<Rightarrow> parse_error + ikonvert_line" where
  "ikonvert_parse_line s =
     (let line = trim_newlines s in
      if line = [] then Inl Empty
      else case strip_prefix line ''!PDGY,'' of
        Some rest \<Rightarrow> and_then (parse_n2k_line rest) (\<lambda>f. Inr (IkFrame f))
      | None \<Rightarrow>
         (case strip_prefix line ''$PDGY,'' of
            Some rest \<Rightarrow> Inr (IkControl rest)
          | None \<Rightarrow> Inr IkOther))"

definition encode_tx_frame :: "raw_frame \<Rightarrow> string" where
  "encode_tx_frame f =
     ''!PDGY,'' @ show_nat (unat (rf_pgn f)) @ '','' @ show_nat (unat (rf_dst f)) @ '','' @ b64_encode (rf_data f) @
     [CHR 0x0D, CHR 0x0A]"

subsection \<open>Network status\<close>

definition IKONVERT_BEM :: u32 where
  "IKONVERT_BEM = 0x40100"

record network_status =
  ns_load_pct :: "u8 option"
  ns_errors :: "u32 option"
  ns_device_count :: "u8 option"
  ns_uptime_s :: "u32 option"
  ns_gateway_addr :: u8
  ns_rejected_tx :: "u32 option"

definition put_opt :: "nat \<Rightarrow> u8 list option \<Rightarrow> u8 list \<Rightarrow> u8 list" where
  "put_opt off v data = (case v of None \<Rightarrow> data | Some bs \<Rightarrow> overwrite off bs data)"

definition build_network_status :: "network_status \<Rightarrow> string option \<Rightarrow> raw_frame" where
  "build_network_status st timestamp =
     (let data = replicate 15 0xff;
          data = put_opt 0 (map_option (\<lambda>v. [v]) (ns_load_pct st)) data;
          data = put_opt 1 (map_option (le_bytes 4) (ns_errors st)) data;
          data = put_opt 5 (map_option (\<lambda>v. [v]) (ns_device_count st)) data;
          data = put_opt 6 (map_option (le_bytes 4) (ns_uptime_s st)) data;
          data = data[10 := ns_gateway_addr st];
          data = put_opt 11 (map_option (le_bytes 4) (ns_rejected_tx st)) data
      in \<lparr>rf_timestamp = timestamp, rf_prio = 7, rf_pgn = IKONVERT_BEM, rf_src = ns_gateway_addr st, rf_dst = 255,
          rf_data = data\<rparr>)"

text \<open>\<open>parse::<i32>\<close>.\<close>

definition parse_i32 :: "string \<Rightarrow> int option" where
  "parse_i32 s =
     (case s of
        [] \<Rightarrow> None
      | c # r \<Rightarrow>
          if c = CHR ''-'' then
            (if r = [] \<or> \<not> list_all is_digit r \<or> digits_value r > 2 ^ 31 then None
             else Some (- int (digits_value r)))
          else map_option int (parse_unsigned (2 ^ 31 - 1) s))"

definition parse_status_field :: "string option \<Rightarrow> int option" where
  "parse_status_field s =
     (case s of None \<Rightarrow> None | Some s \<Rightarrow> if s = [] then None else parse_i32 s)"

definition status_field :: "string list \<Rightarrow> nat \<Rightarrow> int \<Rightarrow> int" where
  "status_field fs i d = (case parse_status_field (field_at fs i) of Some v \<Rightarrow> v | None \<Rightarrow> d)"

definition synthesize_network_status :: "string \<Rightarrow> string \<Rightarrow> raw_frame option" where
  "synthesize_network_status body timestamp =
     (case strip_prefix body ''000000,'' of
        None \<Rightarrow> None
      | Some rest \<Rightarrow>
          if rest = '',,,,,'' then None
          else let fs = split_on CHR '','' rest;
                   load = status_field fs 0 0xff;
                   errors = status_field fs 1 (- 1);
                   count = status_field fs 2 0;
                   uptime = status_field fs 3 0;
                   addr = status_field fs 4 0;
                   rejected = status_field fs 5 0
               in Some (build_network_status
                    \<lparr>ns_load_pct = Some (word_of_int load), ns_errors = Some (word_of_int errors),
                     ns_device_count = (if count \<noteq> 0 then Some (word_of_int count) else None),
                     ns_uptime_s = (if uptime \<noteq> 0 then Some (word_of_int uptime) else None),
                     ns_gateway_addr = word_of_int addr,
                     ns_rejected_tx = (if rejected \<noteq> 0 then Some (word_of_int rejected) else None)\<rparr>
                    (Some timestamp)))"

definition TX_ONLINE_ALL :: string where
  "TX_ONLINE_ALL = ''$PDGY,N2NET_INIT,ALL'' @ [CHR 0x0D, CHR 0x0A]"

definition TX_ONLINE_NORMAL :: string where
  "TX_ONLINE_NORMAL = ''$PDGY,N2NET_INIT,NORMAL'' @ [CHR 0x0D, CHR 0x0A]"

definition TX_OFFLINE :: string where
  "TX_OFFLINE = ''$PDGY,N2NET_OFFLINE'' @ [CHR 0x0D, CHR 0x0A]"

definition TX_RESET :: string where
  "TX_RESET = ''$PDGY,N2NET_RESET'' @ [CHR 0x0D, CHR 0x0A]"

definition TX_LIMIT_OFF :: string where
  "TX_LIMIT_OFF = ''$PDGY,TX_LIMIT,OFF'' @ [CHR 0x0D, CHR 0x0A]"

subsection \<open>Lines of the device\<close>

lemma splitn_Cons: "d \<notin> set a \<Longrightarrow> splitn (Suc (Suc n)) d (a @ d # b) = a # splitn (Suc n) d b"
  by (simp add: split_once_append)

lemma trim_show_nat [simp]: "trim (show_nat n) = show_nat n"
  using show_nat_digits [of n] by (intro trim_no_space) (auto simp: list_all_iff digit_not_space)

lemma b64_chars: "c \<in> set (b64_encode bs) \<Longrightarrow> \<not> is_space c"
  using b64_encode_no_space [of bs] by (simp add: list_all_iff)

text \<open>
  The \<open>!PDGY\<close> line of a received frame (its time stamp any text without a comma) is parsed to that frame, whatever the number of
  data bytes; this includes that the Base64 decoder inverts the encoder.
\<close>

theorem ikonvert_line_read:
  assumes "CHR '','' \<notin> set ts"
  shows "ikonvert_parse_line (''!PDGY,'' @ show_nat (unat (rf_pgn f)) @ '','' @ show_nat (unat (rf_prio f)) @ '','' @
      show_nat (unat (rf_src f)) @ '','' @ show_nat (unat (rf_dst f)) @ '','' @ ts @ '','' @ b64_encode (rf_data f)) =
    Inr (IkFrame (f\<lparr>rf_timestamp := Some ts\<rparr>))"
proof -
  define rest where "rest = show_nat (unat (rf_pgn f)) @ CHR '','' # show_nat (unat (rf_prio f)) @ CHR '','' #
      show_nat (unat (rf_src f)) @ CHR '','' # show_nat (unat (rf_dst f)) @ CHR '','' # ts @ CHR '','' # b64_encode (rf_data f)"
  let ?line = "''!PDGY,'' @ rest"
  have lc: "last ?line = CHR '','' \<or> last ?line \<in> set (b64_encode (rf_data f))"
    by (cases "b64_encode (rf_data f) = []") (simp_all add: rest_def)
  have "\<not> is_space (last ?line)"
    using lc b64_chars by (auto simp: is_space_def)
  then have nl: "last ?line \<noteq> CHR 0x0D" "last ?line \<noteq> CHR 0x0A" by (auto simp: is_space_def)
  have tr: "trim_newlines ?line = ?line" by (rule trim_newlines_id) (use nl in simp_all)
  have sp: "splitn 6 CHR '','' rest = [show_nat (unat (rf_pgn f)), show_nat (unat (rf_prio f)), show_nat (unat (rf_src f)),
      show_nat (unat (rf_dst f)), ts, b64_encode (rf_data f)]"
  proof -
    have six: "(6 :: nat) = Suc (Suc (Suc (Suc (Suc (Suc 0)))))" by simp
    show ?thesis unfolding six rest_def
      by (simp only: splitn_Cons show_nat_no_comma assms not_False_eq_True splitn.simps(2))
  qed
  have u: "unat (rf_prio f) \<le> 255" "unat (rf_pgn f) \<le> 2 ^ 32 - 1" "unat (rf_src f) \<le> 255" "unat (rf_dst f) \<le> 255"
    using unsigned_less [of "rf_prio f", where 'a = nat] unsigned_less [of "rf_pgn f", where 'a = nat]
      unsigned_less [of "rf_src f", where 'a = nat] unsigned_less [of "rf_dst f", where 'a = nat] by simp_all
  have "parse_n2k_line rest = Inr (f\<lparr>rf_timestamp := Some ts\<rparr>)"
    unfolding parse_n2k_line_def sp using u by (simp add: field_at_def ik_int_def b64_decode_encode)
  moreover have "strip_prefix ?line ''!PDGY,'' = Some rest" by (simp add: strip_prefix_def starts_with_def)
  moreover have "?line \<noteq> []" by simp
  ultimately have "ikonvert_parse_line ?line = Inr (IkFrame (f\<lparr>rf_timestamp := Some ts\<rparr>))"
    unfolding ikonvert_parse_line_def Let_def tr by simp
  then show ?thesis by (simp add: rest_def)
qed

lemma ikonvert_line_read_witness:
  "ikonvert_parse_line (''!PDGY,'' @ show_nat 127257 @ '','' @ show_nat 3 @ '','' @ show_nat 35 @ '','' @ show_nat 255 @ '','' @ ''12.345'' @ '','' @ b64_encode [1, 2, 3]) =
   Inr (IkFrame \<lparr>rf_timestamp = Some ''12.345'', rf_prio = 3, rf_pgn = 127257, rf_src = 35, rf_dst = 255, rf_data = [1, 2, 3]\<rparr>)"
  using ikonvert_line_read [of "''12.345''" "\<lparr>rf_timestamp = None, rf_prio = 3, rf_pgn = 127257, rf_src = 35, rf_dst = 255, rf_data = [1, 2, 3]\<rparr>"]
  by simp

end
