(* ===== verification/Formats.thy ===== *)
theory Formats
  imports Captures Ikonvert_Lines
begin

section \<open>Format detection and dispatch (canboat-core/src/format/mod.rs)\<close>

datatype input_format =
    FmtPlain | FmtPlainMixFast | FmtActisenseAscii | FmtYdwg02 | FmtIkonvert | FmtAirmar | FmtChetco
  | FmtGarminCsv | FmtGarminCsv2

definition to_upper :: "string \<Rightarrow> string" where
  "to_upper s = map (\<lambda>c. let n = of_char c :: nat in if 97 \<le> n \<and> n \<le> 122 then char_of (n - 32) else c) s"

definition parse_format_header :: "string \<Rightarrow> input_format option" where
  "parse_format_header line =
     (case strip_prefix line ''# format='' of
        None \<Rightarrow> None
      | Some rest \<Rightarrow>
          let name = to_upper (trim rest) in
          if name = ''PLAIN'' \<or> name = ''PLAIN_OR_FAST'' then Some FmtPlain
          else if name = ''PLAIN_MIX_FAST'' then Some FmtPlainMixFast
          else if name = ''FAST'' then Some FmtPlain
          else if name = ''ACTISENSE'' \<or> name = ''ACTISENSE_ASCII'' then Some FmtActisenseAscii
          else if name = ''YDWG02'' then Some FmtYdwg02
          else if name = ''IKONVERT'' then Some FmtIkonvert
          else if name = ''AIRMAR'' then Some FmtAirmar
          else if name = ''CHETCO'' then Some FmtChetco
          else if name = ''GARMIN_CSV1'' \<or> name = ''GARMIN'' then Some FmtGarminCsv
          else if name = ''GARMIN_CSV2'' then Some FmtGarminCsv2
          else None)"

definition header_implies_coalesced :: "string \<Rightarrow> bool" where
  "header_implies_coalesced line =
     (case strip_prefix line ''# format='' of
        None \<Rightarrow> False
      | Some rest \<Rightarrow>
          to_upper (trim rest) \<notin> {''PLAIN'', ''PLAIN_OR_FAST'', ''PLAIN_MIX_FAST'', ''YDWG02''})"

definition looks_like_airmar :: "string \<Rightarrow> bool" where
  "looks_like_airmar line =
     (case position (\<lambda>c. c = CHR '' '') line of
        None \<Rightarrow> False
      | Some sp \<Rightarrow> field_at line (sp + 1) = Some CHR ''-'' \<or> field_at line (sp + 2) = Some CHR ''-'')"

definition looks_like_ydwg02 :: "string \<Rightarrow> bool" where
  "looks_like_ydwg02 b \<longleftrightarrow>
     length b \<ge> 13 \<and> is_digit (b ! 0) \<and> is_digit (b ! 1) \<and> b ! 2 = CHR '':'' \<and> is_digit (b ! 3)
     \<and> is_digit (b ! 4) \<and> b ! 5 = CHR '':'' \<and> is_digit (b ! 6) \<and> is_digit (b ! 7) \<and> b ! 8 = CHR ''.''"

definition detect :: "string \<Rightarrow> input_format option" where
  "detect line =
     (let t = trim_start line in
      if t = [] \<or> starts_with t ''#'' then None
      else if starts_with t ''!PDGY,'' \<or> starts_with t ''$PDGY,'' then Some FmtIkonvert
      else if starts_with t ''$PCDIN'' then Some FmtChetco
      else if starts_with t ''Sequence #,Timestamp,PGN,'' then Some FmtGarminCsv
      else if starts_with t ''Sequence #,Month_Day_Year_Hours_Minutes_Seconds_msTicks,'' then Some FmtGarminCsv2
      else if starts_with t ''A'' \<and> length t > 1 \<and> is_digit (t ! 1) then Some FmtActisenseAscii
      else if looks_like_ydwg02 t then Some FmtYdwg02
      else if looks_like_airmar t then Some FmtAirmar
      else if CHR '','' \<in> set t then Some FmtPlain
      else None)"

text \<open>\<open>now\<close> is the host clock, which only the YDWG-02 parser reads.\<close>

definition parse_with :: "int \<Rightarrow> input_format \<Rightarrow> string \<Rightarrow> parse_error + raw_frame option" where
  "parse_with now fmt line =
     (case fmt of
        FmtPlain \<Rightarrow> and_then (plain_parse_line line) (\<lambda>f. Inr (Some f))
      | FmtPlainMixFast \<Rightarrow> and_then (plain_parse_line line) (\<lambda>f. Inr (Some f))
      | FmtActisenseAscii \<Rightarrow> and_then (actisense_parse_line line) (\<lambda>f. Inr (Some f))
      | FmtYdwg02 \<Rightarrow> and_then (ydwg02_parse_line now line) (\<lambda>f. Inr (Some f))
      | FmtIkonvert \<Rightarrow>
          and_then (ikonvert_parse_line line) (\<lambda>r. case r of IkFrame f \<Rightarrow> Inr (Some f) | _ \<Rightarrow> Inr None)
      | FmtAirmar \<Rightarrow> and_then (airmar_parse_line line) (\<lambda>f. Inr (Some f))
      | FmtChetco \<Rightarrow> and_then (chetco_parse_line line) (\<lambda>f. Inr (Some f))
      | _ \<Rightarrow>
          and_then (garmin_parse_line line (if fmt = FmtGarminCsv2 then Absolute else Relative))
            (\<lambda>r. case r of GarminFrame f \<Rightarrow> Inr (Some f) | GarminHeader \<Rightarrow> Inr None))"

subsection \<open>Time stamps of the drivers\<close>

lemma stamp_time: "length Y = 4 \<Longrightarrow> length M = 2 \<Longrightarrow> length D = 2 \<Longrightarrow> length h = 2 \<Longrightarrow> length m = 2 \<Longrightarrow> length s = 2 \<Longrightarrow>
  length f = 3 \<Longrightarrow> slice 11 23 (stamp Y M D h m s f) = h @ '':'' @ m @ '':'' @ s @ ''.'' @ f"
  by (simp add: stamp_def slice_def)

lemma iso_clock:
  assumes "ms < 253402300800000"
  shows "is_canonical (format_iso ms)" "clock_text (time_of_day (Some (format_iso ms)))"
    "\<exists>c r. format_iso ms = c # r \<and> is_digit c" "CHR '','' \<notin> set (format_iso ms)" "CHR '' '' \<notin> set (format_iso ms)"
proof -
  obtain y mo d where ymd: "days_to_ymd (int (ms div 1000 div 86400)) = (y, mo, d)" by (metis prod_cases3)
  define tod where "tod = ms div 1000 mod 86400"
  note F = format_iso_stamp [OF assms ymd, folded tod_def]
  show c: "is_canonical (format_iso ms)" unfolding F(1) by (rule stamp_canonical [OF F(2)])
  have tod: "tod div 3600 < 24" "tod mod 3600 div 60 < 60" "tod mod 60 < 60"
    by (simp_all add: tod_def less_mult_imp_div_less)
  note P = F(2) [unfolded digit_parts_def]
  let ?t = "show_padded 2 (tod div 3600) @ '':'' @ show_padded 2 (tod mod 3600 div 60) @ '':'' @ show_padded 2 (tod mod 60) @
    ''.'' @ show_padded 3 (ms mod 1000)"
  have "slice 11 23 (format_iso ms) = ?t"
    unfolding F(1) by (rule stamp_time) (use P in simp_all)
  then have "time_of_day (Some (format_iso ms)) = ?t"
    using c by (simp add: time_of_day_def normalize_timestamp_def is_canonical_def)
  moreover have "normalize_time ?t = Some ?t"
    by (rule normalize_time_canonical) (use P tod in simp_all)
  ultimately show "clock_text (time_of_day (Some (format_iso ms)))" by (simp add: clock_text_def)
  obtain c r where "show_padded 4 (nat y) = c # r" using P by (cases "show_padded 4 (nat y)") auto
  then show "\<exists>c r. format_iso ms = c # r \<and> is_digit c"
    using P unfolding F(1) by (simp add: stamp_def)
  have nd: "x \<notin> set s" if "list_all is_digit s" "\<not> is_digit x" for s x using digit_set that by auto
  have "\<not> is_digit CHR '',''" "\<not> is_digit CHR '' ''" by (simp_all add: is_digit_def)
  then show "CHR '','' \<notin> set (format_iso ms)" "CHR '' '' \<notin> set (format_iso ms)"
    unfolding F(1) stamp_def using P nd by simp_all
qed

subsection \<open>Detection\<close>

lemma starts_with_Cons: "starts_with (c # s) (d # p) \<longleftrightarrow> c = d \<and> starts_with s p"
  by (simp add: starts_with_def)

lemma starts_with_Nil [simp]: "starts_with s []"
  by (simp add: starts_with_def)

lemma position_None: "c \<notin> set s \<Longrightarrow> position (\<lambda>x. x = c) s = None"
  by (induction s) auto

lemma digit_first:
  "is_digit c \<Longrightarrow> c \<noteq> CHR ''#'' \<and> c \<noteq> CHR ''!'' \<and> c \<noteq> CHR ''$'' \<and> c \<noteq> CHR ''S'' \<and> c \<noteq> CHR ''A'' \<and> \<not> is_space c"
  by (auto simp: is_digit_def is_space_def)

lemma detect_digit:
  assumes "t = c # r" "is_digit c"
  shows "detect t = (if looks_like_ydwg02 t then Some FmtYdwg02 else if looks_like_airmar t then Some FmtAirmar
    else if CHR '','' \<in> set t then Some FmtPlain else None)"
proof -
  have "trim_start t = t" using assms digit_first by (simp add: trim_start_def)
  then show ?thesis using digit_first [OF assms(2)] by (simp add: detect_def assms(1) starts_with_Cons)
qed

lemma detect_plain:
  assumes "rf_timestamp f = Some (format_iso ms)" "ms < 253402300800000"
  shows "detect (plain_write_line f) = Some FmtPlain"
proof -
  note I = iso_clock [OF assms(2)]
  have n: "normalize_timestamp (format_iso ms) = format_iso ms" using I(1) by (simp add: normalize_timestamp_def)
  obtain c r where cr: "format_iso ms = c # r" "is_digit c" using I(3) by blast
  define rest where "rest = drop (length (format_iso ms)) (plain_write_line f)"
  have w: "plain_write_line f = format_iso ms @ rest" "CHR '','' \<in> set rest" "CHR '' '' \<notin> set rest"
  proof -
    show e: "plain_write_line f = format_iso ms @ rest" by (simp add: rest_def plain_write_line_def assms(1) n)
    show "CHR '','' \<in> set rest" by (simp add: rest_def plain_write_line_def assms(1) n)
    have sp: "\<not> is_digit CHR '' ''" "\<not> is_hex CHR '' ''" by (simp_all add: is_digit_def is_hex_def hex_value_def)
    have "CHR '' '' \<notin> set (show_nat k)" for k using digit_set [OF show_nat_digits sp(1)] .
    moreover have "CHR '' '' \<notin> set (show_byte False b)" for b using hex_not_in [OF sp(2) show_byte_digits] .
    ultimately show "CHR '' '' \<notin> set rest" by (auto simp: rest_def plain_write_line_def assms(1) n)
  qed
  have len: "length (format_iso ms) = 24" "list_all is_digit (slice 0 4 (format_iso ms))"
    using I(1) by (simp_all add: is_canonical_def)
  then have "is_digit (format_iso ms ! 2)" by (auto simp: slice_def list_all_length)
  then have "plain_write_line f ! 2 \<noteq> CHR '':''" using len by (auto simp: w(1) nth_append is_digit_def)
  then have "\<not> looks_like_ydwg02 (plain_write_line f)" by (simp add: looks_like_ydwg02_def)
  moreover have "\<not> looks_like_airmar (plain_write_line f)"
    using w(1,3) I(5) by (simp add: looks_like_airmar_def position_None)
  ultimately show ?thesis
    using detect_digit [of "plain_write_line f" c "r @ rest"] cr w by simp
qed

lemma clock_first:
  assumes "clock_text s"
  shows "length s = 12" "\<exists>c r. s = c # r \<and> is_digit c" "is_digit (s ! 0)" "is_digit (s ! 1)" "s ! 2 = CHR '':''"
    "is_digit (s ! 3)" "is_digit (s ! 4)" "s ! 5 = CHR '':''" "is_digit (s ! 6)" "is_digit (s ! 7)" "s ! 8 = CHR ''.''"
proof -
  from assms obtain h m x f where s: "s = h @ '':'' @ m @ '':'' @ x @ ''.'' @ f" and l: "length h = 2" "length m = 2" "length x = 2"
    "length f = 3" and d: "list_all is_digit h" "list_all is_digit m" "list_all is_digit x" "list_all is_digit f"
    by (rule clock_parts)
  obtain a b c e g i where "h = [a, b]" "m = [c, e]" "x = [g, i]" using l(1-3) unfolding length_two by blast
  then show "length s = 12" "\<exists>c r. s = c # r \<and> is_digit c" "is_digit (s ! 0)" "is_digit (s ! 1)" "s ! 2 = CHR '':''"
    "is_digit (s ! 3)" "is_digit (s ! 4)" "s ! 5 = CHR '':''" "is_digit (s ! 6)" "is_digit (s ! 7)" "s ! 8 = CHR ''.''"
    using d l by (simp_all add: s)
qed

lemma detect_ydwg02:
  assumes "clock_text (time_of_day (rf_timestamp f))"
  shows "detect (ydwg02_write_line f) = Some FmtYdwg02"
proof -
  note C = clock_first [OF assms]
  define rest where "rest = drop 12 (ydwg02_write_line f)"
  have w: "ydwg02_write_line f = time_of_day (rf_timestamp f) @ rest" "rest \<noteq> []"
    using C(1) by (simp_all add: rest_def ydwg02_write_line_def Let_def)
  have "looks_like_ydwg02 (ydwg02_write_line f)"
    using C(1,3-11) w(2) unfolding looks_like_ydwg02_def w(1) by (simp add: nth_append Suc_le_eq)
  moreover obtain c r where "time_of_day (rf_timestamp f) = c # r" "is_digit c" using C(2) by blast
  ultimately show ?thesis using detect_digit [of "ydwg02_write_line f" c "r @ rest"] w by simp
qed

lemma detect_actisense:
  assumes "clock_text (time_of_day (rf_timestamp f))"
  shows "detect (actisense_write_line f) = Some FmtActisenseAscii"
proof -
  obtain c r where c: "time_of_day (rf_timestamp f) = c # r" "is_digit c" using clock_first(2) [OF assms] by blast
  have "c \<noteq> CHR '':''" using c(2) by (auto simp: is_digit_def)
  then have "\<exists>r. actisense_write_line f = CHR ''A'' # c # r" by (simp add: actisense_write_line_def Let_def c(1))
  then obtain r' where w: "actisense_write_line f = CHR ''A'' # c # r'" ..
  have "\<not> is_space CHR ''A''" by (simp add: is_space_def)
  then show ?thesis using c(2) by (simp add: detect_def w trim_start_def starts_with_Cons)
qed

text \<open>
  C30: What \<open>convert\<close> writes, its readers recognise and read back: for a frame with a driver's time stamp and fields a CAN
  identifier can carry, the PLAIN, Actisense and YDWG-02 lines are each detected as their format, and parsing gives the
  frame (Actisense keeps the time of day only, YDWG-02 takes the date from the clock, both as their formats say).
\<close>

theorem written_lines_detected:
  assumes "rf_timestamp f = Some (format_iso ms)" "ms < 253402300800000"
    "canid_fields (rf_prio f) (rf_pgn f)" "is_pdu1 (rf_pgn f) \<or> rf_dst f = 255" "length (rf_data f) \<le> 1785"
  shows "detect (plain_write_line f) = Some FmtPlain \<and> parse_with now FmtPlain (plain_write_line f) = Inr (Some f) \<and>
    detect (actisense_write_line f) = Some FmtActisenseAscii \<and>
    parse_with now FmtActisenseAscii (actisense_write_line f) =
      Inr (Some (f\<lparr>rf_timestamp := Some (comma_ms (time_of_day (rf_timestamp f)))\<rparr>)) \<and>
    detect (ydwg02_write_line f) = Some FmtYdwg02 \<and>
    parse_with now FmtYdwg02 (ydwg02_write_line f) =
      Inr (Some (f\<lparr>rf_timestamp := Some (synth_iso_timestamp now (time_of_day (rf_timestamp f)))\<rparr>))"
proof -
  note I = iso_clock [OF assms(2)]
  have clk: "clock_text (time_of_day (rf_timestamp f))" using I(2) assms(1) by simp
  have n: "normalize_timestamp (format_iso ms) = format_iso ms" using I(1) by (simp add: normalize_timestamp_def)
  have "plain_parse_line (plain_write_line f) = Inr f"
    using plain_line_read [OF assms(5)] assms(1) n I(3,4) by auto
  moreover have "rf_prio f < 16"
  proof -
    have "rf_prio f < 8" using assms(3) by (simp add: canid_fields_def)
    then show ?thesis by (rule order.strict_trans) simp
  qed
  moreover have "f\<lparr>rf_timestamp := x, rf_dst := (if is_pdu1 (rf_pgn f) then rf_dst f else 255)\<rparr> = f\<lparr>rf_timestamp := x\<rparr>" for x
    using assms(4) by auto
  ultimately show ?thesis
    using detect_plain [OF assms(1,2)] detect_actisense [OF clk] detect_ydwg02 [OF clk]
      actisense_roundtrip [OF clk] ydwg02_roundtrip [OF clk assms(3)]
    by (simp add: parse_with_def)
qed

theorem written_lines_detected_witness:
  "detect (plain_write_line \<lparr>rf_timestamp = Some (format_iso 1303712703603), rf_prio = 3, rf_pgn = 129029, rf_src = 36,
     rf_dst = 255, rf_data = [0xe6, 0xf1]\<rparr>) = Some FmtPlain"
  using written_lines_detected [of "\<lparr>rf_timestamp = Some (format_iso 1303712703603), rf_prio = 3, rf_pgn = 129029, rf_src = 36,
     rf_dst = 255, rf_data = [0xe6, 0xf1]\<rparr>" 1303712703603]
  by (simp add: canid_fields_def is_pdu1_def pgn_pf_def)

end
