(* ===== verification/Frame_Stream.thy ===== *)
theory Frame_Stream
  imports Formats Ebl
begin

section \<open>Streams of frames (canboat-io/src/stream.rs)\<close>

text \<open>
  The line reader with its format state, the EBL reader with its queue, the writers, and \<open>copy\<close>.  A byte source is the
  list of what its successive reads return; reads that fail are left out.
\<close>

subsection \<open>Line formats\<close>

text \<open>\<open>LineReader::next\_line\<close> over the remaining inp: the next line without its line ending.\<close>

definition next_line :: "string \<Rightarrow> (string \<times> string) option" where
  "next_line inp =
     (if inp = [] then None
      else case split_once CHR 0x0A inp of
        None \<Rightarrow> Some (trim_newlines inp, [])
      | Some (line, rest) \<Rightarrow> Some (trim_newlines (line @ [CHR 0x0A]), rest))"

lemma next_line_shorter: "next_line inp = Some (line, rest) \<Longrightarrow> length rest < length inp"
  by (auto simp: next_line_def dest!: split_once_SomeD split: if_splits option.splits)

record line_reader =
  lr_active :: "input_format option"
  lr_header_coalesced :: bool

definition line_reader_new :: line_reader where
  "line_reader_new = \<lparr>lr_active = None, lr_header_coalesced = False\<rparr>"

definition line_reader_with_format :: "input_format \<Rightarrow> line_reader" where
  "line_reader_with_format fmt = \<lparr>lr_active = Some fmt, lr_header_coalesced = False\<rparr>"

text \<open>What one line does: the new state and the frame it holds, if any.\<close>

definition header_line :: "line_reader \<Rightarrow> string \<Rightarrow> line_reader" where
  "header_line lr line =
     (case parse_format_header line of
        None \<Rightarrow> lr
      | Some fmt \<Rightarrow>
          let lr = (if lr_active lr = None then lr\<lparr>lr_active := Some fmt\<rparr> else lr)
          in if header_implies_coalesced line then lr\<lparr>lr_header_coalesced := True\<rparr> else lr)"

definition content_line :: "int \<Rightarrow> line_reader \<Rightarrow> string \<Rightarrow> line_reader \<times> raw_frame option" where
  "content_line now lr line =
     (let lr = (if lr_active lr = None
                then lr\<lparr>lr_active := (case detect line of Some f \<Rightarrow> Some f | None \<Rightarrow> Some FmtPlain)\<rparr> else lr)
      in (lr, case parse_with now (the (lr_active lr)) line of Inr (Some f) \<Rightarrow> Some f | _ \<Rightarrow> None))"

function read_frame :: "int \<Rightarrow> line_reader \<Rightarrow> string \<Rightarrow> raw_frame option \<times> line_reader \<times> string" where
  "read_frame now lr inp =
     (case next_line inp of
        None \<Rightarrow> (None, lr, inp)
      | Some (line, rest) \<Rightarrow>
          if line = [] then read_frame now lr rest
          else if starts_with line ''#'' then read_frame now (header_line lr line) rest
          else case content_line now lr line of
            (lr, Some f) \<Rightarrow> (Some f, lr, rest)
          | (lr, None) \<Rightarrow> read_frame now lr rest)"
  by pat_completeness auto
termination
  by (relation "measure (\<lambda>(_, _, inp). length inp)") (auto dest: next_line_shorter)

declare read_frame.simps [simp del]

lemma read_frame_shorter: "read_frame now lr inp = (Some f, lr', rest) \<Longrightarrow> length rest < length inp"
proof (induction now lr inp rule: read_frame.induct)
  case (1 now lr inp)
  show ?case
  proof (cases "next_line inp")
    case None
    then show ?thesis using 1(4) by (simp add: read_frame.simps [of now lr inp])
  next
    case (Some p)
    obtain line r where p: "p = (line, r)" by (cases p)
    have r: "length r < length inp" using Some p next_line_shorter by simp
    note IH = 1(1) [OF Some p [symmetric]] 1(2) [OF Some p [symmetric]] 1(3) [OF Some p [symmetric]]
    show ?thesis
      using 1(4) Some p r IH
      by (subst (asm) read_frame.simps) (auto split: if_splits prod.splits option.splits)
  qed
qed

subsection \<open>Copying\<close>

text \<open>\<open>copy\<close> from a line reader: the frames read, in order, up to the end of the inp.\<close>

function copy_lines :: "int \<Rightarrow> line_reader \<Rightarrow> string \<Rightarrow> raw_frame list" where
  "copy_lines now lr inp =
     (case read_frame now lr inp of
        (None, _, _) \<Rightarrow> []
      | (Some f, lr, rest) \<Rightarrow> f # copy_lines now lr rest)"
  by pat_completeness auto
termination
  by (relation "measure (\<lambda>(_, _, inp). length inp)") (auto dest: read_frame_shorter [OF sym])

declare copy_lines.simps [simp del]

definition plain_writer :: "raw_frame \<Rightarrow> string" where
  "plain_writer f = plain_write_line f @ [CHR 0x0A]"

definition text_writer_ydwg02 :: "raw_frame \<Rightarrow> string" where
  "text_writer_ydwg02 f = ydwg02_write_line f @ [CHR 0x0A]"

definition text_writer_actisense :: "raw_frame \<Rightarrow> string" where
  "text_writer_actisense f = actisense_write_line f @ [CHR 0x0A]"

subsection \<open>EBL\<close>

record ebl_reader =
  er_decoder :: ngt_decoder
  er_queue :: "raw_frame list"
  er_pending_ts :: "u64 option"
  er_eof :: bool

definition ebl_reader_new :: ebl_reader where
  "ebl_reader_new = \<lparr>er_decoder = ngt_decoder_with_ebl, er_queue = [], er_pending_ts = None, er_eof = False\<rparr>"

text \<open>One event of the decoder.\<close>

definition ebl_event :: "ngt_event \<Rightarrow> ebl_reader \<Rightarrow> ebl_reader" where
  "ebl_event ev r =
     (case ev of
        Header (ebl_header.Timestamp ms) \<Rightarrow> r\<lparr>er_pending_ts := Some ms\<rparr>
      | Message m \<Rightarrow>
          (case to_raw_frame m of
             None \<Rightarrow> r
           | Some f \<Rightarrow>
              (case er_pending_ts r of
                 Some ms \<Rightarrow> r\<lparr>er_pending_ts := None,
                              er_queue := er_queue r @ [f\<lparr>rf_timestamp := Some (format_iso (unat ms))\<rparr>]\<rparr>
               | None \<Rightarrow> r\<lparr>er_queue := er_queue r @ [f]\<rparr>))
      | _ \<Rightarrow> r)"

definition ebl_push :: "u8 list \<Rightarrow> ebl_reader \<Rightarrow> ebl_reader" where
  "ebl_push bytes r =
     (let (d, evs) = push_bytes (er_decoder r) bytes in fold ebl_event evs (r\<lparr>er_decoder := d\<rparr>))"

text \<open>\<open>read\_frame\<close> over the pending reads; an empty read, or none left, is the end of the file.\<close>

fun ebl_read_frame :: "ebl_reader \<Rightarrow> u8 list list \<Rightarrow> raw_frame option \<times> ebl_reader \<times> u8 list list" where
  "ebl_read_frame r [] =
     (case er_queue r of
        f # q \<Rightarrow> (Some f, r\<lparr>er_queue := q\<rparr>, [])
      | [] \<Rightarrow> (None, r\<lparr>er_eof := True\<rparr>, []))"
| "ebl_read_frame r (c # cs) =
     (case er_queue r of
        f # q \<Rightarrow> (Some f, r\<lparr>er_queue := q\<rparr>, c # cs)
      | [] \<Rightarrow>
          if er_eof r then (None, r, c # cs)
          else if c = [] then (None, r\<lparr>er_eof := True\<rparr>, cs)
          else ebl_read_frame (ebl_push c r) cs)"

subsection \<open>A PLAIN stream is read back\<close>

lemma iso_chars:
  assumes "ms < 253402300800000" "\<not> is_digit c" "c \<notin> set ''-T:.Z''"
  shows "c \<notin> set (format_iso ms)"
proof -
  obtain y mo d where ymd: "days_to_ymd (int (ms div 1000 div 86400)) = (y, mo, d)" by (metis prod_cases3)
  note F = format_iso_stamp [OF assms(1) ymd]
  have "c \<notin> set s" if "list_all is_digit s" for s using digit_set [OF that assms(2)] .
  then show ?thesis using F(2) assms(3) unfolding F(1) stamp_def digit_parts_def by simp
qed

lemma plain_chars:
  assumes "rf_timestamp f = Some (format_iso ms)" "ms < 253402300800000" "\<not> is_hex c" "c \<notin> set '',-T:.Z''"
  shows "c \<notin> set (plain_write_line f)"
proof -
  have n: "normalize_timestamp (format_iso ms) = format_iso ms"
    using iso_clock(1) [OF assms(2)] by (simp add: normalize_timestamp_def)
  have nd: "\<not> is_digit c" using assms(3) digit_is_hex by blast
  have "c \<notin> set (show_nat k)" for k using digit_set [OF show_nat_digits nd] .
  moreover have "c \<notin> set (show_byte False b)" for b using hex_not_in [OF assms(3) show_byte_digits] .
  moreover have "c \<notin> set (format_iso ms)" by (rule iso_chars) (use assms nd in auto)
  ultimately show ?thesis using assms(4) by (auto simp: plain_write_line_def assms(1) n)
qed

definition driver_frame :: "raw_frame \<Rightarrow> bool" where
  "driver_frame f \<longleftrightarrow> length (rf_data f) \<le> 1785 \<and>
     (\<exists>ms < 253402300800000. rf_timestamp f = Some (format_iso ms))"

lemma plain_next_line:
  assumes "driver_frame f"
  shows "next_line (plain_writer f @ rest) = Some (plain_write_line f, rest)"
    "plain_write_line f \<noteq> []" "\<not> starts_with (plain_write_line f) ''#''"
proof -
  obtain ms where ms: "ms < 253402300800000" "rf_timestamp f = Some (format_iso ms)"
    using assms by (auto simp: driver_frame_def)
  have "CHR 0x0A \<notin> set (plain_write_line f)" "CHR 0x0D \<notin> set (plain_write_line f)" "CHR ''#'' \<notin> set (plain_write_line f)"
    by (rule plain_chars [OF ms(2,1)], simp add: is_hex_def hex_value_def, simp)+
  note c = this
  then have "split_once CHR 0x0A (plain_write_line f @ CHR 0x0A # rest) = Some (plain_write_line f, rest)"
    by (intro split_once_append)
  moreover show ne: "plain_write_line f \<noteq> []" by (simp add: plain_write_line_def)
  have "trim_newlines (plain_write_line f @ [CHR 0x0A]) = trim_newlines (plain_write_line f)"
    by (simp add: trim_newlines_def)
  moreover have "trim_newlines (plain_write_line f) = plain_write_line f"
    by (rule trim_newlines_id [OF ne]) (use c last_in_set [OF ne] in metis)+
  ultimately show "next_line (plain_writer f @ rest) = Some (plain_write_line f, rest)"
    by (simp add: next_line_def plain_writer_def)
  show "\<not> starts_with (plain_write_line f) ''#''"
    using c(3) ne by (cases "plain_write_line f") (auto simp: starts_with_def)
qed

lemma plain_content:
  assumes "driver_frame f" "lr_active lr = None \<or> lr_active lr = Some FmtPlain"
  shows "content_line now lr (plain_write_line f) = (lr\<lparr>lr_active := Some FmtPlain\<rparr>, Some f)"
proof -
  obtain ms where ms: "ms < 253402300800000" "rf_timestamp f = Some (format_iso ms)" and l: "length (rf_data f) \<le> 1785"
    using assms(1) by (auto simp: driver_frame_def)
  have d: "detect (plain_write_line f) = Some FmtPlain" by (rule detect_plain [OF ms(2,1)])
  note I = iso_clock [OF ms(1)]
  have "normalize_timestamp (format_iso ms) = format_iso ms" using I(1) by (simp add: normalize_timestamp_def)
  then have "plain_parse_line (plain_write_line f) = Inr f" using plain_line_read [OF l] ms(2) I(3,4) by auto
  then have "parse_with now FmtPlain (plain_write_line f) = Inr (Some f)" by (simp add: parse_with_def)
  moreover have "lr = lr\<lparr>lr_active := Some FmtPlain\<rparr>" if "lr_active lr = Some FmtPlain" using that by simp
  ultimately show ?thesis using assms(2) d by (auto simp: content_line_def)
qed

text \<open>
  C29: Copying what the PLAIN writer wrote: the reader, with no format given, detects PLAIN at the first line and returns
  exactly the frames written, in order.
\<close>

theorem plain_stream_copied:
  assumes "\<forall>f \<in> set fs. length (rf_data f) \<le> 1785 \<and> (\<exists>ms < 253402300800000. rf_timestamp f = Some (format_iso ms))"
  shows "copy_lines now line_reader_new (concat (map plain_writer fs)) = fs"
proof -
  have "copy_lines now lr (concat (map plain_writer fs)) = fs"
    if "\<forall>f \<in> set fs. driver_frame f" "lr_active lr = None \<or> lr_active lr = Some FmtPlain" for lr fs
    using that
  proof (induction fs arbitrary: lr)
    case Nil
    show ?case by (simp add: copy_lines.simps read_frame.simps next_line_def)
  next
    case (Cons f fs)
    have df: "driver_frame f" using Cons.prems(1) by simp
    note N = plain_next_line(1) [OF df, of "concat (map plain_writer fs)"] plain_next_line(2,3) [OF df]
    have "read_frame now lr (concat (map plain_writer (f # fs))) =
        (Some f, lr\<lparr>lr_active := Some FmtPlain\<rparr>, concat (map plain_writer fs))"
      using N plain_content [OF df Cons.prems(2)] by (simp add: read_frame.simps [of now lr "plain_writer f @ _"])
    moreover have "copy_lines now (lr\<lparr>lr_active := Some FmtPlain\<rparr>) (concat (map plain_writer fs)) = fs"
      by (rule Cons.IH) (use Cons.prems(1) in simp_all)
    ultimately show ?case by (simp add: copy_lines.simps [of now lr])
  qed
  then show ?thesis using assms by (simp add: driver_frame_def line_reader_new_def)
qed

theorem plain_stream_copied_witness:
  "copy_lines 0 line_reader_new (concat (map plain_writer
     [\<lparr>rf_timestamp = Some (format_iso 5), rf_prio = 3, rf_pgn = 129029, rf_src = 36, rf_dst = 255, rf_data = [0xe6, 0xf1]\<rparr>])) =
   [\<lparr>rf_timestamp = Some (format_iso 5), rf_prio = 3, rf_pgn = 129029, rf_src = 36, rf_dst = 255, rf_data = [0xe6, 0xf1]\<rparr>]"
  by (rule plain_stream_copied) (auto intro!: exI [of _ 5])

subsection \<open>An EBL stream is read back however it is cut\<close>

text \<open>The frames a list of events stands for, given the time stamp that is pending.\<close>

fun frames_of :: "u64 option \<Rightarrow> ngt_event list \<Rightarrow> raw_frame list" where
  "frames_of p [] = []"
| "frames_of p (Header (ebl_header.Timestamp ms) # evs) = frames_of (Some ms) evs"
| "frames_of p (Message m # evs) =
     (case to_raw_frame m of
        None \<Rightarrow> frames_of p evs
      | Some f \<Rightarrow> (case p of Some ms \<Rightarrow> f\<lparr>rf_timestamp := Some (format_iso (unat ms))\<rparr> | None \<Rightarrow> f) # frames_of None evs)"
| "frames_of p (_ # evs) = frames_of p evs"

fun pending_of :: "u64 option \<Rightarrow> ngt_event list \<Rightarrow> u64 option" where
  "pending_of p [] = p"
| "pending_of p (Header (ebl_header.Timestamp ms) # evs) = pending_of (Some ms) evs"
| "pending_of p (Message m # evs) = pending_of (if to_raw_frame m = None then p else None) evs"
| "pending_of p (_ # evs) = pending_of p evs"

lemma fold_ebl_event:
  "fold ebl_event evs r =
     r\<lparr>er_queue := er_queue r @ frames_of (er_pending_ts r) evs, er_pending_ts := pending_of (er_pending_ts r) evs\<rparr>"
  by (induction "er_pending_ts r" evs arbitrary: r rule: frames_of.induct)
    (auto simp: ebl_event_def split: option.split)

lemma frames_of_append: "frames_of p (a @ b) = frames_of p a @ frames_of (pending_of p a) b"
  by (induction p a rule: frames_of.induct) (auto split: option.split)

lemma length_frames_of: "length (frames_of p evs) \<le> length evs"
  by (induction p evs rule: frames_of.induct) (auto split: option.split)

lemma length_events: "length (snd (push_bytes d bs)) \<le> length bs"
  by (induction bs arbitrary: d) (auto simp: Let_def case_prod_beta split: option.split intro: le_SucI)

lemma ebl_push_eq:
  "ebl_push c r = r\<lparr>er_decoder := fst (push_bytes (er_decoder r) c),
     er_queue := er_queue r @ frames_of (er_pending_ts r) (snd (push_bytes (er_decoder r) c)),
     er_pending_ts := pending_of (er_pending_ts r) (snd (push_bytes (er_decoder r) c))\<rparr>"
  by (simp add: ebl_push_def case_prod_beta fold_ebl_event)

lemma ebl_read_frame_smaller:
  "ebl_read_frame r cs = (Some f, r', cs') \<Longrightarrow>
   length (er_queue r') + length (concat cs') < length (er_queue r) + length (concat cs)"
proof (induction r cs rule: ebl_read_frame.induct)
  case (2 r c cs)
  show ?case
  proof (cases "er_queue r")
    case Nil
    then have "\<not> er_eof r" "c \<noteq> []" using 2(2) by (auto split: if_splits)
    moreover from this Nil have "ebl_read_frame (ebl_push c r) cs = (Some f, r', cs')" using 2(2) by simp
    moreover have "length (er_queue (ebl_push c r)) \<le> length c"
      using length_frames_of [of "er_pending_ts r" "snd (push_bytes (er_decoder r) c)"] length_events [of "er_decoder r" c]
      by (simp add: ebl_push_eq Nil)
    ultimately show ?thesis using 2(1) [OF Nil] Nil by fastforce
  qed (use 2(2) in auto)
qed (auto split: list.splits)

text \<open>\<open>copy\<close> from the EBL reader.\<close>

function copy_ebl :: "ebl_reader \<Rightarrow> u8 list list \<Rightarrow> raw_frame list" where
  "copy_ebl r cs =
     (case ebl_read_frame r cs of
        (None, _, _) \<Rightarrow> []
      | (Some f, r, cs) \<Rightarrow> f # copy_ebl r cs)"
  by pat_completeness auto
termination
  by (relation "measure (\<lambda>(r, cs). length (er_queue r) + length (concat cs))")
    (auto dest!: ebl_read_frame_smaller [OF sym])

declare copy_ebl.simps [simp del]

lemma ebl_read_frame_spec:
  assumes "\<not> er_eof r" "\<forall>c \<in> set cs. c \<noteq> []"
  shows "case ebl_read_frame r cs of
      (None, _, _) \<Rightarrow> er_queue r @ frames_of (er_pending_ts r) (snd (push_bytes (er_decoder r) (concat cs))) = []
    | (Some f, r', cs') \<Rightarrow> \<not> er_eof r' \<and> (\<forall>c \<in> set cs'. c \<noteq> []) \<and>
        er_queue r @ frames_of (er_pending_ts r) (snd (push_bytes (er_decoder r) (concat cs))) =
        f # er_queue r' @ frames_of (er_pending_ts r') (snd (push_bytes (er_decoder r') (concat cs')))"
  using assms
proof (induction r cs rule: ebl_read_frame.induct)
  case (2 r c cs)
  show ?case
  proof (cases "er_queue r")
    case Nil
    have e: "ebl_read_frame r (c # cs) = ebl_read_frame (ebl_push c r) cs" using Nil 2(2,3) by simp
    have q: "er_queue r @ frames_of (er_pending_ts r) (snd (push_bytes (er_decoder r) (concat (c # cs)))) =
        er_queue (ebl_push c r) @ frames_of (er_pending_ts (ebl_push c r)) (snd (push_bytes (er_decoder (ebl_push c r)) (concat cs)))"
      by (simp add: ebl_push_eq push_bytes_append case_prod_beta frames_of_append)
    have n: "\<not> er_eof (ebl_push c r)" using 2(2) by (simp add: ebl_push_eq)
    have "c \<noteq> []" using 2(3) by simp
    from 2(1) [OF Nil 2(2) this n] 2(3) show ?thesis unfolding e q by simp
  qed (use 2(2,3) in auto)
qed (auto split: list.splits)

lemma copy_ebl_spec:
  "\<not> er_eof r \<Longrightarrow> \<forall>c \<in> set cs. c \<noteq> [] \<Longrightarrow>
   copy_ebl r cs = er_queue r @ frames_of (er_pending_ts r) (snd (push_bytes (er_decoder r) (concat cs)))"
proof (induction r cs rule: copy_ebl.induct)
  case (1 r cs)
  obtain fo r' cs' where e: "ebl_read_frame r cs = (fo, r', cs')" by (metis prod_cases3)
  note S = ebl_read_frame_spec [OF 1(2,3), unfolded e]
  show ?case
  proof (cases fo)
    case None
    then show ?thesis using S by (simp add: copy_ebl.simps [of r cs] e)
  next
    case (Some f)
    have "copy_ebl r' cs' = er_queue r' @ frames_of (er_pending_ts r') (snd (push_bytes (er_decoder r') (concat cs')))"
      using 1(1) [OF e [symmetric] Some refl] S Some by simp
    then show ?thesis using S Some by (simp add: copy_ebl.simps [of r cs] e)
  qed
qed

text \<open>
  C28: An EBL log is read back whatever the sizes of the reads: copying from the EBL reader gives the frames that were
  encoded, in order, each with the time stamp its header carried (PGNs of at most 24 bits, at most 244 data bytes).
\<close>

theorem ebl_stream_copied:
  assumes "\<forall>f \<in> set fs. rf_pgn f < 2 ^ 24 \<and> length (rf_data f) \<le> 244"
    "\<forall>c \<in> set cs. c \<noteq> []" "concat cs = concat (map encode_frame fs)"
  shows "copy_ebl ebl_reader_new cs = map (\<lambda>f. f\<lparr>rf_timestamp := Some (format_iso (unat (frame_unix_ms f)))\<rparr>) fs"
proof -
  have "copy_ebl ebl_reader_new cs = frames_of None (snd (push_bytes ngt_decoder_with_ebl (concat (map encode_frame fs))))"
    using copy_ebl_spec [of ebl_reader_new cs] assms(2,3) by (simp add: ebl_reader_new_def)
  also have "\<dots> = frames_of None (concat (map (\<lambda>f. [Header (ebl_header.Timestamp (frame_unix_ms f)),
        Message \<lparr>nm_command = N2K_MSG_RECEIVED, nm_payload = ebl_payload f\<rparr>]) fs))"
    using ebl_log_events [OF _ _ assms(1), of ngt_decoder_with_ebl]
    by (simp add: ngt_decoder_with_ebl_def ngt_decoder_new_def in_step_def)
  also have "\<dots> = map (\<lambda>f. f\<lparr>rf_timestamp := Some (format_iso (unat (frame_unix_ms f)))\<rparr>) fs"
    using assms(1) by (induction fs) (simp_all add: ebl_payload_roundtrip)
  finally show ?thesis .
qed

theorem ebl_stream_copied_witness:
  "copy_ebl ebl_reader_new [encode_frame \<lparr>rf_timestamp = None, rf_prio = 3, rf_pgn = 127251, rf_src = 23, rf_dst = 255, rf_data = [0x10]\<rparr>] =
   [\<lparr>rf_timestamp = Some (format_iso 0), rf_prio = 3, rf_pgn = 127251, rf_src = 23, rf_dst = 255, rf_data = [0x10]\<rparr>]"
proof -
  let ?f = "\<lparr>rf_timestamp = None, rf_prio = 3, rf_pgn = 127251, rf_src = 23, rf_dst = 255, rf_data = [0x10]\<rparr> :: raw_frame"
  have "encode_frame ?f \<noteq> []" by (simp add: encode_frame_def)
  then show ?thesis using ebl_stream_copied [of "[?f]" "[encode_frame ?f]"] by (simp add: frame_unix_ms_def)
qed

end
