(* ===== verification/Text_Codec.thy ===== *)
theory Text_Codec
  imports Prelude
begin

section \<open>Text in payloads\<close>

text \<open>
  A Rust \<open>String\<close> as the list of its code points, with the conversions the sources use: \<open>as\_bytes\<close> (UTF-8),
  \<open>String::from\_utf8\_lossy\<close> and \<open>String::from\_utf16\_lossy\<close>, which put U+FFFD for each maximal ill-formed
  part, and \<open>trim\_string\_padding\<close> (canboat-core/src/decode.rs).
\<close>

type_synonym chars = "nat list"

definition is_scalar :: "nat \<Rightarrow> bool" where
  "is_scalar c \<longleftrightarrow> c < 0xD800 \<or> 0xE000 \<le> c \<and> c < 0x110000"

definition REPLACEMENT :: nat where "REPLACEMENT = 0xFFFD"

subsection \<open>UTF-8\<close>

definition utf8_char :: "nat \<Rightarrow> u8 list" where
  "utf8_char c =
     (if c < 0x80 then [word_of_nat c]
      else if c < 0x800 then [word_of_nat (0xC0 + c div 64), word_of_nat (0x80 + c mod 64)]
      else if c < 0x10000 then
        [word_of_nat (0xE0 + c div 4096), word_of_nat (0x80 + c div 64 mod 64), word_of_nat (0x80 + c mod 64)]
      else [word_of_nat (0xF0 + c div 262144), word_of_nat (0x80 + c div 4096 mod 64),
            word_of_nat (0x80 + c div 64 mod 64), word_of_nat (0x80 + c mod 64)])"

definition utf8_bytes :: "chars \<Rightarrow> u8 list" where
  "utf8_bytes s = concat (map utf8_char s)"

text \<open>The second byte a lead byte allows, from the table of well-formed sequences; \<open>None\<close> for no lead byte.\<close>

definition second_range :: "nat \<Rightarrow> (nat \<times> nat \<times> nat) option" where
  "second_range b =
     (if 0xC2 \<le> b \<and> b \<le> 0xDF then Some (2, 0x80, 0xBF)
      else if b = 0xE0 then Some (3, 0xA0, 0xBF)
      else if b = 0xED then Some (3, 0x80, 0x9F)
      else if 0xE1 \<le> b \<and> b \<le> 0xEF then Some (3, 0x80, 0xBF)
      else if b = 0xF0 then Some (4, 0x90, 0xBF)
      else if 0xF1 \<le> b \<and> b \<le> 0xF3 then Some (4, 0x80, 0xBF)
      else if b = 0xF4 then Some (4, 0x80, 0x8F)
      else None)"

definition is_cont :: "nat \<Rightarrow> bool" where
  "is_cont b \<longleftrightarrow> 0x80 \<le> b \<and> b \<le> 0xBF"

text \<open>One character off the front: the code point and the number of bytes taken.\<close>

definition utf8_step :: "nat list \<Rightarrow> nat \<times> nat" where
  "utf8_step bs =
     (let b = hd bs; at = (\<lambda>i. if i < length bs then bs ! i else 0) in
      if b < 0x80 then (b, 1)
      else case second_range b of
        None \<Rightarrow> (REPLACEMENT, 1)
      | Some (w, lo, hi) \<Rightarrow>
          if \<not> (lo \<le> at 1 \<and> at 1 \<le> hi) then (REPLACEMENT, 1)
          else if w = 2 then ((b - 0xC0) * 64 + (at 1 - 0x80), 2)
          else if \<not> is_cont (at 2) then (REPLACEMENT, 2)
          else if w = 3 then ((b - 0xE0) * 4096 + (at 1 - 0x80) * 64 + (at 2 - 0x80), 3)
          else if \<not> is_cont (at 3) then (REPLACEMENT, 3)
          else ((b - 0xF0) * 262144 + (at 1 - 0x80) * 4096 + (at 2 - 0x80) * 64 + (at 3 - 0x80), 4))"

lemma utf8_step_pos: "0 < snd (utf8_step bs)"
  by (auto simp: utf8_step_def Let_def split: option.split)

lemma utf8_step_shorter: "bs \<noteq> [] \<Longrightarrow> (c, n) = utf8_step bs \<Longrightarrow> 0 < n \<and> length bs - n < length bs"
  using utf8_step_pos [of bs] by (metis diff_less length_greater_0_conv snd_conv)

function utf8_lossy :: "nat list \<Rightarrow> chars" where
  "utf8_lossy bs =
     (if bs = [] then [] else let (c, n) = utf8_step bs in c # utf8_lossy (drop n bs))"
  by pat_completeness auto
termination utf8_lossy
  by (relation "measure length") (auto dest: utf8_step_shorter)

declare utf8_lossy.simps [simp del]

definition from_utf8_lossy :: "u8 list \<Rightarrow> chars" where
  "from_utf8_lossy bs = utf8_lossy (map unat bs)"

subsection \<open>UTF-16\<close>

fun from_utf16_lossy :: "u16 list \<Rightarrow> chars" where
  "from_utf16_lossy [] = []"
| "from_utf16_lossy (u # us) =
     (let c = unat u in
      if c < 0xD800 \<or> 0xE000 \<le> c then c # from_utf16_lossy us
      else if 0xDC00 \<le> c then REPLACEMENT # from_utf16_lossy us
      else case us of
        [] \<Rightarrow> [REPLACEMENT]
      | v # vs \<Rightarrow>
          if 0xDC00 \<le> unat v \<and> unat v < 0xE000
          then (0x10000 + (c - 0xD800) * 1024 + (unat v - 0xDC00)) # from_utf16_lossy vs
          else REPLACEMENT # from_utf16_lossy us)"

subsection \<open>Padding\<close>

definition is_padding :: "nat \<Rightarrow> bool" where
  "is_padding c \<longleftrightarrow> c = 0 \<or> c = 64 \<or> c = 32 \<or> c = 0xFF"

definition trim_string_padding :: "chars \<Rightarrow> chars" where
  "trim_string_padding s = rev (dropWhile is_padding (rev s))"

subsection \<open>Decoding inverts encoding\<close>

lemma unat_byte_plus [simp]: "unat (x :: u8) + n < 256 \<Longrightarrow> unat (x + word_of_nat n) = unat x + n"
proof -
  assume n: "unat x + n < 256"
  have "x + word_of_nat n = word_of_nat (unat x + n)" by simp
  then show ?thesis using n unat_u8_of_nat [of "unat x + n"] by (simp only:)
qed

lemma utf8_step_char:
  assumes "is_scalar c"
  shows "utf8_step (map unat (utf8_char c) @ rest) = (c, length (utf8_char c))"
proof -
  consider "c < 0x80" | "0x80 \<le> c" "c < 0x800" | "0x800 \<le> c" "c < 0x10000" | "0x10000 \<le> c" "c < 0x110000"
    using assms unfolding is_scalar_def by linarith
  then show ?thesis
  proof cases
    case 1
    then show ?thesis by (simp add: utf8_char_def utf8_step_def)
  next
    case 2
    then have "c div 64 < 32" "2 \<le> c div 64" by auto
    then have bytes: "map unat (utf8_char c) = [192 + c div 64, 128 + c mod 64]"
      and rng: "second_range (192 + c div 64) = Some (2, 0x80, 0xBF)"
      using 2 by (simp_all add: utf8_char_def second_range_def)
    have "utf8_step ([192 + c div 64, 128 + c mod 64] @ rest) = (c div 64 * 64 + c mod 64, 2)"
      unfolding utf8_step_def Let_def list.sel append_Cons rng by simp
    then show ?thesis using 2 unfolding bytes by (simp add: utf8_char_def)
  next
    case 3
    let ?a = "c div 4096" and ?b = "c div 64 mod 64"
    have sum: "?a * 4096 + ?b * 64 + c mod 64 = c"
    proof -
      have "c div 64 = ?a * 64 + ?b" using div_mult_mod_eq [of "c div 64" 64] by (simp add: div_mult2_eq [symmetric])
      then show ?thesis using div_mult_mod_eq [of c 64] by linarith
    qed
    have a: "?a < 16" using 3 by auto
    have low: "?a = 0 \<Longrightarrow> 32 \<le> ?b" using 3(1) sum mod_less_divisor [of 64 c] by linarith
    have high: "?a = 13 \<Longrightarrow> ?b < 32" using assms 3 sum mod_less_divisor [of 64 c] by (auto simp: is_scalar_def)
    have b: "?b < 64" "c mod 64 < 64" by simp_all
    have rng: "second_range (224 + ?a) = Some (3, if ?a = 0 then 0xA0 else 0x80, if ?a = 13 then 0x9F else 0xBF)"
      using a by (auto simp: second_range_def)
    have bytes: "map unat (utf8_char c) = [224 + ?a, 128 + ?b, 128 + c mod 64]"
      using 3 a b by (simp add: utf8_char_def)
    have "utf8_step ([224 + ?a, 128 + ?b, 128 + c mod 64] @ rest) = (?a * 4096 + ?b * 64 + c mod 64, 3)"
      unfolding utf8_step_def Let_def list.sel append_Cons rng
      using low high b by (auto simp: is_cont_def)
    then show ?thesis using 3 unfolding bytes sum by (simp add: utf8_char_def)
  next
    case 4
    let ?a = "c div 262144" and ?b = "c div 4096 mod 64" and ?d = "c div 64 mod 64"
    have sum: "?a * 262144 + ?b * 4096 + ?d * 64 + c mod 64 = c"
    proof -
      have "c div 4096 = ?a * 64 + ?b" using div_mult_mod_eq [of "c div 4096" 64] by (simp add: div_mult2_eq [symmetric])
      moreover have "c div 64 = c div 4096 * 64 + ?d" using div_mult_mod_eq [of "c div 64" 64] by (simp add: div_mult2_eq [symmetric])
      ultimately show ?thesis using div_mult_mod_eq [of c 64] by linarith
    qed
    have a: "?a < 5" using 4 by auto
    have b: "?b < 64" "?d < 64" "c mod 64 < 64" by simp_all
    have low: "?a = 0 \<Longrightarrow> 16 \<le> ?b" using 4(1) sum b by linarith
    have high: "?a = 4 \<Longrightarrow> ?b < 16" using 4(2) sum b by linarith
    have rng: "second_range (240 + ?a) = Some (4, if ?a = 0 then 0x90 else 0x80, if ?a = 4 then 0x8F else 0xBF)"
      using a by (auto simp: second_range_def)
    have bytes: "map unat (utf8_char c) = [240 + ?a, 128 + ?b, 128 + ?d, 128 + c mod 64]"
      using 4 a b by (simp add: utf8_char_def)
    have "utf8_step ([240 + ?a, 128 + ?b, 128 + ?d, 128 + c mod 64] @ rest) =
        (?a * 262144 + ?b * 4096 + ?d * 64 + c mod 64, 4)"
      unfolding utf8_step_def Let_def list.sel append_Cons rng
      using low high b by (auto simp: is_cont_def)
    then show ?thesis using 4 unfolding bytes sum by (simp add: utf8_char_def)
  qed
qed

lemma utf8_char_nonempty [simp]: "utf8_char c \<noteq> []"
  by (simp add: utf8_char_def)

lemma from_utf8_lossy_append:
  "list_all is_scalar s \<Longrightarrow> from_utf8_lossy (utf8_bytes s @ bs) = s @ from_utf8_lossy bs"
proof (induction s)
  case Nil
  show ?case by (simp add: utf8_bytes_def)
next
  case (Cons c s)
  have "map unat (utf8_bytes (c # s) @ bs) = map unat (utf8_char c) @ map unat (utf8_bytes s @ bs)"
    by (simp add: utf8_bytes_def)
  moreover have "utf8_step (map unat (utf8_char c) @ map unat (utf8_bytes s @ bs)) = (c, length (utf8_char c))"
    by (rule utf8_step_char) (use Cons.prems in simp)
  ultimately show ?case
    using Cons by (simp add: from_utf8_lossy_def utf8_lossy.simps [of "map unat (utf8_char c) @ _"])
qed

theorem utf8_roundtrip: "list_all is_scalar s \<Longrightarrow> from_utf8_lossy (utf8_bytes s) = s"
  using from_utf8_lossy_append [of s "[]"] by (simp add: from_utf8_lossy_def utf8_lossy.simps)

end
