(* ===== verification/Device.thy ===== *)
theory Device
  imports Raw_Frame Hex Text_Codec
begin

section \<open>Device sessions (canboat-io/src/device/mod.rs)\<close>

text \<open>
  The events of a decoder and the interface \<open>DeviceDecoder\<close> as a locale: cutting the received bytes elsewhere gives the same
  events as long as the cuts are clean.  Every codec interprets it, those that take bytes with every cut, those that take
  text with the cuts that split no character.  The reader thread hands the events on in order, the writer thread encodes commands
  and sends keepalives.  Errors are kept as values; the sources print them.
\<close>

datatype 'e device_event = DevFrame raw_frame | DevSend "u8 list" | DevError 'e

datatype writer_cmd = WBytes "u8 list" | WFrame raw_frame

text \<open>
  Received bytes as text, \<open>String::from\_utf8\_lossy\<close>: the text as its UTF-8 bytes, with the three bytes of U+FFFD for each
  ill-formed part, such as a character cut short by the end of a read.
\<close>

definition text_of :: "u8 list \<Rightarrow> string" where
  "text_of bs = map (\<lambda>b. char_of (unat b)) (utf8_bytes (from_utf8_lossy bs))"

definition bytes_of :: "string \<Rightarrow> u8 list" where
  "bytes_of s = map (\<lambda>c. word_of_nat (of_char c)) s"

text \<open>Whole characters only: the bytes are well-formed UTF-8, so the conversion keeps them.\<close>

definition whole_utf8 :: "u8 list \<Rightarrow> bool" where
  "whole_utf8 bs \<longleftrightarrow> list_all is_scalar (from_utf8_lossy bs) \<and> utf8_bytes (from_utf8_lossy bs) = bs"

lemma text_of_append: "whole_utf8 a \<Longrightarrow> text_of (a @ b) = text_of a @ text_of b"
  using from_utf8_lossy_append [of "from_utf8_lossy a" b]
  by (simp add: text_of_def whole_utf8_def utf8_bytes_def)

lemma whole_utf8_bytes: "list_all is_scalar s \<Longrightarrow> whole_utf8 (utf8_bytes s)"
  by (simp add: whole_utf8_def utf8_roundtrip)

lemma text_of_whole: "whole_utf8 bs \<Longrightarrow> text_of bs = map (\<lambda>b. char_of (unat b)) bs"
  by (simp add: text_of_def whole_utf8_def)

subsection \<open>The decoder interface\<close>

text \<open>The reader thread hands every read to the decoder and collects the events.\<close>

fun feed :: "('s \<Rightarrow> u8 list \<Rightarrow> 's \<times> 'e device_event list) \<Rightarrow> 's \<Rightarrow> u8 list list \<Rightarrow> 's \<times> 'e device_event list" where
  "feed decode s [] = (s, [])"
| "feed decode s (c # cs) = (let (s1, e1) = decode s c; (s2, e2) = feed decode s1 cs in (s2, e1 @ e2))"

locale device_decoder =
  fixes decode :: "'s \<Rightarrow> u8 list \<Rightarrow> 's \<times> 'e device_event list"
    and clean :: "u8 list \<Rightarrow> bool"
  assumes decode_append:
    "clean a \<Longrightarrow> decode s (a @ b) = (let (s1, e1) = decode s a; (s2, e2) = decode s1 b in (s2, e1 @ e2))"
begin

lemma feed_concat: "cs \<noteq> [] \<Longrightarrow> list_all clean cs \<Longrightarrow> feed decode s cs = decode s (concat cs)"
proof (induction cs arbitrary: s)
  case (Cons c cs)
  show ?case
  proof (cases "cs = []")
    case False
    then show ?thesis using Cons.IH Cons.prems by (simp add: decode_append case_prod_beta)
  qed (simp add: case_prod_beta)
qed simp

lemma feed_eqI:
  "cs \<noteq> [] \<Longrightarrow> ds \<noteq> [] \<Longrightarrow> concat cs = concat ds \<Longrightarrow> list_all clean cs \<Longrightarrow> list_all clean ds \<Longrightarrow>
   feed decode s cs = feed decode s ds"
  by (simp add: feed_concat)

end

subsection \<open>Complete lines of a buffer\<close>

text \<open>
  The loop \<open>while let Some(eol) = acc.find('\\n')\<close> of the line-based decoders: the complete lines, with their newline, and what
  is left in the accumulator.
\<close>

function drain_lines :: "string \<Rightarrow> string list \<times> string" where
  "drain_lines acc =
     (case split_once CHR 0x0A acc of
        None \<Rightarrow> ([], acc)
      | Some (line, rest) \<Rightarrow> let (lines, acc) = drain_lines rest in ((line @ [CHR 0x0A]) # lines, acc))"
  by pat_completeness auto

lemma split_once_shorter: "split_once d s = Some (a, b) \<Longrightarrow> length b < length s"
  by (induction s arbitrary: a b) (auto split: if_splits option.splits)

termination drain_lines
  by (relation "measure length") (auto dest: split_once_shorter)

declare drain_lines.simps [simp del]

lemma split_once_append_Some: "split_once d s = Some (a, b) \<Longrightarrow> split_once d (s @ t) = Some (a, b @ t)"
  by (induction s arbitrary: a b) (auto split: if_splits option.splits)

lemma drain_lines_append:
  "drain_lines (a @ b) = (let (l1, r1) = drain_lines a; (l2, r2) = drain_lines (r1 @ b) in (l1 @ l2, r2))"
proof (induction a rule: drain_lines.induct)
  case (1 acc)
  show ?case
  proof (cases "split_once CHR 0x0A acc")
    case None
    then show ?thesis by (simp add: drain_lines.simps [of acc])
  next
    case (Some p)
    obtain line rest where p: "p = (line, rest)" by (cases p)
    from 1 [OF Some p [symmetric]] show ?thesis
      using Some split_once_append_Some [of "CHR 0x0A" acc line rest b]
      by (simp add: p drain_lines.simps [of acc] drain_lines.simps [of "acc @ b"] case_prod_beta Let_def)
  qed
qed

subsection \<open>The reader thread\<close>

text \<open>One read: frames go to the consumer, bytes to the writer; a closed channel ends the thread.\<close>

definition reader_events :: "'e device_event list \<Rightarrow> raw_frame list \<times> writer_cmd list" where
  "reader_events evs =
     (concat (map (\<lambda>e. case e of DevFrame f \<Rightarrow> [f] | _ \<Rightarrow> []) evs),
      concat (map (\<lambda>e. case e of DevSend b \<Rightarrow> [WBytes b] | _ \<Rightarrow> []) evs))"

subsection \<open>The writer thread\<close>

text \<open>What the command channel returns, with the time at which it does.\<close>

datatype rx_result = RxCmd nat writer_cmd | RxTimeout nat | RxDisconnected

record writer_state =
  ws_next_keepalive :: "nat option"
  ws_output :: "u8 list list"

definition writer_start :: "u8 list \<Rightarrow> (nat \<times> u8 list) option \<Rightarrow> nat \<Rightarrow> writer_state" where
  "writer_start init keepalive now =
     \<lparr>ws_next_keepalive = map_option (\<lambda>(d, _). now + d) keepalive,
      ws_output = (if init = [] then [] else [init])\<rparr>"

definition writer_write :: "u8 list \<Rightarrow> (nat \<times> u8 list) option \<Rightarrow> nat \<Rightarrow> writer_state \<Rightarrow> writer_state" where
  "writer_write bytes keepalive now st =
     st\<lparr>ws_output := ws_output st @ [bytes],
        ws_next_keepalive := (case keepalive of Some (d, _) \<Rightarrow> Some (now + d) | None \<Rightarrow> ws_next_keepalive st)\<rparr>"

fun writer_thread ::
  "(raw_frame \<Rightarrow> u8 list option) \<Rightarrow> (nat \<times> u8 list) option \<Rightarrow> writer_state \<Rightarrow> rx_result list \<Rightarrow> writer_state" where
  "writer_thread enc keepalive st [] = st"
| "writer_thread enc keepalive st (RxDisconnected # rs) = st"
| "writer_thread enc keepalive st (RxTimeout now # rs) =
     (case keepalive of
        Some (d, payload) \<Rightarrow> writer_thread enc keepalive (writer_write payload keepalive now st) rs
      | None \<Rightarrow> writer_thread enc keepalive st rs)"
| "writer_thread enc keepalive st (RxCmd now (WBytes b) # rs) =
     writer_thread enc keepalive (writer_write b keepalive now st) rs"
| "writer_thread enc keepalive st (RxCmd now (WFrame f) # rs) =
     (case enc f of
        None \<Rightarrow> writer_thread enc keepalive st rs
      | Some b \<Rightarrow> writer_thread enc keepalive (writer_write b keepalive now st) rs)"

end
