(* ===== verification/Maretron.thy ===== *)
theory Maretron
  imports Can_Id Raw_Frame Ascii
begin

section \<open>The Maretron IPG100 binary codec (canboat-core/src/format/maretron\_ipg.rs)\<close>

text \<open>Bytes of text lines are characters here (the lossy UTF-8 conversion is the identity on ASCII).\<close>

definition FRAME_SYNC :: u8 where "FRAME_SYNC = 0xA5"
definition F1_SYNC_BIT :: u8 where "F1_SYNC_BIT = 0x80"
definition DEFAULT_TCP_PORT :: string where "DEFAULT_TCP_PORT = ''6543''"
definition VIDEO_PREFIX :: u8 where "VIDEO_PREFIX = 0x33"
definition ASCII_PREFIX :: u8 where "ASCII_PREFIX = 0x32"

record maretron_frame =
  mf_pgn :: u32
  mf_prio :: u8
  mf_src :: u8
  mf_dst :: u8
  mf_msg_type :: u8
  mf_payload :: "u8 list"

datatype parse_outcome =
    MFrame maretron_frame usize
  | MText "u8 list" usize
  | NeedMore
  | MDrop usize

datatype session_state = AwaitHandshake | Streaming

definition maretron_to_raw :: "maretron_frame \<Rightarrow> string option \<Rightarrow> raw_frame" where
  "maretron_to_raw m timestamp =
     \<lparr>rf_timestamp = timestamp, rf_prio = mf_prio m, rf_pgn = mf_pgn m, rf_src = mf_src m, rf_dst = mf_dst m,
      rf_data = take (min (length (mf_payload m)) FASTPACKET_MAX_SIZE) (mf_payload m)\<rparr>"

definition parse_nul_terminated_text :: "u8 list \<Rightarrow> parse_outcome" where
  "parse_nul_terminated_text buf =
     (case position (\<lambda>b. b = 0) buf of
        None \<Rightarrow> NeedMore
      | Some nul_idx \<Rightarrow> MText (take nul_idx buf) (nul_idx + 1))"

definition parse_binary_frame :: "u8 list \<Rightarrow> parse_outcome" where
  "parse_binary_frame buf =
     (if length buf < 6 then NeedMore
      else let f1 = buf ! 1 in
        if f1 AND F1_SYNC_BIT = 0 then MDrop 1
        else let pf = buf ! 2; ps = buf ! 3; sa = buf ! 4;
                 prio = drop_bit 4 f1 AND 0x07;
                 msg_type = drop_bit 1 f1 AND 0x03;
                 dp = f1 AND 0x01
          in if msg_type = 3 \<and> length buf < 7 then NeedMore
             else let (payload_start, payload_len) =
                        (if msg_type = 3
                         then (7, unat (ucast (buf ! 5) OR push_bit 8 (ucast (buf ! 6)) :: u16))
                         else (6, unat (buf ! 5)));
                      tot = payload_start + payload_len
               in if length buf < tot then NeedMore
                  else let (pgn, dst) =
                             (if pf < 0xF0 then (push_bit 16 (ucast dp) OR push_bit 8 (ucast pf) :: u32, ps)
                              else (push_bit 16 (ucast dp) OR push_bit 8 (ucast pf) OR ucast ps, 0xFF))
                       in MFrame \<lparr>mf_pgn = pgn, mf_prio = prio, mf_src = sa, mf_dst = dst, mf_msg_type = msg_type,
                                 mf_payload = take payload_len (drop payload_start buf)\<rparr> tot)"

definition maretron_parse :: "u8 list \<Rightarrow> session_state \<Rightarrow> parse_outcome" where
  "maretron_parse buf st =
     (case buf of
        [] \<Rightarrow> NeedMore
      | first # _ \<Rightarrow>
          if st = AwaitHandshake then parse_nul_terminated_text buf
          else if first = FRAME_SYNC then parse_binary_frame buf
          else if first = VIDEO_PREFIX \<or> first = ASCII_PREFIX then
            (case position (\<lambda>b. b = 0) buf of Some idx \<Rightarrow> MDrop (idx + 1) | None \<Rightarrow> NeedMore)
          else if first AND 0x80 = 0 then parse_nul_terminated_text buf
          else MDrop 1)"

definition maretron_build_frame :: "u32 \<Rightarrow> u8 \<Rightarrow> u8 \<Rightarrow> u8 list \<Rightarrow> u8 list option" where
  "maretron_build_frame pgn prio dst payload =
     (if length payload > FASTPACKET_MAX_SIZE then None
      else let msg_type = (if length payload \<le> 8 then 1 else 2) :: u8;
               dp = ucast (drop_bit 16 pgn AND 0x01) :: u8;
               pf = ucast (drop_bit 8 pgn AND 0xFF) :: u8;
               ps = (if pf < 0xF0 then dst else ucast (pgn AND 0xFF))
        in Some ([FRAME_SYNC,
                  F1_SYNC_BIT OR push_bit 4 (prio AND 0x07) OR push_bit 1 (msg_type AND 0x03) OR (dp AND 0x01),
                  pf, ps, 0xFF, word_of_nat (length payload)] @ payload))"

definition chars_of :: "string \<Rightarrow> u8 list" where
  "chars_of s = map (\<lambda>c. word_of_nat (of_char c)) s"

definition build_connect :: "string \<Rightarrow> u8 list" where
  "build_connect password =
     chars_of (''CONNECT'' @ [CHR 0x09, CHR 0x22] @ password @ [CHR 0x22, CHR 0x09, CHR 0x09] @ ''MOBILE'') @ [0]"

definition build_set_mode_binary :: "u8 list" where
  "build_set_mode_binary = chars_of (''SET_MODE'' @ [CHR 0x09] @ ''BINARY'') @ [0]"

definition ensure_default_port :: "string \<Rightarrow> string" where
  "ensure_default_port url =
     (let body = (case strip_prefix url ''tcp://'' of Some b \<Rightarrow> b | None \<Rightarrow> url)
      in if starts_with body ''['' \<or> CHR '':'' \<in> set body then body
         else body @ '':'' @ DEFAULT_TCP_PORT)"

subsection \<open>Frames sent and read back\<close>

lemma mask_u8: "(0x80 :: u8) = 2 ^ 7" "(0x07 :: u8) = mask 3" "(0x03 :: u8) = mask 2" "(0x01 :: u8) = mask 1"
  by (simp_all add: mask_eq_exp_minus_1)

lemma f1_fields:
  fixes prio mt dp :: u8
  assumes "prio < 8" "mt < 4" "dp < 2" "f1 = F1_SYNC_BIT OR push_bit 4 (prio AND 0x07) OR push_bit 1 (mt AND 0x03) OR (dp AND 0x01)"
  shows "f1 AND F1_SYNC_BIT \<noteq> 0" "drop_bit 4 f1 AND 0x07 = prio" "drop_bit 1 f1 AND 0x03 = mt" "f1 AND 0x01 = dp"
proof -
  have p: "bit prio k \<Longrightarrow> k < 3" "bit mt k \<Longrightarrow> k < 2" "bit dp k \<Longrightarrow> k < 1" for k
    using bit_less_exp [of prio 3 k] bit_less_exp [of mt 2 k] bit_less_exp [of dp 1 k] assms(1-3) by simp_all
  have m: "bit (mask n :: u8) k \<longleftrightarrow> k < n \<and> k < 8" for n k by (auto simp: bit_simps)
  have s: "bit (0x80 :: u8) k \<longleftrightarrow> k = 7" for k
    unfolding mask_u8(1) bit_exp_iff by (auto simp: possible_bit_def)
  have f: "bit f1 k \<longleftrightarrow> k = 7 \<or> 4 \<le> k \<and> k < 7 \<and> bit prio (k - 4) \<or> 1 \<le> k \<and> k < 3 \<and> bit mt (k - 1) \<or> k < 1 \<and> bit dp k" for k
    unfolding assms(4) F1_SYNC_BIT_def mask_u8(2-4) bit_or_iff s bit_push_bit_iff bit_and_iff m
    by (auto dest: p)
  show "f1 AND F1_SYNC_BIT \<noteq> 0"
  proof
    assume "f1 AND F1_SYNC_BIT = 0"
    then have "\<not> bit (f1 AND F1_SYNC_BIT) 7" by simp
    then show False unfolding F1_SYNC_BIT_def bit_and_iff s f by simp
  qed
  show "drop_bit 4 f1 AND 0x07 = prio" unfolding mask_u8
    by (rule bit_word_eqI) (auto simp: bit_and_iff bit_drop_bit_eq m f dest: p)
  show "drop_bit 1 f1 AND 0x03 = mt" unfolding mask_u8
    by (rule bit_word_eqI) (auto simp: bit_and_iff bit_drop_bit_eq m f dest: p)
  show "f1 AND 0x01 = dp" unfolding mask_u8
    by (rule bit_word_eqI) (auto simp: bit_and_iff bit_1_iff m f dest: p)
qed

lemma pgn_bytes:
  assumes "pgn < 2 ^ 17" "pf = (ucast (drop_bit 8 pgn AND 0xFF) :: u8)" "dp = (ucast (drop_bit 16 pgn AND 0x01) :: u8)"
  shows "pgn AND 0xff = 0 \<Longrightarrow> push_bit 16 (ucast dp) OR push_bit 8 (ucast pf) = (pgn :: u32)"
    "push_bit 16 (ucast dp) OR push_bit 8 (ucast pf) OR ucast (ucast (pgn AND 0xFF) :: u8) = (pgn :: u32)"
    "dp < 2"
proof -
  have p: "bit pgn k \<Longrightarrow> k < 17" for k using bit_less_exp [of pgn 17 k] assms(1) by simp
  have m: "(0xff :: u32) = mask 8" "(0x1 :: u32) = mask 1" by (simp_all add: mask_eq_exp_minus_1)
  have dp: "bit dp k \<longleftrightarrow> k = 0 \<and> bit pgn 16" for k unfolding assms(3) m by (auto simp: bit_simps)
  have pf: "bit pf k \<longleftrightarrow> k < 8 \<and> bit pgn (k + 8)" for k
    unfolding assms(2) pf_u8 by (auto simp: bit_ucast_u8 bit_drop_bit_eq add.commute)
  have hi: "bit (push_bit 16 (ucast dp) OR push_bit 8 (ucast pf) :: u32) k \<longleftrightarrow> 8 \<le> k \<and> bit pgn k" for k
  proof -
    consider "k < 8" | "8 \<le> k" "k < 16" | "k = 16" | "16 < k" by linarith
    then show ?thesis
      by cases (auto simp: bit_or_iff bit_push_bit_iff bit_ucast_u32 dp pf dest: p)
  qed
  show "push_bit 16 (ucast dp) OR push_bit 8 (ucast pf) = (pgn :: u32)" if "pgn AND 0xff = 0"
  proof (rule bit_word_eqI)
    fix n
    have "\<not> bit (pgn AND mask 8) n" using that unfolding m by simp
    then show "bit (push_bit 16 (ucast dp) OR push_bit 8 (ucast pf) :: u32) n = bit pgn n"
      unfolding hi by (auto simp: bit_and_iff bit_mask_u32)
  qed
  show "push_bit 16 (ucast dp) OR push_bit 8 (ucast pf) OR ucast (ucast (pgn AND 0xFF) :: u8) = (pgn :: u32)"
  proof -
    define hw where "hw = (push_bit 16 (ucast dp) OR push_bit 8 (ucast pf) :: u32)"
    have "hw OR ucast (ucast pgn :: u8) = pgn"
      by (rule bit_word_eqI) (auto simp: bit_or_iff hi [folded hw_def] bit_ucast_u32 bit_ucast_u8)
    then show ?thesis unfolding hw_def or.assoc pf_u8 .
  qed
  have "dp = (if bit pgn 16 then 1 else 0)" by (rule bit_word_eqI) (auto simp: dp bit_simps)
  then show "dp < 2" by simp
qed

text \<open>
  C33: A frame built for the IPG100 (priority below 8, PGN of at most 17 bits with no low byte in PDU1, at most 223 data bytes) is parsed
  back from the front of the buffer, whatever follows, and exactly its bytes are consumed; the source is 255, the device's own.
\<close>

theorem maretron_frame_roundtrip:
  assumes "prio < 8" "pgn < 2 ^ 17" "is_pdu1 pgn \<longrightarrow> pgn AND 0xff = 0" "maretron_build_frame pgn prio dst payload = Some wire"
  shows "maretron_parse (wire @ rest) Streaming =
    MFrame \<lparr>mf_pgn = pgn, mf_prio = prio, mf_src = 255, mf_dst = (if is_pdu1 pgn then dst else 255),
            mf_msg_type = (if length payload \<le> 8 then 1 else 2), mf_payload = payload\<rparr> (length wire)"
proof -
  define mt where "mt = (if length payload \<le> 8 then 1 else 2 :: u8)"
  define dp where "dp = (ucast (drop_bit 16 pgn AND 0x01) :: u8)"
  define pf where "pf = (ucast (drop_bit 8 pgn AND 0xFF) :: u8)"
  define ps where "ps = (if pf < 0xF0 then dst else ucast (pgn AND 0xFF))"
  define f1 where "f1 = F1_SYNC_BIT OR push_bit 4 (prio AND 0x07) OR push_bit 1 (mt AND 0x03) OR (dp AND 0x01)"
  have len: "length payload \<le> 223" and w: "wire = [FRAME_SYNC, f1, pf, ps, 0xFF, word_of_nat (length payload)] @ payload"
    using assms(4) unfolding maretron_build_frame_def Let_def
    by (simp_all add: FASTPACKET_MAX_SIZE_def f1_def mt_def dp_def pf_def ps_def split: if_splits)
  note P = pgn_bytes [OF assms(2) pf_def dp_def]
  have mt: "mt < 4" "mt \<noteq> 3" by (simp_all add: mt_def)
  note F = f1_fields [OF assms(1) mt(1) P(3) f1_def]
  have pdu: "pf < 0xF0 \<longleftrightarrow> is_pdu1 pgn" by (simp add: pf_def pf_u8 is_pdu1_def pgn_pf_def)
  have n: "unat (word_of_nat (length payload) :: u8) = length payload" using len by simp
  have "maretron_parse (wire @ rest) Streaming = parse_binary_frame (wire @ rest)"
    by (simp add: w maretron_parse_def)
  also have "\<dots> = MFrame \<lparr>mf_pgn = pgn, mf_prio = prio, mf_src = 255, mf_dst = (if is_pdu1 pgn then dst else 255),
            mf_msg_type = mt, mf_payload = payload\<rparr> (length wire)"
    using F mt n assms(3) P(1,2) pdu
    by (auto simp: parse_binary_frame_def Let_def w ps_def)
  finally show ?thesis by (simp add: mt_def)
qed

theorem maretron_frame_roundtrip_witness:
  "\<exists>wire. maretron_build_frame 129025 2 255 [1, 2, 3] = Some wire \<and>
     maretron_parse (wire @ [9]) Streaming =
       MFrame \<lparr>mf_pgn = 129025, mf_prio = 2, mf_src = 255, mf_dst = 255, mf_msg_type = 1, mf_payload = [1, 2, 3]\<rparr> (length wire)"
proof -
  obtain wire where w: "maretron_build_frame 129025 2 255 [1, 2, 3] = Some wire"
    by (simp add: maretron_build_frame_def FASTPACKET_MAX_SIZE_def Let_def)
  have "\<not> is_pdu1 129025" by (simp add: is_pdu1_def pgn_pf_def)
  then show ?thesis using maretron_frame_roundtrip [OF _ _ _ w, of "[9]"] w by simp
qed

end
