(* ===== verification/Codecs.thy ===== *)
theory Codecs
  imports Device Ngt1 Plain Maretron
begin

section \<open>The NGT-1, CSV and Maretron codecs (canboat-io/src/device)\<close>

text \<open>
  Each decoder is a function on its state and the bytes read, and interprets \<open>device_decoder\<close>.  PGNs from \<open>0x40000\<close> up are
  synthetic and never sent.
\<close>

definition SYNTHETIC_PGN :: u32 where
  "SYNTHETIC_PGN = 0x40000"

subsection \<open>NGT-1 (device/ngt1.rs)\<close>

definition ngt_device_event :: "ngt_event \<Rightarrow> ngt_error device_event list" where
  "ngt_device_event ev =
     (case ev of
        Message m \<Rightarrow> (case to_raw_frame m of Some f \<Rightarrow> [DevFrame f] | None \<Rightarrow> [])
      | NgtErr e \<Rightarrow> [DevError e]
      | Header _ \<Rightarrow> [])"

definition ngt_decode :: "ngt_decoder \<Rightarrow> u8 list \<Rightarrow> ngt_decoder \<times> ngt_error device_event list" where
  "ngt_decode d bytes = (let (d, evs) = push_bytes d bytes in (d, concat (map ngt_device_event evs)))"

definition KEEPALIVE_INTERVAL :: nat where
  "KEEPALIVE_INTERVAL = 20000"

text \<open>\<open>Some None\<close> is the panic of the framing assertion.\<close>

definition ngt_encode_frame :: "raw_frame \<Rightarrow> u8 list option option" where
  "ngt_encode_frame f =
     (if rf_pgn f \<ge> SYNTHETIC_PGN then None else Some (encode_n2k_send_frame f))"

interpretation ngt: device_decoder ngt_decode "\<lambda>_. True"
  by unfold_locales (simp add: ngt_decode_def push_bytes_append case_prod_beta)

subsection \<open>Canboat CSV (device/canboat\_csv.rs)\<close>

definition csv_line :: "string \<Rightarrow> parse_error device_event list" where
  "csv_line line =
     (let trimmed = trim_newlines line in
      if trimmed = [] \<or> starts_with trimmed ''#'' then []
      else if starts_with trimmed ''$'' \<or> starts_with trimmed ''!'' then []
      else case plain_parse_line trimmed of
        Inr f \<Rightarrow> [DevFrame f]
      | Inl e \<Rightarrow> if e = Empty then [] else [DevError e])"

definition csv_decode :: "string \<Rightarrow> u8 list \<Rightarrow> string \<times> parse_error device_event list" where
  "csv_decode acc bytes =
     (let (lines, acc) = drain_lines (acc @ text_of bytes) in (acc, concat (map csv_line lines)))"

definition csv_init_bytes :: "u8 list" where
  "csv_init_bytes = bytes_of (''# format=FAST'' @ [CHR 0x0D, CHR 0x0A])"

definition csv_encode_frame :: "raw_frame \<Rightarrow> u8 list option" where
  "csv_encode_frame f =
     (if rf_pgn f \<ge> SYNTHETIC_PGN then None
      else Some (bytes_of (plain_write_line f @ [CHR 0x0D, CHR 0x0A])))"

interpretation csv: device_decoder csv_decode whole_utf8
proof
  fix a s b
  assume "whole_utf8 a"
  then show "csv_decode s (a @ b) =
      (let (s1, e1) = csv_decode s a; (s2, e2) = csv_decode s1 b in (s2, e1 @ e2))"
    using drain_lines_append [of "s @ text_of a" "text_of b"]
    by (simp add: csv_decode_def text_of_append case_prod_beta)
qed

subsection \<open>Maretron (device/maretron.rs)\<close>

record maretron_decoder =
  md_acc :: "u8 list"
  md_state :: session_state

definition maretron_decoder_new :: maretron_decoder where
  "maretron_decoder_new = \<lparr>md_acc = [], md_state = AwaitHandshake\<rparr>"

text \<open>Up to the first tab; the log messages of the other heads are left out.\<close>

definition handle_text :: "u8 list \<Rightarrow> maretron_decoder \<Rightarrow> maretron_decoder \<times> string device_event list" where
  "handle_text line d =
     (let head = takeWhile (\<lambda>c. c \<noteq> CHR 0x09) (text_of line) in
      if head = ''CONNECTED'' then (d\<lparr>md_state := Streaming\<rparr>, [DevSend build_set_mode_binary])
      else if head = ''NO'' then (d, [DevError ''maretron: authentication rejected''])
      else (d, []))"

lemma position_less: "position P xs = Some i \<Longrightarrow> i < length xs"
  by (auto dest: position_SomeD)

text \<open>Every outcome but \<open>NeedMore\<close> consumes at least a byte, and none more than there are.\<close>

definition progress :: "nat \<Rightarrow> parse_outcome \<Rightarrow> bool" where
  "progress n r \<longleftrightarrow>
     (case r of MFrame f k \<Rightarrow> 0 < k \<and> k \<le> n | MText l k \<Rightarrow> 0 < k \<and> k \<le> n | MDrop k \<Rightarrow> 0 < k \<and> k \<le> n
      | NeedMore \<Rightarrow> True)"

lemma text_progress: "progress (length buf) (parse_nul_terminated_text buf)"
  by (auto simp: progress_def parse_nul_terminated_text_def Suc_le_eq dest: position_less split: option.split)

lemma binary_progress: "progress (length buf) (parse_binary_frame buf)"
  by (auto simp: progress_def parse_binary_frame_def Let_def split: prod.splits)

lemma prefix_progress:
  "progress (length buf) (case position P buf of Some idx \<Rightarrow> MDrop (idx + 1) | None \<Rightarrow> NeedMore)"
  by (auto simp: progress_def Suc_le_eq dest: position_less split: option.split)

lemma maretron_parse_nonempty:
  "buf \<noteq> [] \<Longrightarrow> maretron_parse buf st =
     (if st = AwaitHandshake then parse_nul_terminated_text buf
      else if hd buf = FRAME_SYNC then parse_binary_frame buf
      else if hd buf = VIDEO_PREFIX \<or> hd buf = ASCII_PREFIX then
        (case position (\<lambda>b. b = 0) buf of Some idx \<Rightarrow> MDrop (idx + 1) | None \<Rightarrow> NeedMore)
      else if hd buf AND 0x80 = 0 then parse_nul_terminated_text buf
      else MDrop 1)"
  unfolding maretron_parse_def by (cases buf) simp_all

lemma maretron_progress: "progress (length buf) (maretron_parse buf st)"
proof (cases "buf = []")
  case False
  then have "progress (length buf) (MDrop 1)" by (cases buf) (simp_all add: progress_def)
  then show ?thesis
    unfolding maretron_parse_nonempty [OF False]
    by (simp only: text_progress binary_progress prefix_progress split: if_split) simp
qed (simp add: maretron_parse_def progress_def)

lemma progress_shorter:
  "maretron_parse buf st = MDrop n \<Longrightarrow> length (drop n buf) < length buf"
  "maretron_parse buf st = MText l n \<Longrightarrow> length (drop n buf) < length buf"
  "maretron_parse buf st = MFrame f n \<Longrightarrow> length (drop n buf) < length buf"
  using maretron_progress [of buf st] by (auto simp: progress_def)

text \<open>The loop of \<open>decode\<close>; \<open>ts\<close> is the time stamp put on the frames.\<close>

function maretron_drain ::
  "string \<Rightarrow> maretron_decoder \<Rightarrow> maretron_decoder \<times> string device_event list" where
  "maretron_drain ts d =
     (case maretron_parse (md_acc d) (md_state d) of
        NeedMore \<Rightarrow> (d, [])
      | MDrop n \<Rightarrow> maretron_drain ts (d\<lparr>md_acc := drop n (md_acc d)\<rparr>)
      | MText line n \<Rightarrow>
          let (d1, e1) = handle_text line (d\<lparr>md_acc := drop n (md_acc d)\<rparr>);
              (d2, e2) = maretron_drain ts d1 in (d2, e1 @ e2)
      | MFrame f n \<Rightarrow>
          let (d2, e2) = maretron_drain ts (d\<lparr>md_acc := drop n (md_acc d)\<rparr>)
          in (d2, DevFrame (maretron_to_raw f (Some ts)) # e2))"
  by pat_completeness auto

lemma handle_text_acc: "md_acc (fst (handle_text line d)) = md_acc d"
  by (simp add: handle_text_def Let_def)

termination maretron_drain
  by (relation "measure (\<lambda>(_, d). length (md_acc d))")
    (auto dest: progress_shorter simp: handle_text_def Let_def split: if_splits)

declare maretron_drain.simps [simp del]

definition maretron_decode ::
  "string \<Rightarrow> maretron_decoder \<Rightarrow> u8 list \<Rightarrow> maretron_decoder \<times> string device_event list" where
  "maretron_decode ts d bytes = maretron_drain ts (d\<lparr>md_acc := md_acc d @ bytes\<rparr>)"

definition maretron_encode_frame :: "raw_frame \<Rightarrow> u8 list option" where
  "maretron_encode_frame f =
     (if rf_pgn f \<ge> SYNTHETIC_PGN then None
      else maretron_build_frame (rf_pgn f) (rf_prio f) (rf_dst f) (rf_data f))"

text \<open>What the parser decided stays decided when more bytes arrive.\<close>

lemma position_append: "position P xs = Some i \<Longrightarrow> position P (xs @ ys) = Some i"
  by (induction xs arbitrary: i) (auto split: if_splits)

lemma text_append:
  "parse_nul_terminated_text buf = MText l n \<Longrightarrow> parse_nul_terminated_text (buf @ ys) = MText l n"
  by (auto simp: parse_nul_terminated_text_def position_append dest: position_less split: option.splits)

lemma binary_append:
  assumes "parse_binary_frame buf \<noteq> NeedMore"
  shows "parse_binary_frame (buf @ ys) = parse_binary_frame buf"
proof -
  have "length buf \<ge> 6"
  proof (rule ccontr)
    assume "\<not> ?thesis"
    then show False using assms by (simp add: parse_binary_frame_def)
  qed
  then obtain a b c d e f rest where b: "buf = a # b # c # d # e # f # rest"
    by (metis (no_types) Suc_le_length_iff numeral_eq_Suc pred_numeral_simps(2,3) semiring_norm(26,27,28))
  show ?thesis
    using assms unfolding b
    by (cases rest) (auto simp: parse_binary_frame_def Let_def take_Cons split: if_splits prod.splits nat.split)
qed

lemma maretron_parse_append:
  assumes "maretron_parse buf st \<noteq> NeedMore"
  shows "maretron_parse (buf @ ys) st = maretron_parse buf st"
proof -
  have ne: "buf \<noteq> []" using assms by (auto simp: maretron_parse_def)
  then have ne2: "buf @ ys \<noteq> []" "hd (buf @ ys) = hd buf" by simp_all
  have t: "parse_nul_terminated_text (buf @ ys) = parse_nul_terminated_text buf"
    if "parse_nul_terminated_text buf \<noteq> NeedMore"
    using that by (auto simp: parse_nul_terminated_text_def position_append dest: position_less split: option.splits)
  show ?thesis
    using assms unfolding maretron_parse_nonempty [OF ne] maretron_parse_nonempty [OF ne2(1)] ne2(2)
    by (auto simp: t binary_append position_append split: if_splits option.splits)
qed

lemma progress_drop:
  "maretron_parse buf st = MDrop n \<Longrightarrow> drop n (buf @ ys) = drop n buf @ ys"
  "maretron_parse buf st = MText l n \<Longrightarrow> drop n (buf @ ys) = drop n buf @ ys"
  "maretron_parse buf st = MFrame f n \<Longrightarrow> drop n (buf @ ys) = drop n buf @ ys"
  using maretron_progress [of buf st] by (auto simp: progress_def)

lemma handle_text_append:
  "handle_text l (d\<lparr>md_acc := md_acc d @ ys\<rparr>) =
    ((fst (handle_text l d))\<lparr>md_acc := md_acc (fst (handle_text l d)) @ ys\<rparr>, snd (handle_text l d))"
  by (simp add: handle_text_def Let_def)

lemma maretron_drain_append:
  "maretron_drain ts (d\<lparr>md_acc := md_acc d @ ys\<rparr>) =
     (let (d1, e1) = maretron_drain ts d; (d2, e2) = maretron_drain ts (d1\<lparr>md_acc := md_acc d1 @ ys\<rparr>)
      in (d2, e1 @ e2))"
proof (induction ts d rule: maretron_drain.induct)
  case (1 ts d)
  let ?d = "d\<lparr>md_acc := md_acc d @ ys\<rparr>"
  note app = maretron_parse_append [of "md_acc d" "md_state d" ys]
  show ?case
  proof (cases "maretron_parse (md_acc d) (md_state d)")
    case NeedMore
    then show ?thesis by (simp add: maretron_drain.simps [of ts d])
  next
    case (MDrop n)
    have "drop n (md_acc d @ ys) = drop n (md_acc d) @ ys" by (rule progress_drop(1) [OF MDrop])
    then show ?thesis
      using 1(3) [OF MDrop] MDrop app
      by (simp add: maretron_drain.simps [of ts d] maretron_drain.simps [of ts ?d])
  next
    case (MText l n)
    let ?base = "d\<lparr>md_acc := drop n (md_acc d)\<rparr>"
    obtain d1 e1 where h: "handle_text l ?base = (d1, e1)" by (cases "handle_text l ?base")
    have dr: "drop n (md_acc d @ ys) = drop n (md_acc d) @ ys" by (rule progress_drop(2) [OF MText])
    have ht: "handle_text l (?d\<lparr>md_acc := drop n (md_acc ?d)\<rparr>) = (d1\<lparr>md_acc := md_acc d1 @ ys\<rparr>, e1)"
      using handle_text_append [of l ?base ys] by (simp add: dr h del: drop_append)
    have pa: "maretron_parse (md_acc ?d) (md_state ?d) = MText l n" using app MText by simp
    have "maretron_drain ts ?d =
        (let (d2, e2) = maretron_drain ts (d1\<lparr>md_acc := md_acc d1 @ ys\<rparr>) in (d2, e1 @ e2))"
      unfolding maretron_drain.simps [of ts ?d] pa parse_outcome.case ht by (simp add: Let_def)
    moreover have "maretron_drain ts d = (let (d2, e2) = maretron_drain ts d1 in (d2, e1 @ e2))"
      unfolding maretron_drain.simps [of ts d] MText parse_outcome.case h by (simp add: Let_def)
    ultimately show ?thesis
      using 1(2) [OF MText h [symmetric] refl] by (simp add: case_prod_beta Let_def)
  next
    case (MFrame f n)
    have "drop n (md_acc d @ ys) = drop n (md_acc d) @ ys" by (rule progress_drop(3) [OF MFrame])
    then show ?thesis
      using 1(1) [OF MFrame] MFrame app
      by (simp add: maretron_drain.simps [of ts d] maretron_drain.simps [of ts ?d] case_prod_beta Let_def)
  qed
qed

interpretation maretron: device_decoder "maretron_decode ts" "\<lambda>_. True" for ts
proof
  fix a d b
  show "maretron_decode ts d (a @ b) =
      (let (s1, e1) = maretron_decode ts d a; (s2, e2) = maretron_decode ts s1 b in (s2, e1 @ e2))"
    using maretron_drain_append [of ts "d\<lparr>md_acc := md_acc d @ a\<rparr>" b] by (simp add: maretron_decode_def)
qed

end
