(* ===== verification/Ikonvert_Session.thy ===== *)
theory Ikonvert_Session
  imports Codecs Ikonvert_Lines
begin

section \<open>The iKonvert session (canboat-io/src/device/ikonvert.rs)\<close>

text \<open>
  The line decoder with its handshake, a state machine driven by the acknowledgements of the device: even states are
  ready to send, odd states wait.  The clock text put on frames is the argument \<open>now\<close>.
\<close>

record ik_config =
  ic_rx_list :: "string option"
  ic_tx_list :: "string option"
  ic_rate_limit_off :: bool
  ic_skip_init :: bool

definition STATE_DONE :: nat where "STATE_DONE = 0"
definition STATE_MAYBE_LIMIT_OFF :: nat where "STATE_MAYBE_LIMIT_OFF = 2"
definition STATE_WAIT_INIT_ACK :: nat where "STATE_WAIT_INIT_ACK = 3"
definition STATE_SEND_INIT :: nat where "STATE_SEND_INIT = 4"
definition STATE_MAYBE_SHOWLISTS :: nat where "STATE_MAYBE_SHOWLISTS = 6"
definition STATE_MAYBE_TX_LIST :: nat where "STATE_MAYBE_TX_LIST = 8"
definition STATE_WAIT_TX_LIST_ACK :: nat where "STATE_WAIT_TX_LIST_ACK = 7"
definition STATE_MAYBE_RX_LIST :: nat where "STATE_MAYBE_RX_LIST = 10"
definition STATE_WAIT_RX_LIST_ACK :: nat where "STATE_WAIT_RX_LIST_ACK = 9"
definition STATE_SEND_RESET :: nat where "STATE_SEND_RESET = 12"
definition STATE_WAIT_RESET_ACK :: nat where "STATE_WAIT_RESET_ACK = 11"
definition STATE_WAIT_OFFLINE_ACK :: nat where "STATE_WAIT_OFFLINE_ACK = 13"

lemmas ik_states = STATE_DONE_def STATE_MAYBE_LIMIT_OFF_def STATE_WAIT_INIT_ACK_def STATE_SEND_INIT_def
  STATE_MAYBE_SHOWLISTS_def STATE_MAYBE_TX_LIST_def STATE_WAIT_TX_LIST_ACK_def STATE_MAYBE_RX_LIST_def
  STATE_WAIT_RX_LIST_ACK_def STATE_SEND_RESET_def STATE_WAIT_RESET_ACK_def STATE_WAIT_OFFLINE_ACK_def

definition crlf :: string where
  "crlf = [CHR 0x0D, CHR 0x0A]"

text \<open>The loop goes down through the even states to the next command.\<close>

function next_init_command :: "ik_config \<Rightarrow> nat \<Rightarrow> nat \<times> string option" where
  "next_init_command c st =
     (if st = STATE_SEND_RESET then (STATE_WAIT_RESET_ACK, Some (''$PDGY,N2NET_RESET'' @ crlf))
      else if st = STATE_MAYBE_RX_LIST then
        (case ic_rx_list c of
           Some l \<Rightarrow> (STATE_WAIT_RX_LIST_ACK, Some (''$PDGY,RX_LIST,'' @ l @ crlf))
         | None \<Rightarrow> next_init_command c STATE_MAYBE_TX_LIST)
      else if st = STATE_MAYBE_TX_LIST then
        (case ic_tx_list c of
           Some l \<Rightarrow> (STATE_WAIT_TX_LIST_ACK, Some (''$PDGY,TX_LIST,'' @ l @ crlf))
         | None \<Rightarrow> next_init_command c STATE_MAYBE_SHOWLISTS)
      else if st = STATE_MAYBE_SHOWLISTS then next_init_command c STATE_SEND_INIT
      else if st = STATE_SEND_INIT then
        (STATE_WAIT_INIT_ACK, Some (if ic_rx_list c \<noteq> None then TX_ONLINE_NORMAL else TX_ONLINE_ALL))
      else if st = STATE_MAYBE_LIMIT_OFF then
        (STATE_DONE, if ic_rate_limit_off c then Some TX_LIMIT_OFF else None)
      else (st, None))"
  by pat_completeness auto
termination
  by (relation "measure snd") (auto simp: ik_states)

declare next_init_command.simps [simp del]

record ik_decoder =
  id_acc :: string
  id_config :: ik_config
  id_init_state :: nat

definition ik_decoder_new :: "ik_config \<Rightarrow> ik_decoder" where
  "ik_decoder_new c =
     \<lparr>id_acc = [], id_config = c,
      id_init_state = (if ic_skip_init c then STATE_DONE else STATE_WAIT_OFFLINE_ACK)\<rparr>"

text \<open>Run the handshake on from an even state and send what comes out.\<close>

definition ik_send_next :: "ik_decoder \<Rightarrow> nat \<Rightarrow> ik_decoder \<times> parse_error device_event list" where
  "ik_send_next d st =
     (let (st, cmd) = next_init_command (id_config d) st
      in (d\<lparr>id_init_state := st\<rparr>, case cmd of Some s \<Rightarrow> [DevSend (bytes_of s)] | None \<Rightarrow> []))"

definition advance_after_text :: "ik_decoder \<Rightarrow> ik_decoder \<times> parse_error device_event list" where
  "advance_after_text d =
     (if id_init_state d = STATE_WAIT_OFFLINE_ACK then ik_send_next d STATE_SEND_RESET
      else if id_init_state d = STATE_DONE then ik_send_next d STATE_SEND_RESET
      else (d, []))"

definition advance_after_ack :: "ik_decoder \<Rightarrow> ik_decoder \<times> parse_error device_event list" where
  "advance_after_ack d =
     (let st = id_init_state d in
      if st = STATE_DONE \<or> st = STATE_WAIT_OFFLINE_ACK \<or> st mod 2 = 0 then (d, [])
      else ik_send_next d (st - 1))"

definition maybe_resend_offline :: "ik_decoder \<Rightarrow> parse_error device_event list" where
  "maybe_resend_offline d =
     (if id_init_state d \<noteq> STATE_WAIT_OFFLINE_ACK then [] else [DevSend (bytes_of TX_OFFLINE)])"

definition handle_control :: "string \<Rightarrow> ik_decoder \<Rightarrow> string \<Rightarrow> ik_decoder \<times> parse_error device_event list" where
  "handle_control now d body =
     (if starts_with body ''TEXT,'' then advance_after_text d
      else if starts_with body ''ACK,'' then advance_after_ack d
      else if starts_with body ''NAK,'' then (d, [])
      else if starts_with body ''000000,'' then
        (d, (case synthesize_network_status body now of Some f \<Rightarrow> [DevFrame f] | None \<Rightarrow> []) @ maybe_resend_offline d)
      else (d, maybe_resend_offline d))"

text \<open>\<open>find\<close> of a text: what follows the first occurrence.\<close>

fun after_first :: "string \<Rightarrow> string \<Rightarrow> string option" where
  "after_first pat [] = (if pat = [] then Some [] else None)"
| "after_first pat (c # s) =
     (if starts_with (c # s) pat then Some (drop (length pat) (c # s)) else after_first pat s)"

definition ik_line :: "string \<Rightarrow> ik_decoder \<Rightarrow> string \<Rightarrow> ik_decoder \<times> parse_error device_event list" where
  "ik_line now d line =
     (let trimmed = trim_newlines line in
      if trimmed = [] then (d, [])
      else case ikonvert_parse_line trimmed of
        Inr (IkFrame f) \<Rightarrow> (d, [DevFrame (f\<lparr>rf_timestamp := Some now\<rparr>)])
      | Inr (IkControl c) \<Rightarrow> handle_control now d c
      | Inr IkOther \<Rightarrow> (d, [])
      | Inl e \<Rightarrow>
         (case after_first ''$PDGY,TEXT,'' trimmed of
            Some rest \<Rightarrow> handle_control now d (''TEXT,'' @ rest)
          | None \<Rightarrow> (d, [DevError e])))"

fun ik_lines :: "string \<Rightarrow> ik_decoder \<Rightarrow> string list \<Rightarrow> ik_decoder \<times> parse_error device_event list" where
  "ik_lines now d [] = (d, [])"
| "ik_lines now d (l # ls) =
     (let (d, e1) = ik_line now d l; (d, e2) = ik_lines now d ls in (d, e1 @ e2))"

definition ik_decode :: "string \<Rightarrow> ik_decoder \<Rightarrow> u8 list \<Rightarrow> ik_decoder \<times> parse_error device_event list" where
  "ik_decode now d bytes =
     (let (lines, acc) = drain_lines (id_acc d @ text_of bytes) in ik_lines now (d\<lparr>id_acc := acc\<rparr>) lines)"

definition ik_init_bytes :: "bool \<Rightarrow> u8 list" where
  "ik_init_bytes skip_init = (if skip_init then [] else bytes_of TX_OFFLINE)"

definition ik_encode_frame :: "raw_frame \<Rightarrow> u8 list option" where
  "ik_encode_frame f = (if rf_pgn f \<ge> SYNTHETIC_PGN then None else Some (bytes_of (encode_tx_frame f)))"

subsection \<open>Cutting the input\<close>

lemma send_next_acc: "ik_send_next ((d :: ik_decoder)\<lparr>id_acc := a\<rparr>) st = apfst (id_acc_update (\<lambda>_. a)) (ik_send_next d st)"
  by (simp add: ik_send_next_def case_prod_beta)

lemma ik_line_acc: "ik_line now ((d :: ik_decoder)\<lparr>id_acc := a\<rparr>) l = apfst (id_acc_update (\<lambda>_. a)) (ik_line now d l)"
  by (simp add: ik_line_def Let_def handle_control_def advance_after_text_def advance_after_ack_def
      maybe_resend_offline_def send_next_acc split: sum.split ikonvert_line.split option.split)

lemma ik_lines_acc: "ik_lines now ((d :: ik_decoder)\<lparr>id_acc := a\<rparr>) ls = apfst (id_acc_update (\<lambda>_. a)) (ik_lines now d ls)"
proof (induction ls arbitrary: d)
  case (Cons l ls)
  show ?case by (simp add: ik_line_acc Cons.IH case_prod_beta)
qed simp

lemma ik_lines_append:
  "ik_lines now d (as @ bs) = (let (d1, e1) = ik_lines now d as; (d2, e2) = ik_lines now d1 bs in (d2, e1 @ e2))"
  by (induction as arbitrary: d) (simp_all add: case_prod_beta)

interpretation ik: device_decoder "ik_decode now" whole_utf8 for now
proof
  fix a and d :: ik_decoder and b
  assume valid: "whole_utf8 a"
  obtain l1 r1 where D1: "drain_lines (id_acc d @ text_of a) = (l1, r1)" by (cases "drain_lines (id_acc d @ text_of a)")
  obtain l2 r2 where D2: "drain_lines (r1 @ text_of b) = (l2, r2)" by (cases "drain_lines (r1 @ text_of b)")
  have D: "drain_lines (id_acc d @ text_of (a @ b)) = (l1 @ l2, r2)"
    using drain_lines_append [of "id_acc d @ text_of a" "text_of b"] by (simp add: text_of_append [OF valid] D1 D2)
  obtain d1 e1 where L1: "ik_lines now d l1 = (d1, e1)" by (cases "ik_lines now d l1")
  have L: "ik_lines now (d\<lparr>id_acc := r1\<rparr>) l1 = (d1\<lparr>id_acc := r1\<rparr>, e1)" "ik_lines now (d\<lparr>id_acc := r2\<rparr>) l1 = (d1\<lparr>id_acc := r2\<rparr>, e1)"
    by (simp_all add: ik_lines_acc L1)
  have "ik_lines now (d1\<lparr>id_acc := r2\<rparr>) l2 = ik_lines now (d1\<lparr>id_acc := r1, id_acc := r2\<rparr>) l2" by simp
  then show "ik_decode now d (a @ b) =
      (let (s1, e1) = ik_decode now d a; (s2, e2) = ik_decode now s1 b in (s2, e1 @ e2))"
    by (simp add: ik_decode_def D D1 D2 L ik_lines_append)
qed

text \<open>
  C22: How a serial port or socket cuts the received bytes into reads does not matter.  Two ways of cutting the same bytes leave
  the decoder in the same state with the same events in the same order: for the NGT-1 and Maretron codecs always, for the CSV and
  iKonvert codecs when every read is well-formed UTF-8.  These two convert each read to text by itself, so a character of
  several bytes that is cut in two is lost to U+FFFD; all-ASCII traffic is never affected.
\<close>

theorem reads_do_not_matter:
  assumes "cs \<noteq> []" "ds \<noteq> []" "concat cs = concat ds"
  shows "feed ngt_decode s1 cs = feed ngt_decode s1 ds \<and>
    feed (maretron_decode now) s2 cs = feed (maretron_decode now) s2 ds \<and>
    (list_all whole_utf8 cs \<and> list_all whole_utf8 ds \<longrightarrow>
      feed csv_decode s3 cs = feed csv_decode s3 ds \<and> feed (ik_decode now) s4 cs = feed (ik_decode now) s4 ds)"
  using ngt.feed_eqI [OF assms] maretron.feed_eqI [OF assms] csv.feed_eqI [OF assms] ik.feed_eqI [OF assms]
  by (simp add: list_all_iff)

lemma reads_do_not_matter_witness:
  "feed csv_decode [] [utf8_bytes [35, 0xE9], bytes_of ''x''] = feed csv_decode [] [utf8_bytes [35], utf8_bytes [0xE9, 120]]"
proof -
  let ?cs = "[utf8_bytes [35, 0xE9], bytes_of ''x'']" and ?ds = "[utf8_bytes [35], utf8_bytes [0xE9, 120]]"
  have x: "bytes_of ''x'' = utf8_bytes [120]" by (simp add: bytes_of_def utf8_bytes_def utf8_char_def)
  have "concat ?cs = concat ?ds" by (simp add: x utf8_bytes_def)
  moreover have "list_all whole_utf8 ?cs" "list_all whole_utf8 ?ds"
    by (simp_all add: x whole_utf8_bytes is_scalar_def)
  ultimately show ?thesis using reads_do_not_matter [of ?cs ?ds] by simp
qed

text \<open>The cut that does matter: the two bytes of one character in two reads become two replacement characters.\<close>

lemma cut_character_is_lost:
  "text_of [0xC3, 0xA9] = map char_of [0xC3, 0xA9 :: nat] \<and>
   text_of [0xC3] @ text_of [0xA9] = map char_of [0xEF, 0xBF, 0xBD, 0xEF, 0xBF, 0xBD :: nat]"
  by (simp add: text_of_def from_utf8_lossy_def utf8_lossy.simps utf8_step_def second_range_def utf8_bytes_def utf8_char_def
      REPLACEMENT_def)

subsection \<open>The handshake\<close>

text \<open>The commands that wait for an acknowledgement after the reset, and the one that does not.\<close>

definition list_commands :: "ik_config \<Rightarrow> string list" where
  "list_commands c =
     (case ic_rx_list c of Some l \<Rightarrow> [''$PDGY,RX_LIST,'' @ l @ crlf] | None \<Rightarrow> []) @
     (case ic_tx_list c of Some l \<Rightarrow> [''$PDGY,TX_LIST,'' @ l @ crlf] | None \<Rightarrow> []) @
     [if ic_rx_list c \<noteq> None then TX_ONLINE_NORMAL else TX_ONLINE_ALL]"

definition limit_commands :: "ik_config \<Rightarrow> string list" where
  "limit_commands c = (if ic_rate_limit_off c then [TX_LIMIT_OFF] else [])"

definition pending_commands :: "ik_config \<Rightarrow> nat \<Rightarrow> string list" where
  "pending_commands c st =
     (if st = STATE_WAIT_RESET_ACK then list_commands c
      else if st = STATE_WAIT_RX_LIST_ACK then
        (case ic_tx_list c of Some l \<Rightarrow> [''$PDGY,TX_LIST,'' @ l @ crlf] | None \<Rightarrow> []) @
        [if ic_rx_list c \<noteq> None then TX_ONLINE_NORMAL else TX_ONLINE_ALL]
      else if st = STATE_WAIT_TX_LIST_ACK then [if ic_rx_list c \<noteq> None then TX_ONLINE_NORMAL else TX_ONLINE_ALL]
      else [])"

definition waiting :: "nat \<Rightarrow> bool" where
  "waiting st \<longleftrightarrow> st \<in> {STATE_WAIT_RESET_ACK, STATE_WAIT_RX_LIST_ACK, STATE_WAIT_TX_LIST_ACK, STATE_WAIT_INIT_ACK}"

definition sent :: "'e device_event list \<Rightarrow> u8 list list" where
  "sent evs = concat (map (\<lambda>e. case e of DevSend b \<Rightarrow> [b] | _ \<Rightarrow> []) evs)"

lemma sent_simps [simp]:
  "sent [] = []" "sent (DevSend b # es) = b # sent es" "sent (DevFrame f # es) = sent es"
  "sent (DevError x # es) = sent es" "sent (as @ bs) = sent as @ sent bs"
  by (simp_all add: sent_def)

fun ik_controls :: "string \<Rightarrow> ik_decoder \<Rightarrow> string list \<Rightarrow> ik_decoder \<times> parse_error device_event list" where
  "ik_controls now d [] = (d, [])"
| "ik_controls now d (b # bs) =
     (let (d, e1) = handle_control now d b; (d, e2) = ik_controls now d bs in (d, e1 @ e2))"

text \<open>One acknowledgement moves on by one command; the last one ends the handshake.\<close>

lemma next_command:
  assumes "waiting st"
  shows "case pending_commands c st of
      cmd # cmds \<Rightarrow> (\<exists>st'. next_init_command c (st - 1) = (st', Some cmd) \<and> waiting st' \<and> pending_commands c st' = cmds)
    | [] \<Rightarrow> st = STATE_WAIT_INIT_ACK"
proof -
  from assms consider "st = 11" | "st = 9" | "st = 7" | "st = 3" by (auto simp: waiting_def ik_states)
  then show ?thesis
  proof cases
    case 1
    then show ?thesis
      by (cases "ic_rx_list c"; cases "ic_tx_list c")
        (simp_all add: pending_commands_def list_commands_def waiting_def next_init_command.simps ik_states)
  next
    case 2
    then show ?thesis
      by (cases "ic_tx_list c")
        (simp_all add: pending_commands_def list_commands_def waiting_def next_init_command.simps ik_states)
  qed (simp_all add: pending_commands_def list_commands_def waiting_def next_init_command.simps ik_states)
qed

lemma waiting_odd: "waiting st \<Longrightarrow> st \<noteq> STATE_DONE \<and> st \<noteq> STATE_WAIT_OFFLINE_ACK \<and> st mod 2 \<noteq> 0"
  by (auto simp: waiting_def ik_states)

lemma ack_step:
  assumes "waiting (id_init_state d)" "starts_with b ''ACK,''"
  shows "handle_control now d b = ik_send_next d (id_init_state d - 1)"
proof -
  have "\<not> starts_with b ''TEXT,''" using assms(2) by (cases b) (auto simp: starts_with_def)
  then show ?thesis
    using assms(2) waiting_odd [OF assms(1)] by (simp add: handle_control_def advance_after_ack_def Let_def)
qed

lemma other_step:
  assumes "id_init_state d \<noteq> STATE_WAIT_OFFLINE_ACK" "\<not> starts_with b ''TEXT,''" "\<not> starts_with b ''ACK,'' \<or> id_init_state d = STATE_DONE"
  shows "\<exists>es. handle_control now d b = (d, es) \<and> sent es = []"
  using assms
  by (auto simp: handle_control_def maybe_resend_offline_def advance_after_ack_def Let_def split: option.split)

lemma done_stays:
  "id_init_state d = STATE_DONE \<Longrightarrow> \<forall>b \<in> set bs. \<not> starts_with b ''TEXT,'' \<Longrightarrow>
   \<exists>es. ik_controls now d bs = (d, es) \<and> sent es = []"
proof (induction bs)
  case (Cons b bs)
  have "id_init_state d \<noteq> STATE_WAIT_OFFLINE_ACK" using Cons.prems(1) by (simp add: ik_states)
  then obtain es where "handle_control now d b = (d, es)" "sent es = []"
    using other_step [of d b] Cons.prems by auto
  moreover obtain es2 where "ik_controls now d bs = (d, es2)" "sent es2 = []" using Cons by auto
  ultimately show ?case by simp
qed simp

lemma acks_finish:
  assumes "waiting (id_init_state d)" "\<forall>b \<in> set bs. \<not> starts_with b ''TEXT,''"
    "length (pending_commands (id_config d) (id_init_state d)) < length (filter (\<lambda>b. starts_with b ''ACK,'') bs)"
  shows "\<exists>es. ik_controls now d bs = (d\<lparr>id_init_state := STATE_DONE\<rparr>, es) \<and>
    sent es = map bytes_of (pending_commands (id_config d) (id_init_state d) @ limit_commands (id_config d))"
  using assms
proof (induction bs arbitrary: d)
  case (Cons b bs)
  let ?c = "id_config d" and ?st = "id_init_state d"
  have nt: "\<not> starts_with b ''TEXT,''" "\<forall>b \<in> set bs. \<not> starts_with b ''TEXT,''" using Cons.prems(2) by simp_all
  show ?case
  proof (cases "starts_with b ''ACK,''")
    case False
    then obtain es where es: "handle_control now d b = (d, es)" "sent es = []"
      using other_step [of d b now] waiting_odd [OF Cons.prems(1)] nt(1) by auto
    moreover have "\<exists>es. ik_controls now d bs = (d\<lparr>id_init_state := STATE_DONE\<rparr>, es) \<and>
        sent es = map bytes_of (pending_commands ?c ?st @ limit_commands ?c)"
      by (rule Cons.IH) (use Cons.prems nt False in simp_all)
    ultimately show ?thesis by auto
  next
    case True
    note A = ack_step [OF Cons.prems(1) True, of now]
    show ?thesis
    proof (cases "pending_commands ?c ?st")
      case Nil
      then have st: "?st = 3" using next_command [OF Cons.prems(1), of ?c] by (simp add: ik_states)
      have "next_init_command ?c 2 = (STATE_DONE, if ic_rate_limit_off ?c then Some TX_LIMIT_OFF else None)"
        by (simp add: next_init_command.simps ik_states)
      then have "handle_control now d b =
          (d\<lparr>id_init_state := STATE_DONE\<rparr>, map (\<lambda>s. DevSend (bytes_of s)) (limit_commands ?c))"
        unfolding A by (simp add: ik_send_next_def st limit_commands_def)
      moreover obtain es where "ik_controls now (d\<lparr>id_init_state := STATE_DONE\<rparr>) bs = (d\<lparr>id_init_state := STATE_DONE\<rparr>, es)" "sent es = []"
        using done_stays [of "d\<lparr>id_init_state := STATE_DONE\<rparr>" bs now] nt(2) by auto
      ultimately show ?thesis using Nil by (simp add: limit_commands_def)
    next
      case (Cons cmd cmds)
      then obtain st' where n: "next_init_command ?c (?st - 1) = (st', Some cmd)" "waiting st'" "pending_commands ?c st' = cmds"
        using next_command [OF Cons.prems(1), of ?c] by auto
      have h: "handle_control now d b = (d\<lparr>id_init_state := st'\<rparr>, [DevSend (bytes_of cmd)])"
        unfolding A ik_send_next_def n(1) by simp
      have "\<exists>es. ik_controls now (d\<lparr>id_init_state := st'\<rparr>) bs = (d\<lparr>id_init_state := st', id_init_state := STATE_DONE\<rparr>, es) \<and>
          sent es = map bytes_of (pending_commands (id_config (d\<lparr>id_init_state := st'\<rparr>)) (id_init_state (d\<lparr>id_init_state := st'\<rparr>))
            @ limit_commands (id_config (d\<lparr>id_init_state := st'\<rparr>)))"
        by (rule Cons.IH) (use Cons.prems n nt True Cons in simp_all)
      then show ?thesis using h n(3) Cons by auto
    qed
  qed
qed simp

text \<open>
  C21: The handshake ends: once the device has answered the first command with its \<open>TEXT\<close> banner, every list of control sentences with no
  further banner and one \<open>ACK\<close> for each command brings the session to the done state, and in between exactly the reset, the configured
  filter lists, the init command and the rate limit command are sent, in this order; all other sentences only pass by.
\<close>

theorem ikonvert_handshake:
  assumes "id_init_state d = STATE_WAIT_OFFLINE_ACK" "starts_with b ''TEXT,''"
    "\<forall>b \<in> set bs. \<not> starts_with b ''TEXT,''"
    "length (filter (\<lambda>b. starts_with b ''ACK,'') bs) > length (list_commands (id_config d))"
  shows "fst (ik_controls now d (b # bs)) = d\<lparr>id_init_state := STATE_DONE\<rparr> \<and>
    sent (snd (ik_controls now d (b # bs))) =
      map bytes_of ([''$PDGY,N2NET_RESET'' @ crlf] @ list_commands (id_config d) @ limit_commands (id_config d))"
proof -
  let ?d = "d\<lparr>id_init_state := STATE_WAIT_RESET_ACK\<rparr>"
  have "handle_control now d b = (?d, [DevSend (bytes_of (''$PDGY,N2NET_RESET'' @ crlf))])"
    using assms(1,2)
    by (simp add: handle_control_def advance_after_text_def ik_send_next_def next_init_command.simps)
  moreover have p: "pending_commands (id_config ?d) (id_init_state ?d) = list_commands (id_config d)"
    by (simp add: pending_commands_def)
  have "waiting (id_init_state ?d)" by (simp add: waiting_def)
  from acks_finish [OF this assms(3), of now] assms(4) p obtain es where
    "ik_controls now ?d bs = (?d\<lparr>id_init_state := STATE_DONE\<rparr>, es)"
    "sent es = map bytes_of (list_commands (id_config d) @ limit_commands (id_config d))" by auto
  ultimately show ?thesis by simp
qed

theorem ikonvert_handshake_witness:
  "id_init_state (fst (ik_controls [] (ik_decoder_new
      \<lparr>ic_rx_list = Some ''127250'', ic_tx_list = None, ic_rate_limit_off = True, ic_skip_init = False\<rparr>)
      [''TEXT,x'', ''ACK,1'', ''NAK,0'', ''ACK,2'', ''ACK,3''])) = 0"
proof -
  let ?d = "ik_decoder_new \<lparr>ic_rx_list = Some ''127250'', ic_tx_list = None, ic_rate_limit_off = True, ic_skip_init = False\<rparr>"
  have "fst (ik_controls [] ?d (''TEXT,x'' # [''ACK,1'', ''NAK,0'', ''ACK,2'', ''ACK,3''])) = ?d\<lparr>id_init_state := STATE_DONE\<rparr>"
    by (rule ikonvert_handshake [THEN conjunct1])
      (simp_all add: ik_decoder_new_def starts_with_def list_commands_def)
  then show ?thesis by (simp add: STATE_DONE_def)
qed

text \<open>
  A banner in the middle of the handshake (the device has restarted) is ignored: nothing is sent and the session keeps
  waiting for an acknowledgement of the old command.
\<close>

theorem text_mid_handshake_ignored:
  assumes "waiting (id_init_state d)" "starts_with b ''TEXT,''"
  shows "handle_control now d b = (d, [])"
  using assms waiting_odd [OF assms(1)] by (simp add: handle_control_def advance_after_text_def)

lemma text_mid_handshake_ignored_witness:
  "handle_control [] ((ik_decoder_new \<lparr>ic_rx_list = None, ic_tx_list = None, ic_rate_limit_off = False, ic_skip_init = False\<rparr>)
     \<lparr>id_init_state := 11\<rparr>) ''TEXT,x'' =
   ((ik_decoder_new \<lparr>ic_rx_list = None, ic_tx_list = None, ic_rate_limit_off = False, ic_skip_init = False\<rparr>)\<lparr>id_init_state := 11\<rparr>, [])"
  by (rule text_mid_handshake_ignored) (simp_all add: waiting_def ik_states starts_with_def)

end
