(* ===== verification/Supervisor.thy ===== *)
theory Supervisor
  imports Raw_Frame
begin

section \<open>The reconnect supervisor (canboat-io/src/device/supervisor.rs)\<close>

text \<open>
  The manager loop over the outcomes of \<open>open\<close>, in milliseconds, with the sleeps it takes, and the interruptible sleep.
  The session itself (threads and channels) is the input \<open>Opened\<close>.
\<close>

definition INITIAL_BACKOFF :: nat where "INITIAL_BACKOFF = 500"
definition MAX_BACKOFF :: nat where "MAX_BACKOFF = 30000"

datatype open_result = Opened | OpenFailed

text \<open>The interruptible sleep: what the stop flag reads before each step of at most 50 ms; the result is the time slept.\<close>

function sleep_interruptible :: "(nat \<Rightarrow> bool) \<Rightarrow> nat \<Rightarrow> nat \<Rightarrow> nat" where
  "sleep_interruptible stop n remaining =
     (if remaining = 0 \<or> stop n then 0
      else let s = min 50 remaining in s + sleep_interruptible stop (n + 1) (remaining - s))"
  by pat_completeness auto
termination
  by (relation "measure (\<lambda>(_, _, r). r)") auto

declare sleep_interruptible.simps [simp del]

text \<open>One turn of the loop that is not stopped: the new backoff and the sleep asked for.\<close>

definition supervisor_turn :: "nat \<Rightarrow> open_result \<Rightarrow> nat \<times> nat" where
  "supervisor_turn backoff r =
     (case r of
        Opened \<Rightarrow> (INITIAL_BACKOFF, 500)
      | OpenFailed \<Rightarrow> (min (backoff * 2) MAX_BACKOFF, backoff))"

text \<open>
  The loop over its inputs: what the stop flag reads before the attempt, the outcome of \<open>open\<close> and what the flag reads after
  the session.  The result is the list of sleeps.
\<close>

fun supervisor_loop :: "nat \<Rightarrow> (bool \<times> open_result \<times> bool) list \<Rightarrow> nat list" where
  "supervisor_loop backoff [] = []"
| "supervisor_loop backoff ((stopped, r, stopped_after) # rs) =
     (if stopped then []
      else if r = Opened \<and> stopped_after then []
      else let (backoff, sleep) = supervisor_turn backoff r in sleep # supervisor_loop backoff rs)"

definition supervisor_run :: "(bool \<times> open_result \<times> bool) list \<Rightarrow> nat list" where
  "supervisor_run rs = supervisor_loop INITIAL_BACKOFF rs"

abbreviation failure :: "bool \<times> open_result \<times> bool" where
  "failure \<equiv> (False, OpenFailed, False)"

abbreviation session :: "bool \<times> open_result \<times> bool" where
  "session \<equiv> (False, Opened, False)"

lemma sleep_never_stopped: "(\<And>k. \<not> stop k) \<Longrightarrow> sleep_interruptible stop n r = r"
  by (induction stop n r rule: sleep_interruptible.induct)
    (subst sleep_interruptible.simps, simp add: Let_def)

text \<open>
  C34: The interruptible sleep ends: without a stop it lasts exactly the time asked for, never longer, and it ends within 50 ms
  of the first step at which the stop flag is set.
\<close>

theorem sleep_bounded:
  "sleep_interruptible (\<lambda>_. False) n r = r \<and> sleep_interruptible stop n r \<le> r \<and>
   sleep_interruptible (\<lambda>i. i \<ge> n + k) n r \<le> 50 * k"
proof (intro conjI)
  show "sleep_interruptible (\<lambda>_. False) n r = r" by (rule sleep_never_stopped) simp
  show "sleep_interruptible stop n r \<le> r"
  proof (induction stop n r rule: sleep_interruptible.induct)
    case (1 stop n remaining)
    show ?case
    proof (cases "remaining = 0 \<or> stop n")
      case False
      from 1 [OF False refl] show ?thesis
        using False by (subst sleep_interruptible.simps) (simp add: Let_def min_def split: if_splits)
    qed (subst sleep_interruptible.simps, simp)
  qed
  show "sleep_interruptible (\<lambda>i. i \<ge> n + k) n r \<le> 50 * k"
  proof (induction k arbitrary: n r)
    case 0
    show ?case by (subst sleep_interruptible.simps) simp
  next
    case (Suc k)
    have "sleep_interruptible (\<lambda>i. i \<ge> (n + 1) + k) (n + 1) (r - min 50 r) \<le> 50 * k" by (rule Suc)
    then have le: "sleep_interruptible (\<lambda>i. i \<ge> n + Suc k) (n + 1) (r - min 50 r) \<le> 50 * k" by simp
    have "sleep_interruptible (\<lambda>i. i \<ge> n + Suc k) n r \<le> 50 + sleep_interruptible (\<lambda>i. i \<ge> n + Suc k) (n + 1) (r - min 50 r)"
      by (subst sleep_interruptible.simps) (simp add: Let_def)
    also have "\<dots> \<le> 50 * Suc k" using le by simp
    finally show ?case .
  qed
qed

text \<open>The backoff after \<open>k\<close> failures in a row.\<close>

lemma supervisor_failures:
  "b \<le> MAX_BACKOFF \<Longrightarrow> supervisor_loop b (replicate k failure @ rs) =
     map (\<lambda>i. min (b * 2 ^ i) MAX_BACKOFF) [0..<k] @ supervisor_loop (min (b * 2 ^ k) MAX_BACKOFF) rs"
proof (induction k arbitrary: b)
  case (Suc k)
  have m: "min (min (b * 2) MAX_BACKOFF * 2 ^ i) MAX_BACKOFF = min (b * 2 ^ Suc i) MAX_BACKOFF" for i
  proof (cases "b * 2 \<le> MAX_BACKOFF")
    case False
    have "MAX_BACKOFF * 1 \<le> MAX_BACKOFF * 2 ^ i" "(b * 2) * 1 \<le> (b * 2) * 2 ^ i"
      by (rule mult_le_mono2; simp)+
    then have "MAX_BACKOFF \<le> MAX_BACKOFF * 2 ^ i" "MAX_BACKOFF \<le> b * 2 * 2 ^ i" using False by linarith+
    then have "min (MAX_BACKOFF * 2 ^ i) MAX_BACKOFF = MAX_BACKOFF" "min (b * 2 * 2 ^ i) MAX_BACKOFF = MAX_BACKOFF"
      by (simp_all only: min_absorb2)
    moreover have "min (b * 2) MAX_BACKOFF = MAX_BACKOFF" using False by (simp add: min_absorb2)
    ultimately show ?thesis by (simp only: power_Suc mult.assoc)
  qed (simp add: mult.assoc)
  have "supervisor_loop (min (b * 2) MAX_BACKOFF) (replicate k failure @ rs) =
      map (\<lambda>i. min (b * 2 ^ Suc i) MAX_BACKOFF) [0..<k] @ supervisor_loop (min (b * 2 ^ Suc k) MAX_BACKOFF) rs"
    using Suc.IH [of "min (b * 2) MAX_BACKOFF"] by (simp add: m del: power_Suc)
  moreover have "map (\<lambda>i. min (b * 2 ^ i) MAX_BACKOFF) [0..<Suc k] =
      b # map (\<lambda>i. min (b * 2 ^ Suc i) MAX_BACKOFF) [0..<k]"
    using Suc.prems by (simp add: upt_conv_Cons map_Suc_upt [symmetric] comp_def del: upt_Suc power_Suc)
  ultimately show ?case by (simp add: supervisor_turn_def del: upt_Suc power_Suc)
qed simp

text \<open>
  The reconnect delays: after a session (or at the start) the \<open>k\<close>-th failure in a row is followed by a sleep of \<open>500 * 2^k\<close> ms,
  at most 30 s, a session by one of 500 ms, and every delay lies between 500 ms and 30 s.
\<close>

theorem supervisor_backoff:
  "supervisor_run (replicate k failure @ session # rs) =
     map (\<lambda>i. min (500 * 2 ^ i) 30000) [0..<k] @ 500 # supervisor_run rs \<and>
   list_all (\<lambda>d. 500 \<le> d \<and> d \<le> 30000) (supervisor_run rs)"
proof
  show "supervisor_run (replicate k failure @ session # rs) =
     map (\<lambda>i. min (500 * 2 ^ i) 30000) [0..<k] @ 500 # supervisor_run rs"
    using supervisor_failures [of 500 k "session # rs"]
    by (simp add: supervisor_run_def INITIAL_BACKOFF_def MAX_BACKOFF_def supervisor_turn_def)
  have "list_all (\<lambda>d. 500 \<le> d \<and> d \<le> 30000) (supervisor_loop b rs)" if "500 \<le> b" "b \<le> 30000" for b
    using that
    by (induction rs arbitrary: b)
      (auto simp: supervisor_turn_def INITIAL_BACKOFF_def MAX_BACKOFF_def split: open_result.split)
  then show "list_all (\<lambda>d. 500 \<le> d \<and> d \<le> 30000) (supervisor_run rs)"
    by (simp add: supervisor_run_def INITIAL_BACKOFF_def)
qed

end
