(* ===== verification/Responder.thy ===== *)
theory Responder
  imports Raw_Frame
begin

section \<open>The standard answers of a node (canboat-io/src/nmea\_responder.rs)\<close>

text \<open>
  The frames an addressable node answers discovery with.  The content of Product Information is a record; its encoding goes
  through the message builder over the generated PGN database and is a parameter of the theories that use it.
\<close>

definition PGN_ISO_ACK :: u32 where "PGN_ISO_ACK = 59392"
definition PGN_PGN_LIST :: u32 where "PGN_PGN_LIST = 126464"
definition PGN_HEARTBEAT :: u32 where "PGN_HEARTBEAT = 126993"

record product_info =
  pi_db_version :: i64
  pi_product_code :: i64
  pi_model_id :: string
  pi_software_version :: string
  pi_model_version :: string
  pi_model_serial :: string
  pi_certification_level :: i64
  pi_load_equivalency :: i64

definition pgn_list_frames :: "u8 \<Rightarrow> u8 \<Rightarrow> u32 list \<Rightarrow> u32 list \<Rightarrow> raw_frame list" where
  "pgn_list_frames src dst tx rx =
     map (\<lambda>(func, l). raw_frame_new None 6 PGN_PGN_LIST src dst
            (func # concat (map (\<lambda>pgn. take 3 (le_bytes 4 pgn)) l)))
       [(0, tx), (1, rx)]"

definition iso_ack_frame :: "u8 \<Rightarrow> u8 \<Rightarrow> u8 \<Rightarrow> u32 \<Rightarrow> raw_frame" where
  "iso_ack_frame src dst control pgn =
     (let p = le_bytes 4 pgn;
          data = [control, 0xff, 0xff, 0xff, 0xff, p ! 0, p ! 1, p ! 2]
      in raw_frame_new None 6 PGN_ISO_ACK src dst data)"

definition heartbeat_frame :: "u8 \<Rightarrow> u8 \<Rightarrow> u64 \<Rightarrow> raw_frame" where
  "heartbeat_frame src seq interval_ms =
     (let offset = (ucast (interval_ms div 10) :: u16);
          data = [ucast offset, ucast (drop_bit 8 offset), seq, 0xCC, 0xff, 0xff, 0xff, 0xff]
      in raw_frame_new None 7 PGN_HEARTBEAT src ADDR_GLOBAL data)"

text \<open>Every answer fits an identifier and a frame.\<close>

definition answer_ok :: "raw_frame \<Rightarrow> bool" where
  "answer_ok f \<longleftrightarrow> rf_prio f < 8 \<and> rf_pgn f < 2 ^ 18 \<and> length (rf_data f) \<le> RAWFRAME_MAX_SIZE"

lemma answers_ok [simp]:
  "answer_ok (iso_ack_frame s d c p)" "answer_ok (heartbeat_frame s q i)"
  "f \<in> set (pgn_list_frames s d tx rx) \<Longrightarrow> answer_ok f"
  by (auto simp: answer_ok_def iso_ack_frame_def heartbeat_frame_def pgn_list_frames_def
      PGN_ISO_ACK_def PGN_HEARTBEAT_def PGN_PGN_LIST_def Let_def)

text \<open>What a reader finds in the acknowledgement and the heartbeat.\<close>

lemma iso_ack_fields:
  "rf_data (iso_ack_frame s d c p) ! 0 = c"
  "p < 2 ^ 24 \<Longrightarrow> le24 (rf_data (iso_ack_frame s d c p) ! 5) (rf_data (iso_ack_frame s d c p) ! 6)
     (rf_data (iso_ack_frame s d c p) ! 7) = p"
proof -
  show "rf_data (iso_ack_frame s d c p) ! 0 = c"
    by (simp add: iso_ack_frame_def Let_def RAWFRAME_MAX_SIZE_def)
  show "p < 2 ^ 24 \<Longrightarrow> le24 (rf_data (iso_ack_frame s d c p) ! 5) (rf_data (iso_ack_frame s d c p) ! 6)
     (rf_data (iso_ack_frame s d c p) ! 7) = p"
    using le24_bytes [of p] by (simp add: iso_ack_frame_def Let_def RAWFRAME_MAX_SIZE_def le_bytes_def take_bit_24_id)
qed

lemma heartbeat_fields:
  assumes "i < 655360"
  shows "unat (from_le (take 2 (rf_data (heartbeat_frame s q i))) :: u16) = unat i div 10"
    and "rf_data (heartbeat_frame s q i) ! 2 = q"
proof -
  let ?o = "ucast (i div 10) :: u16"
  have "take 2 (rf_data (heartbeat_frame s q i)) = le_bytes 2 ?o"
    by (simp add: heartbeat_frame_def Let_def RAWFRAME_MAX_SIZE_def numeral_2_eq_2 le_bytes_Suc)
  then have "from_le (take 2 (rf_data (heartbeat_frame s q i))) = ?o"
    by (simp add: from_le_le_bytes)
  moreover have "unat ?o = unat i div 10"
    using assms by (simp add: unsigned_ucast_eq unat_div word_less_nat_alt take_bit_nat_eq_self)
  ultimately show "unat (from_le (take 2 (rf_data (heartbeat_frame s q i))) :: u16) = unat i div 10" by simp
qed (simp add: heartbeat_frame_def Let_def RAWFRAME_MAX_SIZE_def)

end
