(* ===== verification/Tx_Buffer.thy ===== *)
theory Tx_Buffer
  imports Can_Id Packet_Type Fast_Packet Timestamp
begin

section \<open>The transmit side of the SocketCAN gateway (canboat-io/src/device/socketcan.rs)\<close>

text \<open>
  \<open>TxBuffer\<close> with its per-PGN sequence counters, \<open>Bus::send\_pgn\<close>, which splits a fast-packet PGN, and the drain of one frame.
  The host the gateway runs on is a record: its clock, the kernel's counters, the table generated from the PGN database,
  the encoder of Product Information, the machine-id files, and which frames the socketcan crate accepts.  A queued CAN frame is the
  pair of its identifier and its data.  The lemmas bound the queue and the counters.
\<close>

definition CAN_EFF_MASK :: u32 where "CAN_EFF_MASK = 0x1FFFFFFF"
definition CAN_ERR_FLAG :: u32 where "CAN_ERR_FLAG = 0x20000000"
definition CAN_EFF_FLAG :: u32 where "CAN_EFF_FLAG = 0x80000000"
definition TX_BUFFER_CAPACITY :: usize where "TX_BUFFER_CAPACITY = 1024"

type_synonym can_frame = "u32 \<times> u8 list"

record tx_buffer =
  tb_queue :: "can_frame list"
  tb_overflowed :: usize
  tb_fast_seq :: "u32 \<times> u8 \<Rightarrow> u8 option"

definition tx_buffer_new :: tx_buffer where
  "tx_buffer_new = \<lparr>tb_queue = [], tb_overflowed = 0, tb_fast_seq = (\<lambda>_. None)\<rparr>"

definition next_fast_seq :: "u32 \<Rightarrow> u8 \<Rightarrow> tx_buffer \<Rightarrow> u8 \<times> tx_buffer" where
  "next_fast_seq pgn src tx =
     (let s = (case tb_fast_seq tx (pgn, src) of Some s \<Rightarrow> s | None \<Rightarrow> 0)
      in (s, tx\<lparr>tb_fast_seq := (tb_fast_seq tx)((pgn, src) \<mapsto> (s + 1) AND 0x07)\<rparr>))"

text \<open>\<open>accepts\<close>: the socketcan crate builds an extended frame from this identifier and data.\<close>

definition tx_push :: "(u32 \<Rightarrow> u8 list \<Rightarrow> bool) \<Rightarrow> u32 \<Rightarrow> u8 list \<Rightarrow> tx_buffer \<Rightarrow> tx_buffer" where
  "tx_push accepts can_id data tx =
     (if length (tb_queue tx) \<ge> TX_BUFFER_CAPACITY then tx\<lparr>tb_overflowed := tb_overflowed tx + 1\<rparr>
      else let i = can_id AND CAN_EFF_MASK in
           if \<not> accepts i data then tx else tx\<lparr>tb_queue := tb_queue tx @ [(i, data)]\<rparr>)"

datatype write_result = Written | WouldBlock | WriteError

definition tx_drain_one :: "write_result \<Rightarrow> tx_buffer \<Rightarrow> tx_buffer \<times> bool" where
  "tx_drain_one res tx =
     (case tb_queue tx of
        [] \<Rightarrow> (tx, False)
      | _ # rest \<Rightarrow>
          (case res of
             Written \<Rightarrow>
               (let tx = tx\<lparr>tb_queue := rest\<rparr>
                in (if tb_overflowed tx > 0 \<and> length (tb_queue tx) < TX_BUFFER_CAPACITY div 2
                    then tx\<lparr>tb_overflowed := 0\<rparr> else tx, True))
           | WouldBlock \<Rightarrow> (tx, False)
           | WriteError \<Rightarrow> (tx\<lparr>tb_queue := rest\<rparr>, False)))"

record 'p gateway_host =
  ho_now :: u64
  ho_fast_table :: "bool list"
  ho_accepts :: "u32 \<Rightarrow> u8 list \<Rightarrow> bool"
  ho_product :: "'p \<Rightarrow> u8 \<Rightarrow> raw_frame option"
  ho_version :: string
  ho_machine_files :: "string option list"
  ho_counter :: "string \<Rightarrow> u64 option"
  ho_bitrate :: "u32 option"

text \<open>The transmit ring, and what went to the consumer channel.\<close>

record gw_bus =
  bus_tx :: tx_buffer
  bus_out :: "raw_frame list"

definition bus_send :: "raw_frame \<Rightarrow> gw_bus \<Rightarrow> gw_bus" where
  "bus_send f b = b\<lparr>bus_out := bus_out b @ [f]\<rparr>"

definition send_pgn ::
  "'p gateway_host \<Rightarrow> u8 \<Rightarrow> u32 \<Rightarrow> u8 \<Rightarrow> u8 \<Rightarrow> u8 list \<Rightarrow> bool \<Rightarrow> gw_bus \<Rightarrow> gw_bus" where
  "send_pgn h prio pgn src dst data emit b =
     (let can_id = iso11783_compose prio pgn src dst;
          is_fast = (packet_type (ho_fast_table h) pgn = Fast);
          tx = (if \<not> is_fast then tx_push (ho_accepts h) can_id data (bus_tx b)
                else let (seq, tx) = next_fast_seq pgn src (bus_tx b)
                     in fold (tx_push (ho_accepts h) can_id) (fast_frames seq data) tx);
          b = b\<lparr>bus_tx := tx\<rparr>
      in if emit then bus_send (raw_frame_new (Some (format_iso (unat (ho_now h)))) prio pgn src dst data) b
         else b)"

definition emit_frames :: "'p gateway_host \<Rightarrow> raw_frame list \<Rightarrow> gw_bus \<Rightarrow> gw_bus" where
  "emit_frames h frames b =
     fold (\<lambda>f. send_pgn h (rf_prio f) (rf_pgn f) (rf_src f) (rf_dst f) (rf_data f) True) frames b"

subsection \<open>Bounds\<close>

definition tx_wf :: "tx_buffer \<Rightarrow> bool" where
  "tx_wf tx \<longleftrightarrow>
     length (tb_queue tx) \<le> TX_BUFFER_CAPACITY \<and>
     list_all (\<lambda>f. fst f < 2 ^ 29) (tb_queue tx) \<and>
     (\<forall>k s. tb_fast_seq tx k = Some s \<longrightarrow> s < 8)"

lemma eff_mask: "CAN_EFF_MASK = mask 29"
  by (simp add: CAN_EFF_MASK_def mask_eq_exp_minus_1)

lemma tx_wf_new [wf_intros]: "tx_wf tx_buffer_new"
  by (simp add: tx_wf_def tx_buffer_new_def)

lemma seq_mask: "(w :: u8) AND 7 < 8"
proof -
  have "w AND mask 3 < 2 ^ 3" by (rule and_mask_less') simp
  then show ?thesis by (simp add: mask_eq_exp_minus_1)
qed

lemma next_fast_seq_wf [wf_intros]: "tx_wf tx \<Longrightarrow> tx_wf (snd (next_fast_seq pgn src tx))"
  by (auto simp: tx_wf_def next_fast_seq_def Let_def seq_mask split: if_splits)

lemma next_fast_seq_bound: "tx_wf tx \<Longrightarrow> fst (next_fast_seq pgn src tx) < 8"
  by (auto simp: tx_wf_def next_fast_seq_def Let_def split: option.split)

lemma tx_push_wf [wf_intros]: "tx_wf tx \<Longrightarrow> tx_wf (tx_push accepts i data tx)"
proof -
  have "i AND CAN_EFF_MASK < 2 ^ 29" unfolding eff_mask by (rule and_mask_less') simp
  then show "tx_wf tx \<Longrightarrow> ?thesis" by (simp add: tx_wf_def tx_push_def Let_def)
qed

lemma tx_push_all_wf [wf_intros]: "tx_wf tx \<Longrightarrow> tx_wf (fold (tx_push accepts i) ds tx)"
  by (induction ds arbitrary: tx) (simp_all add: tx_push_wf)

lemma tx_drain_one_wf [wf_intros]: "tx_wf tx \<Longrightarrow> tx_wf (fst (tx_drain_one res tx))"
  by (auto simp: tx_drain_one_def tx_wf_def Let_def split: list.splits write_result.split)

lemma bus_send_tx [simp]: "bus_tx (bus_send f b) = bus_tx b"
  by (simp add: bus_send_def)

lemma send_pgn_wf [wf_intros]: "tx_wf (bus_tx b) \<Longrightarrow> tx_wf (bus_tx (send_pgn h p g s d data e b))"
  using next_fast_seq_wf [of "bus_tx b" g s]
  by (auto simp: send_pgn_def Let_def case_prod_beta intro: tx_push_wf tx_push_all_wf)

lemma emit_frames_wf [wf_intros]: "tx_wf (bus_tx b) \<Longrightarrow> tx_wf (bus_tx (emit_frames h fs b))"
  unfolding emit_frames_def by (induction fs arbitrary: b) (simp_all add: send_pgn_wf)

subsection \<open>What a send queues and echoes\<close>

lemma emit_frames_simps [simp]:
  "emit_frames h [] b = b"
  "emit_frames h (f # fs) b =
     emit_frames h fs (send_pgn h (rf_prio f) (rf_pgn f) (rf_src f) (rf_dst f) (rf_data f) True b)"
  by (simp_all add: emit_frames_def)

lemma send_pgn_out [simp]:
  "bus_out (send_pgn h p g s d data e b) =
     bus_out b @ (if e then [raw_frame_new (Some (format_iso (unat (ho_now h)))) p g s d data] else [])"
  by (simp add: send_pgn_def Let_def bus_send_def)

text \<open>With room in the ring, every accepted frame is queued in order.\<close>

lemma tx_push_room:
  assumes "length (tb_queue tx) < TX_BUFFER_CAPACITY" "accepts (i AND CAN_EFF_MASK) data"
  shows "tx_push accepts i data tx = tx\<lparr>tb_queue := tb_queue tx @ [(i AND CAN_EFF_MASK, data)]\<rparr>"
  using assms by (simp add: tx_push_def Let_def)

lemma tx_push_all_room:
  assumes "length (tb_queue tx) + length ds \<le> TX_BUFFER_CAPACITY"
    and "\<And>d. d \<in> set ds \<Longrightarrow> accepts (i AND CAN_EFF_MASK) d"
  shows "fold (tx_push accepts i) ds tx =
    tx\<lparr>tb_queue := tb_queue tx @ map (\<lambda>d. (i AND CAN_EFF_MASK, d)) ds\<rparr>"
  using assms
proof (induction ds arbitrary: tx)
  case (Cons d ds)
  have "tx_push accepts i d tx = tx\<lparr>tb_queue := tb_queue tx @ [(i AND CAN_EFF_MASK, d)]\<rparr>"
    by (rule tx_push_room) (use Cons.prems in auto)
  with Cons show ?case by simp
qed simp

end
