(* ===== verification/Gateway.thy ===== *)
theory Gateway
  imports Address_Claim Responder Tx_Buffer Ikonvert_Lines Device
begin

section \<open>The SocketCAN gateway as a node (canboat-io/src/device/socketcan.rs)\<close>

text \<open>
  \<open>NmeaDevice\<close>: the address claim together with the answers to requests, the heartbeat, the group function that sets its
  interval, and the synthetic network status.  Every operation takes the host (its clock is read once for an
  operation), the device and the bus, and gives both back.
\<close>

definition NETWORK_STATUS_INTERVAL_MS :: u64 where "NETWORK_STATUS_INTERVAL_MS = 5000"
definition FALLBACK_BITRATE_BPS :: u32 where "FALLBACK_BITRATE_BPS = 250000"
definition CAN_EFF_OVERHEAD_BITS :: u64 where "CAN_EFF_OVERHEAD_BITS = 67"
definition STUFFING_NUMER :: u64 where "STUFFING_NUMER = 120"
definition STUFFING_DENOM :: u64 where "STUFFING_DENOM = 100"
definition PGN_GROUP_FUNCTION :: u32 where "PGN_GROUP_FUNCTION = 126208"
definition PGN_PRODUCT_INFO :: u32 where "PGN_PRODUCT_INFO = 126996"
definition N2K_DB_VERSION :: i64 where "N2K_DB_VERSION = 2100"
definition PRODUCT_CODE :: i64 where "PRODUCT_CODE = 1"
definition CERTIFICATION_LEVEL :: i64 where "CERTIFICATION_LEVEL = 0"
definition LOAD_EQUIVALENCY :: i64 where "LOAD_EQUIVALENCY = 1"
definition MODEL_ID :: string where "MODEL_ID = ''CANboat''"
definition DEFAULT_MODEL_VERSION :: string where "DEFAULT_MODEL_VERSION = ''socketcan-serial-rs''"
definition GROUP_FUNCTION_REQUEST :: u8 where "GROUP_FUNCTION_REQUEST = 0"
definition GROUP_FUNCTION_ACK :: u8 where "GROUP_FUNCTION_ACK = 2"
definition TX_INTERVAL_NO_CHANGE :: u32 where "TX_INTERVAL_NO_CHANGE = 0xffffffff"
definition TX_INTERVAL_RESTORE_DEFAULT :: u32 where "TX_INTERVAL_RESTORE_DEFAULT = 0xfffffffe"

definition TX_PGN_LIST :: "u32 list" where
  "TX_PGN_LIST =
     [PGN_ISO_ACK, PGN_ISO_REQUEST, PGN_ISO_ADDRESS_CLAIM, PGN_GROUP_FUNCTION, PGN_PGN_LIST, PGN_HEARTBEAT,
      PGN_PRODUCT_INFO]"

definition RX_PGN_LIST :: "u32 list" where
  "RX_PGN_LIST = [PGN_ISO_REQUEST, PGN_ISO_ADDRESS_CLAIM, PGN_GROUP_FUNCTION]"

record gateway_config =
  gc_address :: u8
  gc_unique :: u32
  gc_manufacturer :: u16
  gc_system_instance :: u8
  gc_heartbeat_ms :: u64
  gc_no_claim :: bool
  gc_timeout_secs :: u64
  gc_model_version :: "string option"

definition gateway_config_default :: gateway_config where
  "gateway_config_default =
     \<lparr>gc_address = 0, gc_unique = 0, gc_manufacturer = 999, gc_system_instance = 15, gc_heartbeat_ms = 60000,
      gc_no_claim = False, gc_timeout_secs = 0, gc_model_version = None\<rparr>"

text \<open>The unique number of the machine (canboat-core/src/os.rs), from the files that hold its id.\<close>

definition APP_SALT :: string where "APP_SALT = ''canboat''"

definition fnv1a_64 :: "u8 list \<Rightarrow> u64" where
  "fnv1a_64 bytes = fold (\<lambda>b hash. (hash XOR ucast b) * 0x100000001b3) bytes 0xcbf29ce484222325"

fun machine_string :: "string option list \<Rightarrow> string option" where
  "machine_string [] = None"
| "machine_string (None # ps) = machine_string ps"
| "machine_string (Some s # ps) = (let s = trim s in if s \<noteq> [] then Some s else machine_string ps)"

definition get_machine_id :: "string option list \<Rightarrow> u64" where
  "get_machine_id files =
     (let raw = (case machine_string files of Some s \<Rightarrow> s | None \<Rightarrow> [])
      in fnv1a_64 (bytes_of (APP_SALT @ ''|'' @ raw)))"

definition build_name :: "'p gateway_host \<Rightarrow> gateway_config \<Rightarrow> u64" where
  "build_name h config =
     (let unique = (if gc_unique config \<noteq> 0 then gc_unique config else ucast (get_machine_id (ho_machine_files h)))
      in name_to_u64 (set_system_instance (gc_system_instance config)
           (set_device_class 25 (set_device_function 130 (name_new (gc_manufacturer config) unique)))))"

record load_sample =
  lo_rx_bytes :: u64
  lo_tx_bytes :: u64
  lo_rx_packets :: u64
  lo_tx_packets :: u64
  lo_at_ms :: u64

record nmea_device =
  nd_claim :: address_claim
  nd_heartbeat_interval :: u64
  nd_heartbeat_seq :: u8
  nd_next_heartbeat :: u64
  nd_last_product_info :: u64
  nd_model_version :: string
  nd_start_ms :: u64
  nd_next_network_status :: u64
  nd_seen_addrs :: "u8 \<Rightarrow> bool"
  nd_bitrate_bps :: u32
  nd_prev_load_sample :: "load_sample option"

definition read_bitrate_bps :: "'p gateway_host \<Rightarrow> u32" where
  "read_bitrate_bps h =
     (case ho_bitrate h of None \<Rightarrow> FALLBACK_BITRATE_BPS
      | Some v \<Rightarrow> if v = 0 then FALLBACK_BITRATE_BPS else v)"

definition nmea_device_new :: "'p gateway_host \<Rightarrow> gateway_config \<Rightarrow> nmea_device" where
  "nmea_device_new h config =
     (let nm = build_name h config;
          claim = (if gc_no_claim config then ac_disabled nm else ac_new nm (gc_address config) True)
      in \<lparr>nd_claim = claim, nd_heartbeat_interval = gc_heartbeat_ms config, nd_heartbeat_seq = 0,
          nd_next_heartbeat = 0, nd_last_product_info = 0,
          nd_model_version = (case gc_model_version config of Some v \<Rightarrow> v | None \<Rightarrow> DEFAULT_MODEL_VERSION),
          nd_start_ms = ho_now h, nd_next_network_status = 0, nd_seen_addrs = (\<lambda>_. False),
          nd_bitrate_bps = read_bitrate_bps h, nd_prev_load_sample = None\<rparr>)"

definition device_addr :: "nmea_device \<Rightarrow> u8" where
  "device_addr d = (case claimed_address (nd_claim d) of Some a \<Rightarrow> a | None \<Rightarrow> ADDR_NULL)"

text \<open>Run an operation of the address claim and put its frames on the bus.\<close>

definition claim_frames ::
  "'p gateway_host \<Rightarrow> nmea_device \<times> gw_bus \<Rightarrow> address_claim \<times> raw_frame list \<Rightarrow> nmea_device \<times> gw_bus" where
  "claim_frames h db r = ((fst db)\<lparr>nd_claim := fst r\<rparr>, emit_frames h (snd r) (snd db))"

definition device_start :: "'p gateway_host \<Rightarrow> nmea_device \<times> gw_bus \<Rightarrow> nmea_device \<times> gw_bus" where
  "device_start h db = claim_frames h db (ac_start (nd_claim (fst db)) (ho_now h))"

definition on_claim :: "'p gateway_host \<Rightarrow> nmea_device \<times> gw_bus \<Rightarrow> u8 \<Rightarrow> u8 list \<Rightarrow> nmea_device \<times> gw_bus" where
  "on_claim h db src data =
     (if length data < 8 then db
      else let their_name = from_le (take 8 data)
           in claim_frames h db (on_address_claim (nd_claim (fst db)) (ho_now h) src their_name))"

subsection \<open>The responders\<close>

definition own_product_info :: "product_info gateway_host \<Rightarrow> nmea_device \<Rightarrow> product_info" where
  "own_product_info h d =
     \<lparr>pi_db_version = N2K_DB_VERSION, pi_product_code = PRODUCT_CODE, pi_model_id = MODEL_ID,
      pi_software_version = ho_version h, pi_model_version = nd_model_version d,
      pi_model_serial = show_nat (unat (ac_name (nd_claim d) AND 0x1fffff)),
      pi_certification_level = CERTIFICATION_LEVEL, pi_load_equivalency = LOAD_EQUIVALENCY\<rparr>"

definition send_product_info ::
  "product_info gateway_host \<Rightarrow> nmea_device \<times> gw_bus \<Rightarrow> nmea_device \<times> gw_bus" where
  "send_product_info h db =
     (let (d, b) = db; now = ho_now h in
      if now - nd_last_product_info d < 1000 then (d, b)
      else let d = d\<lparr>nd_last_product_info := now\<rparr>
           in (d, emit_frames h (case ho_product h (own_product_info h d) (device_addr d) of
                                   Some f \<Rightarrow> [f] | None \<Rightarrow> []) b))"

definition send_pgn_list :: "'p gateway_host \<Rightarrow> nmea_device \<Rightarrow> u8 \<Rightarrow> gw_bus \<Rightarrow> gw_bus" where
  "send_pgn_list h d dst b =
     emit_frames h (pgn_list_frames (device_addr d) dst TX_PGN_LIST RX_PGN_LIST) b"

definition send_iso_ack :: "'p gateway_host \<Rightarrow> nmea_device \<Rightarrow> u8 \<Rightarrow> u8 \<Rightarrow> u32 \<Rightarrow> gw_bus \<Rightarrow> gw_bus" where
  "send_iso_ack h d dst control pgn b = emit_frames h [iso_ack_frame (device_addr d) dst control pgn] b"

definition send_ack_group_function ::
  "'p gateway_host \<Rightarrow> nmea_device \<Rightarrow> u8 \<Rightarrow> u32 \<Rightarrow> u8 \<Rightarrow> u8 \<Rightarrow> gw_bus \<Rightarrow> gw_bus" where
  "send_ack_group_function h d dst pgn pgn_err param_err b =
     (let p = le_bytes 4 pgn;
          data = [GROUP_FUNCTION_ACK, p ! 0, p ! 1, p ! 2,
                  (pgn_err AND 0x0f) OR push_bit 4 (param_err AND 0x0f), 0]
      in send_pgn h 6 PGN_GROUP_FUNCTION (device_addr d) dst data True b)"

definition send_heartbeat :: "'p gateway_host \<Rightarrow> nmea_device \<times> gw_bus \<Rightarrow> nmea_device \<times> gw_bus" where
  "send_heartbeat h db =
     (let (d, b) = db;
          b = emit_frames h [heartbeat_frame (device_addr d) (nd_heartbeat_seq d) (nd_heartbeat_interval d)] b
      in (d\<lparr>nd_heartbeat_seq := (if nd_heartbeat_seq d \<ge> 252 then 0 else nd_heartbeat_seq d + 1)\<rparr>, b))"

definition on_request ::
  "product_info gateway_host \<Rightarrow> nmea_device \<times> gw_bus \<Rightarrow> u8 \<Rightarrow> u8 \<Rightarrow> u8 list \<Rightarrow> nmea_device \<times> gw_bus" where
  "on_request h db src dst data =
     (let (d, b) = db in
      if length data < 3 then db
      else let requested = le24 (data ! 0) (data ! 1) (data ! 2);
               addressed = (dst = device_addr d) in
        if \<not> addressed \<and> dst \<noteq> ADDR_GLOBAL then db
        else if requested = PGN_ISO_ADDRESS_CLAIM then
          (case respond_to_claim_request (nd_claim d) of
             Some f \<Rightarrow> (d, emit_frames h [f] b)
           | None \<Rightarrow> db)
        else if \<not> is_claimed (nd_claim d) then db
        else if requested = PGN_PRODUCT_INFO then send_product_info h db
        else if requested = PGN_PGN_LIST then (d, send_pgn_list h d src b)
        else if requested = PGN_HEARTBEAT then send_heartbeat h db
        else if addressed then (d, send_iso_ack h d src 1 requested b)
        else db)"

text \<open>The group function that sets the heartbeat interval: the new device state and the parameter error.\<close>

definition set_interval :: "u64 \<Rightarrow> u32 \<Rightarrow> nmea_device \<Rightarrow> nmea_device \<times> u8" where
  "set_interval now interval d =
     (if interval = TX_INTERVAL_NO_CHANGE then (d, 0)
      else if interval = TX_INTERVAL_RESTORE_DEFAULT then
        (d\<lparr>nd_heartbeat_interval := 60000, nd_next_heartbeat := now + 60000\<rparr>, 0)
      else if interval = 0 then (d\<lparr>nd_heartbeat_interval := 0\<rparr>, 0)
      else if 1000 \<le> interval \<and> interval \<le> 60000 then
        (d\<lparr>nd_heartbeat_interval := ucast interval, nd_next_heartbeat := now + ucast interval\<rparr>, 0)
      else (d, 2))"

definition handle_group_function ::
  "'p gateway_host \<Rightarrow> nmea_device \<times> gw_bus \<Rightarrow> u8 \<Rightarrow> u8 list \<Rightarrow> nmea_device \<times> gw_bus" where
  "handle_group_function h db src data =
     (let (d, b) = db in
      if length data < 8 \<or> data ! 0 \<noteq> GROUP_FUNCTION_REQUEST \<or> \<not> is_claimed (nd_claim d) then db
      else if le24 (data ! 1) (data ! 2) (data ! 3) \<noteq> PGN_HEARTBEAT then db
      else let interval = from_le [data ! 4, data ! 5, data ! 6, data ! 7];
               (d, param_err) = set_interval (ho_now h) interval d
           in (d, send_ack_group_function h d src PGN_HEARTBEAT 0 param_err b))"

subsection \<open>The network status\<close>

definition sat_add :: "u64 \<Rightarrow> u64 \<Rightarrow> u64" where
  "sat_add a b = word_of_nat (min (unat a + unat b) (2 ^ 64 - 1))"

definition sat_mul :: "u64 \<Rightarrow> u64 \<Rightarrow> u64" where
  "sat_mul a b = word_of_nat (min (unat a * unat b) (2 ^ 64 - 1))"

definition sat_sub :: "u64 \<Rightarrow> u64 \<Rightarrow> u64" where
  "sat_sub a b = (if a < b then 0 else a - b)"

definition read_sysfs_counter :: "'p gateway_host \<Rightarrow> string \<Rightarrow> u32 option" where
  "read_sysfs_counter h nm = map_option ucast (ho_counter h nm)"

definition read_load_sample :: "'p gateway_host \<Rightarrow> u64 \<Rightarrow> load_sample option" where
  "read_load_sample h now =
     (case (read_sysfs_counter h ''rx_bytes'', read_sysfs_counter h ''tx_bytes'',
            read_sysfs_counter h ''rx_packets'', read_sysfs_counter h ''tx_packets'') of
        (Some rb, Some tb, Some rp, Some tp) \<Rightarrow>
          Some \<lparr>lo_rx_bytes = ucast rb, lo_tx_bytes = ucast tb, lo_rx_packets = ucast rp,
                lo_tx_packets = ucast tp, lo_at_ms = now\<rparr>
      | _ \<Rightarrow> None)"

definition compute_load_pct :: "load_sample \<Rightarrow> load_sample \<Rightarrow> u32 \<Rightarrow> u8 option" where
  "compute_load_pct prev cur bitrate_bps =
     (let dt_ms = sat_sub (lo_at_ms cur) (lo_at_ms prev) in
      if dt_ms = 0 \<or> bitrate_bps = 0 then None
      else let d_bytes = sat_add (lo_rx_bytes cur - lo_rx_bytes prev) (lo_tx_bytes cur - lo_tx_bytes prev);
               d_packets = sat_add (lo_rx_packets cur - lo_rx_packets prev)
                 (lo_tx_packets cur - lo_tx_packets prev);
               bits_raw = sat_add (sat_mul d_bytes 8) (sat_mul d_packets CAN_EFF_OVERHEAD_BITS);
               bits_on_wire = sat_mul bits_raw STUFFING_NUMER div STUFFING_DENOM;
               denom = sat_mul (ucast bitrate_bps) dt_ms in
           if denom = 0 then None
           else let pct = sat_mul bits_on_wire 100000 div denom in Some (ucast (min pct 100)))"

definition count_seen :: "(u8 \<Rightarrow> bool) \<Rightarrow> nat" where
  "count_seen seen = length (filter seen (map word_of_nat [0..<256]))"

definition note_seen :: "u8 \<Rightarrow> nmea_device \<Rightarrow> nmea_device" where
  "note_seen src d = d\<lparr>nd_seen_addrs := (nd_seen_addrs d)(src := True)\<rparr>"

definition emit_network_status ::
  "'p gateway_host \<Rightarrow> u64 \<Rightarrow> nmea_device \<times> gw_bus \<Rightarrow> nmea_device \<times> gw_bus" where
  "emit_network_status h now db =
     (let (d, b) = db;
          uptime_s = ucast ((now - nd_start_ms d) div 1000);
          device_count = word_of_nat (min (count_seen (nd_seen_addrs d)) 255);
          errors = read_sysfs_counter h ''rx_errors'';
          rejected_tx = read_sysfs_counter h ''tx_dropped'';
          curr_sample = read_load_sample h now;
          load_pct = (case (nd_prev_load_sample d, curr_sample) of
              (Some prev, Some cur) \<Rightarrow> compute_load_pct prev cur (nd_bitrate_bps d) | _ \<Rightarrow> None);
          d = (case curr_sample of Some cur \<Rightarrow> d\<lparr>nd_prev_load_sample := Some cur\<rparr> | None \<Rightarrow> d);
          frame = build_network_status
            \<lparr>ns_load_pct = load_pct, ns_errors = errors, ns_device_count = Some device_count,
             ns_uptime_s = Some uptime_s, ns_gateway_addr = device_addr d, ns_rejected_tx = rejected_tx\<rparr>
            (Some (format_iso (unat now)))
      in (d, bus_send frame b))"

text \<open>The timers.\<close>

definition device_tick ::
  "product_info gateway_host \<Rightarrow> u64 \<Rightarrow> nmea_device \<times> gw_bus \<Rightarrow> nmea_device \<times> gw_bus" where
  "device_tick h now db =
     (let was_claimed = is_claimed (nd_claim (fst db));
          db = claim_frames h db (ac_tick (nd_claim (fst db)) now);
          db = (if \<not> was_claimed \<and> is_claimed (nd_claim (fst db)) then
                  (let (d, b) = send_product_info h db;
                       d = (if nd_heartbeat_interval d > 0
                            then d\<lparr>nd_next_heartbeat := now + nd_heartbeat_interval d\<rparr> else d)
                   in (d\<lparr>nd_next_network_status := now + NETWORK_STATUS_INTERVAL_MS\<rparr>, b))
                else db);
          db = (if is_claimed (nd_claim (fst db)) \<and> nd_heartbeat_interval (fst db) > 0
                   \<and> now \<ge> nd_next_heartbeat (fst db) then
                  (let (d, b) = send_heartbeat h db
                   in (d\<lparr>nd_next_heartbeat := now + nd_heartbeat_interval d\<rparr>, b))
                else db)
      in if is_claimed (nd_claim (fst db)) \<and> now \<ge> nd_next_network_status (fst db) then
           (let (d, b) = emit_network_status h now db
            in (d\<lparr>nd_next_network_status := now + NETWORK_STATUS_INTERVAL_MS\<rparr>, b))
         else db)"

subsection \<open>The invariant of the device\<close>

text \<open>
  The address claim keeps its invariant, the heartbeat counter stays in its range, the interval is the configured one, off, or
  between one second and one minute, the reserved addresses never count as seen, and the transmit ring is well formed.
\<close>

definition interval_ok :: "u64 \<Rightarrow> u64 \<Rightarrow> bool" where
  "interval_ok configured i \<longleftrightarrow> i = configured \<or> i = 0 \<or> 1000 \<le> i \<and> i \<le> 60000"

definition node_wf :: "u64 \<Rightarrow> nmea_device \<times> gw_bus \<Rightarrow> bool" where
  "node_wf configured db \<longleftrightarrow>
     ac_inv (nd_claim (fst db)) \<and> nd_heartbeat_seq (fst db) \<le> 252 \<and>
     interval_ok configured (nd_heartbeat_interval (fst db)) \<and>
     \<not> nd_seen_addrs (fst db) ADDR_NULL \<and> \<not> nd_seen_addrs (fst db) ADDR_GLOBAL \<and> tx_wf (bus_tx (snd db))"

lemma node_wf_bus [wf_intros]:
  "node_wf c (d, b) \<Longrightarrow> tx_wf (bus_tx b') \<Longrightarrow> node_wf c (d, b')"
  by (simp add: node_wf_def)

lemma node_wf_tx: "node_wf c (d, b) \<Longrightarrow> tx_wf (bus_tx b)"
  by (simp add: node_wf_def)

lemma node_wf_claim: "node_wf c db \<Longrightarrow> ac_inv (nd_claim (fst db))"
  by (simp add: node_wf_def)

lemma node_wf_sends [wf_intros]:
  assumes "node_wf c (d, b)"
  shows "node_wf c (d, emit_frames h fs b)" "node_wf c (d, send_pgn h p g s t data e b)"
    "node_wf c (d, send_pgn_list h d' dst b)" "node_wf c (d, send_iso_ack h d' dst ctl pgn b)"
    "node_wf c (d, send_ack_group_function h d' dst pgn e1 e2 b)"
  unfolding send_pgn_list_def send_iso_ack_def send_ack_group_function_def Let_def
  by (rule node_wf_bus [OF assms] emit_frames_wf send_pgn_wf node_wf_tx [OF assms])+

lemma node_wf_timers [simp]:
  "node_wf c (d\<lparr>nd_next_heartbeat := x\<rparr>, b) = node_wf c (d, b)"
  "node_wf c (d\<lparr>nd_next_network_status := x\<rparr>, b) = node_wf c (d, b)"
  "node_wf c (d\<lparr>nd_last_product_info := x\<rparr>, b) = node_wf c (d, b)"
  "node_wf c (d\<lparr>nd_prev_load_sample := l\<rparr>, b) = node_wf c (d, b)"
  "node_wf c (d, bus_send f b) = node_wf c (d, b)"
  by (simp_all add: node_wf_def)

lemma claim_frames_wf [wf_intros]:
  "node_wf c db \<Longrightarrow> ac_inv (fst r) \<Longrightarrow> node_wf c (claim_frames h db r)"
  by (simp add: node_wf_def claim_frames_def emit_frames_wf)

lemma node_wf_new [wf_intros]:
  assumes "gc_address config \<le> ADDR_MAX"
  shows "node_wf (gc_heartbeat_ms config) (nmea_device_new h config, \<lparr>bus_tx = tx_buffer_new, bus_out = out\<rparr>)"
  using ac_inv_new [OF assms] ac_inv_disabled tx_wf_new
  by (auto simp: node_wf_def nmea_device_new_def Let_def interval_ok_def)

lemma device_start_wf [wf_intros]: "node_wf c db \<Longrightarrow> node_wf c (device_start h db)"
  unfolding device_start_def by (rule claim_frames_wf) (simp_all add: node_wf_def ac_inv_start)

lemma on_claim_wf [wf_intros]: "node_wf c db \<Longrightarrow> node_wf c (on_claim h db src data)"
  unfolding on_claim_def Let_def
  by (simp add: claim_frames_wf ac_inv_on_address_claim node_wf_claim)

lemma send_product_info_wf [wf_intros]: "node_wf c db \<Longrightarrow> node_wf c (send_product_info h db)"
  by (auto simp: send_product_info_def Let_def case_prod_beta node_wf_def intro!: emit_frames_wf split: prod.split)

lemma send_heartbeat_wf [wf_intros]:
  assumes "node_wf c db"
  shows "node_wf c (send_heartbeat h db)"
proof -
  have "s + 1 \<le> 252" if "\<not> 252 \<le> s" "s \<le> 252" for s :: u8
    using that by unat_arith
  then show ?thesis
    using assms by (auto simp: send_heartbeat_def Let_def case_prod_beta node_wf_def intro: send_pgn_wf)
qed

lemma on_request_wf [wf_intros]:
  assumes "node_wf c db"
  shows "node_wf c (on_request h db src dst data)"
proof (cases db)
  case (Pair d b)
  note wf = assms [unfolded Pair]
  note ops = wf node_wf_sends [OF wf] send_product_info_wf [OF wf] send_heartbeat_wf [OF wf]
  show ?thesis
    unfolding on_request_def Let_def Pair prod.case
    by (cases "respond_to_claim_request (nd_claim d)") (simp_all only: option.case ops split: if_split, simp_all)
qed

lemma set_interval_wf [wf_intros]:
  assumes "node_wf c (d, b)"
  shows "node_wf c (fst (set_interval now i d), b)"
proof -
  have "1000 \<le> (ucast i :: u64)" "(ucast i :: u64) \<le> 60000" if "1000 \<le> i" "i \<le> 60000"
    using that by (simp_all add: word_le_nat_alt unsigned_ucast_eq take_bit_nat_eq_self)
  then show ?thesis
    using assms by (auto simp: set_interval_def node_wf_def interval_ok_def)
qed

lemma handle_group_function_wf [wf_intros]:
  "node_wf c db \<Longrightarrow> node_wf c (handle_group_function h db src data)"
proof (cases db)
  case (Pair d b)
  moreover assume "node_wf c db"
  ultimately have "node_wf c (fst (set_interval n i d), send_ack_group_function h d' src p e f b)" for n i d' p e f
    using set_interval_wf [of c d b n i]
    by (cases "set_interval n i d") (simp add: node_wf_sends)
  then show ?thesis using Pair \<open>node_wf c db\<close> by (simp add: handle_group_function_def Let_def case_prod_beta)
qed

lemma note_seen_wf [wf_intros]:
  "node_wf c (d, b) \<Longrightarrow> src \<noteq> ADDR_NULL \<Longrightarrow> src \<noteq> ADDR_GLOBAL \<Longrightarrow> node_wf c (note_seen src d, b)"
  by (simp add: node_wf_def note_seen_def)

lemma emit_network_status_wf [wf_intros]: "node_wf c db \<Longrightarrow> node_wf c (emit_network_status h now db)"
  by (cases db) (auto simp: emit_network_status_def Let_def split: option.split)

lemma device_tick_wf [wf_intros]:
  assumes "node_wf c db"
  shows "node_wf c (device_tick h now db)"
proof -
  let ?db1 = "claim_frames h db (ac_tick (nd_claim (fst db)) now)"
  have 1: "node_wf c ?db1" using assms by (intro claim_frames_wf) (simp_all add: node_wf_def ac_inv_tick)
  show ?thesis
    unfolding device_tick_def Let_def case_prod_beta
    by (simp add: 1 send_product_info_wf send_heartbeat_wf emit_network_status_wf)
qed

end
