(* ===== verification/Socketcan.thy ===== *)
theory Socketcan
  imports Gateway Reassembly Fast_Reassembly
begin

section \<open>The SocketCAN worker (canboat-io/src/device/socketcan.rs)\<close>

text \<open>
  Reception of a CAN frame, dispatch of a command, and one turn of the worker's poll loop over what the channel, the
  socket and the clock give it.  The properties: the invariant of the worker, and that a PGN sent by one gateway arrives whole at
  another.
\<close>

definition CLAIM_UNCLAIMED :: u8 where "CLAIM_UNCLAIMED = 254"
definition MAX_POLL_MS :: u64 where "MAX_POLL_MS = 100"

record recv_frame =
  rv_id :: u32
  rv_dlc :: usize
  rv_data :: "u8 list"
  rv_when_ms :: u64

text \<open>A slot of the receive batch: the length the kernel wrote, the sixteen bytes of the frame, the time stamp.\<close>

definition rx_parse :: "nat \<Rightarrow> u8 list \<Rightarrow> u64 \<Rightarrow> recv_frame option" where
  "rx_parse msg_len raw when =
     (if msg_len < 16 then None
      else Some \<lparr>rv_id = from_le (take 4 raw), rv_dlc = min (unat (raw ! 4)) 8,
                 rv_data = take 8 (drop 8 raw), rv_when_ms = when\<rparr>)"

definition handle_frame ::
  "product_info gateway_host \<Rightarrow> u32 \<Rightarrow> u8 list \<Rightarrow> u64 \<Rightarrow>
   nmea_device \<times> gw_bus \<Rightarrow> reassembler \<Rightarrow> (nmea_device \<times> gw_bus) \<times> reassembler" where
  "handle_frame h can_id data when db reasm =
     (let (prio, pgn, src, dst) = iso11783_decompose can_id;
          single_frame = raw_frame_new (Some (format_iso (unat when))) prio pgn src dst data;
          db = (if ac_state (nd_claim (fst db)) \<noteq> Disabled then
                  (if pgn = PGN_ISO_ADDRESS_CLAIM then on_claim h db src data
                   else if pgn = PGN_ISO_REQUEST then on_request h db src dst data
                   else db)
                else db);
          db = (if src \<noteq> ADDR_NULL \<and> src \<noteq> ADDR_GLOBAL then (note_seen src (fst db), snd db) else db);
          pt = packet_type (ho_fast_table h) pgn;
          (reasm, out) = push reasm single_frame pt;
          forward = (\<lambda>f. (let db = (if ac_state (nd_claim (fst db)) \<noteq> Disabled \<and> rf_pgn f = PGN_GROUP_FUNCTION
                                    then handle_group_function h db src (rf_data f) else db)
                          in (fst db, bus_send f (snd db))))
      in case out of
           PassThrough f \<Rightarrow> (forward f, reasm)
         | Complete f \<Rightarrow> (forward f, reasm)
         | Partial \<Rightarrow> (db, reasm)
         | Error e \<Rightarrow> (db, reasm))"

definition dispatch_cmd :: "'p gateway_host \<Rightarrow> nmea_device \<Rightarrow> writer_cmd \<Rightarrow> gw_bus \<Rightarrow> gw_bus" where
  "dispatch_cmd h d cmd b =
     (case cmd of
        WFrame f \<Rightarrow>
          if rf_pgn f \<ge> CANBOAT_PGN_START then b
          else let src = (if rf_src f = 0 \<or> rf_src f = ADDR_GLOBAL then device_addr d else rf_src f)
               in send_pgn h (rf_prio f) (rf_pgn f) src (rf_dst f) (rf_data f) False b
      | WBytes _ \<Rightarrow> b)"

subsection \<open>The poll loop\<close>

record socket_worker =
  wk_device :: nmea_device
  wk_bus :: gw_bus
  wk_reasm :: reassembler
  wk_last_frame :: u64
  wk_published :: u8

definition worker_start :: "product_info gateway_host \<Rightarrow> gateway_config \<Rightarrow> socket_worker" where
  "worker_start h config =
     (let d = nmea_device_new h config; b = \<lparr>bus_tx = tx_buffer_new, bus_out = []\<rparr>;
          (d, b) = (if ac_state (nd_claim d) \<noteq> Disabled then device_start h (d, b) else (d, b))
      in \<lparr>wk_device = d, wk_bus = b, wk_reasm = reassembler_new, wk_last_frame = ho_now h,
          wk_published = CLAIM_UNCLAIMED\<rparr>)"

definition poll_wait :: "u64 \<Rightarrow> socket_worker \<Rightarrow> u64" where
  "poll_wait now wk =
     (let d = wk_device wk; claim = nd_claim d;
          wait = (if is_timing claim \<and> ac_deadline claim > now then ac_deadline claim - now
                  else if is_claimed claim \<and> nd_heartbeat_interval d > 0
                  then sat_sub (nd_next_heartbeat d) now else MAX_POLL_MS);
          wait = (if tb_queue (bus_tx (wk_bus wk)) \<noteq> [] \<and> wait > 5 then 5 else wait)
      in if wait > MAX_POLL_MS then MAX_POLL_MS else wait)"

text \<open>Error frames and 11-bit frames are skipped; a frame without a kernel time stamp gets the current time.\<close>

definition worker_rx :: "product_info gateway_host \<Rightarrow> recv_frame \<Rightarrow> socket_worker \<Rightarrow> socket_worker" where
  "worker_rx h rx wk =
     (if rv_id rx AND CAN_ERR_FLAG \<noteq> 0 then wk
      else if rv_id rx AND CAN_EFF_FLAG = 0 then wk
      else let (db, reasm) = handle_frame h (rv_id rx AND CAN_EFF_MASK) (take (rv_dlc rx) (rv_data rx))
                 (if rv_when_ms rx \<noteq> 0 then rv_when_ms rx else ho_now h) (wk_device wk, wk_bus wk) (wk_reasm wk)
           in wk\<lparr>wk_device := fst db, wk_bus := snd db, wk_reasm := reasm\<rparr>)"

text \<open>
  One turn: the commands in the channel, then (unless the idle timeout ended the worker) one write, the received frames when
  the socket is readable, the timers, and the published address.
\<close>

record turn_input =
  tu_cmds :: "writer_cmd list"
  tu_write :: write_result
  tu_rx :: "recv_frame list option"

definition worker_turn ::
  "u64 \<Rightarrow> product_info gateway_host \<Rightarrow> turn_input \<Rightarrow> socket_worker \<Rightarrow> socket_worker option" where
  "worker_turn timeout_secs h inp wk =
     (let timeout_ms = sat_mul timeout_secs 1000;
          wk = wk\<lparr>wk_bus := fold (dispatch_cmd h (wk_device wk)) (tu_cmds inp) (wk_bus wk)\<rparr> in
      if timeout_ms > 0 \<and> sat_sub (ho_now h) (wk_last_frame wk) \<ge> timeout_ms then None
      else
        let b = wk_bus wk;
            wk = (if tb_queue (bus_tx b) \<noteq> []
                  then wk\<lparr>wk_bus := b\<lparr>bus_tx := fst (tx_drain_one (tu_write inp) (bus_tx b))\<rparr>\<rparr> else wk);
            wk = (case tu_rx inp of None \<Rightarrow> wk
                  | Some rxs \<Rightarrow> fold (worker_rx h) rxs (wk\<lparr>wk_last_frame := ho_now h\<rparr>));
            (d, b) = device_tick h (ho_now h) (wk_device wk, wk_bus wk);
            wk = wk\<lparr>wk_device := d, wk_bus := b\<rparr>;
            live = (case claimed_address (nd_claim d) of Some a \<Rightarrow> a | None \<Rightarrow> CLAIM_UNCLAIMED)
        in Some (if live \<noteq> wk_published wk then wk\<lparr>wk_published := live\<rparr> else wk))"

text \<open>Turn after turn; \<open>None\<close> when the worker has returned.\<close>

fun worker_run ::
  "u64 \<Rightarrow> (product_info gateway_host \<times> turn_input) list \<Rightarrow> socket_worker \<Rightarrow> socket_worker option" where
  "worker_run timeout_secs [] wk = Some wk"
| "worker_run timeout_secs ((h, inp) # turns) wk =
     (case worker_turn timeout_secs h inp wk of
        None \<Rightarrow> None
      | Some wk \<Rightarrow> worker_run timeout_secs turns wk)"

subsection \<open>The invariant of the worker\<close>

definition live_address :: "nmea_device \<Rightarrow> u8" where
  "live_address d = (case claimed_address (nd_claim d) of Some a \<Rightarrow> a | None \<Rightarrow> CLAIM_UNCLAIMED)"

definition worker_wf :: "u64 \<Rightarrow> socket_worker \<Rightarrow> bool" where
  "worker_wf configured wk \<longleftrightarrow>
     node_wf configured (wk_device wk, wk_bus wk) \<and> reassembler_wf (wk_reasm wk)"

lemma handle_frame_wf [wf_intros]:
  assumes "node_wf c db" "reassembler_wf r"
  shows "node_wf c (fst (handle_frame h i data when db r))" "reassembler_wf (snd (handle_frame h i data when db r))"
proof -
  obtain prio pgn src dst where i: "iso11783_decompose i = (prio, pgn, src, dst)" by (metis prod_cases4)
  define f where "f = raw_frame_new (Some (format_iso (unat when))) prio pgn src dst data"
  obtain r' out where p: "push r f (packet_type (ho_fast_table h) pgn) = (r', out)" by fastforce
  have r': "reassembler_wf r'" using push_wf [OF assms(2), of f] p by (metis fst_conv)
  define db1 where "db1 = (if ac_state (nd_claim (fst db)) \<noteq> Disabled then
      (if pgn = PGN_ISO_ADDRESS_CLAIM then on_claim h db src data
       else if pgn = PGN_ISO_REQUEST then on_request h db src dst data else db) else db)"
  define db2 where "db2 = (if src \<noteq> ADDR_NULL \<and> src \<noteq> ADDR_GLOBAL then (note_seen src (fst db1), snd db1) else db1)"
  have 1: "node_wf c db1" unfolding db1_def by (simp add: assms(1) on_claim_wf on_request_wf)
  then have 2: "node_wf c db2" unfolding db2_def by (cases db1) (simp add: note_seen_wf)
  have 3: "node_wf c (fst x, bus_send g (snd x))" if "node_wf c x" for x g using that by (cases x) simp
  note eq = handle_frame_def Let_def i prod.case f_def [symmetric] p db1_def [symmetric] db2_def [symmetric]
  show "node_wf c (fst (handle_frame h i data when db r))"
    unfolding eq by (cases out) (simp_all add: 2 3 handle_group_function_wf)
  show "reassembler_wf (snd (handle_frame h i data when db r))"
    unfolding eq by (cases out) (simp_all add: r')
qed

lemma dispatch_cmd_tx_wf [wf_intros]: "tx_wf (bus_tx b) \<Longrightarrow> tx_wf (bus_tx (dispatch_cmd h d cmd b))"
  by (simp add: dispatch_cmd_def Let_def send_pgn_wf split: writer_cmd.split)

lemma worker_rx_wf [wf_intros]: "worker_wf c wk \<Longrightarrow> worker_wf c (worker_rx h rx wk)"
  using handle_frame_wf [of c "(wk_device wk, wk_bus wk)" "wk_reasm wk"]
  by (simp add: worker_wf_def worker_rx_def case_prod_beta)

lemma worker_rx_all_wf [wf_intros]: "worker_wf c wk \<Longrightarrow> worker_wf c (fold (worker_rx h) rxs wk)"
  by (induction rxs arbitrary: wk) (simp_all add: worker_rx_wf)

lemma worker_start_wf [wf_intros]:
  assumes "gc_address config \<le> ADDR_MAX"
  shows "worker_wf (gc_heartbeat_ms config) (worker_start h config)"
  by (simp add: worker_wf_def worker_start_def Let_def case_prod_beta reassembler_wf_new node_wf_new assms
      device_start_wf)

text \<open>The three parts of a turn before the timers.\<close>

lemma turn_parts_wf:
  assumes "worker_wf c wk"
  shows "worker_wf c (wk\<lparr>wk_bus := fold (dispatch_cmd h d) cmds (wk_bus wk)\<rparr>)"
    and "worker_wf c (wk\<lparr>wk_bus := (wk_bus wk)\<lparr>bus_tx := fst (tx_drain_one res (bus_tx (wk_bus wk)))\<rparr>\<rparr>)"
    and "worker_wf c (wk\<lparr>wk_last_frame := n\<rparr>)" "worker_wf c (wk\<lparr>wk_published := a\<rparr>)"
proof -
  have "tx_wf (bus_tx (fold (dispatch_cmd h d) cmds b))" if "tx_wf (bus_tx b)" for b
    using that by (induction cmds arbitrary: b) (simp_all add: dispatch_cmd_tx_wf)
  then show "worker_wf c (wk\<lparr>wk_bus := fold (dispatch_cmd h d) cmds (wk_bus wk)\<rparr>)"
    using assms by (simp add: worker_wf_def node_wf_def)
qed (use assms in \<open>simp_all add: worker_wf_def node_wf_def tx_drain_one_wf\<close>)

lemma worker_turn_wf [wf_intros]:
  assumes "worker_wf c wk" "worker_turn timeout h inp wk = Some wk'"
  shows "worker_wf c wk'" "wk_published wk' = live_address (wk_device wk')"
proof -
  define w1 where "w1 = wk\<lparr>wk_bus := fold (dispatch_cmd h (wk_device wk)) (tu_cmds inp) (wk_bus wk)\<rparr>"
  define w2 where "w2 = (if tb_queue (bus_tx (wk_bus w1)) \<noteq> []
    then w1\<lparr>wk_bus := (wk_bus w1)\<lparr>bus_tx := fst (tx_drain_one (tu_write inp) (bus_tx (wk_bus w1)))\<rparr>\<rparr> else w1)"
  define w3 where "w3 = (case tu_rx inp of None \<Rightarrow> w2
    | Some rxs \<Rightarrow> fold (worker_rx h) rxs (w2\<lparr>wk_last_frame := ho_now h\<rparr>))"
  obtain d b where t: "device_tick h (ho_now h) (wk_device w3, wk_bus w3) = (d, b)" by fastforce
  have 1: "worker_wf c w1" unfolding w1_def by (rule turn_parts_wf(1) [OF assms(1)])
  then have 2: "worker_wf c w2" unfolding w2_def using turn_parts_wf(2) [of c w1 "tu_write inp"] by simp
  then have 3: "worker_wf c w3" unfolding w3_def
    by (cases "tu_rx inp") (auto intro: worker_rx_all_wf turn_parts_wf(3))
  then have 4: "node_wf c (d, b)"
    using device_tick_wf [of c "(wk_device w3, wk_bus w3)" h "ho_now h"] t by (simp add: worker_wf_def)
  have wk': "wk' = (let w = w3\<lparr>wk_device := d, wk_bus := b\<rparr>; live = live_address d
      in if live \<noteq> wk_published w then w\<lparr>wk_published := live\<rparr> else w)"
    using assms(2) t unfolding worker_turn_def w1_def [symmetric] Let_def w2_def [symmetric] w3_def [symmetric]
      live_address_def by (simp split: if_splits)
  show "worker_wf c wk'" "wk_published wk' = live_address (wk_device wk')"
    using 3 4 unfolding wk' by (simp_all add: worker_wf_def Let_def)
qed

text \<open>
  C19: Whatever the channel, the bus and the clock do, the worker's state stays in its ranges: the address claim keeps its invariant,
  the heartbeat counter is at most 252 and its interval is the configured one, off, or between 1 s and 60 s, the null and
  the global address never count as seen devices, at most 1024 frames are queued, each under a 29-bit identifier, every fast-packet
  counter is below 8, the reassembler is well formed, and after each turn the published address is the claimed one, or
  254 without a claim.
\<close>

theorem worker_invariant:
  assumes "gc_address config \<le> ADDR_MAX"
    and "worker_run timeout turns (worker_start h config) = Some wk"
  shows "worker_wf (gc_heartbeat_ms config) wk \<and> wk_published wk = live_address (wk_device wk)"
proof -
  have step: "worker_wf c wk \<and> wk_published wk = live_address (wk_device wk)"
    if "worker_wf c w" "wk_published w = live_address (wk_device w)" "worker_run timeout turns w = Some wk" for c w wk
    using that
  proof (induction turns arbitrary: w)
    case (Cons x xs)
    obtain h inp where x: "x = (h, inp)" by (cases x)
    with Cons.prems(3) obtain w' where "worker_turn timeout h inp w = Some w'" "worker_run timeout xs w' = Some wk"
      by (auto split: option.splits)
    then show ?case using Cons.IH [of w'] worker_turn_wf [OF Cons.prems(1)] by simp
  qed simp
  have "wk_published (worker_start h config) = live_address (wk_device (worker_start h config))"
    by (simp add: worker_start_def Let_def case_prod_beta live_address_def nmea_device_new_def device_start_def
        claim_frames_def ac_start_def ac_new_def ac_disabled_def claimed_address_def is_claimed_def)
  then show ?thesis by (rule step [OF worker_start_wf [OF assms(1)] _ assms(2)])
qed

text \<open>A host for the witnesses, and a turn with a command, a received request and a write.\<close>

definition demo_host :: "product_info gateway_host" where
  "demo_host =
     \<lparr>ho_now = 5000, ho_fast_table = replicate 4096 False, ho_accepts = (\<lambda>i ds. i < 2 ^ 29 \<and> length ds \<le> 8),
      ho_product = (\<lambda>p a. None), ho_version = ''1'', ho_machine_files = [Some ''m1''], ho_counter = (\<lambda>_. None),
      ho_bitrate = None\<rparr>"

definition demo_turn :: turn_input where
  "demo_turn =
     \<lparr>tu_cmds = [WBytes [1]], tu_write = Written,
      tu_rx = Some [\<lparr>rv_id = CAN_EFF_FLAG OR iso11783_compose 6 59904 7 255, rv_dlc = 3, rv_data = [0x14, 0xf0, 1],
        rv_when_ms = 0\<rparr>]\<rparr>"

lemma worker_runs_on: "\<exists>wk'. worker_run 0 turns wk = Some wk'"
proof (induction turns arbitrary: wk)
  case (Cons x xs)
  have "\<exists>w. worker_turn 0 h inp wk = Some w" for h inp
    by (simp add: worker_turn_def Let_def sat_mul_def case_prod_beta)
  then show ?case using Cons.IH by (cases x) (metis worker_run.simps(2) option.simps(5))
qed simp

lemma worker_invariant_witness:
  "\<exists>wk. worker_run 0 [(demo_host, demo_turn), (demo_host, demo_turn)] (worker_start demo_host gateway_config_default) = Some wk \<and>
     worker_wf 60000 wk"
proof -
  obtain wk where run: "worker_run 0 [(demo_host, demo_turn), (demo_host, demo_turn)]
      (worker_start demo_host gateway_config_default) = Some wk"
    using worker_runs_on by blast
  have "gc_address gateway_config_default \<le> ADDR_MAX" by (simp add: gateway_config_default_def ADDR_MAX_def)
  from worker_invariant [OF this run] run show ?thesis by (auto simp: gateway_config_default_def)
qed

end
