(* ===== verification/Gateway_Link.thy ===== *)
theory Gateway_Link
  imports Socketcan
begin

section \<open>From gateway to gateway\<close>

text \<open>
  What one SocketCAN gateway queues for a PGN is what another one reassembles: the composition of \<open>send\_pgn\<close>, the identifiers,
  the fast-packet split, \<open>handle\_frame\<close> and the reassembler.  The receiver takes no address, so it only listens.
\<close>

text \<open>The frames received one by one, each at its time.\<close>

definition receive_all ::
  "product_info gateway_host \<Rightarrow> (can_frame \<times> u64) list \<Rightarrow>
   (nmea_device \<times> gw_bus) \<times> reassembler \<Rightarrow> (nmea_device \<times> gw_bus) \<times> reassembler" where
  "receive_all h = fold (\<lambda>(f, tm) (db, r). handle_frame h (fst f) (snd f) tm db r)"

text \<open>A listening gateway forwards what the reassembler completes, and nothing else.\<close>

definition forwarded :: "reassembled \<Rightarrow> raw_frame list" where
  "forwarded out = (case out of PassThrough f \<Rightarrow> [f] | Complete f \<Rightarrow> [f] | _ \<Rightarrow> [])"

lemma handle_frame_listening:
  assumes "ac_state (nd_claim (fst db)) = Disabled" "iso11783_decompose i = (prio, pgn, src, dst)"
    and "push r (raw_frame_new (Some (format_iso (unat tm))) prio pgn src dst data)
      (packet_type (ho_fast_table h) pgn) = (r', out)"
  obtains d' where "handle_frame h i data tm db r =
      ((d', (snd db)\<lparr>bus_out := bus_out (snd db) @ forwarded out\<rparr>), r')"
    "ac_state (nd_claim d') = Disabled"
proof -
  define d' where "d' = (if src \<noteq> ADDR_NULL \<and> src \<noteq> ADDR_GLOBAL then note_seen src (fst db) else fst db)"
  have 1: "(if src \<noteq> ADDR_NULL \<and> src \<noteq> ADDR_GLOBAL then (note_seen src (fst db), snd db) else db) = (d', snd db)"
    by (simp add: d'_def)
  have 2: "ac_state (nd_claim d') = Disabled" using assms(1) by (simp add: d'_def note_seen_def)
  have listening: "(if ac_state (nd_claim (fst db)) \<noteq> Disabled then x else db) = db" for x
    using assms(1) by simp
  have "handle_frame h i data tm db r =
      ((d', (snd db)\<lparr>bus_out := bus_out (snd db) @ forwarded out\<rparr>), r')"
    unfolding handle_frame_def Let_def assms(2) prod.case assms(3) listening 1
    using 2 by (cases out) (simp_all add: forwarded_def bus_send_def)
  then show ?thesis by (rule that) (rule 2)
qed

text \<open>One fragment of the burst, in order.\<close>

lemma receive_fragment:
  assumes "ac_state (nd_claim (fst db)) = Disabled" "iso11783_decompose i = (prio, pgn, src, dst)"
    and "packet_type (ho_fast_table h) pgn = Fast" "pgn \<noteq> PGN_ISO_TP_CM" "pgn \<noteq> PGN_ISO_TP_DT"
    and "reassembler_wf r" "burst_state r (pgn, src, push_bit 5 seq) data {..<k}" "k < frame_count (length data)"
    and "0 < length data" "length data \<le> 223"
  obtains d' r' where
    "handle_frame h i (fragment seq data k) tm db r =
       ((d', (snd db)\<lparr>bus_out := bus_out (snd db) @
          (if Suc k = frame_count (length data)
           then [raw_frame_new (Some (format_iso (unat tm))) prio pgn src dst data] else [])\<rparr>), r')"
    "ac_state (nd_claim d') = Disabled" "reassembler_wf r'"
    "Suc k < frame_count (length data) \<longrightarrow> burst_state r' (pgn, src, push_bit 5 seq) data {..<Suc k}"
proof -
  let ?f = "raw_frame_new (Some (format_iso (unat tm))) prio pgn src dst (fragment seq data k)"
  let ?n = "frame_count (length data)"
  have len: "rf_data ?f = fragment seq data k" by (simp add: RAWFRAME_MAX_SIZE_def)
  have ne: "fragment seq data k \<noteq> []" using length_fragment [of seq data k] by (metis list.size(3) zero_neq_numeral)
  have burst: "of_burst (pgn, src, push_bit 5 seq) (?f, Fast)"
    unfolding of_burst_def is_fragment_def frame_key_def fst_conv snd_conv len fragment_seq
    using assms(4,5) ne by simp
  obtain r' out where p: "push r ?f Fast = (r', out)" by fastforce
  have prem: "k \<notin> {..<k}" "{..<k} \<subseteq> {..<?n}" "rf_data (fst (?f, Fast)) = fragment seq data k"
    using assms(8) len by auto
  have step: "if insert k {..<k} = {..<?n} then out = Complete (?f\<lparr>rf_data := data\<rparr>)
      else out = Partial \<and> burst_state r' (pgn, src, push_bit 5 seq) data (insert k {..<k})"
    using burst_state_step [OF assms(6) burst assms(7,9,10,8) prem(1,2) _ prem(3)] unfolding fst_conv snd_conv p
    by blast
  have ins: "insert k {..<k} = {..<Suc k}" by auto
  have full: "?f\<lparr>rf_data := data\<rparr> = raw_frame_new (Some (format_iso (unat tm))) prio pgn src dst data"
    using assms(10) by (simp add: raw_frame_new_id)
  have out: "forwarded out = (if Suc k = ?n
      then [raw_frame_new (Some (format_iso (unat tm))) prio pgn src dst data] else [])"
    using step assms(8) full unfolding ins by (auto simp: forwarded_def)
  have wf: "reassembler_wf r'" using push_wf [OF assms(6), of ?f Fast] p by simp
  have rest: "Suc k < ?n \<longrightarrow> burst_state r' (pgn, src, push_bit 5 seq) data {..<Suc k}"
    using step unfolding ins by auto
  have p': "push r ?f (packet_type (ho_fast_table h) pgn) = (r', out)" using p assms(3) by simp
  obtain d' where "handle_frame h i (fragment seq data k) tm db r =
      ((d', (snd db)\<lparr>bus_out := bus_out (snd db) @ forwarded out\<rparr>), r')" "ac_state (nd_claim d') = Disabled"
    by (rule handle_frame_listening [OF assms(1,2) p'])
  then show ?thesis using wf rest unfolding out by (rule that)
qed

text \<open>The whole burst, from fragment \<open>k\<close> on.\<close>

lemma receive_burst:
  assumes "iso11783_decompose i = (prio, pgn, src, dst)"
    and "packet_type (ho_fast_table h) pgn = Fast" "pgn \<noteq> PGN_ISO_TP_CM" "pgn \<noteq> PGN_ISO_TP_DT"
    and "0 < length data" "length data \<le> 223"
  shows "ac_state (nd_claim (fst db)) = Disabled \<Longrightarrow> reassembler_wf r \<Longrightarrow>
    burst_state r (pgn, src, push_bit 5 seq) data {..<k} \<Longrightarrow> k < frame_count (length data) \<Longrightarrow>
    length ws = frame_count (length data) - k \<Longrightarrow>
    bus_out (snd (fst (receive_all h
      (zip (map (\<lambda>d. (i, d)) (map (fragment seq data) [k..<frame_count (length data)])) ws) (db, r)))) =
    bus_out (snd db) @ [raw_frame_new (Some (format_iso (unat (last ws)))) prio pgn src dst data]"
proof (induction ws arbitrary: db r k)
  case (Cons w ws)
  let ?n = "frame_count (length data)"
  obtain d' r' where step: "handle_frame h i (fragment seq data k) w db r =
       ((d', (snd db)\<lparr>bus_out := bus_out (snd db) @
          (if Suc k = ?n then [raw_frame_new (Some (format_iso (unat w))) prio pgn src dst data] else [])\<rparr>), r')"
    and d': "ac_state (nd_claim d') = Disabled" and r': "reassembler_wf r'"
    and b: "Suc k < ?n \<longrightarrow> burst_state r' (pgn, src, push_bit 5 seq) data {..<Suc k}"
    by (rule receive_fragment [where tm = w, OF Cons.prems(1) assms(1-4) Cons.prems(2,3,4) assms(5,6)])
  have upt: "[k..<?n] = k # [Suc k..<?n]" using Cons.prems(4) by (simp add: upt_conv_Cons)
  show ?case
  proof (cases "Suc k = ?n")
    case True
    then have "length (w # ws) = Suc 0" using Cons.prems(5) by presburger
    then have "ws = []" by simp
    then show ?thesis using True by (simp add: upt receive_all_def step)
  next
    case False
    then have k: "Suc k < ?n" using Cons.prems(4) by simp
    then have ne: "ws \<noteq> []" using Cons.prems(5) by auto
    have l: "length ws = ?n - Suc k" using Cons.prems(5) by simp
    show ?thesis
      using Cons.IH [of "(d', snd db)" r' "Suc k"] d' r' b k l ne False
      by (simp add: upt receive_all_def step)
  qed
qed simp

text \<open>What the sender queues.\<close>

lemma send_pgn_fast_queue:
  assumes "packet_type (ho_fast_table h) pgn = Fast" "0 < length data" "length data \<le> 223"
    and "length (tb_queue (bus_tx b)) + frame_count (length data) \<le> TX_BUFFER_CAPACITY"
    and "\<forall>i ds. i < 2 ^ 29 \<longrightarrow> length ds \<le> 8 \<longrightarrow> ho_accepts h i ds"
  shows "tb_queue (bus_tx (send_pgn h prio pgn src dst data e b)) = tb_queue (bus_tx b) @
    map (\<lambda>d. (iso11783_compose prio pgn src dst AND CAN_EFF_MASK, d))
      (map (fragment (fst (next_fast_seq pgn src (bus_tx b))) data) [0..<frame_count (length data)])"
proof -
  obtain seq tx where s: "next_fast_seq pgn src (bus_tx b) = (seq, tx)" by fastforce
  have q: "tb_queue tx = tb_queue (bus_tx b)" using s by (auto simp: next_fast_seq_def Let_def)
  have m: "i AND CAN_EFF_MASK < 2 ^ 29" for i unfolding eff_mask by (rule and_mask_less') simp
  have "fold (tx_push (ho_accepts h) j) (map (fragment seq data) [0..<frame_count (length data)]) tx =
      tx\<lparr>tb_queue := tb_queue tx @ map (\<lambda>d. (j AND CAN_EFF_MASK, d)) (map (fragment seq data) [0..<frame_count (length data)])\<rparr>"
    for j
    by (rule tx_push_all_room) (use assms(4,5) q m in auto)
  then show ?thesis
    using assms(1-3) by (simp add: send_pgn_def Let_def s q fast_frames_eq bus_send_def)
qed

lemma fast_not_tp: "packet_type t pgn = Fast \<Longrightarrow> pgn \<noteq> PGN_ISO_TP_CM \<and> pgn \<noteq> PGN_ISO_TP_DT"
  by (auto simp: packet_type_def in_mixed_def MIXED_START_def MIXED_END_def CANBOAT_PGN_START_def
      PGN_ISO_TP_CM_def PGN_ISO_TP_DT_def)

lemma masked_id:
  assumes "canid_fields prio pgn"
  shows "iso11783_decompose (iso11783_compose prio pgn src dst AND CAN_EFF_MASK) =
    (prio, pgn, src, if is_pdu1 pgn then dst else 255)"
proof -
  have "iso11783_compose prio pgn src (if is_pdu1 pgn then dst else 255) = iso11783_compose prio pgn src dst AND mask 29"
    by (rule decompose_compose [OF compose_decompose [OF assms]])
  then show ?thesis using compose_decompose [OF assms, of src "if is_pdu1 pgn then dst else 255"]
    by (simp add: eff_mask split: if_splits)
qed

text \<open>
  C18: A fast-packet PGN sent by one gateway arrives whole at another: when its ring has room and the two share the PGN table,
  the frames it queues, received in order at the times \<open>ws\<close> by a listening gateway that is not assembling this sequence number,
  make it forward exactly one frame, with the priority, PGN, source and data of the send, the destination where the PGN
  carries one, and the time of the last frame.
\<close>

theorem pgn_between_gateways:
  assumes "packet_type (ho_fast_table h) pgn = Fast" "ho_fast_table h2 = ho_fast_table h" "canid_fields prio pgn"
    and "0 < length data" "length data \<le> 223"
    and "length (tb_queue (bus_tx b)) + frame_count (length data) \<le> TX_BUFFER_CAPACITY"
    and "\<forall>i ds. i < 2 ^ 29 \<longrightarrow> length ds \<le> 8 \<longrightarrow> ho_accepts h i ds"
    and "sent = drop (length (tb_queue (bus_tx b))) (tb_queue (bus_tx (send_pgn h prio pgn src dst data e b)))"
    and "length ws = length sent"
    and "ac_state (nd_claim (fst db)) = Disabled" "reassembler_wf r"
    and "find_slot (ra_slots r) pgn src (push_bit 5 (fst (next_fast_seq pgn src (bus_tx b)))) = None"
  shows "bus_out (snd (fst (receive_all h2 (zip sent ws) (db, r)))) = bus_out (snd db) @
    [\<lparr>rf_timestamp = Some (format_iso (unat (last ws))), rf_prio = prio, rf_pgn = pgn, rf_src = src,
      rf_dst = (if is_pdu1 pgn then dst else 255), rf_data = data\<rparr>]"
proof -
  let ?seq = "fst (next_fast_seq pgn src (bus_tx b))" and ?i = "iso11783_compose prio pgn src dst AND CAN_EFF_MASK"
  have sent: "sent = map (\<lambda>d. (?i, d)) (map (fragment ?seq data) [0..<frame_count (length data)])"
    using assms(8) send_pgn_fast_queue [OF assms(1,4-7)] by simp
  have fresh: "burst_state r (pgn, src, push_bit 5 ?seq) data {..<0}"
    using assms(12) by (simp add: burst_state_def find_key_def)
  note tp = fast_not_tp [OF assms(1)]
  have "bus_out (snd (fst (receive_all h2 (zip sent ws) (db, r)))) = bus_out (snd db) @
      [raw_frame_new (Some (format_iso (unat (last ws)))) prio pgn src (if is_pdu1 pgn then dst else 255) data]"
    unfolding sent
    by (rule receive_burst [OF masked_id [OF assms(3)] _ _ _ assms(4,5) assms(10,11) fresh])
      (use assms(1,2,9) tp sent in \<open>auto simp: frame_count_def\<close>)
  then show ?thesis using assms(5) by (simp add: raw_frame_new_id)
qed

lemma find_slot_new: "find_slot (ra_slots reassembler_new) pgn src seq = None"
  by (simp add: find_slot_def reassembler_new_def slot_default_def position_None_iff)

definition silent_bus :: gw_bus where
  "silent_bus = \<lparr>bus_tx = tx_buffer_new, bus_out = []\<rparr>"

definition listener :: nmea_device where
  "listener = nmea_device_new demo_host (gateway_config_default\<lparr>gc_no_claim := True\<rparr>)"

lemma pgn_between_gateways_witness:
  "bus_out (snd (fst (receive_all demo_host
     (zip (tb_queue (bus_tx (send_pgn demo_host 3 126208 35 7 [1, 2, 3, 4, 5, 6, 7, 8, 9] False silent_bus))) [1000, 2000])
     ((listener, silent_bus), reassembler_new)))) =
   [\<lparr>rf_timestamp = Some (format_iso 2000), rf_prio = 3, rf_pgn = 126208, rf_src = 35, rf_dst = 7,
     rf_data = [1, 2, 3, 4, 5, 6, 7, 8, 9]\<rparr>]"
proof -
  let ?data = "[1, 2, 3, 4, 5, 6, 7, 8, 9] :: u8 list"
  let ?sent = "tb_queue (bus_tx (send_pgn demo_host 3 126208 35 7 ?data False silent_bus))"
  have fast: "packet_type (ho_fast_table demo_host) 126208 = Fast"
    by (simp add: packet_type_def in_mixed_def MIXED_START_def MIXED_END_def)
  have ids: "canid_fields 3 126208" and pdu: "is_pdu1 126208" by (simp_all add: canid_fields_def is_pdu1_def pgn_pf_def)
  have accepts: "\<forall>i ds. i < 2 ^ 29 \<longrightarrow> length ds \<le> 8 \<longrightarrow> ho_accepts demo_host i ds" by (simp add: demo_host_def)
  have room: "length (tb_queue (bus_tx silent_bus)) + frame_count (length ?data) \<le> TX_BUFFER_CAPACITY"
    by (simp add: silent_bus_def tx_buffer_new_def frame_count_def TX_BUFFER_CAPACITY_def)
  have dropped: "?sent = drop (length (tb_queue (bus_tx silent_bus))) ?sent" by (simp add: silent_bus_def tx_buffer_new_def)
  have len: "length [1000, 2000 :: u64] = length ?sent"
    using send_pgn_fast_queue [OF fast _ _ room accepts, of 3 35 7 False]
    by (simp add: silent_bus_def tx_buffer_new_def frame_count_def)
  have off: "ac_state (nd_claim (fst (listener, silent_bus))) = Disabled"
    by (simp add: listener_def nmea_device_new_def Let_def ac_disabled_def)
  show ?thesis
    using pgn_between_gateways [OF fast refl ids _ _ room accepts dropped len off reassembler_wf_new find_slot_new]
    by (simp add: pdu) (simp add: silent_bus_def)
qed

end
