(* ===== verification/Gateway_Answers.thy ===== *)
theory Gateway_Answers
  imports Socketcan
begin

section \<open>What other nodes see of the gateway\<close>

text \<open>
  Behaviour of the responders across operations: a request it does not serve, the heartbeat interval set by a group function and
  kept by the next ticks, and the bus load of the network status.
\<close>

lemma claimed_tick [simp]: "is_claimed (nd_claim d) \<Longrightarrow> claim_frames h (d, b) (ac_tick (nd_claim d) now) = (d, b)"
  by (simp add: is_claimed_def ac_tick_def claim_frames_def)

lemma device_addr_claimed: "is_claimed (nd_claim d) \<Longrightarrow> device_addr d = ac_address (nd_claim d)"
  by (simp add: device_addr_def claimed_address_def)

lemma device_addr_set [simp]:
  "device_addr (d\<lparr>nd_heartbeat_interval := x\<rparr>) = device_addr d" "device_addr (d\<lparr>nd_next_heartbeat := x\<rparr>) = device_addr d"
  "device_addr (d\<lparr>nd_heartbeat_seq := s\<rparr>) = device_addr d" "device_addr (d\<lparr>nd_prev_load_sample := l\<rparr>) = device_addr d"
  by (simp_all add: device_addr_def)

text \<open>The frames of a kind in what the consumer was sent.\<close>

definition sent_heartbeats :: "gw_bus \<Rightarrow> raw_frame list" where
  "sent_heartbeats b = filter (\<lambda>f. rf_pgn f = PGN_HEARTBEAT) (bus_out b)"

lemma network_status_no_heartbeat [simp]:
  "sent_heartbeats (snd (emit_network_status h now db)) = sent_heartbeats (snd db)"
  by (cases db) (simp add: emit_network_status_def Let_def sent_heartbeats_def bus_send_def build_network_status_def
      IKONVERT_BEM_def PGN_HEARTBEAT_def)

lemma heartbeat_sent:
  "sent_heartbeats (snd (send_heartbeat h (d, b))) = sent_heartbeats b @
     [raw_frame_new (Some (format_iso (unat (ho_now h)))) 7 PGN_HEARTBEAT (device_addr d) ADDR_GLOBAL
        (rf_data (heartbeat_frame (device_addr d) (nd_heartbeat_seq d) (nd_heartbeat_interval d)))]"
  by (simp add: send_heartbeat_def sent_heartbeats_def heartbeat_frame_def Let_def)

lemma claimed_tick_heartbeats:
  assumes "is_claimed (nd_claim d)"
  shows "sent_heartbeats (snd (device_tick h now (d, b))) =
    (if nd_heartbeat_interval d > 0 \<and> now \<ge> nd_next_heartbeat d
     then sent_heartbeats (snd (send_heartbeat h (d, b))) else sent_heartbeats b)"
  using assms by (auto simp: device_tick_def Let_def case_prod_beta)

text \<open>
  C35: A group function that asks a claimed gateway for a heartbeat every \<open>i\<close> ms (1000 to 60000) is acknowledged without
  an error, and the next heartbeat comes with the first tick at or after \<open>i\<close> ms from then, not before; it carries
  the gateway's address, the interval in units of 10 ms and the sequence counter.
\<close>

theorem heartbeat_interval_set:
  assumes "is_claimed (nd_claim d)" "1000 \<le> i" "i \<le> 60000" "unat (ho_now h) + unat i < 2 ^ 64"
    and "handle_group_function h (d, b) src ([0, 0x11, 0xf0, 0x01] @ le_bytes 4 (i :: u32)) = (d1, b1)"
  shows "map (\<lambda>f. (rf_pgn f, rf_src f, rf_dst f, rf_data f)) (drop (length (bus_out b)) (bus_out b1)) =
      [(126208, device_addr d, src, [2, 0x11, 0xf0, 0x01, 0, 0])] \<and>
    map (\<lambda>f. (rf_src f, rf_dst f, unat (from_le (take 2 (rf_data f)) :: u16), rf_data f ! 2))
      (drop (length (sent_heartbeats b1)) (sent_heartbeats (snd (device_tick h2 now (d1, b1))))) =
      (if unat now < unat (ho_now h) + unat i then [] else [(device_addr d, 255, unat i div 10, nd_heartbeat_seq d)])"
proof -
  let ?i = "ucast i :: u64"
  have "unat i \<le> 60000" using assms(3) by (simp add: word_le_nat_alt)
  then have ui: "unat ?i = unat i" by (simp add: unsigned_ucast_eq take_bit_nat_eq_self)
  have sets: "i \<noteq> TX_INTERVAL_NO_CHANGE" "i \<noteq> TX_INTERVAL_RESTORE_DEFAULT" "i \<noteq> 0"
    using assms(2,3) by (auto simp: TX_INTERVAL_NO_CHANGE_def TX_INTERVAL_RESTORE_DEFAULT_def)
  have i: "from_le [le_bytes 4 i ! 0, le_bytes 4 i ! 1, le_bytes 4 i ! 2, le_bytes 4 i ! 3] = i"
  proof -
    have "[le_bytes 4 i ! 0, le_bytes 4 i ! 1, le_bytes 4 i ! 2, le_bytes 4 i ! 3] = le_bytes 4 i"
      by (rule nth_equalityI) (auto simp: less_Suc_eq numeral_nat)
    then show ?thesis by (simp add: from_le_le_bytes)
  qed
  have target: "le24 0x11 0xf0 0x01 = PGN_HEARTBEAT" by (simp add: le24_def PGN_HEARTBEAT_def)
  have d1: "d1 = d\<lparr>nd_heartbeat_interval := ?i, nd_next_heartbeat := ho_now h + ?i\<rparr>"
    and b1: "b1 = send_ack_group_function h d1 src PGN_HEARTBEAT 0 0 b"
    using assms(5) assms(1-3) sets i target
    by (auto simp: handle_group_function_def Let_def nth_append GROUP_FUNCTION_REQUEST_def set_interval_def split: prod.splits)
  have bytes: "(126993 :: u8) = 0x11" "(496 :: u8) = 0xf0" by simp_all
  have ack: "bus_out b1 = bus_out b @ [raw_frame_new (Some (format_iso (unat (ho_now h)))) 6 PGN_GROUP_FUNCTION
      (device_addr d) src [2, 0x11, 0xf0, 0x01, 0, 0]]"
    unfolding b1 send_ack_group_function_def
    by (simp add: d1 Let_def GROUP_FUNCTION_ACK_def PGN_HEARTBEAT_def le_bytes_def bytes)
  have due: "unat (ho_now h + ?i) = unat (ho_now h) + unat i"
    using assms(4) ui by (simp add: unat_word_ariths)
  have late: "now \<ge> ho_now h + ?i \<longleftrightarrow> \<not> unat now < unat (ho_now h) + unat i"
    by (simp add: word_le_nat_alt due not_less)
  have pos: "?i > 0" using assms(2) ui by (simp add: word_less_nat_alt word_le_nat_alt)
  have small: "?i < 655360" using assms(3) ui by (simp add: word_less_nat_alt word_le_nat_alt)
  have tick: "sent_heartbeats (snd (device_tick h2 now (d1, b1))) = sent_heartbeats b1 @
      (if unat now < unat (ho_now h) + unat i then []
       else [raw_frame_new (Some (format_iso (unat (ho_now h2)))) 7 PGN_HEARTBEAT (device_addr d) ADDR_GLOBAL
          (rf_data (heartbeat_frame (device_addr d) (nd_heartbeat_seq d) ?i))])"
    using assms(1) pos late by (simp add: claimed_tick_heartbeats heartbeat_sent d1)
  have data: "take RAWFRAME_MAX_SIZE (rf_data (heartbeat_frame a s j)) = rf_data (heartbeat_frame a s j)" for a s j
    by (simp add: heartbeat_frame_def Let_def RAWFRAME_MAX_SIZE_def)
  have fields: "unat (from_le (take 2 (rf_data (heartbeat_frame (device_addr d) (nd_heartbeat_seq d) ?i))) :: u16) = unat i div 10"
    "rf_data (heartbeat_frame (device_addr d) (nd_heartbeat_seq d) ?i) ! 2 = nd_heartbeat_seq d"
    using heartbeat_fields [OF small, of "device_addr d" "nd_heartbeat_seq d"] ui by simp_all
  show ?thesis
    unfolding tick ack using fields
    by (simp add: data ADDR_GLOBAL_def PGN_GROUP_FUNCTION_def RAWFRAME_MAX_SIZE_def)
qed

text \<open>
  C36: A claimed gateway refuses what it does not serve: a request addressed to it for another PGN than the claim, Product
  Information, the PGN lists and the heartbeat is answered by exactly one ISO Acknowledgement to the requester, with
  control 1 (NAK) and the PGN asked for; the same request to the global address or to another node is not answered.
\<close>

theorem unsupported_request:
  assumes "is_claimed (nd_claim d)" "device_addr d \<noteq> 255" "pgn < 2 ^ 24"
    and "pgn \<notin> {60928, 126996, 126464, 126993}"
    and "on_request h (d, b) src dst [ucast pgn, ucast (drop_bit 8 pgn), ucast (drop_bit 16 pgn)] = (d1, b1)"
  shows "d1 = d \<and>
    map (\<lambda>f. (rf_pgn f, rf_src f, rf_dst f, rf_data f ! 0, le24 (rf_data f ! 5) (rf_data f ! 6) (rf_data f ! 7)))
      (drop (length (bus_out b)) (bus_out b1)) =
    (if dst = device_addr d then [(59392, device_addr d, src, 1, pgn)] else [])"
proof -
  have req: "le24 (ucast pgn) (ucast (drop_bit 8 pgn)) (ucast (drop_bit 16 pgn)) = pgn"
    using assms(3) by (simp add: le24_bytes take_bit_24_id)
  have other: "pgn \<noteq> PGN_ISO_ADDRESS_CLAIM" "pgn \<noteq> PGN_PRODUCT_INFO" "pgn \<noteq> PGN_PGN_LIST" "pgn \<noteq> PGN_HEARTBEAT"
    using assms(4) by (auto simp: PGN_ISO_ADDRESS_CLAIM_def PGN_PRODUCT_INFO_def PGN_PGN_LIST_def PGN_HEARTBEAT_def)
  have r: "(d1, b1) = (if dst = device_addr d then (d, send_iso_ack h d src 1 pgn b) else (d, b))"
    using assms(5,1) other
    unfolding on_request_def Let_def prod.case
    by (auto simp: req [simplified] split: if_splits)
  have len: "length (rf_data (iso_ack_frame s t c p)) \<le> RAWFRAME_MAX_SIZE" for s t c p
    by (simp add: iso_ack_frame_def Let_def RAWFRAME_MAX_SIZE_def)
  have ack: "rf_pgn (iso_ack_frame s t c p) = 59392" "rf_src (iso_ack_frame s t c p) = s" "rf_dst (iso_ack_frame s t c p) = t"
    for s t c p
    by (simp_all add: iso_ack_frame_def Let_def PGN_ISO_ACK_def)
  show ?thesis
    using r iso_ack_fields(1) [of "device_addr d" src 1 pgn] iso_ack_fields(2) [of pgn "device_addr d" src 1] assms(3)
    by (auto simp: send_iso_ack_def ack len)
qed

definition demo_claimed :: nmea_device where
  "demo_claimed = (nmea_device_new demo_host gateway_config_default)
     \<lparr>nd_claim := (ac_new 1 35 True)\<lparr>ac_state := Claimed\<rparr>\<rparr>"

definition demo_bus :: gw_bus where
  "demo_bus = \<lparr>bus_tx = tx_buffer_new, bus_out = []\<rparr>"

lemma demo_claimed_sel [simp]:
  "is_claimed (nd_claim demo_claimed)" "device_addr demo_claimed = 35" "nd_heartbeat_seq demo_claimed = 0"
  by (simp_all add: demo_claimed_def is_claimed_def device_addr_def claimed_address_def ac_new_def nmea_device_new_def Let_def)

lemma heartbeat_interval_set_witness:
  "case handle_group_function demo_host (demo_claimed, demo_bus) 7 ([0, 0x11, 0xf0, 0x01] @ le_bytes 4 (2000 :: u32)) of
     (d1, b1) \<Rightarrow>
       map (\<lambda>f. (rf_src f, rf_dst f, unat (from_le (take 2 (rf_data f)) :: u16), rf_data f ! 2))
         (drop (length (sent_heartbeats b1)) (sent_heartbeats (snd (device_tick demo_host 7000 (d1, b1))))) = [(35, 255, 200, 0)]"
proof -
  obtain d1 b1 where r: "handle_group_function demo_host (demo_claimed, demo_bus) 7
      ([0, 0x11, 0xf0, 0x01] @ le_bytes 4 (2000 :: u32)) = (d1, b1)" by (rule prod.exhaust)
  have "(1000 :: u32) \<le> 2000" "(2000 :: u32) \<le> 60000" "unat (ho_now demo_host) + unat (2000 :: u32) < 2 ^ 64"
    by (simp_all add: demo_host_def)
  from heartbeat_interval_set [OF demo_claimed_sel(1) this r, of demo_host 7000] show ?thesis
    unfolding r by (simp add: demo_host_def)
qed

lemma unsupported_request_witness:
  "case on_request demo_host (demo_claimed, demo_bus) 7 35 [ucast (129029 :: u32), ucast (drop_bit 8 (129029 :: u32)), ucast (drop_bit 16 (129029 :: u32))]
   of (d1, b1) \<Rightarrow> map (\<lambda>f. (rf_pgn f, rf_src f, rf_dst f, rf_data f ! 0, le24 (rf_data f ! 5) (rf_data f ! 6) (rf_data f ! 7)))
     (bus_out b1) = [(59392, 35, 7, 1, 129029)]"
proof -
  obtain d1 b1 where r: "on_request demo_host (demo_claimed, demo_bus) 7 35
      [ucast (129029 :: u32), ucast (drop_bit 8 (129029 :: u32)), ucast (drop_bit 16 (129029 :: u32))] = (d1, b1)"
    by (rule prod.exhaust)
  have "device_addr demo_claimed \<noteq> 255" "(129029 :: u32) < 2 ^ 24" "129029 \<notin> ({60928, 126996, 126464, 126993} :: u32 set)"
    by simp_all
  from unsupported_request [OF demo_claimed_sel(1) this r] show ?thesis
    unfolding r by (simp add: demo_bus_def)
qed

subsection \<open>The bus load\<close>

lemma unat_sat_add: "unat (sat_add a b) = min (unat a + unat b) (2 ^ 64 - 1)"
  by (simp add: sat_add_def unsigned_of_nat take_bit_nat_eq_self)

lemma unat_sat_mul: "unat (sat_mul a b) = min (unat a * unat b) (2 ^ 64 - 1)"
  by (simp add: sat_mul_def unsigned_of_nat take_bit_nat_eq_self)

text \<open>
  The load percentage is never more than 100, and below 2^34 bytes and frames in an interval of less than 2^32 ms no
  saturation sets in: it is the bits on the wire (8 for a byte, 67 for a frame, plus 20 per cent stuffing, rounded down) over the
  capacity of the interval, rounded down and capped at 100.
\<close>

theorem load_percentage:
  assumes "rate \<noteq> 0" "lo_at_ms prev < lo_at_ms cur" "unat (lo_at_ms cur - lo_at_ms prev) < 2 ^ 32"
    and "nbytes = unat (lo_rx_bytes cur - lo_rx_bytes prev) + unat (lo_tx_bytes cur - lo_tx_bytes prev)" "nbytes < 2 ^ 34"
    and "nframes = unat (lo_rx_packets cur - lo_rx_packets prev) + unat (lo_tx_packets cur - lo_tx_packets prev)" "nframes < 2 ^ 34"
  shows "map_option unat (compute_load_pct prev cur rate) =
    Some (min 100 ((nbytes * 8 + nframes * 67) * 120 div 100 * 100000 div (unat rate * unat (lo_at_ms cur - lo_at_ms prev))))"
proof -
  let ?dt = "lo_at_ms cur - lo_at_ms prev"
  define d_bytes where "d_bytes = sat_add (lo_rx_bytes cur - lo_rx_bytes prev) (lo_tx_bytes cur - lo_tx_bytes prev)"
  define d_packets where "d_packets = sat_add (lo_rx_packets cur - lo_rx_packets prev) (lo_tx_packets cur - lo_tx_packets prev)"
  define raw where "raw = sat_add (sat_mul d_bytes 8) (sat_mul d_packets CAN_EFF_OVERHEAD_BITS)"
  define wire where "wire = sat_mul raw STUFFING_NUMER div STUFFING_DENOM"
  define denom where "denom = sat_mul (ucast rate :: u64) ?dt"
  have b: "unat d_bytes = nbytes" using assms(4,5) by (simp add: d_bytes_def unat_sat_add)
  have p: "unat d_packets = nframes" using assms(6,7) by (simp add: d_packets_def unat_sat_add)
  have r: "unat raw = nbytes * 8 + nframes * 67"
    using assms(5,7) by (simp add: raw_def unat_sat_add unat_sat_mul b p CAN_EFF_OVERHEAD_BITS_def)
  have w: "unat wire = (nbytes * 8 + nframes * 67) * 120 div 100"
    using assms(5,7) by (simp add: wire_def unat_div unat_sat_mul r STUFFING_NUMER_def STUFFING_DENOM_def)
  have rate: "unat (ucast rate :: u64) = unat rate" "unat rate < 2 ^ 32" "0 < unat rate"
    using unsigned_less [of rate, where 'a = nat] assms(1)
    by (simp_all add: unsigned_ucast_eq take_bit_nat_eq_self unat_gt_0)
  have "unat rate * unat ?dt < 2 ^ 32 * 2 ^ 32" by (rule mult_strict_mono) (use rate assms(3) in auto)
  then have d: "unat denom = unat rate * unat ?dt" by (simp add: denom_def unat_sat_mul rate(1))
  have dt0: "?dt \<noteq> 0" using assms(2) by auto
  then have "0 < unat ?dt" by (simp add: unat_gt_0)
  then have "denom \<noteq> 0" using d rate(3) by (metis mult_is_0 neq0_conv unat_0)
  have "sat_sub (lo_at_ms cur) (lo_at_ms prev) = ?dt" using assms(2) by (auto simp: sat_sub_def dest: less_asym)
  then have c: "compute_load_pct prev cur rate = Some (ucast (min (sat_mul wire 100000 div denom) 100))"
    using dt0 assms(1) \<open>denom \<noteq> 0\<close>
    by (simp add: compute_load_pct_def Let_def flip: d_bytes_def d_packets_def raw_def wire_def denom_def)
  have "unat wire \<le> (nbytes * 8 + nframes * 67) * 120" unfolding w by (rule div_le_dividend)
  then have "unat wire * 100000 \<le> 2 ^ 64 - 1" using assms(5,7) by simp
  then have q: "unat (sat_mul wire 100000 div denom) = unat wire * 100000 div (unat rate * unat ?dt)"
    by (simp add: unat_div unat_sat_mul d)
  have "unat (ucast (min x 100) :: u8) = min 100 (unat x)" for x :: u64
    by (cases "x \<le> 100") (simp_all add: min_def word_le_nat_alt unsigned_ucast_eq take_bit_nat_eq_self)
  then show ?thesis unfolding c by (simp add: q w)
qed

text \<open>A counter that wraps at 32 bits counts as nearly 2^64 bytes.\<close>

definition sample_at :: "u64 \<Rightarrow> u64 \<Rightarrow> load_sample" where
  "sample_at rx at =
     \<lparr>lo_rx_bytes = rx, lo_tx_bytes = 0, lo_rx_packets = 0, lo_tx_packets = 0, lo_at_ms = at\<rparr>"

lemma sample_at_sel [simp]:
  "lo_rx_bytes (sample_at r a) = r" "lo_tx_bytes (sample_at r a) = 0" "lo_rx_packets (sample_at r a) = 0"
  "lo_tx_packets (sample_at r a) = 0" "lo_at_ms (sample_at r a) = a"
  by (simp_all add: sample_at_def)

lemma load_percentage_witness: "map_option unat (compute_load_pct (sample_at 0 0) (sample_at 50000 5000) 250000) = Some 38"
proof -
  have "unat (lo_at_ms (sample_at 50000 5000) - lo_at_ms (sample_at 0 0)) < 2 ^ 32"
    "lo_at_ms (sample_at 0 0) < lo_at_ms (sample_at 50000 5000)" "(250000 :: u32) \<noteq> 0"
    "50000 = unat (lo_rx_bytes (sample_at 50000 5000) - lo_rx_bytes (sample_at 0 0)) +
       unat (lo_tx_bytes (sample_at 50000 5000) - lo_tx_bytes (sample_at 0 0))"
    "0 = unat (lo_rx_packets (sample_at 50000 5000) - lo_rx_packets (sample_at 0 0)) +
       unat (lo_tx_packets (sample_at 50000 5000) - lo_tx_packets (sample_at 0 0))" by simp_all
  from load_percentage [OF this(3,2,1,4) _ this(5)] show ?thesis by simp
qed

lemma counter_wrap_full_load:
  "compute_load_pct (sample_at 0xffffffff 0) (sample_at 0 5000) 250000 = Some 100"
proof -
  have max: "unat (- 1 :: u64) = 18446744073709551615"
    by (simp add: unsigned_minus_1_eq_mask mask_eq_exp_minus_1)
  have top: "x = - 1" if "unat x = 18446744073709551615" for x :: u64
  proof (rule word_unat_eq_iff [THEN iffD2])
    show "unat x = unat (- 1 :: u64)" using that max by simp
  qed
  have 1: "sat_add (0 - 0xffffffff) 0 = 0xFFFFFFFF00000001" by (rule word_unat_eq_iff [THEN iffD2]) (simp add: unat_sat_add)
  have 2: "sat_mul 0xFFFFFFFF00000001 8 = - 1" by (rule top) (simp add: unat_sat_mul max)
  have 3: "sat_add (- 1) 0 = - 1" by (rule top) (simp add: unat_sat_add max)
  have 4: "sat_mul (- 1) 120 = - 1" by (rule top) (simp add: unat_sat_mul max)
  have 5: "sat_mul 184467440737095516 100000 = - 1" by (rule top) (simp add: unat_sat_mul max)
  have 6: "sat_mul 250000 5000 = 1250000000" by (rule word_unat_eq_iff [THEN iffD2]) (simp add: unat_sat_mul)
  have 7: "sat_mul 0 67 = 0" "sat_add 0 0 = 0" by (rule word_unat_eq_iff [THEN iffD2], simp add: unat_sat_mul unat_sat_add)+
  have 8: "(- 1 :: u64) div 100 = 184467440737095516" "(- 1 :: u64) div 1250000000 = 14757395258"
    by (rule word_unat_eq_iff [THEN iffD2], simp add: unat_div max)+
  show ?thesis
    unfolding compute_load_pct_def sample_at_sel Let_def CAN_EFF_OVERHEAD_BITS_def STUFFING_NUMER_def STUFFING_DENOM_def
    by (simp add: sat_sub_def 1 [simplified] 2 [simplified] 3 4 [simplified] 5 [simplified] 6 [simplified] 7 8)
qed

end
