(* ===== verification/Schema.thy ===== *)
theory Schema
  imports Prelude "HOL-Library.List_Lexorder" "HOL-Library.Product_Lexorder" "HOL-Library.Char_ord"
begin

section \<open>The PGN schema (canboat-schema/src/lib.rs, canboat-core/src/db.rs)\<close>

text \<open>
  The types of the schema tables, the tables with their sorted index slices, and the database built over them.  The
  tables themselves are generated at build time: the database is an argument of the definitions that use it, and so are the generated
  functions that pick a variant (\<open>dispatch\<close>) and a catch-all.  Numbers of type \<open>f64\<close> have the type
  variable \<open>'f\<close>; the operations on them are those of the record \<open>float_ops\<close>.

  A binary search is the loop of the Rust standard library.  The lemmas show that on a sorted index it finds what a scan
  of the table finds.
\<close>

subsection \<open>Floating point\<close>

text \<open>
  The operations on \<open>f64\<close> the sources use; casts to integers saturate, those from \<open>f32\<close> take its bits.
  \<open>fo_lit\<close> is the value of a literal or constant, by its text.
\<close>

record 'f float_ops =
  fo_zero :: 'f
  fo_one :: 'f
  fo_eq :: "'f \<Rightarrow> 'f \<Rightarrow> bool"
  fo_le :: "'f \<Rightarrow> 'f \<Rightarrow> bool"
  fo_add :: "'f \<Rightarrow> 'f \<Rightarrow> 'f"
  fo_sub :: "'f \<Rightarrow> 'f \<Rightarrow> 'f"
  fo_mul :: "'f \<Rightarrow> 'f \<Rightarrow> 'f"
  fo_div :: "'f \<Rightarrow> 'f \<Rightarrow> 'f"
  fo_round :: "'f \<Rightarrow> 'f"
  fo_finite :: "'f \<Rightarrow> bool"
  fo_of_i64 :: "i64 \<Rightarrow> 'f"
  fo_to_i64 :: "'f \<Rightarrow> i64"
  fo_to_u32 :: "'f \<Rightarrow> u32"
  fo_of_f32 :: "u32 \<Rightarrow> 'f"
  fo_to_f32 :: "'f \<Rightarrow> u32"
  fo_i64_to_f32 :: "i64 \<Rightarrow> u32"
  fo_nan :: 'f
  fo_parse :: "string \<Rightarrow> 'f option"
  fo_lit :: "string \<Rightarrow> 'f"

subsection \<open>Fields and PGNs\<close>

datatype packet_kind = PkSingle | PkFast | PkIso | PkMixed

datatype field_type =
    FtNumber | FtDecimal | FtFloat | FtBinary | FtLookup | FtBitLookup | FtIndirectLookup | FtDate | FtTime
  | FtDuration | FtStringFix | FtStringLz | FtStringLau | FtVariable | FtMmsi | FtPgn | FtIsoName | FtReserved
  | FtSpare | FtDynamicFieldKey | FtDynamicFieldLength | FtDynamicFieldValue | FtFieldIndex

record 'f field_info =
  fi_order :: u8
  fi_id :: string
  fi_name :: string
  fi_bit_length :: "u32 option"
  fi_bit_offset :: "u32 option"
  fi_resolution :: "'f option"
  fi_signed :: "bool option"
  fi_offset :: "i64 option"
  fi_unknown_value :: "u64 option"
  fi_out_of_range_value :: "u64 option"
  fi_reserved_value :: "u64 option"
  fi_unit :: "string option"
  fi_physical_quantity :: "string option"
  fi_field_type :: "field_type option"
  fi_lookup_enumeration :: "string option"
  fi_lookup_bit_enumeration :: "string option"
  fi_lookup_indirect_enumeration :: "string option"
  fi_lookup_indirect_field_order :: "u8 option"
  fi_lookup_field_type_enumeration :: "string option"
  fi_match_value :: "i64 option"
  fi_part_of_primary_key :: "bool option"
  fi_condition :: "string option"
  fi_unit_offset :: 'f
  fi_precision :: u8
  fi_is_dynamic_length_marker :: bool

record 'f pgn_info =
  pg_pgn :: u32
  pg_id :: string
  pg_description :: string
  pg_packet_type :: packet_kind
  pg_fallback :: "bool option"
  pg_priority :: "u8 option"
  pg_length :: "u32 option"
  pg_fields :: "'f field_info list"
  pg_set1_size :: "u32 option"
  pg_set1_start :: "u32 option"
  pg_set1_count :: "u32 option"
  pg_set2_size :: "u32 option"
  pg_set2_start :: "u32 option"
  pg_set2_count :: "u32 option"
  pg_id_is_pinned :: bool

subsection \<open>Binary search\<close>

text \<open>\<open>slice::binary\_search\_by\<close>: the probe says how the element compares with the target.\<close>

datatype ordering = Less | Equal | Greater

primrec ordering_rank :: "ordering \<Rightarrow> nat" where
  "ordering_rank Less = 0"
| "ordering_rank Equal = 1"
| "ordering_rank Greater = 2"

text \<open>\<open>Ordering\<close> is itself ordered, as its declaration lists it.\<close>

instantiation ordering :: linorder
begin

definition less_eq_ordering :: "ordering \<Rightarrow> ordering \<Rightarrow> bool" where
  "x \<le> y \<longleftrightarrow> ordering_rank x \<le> ordering_rank y"

definition less_ordering :: "ordering \<Rightarrow> ordering \<Rightarrow> bool" where
  "x < y \<longleftrightarrow> ordering_rank x < ordering_rank y"

instance
proof
  fix x y :: ordering
  show "x \<le> y \<Longrightarrow> y \<le> x \<Longrightarrow> x = y" by (cases x; cases y) (simp_all add: less_eq_ordering_def)
qed (auto simp: less_eq_ordering_def less_ordering_def)

end

definition compare_to :: "'a::linorder \<Rightarrow> 'a \<Rightarrow> ordering" where
  "compare_to x y = (if x < y then Less else if x = y then Equal else Greater)"

function binary_search_loop :: "(nat \<Rightarrow> ordering) \<Rightarrow> nat \<Rightarrow> nat \<Rightarrow> nat" where
  "binary_search_loop probe base sz =
     (if sz \<le> 1 then base
      else let half = sz div 2; mid = base + half
           in binary_search_loop probe (if probe mid = Greater then base else mid) (sz - half))"
  by pat_completeness auto
termination binary_search_loop
  by (relation "measure (\<lambda>(_, _, sz). sz)") auto

declare binary_search_loop.simps [simp del]

definition binary_search_by :: "(nat \<Rightarrow> ordering) \<Rightarrow> nat \<Rightarrow> nat option" where
  "binary_search_by probe len =
     (if len = 0 then None
      else let base = binary_search_loop probe 0 len in if probe base = Equal then Some base else None)"

definition binary_search_by_key :: "('a \<Rightarrow> 'k::linorder) \<Rightarrow> 'k \<Rightarrow> 'a list \<Rightarrow> nat option" where
  "binary_search_by_key key k xs = binary_search_by (\<lambda>i. compare_to (key (xs ! i)) k) (length xs)"

subsection \<open>Lookup tables\<close>

record lookup_value =
  lv_value :: u64
  lv_name :: string
  lv_id :: "string option"

record lookup_table =
  lt_name :: string
  lt_values :: "lookup_value list"
  lt_by_value :: "(u64 \<times> nat) list"

definition lookup_get :: "lookup_table \<Rightarrow> u64 \<Rightarrow> lookup_value option" where
  "lookup_get t v =
     map_option (\<lambda>i. lt_values t ! snd (lt_by_value t ! i)) (binary_search_by_key fst v (lt_by_value t))"

record bit_lookup_value =
  bl_bit :: u8
  bl_name :: string
  bl_id :: "string option"

record bit_lookup_table =
  bt_name :: string
  bt_values :: "bit_lookup_value list"
  bt_by_bit :: "(u8 \<times> nat) list"

definition bit_lookup_get :: "bit_lookup_table \<Rightarrow> u8 \<Rightarrow> bit_lookup_value option" where
  "bit_lookup_get t v =
     map_option (\<lambda>i. bt_values t ! snd (bt_by_bit t ! i)) (binary_search_by_key fst v (bt_by_bit t))"

record indirect_lookup_value =
  il_value1 :: u64
  il_value2 :: u64
  il_name :: string

record indirect_lookup_table =
  it_name :: string
  it_values :: "indirect_lookup_value list"
  it_by_pair :: "((u64 \<times> u64) \<times> nat) list"

text \<open>Pairs compare lexicographically.\<close>

definition compare_pair :: "u64 \<times> u64 \<Rightarrow> u64 \<times> u64 \<Rightarrow> ordering" where
  "compare_pair x y = (if fst x = fst y then compare_to (snd x) (snd y) else compare_to (fst x) (fst y))"

definition indirect_lookup_get :: "indirect_lookup_table \<Rightarrow> u64 \<Rightarrow> u64 \<Rightarrow> indirect_lookup_value option" where
  "indirect_lookup_get t v1 v2 =
     map_option (\<lambda>i. it_values t ! snd (it_by_pair t ! i))
       (binary_search_by (\<lambda>i. compare_pair (fst (it_by_pair t ! i)) (v1, v2)) (length (it_by_pair t)))"

record 'f field_type_value =
  ft_value :: u64
  ft_name :: string
  ft_field_type :: "string option"
  ft_bits :: "u32 option"
  ft_resolution :: "'f option"
  ft_unit :: "string option"
  ft_lookup_enumeration :: "string option"
  ft_signed :: bool
  ft_precision :: u8

record 'f field_type_table =
  tt_name :: string
  tt_values :: "'f field_type_value list"
  tt_by_value :: "(u64 \<times> nat) list"

definition field_type_get :: "'f field_type_table \<Rightarrow> u64 \<Rightarrow> 'f field_type_value option" where
  "field_type_get t v =
     map_option (\<lambda>i. tt_values t ! snd (tt_by_value t ! i)) (binary_search_by_key fst v (tt_by_value t))"

subsection \<open>The database\<close>

text \<open>The unit system a database presents its numbers in.\<close>

datatype units = UnitsSi | UnitsMetric

record 'f pgn_database =
  db_schema_version :: string
  db_version :: string
  db_schema_hash :: u64
  db_units :: units
  db_pgns :: "'f pgn_info list"
  db_pgn_index :: "(u32 \<times> nat list) list"
  db_lookups :: "lookup_table list"
  db_bit_lookups :: "bit_lookup_table list"
  db_indirect_lookups :: "indirect_lookup_table list"
  db_field_type_lookups :: "'f field_type_table list"
  db_dispatch :: "u32 \<Rightarrow> u8 list \<Rightarrow> nat option"
  db_catchall :: "u32 \<Rightarrow> nat option"

definition pgn_variants :: "'f pgn_database \<Rightarrow> u32 \<Rightarrow> 'f pgn_info list" where
  "pgn_variants db pgn =
     (case binary_search_by_key fst pgn (db_pgn_index db) of
        Some i \<Rightarrow> map (\<lambda>j. db_pgns db ! j) (snd (db_pgn_index db ! i))
      | None \<Rightarrow> [])"

definition first_pgn :: "'f pgn_database \<Rightarrow> u32 \<Rightarrow> 'f pgn_info option" where
  "first_pgn db pgn =
     (case binary_search_by_key fst pgn (db_pgn_index db) of
        Some i \<Rightarrow> (case snd (db_pgn_index db ! i) of [] \<Rightarrow> None | j # _ \<Rightarrow> Some (db_pgns db ! j))
      | None \<Rightarrow> None)"

definition pgn_by_id :: "'f pgn_database \<Rightarrow> string \<Rightarrow> 'f pgn_info option" where
  "pgn_by_id db i = find (\<lambda>p. pg_id p = i) (db_pgns db)"

definition field_ref :: "'f pgn_database \<Rightarrow> string \<Rightarrow> string \<Rightarrow> ('f pgn_info \<times> 'f field_info) option" where
  "field_ref db pgn_id field_id =
     (case pgn_by_id db pgn_id of
        None \<Rightarrow> None
      | Some info \<Rightarrow> map_option (\<lambda>f. (info, f)) (find (\<lambda>f. fi_id f = field_id) (pg_fields info)))"

definition fallback_pgn :: "'f pgn_database \<Rightarrow> u32 \<Rightarrow> 'f pgn_info option" where
  "fallback_pgn db pgn = map_option (\<lambda>i. db_pgns db ! i) (db_catchall db pgn)"

definition db_lookup :: "'f pgn_database \<Rightarrow> string \<Rightarrow> lookup_table option" where
  "db_lookup db nm = map_option (\<lambda>i. db_lookups db ! i) (binary_search_by_key lt_name nm (db_lookups db))"

definition db_bit_lookup :: "'f pgn_database \<Rightarrow> string \<Rightarrow> bit_lookup_table option" where
  "db_bit_lookup db nm =
     map_option (\<lambda>i. db_bit_lookups db ! i) (binary_search_by_key bt_name nm (db_bit_lookups db))"

definition db_indirect_lookup :: "'f pgn_database \<Rightarrow> string \<Rightarrow> u64 \<Rightarrow> u64 \<Rightarrow> string option" where
  "db_indirect_lookup db nm v1 v2 =
     (case binary_search_by_key it_name nm (db_indirect_lookups db) of
        None \<Rightarrow> None
      | Some i \<Rightarrow> map_option il_name (indirect_lookup_get (db_indirect_lookups db ! i) v1 v2))"

definition db_field_type_lookup :: "'f pgn_database \<Rightarrow> string \<Rightarrow> u64 \<Rightarrow> 'f field_type_value option" where
  "db_field_type_lookup db nm key =
     (case binary_search_by_key tt_name nm (db_field_type_lookups db) of
        None \<Rightarrow> None
      | Some i \<Rightarrow> field_type_get (db_field_type_lookups db ! i) key)"

definition db_field_type_lookup_by_name ::
  "'f pgn_database \<Rightarrow> string \<Rightarrow> string \<Rightarrow> 'f field_type_value option" where
  "db_field_type_lookup_by_name db nm value_name =
     (case binary_search_by_key tt_name nm (db_field_type_lookups db) of
        None \<Rightarrow> None
      | Some i \<Rightarrow> find (\<lambda>v. ft_name v = value_name) (tt_values (db_field_type_lookups db ! i)))"

text \<open>The variant of a frame: the generated dispatch, else the catch-all for its PGN.\<close>

definition pick_variant :: "'f pgn_database \<Rightarrow> u32 \<Rightarrow> u8 list \<Rightarrow> 'f pgn_info option" where
  "pick_variant db pgn data =
     (case (case db_dispatch db pgn data of Some i \<Rightarrow> Some i | None \<Rightarrow> db_catchall db pgn) of
        None \<Rightarrow> None
      | Some idx \<Rightarrow> Some (db_pgns db ! idx))"

subsection \<open>The search finds what a scan finds\<close>

text \<open>The loop ends inside its window, and on the position of the target if there is one.\<close>

lemma binary_search_loop_bound:
  "0 < sz \<Longrightarrow> base \<le> binary_search_loop probe base sz \<and> binary_search_loop probe base sz < base + sz"
proof (induction sz arbitrary: base rule: less_induct)
  case (less sz)
  show ?case
  proof (cases "sz \<le> 1")
    case True
    then show ?thesis using less.prems by (simp add: binary_search_loop.simps)
  next
    case False
    let ?half = "sz div 2"
    let ?b = "if probe (base + ?half) = Greater then base else base + ?half"
    have "sz - ?half < sz" "0 < sz - ?half" using False by auto
    from less.IH [OF this, of ?b] show ?thesis
      using False by (subst (1 2) binary_search_loop.simps) (auto simp: Let_def split: if_splits)
  qed
qed

text \<open>
  The contract of \<open>binary\_search\_by\<close>: when the probe does not decrease along the slice, the search finds an element that
  compares equal if there is one.
\<close>

lemma binary_search_loop_hit:
  assumes mono: "\<And>i j. i \<le> j \<Longrightarrow> j < n \<Longrightarrow> probe i \<le> probe j"
  shows "base \<le> k \<Longrightarrow> k < base + sz \<Longrightarrow> base + sz \<le> n \<Longrightarrow> probe k = Equal \<Longrightarrow>
    probe (binary_search_loop probe base sz) = Equal"
proof (induction sz arbitrary: base k rule: less_induct)
  case (less sz)
  show ?case
  proof (cases "sz \<le> 1")
    case True
    then have "k = base" using less.prems by simp
    then show ?thesis using True less.prems(4) by (simp add: binary_search_loop.simps)
  next
    case False
    let ?half = "sz div 2" and ?mid = "base + sz div 2"
    have half: "sz - ?half < sz" "?half \<le> sz - ?half" "?mid < n" using False less.prems(3) by auto
    show ?thesis
    proof (cases "probe ?mid = Greater")
      case True
      then have "k < ?mid" using mono [of ?mid k] less.prems by (fastforce simp: not_less less_eq_ordering_def)
      then have "probe (binary_search_loop probe base (sz - ?half)) = Equal"
        using less.prems half by (intro less.IH [of _ _ k]) auto
      then show ?thesis using False True by (subst binary_search_loop.simps) (simp add: Let_def)
    next
      case other: False
      have "probe (max k ?mid) = Equal"
      proof (cases "k < ?mid")
        case True
        then have "probe k \<le> probe ?mid" using mono half(3) by simp
        then show ?thesis using True other less.prems(4) by (cases "probe ?mid") (simp_all add: less_eq_ordering_def)
      qed (use less.prems(4) in \<open>simp add: max_def\<close>)
      then have "probe (binary_search_loop probe ?mid (sz - ?half)) = Equal"
        using less.prems half by (intro less.IH [of _ _ "max k ?mid"]) auto
      then show ?thesis using False other by (subst binary_search_loop.simps) (simp add: Let_def)
    qed
  qed
qed

lemma binary_search_by_hit:
  assumes "\<And>i j. i \<le> j \<Longrightarrow> j < n \<Longrightarrow> probe i \<le> probe j" "k < n" "probe k = Equal"
  obtains i where "binary_search_by probe n = Some i" "i < n" "probe i = Equal"
  using binary_search_loop_hit [of n probe 0 k n] binary_search_loop_bound [of n 0 probe] assms
  by (auto simp: binary_search_by_def)

lemma binary_search_by_miss:
  "(\<And>j. j < n \<Longrightarrow> probe j \<noteq> Equal) \<Longrightarrow> binary_search_by probe n = None"
  using binary_search_loop_bound [of n 0 probe] by (auto simp: binary_search_by_def Let_def)

lemma compare_to_simps [simp]:
  "compare_to x y = Equal \<longleftrightarrow> x = y" "compare_to x y = Less \<longleftrightarrow> x < y" "compare_to x y = Greater \<longleftrightarrow> y < x"
  by (auto simp: compare_to_def)

lemma compare_to_mono: "x \<le> y \<Longrightarrow> compare_to x k \<le> compare_to y k"
  by (auto simp: compare_to_def less_eq_ordering_def)

text \<open>On keys in strictly ascending order, the search is the scan for the key.\<close>

lemma binary_search_by_key_sorted:
  assumes "sorted_wrt (<) (map key xs)"
  shows "binary_search_by_key key k xs = position (\<lambda>x. key x = k) xs"
proof (cases "position (\<lambda>x. key x = k) xs")
  case None
  then have "\<And>j. j < length xs \<Longrightarrow> key (xs ! j) \<noteq> k" by (simp add: position_None_iff)
  then show ?thesis unfolding binary_search_by_key_def None by (intro binary_search_by_miss) simp
next
  case (Some i)
  then have i: "i < length xs" "key (xs ! i) = k" using position_SomeD [OF Some] by auto
  have lt: "key (xs ! a) < key (xs ! b)" if "a < b" "b < length xs" for a b
    using sorted_wrt_nth_less [OF assms, of a b] that by simp
  have mono: "compare_to (key (xs ! a)) k \<le> compare_to (key (xs ! b)) k" if "a \<le> b" "b < length xs" for a b
    using lt [of a b] that by (intro compare_to_mono) (cases "a = b", auto)
  obtain r where r: "binary_search_by_key key k xs = Some r" "r < length xs" "key (xs ! r) = k"
    by (rule binary_search_by_hit [of "length xs" "\<lambda>i. compare_to (key (xs ! i)) k", OF mono i(1)])
      (use i(2) in \<open>simp_all add: binary_search_by_key_def\<close>)
  then have "r = i" using lt [of r i] lt [of i r] i by (cases r i rule: linorder_cases) auto
  then show ?thesis using r(1) Some by simp
qed

text \<open>
  A sorted index slice: its keys ascend strictly, and it lists every entry of the table under its key, once.
\<close>

definition index_of :: "('v \<Rightarrow> 'k::linorder) \<Rightarrow> 'v list \<Rightarrow> ('k \<times> nat) list \<Rightarrow> bool" where
  "index_of key values ix \<longleftrightarrow>
     sorted_wrt (<) (map fst ix) \<and>
     list_all (\<lambda>(k, i). i < length values \<and> key (values ! i) = k) ix \<and>
     list_all (\<lambda>v. list_ex (\<lambda>(k, i). values ! i = v) ix) values"

lemma index_lookup:
  assumes "index_of key values ix"
  shows "map_option (\<lambda>i. values ! snd (ix ! i)) (binary_search_by_key fst k ix) = find (\<lambda>v. key v = k) values"
proof -
  have sorted: "sorted_wrt (<) (map fst ix)"
    and ok: "\<And>j. j < length ix \<Longrightarrow> snd (ix ! j) < length values \<and> key (values ! snd (ix ! j)) = fst (ix ! j)"
    and all: "\<And>v. v \<in> set values \<Longrightarrow> \<exists>j < length ix. values ! snd (ix ! j) = v"
    using assms unfolding index_of_def list_all_length list_ex_length
    by (simp, fastforce simp: case_prod_beta, fastforce simp: case_prod_beta in_set_conv_nth)
  have inj: "i = j" if "i < length ix" "j < length ix" "fst (ix ! i) = fst (ix ! j)" for i j
    using sorted_wrt_nth_less [OF sorted, of i j] sorted_wrt_nth_less [OF sorted, of j i] that
    by (cases i j rule: linorder_cases) auto
  show ?thesis
  proof (cases "find (\<lambda>v. key v = k) values")
    case None
    then have "\<And>v. v \<in> set values \<Longrightarrow> key v \<noteq> k" by (simp add: find_None_iff)
    then have "position (\<lambda>x. fst x = k) ix = None"
      using ok unfolding position_None_iff by (metis in_set_conv_nth nth_mem)
    then show ?thesis using None by (simp add: binary_search_by_key_sorted [OF sorted])
  next
    case (Some v)
    then have v: "v \<in> set values" "key v = k" by (auto simp: find_Some_iff)
    then obtain j where j: "j < length ix" "values ! snd (ix ! j) = v" using all by blast
    then have k: "fst (ix ! j) = k" using ok [OF j(1)] v by simp
    then obtain i where i: "position (\<lambda>x. fst x = k) ix = Some i"
      using j(1) by (cases "position (\<lambda>x. fst x = k) ix") (auto simp: position_None_iff)
    then have "i = j" using position_SomeD [OF i] j(1) k inj by auto
    then show ?thesis using i j Some by (simp add: binary_search_by_key_sorted [OF sorted])
  qed
qed

text \<open>The pairs of an indirect table are searched as the scan for both values.\<close>

lemma compare_pair_lex: "compare_pair x y = compare_to x y"
  by (cases x; cases y) (auto simp: compare_pair_def compare_to_def)

lemma indirect_lookup_get_scan:
  assumes "index_of (\<lambda>v. (il_value1 v, il_value2 v)) (it_values t) (it_by_pair t)"
  shows "indirect_lookup_get t v1 v2 = find (\<lambda>v. (il_value1 v, il_value2 v) = (v1, v2)) (it_values t)"
  using index_lookup [OF assms, of "(v1, v2)"] by (simp add: indirect_lookup_get_def compare_pair_lex binary_search_by_key_def)

lemma lookup_get_scan:
  "index_of lv_value (lt_values t) (lt_by_value t) \<Longrightarrow> lookup_get t v = find (\<lambda>l. lv_value l = v) (lt_values t)"
  unfolding lookup_get_def by (rule index_lookup)

end
