(* ===== verification/Field_Values.thy ===== *)
theory Field_Values
  imports Schema Bit_Fields Text_Codec Raw_Frame
begin

section \<open>Decoded values (canboat-core/src/decode.rs)\<close>

text \<open>
  \<open>FieldValue\<close>, \<open>DecodedField\<close> and \<open>DecodedPgn\<close> with their accessors, and the decoders of the single field types, each a
  function of the payload, the bit offset and the declared length.  Offsets and lengths are \<open>u32\<close>, additions wrap.
\<close>

record 'f field_overrides =
  ov_unit :: "string option"
  ov_resolution :: "'f option"
  ov_precision :: u8

datatype 'f field_value =
    FvNumber 'f
  | FvInteger i64
  | FvFloat 'f
  | FvBinary "u8 list"
  | FvLookup u64 "string option"
  | FvBitField u64 "(u64 \<times> string) list"
  | FvString chars
  | FvDate u16
  | FvTime i64 'f
  | FvMmsi u32
  | FvPgn u32 "string option"
  | FvIsoName u64 "'f decoded_field list"
  | FvReserved u64 "u8 list" u32
  | FvSpare u64 "u8 list" u32
  | FvNotAvailable
  | FvOutOfRange u64
  | FvReservedValue u64
  | FvUnsupported string
and 'f decoded_field =
    DecodedField (df_info: "'f field_info") (df_value: "'f field_value") (df_bit_offset: "u32 option")
      (df_bit_length: "u32 option") (df_repeat_index: "u32 option") (df_repeat_set: u8)
      (df_overrides: "'f field_overrides option")

definition df_order :: "'f decoded_field \<Rightarrow> u8" where "df_order d = fi_order (df_info d)"
definition df_id :: "'f decoded_field \<Rightarrow> string" where "df_id d = fi_id (df_info d)"
definition df_name :: "'f decoded_field \<Rightarrow> string" where "df_name d = fi_name (df_info d)"

definition df_unit :: "'f decoded_field \<Rightarrow> string option" where
  "df_unit d =
     (case df_overrides d of
        Some ov \<Rightarrow> if ov_unit ov \<noteq> None then ov_unit ov else fi_unit (df_info d)
      | None \<Rightarrow> fi_unit (df_info d))"

definition df_resolution :: "'f decoded_field \<Rightarrow> 'f option" where
  "df_resolution d =
     (case df_overrides d of
        Some ov \<Rightarrow> if ov_resolution ov \<noteq> None then ov_resolution ov else fi_resolution (df_info d)
      | None \<Rightarrow> fi_resolution (df_info d))"

definition df_precision :: "'f decoded_field \<Rightarrow> u8" where
  "df_precision d =
     (case df_overrides d of
        Some ov \<Rightarrow> if ov_precision ov > 0 then ov_precision ov else fi_precision (df_info d)
      | None \<Rightarrow> fi_precision (df_info d))"

definition df_part_of_primary_key :: "'f decoded_field \<Rightarrow> bool" where
  "df_part_of_primary_key d = (fi_part_of_primary_key (df_info d) = Some True)"

definition fv_as_f64 :: "'f float_ops \<Rightarrow> 'f field_value \<Rightarrow> 'f option" where
  "fv_as_f64 fo v =
     (case v of
        FvNumber x \<Rightarrow> Some x | FvFloat x \<Rightarrow> Some x | FvInteger n \<Rightarrow> Some (fo_of_i64 fo n)
      | FvTime raw seconds \<Rightarrow> Some seconds | FvDate d \<Rightarrow> Some (fo_of_i64 fo (ucast d))
      | FvMmsi m \<Rightarrow> Some (fo_of_i64 fo (ucast m)) | _ \<Rightarrow> None)"

definition fv_as_i64 :: "'f float_ops \<Rightarrow> 'f field_value \<Rightarrow> i64 option" where
  "fv_as_i64 fo v =
     (case v of
        FvInteger n \<Rightarrow> Some n | FvNumber x \<Rightarrow> Some (fo_to_i64 fo x) | FvLookup n _ \<Rightarrow> Some n
      | FvBitField n _ \<Rightarrow> Some n | FvTime raw _ \<Rightarrow> Some raw | FvDate d \<Rightarrow> Some (ucast d)
      | FvMmsi m \<Rightarrow> Some (ucast m) | FvPgn p _ \<Rightarrow> Some (ucast p) | _ \<Rightarrow> None)"

text \<open>The affine conversions between the units of the two schemas (units.rs).\<close>

definition RAD_TO_DEG :: "'f float_ops \<Rightarrow> 'f" where
  "RAD_TO_DEG fo = fo_div fo (fo_lit fo ''180.0'') (fo_lit fo ''std::f64::consts::PI'')"

definition convert_unit :: "'f float_ops \<Rightarrow> 'f \<Rightarrow> string \<Rightarrow> string \<Rightarrow> 'f option" where
  "convert_unit fo v src dst =
     (if src = dst then Some v
      else if (src, dst) = (''rad'', ''deg'') then Some (fo_mul fo v (RAD_TO_DEG fo))
      else if (src, dst) = (''deg'', ''rad'') then Some (fo_div fo v (RAD_TO_DEG fo))
      else if (src, dst) = (''rad/s'', ''deg/s'') then Some (fo_mul fo v (RAD_TO_DEG fo))
      else if (src, dst) = (''deg/s'', ''rad/s'') then Some (fo_div fo v (RAD_TO_DEG fo))
      else if (src, dst) = (''K'', ''C'') then Some (fo_sub fo v (fo_lit fo ''273.15''))
      else if (src, dst) = (''C'', ''K'') then Some (fo_add fo v (fo_lit fo ''273.15''))
      else if (src, dst) = (''Pa'', ''bar'') then Some (fo_div fo v (fo_lit fo ''100_000.0''))
      else if (src, dst) = (''bar'', ''Pa'') then Some (fo_mul fo v (fo_lit fo ''100_000.0''))
      else if (src, dst) = (''C'', ''Ah'') then Some (fo_div fo v (fo_lit fo ''3600.0''))
      else if (src, dst) = (''Ah'', ''C'') then Some (fo_mul fo v (fo_lit fo ''3600.0''))
      else None)"

definition df_as_f64_in :: "'f float_ops \<Rightarrow> 'f decoded_field \<Rightarrow> string \<Rightarrow> 'f option" where
  "df_as_f64_in fo d target =
     (case fv_as_f64 fo (df_value d) of
        None \<Rightarrow> None
      | Some v \<Rightarrow> (case df_unit d of Some src \<Rightarrow> convert_unit fo v src target | None \<Rightarrow> Some v))"

definition fv_lookup_value :: "'f field_value \<Rightarrow> u64 option" where
  "fv_lookup_value v = (case v of FvLookup n _ \<Rightarrow> Some n | FvBitField n _ \<Rightarrow> Some n | _ \<Rightarrow> None)"

definition fv_is_not_available :: "'f field_value \<Rightarrow> bool" where
  "fv_is_not_available v = (case v of FvNotAvailable \<Rightarrow> True | _ \<Rightarrow> False)"

definition fv_is_sentinel :: "'f field_value \<Rightarrow> bool" where
  "fv_is_sentinel v =
     (case v of FvNotAvailable \<Rightarrow> True | FvOutOfRange _ \<Rightarrow> True | FvReservedValue _ \<Rightarrow> True | _ \<Rightarrow> False)"

record 'f decoded_pgn =
  dp_timestamp :: "string option"
  dp_prio :: u8
  dp_pgn :: u32
  dp_src :: u8
  dp_dst :: u8
  dp_description :: string
  dp_id :: string
  dp_id_is_pinned :: bool
  dp_data :: "u8 list"
  dp_fields :: "'f decoded_field list"
  dp_has_repeating_set :: "bool \<times> bool"
  dp_index_by_order :: "int list"

subsection \<open>Field types of a fixed length\<close>

definition sentinel_field_value :: "'f field_info \<Rightarrow> extracted \<Rightarrow> 'f field_value option" where
  "sentinel_field_value f ex =
     (case classify_sentinel ex (fi_unknown_value f) (fi_out_of_range_value f) (fi_reserved_value f) of
        SUnknown \<Rightarrow> Some FvNotAvailable
      | SOutOfRange \<Rightarrow> Some (FvOutOfRange (ex_raw ex))
      | SReserved \<Rightarrow> Some (FvReservedValue (ex_raw ex))
      | SNone \<Rightarrow> None)"

definition extract_at :: "u8 list \<Rightarrow> u32 \<Rightarrow> u32 \<Rightarrow> bool \<Rightarrow> extracted option" where
  "extract_at data bit_offset bit_length sgnd = extract_bits data (unat bit_offset) (unat bit_length) sgnd 0"

definition or_default :: "'a \<Rightarrow> 'a option \<Rightarrow> 'a" where
  "or_default d x = (case x of None \<Rightarrow> d | Some a \<Rightarrow> a)"

text \<open>The value of a number from its bits: a sentinel, a plain integer, or scaled.\<close>

definition number_value :: "'f float_ops \<Rightarrow> 'f field_info \<Rightarrow> extracted \<Rightarrow> 'f field_value" where
  "number_value fo f ex =
     (let display_offset = (case fi_offset f of Some k \<Rightarrow> fo_of_i64 fo k | None \<Rightarrow> fo_zero fo) in
      case sentinel_field_value f ex of
        Some sent \<Rightarrow> sent
      | None \<Rightarrow>
          (let resolution = or_default (fo_one fo) (fi_resolution f) in
           if fo_eq fo resolution (fo_one fo) \<and> fi_unit f = None \<and> fi_physical_quantity f = None
              \<and> fo_eq fo (fi_unit_offset f) (fo_zero fo) \<and> fo_eq fo display_offset (fo_zero fo)
           then FvInteger (ex_value ex)
           else FvNumber (fo_add fo (fo_add fo (fo_mul fo (fo_of_i64 fo (ex_value ex)) resolution) display_offset)
                  (fi_unit_offset f))))"

text \<open>A non-zero offset makes the extraction unsigned.\<close>

definition number_signed :: "'f field_info \<Rightarrow> bool \<Rightarrow> bool" where
  "number_signed f sgnd = (if or_default 0 (fi_offset f) \<noteq> 0 then False else sgnd)"

definition decode_number ::
  "'f float_ops \<Rightarrow> 'f field_info \<Rightarrow> u8 list \<Rightarrow> u32 \<Rightarrow> u32 \<Rightarrow> bool \<Rightarrow> 'f field_value" where
  "decode_number fo f data bit_offset bit_length sgnd =
     (case extract_at data bit_offset bit_length (number_signed f sgnd) of
        None \<Rightarrow> FvNotAvailable
      | Some ex \<Rightarrow> number_value fo f ex)"

definition decode_float :: "'f float_ops \<Rightarrow> u8 list \<Rightarrow> u32 \<Rightarrow> u32 \<Rightarrow> 'f field_value" where
  "decode_float fo data bit_offset bit_length =
     (if bit_length \<noteq> 32 then FvUnsupported ''FLOAT (non-32-bit)''
      else case extract_at data bit_offset 32 False of
        None \<Rightarrow> FvNotAvailable
      | Some ex \<Rightarrow> FvFloat (fo_of_f32 fo (ucast (ex_value ex))))"

definition named_or_sentinel :: "'f field_info \<Rightarrow> extracted \<Rightarrow> string option \<Rightarrow> 'f field_value" where
  "named_or_sentinel f ex nm =
     (if nm \<noteq> None then FvLookup (ex_raw ex) nm
      else case sentinel_field_value f ex of
        Some sent \<Rightarrow> sent
      | None \<Rightarrow> FvLookup (ex_raw ex) None)"

definition lookup_name :: "'f pgn_database \<Rightarrow> string option \<Rightarrow> u64 \<Rightarrow> string option" where
  "lookup_name db table raw =
     (case table of
        None \<Rightarrow> None
      | Some n \<Rightarrow> (case db_lookup db n of
            None \<Rightarrow> None
          | Some t \<Rightarrow> map_option lv_name (lookup_get t raw)))"

definition decode_lookup ::
  "'f field_info \<Rightarrow> u8 list \<Rightarrow> u32 \<Rightarrow> u32 \<Rightarrow> 'f pgn_database \<Rightarrow> 'f field_value" where
  "decode_lookup f data bit_offset bit_length db =
     (case extract_at data bit_offset bit_length False of
        None \<Rightarrow> FvNotAvailable
      | Some ex \<Rightarrow> named_or_sentinel f ex (lookup_name db (fi_lookup_enumeration f) (ex_raw ex)))"

definition indirect_name ::
  "'f field_info \<Rightarrow> 'f pgn_info \<Rightarrow> u8 list \<Rightarrow> 'f pgn_database \<Rightarrow> u64 \<Rightarrow> string option" where
  "indirect_name f info data db raw =
     Option.bind (fi_lookup_indirect_enumeration f) (\<lambda>table_name.
     Option.bind (fi_lookup_indirect_field_order f) (\<lambda>val1_order.
     Option.bind (find (\<lambda>x. fi_order x = val1_order) (pg_fields info)) (\<lambda>val1_field.
     Option.bind (fi_bit_offset val1_field) (\<lambda>val1_off.
     Option.bind (fi_bit_length val1_field) (\<lambda>val1_len.
     Option.bind (extract_at data val1_off val1_len False) (\<lambda>val1.
     db_indirect_lookup db table_name (ex_raw val1) raw))))))"

definition decode_indirect_lookup ::
  "'f field_info \<Rightarrow> 'f pgn_info \<Rightarrow> u8 list \<Rightarrow> u32 \<Rightarrow> u32 \<Rightarrow> 'f pgn_database \<Rightarrow> 'f field_value" where
  "decode_indirect_lookup f info data bit_offset bit_length db =
     (case extract_at data bit_offset bit_length False of
        None \<Rightarrow> FvNotAvailable
      | Some ex \<Rightarrow> named_or_sentinel f ex (indirect_name f info data db (ex_raw ex)))"

definition decode_bitlookup ::
  "'f field_info \<Rightarrow> u8 list \<Rightarrow> u32 \<Rightarrow> u32 \<Rightarrow> 'f pgn_database \<Rightarrow> 'f field_value" where
  "decode_bitlookup f data bit_offset bit_length db =
     (case extract_at data bit_offset bit_length False of
        None \<Rightarrow> FvNotAvailable
      | Some ex \<Rightarrow>
          (let raw = ex_value ex;
               table = Option.bind (fi_lookup_bit_enumeration f) (db_bit_lookup db);
               bits = (case table of
                   None \<Rightarrow> []
                 | Some t \<Rightarrow> map (\<lambda>v. (push_bit (unat (bl_bit v)) 1, bl_name v))
                     (filter (\<lambda>v. raw AND push_bit (unat (bl_bit v)) 1 \<noteq> 0) (bt_values t)))
           in FvBitField raw bits))"

text \<open>A reserved field of all ones keeps no bytes.\<close>

definition reserved_value :: "extracted \<Rightarrow> u32 \<Rightarrow> bool \<Rightarrow> 'f field_value" where
  "reserved_value ex bit_length is_reserved =
     (let raw = ex_value ex in
      if is_reserved \<and> ex_value ex = ex_max ex then FvReserved raw [] bit_length
      else let n_bytes = max ((unat bit_length + 7) div 8) 1;
               bytes = map (\<lambda>i. ucast (drop_bit (i * 8) raw)) [0..<n_bytes]
           in if is_reserved then FvReserved raw bytes bit_length else FvSpare raw bytes bit_length)"

definition decode_reserved ::
  "u8 list \<Rightarrow> u32 \<Rightarrow> u32 \<Rightarrow> bool \<Rightarrow> i64 \<Rightarrow> bool \<Rightarrow> 'f field_value" where
  "decode_reserved data bit_offset bit_length sgnd offset_k is_reserved =
     (case extract_bits data (unat bit_offset) (unat bit_length) sgnd offset_k of
        None \<Rightarrow> FvNotAvailable
      | Some ex \<Rightarrow> reserved_value ex bit_length is_reserved)"

text \<open>The chunks of a binary field that is not byte aligned; \<open>None\<close> when the payload ends.\<close>

function binary_loop :: "u8 list \<Rightarrow> nat \<Rightarrow> nat \<Rightarrow> u8 list option" where
  "binary_loop data bo remaining =
     (if remaining = 0 then Some []
      else let chunk = min remaining 8 in
        case extract_bits data bo chunk False 0 of
          None \<Rightarrow> None
        | Some ex \<Rightarrow> map_option (\<lambda>rest. ucast (ex_value ex) # rest) (binary_loop data (bo + chunk) (remaining - chunk)))"
  by pat_completeness auto
termination binary_loop
  by (relation "measure (\<lambda>(_, _, remaining). remaining)") auto

declare binary_loop.simps [simp del]

definition decode_binary :: "u8 list \<Rightarrow> u32 \<Rightarrow> u32 \<Rightarrow> 'f field_value" where
  "decode_binary data bit_offset bit_length =
     (let bo = unat bit_offset; bl = unat bit_length in
      if bo mod 8 = 0 \<and> bl mod 8 = 0 then
        (let start = bo div 8 in
         if start \<ge> length data then FvNotAvailable
         else let end = min (start + bl div 8) (length data) in FvBinary (drop start (take end data)))
      else case binary_loop data bo bl of
        None \<Rightarrow> FvNotAvailable
      | Some bytes \<Rightarrow> FvBinary bytes)"

definition decode_mmsi :: "u8 list \<Rightarrow> u32 \<Rightarrow> u32 \<Rightarrow> 'f field_value" where
  "decode_mmsi data bit_offset bit_length =
     (if bit_length \<noteq> 32 then FvUnsupported ''MMSI (non-32-bit)''
      else case extract_at data bit_offset 32 False of
        None \<Rightarrow> FvNotAvailable
      | Some ex \<Rightarrow> FvMmsi (ucast (ex_value ex)))"

definition decode_pgn_field :: "u8 list \<Rightarrow> u32 \<Rightarrow> u32 \<Rightarrow> 'f pgn_database \<Rightarrow> 'f field_value" where
  "decode_pgn_field data bit_offset bit_length db =
     (if bit_length \<noteq> 24 then FvUnsupported ''PGN (non-24-bit)''
      else case extract_at data bit_offset 24 False of
        None \<Rightarrow> FvNotAvailable
      | Some ex \<Rightarrow>
          (let raw = (ucast (ex_value ex) :: u32);
               pf = drop_bit 8 raw AND 0xff;
               pgn = (if pf < 240 then raw AND 0x00ffff00 else raw AND 0x00ffffff);
               variants = pgn_variants db pgn;
               description = (case variants of
                   [v] \<Rightarrow> if \<not> list_ex (\<lambda>f. fi_match_value f \<noteq> None) (pg_fields v) then Some (pg_description v) else None
                 | _ \<Rightarrow> None)
           in FvPgn pgn description))"

definition date_value :: "'f field_info \<Rightarrow> extracted \<Rightarrow> 'f field_value" where
  "date_value f ex = (case sentinel_field_value f ex of Some sent \<Rightarrow> sent | None \<Rightarrow> FvDate (ucast (ex_value ex)))"

definition decode_date :: "'f field_info \<Rightarrow> u8 list \<Rightarrow> u32 \<Rightarrow> u32 \<Rightarrow> 'f field_value" where
  "decode_date f data bit_offset bit_length =
     (if bit_length \<noteq> 16 then FvUnsupported ''DATE (non-16-bit)''
      else case extract_at data bit_offset 16 False of
        None \<Rightarrow> FvNotAvailable
      | Some ex \<Rightarrow> date_value f ex)"

definition time_value :: "'f float_ops \<Rightarrow> 'f field_info \<Rightarrow> extracted \<Rightarrow> 'f field_value" where
  "time_value fo f ex =
     (case sentinel_field_value f ex of
        Some sent \<Rightarrow> sent
      | None \<Rightarrow>
          (let resolution = or_default (fo_one fo) (fi_resolution f)
           in FvTime (ex_value ex) (fo_mul fo (fo_of_i64 fo (ex_value ex)) resolution)))"

definition decode_time ::
  "'f float_ops \<Rightarrow> 'f field_info \<Rightarrow> u8 list \<Rightarrow> u32 \<Rightarrow> u32 \<Rightarrow> bool \<Rightarrow> 'f field_value" where
  "decode_time fo f data bit_offset bit_length sgnd =
     (case extract_bits data (unat bit_offset) (unat bit_length) sgnd (or_default 0 (fi_offset f)) of
        None \<Rightarrow> FvNotAvailable
      | Some ex \<Rightarrow> time_value fo f ex)"

subsection \<open>Strings\<close>

text \<open>The trailing bytes that pad a string.\<close>

definition pad_byte :: "u8 \<Rightarrow> bool" where
  "pad_byte b \<longleftrightarrow> b = 0 \<or> b = 64 \<or> b = 32 \<or> b = 0xff"

definition trim_pad_bytes :: "u8 list \<Rightarrow> u8 list" where
  "trim_pad_bytes bs = rev (dropWhile pad_byte (rev bs))"

definition decode_string_fix :: "u8 list \<Rightarrow> u32 \<Rightarrow> u32 \<Rightarrow> 'f field_value" where
  "decode_string_fix data bit_offset bit_length =
     (let bo = unat bit_offset; bl = unat bit_length in
      if bo mod 8 \<noteq> 0 \<or> bl mod 8 \<noteq> 0 then FvUnsupported ''STRING_FIX (unaligned)''
      else let start = bo div 8; end = start + bl div 8 in
        if end > length data then FvNotAvailable
        else let raw = drop start (take end data);
                 raw = trim_pad_bytes (takeWhile (\<lambda>b. b \<noteq> 0) raw)
             in if raw = [] then FvNotAvailable else FvString (from_utf8_lossy raw))"

fun code_units :: "u8 list \<Rightarrow> u16 list" where
  "code_units (a # b # bs) = from_le [a, b] # code_units bs"
| "code_units _ = []"

definition decode_string_lau :: "u8 list \<Rightarrow> u32 \<Rightarrow> 'f field_value \<times> u32" where
  "decode_string_lau data bit_offset =
     (let bo = unat bit_offset in
      if bo mod 8 \<noteq> 0 then (FvUnsupported ''STRING_LAU (unaligned)'', 8)
      else let start = bo div 8 in
        if start + 2 > length data then (FvNotAvailable, 16)
        else let total_len = unat (data ! start); encoding = data ! (start + 1) in
          if total_len < 2 then (FvNotAvailable, word_of_nat (max total_len 2 * 8))
          else let body_len = total_len - 2;
                   body_end = min (start + 2 + body_len) (length data);
                   body = drop (start + 2) (take body_end data);
                   bits_consumed = word_of_nat (total_len * 8);
                   s = (if encoding = 0 then from_utf16_lossy (code_units body)
                        else from_utf8_lossy (trim_pad_bytes body));
                   trimmed = trim_string_padding s
               in if trimmed = [] then (FvNotAvailable, bits_consumed) else (FvString trimmed, bits_consumed))"

definition decode_string_lz :: "u8 list \<Rightarrow> u32 \<Rightarrow> u32 \<Rightarrow> 'f field_value" where
  "decode_string_lz data bit_offset bit_length =
     (let bo = unat bit_offset; bl = unat bit_length in
      if bo mod 8 \<noteq> 0 then FvUnsupported ''STRING_LZ (unaligned)''
      else let start = bo div 8 in
        if start \<ge> length data then FvNotAvailable
        else let region_end = (if bl = 0 then length data else min (start + bl div 8) (length data));
                 len_byte = unat (data ! start);
                 content_start = start + 1;
                 max_avail = region_end - content_start;
                 content_end = content_start + min len_byte max_avail;
                 trimmed = trim_string_padding (from_utf8_lossy (drop content_start (take content_end data)))
             in if trimmed = [] then FvNotAvailable else FvString trimmed)"

end
