(* ===== verification/Decode.thy ===== *)
theory Decode
  imports Field_Values Ascii
begin

section \<open>The field walker (canboat-core/src/decode.rs)\<close>

text \<open>
  \<open>decode\_one\_field\_at\<close> with the context it threads through the fields, the repeating sets, and \<open>decode\<close>.

  An ISO NAME is decoded by running the decoder on its eight bytes as PGN 60928.  That recursion enters through the
  argument \<open>sub\<close>, the decoder of such eight bytes; \<open>decode\_name\<close> ties the knot to a given depth, and
  depth 1 is enough for a database whose PGN 60928 holds no NAME itself.  The walk over the fields does not return when a repeating
  set of size 0 starts (the index does not move) and panics when a set runs past the fields: both are \<open>None\<close>.
\<close>

record 'f decode_context =
  dc_target_pgn :: "u32 option"
  dc_current_param_idx :: "u32 option"
  dc_dynamic_field_type :: "'f field_type_value option"
  dc_dynamic_length_bytes :: "u32 option"

definition decode_context_default :: "'f decode_context" where
  "decode_context_default =
     \<lparr>dc_target_pgn = None, dc_current_param_idx = None, dc_dynamic_field_type = None, dc_dynamic_length_bytes = None\<rparr>"

definition plain_field :: "'f field_info \<Rightarrow> 'f field_value \<Rightarrow> u32 \<Rightarrow> u32 \<Rightarrow> 'f field_overrides option \<Rightarrow> 'f decoded_field" where
  "plain_field f v bit_offset bit_length ov = DecodedField f v (Some bit_offset) (Some bit_length) None 0 ov"

subsection \<open>Names and dynamic fields\<close>

definition decode_iso_name ::
  "(u8 list \<Rightarrow> 'f decoded_field list) \<Rightarrow> u8 list \<Rightarrow> u32 \<Rightarrow> u32 \<Rightarrow> 'f field_value" where
  "decode_iso_name sub data bit_offset bit_length =
     (if bit_length \<noteq> 64 \<or> bit_offset AND 7 \<noteq> 0 then FvUnsupported ''ISO_NAME (unaligned or non-64-bit)''
      else let byte_off = unat (bit_offset div 8) in
        if byte_off + 8 > length data then FvNotAvailable
        else let s = take 8 (drop byte_off data) in FvIsoName (from_le s) (sub s))"

definition decode_dynamic_field_key ::
  "'f field_info \<Rightarrow> u8 list \<Rightarrow> 'f pgn_database \<Rightarrow> u32 \<Rightarrow> u32 \<Rightarrow> 'f decode_context \<Rightarrow>
   'f field_value \<times> 'f decode_context" where
  "decode_dynamic_field_key f data db bit_offset bit_length ctx =
     (case extract_at data bit_offset bit_length False of
        None \<Rightarrow> (FvNotAvailable, ctx)
      | Some ex \<Rightarrow>
          (let entry = Option.bind (fi_lookup_field_type_enumeration f) (\<lambda>n. db_field_type_lookup db n (ex_raw ex))
           in (named_or_sentinel f ex (map_option ft_name entry), ctx\<lparr>dc_dynamic_field_type := entry\<rparr>)))"

definition decode_dynamic_field_length ::
  "'f field_info \<Rightarrow> u8 list \<Rightarrow> u32 \<Rightarrow> u32 \<Rightarrow> 'f decode_context \<Rightarrow> 'f field_value \<times> 'f decode_context" where
  "decode_dynamic_field_length f data bit_offset bit_length ctx =
     (case extract_at data bit_offset bit_length False of
        None \<Rightarrow> (FvNotAvailable, ctx)
      | Some ex \<Rightarrow>
          (case sentinel_field_value f ex of
             Some sent \<Rightarrow> (sent, ctx)
           | None \<Rightarrow> (FvInteger (ex_value ex), ctx\<lparr>dc_dynamic_length_bytes := Some (ucast (ex_raw ex))\<rparr>)))"

definition decode_dynamic_number ::
  "'f float_ops \<Rightarrow> u8 list \<Rightarrow> u32 \<Rightarrow> u32 \<Rightarrow> bool \<Rightarrow> 'f field_type_value \<Rightarrow> 'f field_value" where
  "decode_dynamic_number fo data bit_offset bit_length sgnd entry =
     (case extract_at data bit_offset bit_length sgnd of
        None \<Rightarrow> FvNotAvailable
      | Some ex \<Rightarrow>
          if is_unavailable ex then FvNotAvailable
          else let raw = fo_of_i64 fo (ex_value ex); res = or_default (fo_one fo) (ft_resolution entry) in
            if fo_eq fo res (fo_one fo) \<and> ft_unit entry = None then FvInteger (ex_value ex)
            else FvNumber (fo_mul fo raw res))"

definition dynamic_time ::
  "'f float_ops \<Rightarrow> u8 list \<Rightarrow> u32 \<Rightarrow> u32 \<Rightarrow> bool \<Rightarrow> 'f field_type_value \<Rightarrow> 'f field_value" where
  "dynamic_time fo data bit_offset bits sgnd entry =
     (let known_signed_duration = (ft_name entry = ''Race Timer'' \<or> ft_name entry = ''Timezone offset'');
          want_signed = (sgnd \<or> known_signed_duration) in
      case extract_at data bit_offset bits False of
        None \<Rightarrow> FvNotAvailable
      | Some ex_unsigned \<Rightarrow>
          if is_unavailable ex_unsigned then FvNotAvailable
          else case (if want_signed then extract_at data bit_offset bits True else Some ex_unsigned) of
            None \<Rightarrow> FvNotAvailable
          | Some ex \<Rightarrow>
              (let res = or_default (fo_one fo) (ft_resolution entry)
               in FvTime (ex_value ex) (fo_mul fo (fo_of_i64 fo (ex_value ex)) res)))"

definition decode_dynamic_entry ::
  "'f float_ops \<Rightarrow> (u8 list \<Rightarrow> 'f decoded_field list) \<Rightarrow> u8 list \<Rightarrow> u32 \<Rightarrow> u32 \<Rightarrow> 'f pgn_database \<Rightarrow>
   'f field_type_value \<Rightarrow> 'f field_value" where
  "decode_dynamic_entry fo sub data bit_offset bits db entry =
     (case ft_field_type entry of
        None \<Rightarrow> decode_binary data bit_offset bits
      | Some ft \<Rightarrow>
          (let sgnd = (ft_signed entry \<or> starts_with ft ''FIX'') in
           if starts_with ft ''NUMBER'' \<or> starts_with ft ''FIX'' \<or> starts_with ft ''UFIX''
           then decode_dynamic_number fo data bit_offset bits sgnd entry
           else if ft = ''LOOKUP'' then
             (case ft_lookup_enumeration entry of
                None \<Rightarrow> decode_binary data bit_offset bits
              | Some nm \<Rightarrow>
                  (case extract_at data bit_offset bits False of
                     None \<Rightarrow> FvNotAvailable
                   | Some ex \<Rightarrow> FvLookup (ex_value ex) (lookup_name db (Some nm) (ex_value ex))))
           else if ft = ''DURATION'' \<or> ft = ''TIME'' then dynamic_time fo data bit_offset bits sgnd entry
           else if ft = ''DATE'' then
             (case extract_at data bit_offset bits False of
                None \<Rightarrow> FvNotAvailable
              | Some ex \<Rightarrow> if is_unavailable ex then FvNotAvailable else FvDate (ucast (ex_value ex)))
           else if ft = ''ISO_NAME'' then decode_iso_name sub data bit_offset bits
           else decode_binary data bit_offset bits))"

definition decode_dynamic_field_value ::
  "'f float_ops \<Rightarrow> (u8 list \<Rightarrow> 'f decoded_field list) \<Rightarrow> u8 list \<Rightarrow> u32 \<Rightarrow> 'f pgn_database \<Rightarrow>
   'f decode_context \<Rightarrow> ('f field_value \<times> u32) \<times> 'f decode_context" where
  "decode_dynamic_field_value fo sub data bit_offset db ctx =
     (let entry = dc_dynamic_field_type ctx;
          length_bits = (case dc_dynamic_length_bytes ctx of Some n \<Rightarrow> Some (n * 8) | None \<Rightarrow> Option.bind entry ft_bits);
          ctx = ctx\<lparr>dc_dynamic_field_type := None, dc_dynamic_length_bytes := None\<rparr>;
          bits = or_default 0 length_bits;
          val = (case entry of
              None \<Rightarrow> decode_binary data bit_offset bits
            | Some e \<Rightarrow> decode_dynamic_entry fo sub data bit_offset bits db e)
      in ((val, bits), ctx))"

subsection \<open>One field\<close>

definition decode_by_type ::
  "'f float_ops \<Rightarrow> (u8 list \<Rightarrow> 'f decoded_field list) \<Rightarrow> 'f field_info \<Rightarrow> 'f pgn_info \<Rightarrow> u8 list \<Rightarrow> 'f pgn_database \<Rightarrow>
   u32 \<Rightarrow> u32 \<Rightarrow> 'f decode_context \<Rightarrow> 'f field_value \<times> 'f decode_context" where
  "decode_by_type fo sub f info data db bit_offset bit_length ctx =
     (let sgnd = or_default False (fi_signed f); offset_k = or_default 0 (fi_offset f) in
      case fi_field_type f of
        None \<Rightarrow> (FvUnsupported ''<no field type>'', ctx)
      | Some FtNumber \<Rightarrow> (decode_number fo f data bit_offset bit_length sgnd, ctx)
      | Some FtDecimal \<Rightarrow> (decode_number fo f data bit_offset bit_length sgnd, ctx)
      | Some FtFloat \<Rightarrow> (decode_float fo data bit_offset bit_length, ctx)
      | Some FtLookup \<Rightarrow> (decode_lookup f data bit_offset bit_length db, ctx)
      | Some FtIndirectLookup \<Rightarrow> (decode_indirect_lookup f info data bit_offset bit_length db, ctx)
      | Some FtBitLookup \<Rightarrow> (decode_bitlookup f data bit_offset bit_length db, ctx)
      | Some FtReserved \<Rightarrow> (decode_reserved data bit_offset bit_length sgnd offset_k True, ctx)
      | Some FtSpare \<Rightarrow> (decode_reserved data bit_offset bit_length sgnd offset_k False, ctx)
      | Some FtBinary \<Rightarrow> (decode_binary data bit_offset bit_length, ctx)
      | Some FtMmsi \<Rightarrow> (decode_mmsi data bit_offset bit_length, ctx)
      | Some FtPgn \<Rightarrow> (decode_pgn_field data bit_offset bit_length db, ctx)
      | Some FtDate \<Rightarrow> (decode_date f data bit_offset bit_length, ctx)
      | Some FtTime \<Rightarrow> (decode_time fo f data bit_offset bit_length sgnd, ctx)
      | Some FtDuration \<Rightarrow> (decode_time fo f data bit_offset bit_length sgnd, ctx)
      | Some FtStringFix \<Rightarrow> (decode_string_fix data bit_offset bit_length, ctx)
      | Some FtStringLz \<Rightarrow> (decode_string_lz data bit_offset bit_length, ctx)
      | Some FtIsoName \<Rightarrow> (decode_iso_name sub data bit_offset bit_length, ctx)
      | Some FtDynamicFieldKey \<Rightarrow> decode_dynamic_field_key f data db bit_offset bit_length ctx
      | Some FtDynamicFieldLength \<Rightarrow> decode_dynamic_field_length f data bit_offset bit_length ctx
      | Some FtFieldIndex \<Rightarrow> (decode_number fo f data bit_offset bit_length sgnd, ctx)
      | Some _ \<Rightarrow> (FvUnsupported [], ctx))"

text \<open>A non-negative number as a count.\<close>

definition count_value :: "'f float_ops \<Rightarrow> 'f field_value \<Rightarrow> u32 option" where
  "count_value fo v =
     (case v of
        FvInteger n \<Rightarrow> if 0 \<le> sint n then Some (ucast n) else None
      | FvNumber x \<Rightarrow> if fo_le fo (fo_zero fo) x then Some (fo_to_u32 fo x) else None
      | _ \<Rightarrow> None)"

text \<open>What the context takes from a decoded value.\<close>

definition context_after ::
  "'f float_ops \<Rightarrow> 'f field_info \<Rightarrow> 'f field_value \<Rightarrow> 'f decode_context \<Rightarrow> 'f decode_context" where
  "context_after fo f v ctx =
     (let ctx = (case v of
            FvPgn p _ \<Rightarrow> ctx\<lparr>dc_target_pgn := Some p\<rparr>
          | FvInteger n \<Rightarrow>
              if fi_field_type f = Some FtFieldIndex then ctx\<lparr>dc_current_param_idx := Some (ucast n)\<rparr> else ctx
          | _ \<Rightarrow> ctx)
      in if fi_is_dynamic_length_marker f
         then (case count_value fo v of Some n \<Rightarrow> ctx\<lparr>dc_dynamic_length_bytes := Some n\<rparr> | None \<Rightarrow> ctx)
         else ctx)"

definition payload_bits :: "u8 list \<Rightarrow> u32" where
  "payload_bits data = word_of_nat (min (unat (word_of_nat (length data) :: u32) * 8) (2 ^ 32 - 1))"

text \<open>All field types but \<open>VARIABLE\<close>, which takes the field it stands for from the context.\<close>

definition decode_fixed_field ::
  "'f float_ops \<Rightarrow> (u8 list \<Rightarrow> 'f decoded_field list) \<Rightarrow> 'f field_info \<Rightarrow> 'f pgn_info \<Rightarrow> u8 list \<Rightarrow> 'f pgn_database \<Rightarrow>
   u32 \<Rightarrow> 'f decode_context \<Rightarrow> ('f decoded_field \<times> u32) option \<times> 'f decode_context" where
  "decode_fixed_field fo sub f info data db bit_offset ctx =
     (if fi_field_type f = Some FtStringLau then
        (let (v, bits) = decode_string_lau data bit_offset in (Some (plain_field f v bit_offset bits None, bits), ctx))
      else if fi_field_type f = Some FtDynamicFieldValue then
        (let ov = map_option (\<lambda>e. \<lparr>ov_unit = ft_unit e, ov_resolution = ft_resolution e, ov_precision = ft_precision e\<rparr>)
                    (dc_dynamic_field_type ctx);
             ((v, bits), ctx) = decode_dynamic_field_value fo sub data bit_offset db ctx
         in (Some (plain_field f v bit_offset bits ov, bits), ctx))
      else if (fi_field_type f = Some FtStringLz \<or> fi_field_type f = Some FtBinary) \<and> fi_bit_length f = None then
        (let avail = (if payload_bits data < bit_offset then 0 else payload_bits data - bit_offset);
             avail = avail - (avail AND 7);
             v = (if fi_field_type f = Some FtStringLz then decode_string_lz data bit_offset avail
                  else decode_binary data bit_offset avail)
         in (Some (plain_field f v bit_offset avail None, avail), ctx))
      else case fi_bit_length f of
        None \<Rightarrow> (None, ctx)
      | Some bit_length \<Rightarrow>
          (let (v, ctx) = decode_by_type fo sub f info data db bit_offset bit_length ctx
           in (Some (plain_field f v bit_offset bit_length None, bit_length), context_after fo f v ctx)))"

text \<open>
  \<open>VARIABLE\<close>: the target field's metadata at the current cursor.  The inner decode starts with an empty context, so a target
  that is itself variable gives nothing.
\<close>

definition decode_variable ::
  "'f float_ops \<Rightarrow> (u8 list \<Rightarrow> 'f decoded_field list) \<Rightarrow> 'f field_info \<Rightarrow> u8 list \<Rightarrow> 'f pgn_database \<Rightarrow>
   u32 \<Rightarrow> 'f decode_context \<Rightarrow> ('f decoded_field \<times> u32) option" where
  "decode_variable fo sub f data db bit_offset ctx =
     Option.bind (dc_target_pgn ctx) (\<lambda>target_pgn.
     Option.bind (dc_current_param_idx ctx) (\<lambda>target_idx.
     Option.bind (first_pgn db target_pgn) (\<lambda>target_info.
     Option.bind (find (\<lambda>tf. ucast (fi_order tf) = target_idx) (pg_fields target_info)) (\<lambda>target_field.
     Option.bind (if fi_field_type target_field = Some FtVariable then None
                  else fst (decode_fixed_field fo sub target_field target_info data db bit_offset decode_context_default))
       (\<lambda>(s, bits).
        let bits_byte_aligned = word_of_nat ((unat bits + 7) div 8) * 8;
            ov = \<lparr>ov_unit = fi_unit target_field, ov_resolution = fi_resolution target_field,
                  ov_precision = fi_precision target_field\<rparr>
        in Some (DecodedField f (df_value s) (Some bit_offset)
                   (case fi_bit_length target_field of Some l \<Rightarrow> Some l | None \<Rightarrow> Some bits_byte_aligned) None 0 (Some ov),
                 bits_byte_aligned))))))"

definition decode_one_field_at ::
  "'f float_ops \<Rightarrow> (u8 list \<Rightarrow> 'f decoded_field list) \<Rightarrow> 'f field_info \<Rightarrow> 'f pgn_info \<Rightarrow> u8 list \<Rightarrow> 'f pgn_database \<Rightarrow>
   u32 \<Rightarrow> 'f decode_context \<Rightarrow> ('f decoded_field \<times> u32) option \<times> 'f decode_context" where
  "decode_one_field_at fo sub f info data db bit_offset ctx =
     (if fi_field_type f = Some FtVariable then (decode_variable fo sub f data db bit_offset ctx, ctx)
      else decode_fixed_field fo sub f info data db bit_offset ctx)"

subsection \<open>Repeating sets\<close>

text \<open>One iteration over the set: the fields, the cursor, whether anything was decoded.\<close>

fun decode_set ::
  "'f float_ops \<Rightarrow> (u8 list \<Rightarrow> 'f decoded_field list) \<Rightarrow> 'f pgn_info \<Rightarrow> u8 list \<Rightarrow> 'f pgn_database \<Rightarrow>
   u8 \<Rightarrow> bool \<Rightarrow> u32 \<Rightarrow> 'f field_info list \<Rightarrow> u32 \<Rightarrow> bool \<Rightarrow> 'f decode_context \<Rightarrow>
   'f decoded_field list \<times> u32 \<times> bool \<times> 'f decode_context" where
  "decode_set fo sub info data db set_number count_was_zero iter [] sub_cursor produced ctx = ([], sub_cursor, produced, ctx)"
| "decode_set fo sub info data db set_number count_was_zero iter (sf # sfs) sub_cursor produced ctx =
     (if fi_condition sf \<noteq> None
      then decode_set fo sub info data db set_number count_was_zero iter sfs sub_cursor produced ctx
      else
        let off = (if iter = 0 then or_default sub_cursor (fi_bit_offset sf) else sub_cursor) in
        case decode_one_field_at fo sub sf info data db off ctx of
          (Some (d, bits), ctx) \<Rightarrow>
            (let d = DecodedField (df_info d) (df_value d) (df_bit_offset d) (df_bit_length d)
                       (if count_was_zero \<and> produced then None else Some iter) set_number (df_overrides d);
                 (rest, r) = decode_set fo sub info data db set_number count_was_zero iter sfs (off + bits) True ctx
             in (d # rest, r))
        | (None, ctx) \<Rightarrow>
            decode_set fo sub info data db set_number count_was_zero iter sfs
              (case fi_bit_length sf of Some bl \<Rightarrow> off + bl | None \<Rightarrow> sub_cursor) produced ctx)"

text \<open>At most \<open>n\<close> more iterations; the walk stops where the payload ends or an iteration decodes nothing.\<close>

fun repeat_loop ::
  "'f float_ops \<Rightarrow> (u8 list \<Rightarrow> 'f decoded_field list) \<Rightarrow> 'f pgn_info \<Rightarrow> u8 list \<Rightarrow> 'f pgn_database \<Rightarrow>
   u8 \<Rightarrow> bool \<Rightarrow> 'f field_info list \<Rightarrow> nat \<Rightarrow> u32 \<Rightarrow> u32 \<Rightarrow> 'f decode_context \<Rightarrow>
   'f decoded_field list \<times> 'f decode_context \<times> u32" where
  "repeat_loop fo sub info data db set_number count_was_zero fset 0 iter iter_cursor ctx = ([], ctx, iter_cursor)"
| "repeat_loop fo sub info data db set_number count_was_zero fset (Suc n) iter iter_cursor ctx =
     (if iter_cursor \<ge> payload_bits data then ([], ctx, iter_cursor)
      else
        let (ds, sub_cursor, produced, ctx) =
              decode_set fo sub info data db set_number count_was_zero iter fset iter_cursor False ctx in
        if \<not> produced then (ds, ctx, iter_cursor)
        else let (rest, r) =
               repeat_loop fo sub info data db set_number count_was_zero fset n (iter + 1) sub_cursor ctx
             in (ds @ rest, r))"

definition decode_repeating ::
  "'f float_ops \<Rightarrow> (u8 list \<Rightarrow> 'f decoded_field list) \<Rightarrow> 'f pgn_info \<Rightarrow> u8 list \<Rightarrow> 'f pgn_database \<Rightarrow>
   'f decoded_field list \<Rightarrow> 'f decode_context \<Rightarrow> 'f field_info list \<Rightarrow> u32 option \<Rightarrow> u32 \<Rightarrow> u8 \<Rightarrow>
   'f decoded_field list \<times> 'f decode_context \<times> u32" where
  "decode_repeating fo sub info data db out ctx fset count_field_order base_cursor set_number =
     (let raw_count = Option.bind count_field_order (\<lambda>cf.
            Option.bind (find (\<lambda>d. ucast (df_order d) = cf) out) (\<lambda>d. count_value fo (df_value d)));
          count_was_zero = (raw_count = Some 0);
          max_iters = (case raw_count of Some n \<Rightarrow> max n 1 | None \<Rightarrow> - 1) in
      if fset = [] then ([], ctx, base_cursor)
      else repeat_loop fo sub info data db set_number count_was_zero fset (unat max_iters) 0
             (or_default base_cursor (fi_bit_offset (hd fset))) ctx)"

subsection \<open>The walk over the fields\<close>

definition starts_set :: "u32 option \<Rightarrow> u32 option \<Rightarrow> 'f field_info \<Rightarrow> u32 option" where
  "starts_set start sz f =
     (case (start, sz) of (Some st, Some n) \<Rightarrow> if ucast (fi_order f) = st then Some n else None | _ \<Rightarrow> None)"

record 'f walk_state =
  wa_index :: nat
  wa_cursor :: u32
  wa_out :: "'f decoded_field list"
  wa_ctx :: "'f decode_context"
  wa_entered :: "bool \<times> bool"

text \<open>A repeating set at the current field: \<open>None\<close> when its slice runs past the fields.\<close>

definition walk_set ::
  "'f float_ops \<Rightarrow> (u8 list \<Rightarrow> 'f decoded_field list) \<Rightarrow> 'f pgn_info \<Rightarrow> u8 list \<Rightarrow> 'f pgn_database \<Rightarrow>
   nat \<Rightarrow> u32 option \<Rightarrow> u8 \<Rightarrow> (bool \<times> bool) \<Rightarrow> 'f walk_state \<Rightarrow> 'f walk_state option" where
  "walk_set fo sub info data db n count set_number entered st =
     (let i = wa_index st in
      if i + n > length (pg_fields info) then None
      else let (ds, ctx, cursor) = decode_repeating fo sub info data db (wa_out st) (wa_ctx st)
                 (take n (drop i (pg_fields info))) count (wa_cursor st) set_number
           in Some \<lparr>wa_index = i + n, wa_cursor = cursor, wa_out = wa_out st @ ds, wa_ctx = ctx, wa_entered = entered\<rparr>)"

text \<open>One turn of the loop at a field of the PGN.\<close>

definition walk_step ::
  "'f float_ops \<Rightarrow> (u8 list \<Rightarrow> 'f decoded_field list) \<Rightarrow> 'f pgn_info \<Rightarrow> u8 list \<Rightarrow> 'f pgn_database \<Rightarrow>
   'f walk_state \<Rightarrow> 'f walk_state option" where
  "walk_step fo sub info data db st =
     (let i = wa_index st; f = pg_fields info ! i; bit_offset = or_default (wa_cursor st) (fi_bit_offset f);
          inside = (unat bit_offset < length data * 8); (e1, e2) = wa_entered st in
      case starts_set (pg_set1_start info) (pg_set1_size info) f of
        Some n \<Rightarrow> walk_set fo sub info data db (unat n) (pg_set1_count info) 1 (e1 \<or> inside, e2) st
      | None \<Rightarrow>
          (case starts_set (pg_set2_start info) (pg_set2_size info) f of
             Some n \<Rightarrow> walk_set fo sub info data db (unat n) (pg_set2_count info) 2 (e1, e2 \<or> inside) st
           | None \<Rightarrow>
               if fi_condition f \<noteq> None then Some (st\<lparr>wa_index := i + 1\<rparr>)
               else case decode_one_field_at fo sub f info data db bit_offset (wa_ctx st) of
                 (None, ctx) \<Rightarrow> Some (st\<lparr>wa_index := i + 1, wa_ctx := ctx\<rparr>)
               | (Some (d, bits), ctx) \<Rightarrow>
                   Some (st\<lparr>wa_index := i + 1, wa_ctx := ctx, wa_cursor := bit_offset + bits, wa_out := wa_out st @ [d]\<rparr>)))"

partial_function (option) decode_loop ::
  "'f float_ops \<Rightarrow> (u8 list \<Rightarrow> 'f decoded_field list) \<Rightarrow> 'f pgn_info \<Rightarrow> u8 list \<Rightarrow> 'f pgn_database \<Rightarrow>
   'f walk_state \<Rightarrow> 'f walk_state option" where
  "decode_loop fo sub info data db st =
     (if wa_index st \<ge> length (pg_fields info) then Some st
      else Option.bind (walk_step fo sub info data db st) (decode_loop fo sub info data db))"

definition decode_fields ::
  "'f float_ops \<Rightarrow> (u8 list \<Rightarrow> 'f decoded_field list) \<Rightarrow> 'f pgn_info \<Rightarrow> u8 list \<Rightarrow> 'f pgn_database \<Rightarrow>
   ('f decoded_field list \<times> bool \<times> bool) option" where
  "decode_fields fo sub info data db =
     map_option (\<lambda>st. (wa_out st, fst (wa_entered st), snd (wa_entered st)))
       (decode_loop fo sub info data db
          \<lparr>wa_index = 0, wa_cursor = 0, wa_out = [], wa_ctx = decode_context_default, wa_entered = (False, False)\<rparr>)"

text \<open>The decoder of a NAME, to a depth: the fields of PGN 60928 over its eight bytes.\<close>

primrec decode_name :: "'f float_ops \<Rightarrow> 'f pgn_database \<Rightarrow> nat \<Rightarrow> u8 list \<Rightarrow> 'f decoded_field list" where
  "decode_name fo db 0 s = []"
| "decode_name fo db (Suc n) s =
     (case first_pgn db 60928 of
        None \<Rightarrow> []
      | Some info \<Rightarrow> (case decode_fields fo (decode_name fo db n) info s db of Some (fs, _) \<Rightarrow> fs | None \<Rightarrow> []))"

subsection \<open>The decoded PGN\<close>

text \<open>Slot \<open>order - 1\<close> holds the position of the top-level field of that order, -128 where there is none.\<close>

definition index_step :: "int list \<Rightarrow> nat \<times> 'f decoded_field \<Rightarrow> int list" where
  "index_step idx x =
     (let (pos, f) = x; slot = unat (df_order f) in
      if df_repeat_set f \<noteq> 0 then idx
      else if slot \<noteq> 0 \<and> slot - 1 < length idx \<and> pos < 127 then idx[slot - 1 := int pos]
      else idx)"

definition build_index_by_order :: "'f decoded_field list \<Rightarrow> int list" where
  "build_index_by_order ds = foldl index_step (replicate 32 (- 128)) (enumerate 0 ds)"

datatype decode_error = UnknownPgn u32

definition decode_frame ::
  "'f float_ops \<Rightarrow> 'f pgn_database \<Rightarrow> nat \<Rightarrow> raw_frame \<Rightarrow> (decode_error + 'f decoded_pgn) option" where
  "decode_frame fo db depth frame =
     (case pick_variant db (rf_pgn frame) (rf_data frame) of
        None \<Rightarrow> Some (Inl (UnknownPgn (rf_pgn frame)))
      | Some info \<Rightarrow>
          (case decode_fields fo (decode_name fo db depth) info (rf_data frame) db of
             None \<Rightarrow> None
           | Some (ds, sets) \<Rightarrow>
               Some (Inr \<lparr>dp_timestamp = rf_timestamp frame, dp_prio = rf_prio frame, dp_pgn = rf_pgn frame,
                 dp_src = rf_src frame, dp_dst = rf_dst frame, dp_description = pg_description info, dp_id = pg_id info,
                 dp_id_is_pinned = pg_id_is_pinned info, dp_data = rf_data frame, dp_fields = ds,
                 dp_has_repeating_set = sets, dp_index_by_order = build_index_by_order ds\<rparr>)))"

definition decoded_field_at :: "'f decoded_pgn \<Rightarrow> 'f field_info \<Rightarrow> 'f decoded_field option" where
  "decoded_field_at d f =
     (let order = unat (fi_order f) in
      if order = 0 then None
      else if order - 1 \<ge> length (dp_index_by_order d) then None
      else let idx = dp_index_by_order d ! (order - 1) in
        if idx < 0 then None
        else if nat idx < length (dp_fields d) then Some (dp_fields d ! nat idx) else None)"

definition field_by_name :: "'f decoded_pgn \<Rightarrow> string \<Rightarrow> 'f decoded_field option" where
  "field_by_name d nm = find (\<lambda>f. df_repeat_set f = 0 \<and> df_name f = nm) (dp_fields d)"

text \<open>The 64-bit NAME from the decoded fields.\<close>

definition iso_name :: "'f float_ops \<Rightarrow> 'f decoded_pgn \<Rightarrow> u64 option" where
  "iso_name fo d =
     (if dp_pgn d \<noteq> 60928 then None
      else let f = (\<lambda>nm bits. or_default 0 (Option.bind (field_by_name d nm) (\<lambda>df. fv_as_i64 fo (df_value df)))
                      AND (push_bit bits 1 - 1))
        in Some (f ''Unique Number'' 21 OR push_bit 21 (f ''Manufacturer Code'' 11)
             OR push_bit 32 (f ''Device Instance Lower'' 3) OR push_bit 35 (f ''Device Instance Upper'' 5)
             OR push_bit 40 (f ''Device Function'' 8) OR push_bit 49 (f ''Device Class'' 7)
             OR push_bit 56 (f ''System Instance'' 4) OR push_bit 60 (f ''Industry Group'' 3)
             OR push_bit 63 (f ''Arbitrary address capable'' 1)))"

end
