(* ===== verification/Encode.thy ===== *)
theory Encode
  imports Schema Bit_Fields Text_Codec Raw_Frame Timestamp Hex
begin

section \<open>Building a message (canboat-core/src/encode.rs)\<close>

text \<open>
  \<open>PgnBuilder\<close>: values are staged by field as a bit pattern or as bytes, and \<open>build\<close> packs them in the order of the schema,
  LSB first, with the default of every field that was not set.
\<close>

datatype 'f encode_value =
  EvNumber 'f | EvInt i64 | EvLookup string | EvText chars | EvBytes "u8 list" | EvPgn u32 | EvNotAvailable

datatype 'f encode_error =
    NoSuchPgnId string
  | NoSuchPgn u32
  | AmbiguousPgn u32 nat
  | NoSuchField string string
  | UnknownLookupLabel string string
  | ValueOutOfRange string 'f
  | NotFixedLength string
  | TypeMismatch string string
  | LengthMismatch u32 u32 nat

datatype staged = Scalar u64 | Bytes "u8 list"

record 'f pgn_builder =
  pb_db :: "'f pgn_database"
  pb_pgn :: "'f pgn_info"
  pb_prio :: u8
  pb_src :: u8
  pb_dst :: u8
  pb_timestamp :: "string option"
  pb_staged :: "staged option list"

definition for_pgn :: "'f pgn_database \<Rightarrow> 'f pgn_info \<Rightarrow> 'f pgn_builder" where
  "for_pgn db pgn =
     \<lparr>pb_db = db, pb_pgn = pgn, pb_prio = (case pg_priority pgn of Some p \<Rightarrow> p | None \<Rightarrow> 6), pb_src = 0, pb_dst = 255,
      pb_timestamp = None, pb_staged = replicate (length (pg_fields pgn)) None\<rparr>"

definition encode :: "'f pgn_database \<Rightarrow> string \<Rightarrow> 'f encode_error + 'f pgn_builder" where
  "encode db pgn_id =
     (case pgn_by_id db pgn_id of None \<Rightarrow> Inl (NoSuchPgnId pgn_id) | Some pgn \<Rightarrow> Inr (for_pgn db pgn))"

definition encode_for :: "'f pgn_database \<Rightarrow> 'f pgn_info \<Rightarrow> 'f pgn_builder" where
  "encode_for db pgn = for_pgn db (case pgn_by_id db (pg_id pgn) of Some p \<Rightarrow> p | None \<Rightarrow> pgn)"

definition encode_by_pgn :: "'f pgn_database \<Rightarrow> u32 \<Rightarrow> 'f encode_error + 'f pgn_builder" where
  "encode_by_pgn db pgn =
     (case pgn_variants db pgn of
        [] \<Rightarrow> Inl (NoSuchPgn pgn)
      | p # ps \<Rightarrow> if length ps > 0 then Inl (AmbiguousPgn pgn (length ps + 1)) else Inr (for_pgn db p))"

subsection \<open>Values to bits\<close>

definition all_ones :: "u32 \<Rightarrow> u64" where
  "all_ones bits = (if bits \<ge> 64 then - 1 else push_bit (unat bits) 1 - 1)"

definition mask_to_width :: "i64 \<Rightarrow> u32 \<Rightarrow> u64" where
  "mask_to_width v bits = v AND all_ones bits"

definition default_raw :: "'f field_info \<Rightarrow> u64" where
  "default_raw f =
     (let bl = (case fi_bit_length f of Some l \<Rightarrow> l | None \<Rightarrow> 0) in
      case fi_match_value f of
        Some mv \<Rightarrow> mask_to_width mv bl
      | None \<Rightarrow>
          if fi_field_type f = Some FtSpare then 0
          else (case fi_unknown_value f of Some u \<Rightarrow> u | None \<Rightarrow> all_ones bl))"

text \<open>The inverse of the decoder's scaling; a non-zero schema offset is a display offset.\<close>

definition scaled_to_raw :: "'f float_ops \<Rightarrow> 'f field_info \<Rightarrow> 'f \<Rightarrow> 'f encode_error + i64" where
  "scaled_to_raw fo f scaled =
     (let resolution = (case fi_resolution f of Some r \<Rightarrow> r | None \<Rightarrow> fo_one fo);
          display_offset = (case fi_offset f of Some k \<Rightarrow> fo_of_i64 fo k | None \<Rightarrow> fo_zero fo);
          raw = fo_div fo (fo_sub fo (fo_sub fo scaled (fi_unit_offset f)) display_offset) resolution;
          rounded = fo_round fo raw
      in if \<not> fo_finite fo rounded then Inl (ValueOutOfRange (fi_name f) scaled) else Inr (fo_to_i64 fo rounded))"

definition resolve_lookup :: "'f pgn_database \<Rightarrow> 'f field_info \<Rightarrow> string \<Rightarrow> 'f encode_error + u64" where
  "resolve_lookup db f label =
     (case fi_lookup_enumeration f of
        None \<Rightarrow> Inl (TypeMismatch (fi_name f) ''a value for a lookup field'')
      | Some table_name \<Rightarrow>
          (let hit = (case db_lookup db table_name of
              None \<Rightarrow> None
            | Some table \<Rightarrow> find (\<lambda>lv. lv_name lv = label \<or> lv_id lv = Some label) (lt_values table))
           in case hit of
                Some lv \<Rightarrow> Inr (lv_value lv)
              | None \<Rightarrow> Inl (UnknownLookupLabel (fi_name f) label)))"

definition value_to_raw ::
  "'f float_ops \<Rightarrow> 'f pgn_database \<Rightarrow> 'f field_info \<Rightarrow> 'f encode_value \<Rightarrow> 'f encode_error + u64" where
  "value_to_raw fo db f v =
     (case fi_bit_length f of
        None \<Rightarrow> Inl (NotFixedLength (fi_name f))
      | Some bl \<Rightarrow>
          (let mismatch = Inl (TypeMismatch (fi_name f) ''a numeric value'');
               masked = (\<lambda>n. Inr (mask_to_width n bl));
               is_enum = (fi_field_type f = Some FtLookup \<or> fi_field_type f = Some FtIndirectLookup) in
           case v of
             EvNotAvailable \<Rightarrow> Inr (default_raw f)
           | EvLookup label \<Rightarrow> if is_enum then and_then (resolve_lookup db f label) masked else mismatch
           | EvText _ \<Rightarrow> mismatch
           | EvBytes _ \<Rightarrow> mismatch
           | EvPgn p \<Rightarrow> masked (ucast p)
           | EvInt n \<Rightarrow> if fi_field_type f = Some FtFloat then Inr (ucast (fo_i64_to_f32 fo n)) else masked n
           | EvNumber x \<Rightarrow>
               if fi_field_type f = Some FtFloat then Inr (ucast (fo_to_f32 fo x))
               else and_then (scaled_to_raw fo f x) masked))"

subsection \<open>Values to bytes\<close>

definition text_of_value :: "'f field_info \<Rightarrow> 'f encode_value \<Rightarrow> 'f encode_error + chars" where
  "text_of_value f v =
     (case v of EvText s \<Rightarrow> Inr s | EvNotAvailable \<Rightarrow> Inr [] | _ \<Rightarrow> Inl (TypeMismatch (fi_name f) ''text''))"

definition len_f64 :: "'f float_ops \<Rightarrow> 'a list \<Rightarrow> 'f" where
  "len_f64 fo bs = fo_of_i64 fo (word_of_nat (length bs))"

text \<open>\<open>resize(n, 0)\<close> of a vector that is not longer.\<close>

definition zero_pad :: "nat \<Rightarrow> u8 list \<Rightarrow> u8 list" where
  "zero_pad n bs = bs @ replicate (n - length bs) 0"

definition stage_string_fix ::
  "'f float_ops \<Rightarrow> 'f field_info \<Rightarrow> 'f encode_value \<Rightarrow> 'f encode_error + staged" where
  "stage_string_fix fo f v =
     and_then (text_of_value f v) (\<lambda>s.
     and_then (ok_or (fi_bit_length f) (NotFixedLength (fi_name f))) (\<lambda>bl.
       let byte_len = unat bl div 8; bytes = utf8_bytes s in
       if length bytes > byte_len then Inl (ValueOutOfRange (fi_name f) (len_f64 fo bytes))
       else Inr (Bytes (zero_pad byte_len bytes))))"

definition stage_string_lz ::
  "'f float_ops \<Rightarrow> 'f field_info \<Rightarrow> 'f encode_value \<Rightarrow> 'f encode_error + staged" where
  "stage_string_lz fo f v =
     and_then (text_of_value f v) (\<lambda>s.
       let content = utf8_bytes s in
       if length content > 255 then Inl (ValueOutOfRange (fi_name f) (len_f64 fo content))
       else let buf = word_of_nat (length content) # content in
         case fi_bit_length f of
           None \<Rightarrow> Inr (Bytes buf)
         | Some bl \<Rightarrow>
             (let want = unat bl div 8 in
              if length buf > want then Inl (ValueOutOfRange (fi_name f) (len_f64 fo content))
              else Inr (Bytes (zero_pad want buf))))"

definition stage_string_lau ::
  "'f float_ops \<Rightarrow> 'f field_info \<Rightarrow> 'f encode_value \<Rightarrow> 'f encode_error + staged" where
  "stage_string_lau fo f v =
     and_then (text_of_value f v) (\<lambda>s.
       let content = utf8_bytes s in
       if length content + 2 > 255 then Inl (ValueOutOfRange (fi_name f) (len_f64 fo content))
       else Inr (Bytes (word_of_nat (length content + 2) # 1 # content)))"

definition stage_binary ::
  "'f float_ops \<Rightarrow> 'f field_info \<Rightarrow> 'f encode_value \<Rightarrow> 'f encode_error + staged" where
  "stage_binary fo f v =
     and_then (case v of EvBytes b \<Rightarrow> Inr b | EvNotAvailable \<Rightarrow> Inr [] | _ \<Rightarrow> Inl (TypeMismatch (fi_name f) ''bytes'')) (\<lambda>bytes.
       case fi_bit_length f of
         None \<Rightarrow> Inr (Bytes bytes)
       | Some bl \<Rightarrow>
           (let want = unat bl div 8 in
            if length bytes > want then Inl (ValueOutOfRange (fi_name f) (len_f64 fo bytes))
            else Inr (Bytes (zero_pad want bytes))))"

definition stage_dynamic_value :: "'f field_info \<Rightarrow> 'f encode_value \<Rightarrow> 'f encode_error + staged" where
  "stage_dynamic_value f v =
     (case v of
        EvBytes b \<Rightarrow> Inr (Bytes b)
      | EvNotAvailable \<Rightarrow> Inr (Bytes [])
      | _ \<Rightarrow> Inl (TypeMismatch (fi_name f) ''value bytes for a dynamic (key/value) field''))"

definition stage_value ::
  "'f float_ops \<Rightarrow> 'f pgn_database \<Rightarrow> 'f field_info \<Rightarrow> 'f encode_value \<Rightarrow> 'f encode_error + staged" where
  "stage_value fo db f v =
     (case fi_field_type f of
        Some FtStringFix \<Rightarrow> stage_string_fix fo f v
      | Some FtStringLz \<Rightarrow> stage_string_lz fo f v
      | Some FtStringLau \<Rightarrow> stage_string_lau fo f v
      | Some FtBinary \<Rightarrow> stage_binary fo f v
      | Some FtDynamicFieldValue \<Rightarrow> stage_dynamic_value f v
      | _ \<Rightarrow> and_then (value_to_raw fo db f v) (\<lambda>raw. Inr (Scalar raw)))"

subsection \<open>Setting a field\<close>

definition stage_at ::
  "'f float_ops \<Rightarrow> nat \<Rightarrow> 'f encode_value \<Rightarrow> 'f pgn_builder \<Rightarrow> 'f encode_error + 'f pgn_builder" where
  "stage_at fo idx v b =
     and_then (stage_value fo (pb_db b) (pg_fields (pb_pgn b) ! idx) v)
       (\<lambda>s. Inr (b\<lparr>pb_staged := (pb_staged b)[idx := Some s]\<rparr>))"

definition builder_push ::
  "'f float_ops \<Rightarrow> 'f field_info \<Rightarrow> 'f encode_value \<Rightarrow> 'f pgn_builder \<Rightarrow> 'f encode_error + 'f pgn_builder" where
  "builder_push fo field v b =
     (let order = unat (fi_order field) in
      if order = 0 \<or> order - 1 \<ge> length (pg_fields (pb_pgn b))
      then Inl (NoSuchField (pg_id (pb_pgn b)) (fi_id field))
      else stage_at fo (order - 1) v b)"

definition push_by_name ::
  "'f float_ops \<Rightarrow> string \<Rightarrow> 'f encode_value \<Rightarrow> 'f pgn_builder \<Rightarrow> 'f encode_error + 'f pgn_builder" where
  "push_by_name fo field v b =
     (case position (\<lambda>f. fi_name f = field) (pg_fields (pb_pgn b)) of
        None \<Rightarrow> Inl (NoSuchField (pg_id (pb_pgn b)) field)
      | Some idx \<Rightarrow> stage_at fo idx v b)"

text \<open>A text argument by the type of its field; \<open>from\_str\_radix\<close> and \<open>parse\<close> accept a sign.\<close>

definition lower :: "char \<Rightarrow> char" where
  "lower c = (let n = of_char c :: nat in if 65 \<le> n \<and> n \<le> 90 then char_of (n + 32) else c)"

definition hex_i64 :: "string \<Rightarrow> int option" where
  "hex_i64 s =
     (case s of
        [] \<Rightarrow> None
      | c # r \<Rightarrow>
          if c = CHR ''-'' then
            (if r = [] \<or> \<not> list_all is_hex r \<or> hex_digits_value r > 2 ^ 63 then None
             else Some (- int (hex_digits_value r)))
          else map_option int (parse_hex (2 ^ 63 - 1) s))"

definition strip_0x :: "string \<Rightarrow> string option" where
  "strip_0x s = (case strip_prefix s ''0x'' of Some h \<Rightarrow> Some h | None \<Rightarrow> strip_prefix s ''0X'')"

definition coerce_arg :: "'f float_ops \<Rightarrow> 'f field_info \<Rightarrow> string \<Rightarrow> 'f encode_error + 'f encode_value" where
  "coerce_arg fo f arg =
     (let s = trim arg; chars = map of_char s; bad = Inl (ValueOutOfRange (fi_name f) (fo_nan fo)) in
      if map lower s = ''n/a'' \<or> s = [] then Inr EvNotAvailable
      else case Option.bind (strip_0x s) hex_i64 of
        Some n \<Rightarrow> Inr (EvInt (word_of_int n))
      | None \<Rightarrow>
          if fi_field_type f = Some FtLookup \<or> fi_field_type f = Some FtIndirectLookup then
            (case parse_i64 s of Some n \<Rightarrow> Inr (EvInt (word_of_int n)) | None \<Rightarrow> Inr (EvLookup s))
          else if fi_field_type f = Some FtPgn then
            (case parse_unsigned (2 ^ 32 - 1) s of Some p \<Rightarrow> Inr (EvPgn (word_of_nat p)) | None \<Rightarrow> bad)
          else if fi_field_type f \<in> {Some FtStringFix, Some FtStringLz, Some FtStringLau, Some FtVariable} then
            Inr (EvText chars)
          else case parse_i64 s of
              Some n \<Rightarrow> Inr (EvInt (word_of_int n))
            | None \<Rightarrow> (case fo_parse fo s of Some x \<Rightarrow> Inr (EvNumber x) | None \<Rightarrow> bad))"

definition push_arg ::
  "'f float_ops \<Rightarrow> string \<Rightarrow> string \<Rightarrow> 'f pgn_builder \<Rightarrow> 'f encode_error + 'f pgn_builder" where
  "push_arg fo field arg b =
     (case position (\<lambda>f. fi_name f = field \<or> fi_id f = field) (pg_fields (pb_pgn b)) of
        None \<Rightarrow> Inl (NoSuchField (pg_id (pb_pgn b)) field)
      | Some idx \<Rightarrow> and_then (coerce_arg fo (pg_fields (pb_pgn b) ! idx) arg) (\<lambda>v. stage_at fo idx v b))"

subsection \<open>Packing\<close>

type_synonym bit_buffer = "u8 list \<times> usize"

definition put_bits :: "usize \<Rightarrow> u64 \<Rightarrow> bit_buffer \<Rightarrow> bit_buffer" where
  "put_bits bits v b = write_bits (fst b) (snd b) bits v"

definition put_bytes :: "u8 list \<Rightarrow> bit_buffer \<Rightarrow> bit_buffer" where
  "put_bytes bs b = fold (\<lambda>x. put_bits 8 (ucast x)) bs b"

definition write_unset :: "'f field_info \<Rightarrow> bit_buffer \<Rightarrow> 'f encode_error + bit_buffer" where
  "write_unset f b =
     (case (fi_field_type f, fi_bit_length f) of
        (Some FtStringFix, Some bl) \<Rightarrow> Inr (put_bytes (replicate (unat bl div 8) 0xff) b)
      | (Some FtBinary, Some bl) \<Rightarrow> Inr (put_bytes (replicate (unat bl div 8) 0xff) b)
      | (Some FtBinary, None) \<Rightarrow> Inr b
      | (Some FtStringLz, _) \<Rightarrow> Inr (put_bits 8 0 b)
      | (Some FtStringLau, _) \<Rightarrow> Inr (put_bits 8 1 (put_bits 8 2 b))
      | (Some FtVariable, _) \<Rightarrow> Inl (NotFixedLength (fi_name f))
      | (Some FtDynamicFieldKey, _) \<Rightarrow> Inl (NotFixedLength (fi_name f))
      | (Some FtDynamicFieldLength, _) \<Rightarrow> Inl (NotFixedLength (fi_name f))
      | (Some FtDynamicFieldValue, _) \<Rightarrow> Inl (NotFixedLength (fi_name f))
      | (_, None) \<Rightarrow> Inl (NotFixedLength (fi_name f))
      | (_, Some bl) \<Rightarrow> Inr (put_bits (unat bl) (default_raw f) b))"

definition pack_field :: "'f field_info \<Rightarrow> staged option \<Rightarrow> bit_buffer \<Rightarrow> 'f encode_error + bit_buffer" where
  "pack_field f s b =
     (case s of
        Some (Bytes bytes) \<Rightarrow> Inr (put_bytes bytes b)
      | Some (Scalar v) \<Rightarrow>
          and_then (ok_or (fi_bit_length f) (NotFixedLength (fi_name f))) (\<lambda>bl. Inr (put_bits (unat bl) v b))
      | None \<Rightarrow> write_unset f b)"

fun pack_fields ::
  "'f field_info list \<Rightarrow> staged option list \<Rightarrow> bit_buffer \<Rightarrow> 'f encode_error + bit_buffer" where
  "pack_fields (f # fs) (s # ss) b = and_then (pack_field f s b) (pack_fields fs ss)"
| "pack_fields _ _ b = Inr b"

definition builder_build :: "'f pgn_builder \<Rightarrow> 'f encode_error + raw_frame" where
  "builder_build b =
     and_then (pack_fields (pg_fields (pb_pgn b)) (pb_staged b) ([], 0)) (\<lambda>(buf, next_bit).
       let buf = (if next_bit mod 8 \<noteq> 0 then fst (put_bits (8 - next_bit mod 8) (- 1) (buf, next_bit)) else buf);
           frame = \<lparr>rf_timestamp = pb_timestamp b, rf_prio = pb_prio b, rf_pgn = pg_pgn (pb_pgn b), rf_src = pb_src b,
                    rf_dst = pb_dst b, rf_data = buf\<rparr> in
       case pg_length (pb_pgn b) of
         Some expected \<Rightarrow>
           if length buf \<noteq> unat expected then Inl (LengthMismatch (pg_pgn (pb_pgn b)) expected (length buf)) else Inr frame
       | None \<Rightarrow> Inr frame)"

end
