(* ===== verification/Message.thy ===== *)
theory Message
  imports Decode Encode
begin

section \<open>A built message decodes to what was staged (encode.rs against decode.rs)\<close>

text \<open>
  For a PGN whose fields are contiguous scalars, \<open>build\<close> followed by \<open>decode\<close> gives the fields of the schema in order, each
  with the reading of the bits staged for it.  A reading is a function of the field's metadata and its raw bits alone.
\<close>

subsection \<open>The reading of raw bits\<close>

definition raw_extract :: "nat \<Rightarrow> bool \<Rightarrow> u64 \<Rightarrow> extracted" where
  "raw_extract n sgnd raw =
     \<lparr>ex_value = (if sgnd then signed_take_bit (n - 1) raw else raw), ex_max = (if sgnd then mask (n - 1) else mask n),
      ex_raw = raw\<rparr>"

definition field_bits :: "'f field_info \<Rightarrow> u32" where
  "field_bits f = or_default 0 (fi_bit_length f)"

definition scalar_reading :: "'f float_ops \<Rightarrow> 'f pgn_database \<Rightarrow> 'f field_info \<Rightarrow> u64 \<Rightarrow> 'f field_value" where
  "scalar_reading fo db f raw =
     (let n = unat (field_bits f); sgnd = or_default False (fi_signed f) in
      case fi_field_type f of
        Some FtFloat \<Rightarrow> FvFloat (fo_of_f32 fo (ucast raw))
      | Some FtLookup \<Rightarrow> named_or_sentinel f (raw_extract n False raw) (lookup_name db (fi_lookup_enumeration f) raw)
      | Some FtReserved \<Rightarrow> reserved_value (raw_extract n sgnd raw) (field_bits f) True
      | Some FtSpare \<Rightarrow> reserved_value (raw_extract n sgnd raw) (field_bits f) False
      | Some FtMmsi \<Rightarrow> FvMmsi (ucast raw)
      | Some FtDate \<Rightarrow> date_value f (raw_extract n False raw)
      | Some FtTime \<Rightarrow> time_value fo f (raw_extract n sgnd raw)
      | Some FtDuration \<Rightarrow> time_value fo f (raw_extract n sgnd raw)
      | _ \<Rightarrow> number_value fo f (raw_extract n (number_signed f sgnd) raw))"

text \<open>A scalar field: no condition, at most 64 bits, of a type that reads its bits only.\<close>

definition scalar_field :: "'f field_info \<Rightarrow> bool" where
  "scalar_field f \<longleftrightarrow>
     fi_condition f = None \<and> 0 < field_bits f \<and> field_bits f \<le> 64 \<and>
     (case fi_field_type f of
        Some t \<Rightarrow>
          t \<in> {FtNumber, FtDecimal, FtFieldIndex, FtLookup} \<or>
          t \<in> {FtFloat, FtMmsi} \<and> field_bits f = 32 \<or> t = FtDate \<and> field_bits f = 16 \<or>
          t \<in> {FtReserved, FtSpare, FtTime, FtDuration} \<and> or_default 0 (fi_offset f) = 0
      | None \<Rightarrow> False)"

text \<open>The fields follow one another without gaps from bit \<open>off\<close> on.\<close>

fun contiguous :: "nat \<Rightarrow> 'f field_info list \<Rightarrow> bool" where
  "contiguous off [] = True"
| "contiguous off (f # fs) =
     (scalar_field f \<and> (case fi_bit_offset f of None \<Rightarrow> True | Some o' \<Rightarrow> unat o' = off) \<and>
      contiguous (off + unat (field_bits f)) fs)"

definition total_bits :: "'f field_info list \<Rightarrow> nat" where
  "total_bits fs = sum_list (map (\<lambda>f. unat (field_bits f)) fs)"

definition scalar_message :: "'f pgn_info \<Rightarrow> bool" where
  "scalar_message p \<longleftrightarrow>
     contiguous 0 (pg_fields p) \<and> total_bits (pg_fields p) < 2 ^ 32 \<and> pg_set1_start p = None \<and> pg_set2_start p = None"

text \<open>The bits a staged slot stands for.\<close>

definition staged_raw :: "'f field_info \<Rightarrow> staged option \<Rightarrow> u64" where
  "staged_raw f s = take_bit (unat (field_bits f)) (case s of Some (Scalar v) \<Rightarrow> v | _ \<Rightarrow> default_raw f)"

definition scalar_slot :: "staged option \<Rightarrow> bool" where
  "scalar_slot s = (case s of Some (Bytes _) \<Rightarrow> False | _ \<Rightarrow> True)"

subsection \<open>The packed payload carries the raw values\<close>

fun carries :: "u8 list \<Rightarrow> nat \<Rightarrow> 'f field_info list \<Rightarrow> u64 list \<Rightarrow> bool" where
  "carries data off (f # fs) (r # rs) =
     (stream_word data off (unat (field_bits f)) = r \<and> off + unat (field_bits f) \<le> 8 * length data \<and>
      carries data (off + unat (field_bits f)) fs rs)"
| "carries data off [] [] = True"
| "carries data off _ _ = False"

lemma total_bits_simps [simp]: "total_bits [] = 0" "total_bits (f # fs) = unat (field_bits f) + total_bits fs"
  by (simp_all add: total_bits_def)

lemma scalar_field_length:
  assumes "scalar_field f"
  obtains bl where "fi_bit_length f = Some bl" "field_bits f = bl" "0 < unat bl" "unat bl \<le> 64"
  using assms
  by (cases "fi_bit_length f")
    (auto simp: scalar_field_def field_bits_def or_default_def word_le_nat_alt word_less_nat_alt)

lemma pack_scalar_field:
  assumes "scalar_field f" "scalar_slot s"
  shows "pack_field f s (buf, nb) =
    Inr (write_bits buf nb (unat (field_bits f)) (case s of Some (Scalar v) \<Rightarrow> v | _ \<Rightarrow> default_raw f))"
proof -
  obtain bl where bl: "fi_bit_length f = Some bl" "field_bits f = bl" using assms(1) by (rule scalar_field_length)
  have "write_unset f (buf, nb) = Inr (put_bits (unat bl) (default_raw f) (buf, nb))"
    using assms(1) bl(1)
    by (cases "the (fi_field_type f)") (auto simp: scalar_field_def write_unset_def split: option.splits)
  then show ?thesis
    using assms(2) bl by (auto simp: pack_field_def scalar_slot_def put_bits_def ok_or_def split: option.splits staged.splits)
qed

lemma pack_fields_before:
  assumes "contiguous nb fs" "list_all scalar_slot ss" "packed buf nb" "pack_fields fs ss (buf, nb) = Inr (buf', nb')"
    "off + m \<le> nb"
  shows "stream_word buf' off m = stream_word buf off m"
  using assms
proof (induction fs arbitrary: ss buf nb)
  case (Cons f fs)
  show ?case
  proof (cases ss)
    case (Cons s ss')
    let ?v = "case s of Some (Scalar v) \<Rightarrow> v | _ \<Rightarrow> default_raw f"
    obtain b1 n1 where w: "write_bits buf nb (unat (field_bits f)) ?v = (b1, n1)" by fastforce
    have b1: "n1 = nb + unat (field_bits f)" "b1 = fst (write_bits buf nb (unat (field_bits f)) ?v)"
      using w write_bits_next [of buf nb "unat (field_bits f)" ?v] by auto
    then have "packed b1 n1" using Cons.prems(3) by (simp add: write_bits_packed)
    moreover have "stream_word b1 off m = stream_word buf off m"
      unfolding b1(2) by (rule write_bits_before [OF Cons.prems(3,5)])
    ultimately show ?thesis
      using Cons.IH [of n1 ss' b1] Cons.prems \<open>ss = s # ss'\<close> w b1(1) by (simp add: pack_scalar_field)
  qed (use Cons.prems in simp)
qed simp

lemma pack_fields_carries:
  assumes "contiguous nb fs" "list_all scalar_slot ss" "length ss = length fs" "packed buf nb"
    "pack_fields fs ss (buf, nb) = Inr (buf', nb')"
  shows "nb' = nb + total_bits fs \<and> packed buf' nb' \<and> carries buf' nb fs (map2 staged_raw fs ss)"
  using assms
proof (induction fs arbitrary: ss buf nb)
  case (Cons f fs)
  then obtain s ss' where ss: "ss = s # ss'" by (cases ss) auto
  let ?n = "unat (field_bits f)" and ?v = "case s of Some (Scalar v) \<Rightarrow> v | _ \<Rightarrow> default_raw f"
  define b1 where "b1 = fst (write_bits buf nb ?n ?v)"
  have w: "write_bits buf nb ?n ?v = (b1, nb + ?n)"
    using write_bits_next [of buf nb ?n ?v] by (simp add: b1_def prod_eq_iff)
  have n: "?n \<le> 64" using Cons.prems(1) by (auto elim: scalar_field_length)
  have p1: "packed b1 (nb + ?n)" unfolding b1_def by (rule write_bits_packed [OF Cons.prems(4)])
  have rest: "pack_fields fs ss' (b1, nb + ?n) = Inr (buf', nb')" "contiguous (nb + ?n) fs" "list_all scalar_slot ss'"
    using Cons.prems ss w by (simp_all add: pack_scalar_field)
  note IH = Cons.IH [OF rest(2,3) _ p1 rest(1)]
  have "stream_word buf' nb ?n = stream_word b1 nb ?n"
    by (rule pack_fields_before [OF rest(2,3) p1 rest(1)]) simp
  then have "stream_word buf' nb ?n = staged_raw f s"
    using write_bits_word [OF Cons.prems(4) n] by (simp add: b1_def staged_raw_def)
  moreover have "nb + ?n \<le> 8 * length buf'"
    using IH Cons.prems(3) ss packed_length [of buf' nb'] by auto
  ultimately show ?case using IH Cons.prems(3) ss by (auto simp: add.assoc)
qed simp

text \<open>More bits at the end of the payload change nothing.\<close>

lemma carries_cong:
  assumes "carries data off fs rs" "length data \<le> length data'"
    "\<And>o' m. o' + m \<le> off + total_bits fs \<Longrightarrow> stream_word data' o' m = stream_word data o' m"
  shows "carries data' off fs rs"
  using assms by (induction data off fs rs rule: carries.induct) auto

subsection \<open>The decoder reads each raw value\<close>

lemma extract_carried:
  assumes "stream_word data (unat off) (unat bl) = r" "unat off + unat bl \<le> 8 * length data" "0 < unat bl" "unat bl \<le> 64"
  shows "extract_bits data (unat off) (unat bl) sgnd 0 = Some (raw_extract (unat bl) sgnd r)"
  using assms by (simp add: extract_bits_eq_field_spec field_spec_def field_width_def raw_extract_def Let_def)

lemma decode_scalar_field:
  assumes f: "scalar_field f"
    and data: "stream_word data (unat off) (unat (field_bits f)) = r"
      "unat off + unat (field_bits f) \<le> 8 * length data"
  shows "decode_one_field_at fo sub f info data db off ctx =
    (Some (plain_field f (scalar_reading fo db f r) off (field_bits f) None, field_bits f),
     context_after fo f (scalar_reading fo db f r) ctx)"
proof -
  obtain bl where bl: "fi_bit_length f = Some bl" "field_bits f = bl" "0 < unat bl" "unat bl \<le> 64"
    using f by (rule scalar_field_length)
  have ex: "extract_bits data (unat off) (unat bl) sgnd 0 = Some (raw_extract (unat bl) sgnd r)" for sgnd
    by (rule extract_carried) (use data bl in simp_all)
  obtain t where t: "fi_field_type f = Some t" using f by (auto simp: scalar_field_def split: option.splits)
  have ex32: "bl = 32 \<Longrightarrow> extract_bits data (unat off) 32 False 0 = Some (raw_extract 32 False r)"
    and ex16: "bl = 16 \<Longrightarrow> extract_bits data (unat off) 16 False 0 = Some (raw_extract 16 False r)"
    using ex [of False] by auto
  have "decode_by_type fo sub f info data db off bl ctx = (scalar_reading fo db f r, ctx)"
    using f bl t ex ex32 ex16
    by (cases t)
      (simp_all add: scalar_field_def decode_by_type_def scalar_reading_def decode_number_def decode_float_def
        decode_lookup_def decode_reserved_def decode_mmsi_def decode_date_def decode_time_def extract_at_def Let_def
        raw_extract_def)
  then show ?thesis
    using f bl t by (cases t) (simp_all add: decode_one_field_at_def decode_fixed_field_def scalar_field_def)
qed

definition field_readings ::
  "'f float_ops \<Rightarrow> 'f pgn_database \<Rightarrow> 'f field_info list \<Rightarrow> u64 list \<Rightarrow> 'f field_value list" where
  "field_readings fo db fs rs = map2 (scalar_reading fo db) fs rs"

lemma decode_loop_scalar:
  assumes "pg_fields info = pre @ fs" "pg_set1_start info = None" "pg_set2_start info = None"
    and "contiguous off fs" "carries data off fs rs" "off + total_bits fs < 2 ^ 32"
    and "wa_index st = length pre" "unat (wa_cursor st) = off"
  shows "\<exists>st' ds. decode_loop fo sub info data db st = Some st' \<and> wa_out st' = wa_out st @ ds \<and>
    wa_entered st' = wa_entered st \<and> map df_info ds = fs \<and> map df_value ds = field_readings fo db fs rs \<and>
    list_all (\<lambda>d. df_repeat_set d = 0) ds"
  using assms
proof (induction fs arbitrary: pre off rs st)
  case Nil
  then show ?case by (intro exI [of _ st] exI [of _ "[]"]) (simp add: decode_loop.simps field_readings_def)
next
  case (Cons f fs)
  obtain r rs' where rs: "rs = r # rs'" using Cons.prems(5) by (cases rs) auto
  let ?v = "scalar_reading fo db f r"
  have off: "or_default (wa_cursor st) (fi_bit_offset f) = wa_cursor st"
    using Cons.prems(4,8) by (auto simp: or_default_def word_unat_eq_iff split: option.splits)
  have f: "scalar_field f" using Cons.prems(4) by simp
  have nth: "pg_fields info ! wa_index st = f" using Cons.prems(1,7) by simp
  have dec: "decode_one_field_at fo sub f info data db (wa_cursor st) (wa_ctx st) =
      (Some (plain_field f ?v (wa_cursor st) (field_bits f) None, field_bits f), context_after fo f ?v (wa_ctx st))"
    by (rule decode_scalar_field [OF f]) (use Cons.prems(5,8) rs in simp_all)
  define st1 where "st1 = st\<lparr>wa_index := wa_index st + 1, wa_ctx := context_after fo f ?v (wa_ctx st),
    wa_cursor := wa_cursor st + field_bits f,
    wa_out := wa_out st @ [plain_field f ?v (wa_cursor st) (field_bits f) None]\<rparr>"
  have step: "walk_step fo sub info data db st = Some st1"
    using f nth dec off Cons.prems(2,3)
    by (cases "wa_entered st") (simp add: walk_step_def starts_set_def st1_def scalar_field_def Let_def)
  have "unat (wa_cursor st1) = off + unat (field_bits f)"
    using Cons.prems(6,8) by (simp add: st1_def unat_add_lem [THEN iffD1])
  then obtain st' ds where ih: "decode_loop fo sub info data db st1 = Some st'" "wa_out st' = wa_out st1 @ ds"
      "wa_entered st' = wa_entered st1" "map df_info ds = fs" "map df_value ds = field_readings fo db fs rs'"
      "list_all (\<lambda>d. df_repeat_set d = 0) ds"
    using Cons.IH [of "pre @ [f]" "off + unat (field_bits f)" rs' st1] Cons.prems rs by (auto simp: st1_def)
  have "\<not> length (pg_fields info) \<le> wa_index st" using Cons.prems(1,7) by simp
  then have "decode_loop fo sub info data db st = Some st'"
    using step ih(1) by (simp add: decode_loop.simps [of fo sub info data db st])
  then show ?case
    using ih rs
    by (intro exI [of _ st'] exI [of _ "plain_field f ?v (wa_cursor st) (field_bits f) None # ds"])
      (simp add: st1_def field_readings_def plain_field_def)
qed

subsection \<open>A built message\<close>

definition staged_ok :: "'f pgn_builder \<Rightarrow> bool" where
  "staged_ok b \<longleftrightarrow> length (pb_staged b) = length (pg_fields (pb_pgn b)) \<and> list_all scalar_slot (pb_staged b)"

lemma write_bits_length: "length buf \<le> length (fst (write_bits buf nb n v))"
proof (induction n arbitrary: buf nb v)
  case (Suc n)
  define b1 where "b1 = (if nb mod 8 = 0 then buf @ [0] else buf)"
  define b2 where
    "b2 = (if v AND 1 \<noteq> 0 then b1[nb div 8 := (b1 ! (nb div 8)) OR push_bit (nb mod 8) 1] else b1)"
  have "write_bits buf nb (Suc n) v = write_bits b2 (nb + 1) n (drop_bit 1 v)"
    by (simp add: b1_def b2_def Let_def)
  moreover have "length buf \<le> length b2" by (simp add: b1_def b2_def)
  ultimately show ?case using Suc.IH [of b2 "nb + 1" "drop_bit 1 v"] by simp
qed simp

lemma built_payload:
  assumes "scalar_message (pb_pgn b)" "staged_ok b" "builder_build b = Inr frame"
  shows "carries (rf_data frame) 0 (pg_fields (pb_pgn b)) (map2 staged_raw (pg_fields (pb_pgn b)) (pb_staged b)) \<and>
    rf_timestamp frame = pb_timestamp b \<and> rf_prio frame = pb_prio b \<and> rf_pgn frame = pg_pgn (pb_pgn b) \<and>
    rf_src frame = pb_src b \<and> rf_dst frame = pb_dst b"
proof -
  let ?fs = "pg_fields (pb_pgn b)"
  obtain buf nb where pack: "pack_fields ?fs (pb_staged b) ([], 0) = Inr (buf, nb)"
    and frame: "rf_data frame = (if nb mod 8 \<noteq> 0 then fst (write_bits buf nb (8 - nb mod 8) (- 1)) else buf)"
      "rf_timestamp frame = pb_timestamp b" "rf_prio frame = pb_prio b" "rf_pgn frame = pg_pgn (pb_pgn b)"
      "rf_src frame = pb_src b" "rf_dst frame = pb_dst b"
    using assms(3) unfolding builder_build_def put_bits_def
    by (auto simp: and_then_eq_Inr_iff Let_def split: option.splits if_splits)
  have packed: "packed buf nb" "nb = total_bits ?fs" and carried: "carries buf 0 ?fs (map2 staged_raw ?fs (pb_staged b))"
    using pack_fields_carries [OF _ _ _ _ pack] assms(1,2) by (auto simp: scalar_message_def staged_ok_def)
  have "carries (rf_data frame) 0 ?fs (map2 staged_raw ?fs (pb_staged b))"
    by (rule carries_cong [OF carried])
      (use packed frame(1) in \<open>simp_all add: write_bits_length write_bits_before\<close>)
  then show ?thesis using frame by simp
qed

lemma built_message_decodes:
  assumes "scalar_message (pb_pgn b)" "staged_ok b" "builder_build b = Inr frame"
    "pick_variant (pb_db b) (rf_pgn frame) (rf_data frame) = Some (pb_pgn b)"
  shows "\<exists>d. decode_frame fo (pb_db b) depth frame = Some (Inr d) \<and>
    dp_timestamp d = pb_timestamp b \<and> dp_prio d = pb_prio b \<and> dp_pgn d = pg_pgn (pb_pgn b) \<and>
    dp_src d = pb_src b \<and> dp_dst d = pb_dst b \<and>
    map df_info (dp_fields d) = pg_fields (pb_pgn b) \<and>
    map df_value (dp_fields d) =
      field_readings fo (pb_db b) (pg_fields (pb_pgn b)) (map2 staged_raw (pg_fields (pb_pgn b)) (pb_staged b)) \<and>
    dp_index_by_order d = build_index_by_order (dp_fields d) \<and> list_all (\<lambda>x. df_repeat_set x = 0) (dp_fields d)"
proof -
  let ?p = "pb_pgn b" and ?sub = "decode_name fo (pb_db b) depth"
  let ?raws = "map2 staged_raw (pg_fields ?p) (pb_staged b)"
  note built = built_payload [OF assms(1-3)]
  have p: "contiguous 0 (pg_fields ?p)" "total_bits (pg_fields ?p) < 2 ^ 32" "pg_set1_start ?p = None"
      "pg_set2_start ?p = None"
    using assms(1) by (auto simp: scalar_message_def)
  define st0 :: "'a walk_state" where
    "st0 = \<lparr>wa_index = 0, wa_cursor = 0, wa_out = [], wa_ctx = decode_context_default, wa_entered = (False, False)\<rparr>"
  obtain st' ds where loop: "decode_loop fo ?sub ?p (rf_data frame) (pb_db b) st0 = Some st'" "wa_out st' = wa_out st0 @ ds"
      "map df_info ds = pg_fields ?p" "list_all (\<lambda>d. df_repeat_set d = 0) ds"
      "map df_value ds = field_readings fo (pb_db b) (pg_fields ?p) (map2 staged_raw (pg_fields ?p) (pb_staged b))"
    using decode_loop_scalar [of ?p "[]" "pg_fields ?p" 0 "rf_data frame" ?raws st0 fo ?sub "pb_db b"] built p
    by (auto simp: st0_def)
  have "decode_fields fo ?sub ?p (rf_data frame) (pb_db b) = Some (ds, fst (wa_entered st'), snd (wa_entered st'))"
    using loop(1,2) unfolding st0_def by (simp add: decode_fields_def)
  then show ?thesis using assms(4) built loop by (simp add: decode_frame_def)
qed

subsection \<open>The index by order\<close>

text \<open>Slot \<open>s\<close> is for the top-level fields of order \<open>s + 1\<close>.\<close>

definition top_level :: "nat \<Rightarrow> 'f decoded_field \<Rightarrow> bool" where
  "top_level s x \<longleftrightarrow> df_repeat_set x = 0 \<and> unat (df_order x) = Suc s"

lemma build_index_snoc: "build_index_by_order (ds @ [x]) = index_step (build_index_by_order ds) (length ds, x)"
  by (simp add: build_index_by_order_def enumerate_append_eq)

lemma build_index_length [simp]: "length (build_index_by_order ds) = 32"
proof (induction ds rule: rev_induct)
  case Nil
  show ?case by (simp add: build_index_by_order_def)
next
  case (snoc x ds)
  then show ?case by (simp add: build_index_snoc index_step_def Let_def)
qed

text \<open>The slot holds the last top-level field of its order among the first 127 fields.\<close>

lemma build_index_slot:
  assumes "s < 32"
  shows "(build_index_by_order ds ! s = - 128 \<and> (\<forall>q < length ds. q < 127 \<longrightarrow> \<not> top_level s (ds ! q))) \<or>
    (\<exists>p < length ds. p < 127 \<and> build_index_by_order ds ! s = int p \<and> top_level s (ds ! p) \<and>
       (\<forall>q < length ds. p < q \<and> q < 127 \<longrightarrow> \<not> top_level s (ds ! q)))"
proof (induction ds rule: rev_induct)
  case Nil
  show ?case using assms by (simp add: build_index_by_order_def)
next
  case (snoc x ds)
  have top: "top_level s x \<Longrightarrow> length ds < 127 \<Longrightarrow> build_index_by_order (ds @ [x]) ! s = int (length ds)"
    using assms by (auto simp: build_index_snoc index_step_def top_level_def Let_def)
  have other: "\<not> (top_level s x \<and> length ds < 127) \<Longrightarrow> build_index_by_order (ds @ [x]) ! s = build_index_by_order ds ! s"
    using assms by (auto simp: build_index_snoc index_step_def top_level_def Let_def nth_list_update)
  show ?case
  proof (cases "top_level s x \<and> length ds < 127")
    case True
    then show ?thesis using top
      by (intro disjI2 exI [of _ "length ds"]) (auto simp: nth_append less_Suc_eq)
  next
    case False
    have old: "ds ! q = (ds @ [x]) ! q" if "q < length ds" for q using that by (simp add: nth_append)
    have new: "\<not> top_level s ((ds @ [x]) ! q)" if "q < length (ds @ [x])" "\<not> q < length ds" "q < 127" for q
      using that False by (auto simp: nth_append less_Suc_eq)
    from snoc.IH show ?thesis
    proof
      assume "build_index_by_order ds ! s = - 128 \<and> (\<forall>q < length ds. q < 127 \<longrightarrow> \<not> top_level s (ds ! q))"
      then show ?thesis using other [OF False] old new by metis
    next
      assume "\<exists>p < length ds. p < 127 \<and> build_index_by_order ds ! s = int p \<and> top_level s (ds ! p) \<and>
        (\<forall>q < length ds. p < q \<and> q < 127 \<longrightarrow> \<not> top_level s (ds ! q))"
      then obtain p where p: "p < length ds" "p < 127" "build_index_by_order ds ! s = int p" "top_level s (ds ! p)"
        "\<And>q. q < length ds \<Longrightarrow> p < q \<Longrightarrow> q < 127 \<Longrightarrow> \<not> top_level s (ds ! q)" by blast
      have "\<forall>q < length (ds @ [x]). p < q \<and> q < 127 \<longrightarrow> \<not> top_level s ((ds @ [x]) ! q)"
        using p(5) old new by metis
      then show ?thesis using other [OF False] p(1-4) old by (intro disjI2 exI [of _ p]) simp
    qed
  qed
qed

text \<open>The fields of the schema are in the order of their numbers, which start at 1.\<close>

definition numbered :: "'f field_info list \<Rightarrow> bool" where
  "numbered fs \<longleftrightarrow> length fs \<le> 32 \<and> list_all (\<lambda>(i, f). unat (fi_order f) = Suc i) (enumerate 0 fs)"

lemma numbered_nth: "numbered fs \<Longrightarrow> i < length fs \<Longrightarrow> unat (fi_order (fs ! i)) = Suc i"
  by (auto simp: numbered_def list_all_length nth_enumerate_eq)

lemma field_at_numbered:
  assumes "numbered fs" "map df_info (dp_fields d) = fs" "list_all (\<lambda>x. df_repeat_set x = 0) (dp_fields d)"
    "dp_index_by_order d = build_index_by_order (dp_fields d)" "i < length fs"
  shows "decoded_field_at d (fs ! i) = Some (dp_fields d ! i)"
proof -
  let ?ds = "dp_fields d"
  have len: "length ?ds = length fs" "length fs \<le> 32" using assms(1,2) by (auto simp: numbered_def dest: arg_cong [of _ _ length])
  have top: "top_level i (?ds ! q) \<longleftrightarrow> q = i" if "q < length ?ds" for q
  proof -
    have "fi_order (df_info (?ds ! q)) = fi_order (fs ! q)" using assms(2) that by (auto simp: nth_map [symmetric])
    then show ?thesis using numbered_nth [OF assms(1), of q] assms(3) that len
      by (auto simp: top_level_def df_order_def list_all_length)
  qed
  have "build_index_by_order ?ds ! i = int i"
    using build_index_slot [of i ?ds] top assms(5) len by force
  then show ?thesis
    using numbered_nth [OF assms(1,5)] assms(4,5) len by (simp add: decoded_field_at_def Let_def)
qed

subsection \<open>A pushed integer comes back\<close>

definition fits_in :: "nat \<Rightarrow> bool \<Rightarrow> i64 \<Rightarrow> bool" where
  "fits_in w sgnd n \<longleftrightarrow> (if sgnd then signed_take_bit (w - 1) n = n else take_bit w n = n)"

text \<open>An integer field without scaling, of which \<open>n\<close> is a value and not a sentinel.\<close>

definition plain_integer :: "'f float_ops \<Rightarrow> 'f field_info \<Rightarrow> i64 \<Rightarrow> bool" where
  "plain_integer fo f n \<longleftrightarrow>
     fi_field_type f \<in> {Some FtNumber, Some FtDecimal, Some FtFieldIndex} \<and>
     fo_eq fo (or_default (fo_one fo) (fi_resolution f)) (fo_one fo) \<and> fi_unit f = None \<and> fi_physical_quantity f = None \<and>
     fo_eq fo (fi_unit_offset f) (fo_zero fo) \<and>
     fo_eq fo (case fi_offset f of Some k \<Rightarrow> fo_of_i64 fo k | None \<Rightarrow> fo_zero fo) (fo_zero fo) \<and>
     fits_in (unat (field_bits f)) (number_signed f (or_default False (fi_signed f))) n \<and>
     Some (take_bit (unat (field_bits f)) n) \<notin> {fi_unknown_value f, fi_out_of_range_value f, fi_reserved_value f}"

lemma all_ones_mask: "all_ones bits = mask (unat bits)"
proof (cases "bits \<ge> 64")
  case True
  then have "64 \<le> unat bits" by (simp add: word_le_nat_alt)
  then have "mask (unat bits) = (- 1 :: u64)" by (intro bit_word_eqI) (auto simp: bit_simps)
  then show ?thesis using True by (simp add: all_ones_def)
next
  case False
  then show ?thesis by (simp add: all_ones_def mask_eq_exp_minus_1)
qed

lemma mask_to_width_take: "mask_to_width v bits = take_bit (unat bits) v"
  by (simp add: mask_to_width_def all_ones_mask take_bit_eq_mask)

lemma stage_value_slot:
  assumes "scalar_field f" "stage_value fo db f v = Inr s"
  shows "scalar_slot (Some s)"
  using assms
  by (cases "the (fi_field_type f)")
    (auto simp: scalar_field_def stage_value_def scalar_slot_def and_then_eq_Inr_iff split: option.splits)

lemma stage_plain_integer:
  assumes "scalar_field f" "plain_integer fo f n" "stage_value fo db f (EvInt n) = Inr s"
  shows "scalar_reading fo db f (staged_raw f (Some s)) = FvInteger n"
proof -
  obtain bl where bl: "fi_bit_length f = Some bl" "field_bits f = bl" "0 < unat bl" "unat bl \<le> 64"
    using assms(1) by (rule scalar_field_length)
  let ?w = "unat bl"
  obtain t where t: "fi_field_type f = Some t" "t \<in> {FtNumber, FtDecimal, FtFieldIndex}"
    using assms(2) by (auto simp: plain_integer_def)
  have "s = Scalar (take_bit ?w n)"
    using assms(3) t bl by (auto simp: stage_value_def value_to_raw_def Let_def mask_to_width_take)
  then have raw: "staged_raw f (Some s) = take_bit ?w n" using bl by (simp add: staged_raw_def)
  have "signed_take_bit (?w - 1) (take_bit ?w n) = signed_take_bit (?w - 1) n"
    using bl(3) by (subst signed_take_bit_take_bit) (auto simp del: signed_take_bit_0)
  then have "ex_value (raw_extract ?w sgnd (take_bit ?w n)) = n" if "fits_in ?w sgnd n" for sgnd
    using that by (auto simp: raw_extract_def fits_in_def split: if_splits)
  moreover have "sentinel_field_value f (raw_extract ?w sgnd (take_bit ?w n)) = None" for sgnd
    using assms(2) bl by (auto simp: plain_integer_def sentinel_field_value_def classify_sentinel_def raw_extract_def Let_def)
  ultimately show ?thesis
    using assms(2) t bl raw by (auto simp: plain_integer_def scalar_reading_def number_value_def Let_def)
qed

lemma builder_push_staged:
  assumes "numbered (pg_fields (pb_pgn b))" "i < length (pg_fields (pb_pgn b))"
    "builder_push fo (pg_fields (pb_pgn b) ! i) v b = Inr b'"
  shows "\<exists>s. stage_value fo (pb_db b) (pg_fields (pb_pgn b) ! i) v = Inr s \<and> b' = b\<lparr>pb_staged := (pb_staged b)[i := Some s]\<rparr>"
  using assms(3) numbered_nth [OF assms(1,2)] assms(2)
  by (auto simp: builder_push_def stage_at_def and_then_eq_Inr_iff Let_def)

lemma contiguous_scalar: "contiguous off fs \<Longrightarrow> f \<in> set fs \<Longrightarrow> scalar_field f"
  by (induction off fs rule: contiguous.induct) auto

lemma builder_push_ok:
  assumes "numbered (pg_fields (pb_pgn b))" "i < length (pg_fields (pb_pgn b))" "scalar_message (pb_pgn b)" "staged_ok b"
    "builder_push fo (pg_fields (pb_pgn b) ! i) v b = Inr b'"
  shows "staged_ok b'"
proof -
  obtain s where s: "stage_value fo (pb_db b) (pg_fields (pb_pgn b) ! i) v = Inr s"
      "b' = b\<lparr>pb_staged := (pb_staged b)[i := Some s]\<rparr>"
    using builder_push_staged [OF assms(1,2,5)] by blast
  have "scalar_field (pg_fields (pb_pgn b) ! i)"
    using assms(2,3) contiguous_scalar [of 0 "pg_fields (pb_pgn b)"] by (auto simp: scalar_message_def)
  then have "scalar_slot (Some s)" using s(1) by (rule stage_value_slot)
  then show ?thesis using assms(2,4) s(2) by (auto simp: staged_ok_def list_all_length nth_list_update)
qed

lemma for_pgn_ok: "staged_ok (for_pgn db p)"
  by (simp add: staged_ok_def for_pgn_def scalar_slot_def list_all_length)

subsection \<open>A message to try them on\<close>

text \<open>A proprietary message of nine bytes, with whole numbers for \<open>f64\<close>.\<close>

definition demo_fo :: "int float_ops" where
  "demo_fo =
     \<lparr>fo_zero = 0, fo_one = 1, fo_eq = (=), fo_le = (\<le>), fo_add = (+), fo_sub = (-), fo_mul = (*), fo_div = (div),
      fo_round = (\<lambda>x. x), fo_finite = (\<lambda>_. True), fo_of_i64 = sint, fo_to_i64 = word_of_int, fo_to_u32 = (\<lambda>x. word_of_int (max 0 x)),
      fo_of_f32 = uint, fo_to_f32 = word_of_int, fo_i64_to_f32 = ucast, fo_nan = 0, fo_parse = (\<lambda>_. None), fo_lit = (\<lambda>_. 0)\<rparr>"

definition demo_field :: "u8 \<Rightarrow> string \<Rightarrow> u32 \<Rightarrow> u32 \<Rightarrow> field_type \<Rightarrow> int field_info" where
  "demo_field ord nm bl off t =
     \<lparr>fi_order = ord, fi_id = nm, fi_name = nm, fi_bit_length = Some bl, fi_bit_offset = Some off, fi_resolution = None,
      fi_signed = None, fi_offset = None, fi_unknown_value = None, fi_out_of_range_value = None, fi_reserved_value = None,
      fi_unit = None, fi_physical_quantity = None, fi_field_type = Some t, fi_lookup_enumeration = None,
      fi_lookup_bit_enumeration = None, fi_lookup_indirect_enumeration = None, fi_lookup_indirect_field_order = None,
      fi_lookup_field_type_enumeration = None, fi_match_value = None, fi_part_of_primary_key = None, fi_condition = None,
      fi_unit_offset = 0, fi_precision = 0, fi_is_dynamic_length_marker = False\<rparr>"

definition demo_fields :: "int field_info list" where
  "demo_fields =
     [(demo_field 1 ''Manufacturer Code'' 11 0 FtLookup)\<lparr>fi_match_value := Some 1857\<rparr>,
      demo_field 2 ''Reserved'' 2 11 FtReserved,
      (demo_field 3 ''Industry Code'' 3 13 FtLookup)\<lparr>fi_match_value := Some 4\<rparr>,
      (demo_field 4 ''Instance'' 8 16 FtNumber)\<lparr>fi_unknown_value := Some 255\<rparr>,
      (demo_field 5 ''Trim'' 16 24 FtNumber)\<lparr>fi_signed := Some True, fi_unknown_value := Some 0x7fff\<rparr>,
      (demo_field 6 ''Elapsed'' 32 40 FtTime)\<lparr>fi_unknown_value := Some 0xffffffff\<rparr>]"

definition demo_pgn :: "int pgn_info" where
  "demo_pgn =
     \<lparr>pg_pgn = 130840, pg_id = ''demoStatus'', pg_description = ''Demo: Status'', pg_packet_type = PkFast, pg_fallback = None,
      pg_priority = Some 3, pg_length = Some 9, pg_fields = demo_fields, pg_set1_size = None, pg_set1_start = None,
      pg_set1_count = None, pg_set2_size = None, pg_set2_start = None, pg_set2_count = None, pg_id_is_pinned = False\<rparr>"

definition demo_db :: "int pgn_database" where
  "demo_db =
     \<lparr>db_schema_version = ''2.5.0'', db_version = ''7.1.0'', db_schema_hash = 1, db_units = UnitsMetric, db_pgns = [demo_pgn],
      db_pgn_index = [(130840, [0])], db_lookups = [], db_bit_lookups = [], db_indirect_lookups = [],
      db_field_type_lookups = [], db_dispatch = (\<lambda>_ _. Some 0), db_catchall = (\<lambda>_. None)\<rparr>"

definition demo_builder :: "int pgn_builder" where
  "demo_builder = for_pgn demo_db demo_pgn"

definition demo_sent :: "int pgn_builder" where
  "demo_sent = demo_builder\<lparr>pb_staged := [None, None, None, None, Some (Scalar 0xfffb), None]\<rparr>"

definition demo_frame_sent :: raw_frame where
  "demo_frame_sent =
     \<lparr>rf_timestamp = None, rf_prio = 3, rf_pgn = 130840, rf_src = 0, rf_dst = 255,
      rf_data = [0x41, 0x9f, 0xff, 0xfb, 0xff, 0xff, 0xff, 0xff, 0xff]\<rparr>"

lemma demo_layout: "contiguous 0 demo_fields" "total_bits demo_fields = 72" "numbered demo_fields" "length demo_fields = 6"
  by code_simp+

lemma demo_variant:
  "pb_db demo_sent = demo_db" "pb_pgn demo_sent = demo_pgn" "pb_db demo_builder = demo_db" "pb_pgn demo_builder = demo_pgn"
  "pick_variant demo_db (rf_pgn demo_frame_sent) (rf_data demo_frame_sent) = Some demo_pgn" "pg_fields demo_pgn = demo_fields"
  by (simp_all add: demo_sent_def demo_builder_def for_pgn_def pick_variant_def demo_db_def demo_pgn_def)

lemma demo_facts:
  "scalar_message demo_pgn" "staged_ok demo_builder" "staged_ok demo_sent"
proof -
  show ok: "staged_ok demo_builder" unfolding demo_builder_def by (rule for_pgn_ok)
  show "scalar_message demo_pgn" unfolding scalar_message_def demo_variant by (simp add: demo_layout demo_pgn_def)
  show "staged_ok demo_sent" unfolding staged_ok_def demo_variant by (simp add: demo_layout demo_sent_def scalar_slot_def)
qed

lemma demo_trim:
  "plain_integer demo_fo (demo_fields ! 4) (- 5)"
  "stage_value demo_fo demo_db (demo_fields ! 4) (EvInt (- 5)) = Inr (Scalar 0xfffb)"
  "unat (fi_order (demo_fields ! 4)) = 5" "(replicate 6 None)[4 := x] = [None, None, None, None, x, None]"
proof -
  show "(replicate 6 None)[4 := x] = [None, None, None, None, x, None]" by (simp add: numeral_eq_Suc)
qed code_simp+

lemma demo_built: "builder_build demo_sent = Inr demo_frame_sent"
  by code_simp

lemma demo_pushed: "builder_push demo_fo (demo_fields ! 4) (EvInt (- 5)) demo_builder = Inr demo_sent"
proof -
  have "pb_staged demo_builder = replicate 6 None" by (simp add: demo_builder_def for_pgn_def demo_variant demo_layout)
  then have "demo_builder\<lparr>pb_staged := (pb_staged demo_builder)[4 := Some (Scalar 0xfffb)]\<rparr> = demo_sent"
    by (simp add: demo_sent_def demo_trim)
  then show ?thesis
    unfolding builder_push_def stage_at_def demo_variant Let_def demo_trim demo_layout by (simp add: demo_trim demo_variant)
qed

lemma demo_readings:
  "field_readings demo_fo demo_db demo_fields (map2 staged_raw demo_fields (pb_staged demo_sent)) =
     [FvLookup 1857 None, FvReserved 3 [] 2, FvLookup 4 None, FvNotAvailable, FvInteger (- 5), FvNotAvailable]"
  by code_simp

subsection \<open>Properties\<close>

text \<open>
  C9: A message built over a PGN of contiguous scalar fields decodes: the header is the builder's, the fields are those of the schema in
  order, and the value of each is the reading of the bits staged for it, or of its default when nothing was staged.
\<close>

theorem message_roundtrip:
  assumes "scalar_message (pb_pgn b)" "staged_ok b" "builder_build b = Inr frame"
    "pick_variant (pb_db b) (rf_pgn frame) (rf_data frame) = Some (pb_pgn b)"
  shows "\<exists>d. decode_frame fo (pb_db b) depth frame = Some (Inr d) \<and>
    dp_timestamp d = pb_timestamp b \<and> dp_prio d = pb_prio b \<and> dp_pgn d = pg_pgn (pb_pgn b) \<and>
    dp_src d = pb_src b \<and> dp_dst d = pb_dst b \<and>
    map df_info (dp_fields d) = pg_fields (pb_pgn b) \<and>
    map df_value (dp_fields d) =
      field_readings fo (pb_db b) (pg_fields (pb_pgn b)) (map2 staged_raw (pg_fields (pb_pgn b)) (pb_staged b))"
  using built_message_decodes [OF assms, of fo depth] by blast

text \<open>
  C15: An integer pushed for a field without scaling is what the accessor of the decoded message gives for that field, when the integer
  fits the width of the field and is none of its sentinels.
\<close>

theorem pushed_integer_decodes:
  assumes "scalar_message (pb_pgn b)" "numbered (pg_fields (pb_pgn b))" "staged_ok b"
    "i < length (pg_fields (pb_pgn b))" "plain_integer fo (pg_fields (pb_pgn b) ! i) n"
    "builder_push fo (pg_fields (pb_pgn b) ! i) (EvInt n) b = Inr b'" "builder_build b' = Inr frame"
    "pick_variant (pb_db b) (rf_pgn frame) (rf_data frame) = Some (pb_pgn b)"
  shows "\<exists>d. decode_frame fo (pb_db b) depth frame = Some (Inr d) \<and>
    map_option df_value (decoded_field_at d (pg_fields (pb_pgn b) ! i)) = Some (FvInteger n)"
proof -
  let ?fs = "pg_fields (pb_pgn b)"
  obtain s where s: "stage_value fo (pb_db b) (?fs ! i) (EvInt n) = Inr s" "b' = b\<lparr>pb_staged := (pb_staged b)[i := Some s]\<rparr>"
    using builder_push_staged [OF assms(2,4,6)] by blast
  have ok: "staged_ok b'" by (rule builder_push_ok [OF assms(2,4,1,3,6)])
  have b': "pb_pgn b' = pb_pgn b" "pb_db b' = pb_db b" "pb_staged b' ! i = Some s" "i < length (pb_staged b')"
    using s(2) assms(3,4) by (simp_all add: staged_ok_def)
  obtain d where d: "decode_frame fo (pb_db b) depth frame = Some (Inr d)" "map df_info (dp_fields d) = ?fs"
      "map df_value (dp_fields d) = field_readings fo (pb_db b) ?fs (map2 staged_raw ?fs (pb_staged b'))"
      "dp_index_by_order d = build_index_by_order (dp_fields d)" "list_all (\<lambda>x. df_repeat_set x = 0) (dp_fields d)"
    using built_message_decodes [of b' frame fo depth] assms(1,7,8) ok b' by auto
  have len: "i < length (dp_fields d)" using d(2) assms(4) by (metis length_map)
  have "scalar_field (?fs ! i)"
    using assms(1,4) contiguous_scalar [of 0 ?fs] by (auto simp: scalar_message_def)
  then have "scalar_reading fo (pb_db b) (?fs ! i) (staged_raw (?fs ! i) (Some s)) = FvInteger n"
    by (rule stage_plain_integer [OF _ assms(5) s(1)])
  moreover have "df_value (dp_fields d ! i) = map df_value (dp_fields d) ! i" using len by simp
  ultimately have "df_value (dp_fields d ! i) = FvInteger n"
    unfolding d(3) using assms(4) b' by (simp add: field_readings_def)
  then show ?thesis using d(1) field_at_numbered [OF assms(2) d(2,5,4) assms(4)] by auto
qed

lemma message_roundtrip_witness:
  "\<exists>d. decode_frame demo_fo demo_db 1 demo_frame_sent = Some (Inr d) \<and>
    dp_timestamp d = None \<and> dp_prio d = 3 \<and> dp_pgn d = 130840 \<and> dp_src d = 0 \<and> dp_dst d = 255 \<and>
    map df_info (dp_fields d) = demo_fields \<and>
    map df_value (dp_fields d) =
      [FvLookup 1857 None, FvReserved 3 [] 2, FvLookup 4 None, FvNotAvailable, FvInteger (- 5), FvNotAvailable]"
proof -
  have sel: "pb_timestamp demo_sent = None" "pb_prio demo_sent = 3" "pb_src demo_sent = 0" "pb_dst demo_sent = 255"
    "pg_pgn demo_pgn = 130840"
    by (simp_all add: demo_sent_def demo_builder_def for_pgn_def demo_pgn_def)
  show ?thesis
    using message_roundtrip [of demo_sent demo_frame_sent demo_fo 1, OF _ demo_facts(3) demo_built] demo_facts(1)
    unfolding demo_variant demo_readings sel by simp
qed

lemma pushed_integer_decodes_witness:
  "\<exists>d. decode_frame demo_fo demo_db 1 demo_frame_sent = Some (Inr d) \<and>
    map_option df_value (decoded_field_at d (demo_fields ! 4)) = Some (FvInteger (- 5))"
  using pushed_integer_decodes [of demo_builder 4 demo_fo "- 5" demo_sent demo_frame_sent 1] demo_facts demo_layout demo_trim
    demo_pushed demo_built
  unfolding demo_variant by simp

end
