(* ===== verification/Source.thy ===== *)
theory Source
  imports Message Fast_Reassembly
begin

section \<open>The decoder over a frame source (canboat-core/src/source.rs)\<close>

text \<open>
  \<open>Decoder\<close> pulls frames from a source, puts fast packets together and decodes what is whole.  \<open>FrameSource\<close> is a trait
  that clients implement: \<open>read\<close> is an argument, the channel implementation is \<open>channel\_read\<close>.  A source that never ends
  and never holds a whole message makes \<open>next\<close> run forever: the result is then \<open>None\<close>.
\<close>

datatype source_error = IoError string

text \<open>\<open>recv\<close> of a channel whose sender has queued these frames and is gone.\<close>

fun channel_read :: "raw_frame list \<Rightarrow> (source_error + raw_frame option) \<times> raw_frame list" where
  "channel_read (f # fs) = (Inr (Some f), fs)"
| "channel_read [] = (Inr None, [])"

definition frame_type_of :: "packet_kind \<Rightarrow> frame_packet_type" where
  "frame_type_of k = (case k of PkFast \<Rightarrow> Fast | PkSingle \<Rightarrow> Single | _ \<Rightarrow> Other)"

definition source_packet_type :: "'f pgn_database \<Rightarrow> u32 \<Rightarrow> frame_packet_type" where
  "source_packet_type db pgn =
     (case (case first_pgn db pgn of Some p \<Rightarrow> Some p | None \<Rightarrow> fallback_pgn db pgn) of
        Some p \<Rightarrow> frame_type_of (pg_packet_type p)
      | None \<Rightarrow> Other)"

record 's decoder =
  dr_source :: 's
  dr_reasm :: reassembler

definition decoder_new :: "'s \<Rightarrow> 's decoder" where
  "decoder_new source = \<lparr>dr_source = source, dr_reasm = reassembler_new\<rparr>"

datatype 'a turn = Yield 'a | Continue

text \<open>What becomes of one frame of the source; \<open>None\<close> when the decoder of the schema does not return.\<close>

definition decoder_turn ::
  "'f float_ops \<Rightarrow> 'f pgn_database \<Rightarrow> nat \<Rightarrow> raw_frame \<Rightarrow> reassembler \<Rightarrow> ('f decoded_pgn turn \<times> reassembler) option" where
  "decoder_turn fo db depth frame reasm =
     (let (reasm, out) = push reasm frame (source_packet_type db (rf_pgn frame)) in
      case (case out of PassThrough f \<Rightarrow> Some f | Complete f \<Rightarrow> Some f | Partial \<Rightarrow> None | Error e \<Rightarrow> None) of
        None \<Rightarrow> Some (Continue, reasm)
      | Some f \<Rightarrow>
          (case decode_frame fo db depth f of
             None \<Rightarrow> None
           | Some (Inr d) \<Rightarrow> Some (Yield d, reasm)
           | Some (Inl e) \<Rightarrow> Some (Continue, reasm)))"

partial_function (option) decoder_next ::
  "('s \<Rightarrow> (source_error + raw_frame option) \<times> 's) \<Rightarrow> 'f float_ops \<Rightarrow> 'f pgn_database \<Rightarrow> nat \<Rightarrow> 's decoder \<Rightarrow>
   ((source_error + 'f decoded_pgn) option \<times> 's decoder) option" where
  "decoder_next read fo db depth dr =
     (case read (dr_source dr) of
        (Inl e, s) \<Rightarrow> Some (Some (Inl e), dr\<lparr>dr_source := s\<rparr>)
      | (Inr None, s) \<Rightarrow> Some (None, dr\<lparr>dr_source := s\<rparr>)
      | (Inr (Some frame), s) \<Rightarrow>
          (case decoder_turn fo db depth frame (dr_reasm dr) of
             None \<Rightarrow> None
           | Some (Yield d, reasm) \<Rightarrow> Some (Some (Inr d), \<lparr>dr_source = s, dr_reasm = reasm\<rparr>)
           | Some (Continue, reasm) \<Rightarrow> decoder_next read fo db depth \<lparr>dr_source = s, dr_reasm = reasm\<rparr>))"

subsection \<open>A burst on its way to a decoded message\<close>

text \<open>The frames of a fast packet that carries the payload of \<open>frame\<close>.\<close>

definition burst_frames :: "u8 \<Rightarrow> raw_frame \<Rightarrow> raw_frame list" where
  "burst_frames seq frame = map (\<lambda>bs. frame\<lparr>rf_data := bs\<rparr>) (fast_frames seq (rf_data frame))"

text \<open>Its frames in order, one after the other.\<close>

lemma push_in_order:
  assumes "rf_pgn frame \<noteq> PGN_ISO_TP_CM" "rf_pgn frame \<noteq> PGN_ISO_TP_DT"
    and "0 < length (rf_data frame)" "length (rf_data frame) \<le> 223" "k < frame_count (length (rf_data frame))"
    and "reassembler_wf r" "burst_state r (rf_pgn frame, rf_src frame, push_bit 5 seq) (rf_data frame) {..<k}"
  obtains r' where "reassembler_wf r'"
    "Suc k < frame_count (length (rf_data frame)) \<longrightarrow>
       burst_state r' (rf_pgn frame, rf_src frame, push_bit 5 seq) (rf_data frame) {..<Suc k}"
    "push r (frame\<lparr>rf_data := fragment seq (rf_data frame) k\<rparr>) Fast =
       (r', if Suc k = frame_count (length (rf_data frame)) then Complete frame else Partial)"
proof -
  let ?data = "rf_data frame" and ?key = "(rf_pgn frame, rf_src frame, push_bit 5 seq)"
  let ?f = "frame\<lparr>rf_data := fragment seq (rf_data frame) k\<rparr>" and ?n = "frame_count (length (rf_data frame))"
  have ne: "fragment seq ?data k \<noteq> []" using length_fragment [of seq ?data k] by (metis list.size(3) zero_neq_numeral)
  have burst: "of_burst ?key (?f, Fast)"
    using assms(1,2) ne by (simp add: of_burst_def is_fragment_def frame_key_def fragment_seq)
  obtain r' out where p: "push r ?f Fast = (r', out)" by fastforce
  have step: "if insert k {..<k} = {..<?n} then out = Complete (?f\<lparr>rf_data := ?data\<rparr>)
      else out = Partial \<and> burst_state r' ?key ?data (insert k {..<k})"
    using burst_state_step [OF assms(6) burst assms(7,3,4,5)] assms(5) unfolding fst_conv snd_conv p by auto
  have ins: "insert k {..<k} = {..<Suc k}" by auto
  have full: "?f\<lparr>rf_data := ?data\<rparr> = frame" by simp
  have "reassembler_wf r'" using push_wf [OF assms(6), of ?f Fast] p by simp
  moreover have "Suc k < ?n \<longrightarrow> burst_state r' ?key ?data {..<Suc k}" using step unfolding ins by auto
  moreover have "out = (if Suc k = ?n then Complete frame else Partial)" using step assms(5) unfolding ins full by (auto split: if_splits)
  ultimately show ?thesis using that p by blast
qed

lemma decoder_next_fragment:
  assumes "source_packet_type db (rf_pgn frame) = Fast" "rf_pgn frame \<noteq> PGN_ISO_TP_CM" "rf_pgn frame \<noteq> PGN_ISO_TP_DT"
    and "0 < length (rf_data frame)" "length (rf_data frame) \<le> 223" "k < frame_count (length (rf_data frame))"
    and "reassembler_wf r" "burst_state r (rf_pgn frame, rf_src frame, push_bit 5 seq) (rf_data frame) {..<k}"
    and "decode_frame fo db depth frame = Some (Inr d)"
  obtains r' where "reassembler_wf r'"
    "Suc k < frame_count (length (rf_data frame)) \<longrightarrow>
       burst_state r' (rf_pgn frame, rf_src frame, push_bit 5 seq) (rf_data frame) {..<Suc k}"
    "decoder_next channel_read fo db depth
       \<lparr>dr_source = frame\<lparr>rf_data := fragment seq (rf_data frame) k\<rparr> # src, dr_reasm = r\<rparr> =
     (if Suc k = frame_count (length (rf_data frame)) then Some (Some (Inr d), \<lparr>dr_source = src, dr_reasm = r'\<rparr>)
      else decoder_next channel_read fo db depth \<lparr>dr_source = src, dr_reasm = r'\<rparr>)"
proof -
  let ?f = "frame\<lparr>rf_data := fragment seq (rf_data frame) k\<rparr>" and ?n = "frame_count (length (rf_data frame))"
  obtain r' where r': "reassembler_wf r'"
    "Suc k < ?n \<longrightarrow> burst_state r' (rf_pgn frame, rf_src frame, push_bit 5 seq) (rf_data frame) {..<Suc k}"
    "push r ?f Fast = (r', if Suc k = ?n then Complete frame else Partial)"
    by (rule push_in_order [OF assms(2-8)])
  have "decoder_next channel_read fo db depth \<lparr>dr_source = ?f # src, dr_reasm = r\<rparr> =
      (if Suc k = ?n then Some (Some (Inr d), \<lparr>dr_source = src, dr_reasm = r'\<rparr>)
       else decoder_next channel_read fo db depth \<lparr>dr_source = src, dr_reasm = r'\<rparr>)"
    using assms(1,9) r'(3)
    by (simp add: decoder_next.simps [of _ _ _ _ "\<lparr>dr_source = ?f # src, dr_reasm = r\<rparr>"] decoder_turn_def)
  then show ?thesis using that r' by blast
qed

lemma decoder_next_burst:
  assumes "source_packet_type db (rf_pgn frame) = Fast" "rf_pgn frame \<noteq> PGN_ISO_TP_CM" "rf_pgn frame \<noteq> PGN_ISO_TP_DT"
    and "0 < length (rf_data frame)" "length (rf_data frame) \<le> 223"
    and "decode_frame fo db depth frame = Some (Inr d)"
  shows "reassembler_wf r \<Longrightarrow>
    burst_state r (rf_pgn frame, rf_src frame, push_bit 5 seq) (rf_data frame) {..<k} \<Longrightarrow>
    k < frame_count (length (rf_data frame)) \<Longrightarrow>
    \<exists>r'. reassembler_wf r' \<and>
      decoder_next channel_read fo db depth
        \<lparr>dr_source = map (\<lambda>i. frame\<lparr>rf_data := fragment seq (rf_data frame) i\<rparr>) [k..<frame_count (length (rf_data frame))] @ src,
         dr_reasm = r\<rparr> = Some (Some (Inr d), \<lparr>dr_source = src, dr_reasm = r'\<rparr>)"
proof (induction "frame_count (length (rf_data frame)) - k" arbitrary: k r)
  case (Suc m)
  let ?n = "frame_count (length (rf_data frame))"
  let ?fs = "\<lambda>k. map (\<lambda>i. frame\<lparr>rf_data := fragment seq (rf_data frame) i\<rparr>) [k..<?n]"
  have upt: "?fs k = frame\<lparr>rf_data := fragment seq (rf_data frame) k\<rparr> # ?fs (Suc k)"
    using Suc.prems(3) by (simp add: upt_conv_Cons)
  obtain r' where r': "reassembler_wf r'"
    "Suc k < ?n \<longrightarrow> burst_state r' (rf_pgn frame, rf_src frame, push_bit 5 seq) (rf_data frame) {..<Suc k}"
    "decoder_next channel_read fo db depth \<lparr>dr_source = ?fs k @ src, dr_reasm = r\<rparr> =
     (if Suc k = ?n then Some (Some (Inr d), \<lparr>dr_source = ?fs (Suc k) @ src, dr_reasm = r'\<rparr>)
      else decoder_next channel_read fo db depth \<lparr>dr_source = ?fs (Suc k) @ src, dr_reasm = r'\<rparr>)"
    unfolding upt append_Cons
    by (rule decoder_next_fragment [where src = "?fs (Suc k) @ src", OF assms(1-5) Suc.prems(3,1,2) assms(6)])
  show ?case
  proof (cases "Suc k = ?n")
    case True
    then show ?thesis using r'(1,3) by auto
  next
    case False
    then have "Suc k < ?n" using Suc.prems(3) by simp
    then have "\<exists>r''. reassembler_wf r'' \<and>
        decoder_next channel_read fo db depth \<lparr>dr_source = ?fs (Suc k) @ src, dr_reasm = r'\<rparr> =
          Some (Some (Inr d), \<lparr>dr_source = src, dr_reasm = r''\<rparr>)"
      using Suc.hyps(1) [of "Suc k" r'] Suc.hyps(2) r'(1,2) by simp
    then show ?thesis using r'(3) False by simp
  qed
qed simp

subsection \<open>Properties\<close>

text \<open>
  C1: A message that is built, split into the frames of a fast packet and read back through a decoder comes out as one decoded message with the
  header of the builder and the reading of what was staged for each field; the frames behind it are left to the next call.
\<close>

theorem decoder_reads_built_message:
  assumes "scalar_message (pb_pgn b)" "staged_ok b" "builder_build b = Inr frame"
    "pick_variant (pb_db b) (rf_pgn frame) (rf_data frame) = Some (pb_pgn b)"
    and "source_packet_type (pb_db b) (rf_pgn frame) = Fast" "rf_pgn frame \<noteq> PGN_ISO_TP_CM" "rf_pgn frame \<noteq> PGN_ISO_TP_DT"
    and "0 < length (rf_data frame)" "length (rf_data frame) \<le> 223"
    and "reassembler_wf r" "find_slot (ra_slots r) (rf_pgn frame) (rf_src frame) (push_bit 5 seq) = None"
  shows "\<exists>d r'. decoder_next channel_read fo (pb_db b) depth \<lparr>dr_source = burst_frames seq frame @ src, dr_reasm = r\<rparr> =
      Some (Some (Inr d), \<lparr>dr_source = src, dr_reasm = r'\<rparr>) \<and> reassembler_wf r' \<and>
    dp_prio d = pb_prio b \<and> dp_pgn d = pg_pgn (pb_pgn b) \<and> dp_src d = pb_src b \<and> dp_dst d = pb_dst b \<and>
    map df_info (dp_fields d) = pg_fields (pb_pgn b) \<and>
    map df_value (dp_fields d) =
      field_readings fo (pb_db b) (pg_fields (pb_pgn b)) (map2 staged_raw (pg_fields (pb_pgn b)) (pb_staged b))"
proof -
  obtain d where d: "decode_frame fo (pb_db b) depth frame = Some (Inr d)"
    and fields: "dp_prio d = pb_prio b" "dp_pgn d = pg_pgn (pb_pgn b)" "dp_src d = pb_src b" "dp_dst d = pb_dst b"
      "map df_info (dp_fields d) = pg_fields (pb_pgn b)"
      "map df_value (dp_fields d) =
        field_readings fo (pb_db b) (pg_fields (pb_pgn b)) (map2 staged_raw (pg_fields (pb_pgn b)) (pb_staged b))"
    using built_message_decodes [OF assms(1-4), of fo depth] by blast
  have "burst_state r (rf_pgn frame, rf_src frame, push_bit 5 seq) (rf_data frame) {..<0}"
    using assms(11) by (simp add: burst_state_def find_key_def)
  then obtain r' where "reassembler_wf r'"
    "decoder_next channel_read fo (pb_db b) depth
       \<lparr>dr_source = map (\<lambda>i. frame\<lparr>rf_data := fragment seq (rf_data frame) i\<rparr>) [0..<frame_count (length (rf_data frame))] @ src,
        dr_reasm = r\<rparr> = Some (Some (Inr d), \<lparr>dr_source = src, dr_reasm = r'\<rparr>)"
    using decoder_next_burst [OF assms(5-9) d assms(10), of seq 0 src] by (auto simp: frame_count_def)
  moreover have "burst_frames seq frame =
      map (\<lambda>i. frame\<lparr>rf_data := fragment seq (rf_data frame) i\<rparr>) [0..<frame_count (length (rf_data frame))]"
    using fast_frames_eq [OF assms(9,8)] by (simp add: burst_frames_def)
  ultimately show ?thesis using fields by auto
qed

lemma decoder_reads_built_message_witness:
  "\<exists>d r'. decoder_next channel_read demo_fo demo_db 1 \<lparr>dr_source = burst_frames 0 demo_frame_sent @ [], dr_reasm = reassembler_new\<rparr> =
      Some (Some (Inr d), \<lparr>dr_source = [], dr_reasm = r'\<rparr>) \<and> reassembler_wf r' \<and>
    dp_prio d = 3 \<and> dp_pgn d = 130840 \<and> dp_src d = 0 \<and> dp_dst d = 255 \<and>
    map df_info (dp_fields d) = demo_fields \<and>
    map df_value (dp_fields d) =
      [FvLookup 1857 None, FvReserved 3 [] 2, FvLookup 4 None, FvNotAvailable, FvInteger (- 5), FvNotAvailable]"
proof -
  have sel: "pb_prio demo_sent = 3" "pb_src demo_sent = 0" "pb_dst demo_sent = 255" "pg_pgn demo_pgn = 130840"
    by (simp_all add: demo_sent_def demo_builder_def for_pgn_def demo_pgn_def)
  have fast: "source_packet_type demo_db (rf_pgn demo_frame_sent) = Fast" by code_simp
  have frame: "rf_pgn demo_frame_sent = 130840" "length (rf_data demo_frame_sent) = 9" by (simp_all add: demo_frame_sent_def)
  have free: "find_slot (ra_slots reassembler_new) p s q = None" for p s q
    by (simp add: find_slot_def position_None_iff reassembler_new_def slot_default_def)
  show ?thesis
    using decoder_reads_built_message [of demo_sent demo_frame_sent reassembler_new 0 demo_fo 1 "[]", OF _ demo_facts(3) demo_built]
      demo_facts(1) fast reassembler_wf_new free frame
    unfolding demo_variant demo_readings sel by (simp add: PGN_ISO_TP_CM_def PGN_ISO_TP_DT_def)
qed

end
