(* ===== verification/Strings.thy ===== *)
theory Strings
  imports Message
begin

section \<open>Text fields come back (encode.rs against decode.rs)\<close>

text \<open>
  The three string types, staged by the encoder and read by the decoder from a payload that holds the staged bytes at a byte boundary.
  The decoder cuts padding off the end, so the text must not end in a padding character; a fixed string also ends at its first NUL.
\<close>

subsection \<open>UTF-8 bytes and padding\<close>

lemma utf8_char_last:
  assumes "is_scalar c" "\<not> is_padding c"
  shows "\<not> pad_byte (last (utf8_char c))"
proof -
  have "\<exists>n < 256. n \<notin> {0, 64, 32, 255} \<and> last (utf8_char c) = word_of_nat n"
  proof (cases "c < 0x80")
    case True
    then show ?thesis using assms(2) by (intro exI [of _ c]) (auto simp: utf8_char_def is_padding_def)
  next
    case False
    then have "last (utf8_char c) = word_of_nat (0x80 + c mod 64)" by (simp add: utf8_char_def)
    moreover have "c mod 64 < 64" by simp
    ultimately show ?thesis by (intro exI [of _ "0x80 + c mod 64"]) auto
  qed
  then show ?thesis by (auto simp: pad_byte_def word_unat_eq_iff unat_u8_of_nat)
qed

lemma utf8_char_nonzero:
  assumes "is_scalar c" "c \<noteq> 0" "b \<in> set (utf8_char c)"
  shows "b \<noteq> 0"
proof -
  have nz: "(word_of_nat n :: u8) \<noteq> 0" if "0 < n" "n < 256" for n
    using that by (simp add: word_unat_eq_iff unat_u8_of_nat)
  have a: "c div 262144 < 5" using assms(1) by (auto simp: is_scalar_def)
  have m: "c mod 64 < 64" "c div 64 mod 64 < 64" "c div 4096 mod 64 < 64" by simp_all
  consider "c < 0x80" | "0x80 \<le> c" "c < 0x800" | "0x800 \<le> c" "c < 0x10000" | "0x10000 \<le> c" by linarith
  then obtain n where "b = word_of_nat n" "0 < n" "n < 256"
  proof cases
    case 1
    then show thesis using assms(2,3) that [of c] by (simp add: utf8_char_def)
  next
    case 2
    then have "c div 64 < 32" by auto
    then show thesis using 2 assms(3) m(1) that [of "0xC0 + c div 64"] that [of "0x80 + c mod 64"]
      by (auto simp: utf8_char_def)
  next
    case 3
    then have "c div 4096 < 16" by auto
    then show thesis using 3 assms(3) m(1,2) that [of "0xE0 + c div 4096"] that [of "0x80 + c div 64 mod 64"] that [of "0x80 + c mod 64"]
      by (auto simp: utf8_char_def)
  next
    case 4
    then show thesis using assms(3) a m that [of "0xF0 + c div 262144"] that [of "0x80 + c div 4096 mod 64"]
        that [of "0x80 + c div 64 mod 64"] that [of "0x80 + c mod 64"]
      by (auto simp: utf8_char_def)
  qed
  then show ?thesis using nz by simp
qed

definition clean_text :: "chars \<Rightarrow> bool" where
  "clean_text s \<longleftrightarrow> s \<noteq> [] \<and> list_all is_scalar s \<and> \<not> is_padding (last s)"

lemma trim_clean_text: "clean_text s \<Longrightarrow> trim_string_padding s = s"
  by (cases s rule: rev_cases) (auto simp: clean_text_def trim_string_padding_def)

lemma clean_text_bytes: "clean_text s \<Longrightarrow> utf8_bytes s \<noteq> []"
  by (cases s) (auto simp: clean_text_def utf8_bytes_def)

lemma trim_clean_bytes:
  assumes "clean_text s"
  shows "trim_pad_bytes (utf8_bytes s) = utf8_bytes s"
proof -
  obtain t c where s: "s = t @ [c]" using assms by (cases s rule: rev_cases) (auto simp: clean_text_def)
  then have c: "\<not> pad_byte (last (utf8_char c))" using assms by (intro utf8_char_last) (auto simp: clean_text_def)
  obtain us u where u: "utf8_char c = us @ [u]" by (cases "utf8_char c" rule: rev_cases) auto
  have "utf8_bytes s = utf8_bytes t @ us @ [u]" using s u by (simp add: utf8_bytes_def)
  then show ?thesis using c u by (simp add: trim_pad_bytes_def)
qed

lemma clean_text_decodes: "clean_text s \<Longrightarrow> from_utf8_lossy (utf8_bytes s) = s"
  by (rule utf8_roundtrip) (simp add: clean_text_def)

lemma cut_at_nul:
  assumes "clean_text s" "0 \<notin> set s"
  shows "takeWhile (\<lambda>b. b \<noteq> 0) (utf8_bytes s @ replicate n 0) = utf8_bytes s"
proof -
  have "\<forall>b \<in> set (utf8_bytes s). b \<noteq> 0"
    using assms utf8_char_nonzero by (fastforce simp: clean_text_def utf8_bytes_def list_all_iff)
  then show ?thesis by (simp add: takeWhile_append2)
qed

subsection \<open>The three types\<close>

lemma read_string_fix:
  assumes "clean_text s" "0 \<notin> set s" "unat off = 8 * length pre" "unat bl = 8 * length bytes"
    "bytes = utf8_bytes s @ replicate n 0"
  shows "decode_string_fix (pre @ bytes @ post) off bl = FvString s"
  using cut_at_nul [OF assms(1,2), of n] trim_clean_bytes [OF assms(1)] clean_text_decodes [OF assms(1)]
    clean_text_bytes [OF assms(1)] assms(3-5)
  by (simp add: decode_string_fix_def Let_def)

lemma read_string_lz:
  assumes "clean_text s" "unat off = 8 * length pre" "length (utf8_bytes s) \<le> 255"
    and "bytes = word_of_nat (length (utf8_bytes s)) # utf8_bytes s @ replicate n 0"
    and "unat bl = 0 \<or> 8 * length bytes \<le> unat bl"
  shows "decode_string_lz (pre @ bytes @ post) off bl = FvString s"
proof -
  let ?c = "utf8_bytes s" and ?data = "pre @ bytes @ post" and ?start = "length pre"
  define region where "region = (if unat bl = 0 then length ?data else min (?start + unat bl div 8) (length ?data))"
  have len: "unat (word_of_nat (length ?c) :: u8) = length ?c" using assms(3) by (simp add: unat_u8_of_nat)
  have "length bytes = Suc (length ?c + n)" using assms(4) by simp
  then have "?start + 1 + length ?c \<le> region" using assms(5) by (auto simp: region_def min_def)
  then have "min (length ?c) (region - (?start + 1)) = length ?c" by simp
  moreover have "drop (?start + 1) (take (?start + 1 + length ?c) ?data) = ?c" using assms(4) by simp
  moreover have "?data ! ?start = word_of_nat (length ?c)" "?start < length ?data"
    using assms(4) by (simp_all add: nth_append)
  ultimately show ?thesis
    using assms(1,2) len trim_clean_text [OF assms(1)] clean_text_decodes [OF assms(1)]
    by (simp add: decode_string_lz_def Let_def region_def [symmetric] clean_text_def)
qed

lemma read_string_lau:
  assumes "clean_text s" "unat off = 8 * length pre" "length (utf8_bytes s) + 2 \<le> 255"
    and "bytes = word_of_nat (length (utf8_bytes s) + 2) # 1 # utf8_bytes s"
  shows "decode_string_lau (pre @ bytes @ post) off = (FvString s, word_of_nat (8 * length bytes))"
proof -
  let ?c = "utf8_bytes s" and ?data = "pre @ bytes @ post" and ?start = "length pre"
  have len: "unat (word_of_nat (length ?c + 2) :: u8) = length ?c + 2" using assms(3) by (intro unat_u8_of_nat) simp
  have at: "?data ! ?start = word_of_nat (length ?c + 2)" "?data ! (?start + 1) = 1" "?start + 2 \<le> length ?data"
    using assms(4) by (simp_all add: nth_append)
  have "min (?start + 2 + length ?c) (length ?data) = ?start + 2 + length ?c" using assms(4) by simp
  moreover have "drop (?start + 2) (take (?start + 2 + length ?c) ?data) = ?c" using assms(4) by simp
  moreover have "unat off mod 8 = 0" "unat off div 8 = ?start" using assms(2) by simp_all
  moreover have "8 * length bytes = (length ?c + 2) * 8" using assms(4) by simp
  ultimately show ?thesis
    using at len assms(1) trim_clean_text [OF assms(1)] clean_text_decodes [OF assms(1)] trim_clean_bytes [OF assms(1)]
    unfolding decode_string_lau_def Let_def by (simp add: clean_text_def)
qed

subsection \<open>Staged, then decoded\<close>

lemma unat_u32_of_nat: "n < 2 ^ 32 \<Longrightarrow> unat (word_of_nat n :: u32) = n"
  by (subst unat_of_nat) (simp add: take_bit_nat_eq_self)

lemma rest_of_payload:
  assumes "8 * length (pre @ rest) < 2 ^ 32" "unat off = 8 * length pre"
  defines "avail \<equiv> payload_bits (pre @ rest) - off"
  shows "\<not> payload_bits (pre @ rest) < off" "unat (avail - (avail AND 7)) = 8 * length rest"
proof -
  have "unat (word_of_nat (length (pre @ rest)) :: u32) = length (pre @ rest)"
    by (rule unat_u32_of_nat) (use assms(1) in linarith)
  then have "payload_bits (pre @ rest) = word_of_nat (8 * length (pre @ rest))"
    unfolding payload_bits_def using assms(1) by (intro arg_cong [of _ _ word_of_nat]) linarith
  then have p: "unat (payload_bits (pre @ rest)) = 8 * length pre + 8 * length rest"
    using unat_u32_of_nat [OF assms(1)] by simp
  then show le: "\<not> payload_bits (pre @ rest) < off" using assms(2) by (simp add: word_less_nat_alt)
  have a: "unat avail = 8 * length rest"
    unfolding avail_def using p assms(2) le by (simp add: unat_sub_if' word_less_nat_alt)
  have "unat (avail AND 7) = unat (take_bit 3 avail)" by (simp add: take_bit_eq_mask mask_numeral)
  also have "\<dots> = 0" using a by (simp add: take_bit_eq_mod unat_mod)
  finally have "avail AND 7 = 0" by (simp add: unat_eq_0)
  then show "unat (avail - (avail AND 7)) = 8 * length rest" using a by simp
qed

lemma context_after_text [simp]: "context_after fo f (FvString s) ctx = ctx"
  by (simp add: context_after_def count_value_def)

lemma stage_text:
  assumes "stage_value fo db f (EvText s) = Inr (Bytes bytes)"
  shows "fi_field_type f = Some FtStringFix \<Longrightarrow>
      \<exists>bl. fi_bit_length f = Some bl \<and> length bytes = unat bl div 8 \<and> (\<exists>n. bytes = utf8_bytes s @ replicate n 0)"
    "fi_field_type f = Some FtStringLz \<Longrightarrow>
      length (utf8_bytes s) \<le> 255 \<and> (\<exists>n. bytes = word_of_nat (length (utf8_bytes s)) # utf8_bytes s @ replicate n 0) \<and>
      (case fi_bit_length f of Some bl \<Rightarrow> length bytes = unat bl div 8 | None \<Rightarrow> True)"
    "fi_field_type f = Some FtStringLau \<Longrightarrow>
      length (utf8_bytes s) + 2 \<le> 255 \<and> bytes = word_of_nat (length (utf8_bytes s) + 2) # 1 # utf8_bytes s"
  using assms
  by (auto simp: stage_value_def stage_string_fix_def stage_string_lz_def stage_string_lau_def text_of_value_def zero_pad_def
      and_then_eq_Inr_iff ok_or_eq_Inr_iff Let_def split: if_splits option.splits intro: exI [of _ "0::nat"])

subsection \<open>Properties\<close>

text \<open>
  C17: A text staged for a fixed, a length-prefixed or a length-and-encoding string field and placed in a payload at a byte boundary
  decodes there to that text and leaves the context alone, and, but for the length-prefixed field that owns the rest of the payload, takes exactly the staged bytes.
\<close>

theorem string_field_roundtrip:
  assumes "stage_value fo db f (EvText s) = Inr (Bytes bytes)" "fi_field_type f = Some t"
    "t \<in> {FtStringFix, FtStringLz, FtStringLau}" "clean_text s" "t = FtStringFix \<longrightarrow> 0 \<notin> set s"
    "\<forall>bl. fi_bit_length f = Some bl \<longrightarrow> unat bl mod 8 = 0" "8 * length (pre @ bytes @ post) < 2 ^ 32"
    "unat off = 8 * length pre"
  shows "\<exists>bits. decode_one_field_at fo sub f info (pre @ bytes @ post) db off ctx =
      (Some (plain_field f (FvString s) off bits None, bits), ctx) \<and>
    (t = FtStringLz \<and> fi_bit_length f = None \<or> unat bits = 8 * length bytes)"
proof -
  let ?data = "pre @ bytes @ post"
  have div: "unat bl = 8 * (unat bl div 8)" if "fi_bit_length f = Some bl" for bl using assms(6) that by auto
  consider "t = FtStringFix" | "t = FtStringLz" "fi_bit_length f \<noteq> None" | "t = FtStringLz" "fi_bit_length f = None"
    | "t = FtStringLau" using assms(3) by auto
  then show ?thesis
  proof cases
    case 1
    then obtain bl n where bl: "fi_bit_length f = Some bl" "unat bl = 8 * length bytes" "bytes = utf8_bytes s @ replicate n 0"
      using stage_text(1) [OF assms(1)] assms(2) div by metis
    have "decode_string_fix ?data off bl = (FvString s :: 'a field_value)"
      by (rule read_string_fix [OF assms(4) _ assms(8) bl(2,3)]) (use assms(5) 1 in simp)
    then show ?thesis using 1 assms(2) bl by (simp add: decode_one_field_at_def decode_fixed_field_def decode_by_type_def Let_def)
  next
    case 2
    then obtain bl n where bl: "fi_bit_length f = Some bl" "unat bl = 8 * length bytes" "length (utf8_bytes s) \<le> 255"
        "bytes = word_of_nat (length (utf8_bytes s)) # utf8_bytes s @ replicate n 0"
      using stage_text(2) [OF assms(1)] assms(2) div by fastforce
    have "decode_string_lz ?data off bl = (FvString s :: 'a field_value)"
      by (rule read_string_lz [OF assms(4,8) bl(3,4)]) (simp add: bl(2))
    then show ?thesis using 2 assms(2) bl by (simp add: decode_one_field_at_def decode_fixed_field_def decode_by_type_def Let_def)
  next
    case 3
    then obtain n where n: "length (utf8_bytes s) \<le> 255"
        "bytes = word_of_nat (length (utf8_bytes s)) # utf8_bytes s @ replicate n 0"
      using stage_text(2) [OF assms(1)] assms(2) by fastforce
    define avail where "avail = payload_bits ?data - off"
    have avail: "\<not> payload_bits ?data < off" "unat (avail - (avail AND 7)) = 8 * length (bytes @ post)"
      using rest_of_payload [OF _ assms(8), of "bytes @ post"] assms(7) by (simp_all add: avail_def)
    have "decode_string_lz ?data off (avail - (avail AND 7)) = (FvString s :: 'a field_value)"
      by (rule read_string_lz [OF assms(4,8) n]) (simp add: avail(2))
    then show ?thesis
      using 3 assms(2) avail(1) by (simp add: decode_one_field_at_def decode_fixed_field_def Let_def avail_def)
  next
    case 4
    have "decode_string_lau ?data off = (FvString s :: 'a field_value, word_of_nat (8 * length bytes))"
      using stage_text(3) [OF assms(1)] 4 assms(2) by (intro read_string_lau [OF assms(4,8)]) auto
    moreover have "unat (word_of_nat (8 * length bytes) :: u32) = 8 * length bytes" using assms(7) by (intro unat_u32_of_nat) simp
    ultimately show ?thesis using 4 assms(2) by (simp add: decode_one_field_at_def decode_fixed_field_def)
  qed
qed

definition demo_text :: "int field_info" where
  "demo_text = (demo_field 1 ''Name'' 0 0 FtStringLau)\<lparr>fi_bit_length := None, fi_bit_offset := None\<rparr>"

lemma string_field_roundtrip_witness:
  "\<exists>bits. decode_one_field_at demo_fo (\<lambda>_. []) demo_text demo_pgn ([1, 2] @ [6, 1, 72, 0xe2, 0x82, 0xac] @ [9]) demo_db 16
      decode_context_default =
      (Some (plain_field demo_text (FvString [72, 0x20ac]) 16 bits None, bits), decode_context_default) \<and>
    (FtStringLau = FtStringLz \<and> fi_bit_length demo_text = None \<or> unat bits = 8 * length [6 :: u8, 1, 72, 0xe2, 0x82, 0xac])"
proof (rule string_field_roundtrip)
  show "stage_value demo_fo demo_db demo_text (EvText [72, 0x20ac]) = Inr (Bytes [6, 1, 72, 0xe2, 0x82, 0xac])"
    by (simp add: stage_value_def demo_text_def demo_field_def stage_string_lau_def text_of_value_def and_then_def utf8_bytes_def
        utf8_char_def)
  show "fi_field_type demo_text = Some FtStringLau" "\<forall>bl. fi_bit_length demo_text = Some bl \<longrightarrow> unat bl mod 8 = 0"
    by (simp_all add: demo_text_def demo_field_def)
  show "clean_text [72, 0x20ac]" by (simp add: clean_text_def is_scalar_def is_padding_def)
qed simp_all

end
