(* ===== verification/Wire.thy ===== *)
theory Wire
  imports Message
begin

section \<open>The wire form of a decoded message (canboat-wire/src/lib.rs)\<close>

text \<open>
  \<open>WirePgn\<close> carries a decoded message between processes: schema references become the hash of the variant's id and the order
  of each field, labels are dropped and looked up again by the receiver.  A frame is a little-endian length and the bytes postcard makes of
  the value.  Postcard is third-party: \<open>ser\<close> and \<open>de\<close> are arguments.
\<close>

definition MAGIC :: "u8 list" where "MAGIC = [0x43, 0x42, 0x57, 0x31]"
definition WIRE_VERSION :: u16 where "WIRE_VERSION = 2"
definition MAX_FRAME_LEN :: nat where "MAX_FRAME_LEN = 2 ^ 20"

definition units_code :: "units \<Rightarrow> u8" where
  "units_code u = (case u of UnitsSi \<Rightarrow> 1 | _ \<Rightarrow> 0)"

definition units_from_code :: "u8 \<Rightarrow> units" where
  "units_from_code c = (if c = 1 then UnitsSi else UnitsMetric)"

definition pgn_id_hash :: "string \<Rightarrow> u64" where
  "pgn_id_hash i = foldl (\<lambda>h c. push_bit 5 h + h + of_char c) 5381 i"

subsection \<open>The handshake\<close>

record hello =
  he_magic :: "u8 list"
  he_wire_version :: u16
  he_schema_hash :: u64
  he_schema_version :: string
  he_canboat_version :: string
  he_units :: u8

text \<open>The embedded database of a unit system is generated: an argument.\<close>

definition hello_for_units :: "(units \<Rightarrow> 'f pgn_database) \<Rightarrow> u64 \<Rightarrow> units \<Rightarrow> hello" where
  "hello_for_units embedded schema_hash u =
     \<lparr>he_magic = MAGIC, he_wire_version = WIRE_VERSION, he_schema_hash = schema_hash,
      he_schema_version = db_schema_version (embedded u), he_canboat_version = db_version (embedded u), he_units = units_code u\<rparr>"

definition producer_units :: "hello \<Rightarrow> units" where
  "producer_units h = units_from_code (he_units h)"

datatype hello_error = BadMagic "u8 list" | WireVersion u16 u16 | SchemaHash u64 u64 | UnknownUnits u8

definition hello_verify :: "u64 \<Rightarrow> hello \<Rightarrow> hello_error + unit" where
  "hello_verify schema_hash h =
     (if he_magic h \<noteq> MAGIC then Inl (BadMagic (he_magic h))
      else if he_wire_version h \<noteq> WIRE_VERSION then Inl (WireVersion (he_wire_version h) WIRE_VERSION)
      else if he_schema_hash h \<noteq> schema_hash then Inl (SchemaHash (he_schema_hash h) schema_hash)
      else if he_units h > 1 then Inl (UnknownUnits (he_units h))
      else Inr ())"

subsection \<open>Values without references\<close>

record 'f wire_overrides =
  wo_unit :: "string option"
  wo_resolution :: "'f option"
  wo_precision :: u8

datatype 'f wire_value =
    WvNumber 'f | WvInteger i64 | WvFloat 'f | WvBinary "u8 list" | WvLookup u64 | WvBitField u64 | WvString chars
  | WvDate u16 | WvTime i64 'f | WvMmsi u32 | WvPgn u32 | WvIsoName u64 "'f wire_field list"
  | WvReserved u64 "u8 list" u32 | WvSpare u64 "u8 list" u32
  | WvNotAvailable | WvOutOfRange u64 | WvReservedValue u64 | WvUnsupported
and 'f wire_field =
    WireField (wf_order: u8) (wf_repeat_index: "u32 option") (wf_repeat_set: u8) (wf_value: "'f wire_value")
      (wf_overrides: "'f wire_overrides option")

record 'f wire_pgn =
  wp_timestamp :: "string option"
  wp_prio :: u8
  wp_pgn :: u32
  wp_src :: u8
  wp_dst :: u8
  wp_pgn_id_hash :: u64
  wp_has_repeating_set :: "bool \<times> bool"
  wp_fields :: "'f wire_field list"

definition wire_overrides_of :: "'f field_overrides \<Rightarrow> 'f wire_overrides" where
  "wire_overrides_of o' = \<lparr>wo_unit = ov_unit o', wo_resolution = ov_resolution o', wo_precision = ov_precision o'\<rparr>"

primrec wire_value_of :: "'f field_value \<Rightarrow> 'f wire_value"
  and wire_field_of :: "'f decoded_field \<Rightarrow> 'f wire_field" where
  "wire_value_of (FvNumber x) = WvNumber x"
| "wire_value_of (FvInteger x) = WvInteger x"
| "wire_value_of (FvFloat x) = WvFloat x"
| "wire_value_of (FvBinary b) = WvBinary b"
| "wire_value_of (FvLookup v nm) = WvLookup v"
| "wire_value_of (FvBitField v bits) = WvBitField v"
| "wire_value_of (FvString s) = WvString s"
| "wire_value_of (FvDate d) = WvDate d"
| "wire_value_of (FvTime raw seconds) = WvTime raw seconds"
| "wire_value_of (FvMmsi m) = WvMmsi m"
| "wire_value_of (FvPgn v desc) = WvPgn v"
| "wire_value_of (FvIsoName v subs) = WvIsoName v (map wire_field_of subs)"
| "wire_value_of (FvReserved v bytes bl) = WvReserved v bytes bl"
| "wire_value_of (FvSpare v bytes bl) = WvSpare v bytes bl"
| "wire_value_of FvNotAvailable = WvNotAvailable"
| "wire_value_of (FvOutOfRange v) = WvOutOfRange v"
| "wire_value_of (FvReservedValue v) = WvReservedValue v"
| "wire_value_of (FvUnsupported s) = WvUnsupported"
| "wire_field_of (DecodedField info v bo bl ri rs ov) =
     WireField (fi_order info) ri rs (wire_value_of v) (map_option wire_overrides_of ov)"

definition wire_pgn_of :: "'f decoded_pgn \<Rightarrow> 'f wire_pgn" where
  "wire_pgn_of d =
     \<lparr>wp_timestamp = dp_timestamp d, wp_prio = dp_prio d, wp_pgn = dp_pgn d, wp_src = dp_src d, wp_dst = dp_dst d,
      wp_pgn_id_hash = pgn_id_hash (dp_id d), wp_has_repeating_set = dp_has_repeating_set d,
      wp_fields = map wire_field_of (dp_fields d)\<rparr>"

subsection \<open>Back against the local schema\<close>

definition pgn_index_build :: "'f pgn_database \<Rightarrow> u64 \<rightharpoonup> 'f pgn_info" where
  "pgn_index_build db = foldl (\<lambda>m p. m(pgn_id_hash (pg_id p) \<mapsto> p)) Map.empty (db_pgns db)"

definition static_unit :: "string \<Rightarrow> 'f field_info \<Rightarrow> string option" where
  "static_unit wire_unit info = (case fi_unit info of Some u \<Rightarrow> if u = wire_unit then Some u else None | None \<Rightarrow> None)"

definition rehydrate_overrides :: "'f field_info \<Rightarrow> 'f wire_overrides \<Rightarrow> 'f field_overrides" where
  "rehydrate_overrides info o' =
     \<lparr>ov_unit = Option.bind (wo_unit o') (\<lambda>u. static_unit u info), ov_resolution = wo_resolution o', ov_precision = wo_precision o'\<rparr>"

text \<open>\<open>order.wrapping\_sub(1)\<close> into the fields.\<close>

definition field_of_order :: "'f field_info list \<Rightarrow> u8 \<Rightarrow> 'f field_info option" where
  "field_of_order fs ord = (let i = unat (ord - 1) in if i < length fs then Some (fs ! i) else None)"

definition rehydrate_number :: "'f float_ops \<Rightarrow> 'f field_info \<Rightarrow> 'f field_info option \<Rightarrow> 'f \<Rightarrow> 'f" where
  "rehydrate_number fo info peer_field x =
     (case (Option.bind peer_field fi_unit, fi_unit info) of
        (Some src, Some dst) \<Rightarrow> or_default x (convert_unit fo x src dst)
      | _ \<Rightarrow> x)"

definition rehydrate_lookup :: "'f pgn_database \<Rightarrow> 'f field_info \<Rightarrow> u64 \<Rightarrow> string option" where
  "rehydrate_lookup db info v =
     (case lookup_name db (fi_lookup_enumeration info) v of
        Some nm \<Rightarrow> Some nm
      | None \<Rightarrow>
          map_option ft_name (Option.bind (fi_lookup_field_type_enumeration info) (\<lambda>n. db_field_type_lookup db n v)))"

definition rehydrate_bits :: "'f pgn_database \<Rightarrow> 'f field_info \<Rightarrow> u64 \<Rightarrow> (u64 \<times> string) list" where
  "rehydrate_bits db info v =
     (case Option.bind (fi_lookup_bit_enumeration info) (db_bit_lookup db) of
        None \<Rightarrow> []
      | Some table \<Rightarrow>
          List.map_filter
            (\<lambda>b. if v AND push_bit b 1 \<noteq> 0 then map_option (\<lambda>e. (push_bit b 1, bl_name e)) (bit_lookup_get table (word_of_nat b))
                 else None) [0..<64])"

text \<open>A PGN without fields has no field to fall back on: the code panics on it, here \<open>hd []\<close>; \<open>rehydrate\<close> excludes it.\<close>

primrec rehydrate_value ::
    "'f wire_value \<Rightarrow> 'f float_ops \<Rightarrow> 'f pgn_database \<Rightarrow> 'f field_info \<Rightarrow> 'f field_info option \<Rightarrow> 'f pgn_info \<Rightarrow> 'f field_value"
  and rehydrate_field ::
    "'f wire_field \<Rightarrow> 'f float_ops \<Rightarrow> 'f pgn_database \<Rightarrow> 'f pgn_info \<Rightarrow> 'f pgn_info option \<Rightarrow> 'f decoded_field" where
  "rehydrate_value (WvNumber x) fo db info peer_field pgn_info = FvNumber (rehydrate_number fo info peer_field x)"
| "rehydrate_value (WvInteger x) fo db info peer_field pgn_info = FvInteger x"
| "rehydrate_value (WvFloat x) fo db info peer_field pgn_info = FvFloat x"
| "rehydrate_value (WvBinary b) fo db info peer_field pgn_info = FvBinary b"
| "rehydrate_value (WvLookup v) fo db info peer_field pgn_info = FvLookup v (rehydrate_lookup db info v)"
| "rehydrate_value (WvBitField v) fo db info peer_field pgn_info = FvBitField v (rehydrate_bits db info v)"
| "rehydrate_value (WvString s) fo db info peer_field pgn_info = FvString s"
| "rehydrate_value (WvDate d) fo db info peer_field pgn_info = FvDate d"
| "rehydrate_value (WvTime raw seconds) fo db info peer_field pgn_info = FvTime raw seconds"
| "rehydrate_value (WvMmsi m) fo db info peer_field pgn_info = FvMmsi m"
| "rehydrate_value (WvPgn v) fo db info peer_field pgn_info = FvPgn v (map_option pg_description (first_pgn db v))"
| "rehydrate_value (WvIsoName v subs) fo db info peer_field pgn_info =
     FvIsoName v (map (\<lambda>wf. rehydrate_field wf fo db pgn_info None) subs)"
| "rehydrate_value (WvReserved v bytes bl) fo db info peer_field pgn_info = FvReserved v bytes bl"
| "rehydrate_value (WvSpare v bytes bl) fo db info peer_field pgn_info = FvSpare v bytes bl"
| "rehydrate_value WvNotAvailable fo db info peer_field pgn_info = FvNotAvailable"
| "rehydrate_value (WvOutOfRange v) fo db info peer_field pgn_info = FvOutOfRange v"
| "rehydrate_value (WvReservedValue v) fo db info peer_field pgn_info = FvReservedValue v"
| "rehydrate_value WvUnsupported fo db info peer_field pgn_info = FvUnsupported ''UNSUPPORTED''"
| "rehydrate_field (WireField ord ri rs v ov) fo db pgn_info peer_pgn =
     (let info = or_default (hd (pg_fields pgn_info)) (field_of_order (pg_fields pgn_info) ord);
          peer_field = Option.bind peer_pgn (\<lambda>p. field_of_order (pg_fields p) ord)
      in DecodedField info (rehydrate_value v fo db info peer_field pgn_info) None None ri rs (map_option (rehydrate_overrides info) ov))"

text \<open>The receiver's index also takes position 127.\<close>

definition wire_index_step :: "int list \<Rightarrow> nat \<times> 'f decoded_field \<Rightarrow> int list" where
  "wire_index_step idx x =
     (let (pos, f) = x; slot = unat (df_order f) in
      if df_repeat_set f = 0 \<and> slot \<noteq> 0 \<and> slot - 1 < length idx \<and> pos \<le> 127 then idx[slot - 1 := int pos] else idx)"

definition rehydrate_pgn ::
  "'f float_ops \<Rightarrow> (units \<Rightarrow> 'f pgn_database) \<Rightarrow> 'f pgn_database \<Rightarrow> (u64 \<rightharpoonup> 'f pgn_info) \<Rightarrow> units \<Rightarrow> 'f wire_pgn \<Rightarrow>
   'f decoded_pgn option option" where
  "rehydrate_pgn fo embedded db idx peer_units w =
     (case idx (wp_pgn_id_hash w) of
        None \<Rightarrow> Some None
      | Some info \<Rightarrow>
          if pg_fields info = [] \<and> wp_fields w \<noteq> [] then None
          else
            let peer_pgn = (if peer_units \<noteq> db_units db then pgn_by_id (embedded peer_units) (pg_id info) else None);
                ds = map (\<lambda>wf. rehydrate_field wf fo db info peer_pgn) (wp_fields w)
            in Some (Some \<lparr>dp_timestamp = wp_timestamp w, dp_prio = wp_prio w, dp_pgn = wp_pgn w, dp_src = wp_src w,
                 dp_dst = wp_dst w, dp_description = pg_description info, dp_id = pg_id info,
                 dp_id_is_pinned = pg_id_is_pinned info, dp_data = [], dp_fields = ds,
                 dp_has_repeating_set = wp_has_repeating_set w,
                 dp_index_by_order = foldl wire_index_step (replicate 32 (- 128)) (enumerate 0 ds)\<rparr>))"

subsection \<open>Frames\<close>

datatype 'e frame_error = TooLong nat | FrameDecode 'e

definition append_frame :: "('a \<Rightarrow> 'e + u8 list) \<Rightarrow> u8 list \<Rightarrow> 'a \<Rightarrow> 'e + u8 list" where
  "append_frame ser out v =
     and_then (ser v) (\<lambda>body. Inr (out @ le_bytes 4 (word_of_nat (length body) :: u32) @ body))"

definition try_read_frame :: "(u8 list \<Rightarrow> 'e + 'a) \<Rightarrow> u8 list \<Rightarrow> 'e frame_error + ('a \<times> nat) option" where
  "try_read_frame de buf =
     (if length buf < 4 then Inr None
      else let len = unat (from_le (take 4 buf) :: u32) in
        if len > MAX_FRAME_LEN then Inl (TooLong len)
        else let total = 4 + len in
          if length buf < total then Inr None
          else case de (drop 4 (take total buf)) of
            Inl e \<Rightarrow> Inl (FrameDecode e)
          | Inr v \<Rightarrow> Inr (Some (v, total)))"

subsection \<open>What survives\<close>

text \<open>The labels of a decoded field are those its own tables give.\<close>

definition labelled :: "'f pgn_database \<Rightarrow> 'f decoded_field \<Rightarrow> bool" where
  "labelled db d \<longleftrightarrow>
     (case df_value d of
        FvLookup v nm \<Rightarrow>
          nm = lookup_name db (fi_lookup_enumeration (df_info d)) v \<and>
          (nm = None \<longrightarrow> fi_lookup_field_type_enumeration (df_info d) = None)
      | FvBitField v bits \<Rightarrow> bits = rehydrate_bits db (df_info d) v
      | FvPgn v desc \<Rightarrow> desc = map_option pg_description (first_pgn db v)
      | FvIsoName v subs \<Rightarrow> False
      | FvUnsupported s \<Rightarrow> s = ''UNSUPPORTED''
      | _ \<Rightarrow> True) \<and>
     (case df_overrides d of Some ov \<Rightarrow> ov_unit ov \<in> {None, fi_unit (df_info d)} | None \<Rightarrow> True)"

text \<open>A field without its position in the payload.\<close>

definition unplaced :: "'f decoded_field \<Rightarrow> 'f decoded_field" where
  "unplaced d = DecodedField (df_info d) (df_value d) None None (df_repeat_index d) (df_repeat_set d) (df_overrides d)"

lemma rehydrate_wire_value:
  assumes "labelled db (DecodedField info v bo bl ri rs ov)"
  shows "rehydrate_value (wire_value_of v) fo db info None pgn_info = v"
  using assms
  by (cases v) (auto simp: labelled_def rehydrate_number_def rehydrate_lookup_def split: option.splits)

lemma rehydrate_wire_overrides:
  assumes "labelled db (DecodedField info v bo bl ri rs ov)"
  shows "map_option (rehydrate_overrides info \<circ> wire_overrides_of) ov = ov"
  using assms
  by (cases ov; cases "the ov"; cases "fi_unit info")
    (auto simp: labelled_def rehydrate_overrides_def wire_overrides_of_def static_unit_def split: option.splits)

text \<open>The field is the one of its order in the schema, counted from 1.\<close>

definition placed_in :: "'f field_info list \<Rightarrow> 'f decoded_field \<Rightarrow> bool" where
  "placed_in fs d \<longleftrightarrow>
     0 < unat (df_order d) \<and> unat (df_order d) \<le> length fs \<and> fs ! (unat (df_order d) - 1) = df_info d"

lemma placed_field: "placed_in fs d \<Longrightarrow> field_of_order fs (df_order d) = Some (df_info d)"
  by (auto simp: placed_in_def field_of_order_def Let_def unat_minus_one word_unat_eq_iff)

lemma rehydrate_wire_field:
  assumes "labelled db d" "placed_in (pg_fields info) d"
  shows "rehydrate_field (wire_field_of d) fo db info None = unplaced d"
proof (cases d)
  case (DecodedField f v bo bl ri rs ov)
  then show ?thesis
    using assms(1) placed_field [OF assms(2)] rehydrate_wire_value [of db f v bo bl ri rs ov fo info] rehydrate_wire_overrides [of db f v bo bl ri rs ov]
    by (simp add: df_order_def or_default_def unplaced_def option.map_comp)
qed

lemma pgn_index_hit:
  assumes "distinct (map (\<lambda>p. pgn_id_hash (pg_id p)) (db_pgns db))" "info \<in> set (db_pgns db)"
  shows "pgn_index_build db (pgn_id_hash (pg_id info)) = Some info"
proof -
  have "foldl (\<lambda>m p. m(pgn_id_hash (pg_id p) \<mapsto> p)) Map.empty ps (pgn_id_hash (pg_id info)) = Some info"
    if "distinct (map (\<lambda>p. pgn_id_hash (pg_id p)) ps)" "info \<in> set ps" for ps :: "'a pgn_info list"
    using that by (induction ps rule: rev_induct) (auto simp: image_iff)
  then show ?thesis using assms by (simp add: pgn_index_build_def)
qed

lemma map_filter_cong: "(\<And>x. x \<in> set xs \<Longrightarrow> f x = g x) \<Longrightarrow> List.map_filter f xs = List.map_filter g xs"
  by (induction xs) (auto simp: List.map_filter_simps split: option.split)

lemma map_filter_append: "List.map_filter f (xs @ ys) = List.map_filter f xs @ List.map_filter f ys"
  by (simp add: List.map_filter_def)

text \<open>The bits of a table sorted by bit number, by scanning the numbers and by scanning the table.\<close>

lemma scan_bits:
  assumes "sorted_wrt (<) (map key vs)"
  shows "List.map_filter (\<lambda>b. if P b then map_option g (find (\<lambda>v. key v = b) vs) else None) [0..<n] =
    map g (filter (\<lambda>v. key v < n \<and> P (key v)) vs)"
proof (induction n)
  case (Suc n)
  have split: "filter (\<lambda>v. key v < Suc n \<and> P (key v)) vs =
      filter (\<lambda>v. key v < n \<and> P (key v)) vs @ filter (\<lambda>v. key v = n \<and> P (key v)) vs"
    using assms
  proof (induction vs)
    case (Cons v vs)
    have "filter (\<lambda>v. key v < n \<and> P (key v)) vs = []" if "n \<le> key v"
      using Cons.prems that by (auto simp: filter_empty_conv)
    then show ?case using Cons by (auto simp: less_Suc_eq)
  qed simp
  have "filter (\<lambda>v. key v = n \<and> P (key v)) vs = (if P n then (case find (\<lambda>v. key v = n) vs of None \<Rightarrow> [] | Some v \<Rightarrow> [v]) else [])"
    using assms
  proof (induction vs)
    case (Cons v vs)
    have "filter (\<lambda>v. key v = n \<and> P (key v)) vs = []" if "key v = n"
      using Cons.prems that by (auto simp: filter_empty_conv)
    then show ?case using Cons by auto
  qed simp
  then show ?case using Suc split by (auto simp: List.map_filter_simps map_filter_append split: option.splits)
qed (simp add: List.map_filter_simps)

text \<open>A bit field decoded with a table sorted by bit number carries the labels the receiver finds.\<close>

lemma decoded_bits_labelled:
  assumes "Option.bind (fi_lookup_bit_enumeration f) (db_bit_lookup db) = Some t"
    "index_of bl_bit (bt_values t) (bt_by_bit t)" "sorted_wrt (<) (map bl_bit (bt_values t))"
    "list_all (\<lambda>v. bl_bit v < 64) (bt_values t)"
  shows "rehydrate_bits db f raw =
    map (\<lambda>v. (push_bit (unat (bl_bit v)) 1, bl_name v))
      (filter (\<lambda>v. raw AND push_bit (unat (bl_bit v)) 1 \<noteq> 0) (bt_values t))"
proof -
  have get: "bit_lookup_get t k = find (\<lambda>v. bl_bit v = k) (bt_values t)" for k
    unfolding bit_lookup_get_def by (rule index_lookup [OF assms(2)])
  have key: "bl_bit v = word_of_nat b \<longleftrightarrow> unat (bl_bit v) = b" if "b < 64" for v b
    using that by (auto simp: unat_u8_of_nat word_unat_eq_iff)
  have scan: "find (\<lambda>v. bl_bit v = word_of_nat b) (bt_values t) = find (\<lambda>v. unat (bl_bit v) = b) (bt_values t)"
    if "b < 64" for b
    by (simp only: key [OF that])
  have "rehydrate_bits db f raw =
      List.map_filter (\<lambda>b. if raw AND push_bit b 1 \<noteq> 0
        then map_option (\<lambda>v. (push_bit (unat (bl_bit v)) 1, bl_name v)) (find (\<lambda>v. unat (bl_bit v) = b) (bt_values t))
        else None) [0..<64]"
    unfolding rehydrate_bits_def assms(1) option.case get
  proof (rule map_filter_cong)
    fix b assume "b \<in> set [0..<64]"
    then have b: "b < 64" by simp
    have hit: "find (\<lambda>v. unat (bl_bit v) = b) (bt_values t) = Some v \<Longrightarrow> unat (bl_bit v) = b" for v
      by (auto simp: find_Some_iff)
    show "(if raw AND push_bit b 1 \<noteq> 0
          then map_option (\<lambda>e. (push_bit b 1, bl_name e)) (find (\<lambda>v. bl_bit v = word_of_nat b) (bt_values t)) else None) =
        (if raw AND push_bit b 1 \<noteq> 0
          then map_option (\<lambda>v. (push_bit (unat (bl_bit v)) 1, bl_name v)) (find (\<lambda>v. unat (bl_bit v) = b) (bt_values t))
          else None)"
      unfolding scan [OF b]
      by (cases "find (\<lambda>v. unat (bl_bit v) = b) (bt_values t)") (simp_all add: hit)
  qed
  also have "\<dots> = map (\<lambda>v. (push_bit (unat (bl_bit v)) 1, bl_name v))
      (filter (\<lambda>v. unat (bl_bit v) < 64 \<and> raw AND push_bit (unat (bl_bit v)) 1 \<noteq> 0) (bt_values t))"
    by (rule scan_bits) (use assms(3) in \<open>simp add: sorted_wrt_map word_less_nat_alt\<close>)
  finally show ?thesis
    using assms(4) by (auto simp: list_all_iff word_less_nat_alt intro!: arg_cong [of _ _ "map _"] filter_cong)
qed

text \<open>The fields of a built scalar message are labelled.\<close>

definition label_free :: "'f field_value \<Rightarrow> bool" where
  "label_free v \<longleftrightarrow>
     (case v of FvLookup _ _ \<Rightarrow> False | FvBitField _ _ \<Rightarrow> False | FvPgn _ _ \<Rightarrow> False | FvIsoName _ _ \<Rightarrow> False
      | FvUnsupported _ \<Rightarrow> False | _ \<Rightarrow> True)"

lemma label_free_simps:
  "sentinel_field_value f ex = Some v \<Longrightarrow> label_free v"
  "label_free (number_value fo f ex)" "label_free (reserved_value ex b r)" "label_free (date_value f ex)"
  "label_free (time_value fo f ex)" "label_free (FvFloat x)" "label_free (FvMmsi m)"
  by (auto simp: label_free_def number_value_def reserved_value_def date_value_def time_value_def sentinel_field_value_def
      Let_def split: option.split sentinel.splits)

lemma label_free_labelled: "label_free v \<Longrightarrow> labelled db (DecodedField f v bo bl ri rs None)"
  by (cases v) (simp_all add: label_free_def labelled_def)

lemma scalar_reading_labelled:
  assumes "scalar_field f" "fi_field_type f = Some FtLookup \<longrightarrow> fi_lookup_field_type_enumeration f = None"
  shows "labelled db (plain_field f (scalar_reading fo db f r) off bl None)"
proof (cases "fi_field_type f = Some FtLookup")
  case True
  define nm where "nm = lookup_name db (fi_lookup_enumeration f) r"
  define ex where "ex = raw_extract (unat (field_bits f)) False r"
  have "scalar_reading fo db f r = named_or_sentinel f ex nm"
    using True by (simp add: scalar_reading_def ex_def nm_def Let_def)
  then show ?thesis
    using label_free_labelled [OF label_free_simps(1)] True assms(2)
    by (auto simp: named_or_sentinel_def plain_field_def labelled_def nm_def ex_def raw_extract_def split: option.split)
next
  case False
  have "label_free (scalar_reading fo db f r)"
    using False assms(1)
    by (cases "the (fi_field_type f)") (auto simp: scalar_field_def scalar_reading_def label_free_simps Let_def split: option.splits)
  then show ?thesis by (simp add: plain_field_def label_free_labelled)
qed

subsection \<open>Frames come back\<close>

lemma append_frame_length:
  "append_frame ser out v = Inr bytes \<Longrightarrow> ser v = Inr body \<Longrightarrow>
   bytes = out @ le_bytes 4 (word_of_nat (length body) :: u32) @ body"
  by (simp add: append_frame_def)

lemma try_read_appended:
  assumes "ser v = Inr body" "de body = Inr v" "length body \<le> MAX_FRAME_LEN" "append_frame ser [] v = Inr bytes"
  shows "try_read_frame de (bytes @ rest) = Inr (Some (v, length bytes))"
    "k < length bytes \<Longrightarrow> try_read_frame de (take k bytes) = Inr None"
proof -
  have bytes: "bytes = le_bytes 4 (word_of_nat (length body) :: u32) @ body"
    using append_frame_length [OF assms(4,1)] by simp
  have len: "unat (word_of_nat (length body) :: u32) = length body"
    using assms(3) by (simp add: MAX_FRAME_LEN_def unat_of_nat take_bit_nat_eq_self)
  have head: "unat (from_le (le_bytes 4 (word_of_nat (length body) :: u32)) :: u32) = length body"
    using len by (simp add: from_le_le_bytes)
  show "try_read_frame de (bytes @ rest) = Inr (Some (v, length bytes))"
    using assms(2,3) head by (simp add: try_read_frame_def bytes Let_def)
  assume k: "k < length bytes"
  show "try_read_frame de (take k bytes) = Inr None"
  proof (cases "k < 4")
    case False
    then have "take 4 (take k bytes) = le_bytes 4 (word_of_nat (length body) :: u32)"
      by (simp add: bytes min_def)
    then show ?thesis using False k head assms(3) by (simp add: try_read_frame_def bytes Let_def)
  qed (use k in \<open>simp add: try_read_frame_def\<close>)
qed

lemma hello_verify_own: "hello_verify schema_hash (hello_for_units embedded schema_hash u) = Inr ()"
  by (simp add: hello_verify_def hello_for_units_def units_code_def split: units.split)

lemma producer_units_own: "producer_units (hello_for_units embedded schema_hash u) = u"
  by (cases u) (simp_all add: producer_units_def hello_for_units_def units_code_def units_from_code_def)

lemma wire_roundtrip:
  assumes "distinct (map (\<lambda>p. pgn_id_hash (pg_id p)) (db_pgns db))" "info \<in> set (db_pgns db)" "pg_fields info \<noteq> []"
    and "dp_id d = pg_id info" "dp_description d = pg_description info" "dp_id_is_pinned d = pg_id_is_pinned info"
    and "list_all (\<lambda>x. labelled db x \<and> placed_in (pg_fields info) x) (dp_fields d)"
    and "dp_index_by_order d = build_index_by_order (dp_fields d)" "length (dp_fields d) \<le> 127"
  shows "rehydrate_pgn fo embedded db (pgn_index_build db) (db_units db) (wire_pgn_of d) =
    Some (Some (d\<lparr>dp_data := [], dp_fields := map unplaced (dp_fields d)\<rparr>))"
proof -
  have fields: "map ((\<lambda>wf. rehydrate_field wf fo db info None) \<circ> wire_field_of) (dp_fields d) = map unplaced (dp_fields d)"
    using assms(7) by (intro map_cong) (simp_all add: list_all_iff rehydrate_wire_field)
  have "foldl wire_index_step idx (enumerate k (map unplaced ds)) = foldl index_step idx (enumerate k ds)"
    if "k + length ds \<le> 127" for idx k and ds :: "'a decoded_field list"
    using that
  proof (induction ds arbitrary: idx k)
    case (Cons x ds)
    then show ?case
      by (simp add: wire_index_step_def index_step_def unplaced_def df_order_def Let_def)
  qed simp
  then have "foldl wire_index_step (replicate 32 (- 128)) (enumerate 0 (map unplaced (dp_fields d))) = dp_index_by_order d"
    using assms(8,9) by (simp add: build_index_by_order_def)
  then show ?thesis
    using pgn_index_hit [OF assms(1,2)] assms(3-6) fields
    by (cases d) (simp add: rehydrate_pgn_def wire_pgn_of_def Let_def o_def cong: map_cong)
qed

subsection \<open>Properties\<close>

text \<open>The value of a decoded field: everything a reader of fields and labels sees, without where it stands in the payload.\<close>

definition field_content :: "'f decoded_field \<Rightarrow> 'f field_info \<times> 'f field_value \<times> u32 option \<times> u8 \<times> 'f field_overrides option" where
  "field_content d = (df_info d, df_value d, df_repeat_index d, df_repeat_set d, df_overrides d)"

lemma field_content_unplaced [simp]: "field_content (unplaced d) = field_content d"
  by (simp add: field_content_def unplaced_def)

text \<open>
  C16: A decoded message whose labels come from the tables of its own fields crosses the wire.  The receiver reads nothing from a part of
  the frame, then the whole frame as one message whatever follows it, and rebuilds a record with the header of the message, the index
  by order, and in order every field with its schema entry, its value and labels, its place in a repeating set and its overrides.
\<close>

theorem wire_transfer:
  assumes "ser (wire_pgn_of d) = Inr body" "de body = Inr (wire_pgn_of d)" "length body \<le> MAX_FRAME_LEN"
    and "append_frame ser [] (wire_pgn_of d) = Inr bytes"
    and "distinct (map (\<lambda>p. pgn_id_hash (pg_id p)) (db_pgns db))" "info \<in> set (db_pgns db)" "pg_fields info \<noteq> []"
    and "dp_id d = pg_id info" "dp_description d = pg_description info" "dp_id_is_pinned d = pg_id_is_pinned info"
    and "list_all (\<lambda>x. labelled db x \<and> placed_in (pg_fields info) x) (dp_fields d)"
    and "dp_index_by_order d = build_index_by_order (dp_fields d)" "length (dp_fields d) \<le> 127"
  shows "list_all (\<lambda>k. try_read_frame de (take k bytes) = Inr None) [0..<length bytes] \<and>
    (\<exists>w d'. try_read_frame de (bytes @ rest) = Inr (Some (w, length bytes)) \<and>
         rehydrate_pgn fo embedded db (pgn_index_build db) (db_units db) w = Some (Some d') \<and>
         map field_content (dp_fields d') = map field_content (dp_fields d) \<and>
         d'\<lparr>dp_data := dp_data d, dp_fields := dp_fields d\<rparr> = d)"
proof -
  have "list_all (\<lambda>k. try_read_frame de (take k bytes) = Inr None) [0..<length bytes]"
    using try_read_appended(2) [where ser = ser and de = de, OF assms(1-4)] by (simp add: list_all_iff)
  moreover have "try_read_frame de (bytes @ rest) = Inr (Some (wire_pgn_of d, length bytes))"
    by (rule try_read_appended(1) [where ser = ser and de = de, OF assms(1-4)])
  moreover have "rehydrate_pgn fo embedded db (pgn_index_build db) (db_units db) (wire_pgn_of d) =
      Some (Some (d\<lparr>dp_data := [], dp_fields := map unplaced (dp_fields d)\<rparr>))"
    by (rule wire_roundtrip [OF assms(5-13)])
  ultimately show ?thesis
    by (intro conjI exI [of _ "wire_pgn_of d"] exI [of _ "d\<lparr>dp_data := [], dp_fields := map unplaced (dp_fields d)\<rparr>"]) simp_all
qed

definition demo_decoded :: "int decoded_pgn" where
  "demo_decoded =
     \<lparr>dp_timestamp = None, dp_prio = 3, dp_pgn = 130840, dp_src = 0, dp_dst = 255, dp_description = ''Demo: Status'',
      dp_id = ''demoStatus'', dp_id_is_pinned = False, dp_data = rf_data demo_frame_sent,
      dp_fields = [plain_field (demo_fields ! 0) (FvLookup 1857 None) 0 11 None, plain_field (demo_fields ! 4) (FvInteger (- 5)) 24 16 None],
      dp_has_repeating_set = (False, False),
      dp_index_by_order = build_index_by_order [plain_field (demo_fields ! 0) (FvLookup 1857 None) 0 11 None,
        plain_field (demo_fields ! 4) (FvInteger (- 5)) 24 16 None]\<rparr>"

lemma demo_field_order:
  "placed_in demo_fields (plain_field (demo_fields ! 0) v off bl ov)" "placed_in demo_fields (plain_field (demo_fields ! 4) v off bl ov)"
proof -
  have "unat (fi_order (demo_fields ! 0)) = 1" "unat (fi_order (demo_fields ! 4)) = 5" by code_simp+
  then show "placed_in demo_fields (plain_field (demo_fields ! 0) v off bl ov)"
    "placed_in demo_fields (plain_field (demo_fields ! 4) v off bl ov)"
    by (simp_all add: placed_in_def plain_field_def df_order_def demo_layout)
qed

lemma wire_transfer_witness:
  "list_all (\<lambda>k. try_read_frame (\<lambda>_. Inr (wire_pgn_of demo_decoded) :: string + int wire_pgn) (take k [2, 0, 0, 0, 7, 7]) = Inr None)
     [0..<length [2 :: u8, 0, 0, 0, 7, 7]] \<and>
   (\<exists>w d'. try_read_frame (\<lambda>_. Inr (wire_pgn_of demo_decoded) :: string + int wire_pgn) ([2, 0, 0, 0, 7, 7] @ [5]) = Inr (Some (w, length [2 :: u8, 0, 0, 0, 7, 7])) \<and>
      rehydrate_pgn demo_fo (\<lambda>_. demo_db) demo_db (pgn_index_build demo_db) (db_units demo_db) w = Some (Some d') \<and>
      map field_content (dp_fields d') = map field_content (dp_fields demo_decoded) \<and>
      d'\<lparr>dp_data := dp_data demo_decoded, dp_fields := dp_fields demo_decoded\<rparr> = demo_decoded)"
proof (rule wire_transfer [where ser = "\<lambda>_. Inr [7, 7]" and info = demo_pgn and body = "[7, 7]"])
  show "length [7 :: u8, 7] \<le> MAX_FRAME_LEN" by (simp add: MAX_FRAME_LEN_def)
  show "append_frame (\<lambda>_. Inr [7, 7]) [] (wire_pgn_of demo_decoded) = Inr [2, 0, 0, 0, 7, 7]"
  proof -
    have "le_bytes 4 (2 :: u32) = [2, 0, 0, 0]" by code_simp
    then show ?thesis by (simp add: append_frame_def)
  qed
  show "distinct (map (\<lambda>p. pgn_id_hash (pg_id p)) (db_pgns demo_db))" "demo_pgn \<in> set (db_pgns demo_db)"
    by (simp_all add: demo_db_def)
  show "pg_fields demo_pgn \<noteq> []" "dp_id demo_decoded = pg_id demo_pgn" "dp_description demo_decoded = pg_description demo_pgn"
    "dp_id_is_pinned demo_decoded = pg_id_is_pinned demo_pgn"
    "dp_index_by_order demo_decoded = build_index_by_order (dp_fields demo_decoded)" "length (dp_fields demo_decoded) \<le> 127"
    by (simp_all add: demo_decoded_def demo_pgn_def demo_fields_def)
  have "labelled demo_db (plain_field (demo_fields ! 0) (FvLookup 1857 None) 0 11 None)"
    by (simp add: labelled_def plain_field_def lookup_name_def demo_fields_def demo_field_def)
  moreover have "labelled demo_db (plain_field (demo_fields ! 4) (FvInteger (- 5)) 24 16 None)"
    by (simp add: labelled_def plain_field_def)
  ultimately show "list_all (\<lambda>x. labelled demo_db x \<and> placed_in (pg_fields demo_pgn) x)
      (dp_fields demo_decoded)"
    unfolding demo_variant by (simp add: demo_decoded_def demo_field_order)
qed simp_all

end
