(* ===== verification/Requests.thy ===== *)
theory Requests
  imports Raw_Frame Hex
begin

section \<open>Asking devices who they are (canboat-bridge/src/n2kd/request\_engine.rs)\<close>

text \<open>
  \<open>RequestEngine\<close> asks every device that was heard for its address claim and its product information, at most one request a second
  and each device at most every five minutes.  Instants are milliseconds on a monotonic clock, as integers; \<open>duration\_since\<close>
  saturates at 0.  The thread of \<open>spawn\<close> is \<open>request\_turn\<close>; what it hears in between arrives as \<open>Heard\<close>.
\<close>

definition PGN_CLAIM :: u32 where "PGN_CLAIM = 60928"
definition PGN_PROD_INFO :: u32 where "PGN_PROD_INFO = 126996"
definition PGN_CONFIG_INFO :: u32 where "PGN_CONFIG_INFO = 126998"
definition ENGINE_PGN_ISO_REQUEST :: u32 where "ENGINE_PGN_ISO_REQUEST = 59904"
definition DEVICE_REQUEST_SPACING :: int where "DEVICE_REQUEST_SPACING = 1000"
definition DEVICE_REQUEST_INTERVAL :: int where "DEVICE_REQUEST_INTERVAL = 300000"

datatype request_kind = ClaimRequest | ProductInfoRequest

record device_state =
  dv_seen :: bool
  dv_claim_received :: "int option"
  dv_claim_requested :: "int option"
  dv_prod_received :: "int option"
  dv_prod_requested :: "int option"

definition device_default :: device_state where
  "device_default =
     \<lparr>dv_seen = False, dv_claim_received = None, dv_claim_requested = None, dv_prod_received = None, dv_prod_requested = None\<rparr>"

type_synonym devices = "u8 \<rightharpoonup> device_state"

definition duration_since :: "int \<Rightarrow> int \<Rightarrow> int" where
  "duration_since now t = max 0 (now - t)"

definition note_device_seen :: "int \<Rightarrow> u32 \<Rightarrow> u8 \<Rightarrow> devices \<Rightarrow> devices" where
  "note_device_seen now pgn src devs =
     (let entry = (case devs src of Some e \<Rightarrow> e | None \<Rightarrow> device_default)\<lparr>dv_seen := True\<rparr>;
          entry = (if pgn = PGN_CLAIM then entry\<lparr>dv_claim_received := Some now\<rparr>
                   else if pgn = PGN_PROD_INFO then entry\<lparr>dv_prod_received := Some now\<rparr>
                   else entry)
      in devs(src \<mapsto> entry))"

definition last_received :: "request_kind \<Rightarrow> device_state \<Rightarrow> int option" where
  "last_received k st = (case k of ClaimRequest \<Rightarrow> dv_claim_received st | ProductInfoRequest \<Rightarrow> dv_prod_received st)"

definition last_requested :: "request_kind \<Rightarrow> device_state \<Rightarrow> int option" where
  "last_requested k st = (case k of ClaimRequest \<Rightarrow> dv_claim_requested st | ProductInfoRequest \<Rightarrow> dv_prod_requested st)"

definition recent :: "int \<Rightarrow> int option \<Rightarrow> bool" where
  "recent now t = (case t of Some s \<Rightarrow> duration_since now s < DEVICE_REQUEST_INTERVAL | None \<Rightarrow> False)"

definition request_due :: "request_kind \<Rightarrow> int \<Rightarrow> devices \<Rightarrow> u8 \<Rightarrow> bool" where
  "request_due k now devs idx =
     (case devs idx of
        None \<Rightarrow> False
      | Some st \<Rightarrow> dv_seen st \<and> \<not> recent now (last_received k st) \<and> \<not> recent now (last_requested k st))"

definition stamp_requested :: "request_kind \<Rightarrow> int \<Rightarrow> device_state \<Rightarrow> device_state" where
  "stamp_requested k now st =
     (case k of ClaimRequest \<Rightarrow> st\<lparr>dv_claim_requested := Some now\<rparr> | ProductInfoRequest \<Rightarrow> st\<lparr>dv_prod_requested := Some now\<rparr>)"

text \<open>The addresses from the cursor on, round the 256.\<close>

definition next_due :: "request_kind \<Rightarrow> int \<Rightarrow> u8 \<Rightarrow> devices \<Rightarrow> u8 option \<times> u8 \<times> devices" where
  "next_due k now cursor devs =
     (case find (request_due k now devs) (map (\<lambda>off. cursor + word_of_nat off) [0..<256]) of
        None \<Rightarrow> (None, cursor, devs)
      | Some idx \<Rightarrow> (Some idx, idx + 1, devs(idx := map_option (stamp_requested k now) (devs idx))))"

definition iso_request_payload :: "u32 \<Rightarrow> u8 list" where
  "iso_request_payload pgn = [ucast (pgn AND 0xff), ucast (drop_bit 8 pgn AND 0xff), ucast (drop_bit 16 pgn AND 0xff)]"

definition format_iso_request_plain :: "string \<Rightarrow> u8 \<Rightarrow> u32 \<Rightarrow> string" where
  "format_iso_request_plain timestamp dst pgn =
     timestamp @ '',6,59904,0,'' @ show_nat (unat dst) @ '',3'' @
     concat (map (\<lambda>b. '','' @ show_byte False b) (iso_request_payload pgn))"

definition iso_request_frame :: "u8 \<Rightarrow> u8 \<Rightarrow> u32 \<Rightarrow> raw_frame" where
  "iso_request_frame src dst pgn = raw_frame_new None 6 ENGINE_PGN_ISO_REQUEST src dst (iso_request_payload pgn)"

subsection \<open>The request loop\<close>

record request_loop =
  rl_next_claim :: u8
  rl_next_prod :: u8
  rl_last_claim :: int
  rl_last_prod :: int
  rl_devices :: devices

definition request_loop_start :: "int \<Rightarrow> devices \<Rightarrow> request_loop" where
  "request_loop_start now devs =
     \<lparr>rl_next_claim = 0, rl_next_prod = 0, rl_last_claim = now - DEVICE_REQUEST_SPACING,
      rl_last_prod = now - DEVICE_REQUEST_SPACING, rl_devices = devs\<rparr>"

text \<open>One slot: the clock reading of the turn, that of \<open>next\_due\<close>, and the device; and the requests emitted in it.\<close>

record request_slot =
  rs_kind :: request_kind
  rs_turn :: int
  rs_asked :: int
  rs_dst :: u8

definition slot_requests :: "request_slot \<Rightarrow> (u8 \<times> u32) list" where
  "slot_requests s =
     (case rs_kind s of
        ClaimRequest \<Rightarrow> [(rs_dst s, PGN_CLAIM)]
      | ProductInfoRequest \<Rightarrow> [(rs_dst s, PGN_PROD_INFO), (rs_dst s, PGN_CONFIG_INFO)])"

definition claim_turn :: "int \<Rightarrow> int \<Rightarrow> request_loop \<Rightarrow> request_loop \<times> request_slot list" where
  "claim_turn now now1 st =
     (if duration_since now (rl_last_claim st) \<ge> DEVICE_REQUEST_SPACING then
        (case next_due ClaimRequest now1 (rl_next_claim st) (rl_devices st) of
           (Some dst, cursor, devs) \<Rightarrow>
             (st\<lparr>rl_next_claim := cursor, rl_devices := devs, rl_last_claim := now\<rparr>,
              [\<lparr>rs_kind = ClaimRequest, rs_turn = now, rs_asked = now1, rs_dst = dst\<rparr>])
         | (None, cursor, devs) \<Rightarrow> (st\<lparr>rl_next_claim := cursor, rl_devices := devs\<rparr>, []))
      else (st, []))"

definition prod_turn :: "int \<Rightarrow> int \<Rightarrow> request_loop \<Rightarrow> request_loop \<times> request_slot list" where
  "prod_turn now now2 st =
     (if duration_since now (rl_last_prod st) \<ge> DEVICE_REQUEST_SPACING then
        (case next_due ProductInfoRequest now2 (rl_next_prod st) (rl_devices st) of
           (Some dst, cursor, devs) \<Rightarrow>
             (st\<lparr>rl_next_prod := cursor, rl_devices := devs, rl_last_prod := now\<rparr>,
              [\<lparr>rs_kind = ProductInfoRequest, rs_turn = now, rs_asked = now2, rs_dst = dst\<rparr>])
         | (None, cursor, devs) \<Rightarrow> (st\<lparr>rl_next_prod := cursor, rl_devices := devs\<rparr>, []))
      else (st, []))"

definition request_turn :: "int \<Rightarrow> int \<Rightarrow> int \<Rightarrow> request_loop \<Rightarrow> request_loop \<times> request_slot list" where
  "request_turn now now1 now2 st =
     (let (st, s1) = claim_turn now now1 st; (st, s2) = prod_turn now now2 st in (st, s1 @ s2))"

datatype request_event = Heard int u32 u8 | Turn int int int

fun request_run :: "request_event list \<Rightarrow> request_loop \<Rightarrow> request_slot list" where
  "request_run [] st = []"
| "request_run (Heard now pgn src # es) st = request_run es (st\<lparr>rl_devices := note_device_seen now pgn src (rl_devices st)\<rparr>)"
| "request_run (Turn now now1 now2 # es) st =
     (let (st, slots) = request_turn now now1 now2 st in slots @ request_run es st)"

subsection \<open>What one call does\<close>

lemma next_due_Some:
  assumes "next_due k now cursor devs = (Some idx, cursor', devs')"
  shows "request_due k now devs idx" "cursor' = idx + 1" "devs' = devs(idx := map_option (stamp_requested k now) (devs idx))"
    "\<exists>off < 256. idx = cursor + word_of_nat off \<and> (\<forall>j < off. \<not> request_due k now devs (cursor + word_of_nat j))"
proof -
  obtain hit: "find (request_due k now devs) (map (\<lambda>off. cursor + word_of_nat off) [0..<256]) = Some idx"
    and rest: "cursor' = idx + 1" "devs' = devs(idx := map_option (stamp_requested k now) (devs idx))"
    using assms by (auto simp: next_due_def split: option.splits)
  show "cursor' = idx + 1" "devs' = devs(idx := map_option (stamp_requested k now) (devs idx))" by (fact rest)+
  show "request_due k now devs idx" using hit by (auto simp: find_Some_iff)
  show "\<exists>off < 256. idx = cursor + word_of_nat off \<and> (\<forall>j < off. \<not> request_due k now devs (cursor + word_of_nat j))"
    using hit unfolding find_Some_iff by fastforce
qed

lemma next_due_None: "next_due k now cursor devs = (None, cursor', devs') \<Longrightarrow> cursor' = cursor \<and> devs' = devs"
  by (auto simp: next_due_def split: option.splits)

lemma cursor_reaches: "\<exists>off < 256. d = cursor + word_of_nat off" for d cursor :: u8
proof -
  have "d = cursor + word_of_nat (unat (d - cursor))" by simp
  moreover have "unat (d - cursor) < 256" using unsigned_less [of "d - cursor"] by simp
  ultimately show ?thesis by blast
qed

lemma next_due_finds:
  assumes "request_due k now devs d"
  obtains idx where "fst (next_due k now cursor devs) = Some idx"
proof -
  have "d \<in> set (map (\<lambda>off. cursor + word_of_nat off) [0..<256])"
    using cursor_reaches [of d cursor] by auto
  then have "find (request_due k now devs) (map (\<lambda>off. cursor + word_of_nat off) [0..<256]) \<noteq> None"
    using assms by (auto simp: find_None_iff)
  then show ?thesis using that by (auto simp: next_due_def split: option.splits)
qed

subsection \<open>Spacing\<close>

text \<open>A slot respects the stamps of a state: not too soon after the last slot, nor after the last request to the device.\<close>

definition stamp_ok :: "int \<Rightarrow> int option \<Rightarrow> bool" where
  "stamp_ok t s \<longleftrightarrow> (case s of Some r \<Rightarrow> t - r \<ge> DEVICE_REQUEST_INTERVAL | None \<Rightarrow> True)"

definition requested :: "request_kind \<Rightarrow> devices \<Rightarrow> u8 \<Rightarrow> int option" where
  "requested k devs d = Option.bind (devs d) (last_requested k)"

definition last_slot :: "request_kind \<Rightarrow> request_loop \<Rightarrow> int" where
  "last_slot k st = (case k of ClaimRequest \<Rightarrow> rl_last_claim st | ProductInfoRequest \<Rightarrow> rl_last_prod st)"

definition slot_after :: "request_loop \<Rightarrow> request_slot \<Rightarrow> bool" where
  "slot_after st s \<longleftrightarrow>
     rs_turn s - last_slot (rs_kind s) st \<ge> DEVICE_REQUEST_SPACING \<and>
     stamp_ok (rs_asked s) (requested (rs_kind s) (rl_devices st) (rs_dst s))"

definition slots_apart :: "request_slot \<Rightarrow> request_slot \<Rightarrow> bool" where
  "slots_apart x y \<longleftrightarrow>
     (rs_kind x = rs_kind y \<longrightarrow>
        rs_turn y - rs_turn x \<ge> DEVICE_REQUEST_SPACING \<and>
        (rs_dst x = rs_dst y \<longrightarrow> rs_asked y - rs_asked x \<ge> DEVICE_REQUEST_INTERVAL))"

lemma not_recent: "\<not> recent now t \<longleftrightarrow> stamp_ok now t"
  by (auto simp: recent_def stamp_ok_def duration_since_def DEVICE_REQUEST_INTERVAL_def split: option.splits)

lemma requested_stamp:
  "requested k' (devs(idx := map_option (stamp_requested k now) (devs idx))) d =
     (if d = idx \<and> k' = k \<and> devs idx \<noteq> None then Some now else requested k' devs d)"
  by (cases k; cases k'; cases "devs idx") (auto simp: requested_def last_requested_def stamp_requested_def)

lemma requested_heard: "requested k (note_device_seen now pgn src devs) d = requested k devs d"
  by (cases k; cases "devs src") (auto simp: requested_def last_requested_def note_device_seen_def device_default_def Let_def)

text \<open>A slot of either kind: what it emits respects the state before, and what respects the state after comes later.\<close>

lemma slot_step:
  assumes "claim_turn now t st = (st', ss) \<and> k = ClaimRequest \<or> prod_turn now t st = (st', ss) \<and> k = ProductInfoRequest"
  shows "\<forall>s \<in> set ss. rs_kind s = k \<and> slot_after st s" "length ss \<le> 1"
    "\<And>y. slot_after st' y \<Longrightarrow> slot_after st y \<and> (\<forall>x \<in> set ss. slots_apart x y)"
proof -
  have "ss = [] \<and> st' = st \<or>
    (\<exists>dst. ss = [\<lparr>rs_kind = k, rs_turn = now, rs_asked = t, rs_dst = dst\<rparr>] \<and> request_due k t (rl_devices st) dst \<and>
       now - last_slot k st \<ge> DEVICE_REQUEST_SPACING \<and> last_slot k st' = now \<and>
       (\<forall>k'. k' \<noteq> k \<longrightarrow> last_slot k' st' = last_slot k' st) \<and>
       rl_devices st' = (rl_devices st)(dst := map_option (stamp_requested k t) (rl_devices st dst)))"
    using assms
    by (auto simp: claim_turn_def prod_turn_def last_slot_def duration_since_def DEVICE_REQUEST_SPACING_def
        split: if_splits prod.splits option.splits request_kind.splits dest: next_due_Some(1,3) next_due_None)
  then consider (idle) "ss = []" "st' = st"
    | (sent) dst where "ss = [\<lparr>rs_kind = k, rs_turn = now, rs_asked = t, rs_dst = dst\<rparr>]" "request_due k t (rl_devices st) dst"
        "now - last_slot k st \<ge> DEVICE_REQUEST_SPACING" "last_slot k st' = now"
        "\<forall>k'. k' \<noteq> k \<longrightarrow> last_slot k' st' = last_slot k' st"
        "rl_devices st' = (rl_devices st)(dst := map_option (stamp_requested k t) (rl_devices st dst))"
    by blast
  then have "(\<forall>s \<in> set ss. rs_kind s = k \<and> slot_after st s) \<and> length ss \<le> 1 \<and>
    (\<forall>y. slot_after st' y \<longrightarrow> slot_after st y \<and> (\<forall>x \<in> set ss. slots_apart x y))"
  proof cases
    case sent
    have old: "stamp_ok t (requested k (rl_devices st) dst)" "rl_devices st dst \<noteq> None"
      using sent(2) by (auto simp: request_due_def not_recent requested_def split: option.splits)
    have "slot_after st y \<and> (\<forall>x \<in> set ss. slots_apart x y)" if "slot_after st' y" for y
      using that sent old
      by (cases "rs_kind y = k"; cases "rs_dst y = dst")
        (auto simp: slot_after_def slots_apart_def requested_stamp stamp_ok_def DEVICE_REQUEST_SPACING_def
          DEVICE_REQUEST_INTERVAL_def split: option.splits)
    then show ?thesis using sent old(1) by (auto simp: slot_after_def)
  qed simp
  then show "\<forall>s \<in> set ss. rs_kind s = k \<and> slot_after st s" "length ss \<le> 1"
    "\<And>y. slot_after st' y \<Longrightarrow> slot_after st y \<and> (\<forall>x \<in> set ss. slots_apart x y)" by blast+
qed

lemma turn_step:
  assumes "request_turn now t1 t2 st = (st', ss)"
  shows "\<forall>s \<in> set ss. slot_after st s" "sorted_wrt slots_apart ss"
    "\<And>y. slot_after st' y \<Longrightarrow> slot_after st y \<and> (\<forall>x \<in> set ss. slots_apart x y)"
proof -
  obtain sta s1 s2 where c: "claim_turn now t1 st = (sta, s1)" and p: "prod_turn now t2 sta = (st', s2)" and ss: "ss = s1 @ s2"
    using assms by (auto simp: request_turn_def Let_def split: prod.splits)
  note one = slot_step [of now t1 st sta s1 ClaimRequest, simplified c, simplified]
  note two = slot_step [of now t2 sta st' s2 ProductInfoRequest, simplified p, simplified]
  show "\<forall>s \<in> set ss. slot_after st s" using one(1,3) two(1) ss by auto
  have short: "sorted_wrt slots_apart xs" if "length xs \<le> 1" for xs using that by (cases xs) auto
  have "\<forall>x \<in> set s1. \<forall>y \<in> set s2. slots_apart x y" using one(3) two(1) by blast
  then show "sorted_wrt slots_apart ss" unfolding ss sorted_wrt_append using short [of s1] short [of s2] one(2) two(2) by simp
  show "\<And>y. slot_after st' y \<Longrightarrow> slot_after st y \<and> (\<forall>x \<in> set ss. slots_apart x y)" using one(3) two(3) ss by auto
qed

lemma run_spaced: "sorted_wrt slots_apart (request_run es st) \<and> (\<forall>s \<in> set (request_run es st). slot_after st s)"
proof (induction es st rule: request_run.induct)
  case (1 st)
  show ?case by simp
next
  case (2 now pgn src es st)
  have "last_slot k (st\<lparr>rl_devices := d\<rparr>) = last_slot k st" for k d by (cases k) (simp_all add: last_slot_def)
  then show ?case using 2 by (simp add: slot_after_def requested_heard)
next
  case (3 now t1 t2 es st)
  obtain st' ss where t: "request_turn now t1 t2 st = (st', ss)" by fastforce
  then show ?case using 3 turn_step [OF t] by (auto simp: sorted_wrt_append)
qed

subsection \<open>Round robin\<close>

text \<open>Calls of \<open>next\_due\<close> for one kind, among what is heard.\<close>

datatype ask_event = HeardWhile int u32 u8 | AskAt int

fun ask_run :: "request_kind \<Rightarrow> ask_event list \<Rightarrow> u8 \<Rightarrow> devices \<Rightarrow> u8 option list" where
  "ask_run k [] cursor devs = []"
| "ask_run k (HeardWhile now pgn src # es) cursor devs = ask_run k es cursor (note_device_seen now pgn src devs)"
| "ask_run k (AskAt now # es) cursor devs =
     (let (r, cursor', devs') = next_due k now cursor devs in r # ask_run k es cursor' devs')"

definition answer_pgn :: "request_kind \<Rightarrow> u32" where
  "answer_pgn k = (case k of ClaimRequest \<Rightarrow> PGN_CLAIM | ProductInfoRequest \<Rightarrow> PGN_PROD_INFO)"

definition answers :: "request_kind \<Rightarrow> u8 \<Rightarrow> ask_event \<Rightarrow> bool" where
  "answers k d e \<longleftrightarrow> (case e of HeardWhile now pgn src \<Rightarrow> pgn = answer_pgn k \<and> src = d | AskAt now \<Rightarrow> False)"

definition ask_times :: "ask_event list \<Rightarrow> int list" where
  "ask_times es = List.map_filter (\<lambda>e. case e of AskAt now \<Rightarrow> Some now | _ \<Rightarrow> None) es"

lemma ask_times_simps [simp]:
  "ask_times [] = []" "ask_times (AskAt now # es) = now # ask_times es" "ask_times (HeardWhile now pgn src # es) = ask_times es"
  by (simp_all add: ask_times_def List.map_filter_simps)

lemma stays_due: "request_due k now devs d \<Longrightarrow> now \<le> now' \<Longrightarrow> request_due k now' devs d"
  by (auto simp: request_due_def recent_def duration_since_def DEVICE_REQUEST_INTERVAL_def split: option.splits)

lemma due_after_heard:
  assumes "request_due k now devs d" "\<not> (pgn = answer_pgn k \<and> src = d)"
  shows "request_due k now (note_device_seen t pgn src devs) d"
  using assms
  by (cases k) (auto simp: request_due_def note_device_seen_def answer_pgn_def last_received_def last_requested_def
      PGN_CLAIM_def PGN_PROD_INFO_def Let_def split: option.splits)

lemma due_after_other:
  assumes "request_due k now devs d" "idx \<noteq> d"
  shows "request_due k now (devs(idx := map_option (stamp_requested k t) (devs idx))) d"
  using assms by (simp add: request_due_def)

text \<open>A call that does not return the due device brings the cursor closer to it.\<close>

lemma cursor_closer:
  assumes "request_due k now devs d" "next_due k now cursor devs = (Some idx, cursor', devs')" "idx \<noteq> d"
  shows "unat (d - cursor') < unat (d - cursor)"
proof -
  obtain off where off: "off < 256" "idx = cursor + word_of_nat off" "\<forall>j < off. \<not> request_due k now devs (cursor + word_of_nat j)"
    using next_due_Some(4) [OF assms(2)] by blast
  define n where "n = unat (d - cursor)"
  have d: "d = cursor + word_of_nat n" "n < 256" using unsigned_less [of "d - cursor"] by (simp_all add: n_def)
  have "\<not> n < off" using off(3) assms(1) d(1) by auto
  moreover have "n \<noteq> off" using off(2) d(1) assms(3) by auto
  ultimately have lt: "off < n" by simp
  have "d - cursor' = word_of_nat n - word_of_nat off - 1"
    using next_due_Some(2) [OF assms(2)] d(1) off(2) by (simp add: algebra_simps)
  also have "\<dots> = word_of_nat (n - off - 1)" using lt by (simp add: of_nat_diff)
  finally have "unat (d - cursor') = n - off - 1" using d(2) by (simp add: unat_u8_of_nat)
  then show ?thesis using lt by (simp add: n_def [symmetric])
qed

lemma asked_soon:
  "request_due k t0 devs d \<Longrightarrow> list_all (\<lambda>e. \<not> answers k d e) es \<Longrightarrow> list_all (\<lambda>t. t0 \<le> t) (ask_times es) \<Longrightarrow>
   unat (d - cursor) < length (ask_times es) \<Longrightarrow> Some d \<in> set (ask_run k es cursor devs)"
proof (induction k es cursor devs rule: ask_run.induct)
  case (2 k now pgn src es cursor devs)
  have heard: "request_due k t0 (note_device_seen now pgn src devs) d"
    by (rule due_after_heard [OF 2(2)]) (use 2(3) in \<open>simp add: answers_def\<close>)
  have rest: "list_all (\<lambda>e. \<not> answers k d e) es" using 2(3) by (simp only: list.pred_inject)
  show ?case unfolding ask_run.simps
    by (rule 2(1) [OF heard rest 2(4) [unfolded ask_times_simps] 2(5) [unfolded ask_times_simps]])
next
  case (3 k now es cursor devs)
  have due: "request_due k now devs d" by (rule stays_due [OF 3(2)]) (use 3(4) in simp)
  obtain idx where idx: "fst (next_due k now cursor devs) = Some idx" by (rule next_due_finds [OF due])
  then obtain cursor' devs' where nd: "next_due k now cursor devs = (Some idx, cursor', devs')" by (metis prod.collapse)
  show ?case
  proof (cases "idx = d")
    case True
    then show ?thesis using nd by simp
  next
    case False
    have "request_due k t0 devs' d" using next_due_Some(3) [OF nd] due_after_other [OF 3(2) False] by simp
    moreover have "unat (d - cursor') < length (ask_times es)"
      using cursor_closer [OF due nd False] 3(5) [unfolded ask_times_simps list.size] by linarith
    moreover have "list_all (\<lambda>e. \<not> answers k d e) es" "list_all (\<lambda>t. t0 \<le> t) (ask_times es)"
      using 3(3,4) by simp_all
    ultimately have "Some d \<in> set (ask_run k es cursor' devs')"
      using 3(1) [OF nd [symmetric] refl] by blast
    then show ?thesis using nd by simp
  qed
qed simp

subsection \<open>Properties\<close>

text \<open>
  C37: Whatever is heard, the requests of one kind come at least a second apart by the clock of their turns, and two of them to the same device
  at least five minutes apart.
\<close>

theorem requests_spaced:
  "sorted_wrt slots_apart (request_run events (request_loop_start now devs))"
  using run_spaced [of events "request_loop_start now devs"] by blast

text \<open>
  C38: A device that was heard and has neither been asked nor answered of late is asked by one of the next 256 calls, wherever the cursor
  stands, unless its answer comes first.
\<close>

theorem due_device_is_asked:
  assumes "request_due k t0 devs d" "list_all (\<lambda>e. \<not> answers k d e) events"
    "list_all (\<lambda>t. t0 \<le> t) (ask_times events)" "length (ask_times events) \<ge> 256"
  shows "Some d \<in> set (ask_run k events cursor devs)"
proof -
  have "unat (d - cursor) < 256" using unsigned_less [of "d - cursor"] by simp
  then show ?thesis using asked_soon [OF assms(1-3), of cursor] assms(4) by simp
qed

lemma due_device_is_asked_witness:
  "Some 9 \<in> set (ask_run ClaimRequest (replicate 256 (AskAt 1000)) 10 (note_device_seen 0 127251 9 Map.empty))"
proof (rule due_device_is_asked)
  show "request_due ClaimRequest 1000 (note_device_seen 0 127251 9 Map.empty) 9"
    by (simp add: request_due_def note_device_seen_def device_default_def PGN_CLAIM_def PGN_PROD_INFO_def recent_def
        last_received_def last_requested_def)
  have "ask_times (replicate n (AskAt 1000)) = replicate n 1000" for n by (induction n) simp_all
  then show "list_all (\<lambda>t. 1000 \<le> t) (ask_times (replicate 256 (AskAt 1000)))"
    "length (ask_times (replicate 256 (AskAt 1000))) \<ge> 256"
    by (simp_all add: list_all_iff)
qed (simp add: list_all_iff answers_def)

end
