(* ===== verification/Nmea_Filter.thy ===== *)
theory Nmea_Filter
  imports Text_Codec Raw_Frame Hex "HOL-Library.List_Lexorder" "HOL-Library.AList"
begin

section \<open>Muting devices on the NMEA 0183 output (canboat-bridge/src/n2kd/nmea\_filter.rs)\<close>

text \<open>
  \<open>NmeaFilter\<close>: rules keyed by NAME, the NAME learned for each source, and the sentence formatters seen from it.  Texts are the UTF-8 bytes of the
  Rust strings; a map is an association list (rules) or a function (sources), a \<open>BTreeSet\<close> an ascending list.  The file that keeps the
  rules is read and written with serde\_json: only its rows are modelled.
\<close>

definition PGN_NMEA0183_FILTER :: u32 where "PGN_NMEA0183_FILTER = 262657"
definition FILTER_FN_REPORT :: u8 where "FILTER_FN_REPORT = 0"
definition FILTER_FN_SET :: u8 where "FILTER_FN_SET = 1"
definition FILTER_FN_REQUEST :: u8 where "FILTER_FN_REQUEST = 2"

definition is_set_frame :: "raw_frame \<Rightarrow> bool" where
  "is_set_frame f \<longleftrightarrow> rf_pgn f = PGN_NMEA0183_FILTER \<and> rf_data f \<noteq> [] \<and> hd (rf_data f) = FILTER_FN_SET"

definition is_request_frame :: "raw_frame \<Rightarrow> bool" where
  "is_request_frame f \<longleftrightarrow> rf_pgn f = PGN_NMEA0183_FILTER \<and> rf_data f \<noteq> [] \<and> hd (rf_data f) = FILTER_FN_REQUEST"

definition ALL_SENTENCES :: "u8 list" where "ALL_SENTENCES = [65, 76, 76]"

definition name_to_hex :: "u64 \<Rightarrow> string" where
  "name_to_hex k = show_hex_padded False 16 (unat k)"

fun trim_start_0x :: "string \<Rightarrow> string" where
  "trim_start_0x (a # b # r) = (if a = CHR ''0'' \<and> b = CHR ''x'' then trim_start_0x r else a # b # r)"
| "trim_start_0x s = s"

definition name_from_hex :: "string \<Rightarrow> u64 option" where
  "name_from_hex s = map_option word_of_nat (parse_hex (2 ^ 64 - 1) (trim_start_0x s))"

record device_rule =
  ru_muted :: bool
  ru_sentences :: "u8 list list"

definition rule_default :: device_rule where
  "rule_default = \<lparr>ru_muted = False, ru_sentences = []\<rparr>"

datatype decision = DropAll | Keep "u8 list list"

record nmea_filter =
  nf_src_name :: "u8 \<Rightarrow> u64 option"
  nf_rules :: "(u64 \<times> device_rule) list"
  nf_observed :: "u8 \<Rightarrow> u8 list list option"

text \<open>The filter over the rows of the file, if there is one; a later row of the same NAME wins.\<close>

definition filter_load :: "(string \<times> device_rule) list \<Rightarrow> nmea_filter" where
  "filter_load devices =
     \<lparr>nf_src_name = (\<lambda>_. None),
      nf_rules = foldl (\<lambda>m (n, r). case name_from_hex n of Some k \<Rightarrow> AList.update k r m | None \<Rightarrow> m) [] devices,
      nf_observed = (\<lambda>_. None)\<rparr>"

definition saved_rows :: "nmea_filter \<Rightarrow> (string \<times> device_rule) list" where
  "saved_rows f = sort_key (map of_char \<circ> fst :: string \<times> device_rule \<Rightarrow> nat list) (map (\<lambda>(k, r). (name_to_hex k, r)) (nf_rules f))"

definition note_address_claim :: "u8 \<Rightarrow> u64 \<Rightarrow> nmea_filter \<Rightarrow> nmea_filter" where
  "note_address_claim src nm f = f\<lparr>nf_src_name := (nf_src_name f)(src := Some nm)\<rparr>"

definition decide :: "nmea_filter \<Rightarrow> u8 \<Rightarrow> decision" where
  "decide f src =
     (if nf_rules f = [] then Keep []
      else case nf_src_name f src of
        None \<Rightarrow> DropAll
      | Some nm \<Rightarrow>
          (case map_of (nf_rules f) nm of
             Some rule \<Rightarrow> if ru_muted rule then DropAll else Keep (ru_sentences rule)
           | None \<Rightarrow> Keep []))"

subsection \<open>Sentences\<close>

definition char_boundary :: "u8 list \<Rightarrow> nat \<Rightarrow> bool" where
  "char_boundary s i \<longleftrightarrow> i = length s \<or> i < length s \<and> s ! i AND 0xC0 \<noteq> 0x80"

definition sentence_formatter :: "u8 list \<Rightarrow> u8 list option" where
  "sentence_formatter line =
     (case line of
        [] \<Rightarrow> None
      | c # s \<Rightarrow>
          if c \<noteq> 36 then None
          else if char_boundary s 2 \<and> char_boundary s 5 then Some (take 3 (drop 2 s)) else None)"

text \<open>\<open>split\_inclusive('\\n')\<close>.\<close>

fun split_lines :: "u8 list \<Rightarrow> u8 list list" where
  "split_lines [] = []"
| "split_lines (c # s) =
     (if c = 10 then [c] # split_lines s
      else case split_lines s of [] \<Rightarrow> [[c]] | l # ls \<Rightarrow> (c # l) # ls)"

definition observe :: "u8 \<Rightarrow> nmea_filter \<Rightarrow> u8 list \<Rightarrow> nmea_filter" where
  "observe src f line =
     (case sentence_formatter line of
        None \<Rightarrow> f
      | Some fmt \<Rightarrow>
          (let known = (case nf_observed f src of Some fs \<Rightarrow> fs | None \<Rightarrow> []) in
           if nf_observed f src \<noteq> None \<and> fmt \<in> set known then f
           else f\<lparr>nf_observed := (nf_observed f)(src := Some (List.insort_insert fmt known))\<rparr>))"

definition muted_line :: "u8 list list \<Rightarrow> u8 list \<Rightarrow> bool" where
  "muted_line muted line = (case sentence_formatter line of Some fmt \<Rightarrow> fmt \<in> set muted | None \<Rightarrow> False)"

definition filter_apply :: "u8 \<Rightarrow> u8 list \<Rightarrow> nmea_filter \<Rightarrow> nmea_filter \<times> u8 list" where
  "filter_apply src buf f =
     (let f = foldl (observe src) f (split_lines buf) in
      case decide f src of
        DropAll \<Rightarrow> (f, [])
      | Keep muted \<Rightarrow>
          if muted = [] then (f, buf) else (f, concat (filter (\<lambda>l. \<not> muted_line muted l) (split_lines buf))))"

subsection \<open>Rules\<close>

definition edit_rule :: "u8 list \<Rightarrow> bool \<Rightarrow> device_rule \<Rightarrow> device_rule" where
  "edit_rule sentence muted rule =
     (if sentence = ALL_SENTENCES then rule\<lparr>ru_muted := muted\<rparr>
      else if muted then
        (if sentence \<in> set (ru_sentences rule) then rule else rule\<lparr>ru_sentences := ru_sentences rule @ [sentence]\<rparr>)
      else rule\<lparr>ru_sentences := filter (\<lambda>s. s \<noteq> sentence) (ru_sentences rule)\<rparr>)"

definition filter_set :: "u8 \<Rightarrow> u8 list \<Rightarrow> bool \<Rightarrow> nmea_filter \<Rightarrow> nmea_filter \<times> bool" where
  "filter_set src sentence muted f =
     (case nf_src_name f src of
        None \<Rightarrow> (f, False)
      | Some nm \<Rightarrow>
          (let rule = edit_rule sentence muted (case map_of (nf_rules f) nm of Some r \<Rightarrow> r | None \<Rightarrow> rule_default);
               rules = (if \<not> ru_muted rule \<and> ru_sentences rule = [] then AList.delete nm (nf_rules f)
                        else AList.update nm rule (nf_rules f))
           in (f\<lparr>nf_rules := rules\<rparr>, True)))"

text \<open>\<open>std::str::from\_utf8\<close>: the bytes of a text.\<close>

definition valid_utf8 :: "u8 list \<Rightarrow> bool" where
  "valid_utf8 bs \<longleftrightarrow> utf8_bytes (from_utf8_lossy bs) = bs"

definition trim_blanks :: "u8 list \<Rightarrow> u8 list" where
  "trim_blanks bs = (let blank = (\<lambda>b. b = 0 \<or> b = 32) in rev (dropWhile blank (rev (dropWhile blank bs))))"

definition apply_set_frame :: "u8 list \<Rightarrow> nmea_filter \<Rightarrow> nmea_filter" where
  "apply_set_frame data f =
     (if length data < 6 then f
      else let src = data ! 1; bs = take 3 (drop 2 data);
               sentence = trim_blanks (if valid_utf8 bs then bs else [])
           in if sentence = [] then f else fst (filter_set src sentence (data ! 5 \<noteq> 0) f))"

record report_row =
  rr_src :: u8
  rr_sentence :: "u8 list"
  rr_muted :: bool

definition source_report :: "nmea_filter \<Rightarrow> u8 \<Rightarrow> report_row list" where
  "source_report f src =
     (case nf_observed f src of
        None \<Rightarrow> []
      | Some formatters \<Rightarrow>
          (let source_muted = (decide f src = DropAll) in
           \<lparr>rr_src = src, rr_sentence = ALL_SENTENCES, rr_muted = source_muted\<rparr> #
           map (\<lambda>fmt. \<lparr>rr_src = src, rr_sentence = fmt,
                  rr_muted = (source_muted \<or> (case decide f src of Keep m \<Rightarrow> fmt \<in> set m | DropAll \<Rightarrow> False))\<rparr>) formatters))"

definition filter_report :: "nmea_filter \<Rightarrow> report_row list" where
  "filter_report f = concat (map (\<lambda>i. source_report f (word_of_nat i)) [0..<256])"

definition report_frames :: "string option \<Rightarrow> nmea_filter \<Rightarrow> raw_frame list" where
  "report_frames timestamp f =
     map (\<lambda>row.
       let b = rr_sentence row; at = (\<lambda>i. if i < length b then b ! i else 32) in
       raw_frame_new timestamp 7 PGN_NMEA0183_FILTER 0 255
         [FILTER_FN_REPORT, rr_src row, at 0, at 1, at 2, (if rr_muted row then 1 else 0), 0xff, 0xff]) (filter_report f)"

subsection \<open>What is dropped\<close>

text \<open>The rule a source is under, and whether a line of it is dropped.\<close>

definition rule_of :: "nmea_filter \<Rightarrow> u64 \<Rightarrow> device_rule" where
  "rule_of f nm = (case map_of (nf_rules f) nm of Some r \<Rightarrow> r | None \<Rightarrow> rule_default)"

definition dropped :: "nmea_filter \<Rightarrow> u8 \<Rightarrow> u8 list \<Rightarrow> bool" where
  "dropped f src line = (case decide f src of DropAll \<Rightarrow> True | Keep m \<Rightarrow> muted_line m line)"

lemma decide_known:
  "nf_src_name f src = Some nm \<Longrightarrow> decide f src = (if ru_muted (rule_of f nm) then DropAll else Keep (ru_sentences (rule_of f nm)))"
  by (auto simp: decide_def rule_of_def rule_default_def split: option.splits)

lemma rule_of_set:
  assumes "nf_src_name f src = Some nm"
  shows "rule_of (fst (filter_set src s m f)) nm' = (if nm' = nm then edit_rule s m (rule_of f nm) else rule_of f nm')"
    "nf_src_name (fst (filter_set src s m f)) = nf_src_name f"
proof -
  have empty: "r = rule_default" if "\<not> ru_muted r" "ru_sentences r = []" for r
    using that by (cases r) (simp add: rule_default_def)
  show "rule_of (fst (filter_set src s m f)) nm' = (if nm' = nm then edit_rule s m (rule_of f nm) else rule_of f nm')"
    using assms empty [of "edit_rule s m (rule_of f nm)"]
    by (auto simp: filter_set_def rule_of_def update_conv delete_conv Let_def split: option.splits)
  show "nf_src_name (fst (filter_set src s m f)) = nf_src_name f"
    using assms by (simp add: filter_set_def Let_def)
qed

lemma observe_keeps: "nf_rules (foldl (observe src) f ls) = nf_rules f \<and> nf_src_name (foldl (observe src) f ls) = nf_src_name f"
  by (induction ls arbitrary: f) (simp_all add: observe_def Let_def split: option.split)

lemma decide_observed: "decide (foldl (observe src) f ls) s = decide f s"
  unfolding decide_def by (simp only: conjunct1 [OF observe_keeps] conjunct2 [OF observe_keeps])

lemma concat_split_lines [simp]: "concat (split_lines buf) = buf"
  by (induction buf rule: split_lines.induct) (auto split: list.splits)

lemma filter_apply_output: "snd (filter_apply src buf f) = concat (filter (\<lambda>l. \<not> dropped f src l) (split_lines buf))"
proof -
  have none: "\<not> muted_line [] l" for l by (simp add: muted_line_def split: option.split)
  show ?thesis
    by (auto simp: filter_apply_def dropped_def decide_observed none Let_def split: decision.split)
qed

text \<open>The report of a source says of each formatter whether lines of it are dropped.\<close>

lemma source_report_true:
  assumes "row \<in> set (source_report f src)" "rr_sentence row \<noteq> ALL_SENTENCES" "sentence_formatter line = Some (rr_sentence row)"
  shows "rr_muted row \<longleftrightarrow> dropped f src line"
  using assms by (auto simp: source_report_def dropped_def muted_line_def Let_def split: option.splits decision.splits)

lemma name_hex_roundtrip: "name_from_hex (name_to_hex k) = Some k"
proof -
  have no_x: "trim_start_0x s = s" if "list_all is_hex s" for s
    using that by (cases s rule: trim_start_0x.cases) (auto simp: is_hex_def hex_value_def)
  have "unat k < 2 ^ 64" using unsigned_less [where w = k] by simp
  then have "unat k \<le> 2 ^ 64 - 1" by simp
  then show ?thesis
    unfolding name_from_hex_def name_to_hex_def by (simp add: no_x show_hex_padded_digits)
qed

subsection \<open>Properties\<close>

text \<open>
  C39: After a change of the rule of a source with a learned NAME, a buffer of sentences of that source, each starting with a dollar sign,
  loses exactly the lines the edited rule mutes, in place; a source known under another NAME is filtered as before.
\<close>

theorem set_takes_effect:
  assumes "nf_src_name f src = Some nm" "\<forall>l \<in> set (split_lines buf). hd l = 36"
  shows "snd (filter_apply src buf (fst (filter_set src s m f))) =
      concat (filter (\<lambda>l. \<not> (if s = ALL_SENTENCES then m \<or> muted_line (ru_sentences (rule_of f nm)) l
                           else ru_muted (rule_of f nm) \<or>
                             (if sentence_formatter l = Some s then m else muted_line (ru_sentences (rule_of f nm)) l)))
        (split_lines buf)) \<and>
    (nf_src_name f other \<notin> {None, Some nm} \<longrightarrow>
       snd (filter_apply other buf (fst (filter_set src s m f))) = snd (filter_apply other buf f))"
proof -
  let ?f = "fst (filter_set src s m f)" and ?r = "rule_of f nm"
  have "dropped ?f src l = (if s = ALL_SENTENCES then m \<or> muted_line (ru_sentences ?r) l
      else ru_muted ?r \<or> (if sentence_formatter l = Some s then m else muted_line (ru_sentences ?r) l))" for l
    using decide_known [of ?f src nm] rule_of_set(1) [OF assms(1), of s m nm] rule_of_set(2) [OF assms(1), of s m] assms(1)
    by (auto simp: dropped_def muted_line_def edit_rule_def split: option.splits if_splits)
  moreover have "dropped ?f other l = dropped f other l" if "nf_src_name f other = Some nm'" "nm' \<noteq> nm" for l nm'
    using decide_known [of ?f other nm'] decide_known [of f other nm'] rule_of_set(1) [OF assms(1), of s m nm'] rule_of_set(2) [OF assms(1), of s m] that
    by (simp add: dropped_def)
  ultimately show ?thesis by (auto simp: filter_apply_output)
qed

definition demo_filter :: nmea_filter where
  "demo_filter = note_address_claim 5 0x77 \<lparr>nf_src_name = (\<lambda>_. None), nf_rules = [], nf_observed = (\<lambda>_. None)\<rparr>"

lemma set_takes_effect_witness:
  "snd (filter_apply 5 [36, 73, 73, 86, 72, 87, 10, 36, 73, 73, 72, 68, 71, 10] (fst (filter_set 5 [86, 72, 87] True demo_filter))) =
     [36, 73, 73, 72, 68, 71, 10]"
proof -
  have "nf_src_name demo_filter 5 = Some 0x77" by (simp add: demo_filter_def note_address_claim_def)
  moreover have "\<forall>l \<in> set (split_lines [36, 73, 73, 86, 72, 87, 10, 36, 73, 73, 72, 68, 71, 10]). hd l = 36"
    by simp
  ultimately have "nf_src_name demo_filter 5 = Some 0x77"
    "\<forall>l \<in> set (split_lines [36, 73, 73, 86, 72, 87, 10, 36, 73, 73, 72, 68, 71, 10]). hd l = 36" by blast+
  note * = conjunct1 [OF set_takes_effect [OF this, where s = "[86, 72, 87]" and m = True]]
  show ?thesis unfolding * by code_simp
qed

end
