(* ===== verification/Json_Text.thy ===== *)
theory Json_Text
  imports Ascii
begin

section \<open>JSON texts\<close>

text \<open>
  The part of the JSON grammar (RFC 8259) the analyzer's lines are written in, as inductive predicates over texts of bytes: the
  specification of the writer (\<open>Json_Output\<close>) and of what the scanners over its lines (\<open>Analyzer_Json\<close>) read.  Numbers have no
  exponent, blanks stand around values and members, and no byte order mark or encoding is checked.
\<close>

abbreviation quote :: char where "quote \<equiv> CHR 0x22"
abbreviation backslash :: char where "backslash \<equiv> CHR 0x5C"

inductive json_chars :: "string \<Rightarrow> bool" where
  chars_nil [intro, simp]: "json_chars []"
| chars_plain: "c \<noteq> quote \<Longrightarrow> c \<noteq> backslash \<Longrightarrow> 0x20 \<le> (of_char c :: nat) \<Longrightarrow> json_chars s \<Longrightarrow> json_chars (c # s)"
| chars_escape: "c \<in> set [quote, backslash, CHR ''/'', CHR ''b'', CHR ''f'', CHR ''n'', CHR ''r'', CHR ''t''] \<Longrightarrow>
    json_chars s \<Longrightarrow> json_chars (backslash # c # s)"
| chars_unicode: "length h = 4 \<Longrightarrow> list_all (\<lambda>c. is_digit c \<or> c \<in> set ''abcdef'') h \<Longrightarrow> json_chars s \<Longrightarrow>
    json_chars (backslash # CHR ''u'' # h @ s)"

definition json_string :: "string \<Rightarrow> bool" where
  "json_string s \<longleftrightarrow> (\<exists>b. json_chars b \<and> s = quote # b @ [quote])"

definition json_number :: "string \<Rightarrow> bool" where
  "json_number s \<longleftrightarrow>
     (\<exists>sg i fr. s = sg @ i @ fr \<and> sg \<in> {[], ''-''} \<and> i \<noteq> [] \<and> list_all is_digit i \<and> (hd i = CHR ''0'' \<longrightarrow> i = ''0'') \<and>
        (fr = [] \<or> (\<exists>ds. fr = CHR ''.'' # ds \<and> ds \<noteq> [] \<and> list_all is_digit ds)))"

definition json_blank :: "char \<Rightarrow> bool" where
  "json_blank c \<longleftrightarrow> c \<in> set [CHR '' '', CHR 0x09, CHR 0x0A, CHR 0x0D]"

text \<open>Values, the inside of an object and the inside of an array; the two insides may be split at any comma.\<close>

inductive json_value :: "string \<Rightarrow> bool" and json_members :: "string \<Rightarrow> bool" and json_elements :: "string \<Rightarrow> bool" where
  value_number: "json_number s \<Longrightarrow> json_value s"
| value_string: "json_string s \<Longrightarrow> json_value s"
| value_literal: "s \<in> {''null'', ''true'', ''false''} \<Longrightarrow> json_value s"
| value_blank: "json_blank c \<Longrightarrow> json_value s \<Longrightarrow> json_value (c # s)"
| value_blank_end: "json_blank c \<Longrightarrow> json_value s \<Longrightarrow> json_value (s @ [c])"
| value_empty_object: "json_value ''{}''"
| value_object: "json_members m \<Longrightarrow> json_value (''{'' @ m @ ''}'')"
| value_empty_array: "json_value ''[]''"
| value_array: "json_elements e \<Longrightarrow> json_value (''['' @ e @ '']'')"
| members_one: "json_string k \<Longrightarrow> json_value v \<Longrightarrow> json_members (k @ '':'' @ v)"
| members_blank: "json_blank c \<Longrightarrow> json_members m \<Longrightarrow> json_members (c # m)"
| members_blank_end: "json_blank c \<Longrightarrow> json_members m \<Longrightarrow> json_members (m @ [c])"
| members_append: "json_members a \<Longrightarrow> json_members b \<Longrightarrow> json_members (a @ '','' @ b)"
| elements_one: "json_value v \<Longrightarrow> json_elements v"
| elements_append: "json_elements a \<Longrightarrow> json_elements b \<Longrightarrow> json_elements (a @ '','' @ b)"

lemmas json_text_intros = value_number value_string value_literal value_blank value_blank_end value_empty_object value_object
  value_empty_array value_array members_one members_blank members_blank_end members_append elements_one elements_append

definition json_object :: "string \<Rightarrow> bool" where
  "json_object s \<longleftrightarrow> s = ''{}'' \<or> (\<exists>m. json_members m \<and> s = ''{'' @ m @ ''}'')"

lemma json_object_value: "json_object s \<Longrightarrow> json_value s"
  by (auto simp: json_object_def intro: value_empty_object value_object [simplified])

subsection \<open>Strings and numbers\<close>

lemma json_chars_append [intro]: "json_chars a \<Longrightarrow> json_chars b \<Longrightarrow> json_chars (a @ b)"
proof (induction rule: json_chars.induct)
  case (chars_unicode h s)
  then show ?case using json_chars.chars_unicode [of h "s @ b"] by simp
qed (auto intro: json_chars.intros)

lemma digit_plain: "is_digit c \<Longrightarrow> c \<notin> {quote, backslash, CHR ''{'', CHR ''}'', CHR ''['', CHR '']'', CHR '','', CHR '':'', CHR ''-''}"
  by (auto simp: is_digit_def)

lemma json_number_chars: "json_number s \<Longrightarrow> list_all (\<lambda>c. is_digit c \<or> c = CHR ''-'' \<or> c = CHR ''.'') s \<and> s \<noteq> []"
  by (auto simp: json_number_def list_all_iff)

lemma json_elements_join: "os \<noteq> [] \<Longrightarrow> list_all json_value os \<Longrightarrow> json_elements (join '','' os)"
proof (induction "'',''" os rule: join.induct)
  case (3 s t ss)
  then show ?case using elements_append [OF elements_one, of s "join '','' (t # ss)"] by simp
qed (auto intro: elements_one)

lemma show_nat_hd: "0 < n \<Longrightarrow> hd (show_nat n) \<noteq> CHR ''0''"
proof (induction n rule: show_nat.induct)
  case (1 n)
  have "digit_char n \<noteq> CHR ''0''" if "n < 10"
  proof
    assume "digit_char n = CHR ''0''"
    then have "(of_char (digit_char n) :: nat) = 48" by simp
    then show False using that 1(2) by simp
  qed
  then show ?case using 1 by (subst show_nat.simps) auto
qed

lemma json_number_digits [intro]: "list_all is_digit s \<Longrightarrow> s \<noteq> [] \<Longrightarrow> (hd s = CHR ''0'' \<longrightarrow> s = ''0'') \<Longrightarrow> json_number s"
  unfolding json_number_def by (intro exI [of _ "[]"] exI [of _ s]) simp

lemma show_nat_zero: "hd (show_nat n) = CHR ''0'' \<longrightarrow> show_nat n = ''0''"
proof (cases "n = 0")
  case True
  then show ?thesis by (simp add: show_nat.simps zero_char)
qed (use show_nat_hd [of n] in simp)

lemma json_number_nat: "json_number (show_nat n)"
  using show_nat_digits [of n] show_nat_zero by auto

lemma json_number_fixed:
  assumes "sg \<in> {[], ''-''}" "list_all is_digit ds" "ds \<noteq> []"
  shows "json_number (sg @ show_nat n @ CHR ''.'' # ds)" "json_number (sg @ show_nat n)"
proof -
  have i: "show_nat n \<noteq> [] \<and> list_all is_digit (show_nat n) \<and> (hd (show_nat n) = CHR ''0'' \<longrightarrow> show_nat n = ''0'')"
    using show_nat_digits [of n] show_nat_zero by simp
  show "json_number (sg @ show_nat n @ CHR ''.'' # ds)"
    unfolding json_number_def by (rule exI [of _ sg], rule exI [of _ "show_nat n"], rule exI [of _ "CHR ''.'' # ds"]) (use i assms in simp)
  show "json_number (sg @ show_nat n)"
    unfolding json_number_def by (rule exI [of _ sg], rule exI [of _ "show_nat n"], rule exI [of _ "[]"]) (use i assms in simp)
qed

end
