(* ===== verification/Analyzer_Json.thy ===== *)
theory Analyzer_Json
  imports Json_Text Timestamp Schema
begin

section \<open>Reading values out of analyzer lines (canboat-core/src/analyzer\_json.rs)\<close>

text \<open>
  The scanners that take a value, an array or the elements of an array out of a JSON line without parsing it.  A line is the list of
  its bytes; a loop over a byte index is a recursion on the rest of the line that returns how many bytes it has passed.  Blanks at
  the ends of a text are the ASCII ones.
\<close>

text \<open>\<open>str::find\<close> of a text.\<close>

fun find_str :: "string \<Rightarrow> string \<Rightarrow> nat option" where
  "find_str p [] = (if p = [] then Some 0 else None)"
| "find_str p (c # s) = (if starts_with (c # s) p then Some 0 else map_option Suc (find_str p s))"

definition needle :: "string \<Rightarrow> string" where
  "needle field = quote # field @ [quote, CHR '':'']"

definition camel_wrapper_id :: "string \<Rightarrow> string option" where
  "camel_wrapper_id line =
     Option.bind (strip_prefix (trim_start line) ''{'') (\<lambda>s.
     Option.bind (strip_prefix (trim_start s) [quote]) (\<lambda>s.
     Option.bind (split_once quote s) (\<lambda>(key, _).
       if key \<in> {''timestamp'', ''prio'', ''src'', ''dst'', ''pgn'', ''description'', ''fields''} then None else Some key)))"

text \<open>The bytes of a string up to its closing quote, or to the end.\<close>

fun string_body :: "string \<Rightarrow> nat" where
  "string_body [] = 0"
| "string_body [c] = (if c = quote then 0 else 1)"
| "string_body (c # d # s) =
     (if c = quote then 0 else if c = backslash then 2 + string_body s else 1 + string_body (d # s))"

text \<open>The bytes through the bracket that closes the first one; brackets inside strings count too.\<close>

fun close_plain :: "char \<Rightarrow> char \<Rightarrow> nat \<Rightarrow> string \<Rightarrow> nat option" where
  "close_plain op cl depth [] = None"
| "close_plain op cl depth (c # s) =
     (if c = op then map_option Suc (close_plain op cl (depth + 1) s)
      else if c = cl then (if depth = 1 then Some 1 else map_option Suc (close_plain op cl (depth - 1) s))
      else map_option Suc (close_plain op cl depth s))"

definition is_blank :: "char \<Rightarrow> bool" where
  "is_blank c \<longleftrightarrow> c = CHR '' '' \<or> c = CHR 0x09"

definition value_start :: "string \<Rightarrow> string \<Rightarrow> nat option" where
  "value_start msg field =
     map_option (\<lambda>i. let start = i + length (needle field) in start + length (takeWhile is_blank (drop start msg)))
       (find_str (needle field) msg)"

definition aj_value :: "string \<Rightarrow> string \<Rightarrow> string option" where
  "aj_value msg field =
     Option.bind (value_start msg field) (\<lambda>start.
       case drop start msg of
         [] \<Rightarrow> None
       | c # body \<Rightarrow>
           if c = quote then Some (take (string_body body) body)
           else if c = CHR ''{'' then map_option (\<lambda>n. take n (c # body)) (close_plain CHR ''{'' CHR ''}'' 0 (c # body))
           else if c = CHR ''['' then map_option (\<lambda>n. take n (c # body)) (close_plain CHR ''['' CHR '']'' 0 (c # body))
           else Some (takeWhile (\<lambda>x. x \<notin> {CHR '','', CHR ''}'', CHR '' '', CHR 0x09, CHR 0x0A, CHR 0x0D}) (c # body)))"

lemma aj_value_shorter:
  assumes "aj_value msg field = Some v"
  shows "length v < length msg"
proof -
  obtain start where s: "value_start msg field = Some start"
    using assms by (cases "value_start msg field") (simp_all add: aj_value_def)
  obtain c body where d: "drop start msg = c # body"
    using assms s by (cases "drop start msg") (simp_all add: aj_value_def)
  have tw: "length (takeWhile P xs) \<le> length xs" for P and xs :: string by (rule length_takeWhile_le)
  have "length v \<le> length (c # body)"
  proof (cases "c = quote \<or> c = CHR ''{'' \<or> c = CHR ''[''")
    case True
    then show ?thesis using assms by (elim disjE) (auto simp: aj_value_def s d)
  next
    case False
    then have "v = takeWhile (\<lambda>x. x \<notin> {CHR '','', CHR ''}'', CHR '' '', CHR 0x09, CHR 0x0A, CHR 0x0D}) (c # body)"
      using assms by (simp add: aj_value_def s d del: takeWhile.simps)
    then show ?thesis using tw by blast
  qed
  moreover have "0 < start" using s by (auto simp: value_start_def needle_def Let_def)
  moreover have "length msg - start = Suc (length body)" using arg_cong [OF d, of length] by simp
  ultimately show ?thesis by simp
qed

function aj_int :: "string \<Rightarrow> string \<Rightarrow> int option" where
  "aj_int msg field =
     (case aj_value msg field of
        None \<Rightarrow> None
      | Some v \<Rightarrow> if starts_with v ''{'' then aj_int v ''value'' else parse_i64 (trim v))"
  by pat_completeness auto
termination aj_int
  by (relation "measure (\<lambda>(msg, _). length msg)") (auto dest: aj_value_shorter)

declare aj_int.simps [simp del]

function aj_number :: "'f float_ops \<Rightarrow> string \<Rightarrow> string \<Rightarrow> 'f option" where
  "aj_number fo msg field =
     (case aj_value msg field of
        None \<Rightarrow> None
      | Some v \<Rightarrow>
          if v = ''null'' \<or> v = [] then None
          else if starts_with v ''{'' then aj_number fo v ''value'' else fo_parse fo (trim v))"
  by pat_completeness auto
termination aj_number
  by (relation "measure (\<lambda>(_, msg, _). length msg)") (auto dest: aj_value_shorter)

declare aj_number.simps [simp del]

definition lookup_int :: "string \<Rightarrow> string \<Rightarrow> int option" where
  "lookup_int msg field =
     Option.bind (aj_value msg field) (\<lambda>obj. if starts_with obj ''{'' then aj_int obj ''value'' else parse_i64 (trim obj))"

definition value_or_name :: "string \<Rightarrow> string \<Rightarrow> string option" where
  "value_or_name msg field =
     Option.bind (aj_value msg field) (\<lambda>v. if starts_with v ''{'' then aj_value v ''name'' else Some v)"

definition lookup_text :: "string \<Rightarrow> string \<Rightarrow> string option" where
  "lookup_text msg field =
     Option.bind (aj_value msg field) (\<lambda>v.
       if starts_with v ''{'' then (case aj_value v ''value'' of Some x \<Rightarrow> Some x | None \<Rightarrow> aj_value v ''name'') else Some v)"

subsection \<open>Arrays\<close>

text \<open>
  The scan for the bracket that closes the first one, strings skipped: closed after \<open>n\<close> bytes, at the end of the text with the bracket
  open, or past the end, the index one beyond it after an unterminated string.
\<close>

datatype scan_end = Closed nat | AtEnd nat | PastEnd

definition passed :: "nat \<Rightarrow> scan_end \<Rightarrow> scan_end" where
  "passed k e = (case e of Closed n \<Rightarrow> Closed (k + n) | AtEnd n \<Rightarrow> AtEnd (k + n) | PastEnd \<Rightarrow> PastEnd)"

function match_close :: "char \<Rightarrow> char \<Rightarrow> nat \<Rightarrow> string \<Rightarrow> scan_end" where
  "match_close op cl depth [] = AtEnd 0"
| "match_close op cl depth (c # s) =
     (if c = op then passed 1 (match_close op cl (depth + 1) s)
      else if c = cl then (if depth = 1 then Closed 1 else passed 1 (match_close op cl (depth - 1) s))
      else if c = quote then
        (let n = string_body s in if n < length s then passed (n + 2) (match_close op cl depth (drop (n + 1) s)) else PastEnd)
      else passed 1 (match_close op cl depth s))"
  by pat_completeness auto
termination match_close
  by (relation "measure (\<lambda>(_, _, _, s). length s)") auto

definition array_span :: "string \<Rightarrow> string \<Rightarrow> (nat \<times> nat) option" where
  "array_span msg field =
     Option.bind (value_start msg field) (\<lambda>start.
       if start \<ge> length msg \<or> msg ! start \<noteq> CHR ''['' then None
       else case match_close CHR ''['' CHR '']'' 0 (drop start msg) of Closed n \<Rightarrow> Some (start, start + n) | _ \<Rightarrow> None)"

text \<open>\<open>None\<close>: the slice past the end panics.\<close>

lemma match_close_pos: "match_close op cl depth (c # s) = Closed n \<or> match_close op cl depth (c # s) = AtEnd n \<Longrightarrow> 0 < n"
  by (auto simp: passed_def Let_def split: if_splits scan_end.splits)

function split_elements :: "string \<Rightarrow> string list option" where
  "split_elements [] = Some []"
| "split_elements (c # s) =
     (if c = CHR '']'' then Some []
      else if c = CHR ''{'' then
        (case match_close CHR ''{'' CHR ''}'' 0 (c # s) of
           Closed n \<Rightarrow> map_option ((#) (take n (c # s))) (split_elements (drop n (c # s)))
         | AtEnd n \<Rightarrow> Some [take n (c # s)]
         | PastEnd \<Rightarrow> None)
      else split_elements s)"
  by pat_completeness auto
termination split_elements
proof (relation "measure length", goal_cases)
  case (2 c s n)
  then show ?case using match_close_pos [of "CHR ''{''" "CHR ''}''" 0 c s n] by simp
qed auto

declare split_elements.simps [simp del] match_close.simps [simp del]

definition split_object_array :: "string \<Rightarrow> string list option" where
  "split_object_array arr = (case arr of [] \<Rightarrow> Some [] | c # r \<Rightarrow> if c = CHR ''['' then split_elements r else Some [])"

subsection \<open>Scanning well-formed texts\<close>

lemma passed_simps [simp]: "passed j (passed k e) = passed (j + k) e" "passed 0 e = e"
  by (simp_all add: passed_def split: scan_end.split)

lemma string_body_plain: "c \<noteq> quote \<Longrightarrow> c \<noteq> backslash \<Longrightarrow> string_body (c # s) = Suc (string_body s)"
  by (cases s) simp_all

lemma string_body_plains: "list_all (\<lambda>c. c \<noteq> quote \<and> c \<noteq> backslash) h \<Longrightarrow> string_body (h @ s) = length h + string_body s"
  by (induction h) (simp_all add: string_body_plain)

lemma string_body_chars: "json_chars b \<Longrightarrow> string_body (b @ quote # s) = length b"
proof (induction rule: json_chars.induct)
  case (chars_unicode h s')
  have "list_all (\<lambda>c. c \<noteq> quote \<and> c \<noteq> backslash) h"
    using chars_unicode(2) digit_plain by (auto simp: list_all_iff)
  then show ?case using chars_unicode by (simp add: string_body_plains)
qed (simp_all add: string_body_plain, cases s, simp_all)

text \<open>
  A pair of brackets and the texts its scan passes over: what is between the first bracket and the one that closes it.
\<close>

locale bracket_pair =
  fixes op cl :: char
  assumes differ: "op \<noteq> cl" and not_quote: "op \<noteq> quote" "cl \<noteq> quote"
    and brackets: "{op, cl} \<subseteq> {CHR ''{'', CHR ''}'', CHR ''['', CHR '']''}"
begin

definition skips :: "string \<Rightarrow> bool" where
  "skips x \<longleftrightarrow> (\<forall>d t. 0 < d \<longrightarrow> match_close op cl d (x @ t) = passed (length x) (match_close op cl d t))"

lemma skips_Nil: "skips []"
  by (simp add: skips_def)

lemma skips_append: "skips a \<Longrightarrow> skips b \<Longrightarrow> skips (a @ b)"
  by (simp add: skips_def)

lemma skips_char: "c \<notin> {op, cl, quote} \<Longrightarrow> skips [c]"
  by (simp add: skips_def match_close.simps)

lemma skips_chars: "list_all (\<lambda>c. c \<notin> {op, cl, quote}) s \<Longrightarrow> skips s"
proof (induction s)
  case (Cons c s)
  then show ?case using skips_append [OF skips_char [of c], of s] by simp
qed (rule skips_Nil)

lemma skips_nested: "skips x \<Longrightarrow> skips (op # x @ [cl])"
  using differ by (simp add: skips_def match_close.simps)

lemma skips_string: "json_string s \<Longrightarrow> skips s"
  using not_quote by (auto simp: skips_def json_string_def match_close.simps string_body_chars)

lemma closes: "skips x \<Longrightarrow> match_close op cl 0 (op # x @ cl # t) = Closed (length x + 2)"
  using differ by (simp add: skips_def match_close.simps passed_def)

lemma skips_enclosed:
  assumes "skips x" "(l, r) \<in> {(CHR ''{'', CHR ''}''), (CHR ''['', CHR '']'')}" "(op, cl) \<in> {(CHR ''{'', CHR ''}''), (CHR ''['', CHR '']'')}"
  shows "skips (l # x @ [r])"
proof (cases "(l, r) = (op, cl)")
  case False
  then have "skips [l]" "skips [r]" using assms by (auto intro!: skips_char)
  then show ?thesis using assms(1) skips_append [of "[l]" "x @ [r]"] skips_append [of x "[r]"] by simp
qed (use skips_nested [OF assms(1)] in simp)

lemma skips_plain: "c \<notin> {CHR ''{'', CHR ''}'', CHR ''['', CHR '']'', quote} \<Longrightarrow> skips [c]"
  using brackets by (intro skips_char) auto

lemma skips_plains: "list_all (\<lambda>c. c \<notin> {CHR ''{'', CHR ''}'', CHR ''['', CHR '']'', quote}) s \<Longrightarrow> skips s"
  using brackets by (intro skips_chars) (auto simp: list_all_iff)

lemma skips_separated: "skips a \<Longrightarrow> skips b \<Longrightarrow> c \<in> {CHR '','', CHR '':''} \<Longrightarrow> skips (a @ [c] @ b)"
  by (intro skips_append skips_plain) auto

lemma skips_blank: "json_blank c \<Longrightarrow> skips [c]"
  by (rule skips_plain) (auto simp: json_blank_def)

lemma skips_number: "json_number s \<Longrightarrow> skips s"
proof -
  assume "json_number s"
  then have "list_all (\<lambda>c. is_digit c \<or> c = CHR ''-'' \<or> c = CHR ''.'') s" using json_number_chars by blast
  then show ?thesis
    by (intro skips_plains) (auto simp: list_all_iff dest: digit_plain)
qed

lemma skips_literal: "s \<in> {''null'', ''true'', ''false''} \<Longrightarrow> skips s"
  by (intro skips_plains) auto

lemma skips_json:
  assumes "(op, cl) \<in> {(CHR ''{'', CHR ''}''), (CHR ''['', CHR '']'')}"
  shows "json_value v \<Longrightarrow> skips v" "json_members m \<Longrightarrow> skips m" "json_elements e \<Longrightarrow> skips e"
proof (induction rule: json_value_json_members_json_elements.inducts)
  case (value_blank c s)
  then show ?case using skips_append [OF skips_blank, of c s] by simp
next
  case (value_blank_end c s)
  then show ?case by (intro skips_append skips_blank)
next
  case (members_blank c m)
  then show ?case using skips_append [OF skips_blank, of c m] by simp
next
  case (members_blank_end c m)
  then show ?case by (intro skips_append skips_blank)
next
  case value_empty_object
  then show ?case using skips_enclosed [OF skips_Nil _ assms] by simp
next
  case value_empty_array
  then show ?case using skips_enclosed [OF skips_Nil _ assms] by simp
next
  case (value_object m)
  then show ?case using skips_enclosed [OF _ _ assms, of m "CHR ''{''" "CHR ''}''"] by simp
next
  case (value_array e)
  then show ?case using skips_enclosed [OF _ _ assms, of e "CHR ''[''" "CHR '']''"] by simp
next
  case (members_one k v)
  then show ?case using skips_separated [OF skips_string, of k v "CHR '':''"] by simp
next
  case (members_append a b)
  then show ?case using skips_separated [of a b "CHR '',''"] by simp
next
  case (elements_append a b)
  then show ?case using skips_separated [of a b "CHR '',''"] by simp
qed (simp_all only: skips_string skips_number skips_literal)

end

interpretation braces: bracket_pair "CHR ''{''" "CHR ''}''"
  by unfold_locales simp_all

interpretation squares: bracket_pair "CHR ''[''" "CHR '']''"
  by unfold_locales simp_all

text \<open>An array of objects is split into its objects; a string with a brace in it in front of one runs the scan past the end.\<close>

lemma split_elements_object:
  assumes "json_object s"
  shows "split_elements (s @ t) = map_option ((#) s) (split_elements t)"
proof -
  obtain m where s: "s = CHR ''{'' # m @ ''}''" and "m = [] \<or> json_members m"
    using assms by (auto simp: json_object_def)
  then have "braces.skips m" using braces.skips_Nil braces.skips_json(2) [of m] by auto
  then have "match_close CHR ''{'' CHR ''}'' 0 (CHR ''{'' # m @ CHR ''}'' # t) = Closed (length m + 2)" by (rule braces.closes)
  then show ?thesis unfolding s by (subst append_Cons, subst split_elements.simps) simp
qed

lemma split_elements_join: "list_all json_object os \<Longrightarrow> split_elements (join '','' os @ CHR '']'' # t) = Some os"
proof (induction "'',''" os rule: join.induct)
  case (3 s s' ss)
  then show ?case using split_elements_object [of s] by (simp add: split_elements.simps(2) [of "CHR '',''"])
qed (simp_all add: split_elements.simps split_elements_object)

definition json_array :: "string list \<Rightarrow> string" where
  "json_array os = CHR ''['' # join '','' os @ '']''"

lemma split_object_array_objects: "list_all json_object os \<Longrightarrow> split_object_array (json_array os) = Some os"
  using split_elements_join [of os "[]"] by (simp add: split_object_array_def json_array_def)

lemma split_object_array_panic: "split_object_array [CHR ''['', quote, CHR ''{'', quote, CHR '']''] = None"
  by (simp add: split_object_array_def split_elements.simps match_close.simps passed_def)

lemma skips_objects: "list_all json_object os \<Longrightarrow> squares.skips (join '','' os)"
  using squares.skips_json(3) [OF _ json_elements_join, of os] squares.skips_Nil json_object_value
  by (cases os) (auto simp: list_all_iff)

lemma array_span_found:
  assumes "find_str (needle field) (a @ needle field @ json_array os @ b) = Some (length a)" "list_all json_object os"
  shows "array_span (a @ needle field @ json_array os @ b) field =
    Some (length (a @ needle field), length (a @ needle field @ json_array os))"
proof -
  have start: "value_start (a @ needle field @ json_array os @ b) field = Some (length (a @ needle field))"
    using assms(1) by (simp add: value_start_def json_array_def is_blank_def)
  have "match_close CHR ''['' CHR '']'' 0 (json_array os @ b) = Closed (length (json_array os))"
    using squares.closes [OF skips_objects [OF assms(2)], of b] by (simp add: json_array_def)
  then show ?thesis
    unfolding array_span_def start by (simp add: nth_append json_array_def)
qed

end
