(* ===== verification/Json_Output.thy ===== *)
theory Json_Output
  imports Analyzer_Json Field_Values Hex
begin

section \<open>The JSON writer (canboat-core/src/output/mod.rs, output/json.rs)\<close>

text \<open>
  The analyzer's \<open>-json\<close> line of a decoded PGN, byte by byte.  A writer is the text it writes; the state of the loop over the
  fields is a record.  The operations on \<open>f64\<close> that only the formatters use are those of \<open>float_text\<close>; \<open>tx_display\<close> and
  \<open>tx_fixed\<close> are Rust's \<open>\{\}\<close> and \<open>\{:.p\}\<close>.  The identifiers \<open>upper_camel\<close> starts with a capital are ASCII.
\<close>

record 'f float_text =
  tx_fo :: "'f float_ops"
  tx_abs :: "'f \<Rightarrow> 'f"
  tx_sign_negative :: "'f \<Rightarrow> bool"
  tx_trunc :: "'f \<Rightarrow> 'f"
  tx_powi10 :: "nat \<Rightarrow> 'f"
  tx_to_i128 :: "'f \<Rightarrow> int"
  tx_to_u64 :: "'f \<Rightarrow> u64"
  tx_of_u64 :: "u64 \<Rightarrow> 'f"
  tx_display :: "'f \<Rightarrow> string"
  tx_fixed :: "nat \<Rightarrow> 'f \<Rightarrow> string"

definition tx_lt :: "'f float_text \<Rightarrow> 'f \<Rightarrow> 'f \<Rightarrow> bool" where
  "tx_lt tx a b \<longleftrightarrow> fo_le (tx_fo tx) a b \<and> \<not> fo_eq (tx_fo tx) a b"

subsection \<open>Numbers, dates and times\<close>

function precision_loop :: "'f float_text \<Rightarrow> nat \<Rightarrow> 'f \<Rightarrow> nat" where
  "precision_loop tx p r =
     (if tx_lt tx (fo_zero (tx_fo tx)) r \<and> tx_lt tx r (fo_one (tx_fo tx)) \<and> p < 10
      then precision_loop tx (p + 1) (fo_mul (tx_fo tx) r (fo_lit (tx_fo tx) ''10.0'')) else p)"
  by pat_completeness auto
termination precision_loop
  by (relation "measure (\<lambda>(_, p, _). 10 - p)") auto

declare precision_loop.simps [simp del]

definition precision_for :: "'f float_text \<Rightarrow> 'f \<Rightarrow> nat" where
  "precision_for tx res =
     (if \<not> fo_finite (tx_fo tx) res \<or> fo_le (tx_fo tx) res (fo_zero (tx_fo tx)) then 0 else precision_loop tx 0 res)"

definition effective_precision :: "'f float_text \<Rightarrow> u8 \<Rightarrow> 'f option \<Rightarrow> nat" where
  "effective_precision tx p res =
     (if p > 0 then unat p else precision_for tx (or_default (fo_one (tx_fo tx)) res))"

text \<open>The scaled value is cut to its digits in \<open>u128\<close>, which holds \<open>10 ^ p\<close> for \<open>p\<close> up to 38.\<close>

definition write_fixed_float :: "'f float_text \<Rightarrow> 'f \<Rightarrow> nat \<Rightarrow> nat \<Rightarrow> string" where
  "write_fixed_float tx v p min_width =
     (if \<not> fo_finite (tx_fo tx) v \<or> fo_le (tx_fo tx) (fo_lit (tx_fo tx) ''1e12'') (tx_abs tx v)
      then pad_left CHR '' '' min_width (tx_fixed tx p v)
      else let neg = tx_sign_negative tx v in
        if p = 0 then
          (let rounded = sint (fo_to_i64 (tx_fo tx) (fo_round (tx_fo tx) v)) in
           pad_left CHR '' '' min_width ((if neg \<and> rounded \<noteq> 0 then ''-'' else []) @ show_nat (nat \<bar>rounded\<bar>)))
        else
          (let rounded = tx_to_i128 tx (fo_round (tx_fo tx) (fo_mul (tx_fo tx) v (tx_powi10 tx p)));
               pow = 10 ^ p mod 2 ^ 128;
               int_part = nat \<bar>rounded\<bar> div pow mod 2 ^ 64;
               frac_part = nat \<bar>rounded\<bar> mod pow mod 2 ^ 64
           in pad_left CHR '' '' min_width
                ((if neg then ''-'' else []) @ show_nat int_part @ CHR ''.'' # pad_left CHR ''0'' p (show_nat frac_part))))"

definition format_date :: "u16 \<Rightarrow> string" where
  "format_date days =
     (let (y, m, d) = days_to_ymd (int (unat days)) in
      show_int_padded 4 y @ ''.'' @ show_int_padded 2 m @ ''.'' @ show_int_padded 2 d)"

definition format_time :: "'f float_text \<Rightarrow> 'f \<Rightarrow> nat \<Rightarrow> bool \<Rightarrow> string" where
  "format_time tx seconds p trim_zero_fraction =
     (if \<not> fo_finite (tx_fo tx) seconds then ''00:00:00''
      else let sg = (if tx_lt tx seconds (fo_zero (tx_fo tx)) then ''-'' else []);
               a = tx_abs tx seconds;
               whole = tx_to_u64 tx (tx_trunc tx a);
               h = unat whole div 3600; m = (unat whole div 60) mod 60; s = unat whole mod 60;
               hms = sg @ show_padded 2 h @ '':'' @ show_padded 2 m @ '':'' @ show_padded 2 s
           in if p = 0 then hms
              else let frac = unat (tx_to_u64 tx (fo_round (tx_fo tx)
                         (fo_mul (tx_fo tx) (fo_sub (tx_fo tx) a (tx_of_u64 tx whole)) (tx_powi10 tx p))))
                   in if trim_zero_fraction \<and> frac = 0 then hms else hms @ ''.'' @ show_padded p frac)"

subsection \<open>Options and names\<close>

datatype camel_case = CamelOff | CamelLower | CamelUpper

record json_options =
  jo_include_empty :: bool
  jo_name_value :: bool
  jo_debug :: bool
  jo_camel_case :: camel_case

definition upper_camel :: "string \<Rightarrow> string" where
  "upper_camel s =
     (case s of
        [] \<Rightarrow> []
      | c # r \<Rightarrow> (if 97 \<le> (of_char c :: nat) \<and> (of_char c :: nat) \<le> 122 then char_of (of_char c - (32 :: nat)) else c) # r)"

definition field_display_name :: "'f decoded_field \<Rightarrow> camel_case \<Rightarrow> string" where
  "field_display_name f mode =
     (case mode of CamelOff \<Rightarrow> df_name f | CamelLower \<Rightarrow> df_id f | CamelUpper \<Rightarrow> upper_camel (df_id f))"

definition pgn_display_description :: "'f decoded_pgn \<Rightarrow> camel_case \<Rightarrow> string" where
  "pgn_display_description d mode =
     (case mode of CamelOff \<Rightarrow> dp_description d | CamelLower \<Rightarrow> dp_id d | CamelUpper \<Rightarrow> upper_camel (dp_id d))"

subsection \<open>Strings\<close>

definition escape_table :: "bool \<Rightarrow> char \<Rightarrow> string option" where
  "escape_table slash b =
     (if b = quote then Some [backslash, quote]
      else if b = backslash then Some [backslash, backslash]
      else if b = CHR 0x08 then Some [backslash, CHR ''b'']
      else if b = CHR 0x09 then Some [backslash, CHR ''t'']
      else if b = CHR 0x0A then Some [backslash, CHR ''n'']
      else if b = CHR 0x0C then Some [backslash, CHR ''f'']
      else if b = CHR 0x0D then Some [backslash, CHR ''r'']
      else if (of_char b :: nat) < 0x20 then Some ''*''
      else if slash \<and> b = CHR ''/'' then Some [backslash, CHR ''/''] else None)"

definition escape_byte :: "bool \<Rightarrow> char \<Rightarrow> string" where
  "escape_byte slash b =
     (case escape_table slash b of
        None \<Rightarrow> [b]
      | Some esc \<Rightarrow> if esc = ''*'' then backslash # CHR ''u'' # show_hex_padded False 4 (of_char b) else esc)"

definition write_json_string_with_table :: "string \<Rightarrow> bool \<Rightarrow> string" where
  "write_json_string_with_table s slash = quote # concat (map (escape_byte slash) s) @ [quote]"

definition write_json_string :: "string \<Rightarrow> string" where
  "write_json_string s = write_json_string_with_table s False"

text \<open>The bytes of a decoded text.\<close>

definition chars_text :: "chars \<Rightarrow> string" where
  "chars_text s = map (\<lambda>b. char_of (unat b)) (utf8_bytes s)"

definition write_field_json_string :: "chars \<Rightarrow> string" where
  "write_field_json_string s = write_json_string_with_table (chars_text s) True"

definition hex_string :: "u8 list \<Rightarrow> string" where
  "hex_string bs = quote # join '' '' (map (show_byte True) bs) @ [quote]"

definition show_i64 :: "i64 \<Rightarrow> string" where
  "show_i64 v = show_int_padded 0 (sint v)"

subsection \<open>Field values\<close>

definition json_member :: "string \<Rightarrow> string \<Rightarrow> string" where
  "json_member k v = quote # k @ quote # CHR '':'' # v"

definition show_number :: "'f float_text \<Rightarrow> 'f decoded_field \<Rightarrow> 'f \<Rightarrow> string" where
  "show_number tx f v =
     (let p = effective_precision tx (df_precision f) (df_resolution f);
          min_w = (if p = 7 \<and> df_unit f = Some ''deg'' then 10 else 0)
      in write_fixed_float tx v p min_w)"

definition show_time :: "'f float_text \<Rightarrow> 'f decoded_field \<Rightarrow> 'f \<Rightarrow> string" where
  "show_time tx f seconds =
     write_json_string (format_time tx seconds (effective_precision tx (df_precision f) (df_resolution f)) False)"

definition time_print_value :: "'f float_text \<Rightarrow> 'f decoded_field \<Rightarrow> i64 \<Rightarrow> 'f \<Rightarrow> i64" where
  "time_print_value tx f raw seconds =
     (case df_resolution f of
        Some r \<Rightarrow> if fo_le (tx_fo tx) (fo_one (tx_fo tx)) r then fo_to_i64 (tx_fo tx) seconds else raw
      | None \<Rightarrow> raw)"

definition mmsi_string :: "u32 \<Rightarrow> string" where
  "mmsi_string v = quote # show_padded 9 (unat v) @ [quote]"

definition bits_json :: "json_options \<Rightarrow> (u64 \<times> string) list \<Rightarrow> string" where
  "bits_json opts bits =
     (if bits = [] then ''null''
      else if jo_name_value opts then
        ''['' @ join '','' (map (\<lambda>(bv, n). ''{'' @ json_member ''value'' (show_nat (unat bv)) @ '','' @
          json_member ''name'' (write_json_string n) @ ''}'') bits) @ '']''
      else ''['' @ join '','' (map (\<lambda>(_, n). write_json_string n) bits) @ '']'')"

definition unsupported_json :: "string \<Rightarrow> string" where
  "unsupported_json field_type = write_json_string (''<unsupported:'' @ field_type @ ''>'')"

text \<open>
  The diagnostics of \<open>-debug\<close>: the bytes of the payload of a field of whole bytes, else the bytes of the raw value in its slot and its
  bits, read with a shift by the byte index.
\<close>

definition debug_bits :: "u64 \<Rightarrow> u32 \<Rightarrow> string" where
  "debug_bits raw bl =
     map (\<lambda>i. let byte = drop_bit (i div 8) raw AND 0xff in if drop_bit (i mod 8) byte AND 1 = 1 then CHR ''1'' else CHR ''0'')
       (rev [0..<unat bl])"

definition write_debug_suffix :: "'f decoded_field \<Rightarrow> u8 list \<Rightarrow> string" where
  "write_debug_suffix f payload =
     (case (df_bit_offset f, df_bit_length f) of
        (Some bo, Some bl) \<Rightarrow>
          if bl = 0 then []
          else if bo mod 8 = 0 \<and> bl mod 8 = 0 then
            (let start = unat (bo div 8); end_clamped = min (unat ((bo + bl) div 8)) (length payload) in
             if start < end_clamped then '','' @ json_member ''bytes'' (hex_string (slice start end_clamped payload)) else [])
          else
            (let sgnd = (case df_value f of FvNumber _ \<Rightarrow> df_unit f \<noteq> None | _ \<Rightarrow> False) in
             case extract_bits payload (unat bo) (unat bl) sgnd 0 of
               None \<Rightarrow> []
             | Some ex \<Rightarrow>
                 (let raw_unsigned = ex_value ex;
                      shift = unat (bo mod 8);
                      byte_span = (shift + unat bl + 7) div 8;
                      shifted = push_bit shift (ucast raw_unsigned) :: 128 word
                  in '','' @ json_member ''bytes'' (hex_string (map (\<lambda>i. ucast (drop_bit (8 * i) shifted)) [0..<byte_span])) @
                     (if bl mod 8 \<noteq> 0 then '','' @ json_member ''bits'' (quote # debug_bits raw_unsigned bl @ [quote]) else [])))
      | _ \<Rightarrow> [])"

definition name_payload :: "'f decoded_field \<Rightarrow> u8 list \<Rightarrow> u8 list" where
  "name_payload f payload =
     (case df_bit_offset f of
        Some bo \<Rightarrow>
          if bo mod 8 = 0 \<and> unat (bo div 8) + 8 \<le> length payload
          then slice (unat (bo div 8)) (unat (bo div 8) + 8) payload else []
      | None \<Rightarrow> [])"

definition subfield_shown :: "json_options \<Rightarrow> 'f decoded_field \<Rightarrow> bool" where
  "subfield_shown opts sf \<longleftrightarrow>
     (jo_include_empty opts \<or> df_value sf \<noteq> FvNotAvailable) \<and> \<not> (case df_value sf of FvSpare _ _ _ \<Rightarrow> True | _ \<Rightarrow> False)"

definition name_or_null :: "string option \<Rightarrow> string" where
  "name_or_null n = (case n of Some n \<Rightarrow> write_json_string n | None \<Rightarrow> ''null'')"

lemma size_subfield:
  assumes "df_value f = FvIsoName v subs" "sf \<in> set subs"
  shows "size sf < size f"
proof -
  have "size sf \<le> size_list size subs" using assms(2) by (simp add: size_list_estimation')
  then show ?thesis using assms(1) by (cases f) simp
qed

function write_field_value_debug :: "'f float_text \<Rightarrow> json_options \<Rightarrow> 'f decoded_field \<Rightarrow> u8 list \<Rightarrow> string" where
  "write_field_value_debug tx opts f payload =
     ''{'' @ json_member ''value''
       (case df_value f of
          FvNumber v \<Rightarrow> show_number tx f v
        | FvInteger v \<Rightarrow> show_i64 v
        | FvFloat v \<Rightarrow> tx_display tx v
        | FvBinary bytes \<Rightarrow> hex_string bytes
        | FvLookup v nm \<Rightarrow>
            if jo_name_value opts then show_nat (unat v) @ '','' @ json_member ''name'' (name_or_null nm)
            else (case nm of Some n \<Rightarrow> write_json_string n | None \<Rightarrow> show_nat (unat v))
        | FvBitField _ bits \<Rightarrow> bits_json opts bits
        | FvString s \<Rightarrow> write_field_json_string s
        | FvDate d \<Rightarrow>
            if jo_name_value opts then show_nat (unat d) @ '','' @ json_member ''name'' (write_json_string (format_date d))
            else write_json_string (format_date d)
        | FvTime raw seconds \<Rightarrow>
            if jo_name_value opts
            then show_i64 (time_print_value tx f raw seconds) @ '','' @ json_member ''name'' (show_time tx f seconds)
            else show_time tx f seconds
        | FvMmsi v \<Rightarrow> mmsi_string v
        | FvPgn v description \<Rightarrow>
            show_nat (unat v) @ (if jo_name_value opts then '','' @ json_member ''name'' (name_or_null description) else [])
        | FvIsoName v subfields \<Rightarrow>
            show_nat (unat v) @
            (if jo_name_value opts then '','' @ json_member ''name'' (''{'' @ join '','' (map (\<lambda>sf.
               write_json_string (field_display_name sf (jo_camel_case opts)) @ '':'' @
               write_field_value_debug tx opts sf (name_payload f payload)) (filter (subfield_shown opts) subfields)) @ ''}'') else [])
        | FvReserved _ bytes _ \<Rightarrow> hex_string bytes
        | FvSpare _ _ _ \<Rightarrow> ''null''
        | FvNotAvailable \<Rightarrow> ''null''
        | FvOutOfRange _ \<Rightarrow> write_json_string ''Out Of Range''
        | FvReservedValue _ \<Rightarrow> write_json_string ''Reserved''
        | FvUnsupported field_type \<Rightarrow> unsupported_json field_type) @
     write_debug_suffix f payload @
     (if jo_name_value opts \<and> df_part_of_primary_key f then '','' @ json_member ''key'' ''true'' else []) @ ''}''"
  by pat_completeness auto
termination write_field_value_debug
  by (relation "measure (\<lambda>(_, _, f, _). size f)") (auto dest: size_subfield)

declare write_field_value_debug.simps [simp del]

definition key_annotation :: "json_options \<Rightarrow> 'f decoded_field \<Rightarrow> string \<Rightarrow> string" where
  "key_annotation opts f v =
     (if jo_name_value opts \<and> df_part_of_primary_key f then ''{'' @ json_member ''value'' v @ '','' @ json_member ''key'' ''true'' @ ''}'' else v)"

definition value_name :: "json_options \<Rightarrow> string \<Rightarrow> string \<Rightarrow> string" where
  "value_name opts v nm =
     (if jo_name_value opts then ''{'' @ json_member ''value'' v @ '','' @ json_member ''name'' nm @ ''}'' else nm)"

function write_field_value :: "'f float_text \<Rightarrow> json_options \<Rightarrow> 'f decoded_field \<Rightarrow> u8 list \<Rightarrow> string" where
  "write_field_value tx opts f payload =
     (if jo_debug opts then write_field_value_debug tx opts f payload
      else case df_value f of
          FvNumber v \<Rightarrow> show_number tx f v
        | FvInteger v \<Rightarrow> key_annotation opts f (show_i64 v)
        | FvFloat v \<Rightarrow> tx_display tx v
        | FvBinary bytes \<Rightarrow> hex_string bytes
        | FvLookup v nm \<Rightarrow>
            if jo_name_value opts then
              ''{'' @ json_member ''value'' (show_nat (unat v)) @
              (case nm of
                 Some n \<Rightarrow> '','' @ json_member ''name'' (write_json_string n)
               | None \<Rightarrow> if jo_include_empty opts then '','' @ json_member ''name'' ''null'' else []) @
              (if df_part_of_primary_key f then '','' @ json_member ''key'' ''true'' else []) @ ''}''
            else (case nm of Some n \<Rightarrow> write_json_string n | None \<Rightarrow> show_nat (unat v))
        | FvBitField _ bits \<Rightarrow> bits_json opts bits
        | FvString s \<Rightarrow> write_field_json_string s
        | FvDate d \<Rightarrow> value_name opts (show_nat (unat d)) (write_json_string (format_date d))
        | FvTime raw seconds \<Rightarrow> value_name opts (show_i64 (time_print_value tx f raw seconds)) (show_time tx f seconds)
        | FvMmsi v \<Rightarrow> key_annotation opts f (mmsi_string v)
        | FvPgn v description \<Rightarrow>
            if jo_name_value opts then
              ''{'' @ json_member ''value'' (show_nat (unat v)) @
              (case description of Some n \<Rightarrow> '','' @ json_member ''name'' (write_json_string n) | None \<Rightarrow> []) @ ''}''
            else show_nat (unat v)
        | FvReserved _ bytes _ \<Rightarrow> hex_string bytes
        | FvSpare _ bytes _ \<Rightarrow> hex_string bytes
        | FvIsoName v subfields \<Rightarrow>
            if jo_name_value opts then
              ''{'' @ json_member ''value'' (show_nat (unat v)) @ '','' @ json_member ''name'' (''{'' @ join '','' (map (\<lambda>sf.
                write_json_string (field_display_name sf (jo_camel_case opts)) @ '':'' @
                write_field_value tx opts sf payload) (filter (subfield_shown opts) subfields)) @ ''}'') @ ''}''
            else show_nat (unat v)
        | FvNotAvailable \<Rightarrow> ''null''
        | FvOutOfRange _ \<Rightarrow> write_json_string ''Out Of Range''
        | FvReservedValue _ \<Rightarrow> write_json_string ''Reserved''
        | FvUnsupported field_type \<Rightarrow> unsupported_json field_type)"
  by pat_completeness auto
termination write_field_value
  by (relation "measure (\<lambda>(_, _, f, _). size f)") (auto dest: size_subfield)

declare write_field_value.simps [simp del]

subsection \<open>Records\<close>

definition field_suppressed :: "json_options \<Rightarrow> u32 \<Rightarrow> 'f decoded_field \<Rightarrow> bool" where
  "field_suppressed opts payload_bits f \<longleftrightarrow>
     (case df_bit_offset f of Some bo \<Rightarrow> bo \<ge> payload_bits | None \<Rightarrow> False) \<or>
     (case df_value f of
        FvNotAvailable \<Rightarrow> \<not> jo_include_empty opts \<and> \<not> jo_debug opts
      | FvSpare v _ _ \<Rightarrow> v = 0
      | FvReserved v _ bit_length \<Rightarrow> v = (if bit_length \<ge> 64 then - 1 else push_bit (unat bit_length) 1 - 1)
      | FvBitField _ bits \<Rightarrow> \<not> jo_include_empty opts \<and> \<not> jo_debug opts \<and> bits = []
      | _ \<Rightarrow> False)"

definition renderable :: "json_options \<Rightarrow> 'f decoded_field \<Rightarrow> bool" where
  "renderable opts f \<longleftrightarrow>
     (case df_value f of
        FvSpare v _ _ \<Rightarrow> v \<noteq> 0
      | FvNotAvailable \<Rightarrow> jo_include_empty opts \<or> jo_debug opts
      | _ \<Rightarrow> True)"

record fields_buf =
  fb_text :: string
  fb_top_sep :: string
  fb_set :: u8
  fb_iter :: "u32 option"

definition field_member :: "'f float_text \<Rightarrow> json_options \<Rightarrow> u8 list \<Rightarrow> 'f decoded_field \<Rightarrow> string" where
  "field_member tx opts payload f =
     write_json_string (field_display_name f (jo_camel_case opts)) @ '':'' @ write_field_value tx opts f payload"

definition list_key :: "u8 \<Rightarrow> string" where
  "list_key s = quote # (if s = 1 then ''list'' else ''list2'') @ quote # '':[{''"

definition write_field :: "'f float_text \<Rightarrow> json_options \<Rightarrow> u8 list \<Rightarrow> fields_buf \<Rightarrow> 'f decoded_field \<Rightarrow> fields_buf" where
  "write_field tx opts payload b f =
     (let member = field_member tx opts payload f; close = (if fb_set b \<noteq> 0 then ''}]'' else []) in
      if df_repeat_set f = 0 then
        \<lparr>fb_text = fb_text b @ close @ fb_top_sep b @ member, fb_top_sep = '','', fb_set = 0,
         fb_iter = (if fb_set b \<noteq> 0 then None else fb_iter b)\<rparr>
      else let it = or_default 0 (df_repeat_index f) in
        if fb_set b \<noteq> df_repeat_set f then
          \<lparr>fb_text = fb_text b @ close @ fb_top_sep b @ list_key (df_repeat_set f) @ member, fb_top_sep = '','',
           fb_set = df_repeat_set f, fb_iter = Some it\<rparr>
        else if Some it \<noteq> fb_iter b then b\<lparr>fb_text := fb_text b @ ''},{'' @ member, fb_iter := Some it\<rparr>
        else b\<lparr>fb_text := fb_text b @ '','' @ member\<rparr>)"

definition fields_buf_new :: fields_buf where
  "fields_buf_new = \<lparr>fb_text = [], fb_top_sep = [], fb_set = 0, fb_iter = None\<rparr>"

definition shown_fields :: "json_options \<Rightarrow> 'f decoded_pgn \<Rightarrow> 'f decoded_field list" where
  "shown_fields opts d =
     (let payload_bits = word_of_nat (min (8 * unat (word_of_nat (length (dp_data d)) :: u32)) (2 ^ 32 - 1))
      in filter (\<lambda>f. \<not> field_suppressed opts payload_bits f) (dp_fields d))"

text \<open>The empty lists of repeating sets without a field.\<close>

definition empty_lists :: "json_options \<Rightarrow> 'f decoded_pgn \<Rightarrow> fields_buf \<Rightarrow> string" where
  "empty_lists opts d b =
     (let t = fb_text b @ (if fb_set b \<noteq> 0 then ''}]'' else []);
          saw = (\<lambda>s. list_ex (\<lambda>f. df_repeat_set f = s \<and> renderable opts f) (dp_fields d));
          t = (if fst (dp_has_repeating_set d) \<and> \<not> saw 1
               then t @ (if t \<noteq> [] \<and> fb_set b = 0 then fb_top_sep b else []) @ list_key 1 @ ''}]'' else t)
      in if snd (dp_has_repeating_set d) \<and> \<not> saw 2
         then t @ (if t \<noteq> [] then '','' else []) @ list_key 2 @ ''}]'' else t)"

definition write_json_inner :: "'f float_text \<Rightarrow> json_options \<Rightarrow> 'f decoded_pgn \<Rightarrow> string" where
  "write_json_inner tx opts d =
     (let t = empty_lists opts d (foldl (write_field tx opts (dp_data d)) fields_buf_new (shown_fields opts d))
      in (if t \<noteq> [] then '','' @ json_member ''fields'' (''{'' @ t @ ''}'') else []) @ ''}'')"

definition json_head :: "json_options \<Rightarrow> 'f decoded_pgn \<Rightarrow> string" where
  "json_head opts d =
     (case dp_timestamp d of
        Some ts \<Rightarrow> json_member ''timestamp'' (write_json_string (normalize_timestamp ts)) @ '',''
      | None \<Rightarrow> []) @
     json_member ''prio'' (show_nat (unat (dp_prio d))) @ '','' @ json_member ''src'' (show_nat (unat (dp_src d))) @ '','' @
     json_member ''dst'' (show_nat (unat (dp_dst d))) @ '','' @ json_member ''pgn'' (show_nat (unat (dp_pgn d))) @ '','' @
     json_member ''description'' (write_json_string (pgn_display_description d (jo_camel_case opts)))"

definition write_json :: "'f float_text \<Rightarrow> json_options \<Rightarrow> 'f decoded_pgn \<Rightarrow> string" where
  "write_json tx opts d =
     (let wrap = jo_camel_case opts \<noteq> CamelOff in
      (if wrap then ''{'' @ quote # pgn_display_description d (jo_camel_case opts) @ quote # '':'' else []) @
      ''{'' @ json_head opts d @ write_json_inner tx opts d @ (if wrap then ''}'' else []))"

subsection \<open>The writer writes JSON\<close>

definition plain_text :: "string \<Rightarrow> bool" where
  "plain_text s \<longleftrightarrow> list_all (\<lambda>c. c \<noteq> quote \<and> c \<noteq> backslash \<and> 0x20 \<le> (of_char c :: nat)) s"

lemma json_plain_chars: "plain_text s \<Longrightarrow> json_chars s"
  by (induction s) (auto simp: plain_text_def intro: chars_plain)

lemma show_hex_lower: "list_all (\<lambda>c. is_digit c \<or> c \<in> set ''abcdef'') (show_hex_padded False 4 n)" if "n < 0x20"
proof -
  have "list_all (\<lambda>n. list_all (\<lambda>c. is_digit c \<or> c \<in> set ''abcdef'') (show_hex_padded False 4 n)) [0..<32]" by code_simp
  then show ?thesis using that by (simp add: list_all_iff)
qed

lemma length_hex_lower: "length (show_hex_padded False 4 n) = 4" if "n < 0x20"
proof -
  have "list_all (\<lambda>n. length (show_hex_padded False 4 n) = 4) [0..<32]" by code_simp
  then show ?thesis using that by (simp add: list_all_iff)
qed

lemma escape_byte_chars: "json_chars (escape_byte slash b)"
proof (cases "escape_table slash b")
  case None
  then have "b \<noteq> quote \<and> b \<noteq> backslash \<and> 0x20 \<le> (of_char b :: nat)"
    by (auto simp: escape_table_def split: if_splits)
  then show ?thesis using None by (simp add: escape_byte_def chars_plain)
next
  case (Some esc)
  show ?thesis
  proof (cases "esc = ''*''")
    case True
    then have "(of_char b :: nat) < 0x20" using Some by (auto simp: escape_table_def split: if_splits)
    then show ?thesis
      using chars_unicode [OF length_hex_lower show_hex_lower chars_nil] True Some by (simp add: escape_byte_def)
  next
    case False
    then have "\<exists>c. esc = [backslash, c] \<and> c \<in> set [quote, backslash, CHR ''/'', CHR ''b'', CHR ''f'', CHR ''n'', CHR ''r'', CHR ''t'']"
      using Some by (auto simp: escape_table_def split: if_splits)
    then show ?thesis using chars_escape [OF _ chars_nil] False Some by (auto simp: escape_byte_def)
  qed
qed

lemma escaped_chars: "json_chars (concat (map (escape_byte slash) s))"
  by (induction s) (auto intro: escape_byte_chars)

lemma written_strings [simp, intro]:
  "json_string (write_json_string s)" "json_string (write_json_string_with_table s slash)" "json_string (write_field_json_string u)"
  using escaped_chars by (auto simp: json_string_def write_json_string_def write_json_string_with_table_def write_field_json_string_def)

lemma plain_string: "plain_text s \<Longrightarrow> json_string (quote # s @ [quote])"
  using json_plain_chars by (auto simp: json_string_def)

lemma digits_plain: "list_all is_digit s \<Longrightarrow> plain_text s"
  by (auto simp: plain_text_def list_all_iff is_digit_def)

lemma member_written: "json_value v \<Longrightarrow> plain_text k \<Longrightarrow> json_members (json_member k v)"
  using members_one [OF plain_string] by (simp add: json_member_def)

lemma member_more: "json_value v \<Longrightarrow> plain_text k \<Longrightarrow> json_members m \<Longrightarrow> json_members (json_member k (v @ '','' @ m))"
  using members_append [OF member_written] by (simp add: json_member_def)

lemma members_join: "ms \<noteq> [] \<Longrightarrow> list_all json_members ms \<Longrightarrow> json_members (join '','' ms)"
proof (induction "'',''" ms rule: join.induct)
  case (3 s t ss)
  then show ?case using members_append [of s "join '','' (t # ss)"] by simp
qed auto

lemma object_join: "list_all json_members ms \<Longrightarrow> json_value (''{'' @ join '','' ms @ ''}'')"
  using value_object [OF members_join, of ms] value_empty_object by (cases "ms = []") auto

lemma array_join: "list_all json_value es \<Longrightarrow> json_value (''['' @ join '','' es @ '']'')"
  using value_array [OF json_elements_join, of es] value_empty_array by (cases "es = []") auto

lemma plain_keys [simp]:
  "plain_text ''value''" "plain_text ''name''" "plain_text ''key''" "plain_text ''bytes''" "plain_text ''bits''" "plain_text ''fields''"
  "plain_text ''timestamp''" "plain_text ''prio''" "plain_text ''src''" "plain_text ''dst''" "plain_text ''pgn''"
  "plain_text ''description''" "plain_text ''list''" "plain_text ''list2''"
  by code_simp+

lemma value_simps [simp, intro]:
  "json_string s \<Longrightarrow> json_value s" "json_value (show_nat n)" "json_value ''null''" "json_value ''true''"
  by (auto intro: value_string value_number json_number_nat value_literal)

lemma value_padded: "json_value s \<Longrightarrow> json_value (pad_left CHR '' '' w s)"
proof -
  assume "json_value s"
  then have "json_value (replicate k CHR '' '' @ s)" for k by (induction k) (auto intro: value_blank simp: json_blank_def)
  then show ?thesis by (simp add: pad_left_def)
qed

lemma show_i64_value [simp, intro]: "json_value (show_i64 v)"
proof -
  have z: "show_padded 0 n = show_nat n" for n by (simp add: show_padded_def pad_left_def)
  show ?thesis
    using value_number [OF json_number_fixed(2) [of "''-''" "''0''"]]
    by (simp add: show_i64_def show_int_padded_def z is_digit_def)
qed

lemma show_byte_plain: "plain_text (show_byte True b)"
proof -
  have "c \<noteq> quote \<and> c \<noteq> backslash \<and> 0x20 \<le> (of_char c :: nat)" if "is_hex c" for c
    using that by (auto simp: is_hex_def hex_value_def Let_def split: if_splits)
  then show ?thesis
    using show_hex_padded_digits [of True 2 "unat b"] by (auto simp: plain_text_def show_byte_def list_all_iff)
qed

lemma plain_append [simp]: "plain_text (a @ b) \<longleftrightarrow> plain_text a \<and> plain_text b"
  by (auto simp: plain_text_def)

lemma plain_join: "list_all plain_text ss \<Longrightarrow> plain_text (join '' '' ss)"
  by (induction "'' ''" ss rule: join.induct) (simp_all add: plain_text_def)

lemma hex_string_value [simp, intro]: "json_value (hex_string bs)"
  using plain_string [OF plain_join, of "map (show_byte True) bs"] show_byte_plain
  by (auto simp: hex_string_def list_all_iff)

lemma mmsi_value [simp, intro]: "json_value (mmsi_string v)"
  using plain_string [OF digits_plain [OF show_padded_digits]] by (auto simp: mmsi_string_def)

lemma name_or_null_value [simp, intro]: "json_value (name_or_null n)"
  by (cases n) (simp_all add: name_or_null_def)

lemma bits_value [simp, intro]: "json_value (bits_json opts bits)"
proof -
  have pair: "json_value (''{'' @ json_member ''value'' (show_nat n) @ '','' @ json_member ''name'' (write_json_string s) @ ''}'')" for n s
    using value_object [OF members_append [OF member_written member_written]] by simp
  have "list_all json_value (map (\<lambda>(bv, n). ''{'' @ json_member ''value'' (show_nat (unat bv)) @ '','' @
      json_member ''name'' (write_json_string n) @ ''}'') bits)" "list_all json_value (map (\<lambda>(_, n). write_json_string n) bits)"
    using pair by (auto simp: list_all_iff)
  from array_join [OF this(1)] array_join [OF this(2)] show ?thesis by (simp add: bits_json_def)
qed

end
