(* ===== verification/Json_Lines.thy ===== *)
theory Json_Lines
  imports Json_Output Message
begin

section \<open>What the JSON lines are\<close>

text \<open>
  The writer of \<open>Json_Output\<close> writes JSON objects: its values by the computation rules of the two writers of values, its loop by an
  invariant of the fields buffer.
\<close>

subsection \<open>Values\<close>

text \<open>What the formatters of the standard library write of a finite number is a JSON number, and which floats a record has.\<close>

definition json_floats :: "'f float_text \<Rightarrow> bool" where
  "json_floats tx \<longleftrightarrow> (\<forall>v p. fo_finite (tx_fo tx) v \<longrightarrow> json_number (tx_display tx v) \<and> json_number (tx_fixed tx p v))"

primrec finite_value :: "('f \<Rightarrow> bool) \<Rightarrow> 'f field_value \<Rightarrow> bool" and finite_field :: "('f \<Rightarrow> bool) \<Rightarrow> 'f decoded_field \<Rightarrow> bool" where
  "finite_value fin (FvNumber v) = fin v"
| "finite_value fin (FvInteger i) = True"
| "finite_value fin (FvFloat v) = fin v"
| "finite_value fin (FvBinary bs) = True"
| "finite_value fin (FvLookup v n) = True"
| "finite_value fin (FvBitField v bits) = True"
| "finite_value fin (FvString s) = True"
| "finite_value fin (FvDate d) = True"
| "finite_value fin (FvTime raw s) = True"
| "finite_value fin (FvMmsi m) = True"
| "finite_value fin (FvPgn v d) = True"
| "finite_value fin (FvIsoName v subs) = list_all (\<lambda>b. b) (map (finite_field fin) subs)"
| "finite_value fin (FvReserved v bs n) = True"
| "finite_value fin (FvSpare v bs n) = True"
| "finite_value fin FvNotAvailable = True"
| "finite_value fin (FvOutOfRange v) = True"
| "finite_value fin (FvReservedValue v) = True"
| "finite_value fin (FvUnsupported t) = True"
| "finite_field fin (DecodedField info v bo bl ri rs ov) = finite_value fin v"

lemma finite_field_value: "finite_field fin f = finite_value fin (df_value f)"
  by (cases f) simp

lemma show_number_value:
  assumes "json_floats tx" "fo_finite (tx_fo tx) v"
  shows "json_value (show_number tx f v)"
proof -
  have digits: "list_all is_digit (pad_left CHR ''0'' p (show_nat n))" "pad_left CHR ''0'' p (show_nat n) \<noteq> []" for p n
    using show_padded_digits [of p n] by (simp_all add: show_padded_def pad_left_def)
  have sg: "(if b then ''-'' else []) \<in> {[], ''-''}" for b by simp
  note N = json_number_fixed [OF sg digits]
  have "json_value (pad_left CHR '' '' w (tx_fixed tx p v))" for p w
    using assms by (auto simp: json_floats_def intro: value_padded value_number)
  moreover have "json_value (pad_left CHR '' '' w ((if b then ''-'' else []) @ show_nat n))" for w b n
    by (intro value_padded value_number N)
  moreover have "json_value (pad_left CHR '' '' w ((if b then ''-'' else []) @ show_nat n @ CHR ''.'' # pad_left CHR ''0'' p (show_nat k)))"
    for w b n p k by (intro value_padded value_number N)
  ultimately show ?thesis
    by (simp only: show_number_def write_fixed_float_def Let_def split: if_split) simp
qed

text \<open>A value, or a value and further members after it.\<close>

definition value_more :: "string \<Rightarrow> bool" where
  "value_more t \<longleftrightarrow> json_value t \<or> (\<exists>v m. t = v @ '','' @ m \<and> json_value v \<and> json_members m)"

lemma value_moreI: "json_value v \<Longrightarrow> value_more v" "json_value v \<Longrightarrow> json_members m \<Longrightarrow> value_more (v @ '','' @ m)"
  by (auto simp: value_more_def)

lemma member_value_more: "value_more t \<Longrightarrow> plain_text k \<Longrightarrow> json_members (json_member k t)"
  using member_written member_more by (auto simp: value_more_def)

definition tail_members :: "string \<Rightarrow> bool" where
  "tail_members t \<longleftrightarrow> t = [] \<or> (\<exists>m. t = '','' @ m \<and> json_members m)"

lemma tail_membersI: "tail_members []" "json_members m \<Longrightarrow> tail_members ('','' @ m)"
  by (auto simp: tail_members_def)

lemma tail_append: "tail_members a \<Longrightarrow> tail_members b \<Longrightarrow> tail_members (a @ b)"
  unfolding tail_members_def using members_append by fastforce

lemma members_tail: "json_members m \<Longrightarrow> tail_members t \<Longrightarrow> json_members (m @ t)"
  by (auto simp: tail_members_def dest: members_append)

lemma bits_string: "json_string (quote # debug_bits raw bl @ [quote])"
  by (rule plain_string) (auto simp: plain_text_def debug_bits_def Let_def list_all_iff)

lemma debug_suffix_tail: "tail_members (write_debug_suffix f payload)"
proof -
  have t: "tail_members ('','' @ json_member ''bytes'' (hex_string bs))"
      "tail_members ('','' @ json_member ''bits'' (quote # debug_bits raw bl @ [quote]))" for bs raw bl
    by (intro tail_membersI member_written; simp add: bits_string)+
  have both: "tail_members ('','' @ json_member ''bytes'' (hex_string bs) @ '','' @ json_member ''bits'' (quote # debug_bits raw bl @ [quote]))"
    for bs raw bl using tail_append [OF t] by simp
  show ?thesis
    using t(1) both tail_membersI(1) by (auto simp: write_debug_suffix_def Let_def split: option.split)
qed

lemma key_tail: "tail_members (if b then '','' @ json_member ''key'' ''true'' else [])"
  using tail_membersI(2) [OF member_written [of "''true''" "''key''"]] by (simp add: tail_membersI)

lemma object_more: "value_more v \<Longrightarrow> tail_members t \<Longrightarrow> json_value (''{'' @ json_member ''value'' v @ t @ ''}'')"
  using value_object [OF members_tail [OF member_value_more]] by simp

lemma unsupported_value [simp]: "json_value (unsupported_json t)"
  by (simp add: unsupported_json_def)

lemma show_time_value [simp]: "json_value (show_time tx f s)"
  by (simp add: show_time_def)

lemma members_name [simp]: "json_value v \<Longrightarrow> json_members (json_member ''name'' v)"
  by (simp add: member_written)

lemma finite_subfields:
  "df_value f = FvIsoName v subs \<Longrightarrow> finite_field fin f \<Longrightarrow> sf \<in> set (filter P subs) \<Longrightarrow> finite_field fin sf"
  by (simp add: finite_field_value list_all_iff)

lemma field_key: "json_value v \<Longrightarrow> json_members (write_json_string k @ '':'' @ v)"
  by (rule members_one) auto

lemmas value_more_intros = value_moreI(2) [simplified] value_moreI(1) value_moreI(1) [OF value_number]

lemma debug_object:
  "value_more v \<Longrightarrow> json_value (''{'' @ json_member ''value'' v @ write_debug_suffix f payload @
     (if b then '','' @ json_member ''key'' ''true'' else []) @ ''}'')"
  using object_more [OF _ tail_append [OF debug_suffix_tail key_tail]] by (simp only: append_assoc)

lemma debug_value:
  assumes "json_floats tx" "finite_field (fo_finite (tx_fo tx)) f"
  shows "json_value (write_field_value_debug tx opts f payload)"
  using assms
proof (induction tx opts f payload rule: write_field_value_debug.induct)
  case (1 tx opts f payload)
  have fin: "finite_value (fo_finite (tx_fo tx)) (df_value f)" using "1.prems" by (simp add: finite_field_value)
  note IH = "1.IH" and prems = "1.prems"
  show ?case
  proof (subst write_field_value_debug.simps, rule debug_object, goal_cases)
    case 1
    show ?case
    proof (cases "df_value f")
    case (FvIsoName v subs)
    have "list_all json_members (map (\<lambda>sf. write_json_string (field_display_name sf (jo_camel_case opts)) @ '':'' @
        write_field_value_debug tx opts sf (name_payload f payload)) (filter (subfield_shown opts) subs))" if "jo_name_value opts"
      unfolding list_all_iff
      using IH [OF FvIsoName that] finite_subfields [OF FvIsoName prems(2)] prems(1) by (auto intro!: field_key [simplified])
    from object_join [OF this] show ?thesis
      by (auto simp: FvIsoName intro: value_moreI(1) value_moreI(2) [simplified])
    qed (use fin show_number_value [OF prems(1)] prems(1) in \<open>auto simp: json_floats_def split: option.split intro: value_more_intros\<close>)
  qed
qed

lemma annotated_value [simp]: "json_value v \<Longrightarrow> json_value (key_annotation opts f v)"
  using object_more [OF value_moreI(1) key_tail, of v True] by (simp add: key_annotation_def)

lemma value_name_value [simp]: "json_value v \<Longrightarrow> json_value n \<Longrightarrow> json_value (value_name opts v n)"
  using object_more [OF value_moreI(1) tail_membersI(2) [OF members_name], of v n] by (simp add: value_name_def)

lemma written_value:
  assumes "json_floats tx" "finite_field (fo_finite (tx_fo tx)) f"
  shows "json_value (write_field_value tx opts f payload)"
  using assms
proof (induction tx opts f payload rule: write_field_value.induct)
  case (1 tx opts f payload)
  have fin: "finite_value (fo_finite (tx_fo tx)) (df_value f)" using "1.prems" by (simp add: finite_field_value)
  have tail: "tail_members (case nm of Some n \<Rightarrow> '','' @ json_member ''name'' (write_json_string n)
      | None \<Rightarrow> if b then '','' @ json_member ''name'' ''null'' else [])" for nm b
    using tail_membersI(2) [OF members_name] tail_membersI(1) by (auto split: option.split)
  note IH = "1.IH" and prems = "1.prems"
  show ?case
  proof (cases "jo_debug opts")
    case True
    then show ?thesis using debug_value [OF "1.prems"] by (simp add: write_field_value.simps)
  next
    case False
    show ?thesis
    proof (subst write_field_value.simps, simp only: False if_False, goal_cases)
      case 1
      show ?case
      proof (cases "df_value f")
      case (FvLookup v nm)
      show ?thesis
        using object_more [OF value_moreI(1) tail_append [OF tail [where nm = nm and b = "jo_include_empty opts"] key_tail], of "show_nat (unat v)" "df_part_of_primary_key f"]
        by (cases nm) (simp_all add: FvLookup)
    next
      case (FvPgn v description)
      show ?thesis
        using object_more [OF value_moreI(1) tail [where nm = description and b = False], of "show_nat (unat v)"]
        by (cases description) (simp_all add: FvPgn)
    next
      case (FvIsoName v subs)
      have "list_all json_members (map (\<lambda>sf. write_json_string (field_display_name sf (jo_camel_case opts)) @ '':'' @
          write_field_value tx opts sf payload) (filter (subfield_shown opts) subs))" if "jo_name_value opts"
        unfolding list_all_iff
        using IH [OF False FvIsoName that] finite_subfields [OF FvIsoName prems(2)] prems(1)
        by (auto intro!: field_key [simplified])
      from object_more [OF value_moreI(1) tail_membersI(2) [OF members_name [OF object_join [OF this]]]] show ?thesis
        by (simp add: FvIsoName)
      qed (use fin show_number_value [OF prems(1)] prems(1) in \<open>auto simp: json_floats_def split: option.split intro: value_number\<close>)
    qed
  qed
qed

subsection \<open>The fields\<close>

text \<open>
  The buffer outside a list is empty or holds members; inside a list it ends in the middle of an object, to which a member, a new object
  or the end of the list may be added.
\<close>

definition open_list :: "string \<Rightarrow> bool" where
  "open_list t \<longleftrightarrow>
     (\<exists>pre s es m. t = pre @ list_key s @ es @ m \<and> (pre = [] \<or> (\<exists>p. pre = p @ '','' \<and> json_members p)) \<and> json_members m \<and>
        (es = [] \<or> (\<exists>e. es = e @ ''},{'' \<and> json_elements (''{'' @ e @ ''}''))))"

lemma open_list_start: "pre = [] \<or> (\<exists>p. pre = p @ '','' \<and> json_members p) \<Longrightarrow> json_members m \<Longrightarrow> open_list (pre @ list_key s @ m)"
  unfolding open_list_def by (intro exI [of _ pre] exI [of _ s] exI [of _ "[]"] exI [of _ m]) simp

lemma open_list_member:
  assumes "open_list t" "json_members m'"
  shows "open_list (t @ '','' @ m')"
proof -
  obtain pre s es m where t: "t = pre @ list_key s @ es @ m" "pre = [] \<or> (\<exists>p. pre = p @ '','' \<and> json_members p)" "json_members m"
    "es = [] \<or> (\<exists>e. es = e @ ''},{'' \<and> json_elements (''{'' @ e @ ''}''))" using assms(1) unfolding open_list_def by blast
  show ?thesis
    unfolding open_list_def by (rule exI [of _ pre], rule exI [of _ s], rule exI [of _ es], rule exI [of _ "m @ '','' @ m'"])
      (use t members_append [OF t(3) assms(2)] in simp)
qed

lemma elements_closed:
  assumes "es = [] \<or> (\<exists>e. es = e @ ''},{'' \<and> json_elements (''{'' @ e @ ''}''))" "json_members m"
  shows "json_elements (''{'' @ es @ m @ ''}'')"
proof -
  have m: "json_elements (''{'' @ m @ ''}'')" by (intro elements_one value_object assms(2))
  show ?thesis
    using assms(1)
  proof
    assume "\<exists>e. es = e @ ''},{'' \<and> json_elements (''{'' @ e @ ''}'')"
    then obtain e where "es = e @ ''},{''" "json_elements (''{'' @ e @ ''}'')" by blast
    with elements_append [OF this(2) m] show ?thesis by simp
  qed (use m in simp)
qed

lemma open_list_object:
  assumes "open_list t" "json_members m'"
  shows "open_list (t @ ''},{'' @ m')"
proof -
  obtain pre s es m where t: "t = pre @ list_key s @ es @ m" "pre = [] \<or> (\<exists>p. pre = p @ '','' \<and> json_members p)" "json_members m"
    "es = [] \<or> (\<exists>e. es = e @ ''},{'' \<and> json_elements (''{'' @ e @ ''}''))" using assms(1) unfolding open_list_def by blast
  show ?thesis
    unfolding open_list_def by (rule exI [of _ pre], rule exI [of _ s], rule exI [of _ "(es @ m) @ ''},{''"], rule exI [of _ m'])
      (use t assms(2) elements_closed [OF t(4) t(3)] in simp)
qed

lemma list_member: "json_elements e \<Longrightarrow> json_members (quote # (if s = (1 :: u8) then ''list'' else ''list2'') @ quote # '':['' @ e @ '']'')"
  using member_written [OF value_array, of e "''list''"] member_written [OF value_array, of e "''list2''"]
  by (simp add: json_member_def)

lemma open_list_closed:
  assumes "open_list t"
  shows "json_members (t @ ''}]'')"
proof -
  obtain pre s es m where t: "t = pre @ list_key s @ es @ m" "pre = [] \<or> (\<exists>p. pre = p @ '','' \<and> json_members p)" "json_members m"
    "es = [] \<or> (\<exists>e. es = e @ ''},{'' \<and> json_elements (''{'' @ e @ ''}''))" using assms unfolding open_list_def by blast
  from list_member [OF elements_closed [OF t(4) t(3)], of s]
  have "json_members (list_key s @ es @ m @ ''}]'')" by (simp add: list_key_def)
  then show ?thesis using t(1,2) members_append by (elim disjE exE conjE) (simp, fastforce)
qed

definition buf_ok :: "fields_buf \<Rightarrow> bool" where
  "buf_ok b \<longleftrightarrow>
     (if fb_set b = 0 then fb_text b = [] \<and> fb_top_sep b = [] \<or> json_members (fb_text b) \<and> fb_top_sep b = '',''
      else open_list (fb_text b) \<and> fb_top_sep b = '','')"

lemma buf_closed:
  assumes "buf_ok b"
  defines "c \<equiv> fb_text b @ (if fb_set b \<noteq> 0 then ''}]'' else []) @ fb_top_sep b"
  shows "c = [] \<or> (\<exists>p. c = p @ '','' \<and> json_members p)"
proof (cases "fb_set b = 0")
  case False
  then show ?thesis using assms(1) open_list_closed unfolding c_def by (intro disjI2 exI [of _ "fb_text b @ ''}]''"]) (auto simp: buf_ok_def)
qed (use assms(1) in \<open>auto simp: buf_ok_def c_def\<close>)

lemma separated_members: "c = [] \<or> (\<exists>p. c = p @ '','' \<and> json_members p) \<Longrightarrow> json_members m \<Longrightarrow> json_members (c @ m)"
  using members_append by auto

lemma write_field_ok:
  assumes "buf_ok b" "json_members (field_member tx opts payload f)"
  shows "buf_ok (write_field tx opts payload b f)"
  using assms separated_members [OF buf_closed [OF assms(1)] assms(2)] open_list_start [OF buf_closed [OF assms(1)] assms(2)]
    open_list_member [of "fb_text b", OF _ assms(2)] open_list_object [of "fb_text b", OF _ assms(2)]
  by (simp add: write_field_def buf_ok_def Let_def split: if_split)

lemma write_field_set: "fb_set (write_field tx opts payload b f) = df_repeat_set f"
  by (simp add: write_field_def Let_def)

lemma write_fields_set:
  "fb_set (foldl (write_field tx opts payload) b fs) = (if fs = [] then fb_set b else df_repeat_set (last fs))"
  by (induction fs arbitrary: b) (simp_all add: write_field_set)

lemma write_fields_ok:
  "buf_ok b \<Longrightarrow> list_all (\<lambda>f. json_members (field_member tx opts payload f)) fs \<Longrightarrow> buf_ok (foldl (write_field tx opts payload) b fs)"
  by (induction fs arbitrary: b) (simp_all add: write_field_ok)

text \<open>
  The one way to a malformed line: a record whose last field shown is in the second repeating set, while the first set is declared and
  has no field; its empty list is then written without a comma.
\<close>

definition list1_misplaced :: "json_options \<Rightarrow> 'f decoded_pgn \<Rightarrow> bool" where
  "list1_misplaced opts d \<longleftrightarrow>
     fst (dp_has_repeating_set d) \<and> \<not> list_ex (\<lambda>f. df_repeat_set f = 1 \<and> renderable opts f) (dp_fields d) \<and>
     shown_fields opts d \<noteq> [] \<and> df_repeat_set (last (shown_fields opts d)) \<noteq> 0"

lemma empty_list_members: "json_members (list_key s @ ''}]'')"
  using list_member [OF elements_one [OF value_empty_object], of s] by (simp add: list_key_def)

definition fields_text :: "'f float_text \<Rightarrow> json_options \<Rightarrow> 'f decoded_pgn \<Rightarrow> string" where
  "fields_text tx opts d = empty_lists opts d (foldl (write_field tx opts (dp_data d)) fields_buf_new (shown_fields opts d))"

lemma fields_text_ok:
  assumes "json_floats tx" "list_all (finite_field (fo_finite (tx_fo tx))) (dp_fields d)" "\<not> list1_misplaced opts d"
  shows "fields_text tx opts d = [] \<or> json_members (fields_text tx opts d)"
proof -
  let ?b = "foldl (write_field tx opts (dp_data d)) fields_buf_new (shown_fields opts d)"
  have "json_members (field_member tx opts (dp_data d) f)" if "f \<in> set (dp_fields d)" for f
    using assms(1,2) that unfolding field_member_def by (intro field_key written_value) (auto simp: list_all_iff)
  then have ok: "buf_ok ?b"
    by (intro write_fields_ok) (auto simp: buf_ok_def fields_buf_new_def list_all_iff shown_fields_def Let_def)
  define c where "c = fb_text ?b @ (if fb_set ?b \<noteq> 0 then ''}]'' else [])"
  have c: "c = [] \<or> json_members c" and sep: "fb_set ?b = 0 \<Longrightarrow> c \<noteq> [] \<Longrightarrow> fb_top_sep ?b = '',''"
    using ok open_list_closed by (auto simp: c_def buf_ok_def split: if_splits)
  have mis: "fb_set ?b = 0 \<or> \<not> (fst (dp_has_repeating_set d) \<and> \<not> list_ex (\<lambda>f. df_repeat_set f = 1 \<and> renderable opts f) (dp_fields d))"
    using assms(3) write_fields_set [of tx opts "dp_data d" fields_buf_new "shown_fields opts d"]
    by (auto simp: list1_misplaced_def fields_buf_new_def)
  have add: "t = [] \<or> json_members t \<Longrightarrow> json_members (t @ (if t \<noteq> [] then '','' else []) @ list_key s @ ''}]'')" for t s
    using separated_members [OF _ empty_list_members, of "t @ (if t \<noteq> [] then '','' else [])" s] by (auto simp: empty_list_members)
  define c1 where "c1 = (if fst (dp_has_repeating_set d) \<and> \<not> list_ex (\<lambda>f. df_repeat_set f = 1 \<and> renderable opts f) (dp_fields d)
    then c @ (if c \<noteq> [] \<and> fb_set ?b = 0 then fb_top_sep ?b else []) @ list_key 1 @ ''}]'' else c)"
  have "c1 = [] \<or> json_members c1"
    using c mis sep add [OF c, of 1] empty_list_members [of 1] by (auto simp: c1_def)
  from add [OF this, of 2] this show ?thesis
    unfolding fields_text_def empty_lists_def Let_def c_def [symmetric] c1_def [symmetric] by simp
qed

lemma head_members: "json_members (json_head opts d)"
proof -
  have rest: "json_members (json_member ''prio'' (show_nat p) @ '','' @ json_member ''src'' (show_nat s) @ '','' @ json_member ''dst'' (show_nat r) @ '','' @
      json_member ''pgn'' (show_nat n) @ '','' @ json_member ''description'' (write_json_string u))" for p s r n u
    by (intro members_append member_written) simp_all
  show ?thesis
    using rest members_append [OF member_written, of _ "''timestamp''"]
    by (simp add: json_head_def split: option.split)
qed

lemma plain_upper_camel: "plain_text s \<Longrightarrow> plain_text (upper_camel s)"
proof -
  have "c' \<noteq> quote \<and> c' \<noteq> backslash \<and> 0x20 \<le> (of_char c' :: nat)" if "65 \<le> (of_char c' :: nat)" "(of_char c' :: nat) \<le> 90" for c'
    using that by auto
  moreover have "65 \<le> (of_char (char_of (n - 32) :: char) :: nat) \<and> (of_char (char_of (n - 32) :: char) :: nat) \<le> 90"
    if "97 \<le> n" "n \<le> 122" for n :: nat using that by (simp, arith)
  ultimately have up: "97 \<le> (of_char c :: nat) \<and> (of_char c :: nat) \<le> 122 \<Longrightarrow> char_of (of_char c - (32 :: nat)) = c' \<Longrightarrow>
      c' \<noteq> quote \<and> c' \<noteq> backslash \<and> 0x20 \<le> (of_char c' :: nat)" for c c' by blast
  show "plain_text s \<Longrightarrow> plain_text (upper_camel s)"
    using up [OF _ refl] by (cases s) (simp_all add: upper_camel_def plain_text_def del: of_char_of)
qed

lemma plain_display: "plain_text (dp_id d) \<Longrightarrow> mode \<noteq> CamelOff \<Longrightarrow> plain_text (pgn_display_description d mode)"
  by (cases mode) (simp_all add: pgn_display_description_def plain_upper_camel)

subsection \<open>Reading the head of a line back\<close>

text \<open>A text the search for a field passes over, whatever comes after it.\<close>

definition moved :: "nat \<Rightarrow> nat option \<Rightarrow> nat option" where
  "moved k r = (case r of None \<Rightarrow> None | Some i \<Rightarrow> Some (k + i))"

lemma moved_simps [simp]: "moved j (moved k r) = moved (j + k) r" "moved 0 r = r"
  by (simp_all add: moved_def split: option.split)

definition passes :: "string \<Rightarrow> string \<Rightarrow> bool" where
  "passes field a \<longleftrightarrow> (\<forall>t. find_str (needle field) (a @ t) = moved (length a) (find_str (needle field) t))"

definition searchable :: "string \<Rightarrow> bool" where
  "searchable field \<longleftrightarrow> plain_text field \<and> field \<noteq> [] \<and> hd field \<notin> {CHR '':'', CHR '',''}"

lemma passes_append: "passes field a \<Longrightarrow> passes field b \<Longrightarrow> passes field (a @ b)"
  by (simp add: passes_def)

lemma needle_at: "starts_with (c # s) (needle field) \<longleftrightarrow> c = quote \<and> starts_with s (field @ [quote, CHR '':''])"
  by (auto simp: needle_def starts_with_def)

lemma find_step: "\<not> (c = quote \<and> starts_with s (field @ [quote, CHR '':''])) \<Longrightarrow>
    find_str (needle field) (c # s) = moved 1 (find_str (needle field) s)"
  unfolding find_str.simps needle_at by (simp add: moved_def split: option.split)

lemma find_plain: "c \<noteq> quote \<Longrightarrow> find_str (needle field) (c # s) = moved 1 (find_str (needle field) s)"
  by (rule find_step) simp

declare find_str.simps(2) [simp del]

lemma passes_plain: "quote \<notin> set a \<Longrightarrow> passes field a"
  by (induction a) (auto simp: passes_def find_plain)

lemma key_match:
  "quote \<notin> set k \<Longrightarrow> quote \<notin> set field \<Longrightarrow> starts_with (k @ quote # r) (field @ [quote, CHR '':'']) \<Longrightarrow> k = field"
proof (induction k arbitrary: field)
  case Nil
  then show ?case by (cases field) (auto simp: starts_with_def)
next
  case (Cons c k)
  then show ?case by (cases field) (auto simp: starts_with_def)
qed

lemma passes_key:
  assumes "searchable field" "plain_text k" "k \<noteq> field"
  shows "passes field (quote # k @ [quote, CHR '':''])"
proof -
  have q: "quote \<notin> set k" "quote \<notin> set field" using assms by (auto simp: searchable_def plain_text_def list_all_iff)
  have k: "find_str (needle field) (k @ t) = moved (length k) (find_str (needle field) t)" for t
    using passes_plain [OF q(1)] by (simp add: passes_def)
  have c: "\<not> starts_with (CHR '':'' # t) (field @ [quote, CHR '':''])" for t
    using assms(1) by (cases field) (auto simp: searchable_def starts_with_def)
  have s: "\<not> starts_with (k @ quote # r) (field @ [quote, CHR '':''])" for r using key_match [OF q] assms(3) by blast
  show ?thesis by (simp add: passes_def find_step k c s)
qed

lemma chars_no_match:
  "json_chars b \<Longrightarrow> quote \<notin> set field \<Longrightarrow> backslash \<notin> set field \<Longrightarrow> \<not> starts_with (b @ quote # CHR '','' # t) (field @ [quote, CHR '':''])"
proof (induction arbitrary: field rule: json_chars.induct)
  case chars_nil
  then show ?case by (cases field) (auto simp: starts_with_def)
next
  case (chars_plain c s)
  then show ?case by (cases field) (auto simp: starts_with_def)
next
  case (chars_escape c s)
  then show ?case by (cases field) (auto simp: starts_with_def)
next
  case (chars_unicode h s)
  then show ?case by (cases field) (auto simp: starts_with_def)
qed

lemma chars_passed:
  "json_chars b \<Longrightarrow> searchable field \<Longrightarrow>
     find_str (needle field) (b @ quote # CHR '','' # t) = moved (length b) (find_str (needle field) (quote # CHR '','' # t))"
proof (induction rule: json_chars.induct)
  case (chars_escape c s)
  have "\<not> starts_with (s @ quote # CHR '','' # t) (field @ [quote, CHR '':''])"
    using chars_escape by (intro chars_no_match) (auto simp: searchable_def plain_text_def list_all_iff)
  then show ?case using chars_escape by (simp add: find_step)
next
  case (chars_unicode h s)
  have "quote \<notin> set (backslash # CHR ''u'' # h)" using chars_unicode(2) digit_plain by (auto simp: list_all_iff)
  from passes_plain [OF this] have "find_str (needle field) (backslash # CHR ''u'' # h @ r) =
      moved (2 + length h) (find_str (needle field) r)" for r by (simp add: passes_def)
  then show ?case using chars_unicode by simp
qed (simp_all add: find_step)

lemma passes_string:
  assumes "searchable field"
  shows "passes field (write_json_string s @ '','')"
proof -
  let ?b = "concat (map (escape_byte False) s)"
  have q: "quote \<notin> set field" "backslash \<notin> set field" using assms by (auto simp: searchable_def plain_text_def list_all_iff)
  have c: "\<not> starts_with (CHR '','' # t) (field @ [quote, CHR '':''])" for t
    using assms by (cases field) (auto simp: searchable_def starts_with_def)
  show ?thesis
    using chars_no_match [OF escaped_chars q, of False s] chars_passed [OF escaped_chars assms, of False s]
    by (simp add: passes_def write_json_string_def write_json_string_with_table_def find_step c)
qed

lemma passes_number:
  assumes "searchable field" "plain_text k" "k \<noteq> field"
  shows "passes field (json_member k (show_nat n) @ '','')"
proof -
  have "quote \<notin> set (show_nat n @ '','')"
    using show_nat_digits [of n] digit_plain by (auto simp: list_all_iff)
  from passes_append [OF passes_key [OF assms] passes_plain [OF this]] show ?thesis by (simp add: json_member_def)
qed

lemma passes_text:
  assumes "searchable field" "plain_text k" "k \<noteq> field"
  shows "passes field (json_member k (write_json_string s) @ '','')"
  using passes_append [OF passes_key [OF assms] passes_string [OF assms(1), of s]] by (simp add: json_member_def)

lemma find_passed: "passes field a \<Longrightarrow> find_str (needle field) (a @ needle field @ t) = Some (length a)"
proof -
  have "find_str (needle field) (needle field @ t) = Some 0"
    by (cases "needle field @ t") (auto simp: needle_def find_str.simps(2) starts_with_def)
  then show "passes field a \<Longrightarrow> find_str (needle field) (a @ needle field @ t) = Some (length a)"
    by (simp add: passes_def moved_def)
qed

lemma value_read:
  assumes "passes field a" "\<not> is_blank c"
  obtains start where "value_start (a @ needle field @ c # v) field = Some start" "drop start (a @ needle field @ c # v) = c # v"
proof
  show "value_start (a @ needle field @ c # v) field = Some (length a + length (needle field))"
    unfolding value_start_def find_passed [OF assms(1)] using assms(2) by simp
qed simp

lemma number_read:
  assumes "passes field a"
  shows "aj_value (a @ json_member field (show_nat n) @ '','' @ t) field = Some (show_nat n)"
proof -
  obtain c r where n: "show_nat n = c # r" by (cases "show_nat n") simp_all
  have d: "list_all is_digit (c # r)" using show_nat_digits [of n] by (simp add: n)
  then have c: "\<not> is_blank c" "c \<noteq> quote" "c \<noteq> CHR ''{''" "c \<noteq> CHR ''[''" by (auto simp: is_digit_def is_blank_def)
  have tw: "takeWhile (\<lambda>x. x \<notin> {CHR '','', CHR ''}'', CHR '' '', CHR 0x09, CHR 0x0A, CHR 0x0D}) (s @ CHR '','' # t) = s"
    if "list_all is_digit s" for s
    using that by (induction s) (auto simp: is_digit_def)
  have m: "a @ json_member field (show_nat n) @ '','' @ t = a @ needle field @ c # r @ CHR '','' # t"
    by (simp add: json_member_def needle_def n)
  obtain start where v: "value_start (a @ needle field @ c # r @ CHR '','' # t) field = Some start"
      "drop start (a @ needle field @ c # r @ CHR '','' # t) = c # r @ CHR '','' # t"
    using value_read [OF assms c(1)] by blast
  show ?thesis
    unfolding m aj_value_def v(1) bind.bind_lunit v(2) list.case using c(2-4) tw [OF d] by (simp add: n del: takeWhile.simps)
qed

lemma string_read:
  assumes "passes field a"
  shows "aj_value (a @ json_member field (write_json_string s) @ t) field = Some (concat (map (escape_byte False) s))"
proof -
  let ?b = "concat (map (escape_byte False) s)"
  have m: "a @ json_member field (write_json_string s) @ t = a @ needle field @ quote # ?b @ quote # t"
    by (simp add: json_member_def needle_def write_json_string_def write_json_string_with_table_def)
  have "\<not> is_blank quote" by (simp add: is_blank_def)
  then obtain start where v: "value_start (a @ needle field @ quote # ?b @ quote # t) field = Some start"
      "drop start (a @ needle field @ quote # ?b @ quote # t) = quote # ?b @ quote # t"
    using value_read [OF assms] by blast
  show ?thesis
    unfolding m aj_value_def v(1) bind.bind_lunit v(2) list.case using string_body_chars [OF escaped_chars, of False s t] by simp
qed

lemma int_read:
  assumes "passes field a" "n < 2 ^ 63"
  shows "aj_int (a @ json_member field (show_nat n) @ '','' @ t) field = Some (int n)"
proof -
  obtain c r where n: "show_nat n = c # r" by (cases "show_nat n") simp_all
  have d: "list_all is_digit (show_nat n)" by (rule show_nat_digits)
  have "\<not> is_space x" if "is_digit x" for x using that by (auto simp: is_digit_def is_space_def)
  then have "trim (show_nat n) = show_nat n" using d hd_in_set last_in_set by (intro trim_id) (auto simp: list_all_iff)
  moreover have "parse_i64 (show_nat n) = Some (int n)"
    using d assms(2) parse_show_nat [of n "2 ^ 63 - 1"] by (auto simp: parse_i64_def n is_digit_def)
  moreover have "\<not> starts_with (show_nat n) ''{''" using d by (auto simp: n starts_with_def is_digit_def)
  ultimately show ?thesis by (subst aj_int.simps) (simp add: number_read [OF assms(1), simplified])
qed

text \<open>What the head of a line passes over before each of its members.\<close>

lemma searchable_keys [simp]: "searchable ''src''" "searchable ''pgn''" "searchable ''description''"
  by (simp_all add: searchable_def)

definition line_start :: "json_options \<Rightarrow> 'f decoded_pgn \<Rightarrow> string" where
  "line_start opts d =
     (if jo_camel_case opts \<noteq> CamelOff then ''{'' @ quote # pgn_display_description d (jo_camel_case opts) @ quote # '':'' else []) @ ''{'' @
     (case dp_timestamp d of Some ts \<Rightarrow> json_member ''timestamp'' (write_json_string (normalize_timestamp ts)) @ '','' | None \<Rightarrow> [])"

definition wrapper_ok :: "json_options \<Rightarrow> 'f decoded_pgn \<Rightarrow> bool" where
  "wrapper_ok opts d \<longleftrightarrow> plain_text (dp_id d) \<and>
     pgn_display_description d (jo_camel_case opts) \<notin> {''timestamp'', ''prio'', ''src'', ''dst'', ''pgn'', ''description'', ''fields''}"

lemma line_start_passed:
  assumes "wrapper_ok opts d" "field \<in> {''src'', ''pgn'', ''description''}"
  shows "passes field (line_start opts d)"
proof -
  let ?id = "pgn_display_description d (jo_camel_case opts)"
  have s: "searchable field" using assms(2) by auto
  have brace: "passes field ''{''" by (rule passes_plain) simp
  have "passes field (''{'' @ (quote # ?id @ [quote, CHR '':'']) @ ''{'')" if "jo_camel_case opts \<noteq> CamelOff"
    using assms plain_display [OF _ that, of d] by (intro passes_append brace passes_key s) (auto simp: wrapper_ok_def)
  moreover have "passes field (json_member ''timestamp'' (write_json_string ts) @ '','')" for ts
    using assms(2) by (intro passes_text s) auto
  moreover have "passes field []" by (rule passes_plain) simp
  ultimately show ?thesis
    using brace passes_append [of field "''{''"]
      passes_append [of field "''{'' @ (quote # ?id @ [quote, CHR '':'']) @ ''{''"]
    by (auto simp: line_start_def split: option.split)
qed

definition before_src :: "json_options \<Rightarrow> 'f decoded_pgn \<Rightarrow> string" where
  "before_src opts d = line_start opts d @ json_member ''prio'' (show_nat (unat (dp_prio d))) @ '',''"

definition before_pgn :: "json_options \<Rightarrow> 'f decoded_pgn \<Rightarrow> string" where
  "before_pgn opts d = before_src opts d @ (json_member ''src'' (show_nat (unat (dp_src d))) @ '','') @
     json_member ''dst'' (show_nat (unat (dp_dst d))) @ '',''"

definition before_description :: "json_options \<Rightarrow> 'f decoded_pgn \<Rightarrow> string" where
  "before_description opts d = before_pgn opts d @ json_member ''pgn'' (show_nat (unat (dp_pgn d))) @ '',''"

lemma heads_passed:
  assumes "wrapper_ok opts d"
  shows "passes ''src'' (before_src opts d)" "passes ''pgn'' (before_pgn opts d)" "passes ''description'' (before_description opts d)"
  unfolding before_description_def before_pgn_def before_src_def
  using line_start_passed [OF assms] by (intro passes_append passes_number; simp)+

lemma line_splits:
  obtains x y z where
    "write_json tx opts d = before_src opts d @ json_member ''src'' (show_nat (unat (dp_src d))) @ '','' @ x"
    "write_json tx opts d = before_pgn opts d @ json_member ''pgn'' (show_nat (unat (dp_pgn d))) @ '','' @ y"
    "write_json tx opts d = before_description opts d @
       json_member ''description'' (write_json_string (pgn_display_description d (jo_camel_case opts))) @ z"
  by (auto simp: write_json_def json_head_def before_description_def before_pgn_def before_src_def line_start_def Let_def)

lemma wrapper_read:
  assumes "wrapper_ok opts d"
  shows "camel_wrapper_id (write_json tx opts d) =
    (if jo_camel_case opts = CamelOff then None else Some (pgn_display_description d (jo_camel_case opts)))"
proof -
  have key: "camel_wrapper_id (''{'' @ quote # k @ quote # t) =
      (if k \<in> {''timestamp'', ''prio'', ''src'', ''dst'', ''pgn'', ''description'', ''fields''} then None else Some k)"
    if "quote \<notin> set k" for k t
    using split_once_append [OF that, of t]
    by (simp add: camel_wrapper_id_def strip_prefix_def starts_with_def trim_start_def is_space_def)
  show ?thesis
  proof (cases "jo_camel_case opts = CamelOff")
    case True
    have "\<exists>k t. k \<in> {''timestamp'', ''prio''} \<and> write_json tx opts d = ''{'' @ quote # k @ quote # t"
      using True by (auto simp: write_json_def json_head_def json_member_def split: option.split)
    then obtain k t where k: "k \<in> {''timestamp'', ''prio''}" and line: "write_json tx opts d = ''{'' @ quote # k @ quote # t" by blast
    have "quote \<notin> set k" using k by auto
    from key [OF this, of t] show ?thesis unfolding line using True k by auto
  next
    case False
    have "\<exists>t. write_json tx opts d = ''{'' @ quote # pgn_display_description d (jo_camel_case opts) @ quote # t"
      using False by (auto simp: write_json_def)
    moreover have "quote \<notin> set (pgn_display_description d (jo_camel_case opts))"
      using assms plain_display [OF _ False, of d] by (auto simp: wrapper_ok_def plain_text_def list_all_iff)
    ultimately show ?thesis using False assms key by (auto simp: wrapper_ok_def)
  qed
qed

lemma head_read:
  assumes "wrapper_ok opts d"
  shows "aj_int (write_json tx opts d) ''src'' = Some (uint (dp_src d))" "aj_int (write_json tx opts d) ''pgn'' = Some (uint (dp_pgn d))"
    "aj_value (write_json tx opts d) ''description'' =
       Some (concat (map (escape_byte False) (pgn_display_description d (jo_camel_case opts))))"
proof -
  have b: "unat (dp_src d) < 2 ^ 63" "unat (dp_pgn d) < 2 ^ 63"
    by (rule order.strict_trans2 [OF unsigned_less], simp)+
  note P = heads_passed [OF assms]
  show "aj_int (write_json tx opts d) ''src'' = Some (uint (dp_src d))" "aj_int (write_json tx opts d) ''pgn'' = Some (uint (dp_pgn d))"
    "aj_value (write_json tx opts d) ''description'' =
       Some (concat (map (escape_byte False) (pgn_display_description d (jo_camel_case opts))))"
    using line_splits [of tx opts d] int_read [OF P(1) b(1)] int_read [OF P(2) b(2)] string_read [OF P(3)]
    by (metis uint_nat)+
qed

subsection \<open>Properties\<close>

text \<open>
  C4: The line written of a record is a JSON object, whatever the options and the texts in it, if its floats are finite, the identifier
  of its PGN needs no escape and the empty first list is not misplaced.
\<close>

theorem written_line_is_json:
  assumes "json_floats tx" "list_all (finite_field (fo_finite (tx_fo tx))) (dp_fields d)" "plain_text (dp_id d)" "\<not> list1_misplaced opts d"
  shows "json_object (write_json tx opts d)"
proof -
  let ?t = "fields_text tx opts d"
  have "json_members (json_head opts d @ (if ?t \<noteq> [] then '','' @ json_member ''fields'' (''{'' @ ?t @ ''}'') else []))"
    using fields_text_ok [OF assms(1,2,4)] members_append [OF head_members member_written [OF value_object, of ?t "''fields''"]] head_members
    by auto
  then have inner: "json_object (''{'' @ json_head opts d @ write_json_inner tx opts d)"
    by (auto simp: write_json_inner_def Let_def fields_text_def json_object_def)
  show ?thesis
  proof (cases "jo_camel_case opts = CamelOff")
    case False
    have "json_members (json_member (pgn_display_description d (jo_camel_case opts)) (''{'' @ json_head opts d @ write_json_inner tx opts d))"
      by (rule member_written [OF json_object_value [OF inner] plain_display [OF assms(3) False]])
    with False show ?thesis by (auto simp: write_json_def json_object_def json_member_def)
  qed (use inner in \<open>simp add: write_json_def\<close>)
qed

text \<open>A record over integers as numbers: a number, a text with a quote and a slash, and one object of the second list.\<close>

definition demo_text :: "int float_text" where
  "demo_text =
     \<lparr>tx_fo = demo_fo, tx_abs = abs, tx_sign_negative = (\<lambda>x. x < 0), tx_trunc = (\<lambda>x. x), tx_powi10 = (\<lambda>p. 10 ^ p), tx_to_i128 = (\<lambda>x. x),
      tx_to_u64 = word_of_int, tx_of_u64 = uint, tx_display = show_int_padded 0, tx_fixed = (\<lambda>_. show_int_padded 0)\<rparr>"

definition demo_options :: json_options where
  "demo_options = \<lparr>jo_include_empty = False, jo_name_value = True, jo_debug = False, jo_camel_case = CamelLower\<rparr>"

definition demo_decoded :: "u8 \<Rightarrow> string \<Rightarrow> int field_value \<Rightarrow> u8 \<Rightarrow> int decoded_field" where
  "demo_decoded ord nm v s = DecodedField (demo_field ord nm 8 0 FtNumber) v (Some 0) (Some 8) (if s = 0 then None else Some 0) s None"

definition demo_record :: "int decoded_pgn" where
  "demo_record =
     \<lparr>dp_timestamp = Some ''2026-01-02T03:04:05.678Z'', dp_prio = 3, dp_pgn = 130840, dp_src = 17, dp_dst = 255,
      dp_description = ''Demo'', dp_id = ''demoStatus'', dp_id_is_pinned = False, dp_data = [1, 2, 3, 4],
      dp_fields = [demo_decoded 1 ''speed'' (FvNumber (- 7)) 0, demo_decoded 2 ''note'' (FvString [97, 34, 47]) 0,
        demo_decoded 3 ''key'' (FvInteger 9) 2],
      dp_has_repeating_set = (False, True), dp_index_by_order = []\<rparr>"

lemma demo_text_floats: "json_floats demo_text"
proof -
  have z: "show_padded 0 n = show_nat n" for n by (simp add: show_padded_def pad_left_def)
  have "json_number (show_int_padded 0 x)" for x
    using json_number_fixed(2) [of "''-''" "''0''"] by (simp add: show_int_padded_def z json_number_nat is_digit_def)
  then show ?thesis by (simp add: json_floats_def demo_text_def)
qed

lemma demo_record_shape:
  "list_all (finite_field (fo_finite (tx_fo demo_text))) (dp_fields demo_record)" "plain_text (dp_id demo_record)"
  "fst (dp_has_repeating_set demo_record) = False" "wrapper_ok demo_options demo_record"
  by code_simp+

lemma written_line_is_json_witness: "json_object (write_json demo_text demo_options demo_record)"
  by (rule written_line_is_json) (simp_all add: demo_text_floats demo_record_shape list1_misplaced_def)

lemma demo_shown:
  "shown_fields demo_options (demo_record\<lparr>dp_has_repeating_set := h, dp_fields := fs\<rparr>) = filter (\<lambda>f. \<not> field_suppressed demo_options 32 f) fs"
  by (simp add: shown_fields_def demo_record_def)

lemma demo_fields_text:
  "fields_text demo_text demo_options (demo_record\<lparr>dp_has_repeating_set := h, dp_fields := fs\<rparr>) =
     (let d = demo_record\<lparr>dp_has_repeating_set := h, dp_fields := fs\<rparr> in
      empty_lists demo_options d (foldl (write_field demo_text demo_options [1, 2, 3, 4]) fields_buf_new
        (filter (\<lambda>f. \<not> field_suppressed demo_options 32 f) fs)))"
  unfolding fields_text_def demo_shown by (simp add: demo_record_def)

lemma demo_line:
  "fields_text demo_text demo_options (demo_record\<lparr>dp_has_repeating_set := (False, True), dp_fields := dp_fields demo_record\<rparr>) =
     quote # ''speed'' @ quote # '':-7,'' @ quote # ''note'' @ quote # '':'' @ quote # ''a'' @ [backslash, quote, backslash, CHR ''/'', quote] @
       '','' @ quote # ''list2'' @ quote # '':[{'' @ quote # ''key'' @ quote # '':9}]''"
  unfolding demo_fields_text by code_simp

text \<open>The misplaced empty list.\<close>

lemma demo_malformed:
  "fields_text demo_text demo_options (demo_record\<lparr>dp_has_repeating_set := (True, True), dp_fields := [demo_decoded 3 ''key'' (FvInteger 9) 2]\<rparr>) =
     quote # ''list2'' @ quote # '':[{'' @ quote # ''key'' @ quote # '':9}]'' @ quote # ''list'' @ quote # '':[{}]''"
  unfolding demo_fields_text by code_simp

text \<open>
  C5: The scanners read the source, the PGN, the wrapper and the description (still escaped) back from the line written of a record, whatever
  its time stamp and fields are.
\<close>

theorem written_head_read:
  assumes "wrapper_ok opts d"
  shows "aj_int (write_json tx opts d) ''src'' = Some (uint (dp_src d)) \<and> aj_int (write_json tx opts d) ''pgn'' = Some (uint (dp_pgn d)) \<and>
    camel_wrapper_id (write_json tx opts d) =
      (if jo_camel_case opts = CamelOff then None else Some (pgn_display_description d (jo_camel_case opts))) \<and>
    aj_value (write_json tx opts d) ''description'' =
      Some (concat (map (escape_byte False) (pgn_display_description d (jo_camel_case opts))))"
  using head_read [OF assms] wrapper_read [OF assms] by blast

lemma written_head_read_witness:
  "aj_int (write_json demo_text demo_options demo_record) ''src'' = Some 17 \<and> camel_wrapper_id (write_json demo_text demo_options demo_record) = Some ''demoStatus''"
proof -
  have "uint (dp_src demo_record) = 17" "pgn_display_description demo_record (jo_camel_case demo_options) = ''demoStatus''"
    "jo_camel_case demo_options \<noteq> CamelOff" by code_simp+
  then show ?thesis using written_head_read [OF demo_record_shape(4), of demo_text] by simp
qed

end
