(* ===== verification/Snapshot.thy ===== *)
theory Snapshot
  imports Json_Lines "HOL-Library.AList"
begin

section \<open>The snapshot cache (canboat-core/src/snapshot.rs)\<close>

text \<open>
  The cache behind the "full state on connect" ports: the latest analyzer line of every \<open>(pgn, src, secondary)\<close>, in first-seen order.
  An \<open>IndexMap\<close> is an association list in insertion order: storing under a known key updates it in place.  An \<open>Instant\<close> is a number
  of nanoseconds, the caller's \<open>now\<close> an argument; the lock is held over each operation.  A line is rendered on demand by a function.
  The database is the embedded one.
\<close>

subsection \<open>Time to live and keys\<close>

definition SENSOR_TTL :: nat where "SENSOR_TTL = 120 * 10 ^ 9"
definition AIS_TTL :: nat where "AIS_TTL = 3600 * 10 ^ 9"
definition DEVICE_CLAIM_TTL :: nat where "DEVICE_CLAIM_TTL = 3600 * 10 ^ 9"
definition DEVICE_INFO_PGNS :: "u32 list" where "DEVICE_INFO_PGNS = [126996, 126998]"
definition ISO_ADDRESS_CLAIM_PGN :: u32 where "ISO_ADDRESS_CLAIM_PGN = 60928"

definition ttl_for_pgn :: "u32 \<Rightarrow> bool \<Rightarrow> nat option" where
  "ttl_for_pgn pgn is_ais =
     (if pgn \<in> set DEVICE_INFO_PGNS then None
      else if pgn = ISO_ADDRESS_CLAIM_PGN then Some DEVICE_CLAIM_TTL
      else if is_ais then Some AIS_TTL else Some SENSOR_TTL)"

definition AIS_PGNS :: "u32 list" where
  "AIS_PGNS = [129038, 129039, 129040, 129041, 129793, 129794, 129795, 129796, 129797, 129798, 129801, 129802,
     129803, 129804, 129805, 129806, 129807, 129808, 129809, 129810]"

definition is_ais_pgn :: "u32 \<Rightarrow> bool" where
  "is_ais_pgn pgn \<longleftrightarrow> binary_search_by_key (\<lambda>p. p) pgn AIS_PGNS \<noteq> None"

definition PRIMARY_KEY_OVERRIDES :: "(u32 \<times> string) list" where
  "PRIMARY_KEY_OVERRIDES = []"

definition is_part_of_primary_key :: "u32 \<Rightarrow> 'f field_info \<Rightarrow> bool" where
  "is_part_of_primary_key pgn f \<longleftrightarrow>
     fi_part_of_primary_key f = Some True \<or> list_ex (\<lambda>(p, i). p = pgn \<and> i = fi_id f) PRIMARY_KEY_OVERRIDES"

definition in_set_at :: "u8 \<Rightarrow> u32 option \<Rightarrow> u32 option \<Rightarrow> bool" where
  "in_set_at order start sz =
     (case (start, sz) of (Some s, Some n) \<Rightarrow> s \<le> ucast order \<and> ucast order < s + n | _ \<Rightarrow> False)"

definition field_in_any_repeat_set :: "'f pgn_info \<Rightarrow> 'f field_info \<Rightarrow> u8 option" where
  "field_in_any_repeat_set info f =
     (if in_set_at (fi_order f) (pg_set1_start info) (pg_set1_size info) then Some 1
      else if in_set_at (fi_order f) (pg_set2_start info) (pg_set2_size info) then Some 2 else None)"

definition join_parts :: "string list \<Rightarrow> string option" where
  "join_parts parts = (if parts = [] then None else Some (join ''_'' parts))"

definition composite_secondary :: "'f pgn_info \<Rightarrow> ('f field_info \<Rightarrow> string option) \<Rightarrow> string option" where
  "composite_secondary info get_text =
     join_parts (List.map_filter
       (\<lambda>f. if is_part_of_primary_key (pg_pgn info) f \<and> field_in_any_repeat_set info f = None then get_text f else None) (pg_fields info))"

definition repeating_pk_set :: "'f pgn_info \<Rightarrow> u8 option" where
  "repeating_pk_set info =
     (case find (\<lambda>f. is_part_of_primary_key (pg_pgn info) f \<and> field_in_any_repeat_set info f \<noteq> None) (pg_fields info) of
        Some f \<Rightarrow> field_in_any_repeat_set info f
      | None \<Rightarrow> None)"

definition per_iteration_secondary ::
  "'f pgn_info \<Rightarrow> u8 \<Rightarrow> u32 \<Rightarrow> ('f field_info \<Rightarrow> string option) \<Rightarrow> ('f field_info \<Rightarrow> u32 \<Rightarrow> string option) \<Rightarrow> string option" where
  "per_iteration_secondary info repeat_set it get_top get_iter =
     join_parts (List.map_filter
       (\<lambda>f. if \<not> is_part_of_primary_key (pg_pgn info) f then None
            else case field_in_any_repeat_set info f of
              None \<Rightarrow> get_top f
            | Some s \<Rightarrow> if s = repeat_set then get_iter f it else None) (pg_fields info))"

subsection \<open>Classifying a line\<close>

record snapshot_input =
  si_pgn :: u32
  si_src :: u8
  si_secondary :: "string option"
  si_is_ais :: bool
  si_pgn_description :: string
  si_line :: string

definition single_input :: "'f pgn_info option \<Rightarrow> ('f field_info \<Rightarrow> string) \<Rightarrow> u32 \<Rightarrow> u8 \<Rightarrow> string \<Rightarrow> string \<Rightarrow> snapshot_input" where
  "single_input info field_key pgn src description line =
     \<lparr>si_pgn = pgn, si_src = src,
      si_secondary = Option.bind info (\<lambda>info. composite_secondary info (\<lambda>f. lookup_text line (field_key f))),
      si_is_ais = is_ais_pgn pgn, si_pgn_description = description, si_line = line\<rparr>"

text \<open>The inputs of a line in order; \<open>None\<close> is the panic of \<open>split\_object\_array\<close>.\<close>

definition classify_json_line :: "'f pgn_database \<Rightarrow> string \<Rightarrow> snapshot_input list option" where
  "classify_json_line db line =
     (case (aj_int line ''pgn'', aj_int line ''src'') of
        (Some p, Some s) \<Rightarrow>
          (let pgn = word_of_int p; src = word_of_int s;
               description = or_default [] (aj_value line ''description'');
               use_camel = (camel_wrapper_id line \<noteq> None);
               field_key = (\<lambda>f. if use_camel then fi_id f else fi_name f);
               info = first_pgn db pgn
           in case Option.bind info repeating_pk_set of
                None \<Rightarrow> Some [single_input info field_key pgn src description line]
              | Some rs \<Rightarrow>
                  (case array_span line (if rs = 1 then ''list'' else ''list2'') of
                     None \<Rightarrow> Some [single_input info field_key pgn src description line]
                   | Some (arr_start, arr_end) \<Rightarrow>
                       map_option (map (\<lambda>(it, elem).
                           \<lparr>si_pgn = pgn, si_src = src,
                            si_secondary = per_iteration_secondary (the info) rs (word_of_nat it)
                              (\<lambda>f. lookup_text line (field_key f)) (\<lambda>f _. lookup_text elem (field_key f)),
                            si_is_ais = is_ais_pgn pgn, si_pgn_description = description,
                            si_line = take arr_start line @ ''['' @ elem @ '']'' @ drop arr_end line\<rparr>) \<circ> List.enumerate 0)
                         (split_object_array (slice arr_start arr_end line))))
      | _ \<Rightarrow> Some [])"

subsection \<open>The cache\<close>

datatype line_payload = PayloadReady string | PayloadLazy "unit \<Rightarrow> string"

definition render :: "line_payload \<Rightarrow> string" where
  "render p = (case p of PayloadReady s \<Rightarrow> s | PayloadLazy f \<Rightarrow> f ())"

record cache_entry =
  ce_payload :: line_payload
  ce_pgn_short_description :: string
  ce_expires_at :: "nat option"
  ce_last_timestamp :: "u64 option"
  ce_count :: u64
  ce_previous_store_at :: "nat option"
  ce_interval_ms :: u64

type_synonym cache_key = "u32 \<times> u8 \<times> string option"

record snapshot_store =
  ss_cache :: "(cache_key \<times> cache_entry) list"
  ss_epoch_instant :: nat
  ss_epoch_wall_ms :: u64

definition snapshot_store_new :: "nat \<Rightarrow> u64 \<Rightarrow> snapshot_store" where
  "snapshot_store_new now wall_ms = \<lparr>ss_cache = [], ss_epoch_instant = now, ss_epoch_wall_ms = wall_ms\<rparr>"

definition short_description :: "string \<Rightarrow> string" where
  "short_description desc = (case split_once CHR '':'' desc of Some (a, _) \<Rightarrow> a | None \<Rightarrow> desc)"

text \<open>\<open>as\_millis() as u64\<close> of a saturating difference.\<close>

definition millis_since :: "nat \<Rightarrow> nat \<Rightarrow> u64" where
  "millis_since now t = word_of_nat ((now - t) div 10 ^ 6)"

definition saturating_add_u64 :: "u64 \<Rightarrow> u64 \<Rightarrow> u64" where
  "saturating_add_u64 a b = word_of_nat (min (unat a + unat b) (2 ^ 64 - 1))"

definition store_entry ::
  "u32 \<Rightarrow> u8 \<Rightarrow> string option \<Rightarrow> bool \<Rightarrow> string \<Rightarrow> line_payload \<Rightarrow> nat \<Rightarrow> snapshot_store \<Rightarrow> snapshot_store" where
  "store_entry pgn src secondary is_ais pgn_description payload now s =
     (let key = (pgn, src, secondary);
          prev = map_of (ss_cache s) key;
          prev_count = (case prev of Some e \<Rightarrow> ce_count e | None \<Rightarrow> 0);
          interval_ms = (case Option.bind prev ce_previous_store_at of Some t \<Rightarrow> millis_since now t | None \<Rightarrow> 0);
          entry = \<lparr>ce_payload = payload, ce_pgn_short_description = short_description pgn_description,
            ce_expires_at = map_option ((+) now) (ttl_for_pgn pgn is_ais),
            ce_last_timestamp = Some (saturating_add_u64 (ss_epoch_wall_ms s) (millis_since now (ss_epoch_instant s))),
            ce_count = prev_count + 1, ce_previous_store_at = Some now, ce_interval_ms = interval_ms\<rparr>
      in s\<lparr>ss_cache := AList.update key entry (ss_cache s)\<rparr>)"

definition snapshot_put :: "nat \<Rightarrow> snapshot_input \<Rightarrow> snapshot_store \<Rightarrow> snapshot_store" where
  "snapshot_put now i =
     store_entry (si_pgn i) (si_src i) (si_secondary i) (si_is_ais i) (si_pgn_description i) (PayloadReady (si_line i)) now"

definition store_lazy ::
  "u32 \<Rightarrow> u8 \<Rightarrow> string option \<Rightarrow> bool \<Rightarrow> string \<Rightarrow> (unit \<Rightarrow> string) \<Rightarrow> nat \<Rightarrow> snapshot_store \<Rightarrow> snapshot_store" where
  "store_lazy pgn src secondary is_ais pgn_description f now =
     store_entry pgn src secondary is_ais pgn_description (PayloadLazy f) now"

subsection \<open>The documents\<close>

definition snap_escape :: "char \<Rightarrow> string" where
  "snap_escape c =
     (if c = quote then [backslash, quote]
      else if c = backslash then [backslash, backslash]
      else if c = CHR 0x0A then [backslash, CHR ''n'']
      else if c = CHR 0x0D then [backslash, CHR ''r'']
      else if c = CHR 0x09 then [backslash, CHR ''t'']
      else if (of_char c :: nat) < 0x20 then backslash # CHR ''u'' # show_hex_padded False 4 (of_char c)
      else [c])"

definition snap_json_string :: "string \<Rightarrow> string" where
  "snap_json_string s = quote # concat (map snap_escape s) @ [quote]"

text \<open>\<open>replacen(\<dots>, 1)\<close>.\<close>

definition replace_first :: "string \<Rightarrow> string \<Rightarrow> string \<Rightarrow> string" where
  "replace_first p r s = (case find_str p s of None \<Rightarrow> s | Some i \<Rightarrow> take i s @ r @ drop (i + length p) s)"

definition unwrap_camel_record :: "string \<Rightarrow> string \<Rightarrow> string \<Rightarrow> string" where
  "unwrap_camel_record payload camel_id full_desc =
     (case strip_prefix (trim payload) (''{'' @ json_member camel_id []) of
        None \<Rightarrow> payload
      | Some inner \<Rightarrow>
          replace_first (json_member ''description'' (quote # camel_id @ [quote])) (json_member ''description'' (snap_json_string full_desc))
            (if inner \<noteq> [] \<and> last inner = CHR ''}'' then butlast inner else inner))"

definition prune :: "nat \<Rightarrow> snapshot_store \<Rightarrow> snapshot_store" where
  "prune now s = s\<lparr>ss_cache := filter (\<lambda>(_, v). case ce_expires_at v of None \<Rightarrow> True | Some t \<Rightarrow> t > now) (ss_cache s)\<rparr>"

type_synonym pgn_group = "u32 \<times> ((u8 \<times> string option) \<times> cache_entry) list"

definition group_push :: "pgn_group list \<Rightarrow> cache_key \<times> cache_entry \<Rightarrow> pgn_group list" where
  "group_push by_pgn = (\<lambda>((pgn, src, sec), entry).
     AList.update pgn (or_default [] (map_of by_pgn pgn) @ [((src, sec), entry)]) by_pgn)"

definition by_pgn :: "(u32 \<Rightarrow> cache_entry \<Rightarrow> bool) \<Rightarrow> snapshot_store \<Rightarrow> pgn_group list" where
  "by_pgn keep s = foldl group_push [] (filter (\<lambda>((pgn, _), entry). keep pgn entry) (ss_cache s))"

definition newline :: char where "newline = CHR 0x0A"

definition group_open :: "string \<Rightarrow> string \<Rightarrow> string" where
  "group_open key desc = key @ quote # '':'' @ newline # ''  {'' @ json_member ''description'' (snap_json_string desc)"

definition record_text :: "u8 \<times> string option \<Rightarrow> string \<Rightarrow> string" where
  "record_text k text =
     newline # ''  ,'' @ json_member (show_nat (unat (fst k)) @ (case snd k of Some s \<Rightarrow> CHR ''_'' # s | None \<Rightarrow> [])) text"

definition snapshot_group :: "'f pgn_database \<Rightarrow> pgn_group \<Rightarrow> string" where
  "snapshot_group db = (\<lambda>(pgn, entries).
     let desc = ce_pgn_short_description (snd (hd entries));
         rendered = map (\<lambda>(_, e). render (ce_payload e)) entries;
         camel_id = camel_wrapper_id (hd rendered);
         full_desc = (case Option.bind camel_id (pgn_by_id db) of Some info \<Rightarrow> pg_description info | None \<Rightarrow> desc)
     in group_open (case camel_id of Some i \<Rightarrow> i | None \<Rightarrow> show_nat (unat pgn)) desc @
        concat (map (\<lambda>((k, _), payload). record_text k
          (case camel_id of Some i \<Rightarrow> unwrap_camel_record payload i full_desc | None \<Rightarrow> payload)) (zip entries rendered)) @
        newline # ''  }'')"

definition status_group :: "pgn_group \<Rightarrow> string" where
  "status_group = (\<lambda>(pgn, entries).
     group_open (show_nat (unat pgn)) (ce_pgn_short_description (snd (hd entries))) @
     concat (map (\<lambda>(k, e). record_text k
       (''{'' @ json_member ''last'' (snap_json_string (case ce_last_timestamp e of Some ms \<Rightarrow> format_iso (unat ms) | None \<Rightarrow> [])) @ '','' @
        json_member ''interval'' (show_nat (unat (ce_interval_ms e))) @ '','' @
        json_member ''count'' (show_nat (unat (ce_count e))) @ ''}'')) entries) @
     newline # ''  }'')"

definition document :: "(pgn_group \<Rightarrow> string) \<Rightarrow> pgn_group list \<Rightarrow> string" where
  "document group_text groups =
     (let (out, first_pgn) = foldl (\<lambda>(out, first_pgn) g.
            (out @ (if first_pgn then ''{'' else newline # '','') @ quote # group_text g, False)) ([], True) groups
      in out @ (if first_pgn then [newline] else newline # ''}'' @ [newline]))"

definition filtered_snapshot ::
  "'f pgn_database \<Rightarrow> (u32 \<Rightarrow> cache_entry \<Rightarrow> bool) \<Rightarrow> nat \<Rightarrow> snapshot_store \<Rightarrow> snapshot_store \<times> string" where
  "filtered_snapshot db keep now s = (let s = prune now s in (s, document (snapshot_group db) (by_pgn keep s)))"

definition snapshot :: "'f pgn_database \<Rightarrow> nat \<Rightarrow> snapshot_store \<Rightarrow> snapshot_store \<times> string" where
  "snapshot db = filtered_snapshot db (\<lambda>pgn e. pgn = 129026 \<or> pgn = 129029 \<or> \<not> starts_with (ce_pgn_short_description e) ''AIS'')"

definition ais_snapshot :: "'f pgn_database \<Rightarrow> nat \<Rightarrow> snapshot_store \<Rightarrow> snapshot_store \<times> string" where
  "ais_snapshot db = filtered_snapshot db (\<lambda>pgn e. pgn = 129026 \<or> pgn = 129029 \<or> starts_with (ce_pgn_short_description e) ''AIS'')"

definition status_snapshot :: "nat \<Rightarrow> snapshot_store \<Rightarrow> snapshot_store \<times> string" where
  "status_snapshot now s = (let s = prune now s in (s, document status_group (by_pgn (\<lambda>_ _. True) s)))"

definition snapshot_len :: "snapshot_store \<Rightarrow> nat" where "snapshot_len s = length (ss_cache s)"

subsection \<open>The cache against its history\<close>

text \<open>
  What the cache must hold, from the inputs put so far: the keys in the order they were first seen, and for each the last input with that
  key, how many there were, and the time between the last two.
\<close>

type_synonym history = "(nat \<times> snapshot_input) list"

definition input_key :: "snapshot_input \<Rightarrow> cache_key" where
  "input_key i = (si_pgn i, si_src i, si_secondary i)"

definition puts :: "history \<Rightarrow> snapshot_store \<Rightarrow> snapshot_store" where
  "puts h s = foldl (\<lambda>s (now, i). snapshot_put now i s) s h"

definition with_key :: "cache_key \<Rightarrow> history \<Rightarrow> history" where
  "with_key k = filter (\<lambda>(_, i). input_key i = k)"

definition first_seen :: "'a list \<Rightarrow> 'a list" where
  "first_seen xs = rev (remdups (rev xs))"

definition entry_spec :: "snapshot_store \<Rightarrow> history \<Rightarrow> cache_entry" where
  "entry_spec s h =
     (let (now, i) = last h in
      \<lparr>ce_payload = PayloadReady (si_line i), ce_pgn_short_description = short_description (si_pgn_description i),
       ce_expires_at = map_option ((+) now) (ttl_for_pgn (si_pgn i) (si_is_ais i)),
       ce_last_timestamp = Some (saturating_add_u64 (ss_epoch_wall_ms s) (millis_since now (ss_epoch_instant s))),
       ce_count = word_of_nat (length h), ce_previous_store_at = Some now,
       ce_interval_ms = (if length h < 2 then 0 else millis_since now (fst (last (butlast h))))\<rparr>)"

definition cache_spec :: "snapshot_store \<Rightarrow> history \<Rightarrow> cache_key \<Rightarrow> cache_entry option" where
  "cache_spec s h k = (if with_key k h = [] then None else Some (entry_spec s (with_key k h)))"

lemma puts_snoc [simp]: "puts (h @ [(now, i)]) s = snapshot_put now i (puts h s)"
  by (simp add: puts_def)

lemma put_epoch [simp]:
  "ss_epoch_instant (snapshot_put now i s) = ss_epoch_instant s" "ss_epoch_wall_ms (snapshot_put now i s) = ss_epoch_wall_ms s"
  by (simp_all add: snapshot_put_def store_entry_def Let_def)

lemma puts_epoch [simp]: "ss_epoch_instant (puts h s) = ss_epoch_instant s" "ss_epoch_wall_ms (puts h s) = ss_epoch_wall_ms s"
  by (induction h rule: rev_induct) (auto simp: puts_def split: prod.splits)

lemma first_seen_snoc: "first_seen (xs @ [x]) = (if x \<in> set xs then first_seen xs else first_seen xs @ [x])"
  by (simp add: first_seen_def)

lemma put_keys:
  "map fst (ss_cache (snapshot_put now i s)) =
     (if input_key i \<in> set (map fst (ss_cache s)) then map fst (ss_cache s) else map fst (ss_cache s) @ [input_key i])"
  by (simp add: snapshot_put_def store_entry_def input_key_def Let_def update_keys)

lemma last_with_key: "with_key k h \<noteq> [] \<Longrightarrow> ce_previous_store_at (entry_spec s (with_key k h)) = Some (fst (last (with_key k h)))"
  by (simp add: entry_spec_def split: prod.split)

lemma put_lookup:
  assumes "map_of (ss_cache s) (input_key i) = cache_spec s h (input_key i)"
  shows "map_of (ss_cache (snapshot_put now i s)) k =
    (if k = input_key i then Some (entry_spec s (with_key k h @ [(now, i)])) else map_of (ss_cache s) k)"
proof (cases "with_key (input_key i) h = []")
  case True
  then have "map_of (ss_cache s) (si_pgn i, si_src i, si_secondary i) = None" using assms by (simp add: cache_spec_def input_key_def)
  with True show ?thesis
    by (auto simp: snapshot_put_def store_entry_def input_key_def Let_def update_conv' entry_spec_def)
next
  case False
  let ?h = "with_key (input_key i) h"
  have prev: "map_of (ss_cache s) (si_pgn i, si_src i, si_secondary i) = Some (entry_spec s ?h)"
    using assms False by (simp add: cache_spec_def input_key_def)
  have "ce_count (entry_spec s ?h) = word_of_nat (length ?h)" by (simp add: entry_spec_def split: prod.split)
  moreover have "\<not> length ?h + 1 < 2" using False by (cases ?h) auto
  ultimately show ?thesis
    using last_with_key [OF False, of s] prev False
    by (auto simp: snapshot_put_def store_entry_def Let_def update_conv' entry_spec_def input_key_def)
qed

lemma cache_history:
  "map fst (ss_cache (puts h (snapshot_store_new t0 w0))) = first_seen (map (input_key \<circ> snd) h) \<and>
   map_of (ss_cache (puts h (snapshot_store_new t0 w0))) = cache_spec (snapshot_store_new t0 w0) h"
proof (induction h rule: rev_induct)
  case Nil
  show ?case by (auto simp: puts_def snapshot_store_new_def first_seen_def cache_spec_def with_key_def)
next
  case (snoc x h)
  let ?new = "snapshot_store_new t0 w0"
  obtain now i where x: "x = (now, i)" by (cases x)
  have keys: "set (map fst (ss_cache (puts h ?new))) = set (map (input_key \<circ> snd) h)"
    using snoc by (simp add: first_seen_def)
  have same: "cache_spec (puts h ?new) h = cache_spec ?new h" "entry_spec (puts h ?new) = entry_spec ?new"
    by (auto simp: cache_spec_def entry_spec_def fun_eq_iff)
  have "map_of (ss_cache (snapshot_put now i (puts h ?new))) k = cache_spec ?new (h @ [(now, i)]) k" for k
    using put_lookup [of "puts h ?new" i h now k] snoc same by (auto simp: cache_spec_def with_key_def)
  then show ?case using snoc keys put_keys [of now i "puts h ?new"] by (auto simp: x first_seen_snoc fun_eq_iff)
qed

subsection \<open>The documents are JSON\<close>

lemma snap_escape_chars: "json_chars (snap_escape c)"
proof -
  have two: "json_chars [backslash, quote]" "json_chars [backslash, backslash]" "json_chars [backslash, CHR ''n'']"
    "json_chars [backslash, CHR ''r'']" "json_chars [backslash, CHR ''t'']"
    by (rule chars_escape [OF _ chars_nil], simp)+
  have uni: "json_chars (backslash # CHR ''u'' # show_hex_padded False 4 (of_char c))" if "(of_char c :: nat) < 0x20"
    using chars_unicode [OF length_hex_lower show_hex_lower chars_nil] that by simp
  have one: "json_chars [c]" if "c \<noteq> quote" "c \<noteq> backslash" "\<not> (of_char c :: nat) < 0x20"
    using chars_plain [OF that(1,2) _ chars_nil] that(3) by simp
  show ?thesis
    unfolding snap_escape_def using two uni one by (simp only: split: if_split) blast
qed

lemma snap_json_string [simp]: "json_string (snap_json_string s)"
proof -
  have "json_chars (concat (map snap_escape s))" by (induction s) (auto intro: snap_escape_chars)
  then show ?thesis by (auto simp: json_string_def snap_json_string_def)
qed

text \<open>A text that may follow the members of an object.\<close>

definition more_members :: "string \<Rightarrow> bool" where
  "more_members t \<longleftrightarrow> (\<forall>m. json_members m \<longrightarrow> json_members (m @ t))"

lemma more_members_concat: "list_all more_members ts \<Longrightarrow> more_members (concat ts)"
  by (induction ts) (simp_all add: more_members_def flip: append_assoc)

lemma blanks [simp]: "json_blank newline" "json_blank CHR '' ''"
  by (simp_all add: json_blank_def newline_def)

lemma more_members_record:
  assumes "json_value text" "case snd k of Some s \<Rightarrow> plain_text s | None \<Rightarrow> True"
  shows "more_members (record_text k text)"
proof -
  have "plain_text (show_nat (unat (fst k)) @ (case snd k of Some s \<Rightarrow> CHR ''_'' # s | None \<Rightarrow> []))"
    using assms(2) digits_plain [OF show_nat_digits] by (auto simp: plain_text_def split: option.splits)
  note m = member_written [OF assms(1) this]
  have "json_members (((x @ [newline]) @ [CHR '' '']) @ [CHR '' ''])" if "json_members x" for x
    using that by (intro members_blank_end blanks)
  from members_append [OF this m] show ?thesis by (simp add: more_members_def record_text_def)
qed

lemma group_members:
  assumes "plain_text key" "more_members t"
  shows "json_members (quote # group_open key desc @ t @ newline # ''  }'')"
proof -
  have "json_members (json_member ''description'' (snap_json_string desc))" by (intro member_written) simp_all
  then have "json_members (json_member ''description'' (snap_json_string desc) @ t)"
    using assms(2) by (simp add: more_members_def)
  then have "json_members ((((json_member ''description'' (snap_json_string desc) @ t) @ [newline]) @ [CHR '' '']) @ [CHR '' ''])"
    by (intro members_blank_end blanks)
  from value_object [OF this]
  have "json_value (newline # CHR '' '' # CHR '' '' # ''{'' @ ((((json_member ''description'' (snap_json_string desc) @ t) @ [newline]) @
      [CHR '' '']) @ [CHR '' '']) @ ''}'')" by (intro value_blank blanks)
  from member_written [OF this assms(1)] show ?thesis by (simp add: json_member_def group_open_def)
qed

lemma document_json:
  assumes "list_all (\<lambda>g. json_members (quote # f g)) gs"
  shows "document f gs = [newline] \<or> json_value (document f gs)"
proof -
  let ?step = "\<lambda>(out, first_pgn) g. (out @ (if first_pgn then ''{'' else newline # '','') @ quote # f g, False)"
  have inv: "\<exists>m. foldl ?step (CHR ''{'' # m0, False) gs = (CHR ''{'' # m, False) \<and> json_members m"
    if "list_all (\<lambda>g. json_members (quote # f g)) gs" "json_members m0" for gs m0
    using that
  proof (induction gs arbitrary: m0)
    case (Cons g gs)
    have "json_members ((m0 @ [newline]) @ '','' @ quote # f g)"
      using Cons.prems by (intro members_append members_blank_end blanks) auto
    from Cons.IH [OF _ this] Cons.prems show ?case by simp
  qed simp
  have close: "json_value (CHR ''{'' # m @ newline # ''}'' @ [newline])" if "json_members m" for m
  proof -
    have "json_value ((''{'' @ (m @ [newline]) @ ''}'') @ [newline])"
      using that by (intro value_blank_end value_object members_blank_end blanks)
    then show ?thesis by simp
  qed
  show ?thesis
  proof (cases gs)
    case Nil
    then show ?thesis by (simp add: document_def)
  next
    case (Cons g gs')
    with assms obtain m where "foldl ?step (CHR ''{'' # quote # f g, False) gs' = (CHR ''{'' # m, False)" "json_members m"
      using inv [of gs' "quote # f g"] by auto
    with close [of m] show ?thesis by (simp add: document_def Cons)
  qed
qed

definition line_ok :: "cache_key \<times> cache_entry \<Rightarrow> bool" where
  "line_ok = (\<lambda>((_, _, sec), e). json_value (render (ce_payload e)) \<and> camel_wrapper_id (render (ce_payload e)) = None \<and>
     (case sec of Some s \<Rightarrow> plain_text s | None \<Rightarrow> True))"

definition group_ok :: "pgn_group \<Rightarrow> bool" where
  "group_ok = (\<lambda>(pgn, es). es \<noteq> [] \<and> list_all (\<lambda>((src, sec), e). line_ok ((pgn, src, sec), e)) es)"

lemma update_all: "list_all P al \<Longrightarrow> P (k, v) \<Longrightarrow> list_all P (AList.update k v al)"
  by (induction al) auto

lemma group_push_ok: "list_all group_ok gs \<Longrightarrow> line_ok x \<Longrightarrow> list_all group_ok (group_push gs x)"
proof -
  assume gs: "list_all group_ok gs" and x: "line_ok x"
  obtain pgn src sec e where X: "x = ((pgn, src, sec), e)" by (metis prod.exhaust)
  have "case map_of gs pgn of Some es \<Rightarrow> group_ok (pgn, es) | None \<Rightarrow> True"
    using gs by (auto simp: list_all_iff split: option.split dest: map_of_SomeD)
  then have "group_ok (pgn, or_default [] (map_of gs pgn) @ [((src, sec), e)])"
    using x X by (auto simp: group_ok_def or_default_def split: option.splits)
  then show ?thesis by (simp add: group_push_def X update_all [OF gs])
qed

lemma group_pushes_ok: "list_all group_ok gs \<Longrightarrow> list_all line_ok xs \<Longrightarrow> list_all group_ok (foldl group_push gs xs)"
  by (induction xs arbitrary: gs) (simp_all add: group_push_ok)

lemma by_pgn_ok: "list_all line_ok (ss_cache s) \<Longrightarrow> list_all group_ok (by_pgn keep s)"
  unfolding by_pgn_def by (rule group_pushes_ok) (auto simp: list_all_iff)

lemma pgn_key_plain: "plain_text (show_nat n)"
  by (rule digits_plain [OF show_nat_digits])

lemma snapshot_group_members: "group_ok g \<Longrightarrow> json_members (quote # snapshot_group db g)"
proof -
  assume g: "group_ok g"
  obtain pgn es where G: "g = (pgn, es)" by (cases g)
  have ne: "es \<noteq> []" and es: "list_all (\<lambda>((src, sec), e). line_ok ((pgn, src, sec), e)) es" using g by (auto simp: group_ok_def G)
  then have camel: "camel_wrapper_id (hd (map (\<lambda>(_, e). render (ce_payload e)) es)) = None"
    by (cases es) (auto simp: line_ok_def)
  have "more_members (concat (map (\<lambda>((k, _), payload). record_text k payload) (zip es (map (\<lambda>(_, e). render (ce_payload e)) es))))"
    using es by (intro more_members_concat) (auto simp: list_all_iff zip_map2 zip_same_conv_map line_ok_def intro!: more_members_record)
  from group_members [OF pgn_key_plain this] show ?thesis
    by (simp add: snapshot_group_def G camel Let_def)
qed

lemma status_group_members: "group_ok g \<Longrightarrow> json_members (quote # status_group g)"
proof -
  assume g: "group_ok g"
  obtain pgn es where G: "g = (pgn, es)" by (cases g)
  have es: "list_all (\<lambda>((src, sec), e). line_ok ((pgn, src, sec), e)) es" using g by (auto simp: group_ok_def G)
  have "json_value (''{'' @ json_member ''last'' (snap_json_string l) @ '','' @ json_member ''interval'' (show_nat i) @ '','' @
      json_member ''count'' (show_nat c) @ ''}'')" for l i c
    using value_object [OF members_append [OF member_written members_append [OF member_written member_written]],
      of "snap_json_string l" "''last''" "show_nat i" "''interval''" "show_nat c" "''count''"]
    by (simp add: plain_text_def)
  then have "more_members (concat (map (\<lambda>(k, e). record_text k
       (''{'' @ json_member ''last'' (snap_json_string (case ce_last_timestamp e of Some ms \<Rightarrow> format_iso (unat ms) | None \<Rightarrow> [])) @ '','' @
        json_member ''interval'' (show_nat (unat (ce_interval_ms e))) @ '','' @
        json_member ''count'' (show_nat (unat (ce_count e))) @ ''}'')) es))"
    using es by (intro more_members_concat) (auto simp: list_all_iff line_ok_def intro!: more_members_record)
  from group_members [OF pgn_key_plain this] show ?thesis by (simp add: status_group_def G)
qed

definition input_ok :: "snapshot_input \<Rightarrow> bool" where
  "input_ok i \<longleftrightarrow> json_value (si_line i) \<and> camel_wrapper_id (si_line i) = None \<and> (case si_secondary i of Some s \<Rightarrow> plain_text s | None \<Rightarrow> True)"

lemma puts_ok: "list_all line_ok (ss_cache s) \<Longrightarrow> list_all (\<lambda>(_, i). input_ok i) h \<Longrightarrow> list_all line_ok (ss_cache (puts h s))"
proof (induction h rule: rev_induct)
  case (snoc x h)
  then show ?case
    by (cases x) (auto simp: snapshot_put_def store_entry_def Let_def line_ok_def input_ok_def render_def intro!: update_all)
qed (simp add: puts_def)

lemma pruned_ok: "list_all line_ok (ss_cache s) \<Longrightarrow> list_all line_ok (ss_cache (prune now s))"
  by (simp add: prune_def list_all_iff)

subsection \<open>Splitting a line\<close>

lemma classify_list:
  assumes "aj_int line ''pgn'' = Some p" "aj_int line ''src'' = Some s" "first_pgn db (word_of_int p) = Some info"
    "repeating_pk_set info = Some rs" "key = (if rs = 1 then ''list'' else ''list2'')"
    "line = a @ needle key @ json_array os @ b" "find_str (needle key) line = Some (length a)" "list_all json_object os"
  shows "\<exists>ins. classify_json_line db line = Some ins \<and> map si_line ins = map (\<lambda>x. a @ needle key @ json_array [x] @ b) os \<and>
    list_all (\<lambda>i. si_pgn i = word_of_int p \<and> si_src i = word_of_int s \<and> si_is_ais i = is_ais_pgn (word_of_int p)) ins"
proof -
  have span: "array_span line key = Some (length (a @ needle key), length (a @ needle key @ json_array os))"
    using array_span_found [of key a os b] assms(6-8) by simp
  have slice: "slice (length (a @ needle key)) (length (a @ needle key @ json_array os)) line = json_array os"
    unfolding assms(6) by (simp add: slice_def)
  have ends: "take (length (a @ needle key)) line = a @ needle key" "drop (length (a @ needle key @ json_array os)) line = b"
    unfolding assms(6) by simp_all
  have enum: "map (\<lambda>(n, x). f x) (List.enumerate k os) = map f os" for f :: "string \<Rightarrow> string" and k
    by (induction os arbitrary: k) simp_all
  show ?thesis
    using enum [where k = 0 and f = "\<lambda>x. a @ needle key @ ''['' @ x @ '']'' @ b"]
    unfolding classify_json_line_def assms(1,2) option.case prod.case Let_def assms(3) bind.bind_lunit assms(4) assms(5) [symmetric]
      span slice split_object_array_objects [OF assms(8)] ends option.map o_apply
    by (auto simp: json_array_def comp_def case_prod_unfold list_all_iff simp del: length_append)
qed

subsection \<open>Properties\<close>

text \<open>
  C6: After any inputs the cache holds one entry for each key, in the order the keys were first seen, and each is the entry the history
  calls for: the last line of the key, how many there were and the time between the last two.
\<close>

theorem cache_is_history:
  "map fst (ss_cache (puts h (snapshot_store_new t0 w0))) = first_seen (map (input_key \<circ> snd) h) \<and>
   map_of (ss_cache (puts h (snapshot_store_new t0 w0))) = cache_spec (snapshot_store_new t0 w0) h"
  by (rule cache_history)

text \<open>
  C7: Every document made of the stored lines is a JSON value or, when nothing is left to show, one newline: the plain snapshot, the AIS
  snapshot and the status, at any time.  The stored lines are JSON values in the bare format, and their secondary keys are texts
  that need no escape: the store writes the secondary key into the document as it is, so a key with a quote or a backslash, which a
  PGN with a text as primary key can have (the station of PGN 130323), breaks the document (\<open>quote_in_key_breaks_record\<close>).
\<close>

theorem snapshots_are_json:
  assumes "list_all (\<lambda>(_, i). input_ok i) h"
  shows "list_all (\<lambda>doc. doc = [newline] \<or> json_value doc)
    (let s = puts h (snapshot_store_new t0 w0) in
     [snd (snapshot db now s), snd (ais_snapshot db now s), snd (status_snapshot now s)])"
proof -
  let ?s = "puts h (snapshot_store_new t0 w0)"
  have ok: "list_all line_ok (ss_cache (prune now ?s))"
    using assms(1) by (intro pruned_ok puts_ok) (simp_all add: snapshot_store_new_def)
  have "list_all (\<lambda>g. json_members (quote # snapshot_group db g)) (by_pgn keep (prune now ?s))"
    "list_all (\<lambda>g. json_members (quote # status_group g)) (by_pgn keep (prune now ?s))" for keep
    using by_pgn_ok [OF ok, of keep] snapshot_group_members status_group_members by (auto simp: list_all_iff)
  note D = document_json [OF this(1)] document_json [OF this(2)]
  show ?thesis
    using D by (simp add: snapshot_def ais_snapshot_def status_snapshot_def filtered_snapshot_def Let_def)
qed

definition demo_input :: snapshot_input where
  "demo_input = \<lparr>si_pgn = 127250, si_src = 17, si_secondary = Some ''0'', si_is_ais = False, si_pgn_description = ''Vessel Heading'',
     si_line = ''{'' @ quote # ''src'' @ quote # '':17}''\<rparr>"

lemma snapshots_are_json_witness:
  "snd (snapshot demo_db 2000 (puts [(1000, demo_input)] (snapshot_store_new 0 0))) = [newline] \<or>
   json_value (snd (snapshot demo_db 2000 (puts [(1000, demo_input)] (snapshot_store_new 0 0))))"
proof -
  have "json_value (''{'' @ json_member ''src'' (show_nat 17) @ ''}'')" by (intro value_object member_written) simp_all
  moreover have "show_nat 17 = ''17''" by code_simp
  ultimately have v: "json_value (si_line demo_input)" by (simp add: demo_input_def json_member_def)
  have "camel_wrapper_id (si_line demo_input) = None" "(case si_secondary demo_input of Some s \<Rightarrow> plain_text s | None \<Rightarrow> True)"
    by code_simp+
  with v have "list_all (\<lambda>(_, i). input_ok i) [(1000, demo_input)]" by (simp add: input_ok_def)
  from snapshots_are_json [OF this, where ?t0.0 = 0 and ?w0.0 = 0 and now = 2000 and db = demo_db] show ?thesis by (simp add: Let_def)
qed

text \<open>The case the property excludes: a station named with a quote.\<close>

lemma quote_in_key_breaks_record:
  "record_text (17, Some [quote]) text = newline # ''  ,'' @ quote # ''17_'' @ quote # quote # '':'' @ text"
  by (simp add: record_text_def json_member_def show_nat.simps digit_char_def char_of_def bit_0)

text \<open>
  C8: A line of a PGN with a primary key inside a repeating set whose list has at least one object gives one input for each object, in
  order: the line with the list cut to that object, all with the PGN and source of the line.
\<close>

theorem repeating_line_split:
  assumes "aj_int line ''pgn'' = Some p" "aj_int line ''src'' = Some s" "first_pgn db (word_of_int p) = Some info"
    "repeating_pk_set info = Some rs" "key = (if rs = 1 then ''list'' else ''list2'')"
    "line = a @ needle key @ json_array os @ b" "find_str (needle key) line = Some (length a)" "list_all json_object os" "os \<noteq> []"
  shows "\<exists>ins. classify_json_line db line = Some ins \<and> map si_line ins = map (\<lambda>x. a @ needle key @ json_array [x] @ b) os \<and>
    list_all (\<lambda>i. si_pgn i = word_of_int p \<and> si_src i = word_of_int s \<and> si_is_ais i = is_ais_pgn (word_of_int p)) ins"
  by (rule classify_list [OF assms(1-8)])

text \<open>An empty list gives no input at all.\<close>

lemma empty_list_gives_nothing:
  assumes "aj_int line ''pgn'' = Some p" "aj_int line ''src'' = Some s" "first_pgn db (word_of_int p) = Some info"
    "repeating_pk_set info = Some rs" "key = (if rs = 1 then ''list'' else ''list2'')"
    "line = a @ needle key @ json_array [] @ b" "find_str (needle key) line = Some (length a)"
  shows "classify_json_line db line = Some []"
  using classify_list [OF assms] by auto

definition demo_list_pgn :: "int pgn_info" where
  "demo_list_pgn = demo_pgn\<lparr>pg_fields := [demo_field 1 ''key'' 8 0 FtNumber, (demo_field 2 ''k2'' 8 8 FtNumber)\<lparr>fi_part_of_primary_key := Some True\<rparr>],
     pg_set1_start := Some 2, pg_set1_size := Some 1\<rparr>"

definition demo_list_head :: string where
  "demo_list_head = ''{'' @ json_member ''src'' ''17,'' @ json_member ''pgn'' ''130840,'' @ json_member ''fields'' ''{''"

definition demo_list_object :: "string \<Rightarrow> string" where
  "demo_list_object v = ''{'' @ json_member ''k2'' v @ ''}''"

lemma repeating_line_split_witness:
  "\<exists>ins. classify_json_line (demo_db\<lparr>db_pgns := [demo_list_pgn]\<rparr>)
      (demo_list_head @ needle ''list'' @ json_array [demo_list_object ''1'', demo_list_object ''2''] @ ''}}'') = Some ins \<and>
    map si_line ins = [demo_list_head @ needle ''list'' @ json_array [demo_list_object ''1''] @ ''}}'',
      demo_list_head @ needle ''list'' @ json_array [demo_list_object ''2''] @ ''}}'']"
proof -
  let ?line = "demo_list_head @ needle ''list'' @ json_array [demo_list_object ''1'', demo_list_object ''2''] @ ''}}''"
  have shown: "show_nat 17 = ''17''" "show_nat 130840 = ''130840''" by (simp_all add: show_nat.simps digit_char_def char_of_def bit_0)
  have brace: "passes ''src'' ''{''" "passes ''pgn'' ''{''" by (rule passes_plain, simp)+
  have "passes ''pgn'' (''{'' @ json_member ''src'' (show_nat 17) @ '','')" by (intro passes_append brace passes_number) simp_all
  from int_read [OF this, of 130840] int_read [OF brace(1), of 17]
  have ints: "aj_int ?line ''pgn'' = Some 130840" "aj_int ?line ''src'' = Some 17"
    by (simp_all add: shown demo_list_head_def json_member_def)
  have db: "first_pgn (demo_db\<lparr>db_pgns := [demo_list_pgn]\<rparr>) (word_of_int 130840) = Some demo_list_pgn" "repeating_pk_set demo_list_pgn = Some 1"
    by code_simp+
  have at: "find_str (needle ''list'') ?line = Some (length demo_list_head)" by code_simp
  have "json_number ''1''" "json_number ''2''" by (rule json_number_digits; simp add: is_digit_def)+
  then have "json_object (demo_list_object ''1'')" "json_object (demo_list_object ''2'')"
    using member_written [OF value_number, of _ "''k2''"] by (auto simp: json_object_def demo_list_object_def plain_text_def)
  then have os: "list_all json_object [demo_list_object ''1'', demo_list_object ''2'']" by simp
  have key: "''list'' = (if (1 :: u8) = 1 then ''list'' else ''list2'')" by simp
  show ?thesis using repeating_line_split [OF ints db key refl at os] by auto
qed

end
