(* ===== verification/Ais.thy ===== *)
theory Ais
  imports Prelude Ascii Hex Text_Codec
begin

unbundle bit_operations_syntax

section \<open>AIS sentences (canboat-bridge/src/n2kd/ais.rs)\<close>

text \<open>
  The bit vector an AIS message is packed into and its emission as \<open>!AIVDM\<close> sentences.  \<open>None\<close> is the panic of an index past the
  226 bytes.  The sentences are a list; the writer appends them.
\<close>

subsection \<open>The bit vector\<close>

definition BITVEC_BYTES :: nat where "BITVEC_BYTES = 226"

record bit_vector =
  bv_bytes :: "u8 list"
  bv_pos :: nat

definition bit_vector_new :: bit_vector where
  "bit_vector_new = \<lparr>bv_bytes = replicate BITVEC_BYTES 0, bv_pos = 0\<rparr>"

definition slot_mask :: "nat \<Rightarrow> u64" where
  "slot_mask len = (if len \<ge> 64 then - 1 else push_bit len 1 - 1)"

text \<open>The top \<open>n\<close> of the \<open>len\<close> bits left, in the open low \<open>k\<close> bits of a byte.\<close>

definition slot_bits :: "u64 \<Rightarrow> nat \<Rightarrow> nat \<Rightarrow> nat \<Rightarrow> u8" where
  "slot_bits v len k n =
     (let high_bits = ucast (drop_bit (len - n) v); mask_low = ucast (push_bit n 1 - 1 :: u32)
      in push_bit (k - n) (high_bits AND mask_low))"

function add_bits :: "u64 \<Rightarrow> nat \<Rightarrow> bit_vector \<Rightarrow> bit_vector option" where
  "add_bits v len bv =
     (if len = 0 then Some bv
      else let i = bv_pos bv div 8; k = 8 - bv_pos bv mod 8; n = min k len
           in if i \<ge> length (bv_bytes bv) then None
              else add_bits (v AND slot_mask (len - n)) (len - n)
                     \<lparr>bv_bytes = (bv_bytes bv)[i := bv_bytes bv ! i OR slot_bits v len k n], bv_pos = bv_pos bv + n\<rparr>)"
  by pat_completeness auto
termination add_bits
  by (relation "measure (\<lambda>(_, len, _). len)") auto

declare add_bits.simps [simp del]

definition add_int :: "i64 \<Rightarrow> nat \<Rightarrow> bit_vector \<Rightarrow> bit_vector option" where
  "add_int value len bv = add_bits (value AND slot_mask len) len bv"

definition six_bit_char :: "nat \<Rightarrow> nat" where
  "six_bit_char raw = (if raw = 0 then 0 else if \<not> (32 \<le> raw \<and> raw \<le> 95) then 32 else if raw \<ge> 64 then raw - 64 else raw)"

fun add_string :: "chars \<Rightarrow> nat \<Rightarrow> bit_vector \<Rightarrow> bit_vector option" where
  "add_string s len bv =
     (if len \<ge> 6 then
        Option.bind (add_int (word_of_nat (six_bit_char (case s of [] \<Rightarrow> 0 | c # _ \<Rightarrow> c))) 6 bv) (add_string (tl s) (len - 6))
      else if len > 0 then add_int 0 len bv else Some bv)"

declare add_string.simps [simp del]

subsection \<open>Sentences\<close>

definition read_bits :: "u8 list \<Rightarrow> nat \<Rightarrow> nat \<Rightarrow> u8" where
  "read_bits bytes offset len =
     foldl (\<lambda>out i. push_bit 1 out OR (drop_bit (7 - (offset + i) mod 8) (bytes ! ((offset + i) div 8)) AND 1)) 0 [0..<len]"

definition six_bit_ascii :: "u8 \<Rightarrow> char" where
  "six_bit_ascii v = (let v = v AND 0x3f in char_of (if v < 40 then unat (48 + v) else unat (48 + v + 8)))"

text \<open>The payload of a fragment and its padding.\<close>

definition fragment_payload :: "u8 list \<Rightarrow> nat \<Rightarrow> nat \<Rightarrow> string \<times> nat" where
  "fragment_payload bytes offset frag_bits =
     (let full = frag_bits div 6; consumed = 6 * full; remaining = frag_bits - consumed;
          payload = map (\<lambda>j. six_bit_ascii (read_bits bytes (offset + 6 * j) 6)) [0..<full]
      in if consumed < frag_bits
         then (payload @ [six_bit_ascii (push_bit (6 - remaining) (read_bits bytes (offset + consumed) remaining))], 6 - remaining)
         else (payload, 0))"

definition checksum_byte :: "string \<Rightarrow> u8" where
  "checksum_byte body = foldl (\<lambda>chk b. chk XOR word_of_nat (of_char b)) 0 body"

definition append_aivdm :: "string \<Rightarrow> string" where
  "append_aivdm body = CHR ''!'' # body @ CHR ''*'' # show_byte True (checksum_byte body) @ [CHR 0x0D, CHR 0x0A]"

definition aivdm_body :: "string \<Rightarrow> nat \<Rightarrow> nat \<Rightarrow> string \<Rightarrow> char \<Rightarrow> string \<Rightarrow> nat \<Rightarrow> string" where
  "aivdm_body talker fragments frag sq channel payload padding =
     join '','' [''AI'' @ talker, show_nat fragments, show_nat frag, sq, [channel], payload, show_nat padding]"

definition emit_sentences :: "bit_vector \<Rightarrow> string \<Rightarrow> char \<Rightarrow> u8 \<Rightarrow> string list \<times> u8" where
  "emit_sentences bv talker channel seq_counter =
     (let total_bits = bv_pos bv in
      if total_bits = 0 then ([], seq_counter)
      else let fragments = (total_bits + 359) div 360;
               seq_counter = (if fragments > 1 then (seq_counter + 1) mod 10 else seq_counter);
               sq = (if fragments > 1 then [digit_char (unat seq_counter)] else [])
           in (fst (foldl (\<lambda>(out, bit_offset) frag.
                 let frag_bits = min (total_bits - bit_offset) 360;
                     (payload, padding) = fragment_payload (bv_bytes bv) bit_offset frag_bits
                 in (out @ [append_aivdm (aivdm_body talker fragments frag sq channel payload padding)], bit_offset + frag_bits))
                 ([], 0) [1..<fragments + 1]), seq_counter))"

subsection \<open>What the bit vector holds\<close>

definition bit_at :: "u8 list \<Rightarrow> nat \<Rightarrow> bool" where
  "bit_at bytes j \<longleftrightarrow> bit (bytes ! (j div 8)) (7 - j mod 8)"

definition bits_of :: "bit_vector \<Rightarrow> bool list" where
  "bits_of bv = map (bit_at (bv_bytes bv)) [0..<bv_pos bv]"

definition msb_bits :: "nat \<Rightarrow> 'a::len word \<Rightarrow> bool list" where
  "msb_bits len v = map (\<lambda>i. bit v (len - 1 - i)) [0..<len]"

definition clean :: "bit_vector \<Rightarrow> bool" where
  "clean bv \<longleftrightarrow> length (bv_bytes bv) = BITVEC_BYTES \<and> bv_pos bv \<le> 8 * BITVEC_BYTES \<and>
     (\<forall>j. bv_pos bv \<le> j \<longrightarrow> j < 8 * BITVEC_BYTES \<longrightarrow> \<not> bit_at (bv_bytes bv) j)"

lemma slot_mask_bit: "j < 64 \<Longrightarrow> bit (slot_mask m) j \<longleftrightarrow> j < m"
proof -
  have "push_bit m 1 - 1 = (mask m :: u64)" by (simp add: mask_eq_exp_minus_1 push_bit_eq_mult)
  then show "j < 64 \<Longrightarrow> bit (slot_mask m) j \<longleftrightarrow> j < m"
    by (auto simp: slot_mask_def bit_mask_iff bit_simps)
qed

lemma masked_bit: "j < m \<Longrightarrow> bit (v AND slot_mask m) j \<longleftrightarrow> bit v j"
  by (cases "j < 64") (auto simp: bit_and_iff slot_mask_bit dest: bit_imp_le_length)

lemma msb_masked: "msb_bits m (v AND slot_mask m) = msb_bits m v"
  by (simp add: msb_bits_def masked_bit)

lemma length_msb [simp]: "length (msb_bits n v) = n" "length (bits_of bv) = bv_pos bv"
  by (simp_all add: msb_bits_def bits_of_def)

lemma msb_split: "n \<le> len \<Longrightarrow> msb_bits len v = map (\<lambda>t. bit v (len - 1 - t)) [0..<n] @ msb_bits (len - n) v"
  by (rule nth_equalityI) (auto simp: msb_bits_def nth_append)

lemma aligned_bit:
  assumes "n \<le> 8" "n \<le> k" "k \<le> 8" "n \<le> len"
  shows "t < n \<Longrightarrow> bit (slot_bits v len k n) (k - 1 - t) \<longleftrightarrow> bit v (len - 1 - t)"
    "b < k - n \<Longrightarrow> \<not> bit (slot_bits v len k n) b" "k \<le> b \<Longrightarrow> \<not> bit (slot_bits v len k n) b"
proof -
  have "push_bit n 1 - 1 = (mask n :: u32)" by (simp add: mask_eq_exp_minus_1 push_bit_eq_mult)
  then have s: "slot_bits v len k n = push_bit (k - n) (ucast (drop_bit (len - n) v) AND ucast (mask n :: u32))"
    by (simp only: slot_bits_def Let_def)
  show "t < n \<Longrightarrow> bit (slot_bits v len k n) (k - 1 - t) \<longleftrightarrow> bit v (len - 1 - t)"
    using assms by (auto simp: s bit_simps)
  show "b < k - n \<Longrightarrow> \<not> bit (slot_bits v len k n) b" by (simp add: s bit_simps)
  show "k \<le> b \<Longrightarrow> \<not> bit (slot_bits v len k n) b" using assms(2) by (auto simp: s bit_simps)
qed

text \<open>One step of the loop: the byte at the position gets the next bits.\<close>

lemma byte_parts:
  obtains q a where "(j :: nat) = 8 * q + a" "a < 8" "j div 8 = q" "j mod 8 = a"
proof
  show "j = 8 * (j div 8) + j mod 8" "j mod 8 < 8" "j div 8 = j div 8" "j mod 8 = j mod 8" by simp_all
qed

lemma before_slot:
  assumes "j div 8 = p div 8" "j < p"
  shows "8 - p mod 8 \<le> 7 - j mod (8 :: nat)"
proof -
  obtain q a where "j = 8 * q + a" "a < 8" "j div 8 = q" "j mod 8 = a" by (rule byte_parts)
  moreover obtain q' b where "p = 8 * q' + b" "b < 8" "p div 8 = q'" "p mod 8 = b" by (rule byte_parts)
  ultimately show ?thesis using assms by auto
qed

lemma after_slot:
  assumes "j div 8 = p div 8" "p + n \<le> j" "n \<le> 8 - p mod 8"
  shows "7 - j mod 8 < 8 - p mod 8 - (n :: nat)"
proof -
  obtain q a where "j = 8 * q + a" "a < 8" "j div 8 = q" "j mod 8 = a" by (rule byte_parts)
  moreover obtain q' b where "p = 8 * q' + b" "b < 8" "p div 8 = q'" "p mod 8 = b" by (rule byte_parts)
  ultimately show ?thesis using assms by auto
qed

lemma in_slot:
  assumes "t < 8 - p mod (8 :: nat)"
  shows "(p + t) div 8 = p div 8" "(p + t) mod 8 = p mod 8 + t"
proof -
  obtain q b where p: "p = 8 * q + b" "b < 8" "p div 8 = q" "p mod 8 = b" by (rule byte_parts)
  then have "b + t < 8" "p + t = 8 * q + (b + t)" using assms by auto
  then show "(p + t) div 8 = p div 8" by (simp add: p)
  have "(8 * q + (b + t)) mod 8 = b + t" using \<open>b + t < 8\<close> by (simp only: mod_mult_self4 mod_less)
  then show "(p + t) mod 8 = p mod 8 + t" unfolding p(4) \<open>p + t = 8 * q + (b + t)\<close> .
qed

definition stepped :: "u64 \<Rightarrow> nat \<Rightarrow> bit_vector \<Rightarrow> bit_vector" where
  "stepped v len bv =
     (let i = bv_pos bv div 8; k = 8 - bv_pos bv mod 8; n = min k len
      in \<lparr>bv_bytes = (bv_bytes bv)[i := bv_bytes bv ! i OR slot_bits v len k n], bv_pos = bv_pos bv + n\<rparr>)"

lemma bit_at_stepped:
  assumes "bv_pos bv div 8 < length (bv_bytes bv)"
  shows "bit_at (bv_bytes (stepped v len bv)) j \<longleftrightarrow> bit_at (bv_bytes bv) j \<or>
    (j div 8 = bv_pos bv div 8 \<and> bit (slot_bits v len (8 - bv_pos bv mod 8) (min (8 - bv_pos bv mod 8) len)) (7 - j mod 8))"
  using assms by (auto simp: bit_at_def stepped_def Let_def nth_list_update bit_or_iff)

lemma stepped_pos: "bv_pos (stepped v len bv) = bv_pos bv + min (8 - bv_pos bv mod 8) len"
  by (simp add: stepped_def Let_def)

lemma stepped_bits:
  assumes "clean bv" "0 < len" "bv_pos bv + len \<le> 8 * BITVEC_BYTES"
  defines "n \<equiv> min (8 - bv_pos bv mod 8) len"
  shows "clean (stepped v len bv)" "bits_of (stepped v len bv) = bits_of bv @ map (\<lambda>t. bit v (len - 1 - t)) [0..<n]"
    "bv_pos bv div 8 < length (bv_bytes bv)"
proof -
  let ?k = "8 - bv_pos bv mod 8"
  have kn: "n \<le> 8" "n \<le> ?k" "?k \<le> 8" "n \<le> len" by (auto simp: n_def)
  show i: "bv_pos bv div 8 < length (bv_bytes bv)"
    using assms(1-3) by (simp add: clean_def less_mult_imp_div_less)
  note at = bit_at_stepped [OF i, of v len, folded n_def] and A = aligned_bit [OF kn, of _ v]
  have old: "bit_at (bv_bytes (stepped v len bv)) j \<longleftrightarrow> bit_at (bv_bytes bv) j" if "j < bv_pos bv" for j
    using at [of j] before_slot [of j "bv_pos bv"] that A(3) by blast
  have new: "bit_at (bv_bytes (stepped v len bv)) (bv_pos bv + t) \<longleftrightarrow> bit v (len - 1 - t)" if "t < n" for t
  proof -
    have t: "t < ?k" using that kn(2) by simp
    have "\<not> bit_at (bv_bytes bv) (bv_pos bv + t)" using assms(1,3) that kn(4) by (simp add: clean_def)
    moreover have "7 - (bv_pos bv + t) mod 8 = ?k - 1 - t" using in_slot(2) [OF t] by simp
    ultimately show ?thesis using at [of "bv_pos bv + t"] in_slot(1) [OF t] A(1) [OF that] by simp
  qed
  have rest: "\<not> bit_at (bv_bytes (stepped v len bv)) j" if "bv_pos bv + n \<le> j" "j < 8 * BITVEC_BYTES" for j
    using at [of j] after_slot [of j "bv_pos bv" n] that kn(2) A(2) assms(1) by (auto simp: clean_def)
  show "clean (stepped v len bv)"
    using rest assms(1,3) kn(4) unfolding clean_def stepped_pos n_def [symmetric] by (auto simp: stepped_def Let_def)
  have "bits_of (stepped v len bv) = map (bit_at (bv_bytes (stepped v len bv))) ([0..<bv_pos bv] @ map (\<lambda>t. bv_pos bv + t) [0..<n])"
    unfolding bits_of_def stepped_pos n_def [symmetric]
    using upt_add_eq_append [of 0 "bv_pos bv" n] map_add_upt [of "bv_pos bv" n] by (simp add: add.commute)
  then show "bits_of (stepped v len bv) = bits_of bv @ map (\<lambda>t. bit v (len - 1 - t)) [0..<n]"
    using old new by (simp add: bits_of_def)
qed

lemma add_bits_ok:
  "clean bv \<Longrightarrow> bv_pos bv + len \<le> 8 * BITVEC_BYTES \<Longrightarrow>
     \<exists>bv'. add_bits v len bv = Some bv' \<and> clean bv' \<and> bits_of bv' = bits_of bv @ msb_bits len v"
proof (induction v len bv rule: add_bits.induct)
  case (1 v len bv)
  show ?case
  proof (cases "len = 0")
    case True
    then show ?thesis using 1 by (simp add: add_bits.simps msb_bits_def)
  next
    case False
    let ?n = "min (8 - bv_pos bv mod 8) len"
    have pos: "0 < len" using False by simp
    note S = stepped_bits(1,2) [OF "1.prems"(1) pos "1.prems"(2), of v] stepped_bits(3) [OF "1.prems"(1) pos "1.prems"(2)]
    have step: "add_bits v len bv = add_bits (v AND slot_mask (len - ?n)) (len - ?n) (stepped v len bv)"
      using S(3) False by (subst add_bits.simps) (simp add: stepped_def Let_def)
    have "\<exists>bv'. add_bits (v AND slot_mask (len - ?n)) (len - ?n) (stepped v len bv) = Some bv' \<and> clean bv' \<and>
        bits_of bv' = bits_of (stepped v len bv) @ msb_bits (len - ?n) (v AND slot_mask (len - ?n))"
      using "1.IH" [OF False refl refl refl] S False "1.prems"(2) by (auto simp: stepped_def Let_def)
    then show ?thesis
      using S(2) False msb_split [of ?n len v] by (simp add: step msb_masked)
  qed
qed

lemma add_int_ok:
  assumes "clean bv" "bv_pos bv + len \<le> 8 * BITVEC_BYTES"
  obtains bv' where "add_int v len bv = Some bv'" "clean bv'" "bits_of bv' = bits_of bv @ msb_bits len v"
  using add_bits_ok [OF assms, of "v AND slot_mask len"] by (auto simp: add_int_def msb_masked)

lemma six_bit_char_range: "six_bit_char c < 64"
  by (auto simp: six_bit_char_def)

text \<open>The bits of the six-bit text of \<open>len\<close> bits.\<close>

fun string_bits :: "chars \<Rightarrow> nat \<Rightarrow> bool list" where
  "string_bits s len =
     (if len \<ge> 6 then msb_bits 6 (word_of_nat (six_bit_char (case s of [] \<Rightarrow> 0 | c # _ \<Rightarrow> c)) :: u64) @ string_bits (tl s) (len - 6)
      else replicate len False)"

declare string_bits.simps [simp del]

lemma add_string_ok:
  "clean bv \<Longrightarrow> bv_pos bv + len \<le> 8 * BITVEC_BYTES \<Longrightarrow>
     \<exists>bv'. add_string s len bv = Some bv' \<and> clean bv' \<and> bits_of bv' = bits_of bv @ string_bits s len"
proof (induction s len arbitrary: bv rule: string_bits.induct)
  case (1 s len)
  show ?case
  proof (cases "len \<ge> 6")
    case True
    then have "bv_pos bv + 6 \<le> 8 * BITVEC_BYTES" using "1.prems"(2) by simp
    from add_int_ok [OF "1.prems"(1) this, of "word_of_nat (six_bit_char (case s of [] \<Rightarrow> 0 | c # _ \<Rightarrow> c))"]
    obtain b1 where b1: "add_int (word_of_nat (six_bit_char (case s of [] \<Rightarrow> 0 | c # _ \<Rightarrow> c))) 6 bv = Some b1" "clean b1"
      "bits_of b1 = bits_of bv @ msb_bits 6 (word_of_nat (six_bit_char (case s of [] \<Rightarrow> 0 | c # _ \<Rightarrow> c)) :: u64)" by blast
    have "bv_pos b1 = bv_pos bv + 6" using arg_cong [OF b1(3), of length] by simp
    then have "bv_pos b1 + (len - 6) \<le> 8 * BITVEC_BYTES" using True "1.prems"(2) by simp
    from "1.IH" [OF True b1(2) this] show ?thesis
      using True b1 by (subst add_string.simps, subst string_bits.simps) auto
  next
    case False
    from add_int_ok [OF "1.prems", of 0] obtain b1 where "add_int 0 len bv = Some b1" "clean b1" "bits_of b1 = bits_of bv @ msb_bits len (0 :: u64)" .
    moreover have "msb_bits len (0 :: u64) = replicate len False" by (rule nth_equalityI) (simp_all add: msb_bits_def)
    ultimately show ?thesis
      using False "1.prems" by (subst add_string.simps, subst string_bits.simps) auto
  qed
qed

subsection \<open>Reading the sentences back\<close>

definition unarmor :: "char \<Rightarrow> bool list" where
  "unarmor c = (let n = of_char c - 48 :: nat; v = (if n < 40 then n else n - 8) in map (\<lambda>i. bit v (5 - i)) [0..<6])"

definition armoured_bits :: "string \<Rightarrow> nat \<Rightarrow> bool list" where
  "armoured_bits payload padding = take (6 * length payload - padding) (concat (map unarmor payload))"

lemma unarmor_ascii:
  assumes "v < 64"
  shows "unarmor (six_bit_ascii v) = msb_bits 6 v"
proof -
  have u: "unat v < 64" using assms by (simp add: word_less_nat_alt)
  have "int (unat v) < 64" using u by linarith
  then have "uint v < 2 ^ 6" by (simp only: uint_nat) simp
  then have m: "v AND 0x3f = v" using mask_eq_iff [of v 6] by (simp add: mask_eq_exp_minus_1)
  have "unat (48 + v) = 48 + unat v" "unat (48 + v + 8) = 56 + unat v" using u by (simp_all add: unat_word_ariths)
  then have "of_char (six_bit_ascii v) = (if unat v < 40 then 48 + unat v else 56 + unat v)"
    using u by (simp add: six_bit_ascii_def m word_less_nat_alt)
  then show ?thesis by (simp add: unarmor_def msb_bits_def Let_def bit_unsigned_iff)
qed

lemma read_bits_Suc:
  "read_bits bytes off (Suc len) = push_bit 1 (read_bits bytes off len) OR
     (drop_bit (7 - (off + len) mod 8) (bytes ! ((off + len) div 8)) AND 1)"
  by (simp add: read_bits_def)

lemma read_bits_bit: "j < 8 \<Longrightarrow> bit (read_bits bytes off len) j \<longleftrightarrow> j < len \<and> bit_at bytes (off + len - 1 - j)"
proof (induction len arbitrary: j)
  case 0
  then show ?case by (simp add: read_bits_def)
next
  case (Suc len)
  have one: "bit (x AND 1) j \<longleftrightarrow> j = 0 \<and> bit x 0" for x :: u8 by (auto simp: bit_simps)
  have shifted: "bit (push_bit 1 x) j \<longleftrightarrow> 0 < j \<and> bit x (j - 1)" for x :: u8
    unfolding bit_push_bit_iff using Suc.prems by auto
  show ?case
  proof (cases j)
    case 0
    then show ?thesis unfolding read_bits_Suc bit_or_iff one shifted by (simp add: bit_at_def bit_drop_bit_eq)
  next
    case (Suc i)
    then show ?thesis unfolding read_bits_Suc bit_or_iff one shifted using Suc.IH [of i] Suc.prems by simp
  qed
qed

lemma group_bits:
  assumes "r \<le> 6"
  shows "msb_bits 6 (push_bit (6 - r) (read_bits bytes off r)) = map (bit_at bytes) [off..<off + r] @ replicate (6 - r) False"
    "push_bit (6 - r) (read_bits bytes off r) < 64"
proof -
  let ?v = "push_bit (6 - r) (read_bits bytes off r)"
  have b: "bit ?v j \<longleftrightarrow> j < 8 \<and> 6 - r \<le> j \<and> j < 6 \<and> bit_at bytes (5 + off - j)" for j
  proof (cases "j < 8")
    case True
    then show ?thesis using assms read_bits_bit [of "j - (6 - r)" bytes off r] unfolding bit_push_bit_iff by auto
  qed (auto dest: bit_imp_le_length)
  show "msb_bits 6 ?v = map (bit_at bytes) [off..<off + r] @ replicate (6 - r) False"
  proof (rule nth_equalityI)
    fix i assume "i < length (msb_bits 6 ?v)"
    then have i: "i < 6" by simp
    then have "6 - Suc (5 - i) = i" "5 + off - (5 - i) = off + i" by simp_all
    then show "msb_bits 6 ?v ! i = (map (bit_at bytes) [off..<off + r] @ replicate (6 - r) False) ! i"
      using i assms by (auto simp: msb_bits_def b nth_append)
  qed (use assms in simp)
  have "?v AND mask 6 = ?v" by (rule bit_eqI) (auto simp: bit_and_iff bit_mask_iff b)
  then have "uint ?v < 2 ^ 6" by (simp only: mask_eq_iff)
  then show "?v < 64" by (simp add: word_less_def)
qed

lemma unarmor_group: "r \<le> 6 \<Longrightarrow> unarmor (six_bit_ascii (push_bit (6 - r) (read_bits bytes off r))) =
    map (bit_at bytes) [off..<off + r] @ replicate (6 - r) False"
  using group_bits [of r bytes off] by (simp add: unarmor_ascii)

lemma unarmor_full: "unarmor (six_bit_ascii (read_bits bytes off 6)) = map (bit_at bytes) [off..<off + 6]"
  using unarmor_group [of 6 bytes off] by simp

lemma unarmor_groups:
  "concat (map (\<lambda>j. unarmor (six_bit_ascii (read_bits bytes (off + 6 * j) 6))) [0..<n]) = map (bit_at bytes) [off..<off + 6 * n]"
proof (induction n)
  case (Suc n)
  have e: "off + 6 * Suc n = off + 6 * n + 6" by simp
  have "[off..<off + 6 * Suc n] = [off..<off + 6 * n] @ [off + 6 * n..<off + 6 * n + 6]"
    unfolding e by (rule upt_add_eq_append) simp
  then show ?case using Suc unarmor_full [of bytes "off + 6 * n"] by simp
qed simp

lemma fragment_read:
  assumes "fragment_payload bytes off fb = (payload, padding)"
  shows "armoured_bits payload padding = map (bit_at bytes) [off..<off + fb]" "length payload = (fb + 5) div 6" "padding < 6"
    "\<exists>vs. payload = map six_bit_ascii vs"
proof -
  define full r where "full = fb div 6" and "r = fb - 6 * full"
  have fb: "fb = 6 * full + r" "r < 6" by (simp_all add: full_def r_def minus_mult_div_eq_mod)
  let ?groups = "map (\<lambda>j. six_bit_ascii (read_bits bytes (off + 6 * j) 6)) [0..<full]"
  have body: "concat (map unarmor ?groups) = map (bit_at bytes) [off..<off + 6 * full]"
    using unarmor_groups [of bytes off full] by (simp add: comp_def)
  have c: "6 * full < fb \<longleftrightarrow> 0 < r" using fb(1) by linarith
  have parts: "(payload, padding) = (if 0 < r
      then (?groups @ [six_bit_ascii (push_bit (6 - r) (read_bits bytes (off + 6 * full) r))], 6 - r) else (?groups, 0))"
    using assms unfolding fragment_payload_def Let_def full_def [symmetric] r_def [symmetric] c by (rule sym)
  show "armoured_bits payload padding = map (bit_at bytes) [off..<off + fb]"
  proof (cases "0 < r")
    case True
    have "[off..<off + fb] = [off..<off + 6 * full] @ [off + 6 * full..<off + 6 * full + r]"
      using upt_add_eq_append [of off "off + 6 * full" r] fb by (simp add: add.assoc)
    then show ?thesis
      using True parts body unarmor_group [of r bytes "off + 6 * full"] fb(2) by (simp add: armoured_bits_def)
  qed (use parts body fb in \<open>simp add: armoured_bits_def\<close>)
  have len: "length payload = full + (if 0 < r then 1 else 0)" "padding < 6" using parts by (simp_all split: if_splits)
  then show "padding < 6" by simp
  have "(fb + 5) div 6 = full + (if 0 < r then 1 else 0)" using fb by auto
  then show "length payload = (fb + 5) div 6" using len by simp
  let ?vs = "map (\<lambda>j. read_bits bytes (off + 6 * j) 6) [0..<full] @
    (if 0 < r then [push_bit (6 - r) (read_bits bytes (off + 6 * full) r)] else [])"
  have "payload = map six_bit_ascii ?vs" using parts by (cases "0 < r") (simp_all add: comp_def)
  then show "\<exists>vs. payload = map six_bit_ascii vs" by blast
qed

text \<open>A reader of a sentence: its fields, the checksum checked and the payload turned back into bits.\<close>

record ais_sentence =
  as_head :: string
  as_fragments :: "nat option"
  as_fragment :: "nat option"
  as_sequence :: string
  as_channel :: string
  as_bits :: "bool list"

definition read_body :: "string \<Rightarrow> ais_sentence option" where
  "read_body body =
     (case split_on CHR '','' body of
        [h, n, i, sq, ch, payload, padding] \<Rightarrow>
          map_option (\<lambda>p. \<lparr>as_head = h, as_fragments = parse_unsigned 9 n, as_fragment = parse_unsigned 9 i, as_sequence = sq,
            as_channel = ch, as_bits = armoured_bits payload p\<rparr>) (parse_unsigned 5 padding)
      | _ \<Rightarrow> None)"

definition read_sentence :: "string \<Rightarrow> ais_sentence option" where
  "read_sentence s =
     (case s of
        c # r \<Rightarrow>
          if c \<noteq> CHR ''!'' then None
          else (case split_once CHR ''*'' r of
            Some (body, tail) \<Rightarrow> if tail = show_byte True (checksum_byte body) @ [CHR 0x0D, CHR 0x0A] then read_body body else None
          | None \<Rightarrow> None)
      | [] \<Rightarrow> None)"

lemma ascii_not: "six_bit_ascii v \<notin> {CHR '','', CHR ''*''}"
proof -
  define w where "w = v AND 0x3f"
  have "w AND mask 6 = w" by (simp add: w_def and.assoc mask_eq_exp_minus_1)
  then have "uint w < 2 ^ 6" by (simp only: mask_eq_iff)
  then have "w < 64" by (simp add: word_less_def)
  then have u: "unat w < 64" by (simp add: word_less_nat_alt)
  then have "unat (48 + w) = 48 + unat w" "unat (48 + w + 8) = 56 + unat w" by (simp_all add: unat_word_ariths)
  then have "of_char (six_bit_ascii v) = (if w < 40 then 48 + unat w else 56 + unat w)"
    using u by (simp add: six_bit_ascii_def Let_def w_def [symmetric])
  then have "48 \<le> (of_char (six_bit_ascii v) :: nat)" by (simp split: if_splits)
  then show ?thesis by auto
qed

definition separator_free :: "string \<Rightarrow> bool" where
  "separator_free s \<longleftrightarrow> CHR '','' \<notin> set s \<and> CHR ''*'' \<notin> set s"

lemma separator_free_show: "separator_free (show_nat n)"
  using show_nat_digits [of n] by (auto simp: separator_free_def list_all_iff is_digit_def)

lemma separator_free_payload: "payload = map six_bit_ascii vs \<Longrightarrow> separator_free payload"
  using ascii_not by (force simp: separator_free_def)

lemma join_avoids: "c \<noteq> d \<Longrightarrow> \<forall>s \<in> set ss. c \<notin> set s \<Longrightarrow> c \<notin> set (join [d] ss)"
  by (induction "[d]" ss rule: join.induct) auto

lemma aivdm_read:
  assumes "separator_free talker" "separator_free sq" "separator_free [channel]" "separator_free payload" "n \<le> 9" "i \<le> 9" "padding < 6"
  shows "read_sentence (append_aivdm (aivdm_body talker n i sq channel payload padding)) =
    Some \<lparr>as_head = ''AI'' @ talker, as_fragments = Some n, as_fragment = Some i, as_sequence = sq, as_channel = [channel],
      as_bits = armoured_bits payload padding\<rparr>"
proof -
  let ?fs = "[''AI'' @ talker, show_nat n, show_nat i, sq, [channel], payload, show_nat padding]"
  let ?body = "aivdm_body talker n i sq channel payload padding"
  have "separator_free (''AI'' @ talker)" using assms(1) by (simp add: separator_free_def)
  then have fs: "\<forall>t \<in> set ?fs. separator_free t" using assms(2-4) separator_free_show by simp
  then have "split_on CHR '','' ?body = ?fs"
    unfolding aivdm_body_def by (intro split_on_join) (simp_all add: separator_free_def)
  then have body: "read_body ?body = Some \<lparr>as_head = ''AI'' @ talker, as_fragments = Some n, as_fragment = Some i, as_sequence = sq,
      as_channel = [channel], as_bits = armoured_bits payload padding\<rparr>"
    using assms(5-7) by (simp add: read_body_def)
  have star: "CHR ''*'' \<notin> set ?body"
    unfolding aivdm_body_def by (rule join_avoids) (simp, use fs in \<open>unfold separator_free_def, blast\<close>)
  have "split_once CHR ''*'' (?body @ CHR ''*'' # t) = Some (?body, t)" for t
    by (rule split_once_append [OF star])
  then show ?thesis by (simp add: append_aivdm_def read_sentence_def body)
qed

lemma aivdm_length:
  assumes "length talker = 3" "length sq \<le> 1" "length payload \<le> 60" "n \<le> 9" "i \<le> 9" "padding < 6"
  shows "length (append_aivdm (aivdm_body talker n i sq channel payload padding)) \<le> 82"
proof -
  have one: "length (show_nat k) = 1" if "k \<le> 9" for k using that by (simp add: show_nat.simps)
  have "length (show_byte True b) = 2" for b by (simp add: show_byte_two)
  then show ?thesis using assms one [of n] one [of i] one [of padding] by (simp add: append_aivdm_def aivdm_body_def)
qed

text \<open>The sentence of the \<open>i\<close>-th fragment: the fragments before it are full.\<close>

definition sentence_of :: "bit_vector \<Rightarrow> string \<Rightarrow> char \<Rightarrow> nat \<Rightarrow> string \<Rightarrow> nat \<Rightarrow> string" where
  "sentence_of bv talker channel n sq i =
     (let (payload, padding) = fragment_payload (bv_bytes bv) (360 * (i - 1)) (min (bv_pos bv - 360 * (i - 1)) 360)
      in append_aivdm (aivdm_body talker n i sq channel payload padding))"

lemma emit_loop:
  assumes "360 * (m - 1) \<le> bv_pos bv"
  shows "foldl (\<lambda>(out, bit_offset) frag.
      let frag_bits = min (bv_pos bv - bit_offset) 360;
          (payload, padding) = fragment_payload (bv_bytes bv) bit_offset frag_bits
      in (out @ [append_aivdm (aivdm_body talker n frag sq channel payload padding)], bit_offset + frag_bits))
    ([], 0) [1..<m + 1] = (map (sentence_of bv talker channel n sq) [1..<m + 1], min (360 * m) (bv_pos bv))"
  using assms
proof (induction m)
  case (Suc m)
  have off: "360 * m \<le> bv_pos bv" using Suc.prems by simp
  then have "360 * (m - 1) \<le> bv_pos bv" "min (360 * m) (bv_pos bv) = 360 * m" by simp_all
  moreover have "360 * m + min (bv_pos bv - 360 * m) 360 = min (360 * Suc m) (bv_pos bv)" using off by simp
  ultimately show ?case
    using Suc.IH by (simp add: sentence_of_def Let_def split: prod.split)
qed simp

lemma emitted:
  assumes "0 < bv_pos bv"
  defines "n \<equiv> (bv_pos bv + 359) div 360"
  shows "emit_sentences bv talker channel c =
    (let c' = (if n > 1 then (c + 1) mod 10 else c)
     in (map (sentence_of bv talker channel n (if n > 1 then [digit_char (unat c')] else [])) [1..<n + 1], c'))"
proof -
  have "360 * (n - 1) \<le> bv_pos bv" using assms by (simp add: n_def)
  from emit_loop [OF this, of talker n] show ?thesis
    using assms(1) unfolding emit_sentences_def Let_def n_def [symmetric] by simp
qed

lemma fragment_count:
  assumes "clean bv"
  shows "(bv_pos bv + 359) div 360 \<le> 6"
proof -
  have "bv_pos bv \<le> 1808" using assms by (simp add: clean_def BITVEC_BYTES_def)
  then show ?thesis by linarith
qed

lemma bits_slice: "off \<le> bv_pos bv \<Longrightarrow>
    map (bit_at (bv_bytes bv)) [off..<off + min (bv_pos bv - off) k] = take k (drop off (bits_of bv))"
  by (simp add: bits_of_def drop_map take_map take_upt min_def)

lemma chunks: "0 < k \<Longrightarrow> length xs \<le> k * n \<Longrightarrow> concat (map (\<lambda>i. take k (drop (k * (i - 1)) xs)) [1..<n + 1]) = xs"
proof -
  have "concat (map (\<lambda>i. take k (drop (k * (i - 1)) xs)) [1..<n + 1]) = take (k * n) xs" for n
  proof (induction n)
    case (Suc n)
    have "k * Suc n = k * n + k" by simp
    then have "take (k * Suc n) xs = take (k * n) xs @ take k (drop (k * n) xs)" by (simp only: take_add)
    then show ?case using Suc by simp
  qed simp
  then show "0 < k \<Longrightarrow> length xs \<le> k * n \<Longrightarrow> ?thesis" by simp
qed

text \<open>What one sentence says of the message.\<close>

definition reading_of :: "bit_vector \<Rightarrow> string \<Rightarrow> char \<Rightarrow> nat \<Rightarrow> string \<Rightarrow> nat \<Rightarrow> ais_sentence" where
  "reading_of bv talker channel n sq i =
     \<lparr>as_head = ''AI'' @ talker, as_fragments = Some n, as_fragment = Some i, as_sequence = sq, as_channel = [channel],
       as_bits = take 360 (drop (360 * (i - 1)) (bits_of bv))\<rparr>"

lemma sentence_read:
  assumes "separator_free talker" "separator_free sq" "separator_free [channel]" "n \<le> 9" "i \<le> 9" "360 * (i - 1) \<le> bv_pos bv"
  shows "read_sentence (sentence_of bv talker channel n sq i) = Some (reading_of bv talker channel n sq i)"
    "length talker = 3 \<Longrightarrow> length sq \<le> 1 \<Longrightarrow> length (sentence_of bv talker channel n sq i) \<le> 82"
proof -
  obtain payload padding where P: "fragment_payload (bv_bytes bv) (360 * (i - 1)) (min (bv_pos bv - 360 * (i - 1)) 360) = (payload, padding)"
    by fastforce
  note F = fragment_read [OF P]
  have S: "sentence_of bv talker channel n sq i = append_aivdm (aivdm_body talker n i sq channel payload padding)"
    unfolding sentence_of_def P Let_def by simp
  have "separator_free payload" using F(4) separator_free_payload by blast
  from aivdm_read [OF assms(1-3) this assms(4,5) F(3)]
  show "read_sentence (sentence_of bv talker channel n sq i) = Some (reading_of bv talker channel n sq i)"
    using assms(6) by (simp add: S F(1) bits_slice reading_of_def)
  have "length payload \<le> 60" using F(2) by simp
  then show "length talker = 3 \<Longrightarrow> length sq \<le> 1 \<Longrightarrow> length (sentence_of bv talker channel n sq i) \<le> 82"
    unfolding S using aivdm_length assms(4,5) F(3) by blast
qed

text \<open>
  The sentences of a packed message, read back (head, checksum, counters, armoured payload), say their number and rank, the channel,
  and together exactly the bits of the message, 360 to a sentence; a multi-sentence message has the next sequence digit in all its
  sentences, a single one has none, and no sentence is longer than the 82 characters of NMEA 0183.
\<close>

lemma sentences_read:
  assumes "clean bv" "0 < bv_pos bv" "talker \<in> {''VDM'', ''VDO''}" "channel \<in> {CHR ''A'', CHR ''B''}" "c < 10"
  shows "let n = (bv_pos bv + 359) div 360; (ss, c') = emit_sentences bv talker channel c;
             sq = (if n > 1 then show_nat (unat c') else [])
         in c' = (if n > 1 then (c + 1) mod 10 else c) \<and>
            map read_sentence ss = map (Some \<circ> reading_of bv talker channel n sq) [1..<n + 1] \<and>
            concat (map (as_bits \<circ> reading_of bv talker channel n sq) [1..<n + 1]) = bits_of bv \<and>
            (\<forall>s \<in> set ss. length s \<le> 82)"
proof -
  define n c' where "n = (bv_pos bv + 359) div 360" and "c' = (if n > 1 then (c + 1) mod 10 else c)"
  define sq where "sq = (if n > 1 then show_nat (unat c') else [])"
  have "unat c' < 10" if "n > 1" using that unat_mod [of "c + 1" 10] by (simp add: c'_def)
  then have sq: "(if n > 1 then [digit_char (unat c')] else []) = sq" by (simp add: sq_def show_nat.simps)
  have E: "emit_sentences bv talker channel c = (map (sentence_of bv talker channel n sq) [1..<n + 1], c')"
    using emitted [OF assms(2), of talker channel c] unfolding Let_def n_def [symmetric] c'_def [symmetric] sq .
  have n: "n \<le> 9" "bv_pos bv \<le> 360 * n" using fragment_count [OF assms(1)] by (simp_all add: n_def)
  have "length sq \<le> 1" unfolding sq [symmetric] by simp
  moreover have "separator_free sq" using separator_free_show by (simp add: sq_def separator_free_def)
  ultimately have plain: "separator_free talker" "separator_free [channel]" "separator_free sq" "length talker = 3" "length sq \<le> 1"
    using assms(3,4) by (auto simp: separator_free_def)
  have i: "i \<le> 9" "360 * (i - 1) \<le> bv_pos bv" if "i \<in> set [1..<n + 1]" for i
    using that n by (auto simp: n_def)
  have R: "read_sentence (sentence_of bv talker channel n sq i) = Some (reading_of bv talker channel n sq i)"
    "length (sentence_of bv talker channel n sq i) \<le> 82" if "i \<in> set [1..<n + 1]" for i
    using sentence_read [OF plain(1,3,2) n(1) i [OF that]] plain by blast+
  have "concat (map (as_bits \<circ> reading_of bv talker channel n sq) [1..<n + 1]) = bits_of bv"
    using chunks [of 360 "bits_of bv" n] n(2) by (simp add: reading_of_def comp_def)
  moreover have "map read_sentence (map (sentence_of bv talker channel n sq) [1..<n + 1]) =
      map (Some \<circ> reading_of bv talker channel n sq) [1..<n + 1]"
    using R(1) by simp
  ultimately show ?thesis
    using R(2) unfolding E Let_def n_def [symmetric] c'_def [symmetric] sq_def [symmetric] by (auto simp: c'_def sq_def)
qed

end
