(* ===== verification/Ais_Messages.thy ===== *)
theory Ais_Messages
  imports Ais Json_Output Decode
begin

unbundle bit_operations_syntax

section \<open>AIS messages (canboat-bridge/src/n2kd/ais\_decoded.rs)\<close>

text \<open>
  The encoders of the AIS messages over a decoded PGN.  An encoder is the list of its calls of \<open>add\_int\<close> and \<open>add\_string\<close>, and
  \<open>put\_items\<close> makes them in order.  The \<open>FieldRef\<close> and PGN constants are generated from the PGN database: the environment gives the
  field of a constant by module and name, and the id of a PGN constant by its name.  A field of another PGN is read by its order,
  as the release build does (a debug build stops there).  \<open>None\<close> is a panic.
\<close>

record 'f ais_env =
  ae_text :: "'f float_text"
  ae_sqrt :: "'f \<Rightarrow> 'f"
  ae_field :: "string \<Rightarrow> string \<Rightarrow> 'f field_info"
  ae_pgn_id :: "string \<Rightarrow> string"

abbreviation ae_fo :: "'f ais_env \<Rightarrow> 'f float_ops" where
  "ae_fo e \<equiv> tx_fo (ae_text e)"

abbreviation ae_lit :: "'f ais_env \<Rightarrow> string \<Rightarrow> 'f" where
  "ae_lit e s \<equiv> fo_lit (ae_fo e) s"

definition clamp_i64 :: "i64 \<Rightarrow> i64 \<Rightarrow> i64 \<Rightarrow> i64" where
  "clamp_i64 lo hi n = (if n <s lo then lo else if hi <s n then hi else n)"

definition in_i64 :: "i64 \<Rightarrow> i64 \<Rightarrow> i64 \<Rightarrow> bool" where
  "in_i64 lo hi n \<longleftrightarrow> lo \<le>s n \<and> n \<le>s hi"

subsection \<open>Fields\<close>

definition label_chars :: "string \<Rightarrow> chars" where
  "label_chars s = from_utf8_lossy (map (\<lambda>c. word_of_nat (of_char c)) s)"

definition fv_as_str :: "'f field_value \<Rightarrow> chars option" where
  "fv_as_str v = (case v of FvString s \<Rightarrow> Some s | FvLookup _ (Some n) \<Rightarrow> Some (label_chars n) | _ \<Rightarrow> None)"

definition ais_int_field :: "'f ais_env \<Rightarrow> 'f decoded_pgn \<Rightarrow> 'f field_info \<Rightarrow> i64 option" where
  "ais_int_field e d f = Option.bind (decoded_field_at d f) (\<lambda>x. fv_as_i64 (ae_fo e) (df_value x))"

definition num_field :: "'f ais_env \<Rightarrow> 'f decoded_pgn \<Rightarrow> 'f field_info \<Rightarrow> 'f option" where
  "num_field e d f = Option.bind (decoded_field_at d f) (\<lambda>x. fv_as_f64 (ae_fo e) (df_value x))"

definition num_field_in :: "'f ais_env \<Rightarrow> 'f decoded_pgn \<Rightarrow> 'f field_info \<Rightarrow> string \<Rightarrow> 'f option" where
  "num_field_in e d f unit = Option.bind (decoded_field_at d f) (\<lambda>x. df_as_f64_in (ae_fo e) x unit)"

definition str_field :: "'f decoded_pgn \<Rightarrow> 'f field_info \<Rightarrow> chars option" where
  "str_field d f = Option.bind (decoded_field_at d f) (\<lambda>x. fv_as_str (df_value x))"

definition enum_of :: "'f ais_env \<Rightarrow> 'f decoded_field option \<Rightarrow> (string \<times> i64) list \<Rightarrow> i64" where
  "enum_of e field names =
     (case field of
        None \<Rightarrow> - 1
      | Some f \<Rightarrow>
          (case fv_lookup_value (df_value f) of
             Some n \<Rightarrow> n
           | None \<Rightarrow>
               (case fv_as_i64 (ae_fo e) (df_value f) of
                  Some n \<Rightarrow> n
                | None \<Rightarrow>
                    (case fv_as_str (df_value f) of
                       Some s \<Rightarrow> (case find (\<lambda>(name, val). s = label_chars name) names of Some (_, val) \<Rightarrow> val | None \<Rightarrow> - 1)
                     | None \<Rightarrow> - 1))))"

definition enum_field :: "'f ais_env \<Rightarrow> 'f decoded_pgn \<Rightarrow> 'f field_info \<Rightarrow> (string \<times> i64) list \<Rightarrow> i64" where
  "enum_field e d f names = enum_of e (decoded_field_at d f) names"

definition enum_by_name :: "'f ais_env \<Rightarrow> 'f decoded_pgn \<Rightarrow> string \<Rightarrow> (string \<times> i64) list \<Rightarrow> i64" where
  "enum_by_name e d nm names = enum_of e (field_by_name d nm) names"

definition REPEAT_NAMES :: "(string \<times> i64) list" where
  "REPEAT_NAMES = [(''Initial'', 0), (''First retransmission'', 1), (''Second retransmission'', 2), (''Final retransmission'', 3)]"

definition POSITION_ACCURACY_NAMES :: "(string \<times> i64) list" where
  "POSITION_ACCURACY_NAMES = [(''Low'', 0), (''High'', 1)]"

definition RAIM_NAMES :: "(string \<times> i64) list" where
  "RAIM_NAMES = [(''not in use'', 0), (''in use'', 1)]"

definition AIS_TRANSCEIVER_NAMES :: "(string \<times> i64) list" where
  "AIS_TRANSCEIVER_NAMES =
     [(''Channel A VDL reception'', 0), (''Channel B VDL reception'', 1), (''Channel A VDL transmission'', 2),
      (''Channel B VDL transmission'', 3), (''Own information not broadcast'', 4)]"

definition repeat_indicator :: "'f ais_env \<Rightarrow> 'f decoded_pgn \<Rightarrow> 'f field_info \<Rightarrow> i64" where
  "repeat_indicator e d f = clamp_i64 0 3 (enum_field e d f REPEAT_NAMES)"

definition user_id :: "'f ais_env \<Rightarrow> 'f decoded_pgn \<Rightarrow> 'f field_info \<Rightarrow> i64 \<Rightarrow> i64" where
  "user_id e d f dflt = or_default dflt (ais_int_field e d f)"

subsection \<open>Scaled values\<close>

text \<open>\<open>(v + 0.5) as i64\<close>.\<close>

definition rounded_up :: "'f ais_env \<Rightarrow> 'f \<Rightarrow> i64" where
  "rounded_up e v = fo_to_i64 (ae_fo e) (fo_add (ae_fo e) v (ae_lit e ''0.5''))"

definition rate_of_turn :: "'f ais_env \<Rightarrow> 'f decoded_pgn \<Rightarrow> 'f field_info \<Rightarrow> i64" where
  "rate_of_turn e d f =
     (case num_field_in e d f ''deg/s'' of
        None \<Rightarrow> - 128
      | Some rot \<Rightarrow>
          (let v = fo_mul (ae_fo e) rot (ae_lit e ''60.0'');
               sign = (if fo_le (ae_fo e) (ae_lit e ''0.0'') v then 1 else - 1);
               r = fo_mul (ae_fo e) (ae_lit e ''4.733'') (ae_sqrt e (tx_abs (ae_text e) v));
               r = rounded_up e r;
               r = clamp_i64 (- 127) 127 r * sign
           in if in_i64 (- 127) 127 r then r else - 128))"

definition sog :: "'f ais_env \<Rightarrow> 'f decoded_pgn \<Rightarrow> 'f field_info \<Rightarrow> i64" where
  "sog e d f =
     (case num_field e d f of
        None \<Rightarrow> 1023
      | Some v \<Rightarrow> let n = rounded_up e (fo_mul (ae_fo e) v (ae_lit e ''19.438_444_92'')) in if in_i64 0 1022 n then n else 1023)"

definition cog :: "'f ais_env \<Rightarrow> 'f decoded_pgn \<Rightarrow> 'f field_info \<Rightarrow> i64" where
  "cog e d f =
     (case num_field_in e d f ''deg'' of
        None \<Rightarrow> 3600
      | Some v \<Rightarrow> let n = rounded_up e (fo_mul (ae_fo e) v (ae_lit e ''10.0'')) in if in_i64 0 3599 n then n else 3600)"

definition ais_heading :: "'f ais_env \<Rightarrow> 'f decoded_pgn \<Rightarrow> 'f field_info \<Rightarrow> i64" where
  "ais_heading e d f =
     (case num_field_in e d f ''deg'' of
        None \<Rightarrow> 511
      | Some v \<Rightarrow> let n = rounded_up e v in if in_i64 0 359 n then n else 511)"

definition longitude :: "'f ais_env \<Rightarrow> 'f decoded_pgn \<Rightarrow> 'f field_info \<Rightarrow> i64" where
  "longitude e d f =
     (case num_field e d f of
        None \<Rightarrow> 0x6791AC0
      | Some v \<Rightarrow>
          let n = fo_to_i64 (ae_fo e) (fo_round (ae_fo e) (fo_mul (ae_fo e) v (ae_lit e ''600_000.0'')))
          in if in_i64 (- 108000000) 108000000 n then n else 0x6791AC0)"

definition latitude :: "'f ais_env \<Rightarrow> 'f decoded_pgn \<Rightarrow> 'f field_info \<Rightarrow> i64" where
  "latitude e d f =
     (case num_field e d f of
        None \<Rightarrow> 0x3412140
      | Some v \<Rightarrow>
          let n = fo_to_i64 (ae_fo e) (fo_round (ae_fo e) (fo_mul (ae_fo e) v (ae_lit e ''600_000.0'')))
          in if in_i64 (- 54000000) 54000000 n then n else 0x3412140)"

definition altitude :: "'f ais_env \<Rightarrow> 'f decoded_pgn \<Rightarrow> 'f field_info \<Rightarrow> i64" where
  "altitude e d f =
     (case num_field e d f of
        None \<Rightarrow> 4095
      | Some v \<Rightarrow> let n = rounded_up e v in if in_i64 0 4094 n then n else 4095)"

definition draft :: "'f ais_env \<Rightarrow> 'f decoded_pgn \<Rightarrow> 'f field_info \<Rightarrow> i64" where
  "draft e d f =
     (case num_field e d f of
        None \<Rightarrow> 0
      | Some v \<Rightarrow> clamp_i64 0 255 (rounded_up e (fo_mul (ae_fo e) v (ae_lit e ''10.0''))))"

text \<open>\<open>f64::clamp\<close>.\<close>

definition clamp_f64 :: "'f float_text \<Rightarrow> 'f \<Rightarrow> 'f \<Rightarrow> 'f \<Rightarrow> 'f" where
  "clamp_f64 tx lo hi v = (if tx_lt tx v lo then lo else if tx_lt tx hi v then hi else v)"

definition metres :: "'f ais_env \<Rightarrow> 'f \<Rightarrow> i64" where
  "metres e v = fo_to_i64 (ae_fo e) (fo_div (ae_fo e) (fo_add (ae_fo e) v (ae_lit e ''5.0'')) (ae_lit e ''10.0''))"

definition ship_dimensions :: "'f ais_env \<Rightarrow> 'f decoded_pgn \<Rightarrow> 'f field_info \<Rightarrow> 'f field_info \<Rightarrow> 'f field_info \<Rightarrow> 'f field_info \<Rightarrow> i64" where
  "ship_dimensions e d f_length f_beam f_bow f_starboard =
     (let ten = (\<lambda>f. fo_mul (ae_fo e) (or_default (ae_lit e ''0.0'') (num_field e d f)) (ae_lit e ''10.0''));
          ref_bow = ten f_bow; ref_starboard = ten f_starboard;
          to_stern = clamp_f64 (ae_text e) (ae_lit e ''0.0'') (ae_lit e ''5110.0'') (fo_sub (ae_fo e) (ten f_length) ref_bow);
          to_port = clamp_f64 (ae_text e) (ae_lit e ''0.0'') (ae_lit e ''630.0'') (fo_sub (ae_fo e) (ten f_beam) ref_starboard)
      in push_bit 21 (metres e ref_bow) OR push_bit 12 (metres e to_stern) OR push_bit 6 (metres e to_port)
         OR metres e ref_starboard)"

subsection \<open>Communication state, dates and times\<close>

text \<open>\<open>char::is\_whitespace\<close>, and the pieces between runs of it.\<close>

definition white_char :: "nat \<Rightarrow> bool" where
  "white_char c \<longleftrightarrow> 9 \<le> c \<and> c \<le> 13 \<or> 0x2000 \<le> c \<and> c \<le> 0x200A \<or>
     c \<in> {0x20, 0x85, 0xA0, 0x1680, 0x2028, 0x2029, 0x202F, 0x205F, 0x3000}"

fun white_pieces :: "chars \<Rightarrow> chars list" where
  "white_pieces [] = [[]]"
| "white_pieces (c # r) =
     (if white_char c then [] # white_pieces r
      else case white_pieces r of p # ps \<Rightarrow> (c # p) # ps | [] \<Rightarrow> [[c]])"

text \<open>A text for the number parsers, which accept ASCII characters only.\<close>

definition ascii_text :: "chars \<Rightarrow> string option" where
  "ascii_text s = (if list_all (\<lambda>c. c < 128) s then Some (map char_of s) else None)"

definition trim_quotes :: "chars \<Rightarrow> chars" where
  "trim_quotes s = (let q = (\<lambda>c. c = 0x20 \<or> c = 0x22) in rev (dropWhile q (rev (dropWhile q s))))"

definition low19 :: "i64 \<Rightarrow> i64" where
  "low19 n = n AND (push_bit 19 1 - 1)"

definition three_bytes :: "u8 list \<Rightarrow> i64" where
  "three_bytes bs = low19 (ucast (bs ! 0) OR push_bit 8 (ucast (bs ! 1)) OR push_bit 16 (ucast (bs ! 2)))"

definition comm_state_text :: "chars \<Rightarrow> i64" where
  "comm_state_text s =
     (let trimmed = trim_quotes s in
      case Option.bind (ascii_text trimmed) parse_i64 of
        Some v \<Rightarrow> low19 (word_of_int v)
      | None \<Rightarrow>
          (let bytes = map word_of_nat (List.map_filter (\<lambda>t. Option.bind (ascii_text t) (parse_hex 255))
                         (filter (\<lambda>p. p \<noteq> []) (white_pieces trimmed)))
           in if length bytes \<ge> 3 then three_bytes bytes else 0))"

definition comm_state :: "'f ais_env \<Rightarrow> 'f decoded_pgn \<Rightarrow> 'f field_info \<Rightarrow> i64" where
  "comm_state e d f =
     (case decoded_field_at d f of
        None \<Rightarrow> 393222
      | Some x \<Rightarrow>
          (case fv_as_i64 (ae_fo e) (df_value x) of
             Some n \<Rightarrow> low19 n
           | None \<Rightarrow>
               (case (case df_value x of FvBinary bytes \<Rightarrow> if length bytes \<ge> 3 then Some bytes else None | _ \<Rightarrow> None) of
                  Some bytes \<Rightarrow> three_bytes bytes
                | None \<Rightarrow> (case fv_as_str (df_value x) of Some s \<Rightarrow> comm_state_text s | None \<Rightarrow> 0))))"

definition date_string :: "'f decoded_pgn \<Rightarrow> 'f field_info \<Rightarrow> string option" where
  "date_string d f =
     Option.bind (decoded_field_at d f) (\<lambda>x. case df_value x of FvDate days \<Rightarrow> Some (format_date days) | _ \<Rightarrow> None)"

definition ais_date :: "'f decoded_pgn \<Rightarrow> 'f field_info \<Rightarrow> i64" where
  "ais_date d f =
     (case date_string d f of
        None \<Rightarrow> 0
      | Some s \<Rightarrow>
          (let parts = split_on CHR ''.'' s;
               part = (\<lambda>k. if k < length parts then or_default 0 (parse_unsigned (2 ^ 32 - 1) (parts ! k)) else 0);
               y = part 0; m = part 1; day = part 2;
               y = (if y > 9999 then 0 else y); m = (if m > 12 then 0 else m); day = (if day > 31 then 0 else day)
           in push_bit 9 (word_of_nat y) OR push_bit 5 (word_of_nat m) OR word_of_nat day))"

text \<open>The seconds of a time, when it is one.\<close>

definition whole_seconds :: "'f ais_env \<Rightarrow> 'f decoded_pgn \<Rightarrow> 'f field_info \<Rightarrow> u64 option" where
  "whole_seconds e d f =
     Option.bind (decoded_field_at d f) (\<lambda>x. case df_value x of
        FvTime _ seconds \<Rightarrow>
          if \<not> fo_finite (ae_fo e) seconds \<or> tx_lt (ae_text e) seconds (ae_lit e ''0.0'') then None
          else Some (tx_to_u64 (ae_text e) (tx_trunc (ae_text e) seconds))
      | _ \<Rightarrow> None)"

definition ais_hour :: "u64 \<Rightarrow> u32" where
  "ais_hour whole = (let h = ucast (whole div 3600) in if h > 24 then 24 else h)"

definition ais_minute :: "u64 \<Rightarrow> u32" where
  "ais_minute whole = (let m = ucast ((whole div 60) mod 60) in if m > 60 then 60 else m)"

definition ais_second :: "u64 \<Rightarrow> u32" where
  "ais_second whole = (let s = ucast (whole mod 60) in if s > 60 then 60 else s)"

definition ais_time :: "'f ais_env \<Rightarrow> 'f decoded_pgn \<Rightarrow> 'f field_info \<Rightarrow> i64" where
  "ais_time e d f =
     (case whole_seconds e d f of
        None \<Rightarrow> 0
      | Some whole \<Rightarrow>
          push_bit 12 (ucast (ais_hour whole)) OR push_bit 6 (ucast (ais_minute whole)) OR ucast (ais_second whole))"

definition two_digits :: "string \<Rightarrow> nat \<Rightarrow> u32" where
  "two_digits s k =
     (let dig = (\<lambda>c. ucast (word_of_nat (of_char c) - 48 :: u8)) in 10 * dig (s ! k) + dig (s ! (k + 1)))"

definition ais_eta :: "'f ais_env \<Rightarrow> 'f decoded_pgn \<Rightarrow> 'f field_info \<Rightarrow> 'f field_info \<Rightarrow> i64" where
  "ais_eta e d eta_date eta_time =
     (let (month, day) =
            (case date_string d eta_date of
               None \<Rightarrow> (0, 0)
             | Some s \<Rightarrow>
                 (let (month, day) = (if length s \<ge> 10 then (two_digits s 5, two_digits s 8) else (0, 0))
                  in (if month > 12 then 0 else month, if day > 31 then 0 else day)));
          (hour, minute) =
            (case whole_seconds e d eta_time of None \<Rightarrow> (24, 60) | Some whole \<Rightarrow> (ais_hour whole, ais_minute whole))
      in push_bit 16 (ucast month) OR push_bit 11 (ucast day) OR push_bit 6 (ucast hour) OR ucast minute)"


subsection \<open>The message type, channel and talker\<close>

definition MESSAGE_ID_NAMES :: "(string \<times> i64) list" where
  "MESSAGE_ID_NAMES =
     [(''Scheduled Class A position report'', 1), (''Assigned scheduled Class A position report'', 1),
      (''Interrogated Class A position report'', 1), (''Standard Class B position report'', 18), (''AIS UTC and Date Report'', 4),
      (''Static and Voyage Related Data'', 5), (''Standard SAR Aircraft Position Report'', 9), (''Addressed safety related message'', 12),
      (''Safety related broadcast message'', 14), (''Extended Class B position report'', 19), (''ATON report'', 21),
      (''Static data report'', 24)]"

definition PGN_MESSAGE_IDS :: "(string \<times> i64) list" where
  "PGN_MESSAGE_IDS =
     [(''AIS_CLASS_APOSITION_REPORT'', 1), (''AIS_CLASS_BPOSITION_REPORT'', 18), (''AIS_CLASS_BEXTENDED_POSITION_REPORT'', 19),
      (''AIS_AIDS_TO_NAVIGATION_ATON_REPORT'', 21), (''AIS_UTC_AND_DATE_REPORT'', 4),
      (''AIS_CLASS_ASTATIC_AND_VOYAGE_RELATED_DATA'', 5), (''AIS_SAR_AIRCRAFT_POSITION_REPORT'', 9),
      (''AIS_ADDRESSED_SAFETY_RELATED_MESSAGE'', 12), (''AIS_SAFETY_RELATED_BROADCAST_MESSAGE'', 14),
      (''AIS_CLASS_BSTATIC_DATA_MSG24_PART_A'', 24), (''AIS_CLASS_BSTATIC_DATA_MSG24_PART_B'', 24)]"

definition id_by_pgn :: "'f ais_env \<Rightarrow> 'f decoded_pgn \<Rightarrow> i64 option" where
  "id_by_pgn e d = map_option snd (find (\<lambda>(c, _). dp_id d = ae_pgn_id e c) PGN_MESSAGE_IDS)"

definition pgn_to_msgid :: "'f ais_env \<Rightarrow> 'f decoded_pgn \<Rightarrow> i64 option" where
  "pgn_to_msgid e d =
     (case field_by_name d ''Message ID'' of
        None \<Rightarrow> id_by_pgn e d
      | Some f \<Rightarrow>
          (case fv_lookup_value (df_value f) of
             Some n \<Rightarrow> Some n
           | None \<Rightarrow>
               (case fv_as_i64 (ae_fo e) (df_value f) of
                  Some n \<Rightarrow> Some n
                | None \<Rightarrow>
                    (case Option.bind (fv_as_str (df_value f)) (\<lambda>s. find (\<lambda>(name, _). s = label_chars name) MESSAGE_ID_NAMES) of
                       Some (_, n) \<Rightarrow> Some n
                     | None \<Rightarrow> id_by_pgn e d))))"

definition transceiver_info :: "'f ais_env \<Rightarrow> 'f decoded_pgn \<Rightarrow> i64" where
  "transceiver_info e d = enum_by_name e d ''AIS Transceiver information'' AIS_TRANSCEIVER_NAMES"

definition ais_channel :: "'f ais_env \<Rightarrow> 'f decoded_pgn \<Rightarrow> char" where
  "ais_channel e d = (if transceiver_info e d \<in> {1, 3} then CHR ''B'' else CHR ''A'')"

definition ais_talker :: "'f ais_env \<Rightarrow> 'f decoded_pgn \<Rightarrow> string" where
  "ais_talker e d = (if in_i64 2 4 (transceiver_info e d) then ''VDO'' else ''VDM'')"

subsection \<open>The encoders\<close>

datatype ais_item = AisInt i64 nat | AisText chars nat

fun put_items :: "ais_item list \<Rightarrow> bit_vector \<Rightarrow> bit_vector option" where
  "put_items [] bv = Some bv"
| "put_items (AisInt v len # r) bv = Option.bind (add_int v len bv) (put_items r)"
| "put_items (AisText s len # r) bv = Option.bind (add_string s len bv) (put_items r)"

text \<open>The fields most messages share: the header, a flag, the position, the time stamp.\<close>

abbreviation time_stamp :: "'f ais_env \<Rightarrow> 'f decoded_pgn \<Rightarrow> 'f field_info \<Rightarrow> i64" where
  "time_stamp e d f \<equiv> clamp_i64 0 63 (or_default 60 (ais_int_field e d f))"

definition text_or_empty :: "'f decoded_pgn \<Rightarrow> 'f field_info \<Rightarrow> chars" where
  "text_or_empty d f = or_default [] (str_field d f)"

definition encode_class_a_position :: "'f ais_env \<Rightarrow> i64 \<Rightarrow> 'f decoded_pgn \<Rightarrow> ais_item list" where
  "encode_class_a_position e msgid d =
     (let f = ae_field e ''ais_class_aposition_report'' in
      [AisInt msgid 6, AisInt (repeat_indicator e d (f ''REPEAT_INDICATOR'')) 2, AisInt (user_id e d (f ''USER_ID'') 0) 30,
       AisInt (enum_field e d (f ''NAV_STATUS'') []) 4, AisInt (rate_of_turn e d (f ''RATE_OF_TURN'')) 8,
       AisInt (sog e d (f ''SOG'')) 10, AisInt (enum_field e d (f ''POSITION_ACCURACY'') POSITION_ACCURACY_NAMES) 1,
       AisInt (longitude e d (f ''LONGITUDE'')) 28, AisInt (latitude e d (f ''LATITUDE'')) 27, AisInt (cog e d (f ''COG'')) 12,
       AisInt (ais_heading e d (f ''HEADING'')) 9, AisInt (time_stamp e d (f ''TIME_STAMP'')) 6,
       AisInt (enum_field e d (f ''SPECIAL_MANEUVER_INDICATOR'') []) 2, AisInt 0 3, AisInt (enum_field e d (f ''RAIM'') RAIM_NAMES) 1,
       AisInt (comm_state e d (f ''COMMUNICATION_STATE'')) 19])"

definition encode_utc_date :: "'f ais_env \<Rightarrow> i64 \<Rightarrow> 'f decoded_pgn \<Rightarrow> ais_item list" where
  "encode_utc_date e msgid d =
     (let f = ae_field e ''ais_utc_and_date_report'' in
      [AisInt msgid 6, AisInt (repeat_indicator e d (f ''REPEAT_INDICATOR'')) 2, AisInt (user_id e d (f ''USER_ID'') 0) 30,
       AisInt (ais_date d (f ''POSITION_DATE'')) 23, AisInt (ais_time e d (f ''POSITION_TIME'')) 17,
       AisInt (enum_field e d (f ''POSITION_ACCURACY'') POSITION_ACCURACY_NAMES) 1,
       AisInt (longitude e d (f ''LONGITUDE'')) 28, AisInt (latitude e d (f ''LATITUDE'')) 27,
       AisInt (enum_field e d (f ''GNSS_TYPE'') []) 4, AisInt 0 10, AisInt (enum_field e d (f ''RAIM'') RAIM_NAMES) 1,
       AisInt (comm_state e d (f ''COMMUNICATION_STATE'')) 19])"

definition encode_class_a_static :: "'f ais_env \<Rightarrow> i64 \<Rightarrow> 'f decoded_pgn \<Rightarrow> ais_item list" where
  "encode_class_a_static e msgid d =
     (let f = ae_field e ''ais_class_astatic_and_voyage_related_data'' in
      [AisInt msgid 6, AisInt (repeat_indicator e d (f ''REPEAT_INDICATOR'')) 2, AisInt (user_id e d (f ''USER_ID'') 0) 30,
       AisInt (enum_field e d (f ''AIS_VERSION_INDICATOR'') []) 2, AisInt (user_id e d (f ''IMO_NUMBER'') 0) 30,
       AisText (text_or_empty d (f ''CALLSIGN'')) 42, AisText (text_or_empty d (f ''NAME'')) 120,
       AisInt (enum_field e d (f ''TYPE_OF_SHIP'') []) 8,
       AisInt (ship_dimensions e d (f ''LENGTH'') (f ''BEAM'') (f ''POSITION_REFERENCE_FROM_BOW'')
         (f ''POSITION_REFERENCE_FROM_STARBOARD'')) 30,
       AisInt (enum_field e d (f ''GNSS_TYPE'') []) 4, AisInt (ais_eta e d (f ''ETA_DATE'') (f ''ETA_TIME'')) 20,
       AisInt (draft e d (f ''DRAFT'')) 8, AisText (text_or_empty d (f ''DESTINATION'')) 120,
       AisInt (enum_field e d (f ''DTE'') []) 1, AisInt 0 1])"

definition encode_sar_aircraft :: "'f ais_env \<Rightarrow> i64 \<Rightarrow> 'f decoded_pgn \<Rightarrow> ais_item list" where
  "encode_sar_aircraft e msgid d =
     (let f = ae_field e ''ais_sar_aircraft_position_report'' in
      [AisInt msgid 6, AisInt (repeat_indicator e d (f ''REPEAT_INDICATOR'')) 2, AisInt (user_id e d (f ''USER_ID'') 0) 30,
       AisInt (altitude e d (f ''ALTITUDE'')) 12, AisInt ((sog e d (f ''SOG'') + 5) div 10) 10,
       AisInt (enum_field e d (f ''POSITION_ACCURACY'') POSITION_ACCURACY_NAMES) 1,
       AisInt (longitude e d (f ''LONGITUDE'')) 28, AisInt (latitude e d (f ''LATITUDE'')) 27, AisInt (cog e d (f ''COG'')) 12,
       AisInt (time_stamp e d (f ''TIME_STAMP'')) 6, AisInt 0 8, AisInt (enum_field e d (f ''DTE'') []) 1, AisInt 0 3,
       AisInt (- 1) 1, AisInt (enum_field e d (f ''RAIM'') RAIM_NAMES) 1, AisInt (- 1) 1,
       AisInt (comm_state e d (f ''COMMUNICATION_STATE'')) 19])"

text \<open>The bits of a text, at most \<open>most\<close>, rounded up to bytes.\<close>

definition text_width :: "nat \<Rightarrow> chars \<Rightarrow> nat" where
  "text_width most s =
     (let bits = length s * 6; bits = (if bits > most then most else bits)
      in if bits mod 8 \<noteq> 0 then bits + (8 - bits mod 8) else bits)"

definition encode_addressed_safety :: "'f ais_env \<Rightarrow> i64 \<Rightarrow> 'f decoded_pgn \<Rightarrow> ais_item list" where
  "encode_addressed_safety e msgid d =
     (let f = ae_field e ''ais_addressed_safety_related_message''; txt = text_or_empty d (f ''SAFETY_RELATED_TEXT'') in
      [AisInt msgid 6, AisInt (repeat_indicator e d (f ''REPEAT_INDICATOR'')) 2, AisInt (user_id e d (f ''SOURCE_ID'') 0) 30,
       AisInt (clamp_i64 0 3 (or_default 0 (ais_int_field e d (f ''SEQUENCE_NUMBER'')))) 2,
       AisInt (user_id e d (f ''DESTINATION_ID'') 0) 30,
       AisInt (clamp_i64 0 1 (or_default 0 (ais_int_field e d (f ''RETRANSMIT_FLAG'')))) 1, AisInt 0 1,
       AisText txt (text_width 156 txt)])"

definition encode_broadcast_safety :: "'f ais_env \<Rightarrow> i64 \<Rightarrow> 'f decoded_pgn \<Rightarrow> ais_item list" where
  "encode_broadcast_safety e msgid d =
     (let f = ae_field e ''ais_safety_related_broadcast_message''; txt = text_or_empty d (f ''SAFETY_RELATED_TEXT'') in
      [AisInt msgid 6, AisInt (repeat_indicator e d (f ''REPEAT_INDICATOR'')) 2, AisInt (user_id e d (f ''SOURCE_ID'') 0) 30,
       AisInt 0 2, AisText txt (text_width 161 txt)])"

definition encode_class_b_position :: "'f ais_env \<Rightarrow> i64 \<Rightarrow> 'f decoded_pgn \<Rightarrow> ais_item list" where
  "encode_class_b_position e msgid d =
     (let f = ae_field e ''ais_class_bposition_report'' in
      [AisInt msgid 6, AisInt (repeat_indicator e d (f ''REPEAT_INDICATOR'')) 2, AisInt (user_id e d (f ''USER_ID'') 0) 30,
       AisInt 0 8, AisInt (sog e d (f ''SOG'')) 10, AisInt (enum_field e d (f ''POSITION_ACCURACY'') POSITION_ACCURACY_NAMES) 1,
       AisInt (longitude e d (f ''LONGITUDE'')) 28, AisInt (latitude e d (f ''LATITUDE'')) 27, AisInt (cog e d (f ''COG'')) 12,
       AisInt (ais_heading e d (f ''HEADING'')) 9, AisInt (time_stamp e d (f ''TIME_STAMP'')) 6, AisInt 0 2,
       AisInt (enum_field e d (f ''UNIT_TYPE'') []) 1, AisInt (enum_field e d (f ''INTEGRATED_DISPLAY'') []) 1,
       AisInt (enum_field e d (f ''DSC'') []) 1, AisInt (enum_field e d (f ''BAND'') []) 1,
       AisInt (enum_field e d (f ''CAN_HANDLE_MSG22'') []) 1, AisInt (enum_field e d (f ''AIS_MODE'') []) 1,
       AisInt (enum_field e d (f ''RAIM'') RAIM_NAMES) 1, AisInt (enum_field e d (f ''AIS_COMMUNICATION_STATE'') []) 1,
       AisInt (comm_state e d (f ''COMMUNICATION_STATE'')) 19])"

definition encode_class_b_extended :: "'f ais_env \<Rightarrow> i64 \<Rightarrow> 'f decoded_pgn \<Rightarrow> ais_item list" where
  "encode_class_b_extended e msgid d =
     (let f = ae_field e ''ais_class_bextended_position_report'' in
      [AisInt msgid 6, AisInt (repeat_indicator e d (f ''REPEAT_INDICATOR'')) 2, AisInt (user_id e d (f ''USER_ID'') 0) 30,
       AisInt 0 8, AisInt (sog e d (f ''SOG'')) 10, AisInt (enum_field e d (f ''POSITION_ACCURACY'') POSITION_ACCURACY_NAMES) 1,
       AisInt (longitude e d (f ''LONGITUDE'')) 28, AisInt (latitude e d (f ''LATITUDE'')) 27, AisInt (cog e d (f ''COG'')) 12,
       AisInt (ais_heading e d (f ''TRUE_HEADING'')) 9, AisInt (time_stamp e d (f ''TIME_STAMP'')) 6, AisInt 0 4,
       AisText (text_or_empty d (f ''NAME'')) 120, AisInt (enum_field e d (f ''TYPE_OF_SHIP'') []) 8,
       AisInt (ship_dimensions e d (f ''LENGTH'') (f ''BEAM'') (f ''POSITION_REFERENCE_FROM_BOW'')
         (f ''POSITION_REFERENCE_FROM_STARBOARD'')) 30,
       AisInt (enum_field e d (f ''GNSS_TYPE'') []) 4, AisInt (enum_field e d (f ''RAIM'') RAIM_NAMES) 1,
       AisInt (enum_field e d (f ''DTE'') []) 1, AisInt (enum_field e d (f ''AIS_MODE'') []) 1, AisInt 0 4])"

text \<open>\<open>split\_at\<close> of a text at a byte position; inside a character it panics.\<close>

fun str_split_at :: "nat \<Rightarrow> chars \<Rightarrow> (chars \<times> chars) option" where
  "str_split_at 0 s = Some ([], s)"
| "str_split_at n [] = None"
| "str_split_at n (c # r) =
     (let k = length (utf8_char c)
      in if k \<le> n then map_option (\<lambda>(a, b). (c # a, b)) (str_split_at (n - k) r) else None)"

definition split_aton_name :: "chars \<Rightarrow> (chars \<times> chars) option" where
  "split_aton_name s =
     (if length (utf8_bytes s) \<le> 20 then Some (s, [])
      else map_option (\<lambda>(a, b). (a, rev (dropWhile (\<lambda>c. c = 0) (rev b)))) (str_split_at 20 s))"

definition encode_aton :: "'f ais_env \<Rightarrow> i64 \<Rightarrow> 'f decoded_pgn \<Rightarrow> ais_item list option" where
  "encode_aton e msgid d =
     (let f = ae_field e ''ais_aids_to_navigation_aton_report'' in
      case split_aton_name (text_or_empty d (f ''ATON_NAME'')) of
        None \<Rightarrow> None
      | Some (name20, ext) \<Rightarrow>
          (let ext_bits = length ext * 6; ext_bits = (if ext_bits mod 8 \<noteq> 0 then ext_bits + (8 - ext_bits mod 8) else ext_bits) in
           Some [AisInt msgid 6, AisInt (repeat_indicator e d (f ''REPEAT_INDICATOR'')) 2, AisInt (user_id e d (f ''USER_ID'') 0) 30,
             AisInt (enum_field e d (f ''ATON_TYPE'') []) 5, AisText name20 120,
             AisInt (enum_field e d (f ''POSITION_ACCURACY'') POSITION_ACCURACY_NAMES) 1,
             AisInt (longitude e d (f ''LONGITUDE'')) 28, AisInt (latitude e d (f ''LATITUDE'')) 27,
             AisInt (ship_dimensions e d (f ''LENGTH_DIAMETER'') (f ''BEAM_DIAMETER'')
               (f ''POSITION_REFERENCE_FROM_TRUE_NORTH_FACING_EDGE'') (f ''POSITION_REFERENCE_FROM_STARBOARD_EDGE'')) 30,
             AisInt (- 1) 4, AisInt (time_stamp e d (f ''TIME_STAMP'')) 6, AisInt (enum_field e d (f ''OFF_POSITION_INDICATOR'') []) 1,
             AisInt 0 8, AisInt (enum_field e d (f ''RAIM'') RAIM_NAMES) 1, AisInt (enum_field e d (f ''VIRTUAL_ATON_FLAG'') []) 1,
             AisInt (enum_field e d (f ''ASSIGNED_MODE_FLAG'') []) 1, AisInt 0 1, AisText ext ext_bits]))"

definition encode_class_b_static :: "'f ais_env \<Rightarrow> i64 \<Rightarrow> 'f decoded_pgn \<Rightarrow> ais_item list" where
  "encode_class_b_static e msgid d =
     AisInt msgid 6 #
     (if dp_id d = ae_pgn_id e ''AIS_CLASS_BSTATIC_DATA_MSG24_PART_A'' then
        (let f = ae_field e ''ais_class_bstatic_data_msg24_part_a'' in
         [AisInt (repeat_indicator e d (f ''REPEAT_INDICATOR'')) 2, AisInt (user_id e d (f ''USER_ID'') 0) 30, AisInt 0 2,
          AisText (text_or_empty d (f ''NAME'')) 120, AisInt 0 8])
      else if dp_id d = ae_pgn_id e ''AIS_CLASS_BSTATIC_DATA_MSG24_PART_B'' then
        (let f = ae_field e ''ais_class_bstatic_data_msg24_part_b'' in
         [AisInt (repeat_indicator e d (f ''REPEAT_INDICATOR'')) 2, AisInt (user_id e d (f ''USER_ID'') 0) 30, AisInt 1 2,
          AisInt (enum_field e d (f ''TYPE_OF_SHIP'') []) 8, AisText (text_or_empty d (f ''VENDOR_ID'')) 42,
          AisText (text_or_empty d (f ''CALLSIGN'')) 42,
          AisInt (ship_dimensions e d (f ''LENGTH'') (f ''BEAM'') (f ''POSITION_REFERENCE_FROM_BOW'')
            (f ''POSITION_REFERENCE_FROM_STARBOARD'')) 30,
          AisInt (user_id e d (f ''MOTHERSHIP_USER_ID'') 0) 30, AisInt 0 6])
      else [])"

text \<open>\<open>Some None\<close> is the answer \<open>false\<close>.\<close>

definition encode_payload :: "'f ais_env \<Rightarrow> i64 \<Rightarrow> 'f decoded_pgn \<Rightarrow> ais_item list option option" where
  "encode_payload e msgid d =
     (if in_i64 1 3 msgid then Some (Some (encode_class_a_position e msgid d))
      else if msgid = 4 then Some (Some (encode_utc_date e msgid d))
      else if msgid = 5 then Some (Some (encode_class_a_static e msgid d))
      else if msgid = 9 then Some (Some (encode_sar_aircraft e msgid d))
      else if msgid = 12 then Some (Some (encode_addressed_safety e msgid d))
      else if msgid = 14 then Some (Some (encode_broadcast_safety e msgid d))
      else if msgid = 18 then Some (Some (encode_class_b_position e msgid d))
      else if msgid = 19 then Some (Some (encode_class_b_extended e msgid d))
      else if msgid = 21 then map_option Some (encode_aton e msgid d)
      else if msgid = 24 then Some (Some (encode_class_b_static e msgid d))
      else Some None)"

definition ais_convert :: "'f ais_env \<Rightarrow> 'f decoded_pgn \<Rightarrow> u8 \<Rightarrow> (string list \<times> u8) option" where
  "ais_convert e d seq_counter =
     (case pgn_to_msgid e d of
        None \<Rightarrow> Some ([], seq_counter)
      | Some msgid \<Rightarrow>
          (case encode_payload e msgid d of
             None \<Rightarrow> None
           | Some None \<Rightarrow> Some ([], seq_counter)
           | Some (Some items) \<Rightarrow>
               map_option (\<lambda>bv. emit_sentences bv (ais_talker e d) (ais_channel e d) seq_counter) (put_items items bit_vector_new)))"

end
