(* ===== verification/Nmea0183.thy ===== *)
theory Nmea0183
  imports Ais_Messages Snapshot
begin

unbundle bit_operations_syntax

section \<open>NMEA 0183 sentences (canboat-bridge/src/n2kd/decoded.rs, nmea0183.rs)\<close>

text \<open>
  The sentences made of a decoded PGN, and the limiter that lets one of a kind and source through each second.  A line is a list of
  bytes, the output the list of lines appended to it.  The bundle \<open>Handles\<close> of generated constants is read through the environment of
  Ais\_Messages.  An \<open>Instant\<close> is a number of nanoseconds; \<open>now\<close> is the clock at the gate, \<open>now'\<close> the clock in the handler.
\<close>

record 'f nmea_env =
  ne_ais :: "'f ais_env"
  ne_floor :: "'f \<Rightarrow> 'f"
  ne_neg :: "'f \<Rightarrow> 'f"

abbreviation ne_tx :: "'f nmea_env \<Rightarrow> 'f float_text" where "ne_tx e \<equiv> ae_text (ne_ais e)"
abbreviation ne_fo :: "'f nmea_env \<Rightarrow> 'f float_ops" where "ne_fo e \<equiv> tx_fo (ne_tx e)"
abbreviation ne_lit :: "'f nmea_env \<Rightarrow> string \<Rightarrow> 'f" where "ne_lit e s \<equiv> fo_lit (ne_fo e) s"
abbreviation ne_field :: "'f nmea_env \<Rightarrow> string \<Rightarrow> string \<Rightarrow> 'f field_info" where "ne_field e \<equiv> ae_field (ne_ais e)"

subsection \<open>The rate limiter\<close>

datatype rate =
    RateVesselHeading | RateWindData | RateWaterDepth | RateWaterSpeed | RateRudder | RateGpsSpeed | RateGpsDop
  | RateGpsPosition | RateEnvironmental | RateDistanceLog

primrec rate_index :: "rate \<Rightarrow> nat" where
  "rate_index RateVesselHeading = 0"
| "rate_index RateWindData = 1"
| "rate_index RateWaterDepth = 2"
| "rate_index RateWaterSpeed = 3"
| "rate_index RateRudder = 4"
| "rate_index RateGpsSpeed = 5"
| "rate_index RateGpsDop = 6"
| "rate_index RateGpsPosition = 7"
| "rate_index RateEnvironmental = 8"
| "rate_index RateDistanceLog = 9"

text \<open>The table of 256 sources and 10 kinds is a function of both indices.\<close>

record 'f rate_limiter =
  rl_last_passed :: "nat \<Rightarrow> nat \<Rightarrow> int option"
  rl_enabled :: bool
  rl_sog_cog :: "('f \<times> 'f \<times> int) option"
  rl_ais_seq :: u8

definition rate_limiter_new :: "bool \<Rightarrow> 'f rate_limiter" where
  "rate_limiter_new enabled = \<lparr>rl_last_passed = (\<lambda>_ _. None), rl_enabled = enabled, rl_sog_cog = None, rl_ais_seq = 0\<rparr>"

definition ONE_SECOND :: int where "ONE_SECOND = 1000000000"

definition elapsed :: "int \<Rightarrow> int \<Rightarrow> int" where
  "elapsed now prev = max 0 (now - prev)"

definition should_drop_fast :: "int \<Rightarrow> u8 \<Rightarrow> rate \<Rightarrow> 'f rate_limiter \<Rightarrow> bool \<times> 'f rate_limiter" where
  "should_drop_fast now src r rl =
     (if \<not> rl_enabled rl then (False, rl)
      else if (case rl_last_passed rl (unat src) (rate_index r) of Some prev \<Rightarrow> elapsed now prev < ONE_SECOND | None \<Rightarrow> False)
      then (True, rl)
      else (False, rl\<lparr>rl_last_passed := (rl_last_passed rl)(unat src := (rl_last_passed rl (unat src))(rate_index r := Some now))\<rparr>))"

definition record_sog_cog :: "int \<Rightarrow> 'f \<Rightarrow> 'f \<Rightarrow> 'f rate_limiter \<Rightarrow> 'f rate_limiter" where
  "record_sog_cog now' s c rl = rl\<lparr>rl_sog_cog := Some (s, c, now')\<rparr>"

definition recent_sog_cog :: "int \<Rightarrow> 'f rate_limiter \<Rightarrow> ('f \<times> 'f) option" where
  "recent_sog_cog now' rl =
     (case rl_sog_cog rl of
        None \<Rightarrow> None
      | Some (s, c, ts) \<Rightarrow> if elapsed now' ts < ONE_SECOND then Some (s, c) else None)"

subsection \<open>Sentences\<close>

definition talker_chars :: "u8 \<Rightarrow> string" where
  "talker_chars src =
     (let first = 65 + (drop_bit 4 src AND 0x0f); second = 65 + (src AND 0x0f);
          first = (if first \<ge> 80 then first + 1 else first)
      in [char_of (unat first), char_of (unat second)])"

definition create :: "u8 \<Rightarrow> string \<Rightarrow> string" where
  "create src body =
     (let s = talker_chars src @ body
      in CHR ''$'' # s @ CHR ''*'' # show_byte True (checksum_byte s) @ [CHR 0x0D, CHR 0x0A])"

definition fixed :: "'f nmea_env \<Rightarrow> nat \<Rightarrow> 'f \<Rightarrow> string" where
  "fixed e p v = tx_fixed (ne_tx e) p v"

definition value_of :: "'f nmea_env \<Rightarrow> 'f decoded_pgn \<Rightarrow> string \<Rightarrow> string \<Rightarrow> 'f option" where
  "value_of e d m c = num_field (ne_ais e) d (ne_field e m c)"

definition value_in :: "'f nmea_env \<Rightarrow> 'f decoded_pgn \<Rightarrow> string \<Rightarrow> string \<Rightarrow> string \<Rightarrow> 'f option" where
  "value_in e d m c unit = num_field_in (ne_ais e) d (ne_field e m c) unit"

definition lookup_of :: "'f nmea_env \<Rightarrow> 'f decoded_pgn \<Rightarrow> string \<Rightarrow> string \<Rightarrow> u64 option" where
  "lookup_of e d m c = Option.bind (decoded_field_at d (ne_field e m c)) (\<lambda>f. fv_lookup_value (df_value f))"

definition negative :: "'f nmea_env \<Rightarrow> 'f \<Rightarrow> bool" where
  "negative e v = tx_lt (ne_tx e) v (ne_lit e ''0.0'')"

definition knots :: "'f nmea_env \<Rightarrow> 'f \<Rightarrow> 'f" where
  "knots e v = fo_mul (ne_fo e) v (ne_lit e ''1.943_84'')"

definition kmh :: "'f nmea_env \<Rightarrow> 'f \<Rightarrow> 'f" where
  "kmh e v = fo_mul (ne_fo e) v (ne_lit e ''3.6'')"

definition east_west :: "'f nmea_env \<Rightarrow> 'f \<Rightarrow> string" where
  "east_west e v = (if negative e v then ''W'' else ''E'')"

definition vessel_heading :: "'f nmea_env \<Rightarrow> u8 \<Rightarrow> 'f decoded_pgn \<Rightarrow> string list" where
  "vessel_heading e src d =
     (case value_in e d ''vessel_heading'' ''HEADING'' ''deg'' of
        None \<Rightarrow> []
      | Some angle \<Rightarrow>
          (let reference = or_default (- 1) (lookup_of e d ''vessel_heading'' ''REFERENCE'');
               dev = value_in e d ''vessel_heading'' ''DEVIATION'' ''deg'';
               var = value_in e d ''vessel_heading'' ''VARIATION'' ''deg'';
               plain = (if reference = 0 then [create src (join '','' [''HDT'', fixed e 1 angle, ''T''])]
                        else if reference = 1 then [create src (join '','' [''HDM'', fixed e 1 angle, ''M''])] else [])
           in case (dev, var) of
                (Some dv, Some vr) \<Rightarrow>
                  if reference = 1
                  then [create src (join '','' [''HDG'', fixed e 1 angle, fixed e 1 (tx_abs (ne_tx e) dv), east_west e dv,
                          fixed e 1 (tx_abs (ne_tx e) vr), east_west e vr])]
                  else plain
              | _ \<Rightarrow> plain))"

definition wind_data :: "'f nmea_env \<Rightarrow> u8 \<Rightarrow> 'f decoded_pgn \<Rightarrow> string list" where
  "wind_data e src d =
     (case value_of e d ''wind_data'' ''WIND_SPEED'' of
        None \<Rightarrow> []
      | Some speed \<Rightarrow>
          (case value_in e d ''wind_data'' ''WIND_ANGLE'' ''deg'' of
             None \<Rightarrow> []
           | Some angle \<Rightarrow>
               (let reference = or_default (- 1) (lookup_of e d ''wind_data'' ''REFERENCE'');
                    sentence = (\<lambda>ref_char. [create src (join '','' [''MWV'', fixed e 1 angle, ref_char, fixed e 1 (kmh e speed), ''K'', ''A''])])
                in if reference = 2 then sentence ''R'' else if reference = 3 then sentence ''T'' else [])))"

definition speed_course :: "'f nmea_env \<Rightarrow> int \<Rightarrow> u8 \<Rightarrow> 'f decoded_pgn \<Rightarrow> 'f rate_limiter \<Rightarrow> string list \<times> 'f rate_limiter" where
  "speed_course e now' src d rl =
     (case value_of e d ''cog_sog_rapid_update'' ''SOG'' of
        None \<Rightarrow> ([], rl)
      | Some s \<Rightarrow>
          (case value_in e d ''cog_sog_rapid_update'' ''COG'' ''deg'' of
             None \<Rightarrow> ([], rl)
           | Some c \<Rightarrow>
               ([create src (join '','' [''VTG'', fixed e 1 c, ''T'', '''', ''M'', fixed e 2 (knots e s), ''N'', fixed e 2 (kmh e s), ''K''])],
                record_sog_cog now' s c rl)))"

definition rudder :: "'f nmea_env \<Rightarrow> u8 \<Rightarrow> 'f decoded_pgn \<Rightarrow> string list" where
  "rudder e src d =
     (case value_in e d ''rudder'' ''POSITION'' ''deg'' of
        None \<Rightarrow> []
      | Some pos \<Rightarrow> [create src (join '','' [''RSA'', fixed e 1 (ne_neg e pos), ''A'', '''', ''F''])])"

definition water_speed :: "'f nmea_env \<Rightarrow> u8 \<Rightarrow> 'f decoded_pgn \<Rightarrow> string list" where
  "water_speed e src d =
     (case value_of e d ''speed'' ''SPEED_WATER_REFERENCED'' of
        None \<Rightarrow> []
      | Some s \<Rightarrow> [create src (join '','' [''VHW'', '''', ''T'', '''', ''M'', fixed e 1 (knots e s), ''N'', fixed e 1 (kmh e s), ''K''])])"

definition water_depth :: "'f nmea_env \<Rightarrow> u8 \<Rightarrow> 'f decoded_pgn \<Rightarrow> string list" where
  "water_depth e src d =
     (case value_of e d ''water_depth'' ''DEPTH'' of
        None \<Rightarrow> []
      | Some depth \<Rightarrow>
          [create src (case value_of e d ''water_depth'' ''OFFSET'' of
             Some offs \<Rightarrow> join '','' [''DPT'', fixed e 1 depth, fixed e 1 offs]
           | None \<Rightarrow> join '','' [''DPT'', fixed e 1 depth, ''''])])"

definition distance_log :: "'f nmea_env \<Rightarrow> u8 \<Rightarrow> 'f decoded_pgn \<Rightarrow> string list" where
  "distance_log e src d =
     (let m_to_nm = fo_div (ne_fo e) (ne_lit e ''1.0'') (ne_lit e ''1852.0'') in
      case value_of e d ''distance_log'' ''LOG'' of
        None \<Rightarrow> []
      | Some log \<Rightarrow>
          (case value_of e d ''distance_log'' ''TRIP_LOG'' of
             None \<Rightarrow> []
           | Some trip \<Rightarrow>
               [create src (join '','' [''VLW'', fixed e 1 (fo_mul (ne_fo e) log m_to_nm), ''N'', fixed e 1 (fo_mul (ne_fo e) trip m_to_nm), ''N''])]))"

definition environmental :: "'f nmea_env \<Rightarrow> u8 \<Rightarrow> 'f decoded_pgn \<Rightarrow> string list" where
  "environmental e src d =
     (case lookup_of e d ''environmental_parameters'' ''TEMPERATURE_SOURCE'' of
        None \<Rightarrow> []
      | Some source \<Rightarrow>
          if source \<noteq> 0 then []
          else (case value_in e d ''environmental_parameters'' ''TEMPERATURE'' ''C'' of
                  None \<Rightarrow> []
                | Some celsius \<Rightarrow> [create src (join '','' [''MTW'', fixed e 1 celsius, ''C''])]))"

definition gps_dop :: "'f nmea_env \<Rightarrow> u8 \<Rightarrow> 'f decoded_pgn \<Rightarrow> string list" where
  "gps_dop e src d =
     (let mode = (case lookup_of e d ''gnss_dops'' ''ACTUAL_MODE'' of
                    Some n \<Rightarrow> (let n = ucast n :: u32 in if n < 10 then [digit_char (unat n)] else [])
                  | None \<Rightarrow> []);
          hdop = (case value_of e d ''gnss_dops'' ''HDOP'' of Some v \<Rightarrow> fixed e 2 v | None \<Rightarrow> []);
          vdop = (case value_of e d ''gnss_dops'' ''VDOP'' of Some v \<Rightarrow> fixed e 2 v | None \<Rightarrow> [])
      in [create src (join '','' ([''GSA'', ''M'', mode] @ replicate 12 '''' @ ['''', hdop, vdop]))])"

definition cleanup_time :: "string \<Rightarrow> string" where
  "cleanup_time s =
     (let s = rev (dropWhile (\<lambda>c. c = CHR ''0'') (rev (filter (\<lambda>c. c \<noteq> CHR '':'') s)))
      in if s \<noteq> [] \<and> last s = CHR ''.'' then butlast s else s)"

definition nmea_date_string :: "string \<Rightarrow> string" where
  "nmea_date_string date =
     (let parts = split_on CHR ''.'' date; part = (\<lambda>k. if k < length parts then parts ! k else []);
          y = part 0; mo = part 1; day = part 2
      in if y = [] \<or> mo = [] \<or> day = [] then []
         else let y2 = drop (length y - 2) y
              in pad_left CHR ''0'' 2 day @ pad_left CHR ''0'' 2 mo @ pad_left CHR ''0'' 2 y2)"

definition latlon_to_nmea :: "'f nmea_env \<Rightarrow> 'f \<Rightarrow> bool \<Rightarrow> string \<times> string" where
  "latlon_to_nmea e decimal is_lat =
     (let fo = ne_fo e; a = tx_abs (ne_tx e) decimal; deg = ne_floor e a;
          combined = fo_add fo (fo_mul fo deg (ne_lit e ''100.0'')) (fo_mul fo (fo_sub fo a deg) (ne_lit e ''60.0''));
          hem = (if is_lat then (if negative e decimal then ''S'' else ''N'') else (if negative e decimal then ''W'' else ''E''))
      in (fixed e 4 combined, hem))"

definition position_time :: "'f nmea_env \<Rightarrow> 'f decoded_pgn \<Rightarrow> string" where
  "position_time e d =
     (case Option.bind (decoded_field_at d (ne_field e ''gnss_position_data'' ''TIME''))
             (\<lambda>f. case df_value f of FvTime _ seconds \<Rightarrow> Some seconds | _ \<Rightarrow> None) of
        Some s \<Rightarrow> cleanup_time (format_time (ne_tx e) s 4 False)
      | None \<Rightarrow> [])"

definition position_date :: "'f nmea_env \<Rightarrow> 'f decoded_pgn \<Rightarrow> string" where
  "position_date e d =
     (case Option.bind (decoded_field_at d (ne_field e ''gnss_position_data'' ''DATE''))
             (\<lambda>f. case df_value f of FvDate days \<Rightarrow> Some days | _ \<Rightarrow> None) of
        Some days \<Rightarrow> nmea_date_string (format_date days)
      | None \<Rightarrow> [])"

definition seven_places :: "'f nmea_env \<Rightarrow> 'f \<Rightarrow> 'f" where
  "seven_places e v = fo_div (ne_fo e) (fo_round (ne_fo e) (fo_mul (ne_fo e) v (ne_lit e ''1e7''))) (ne_lit e ''1e7'')"

definition gnss_position :: "'f nmea_env \<Rightarrow> int \<Rightarrow> u8 \<Rightarrow> 'f decoded_pgn \<Rightarrow> 'f rate_limiter \<Rightarrow> string list" where
  "gnss_position e now' src d rl =
     (case value_of e d ''gnss_position_data'' ''LATITUDE'' of
        None \<Rightarrow> []
      | Some lat \<Rightarrow>
          (case value_of e d ''gnss_position_data'' ''LONGITUDE'' of
             None \<Rightarrow> []
           | Some lon \<Rightarrow>
               (let (lat_str, lat_hem) = latlon_to_nmea e (seven_places e lat) True;
                    (lon_str, lon_hem) = latlon_to_nmea e (seven_places e lon) False;
                    time_str = position_time e d; date_str = position_date e d;
                    (sog_str, cog_str) =
                      (case recent_sog_cog now' rl of Some (s, c) \<Rightarrow> (fixed e 2 (knots e s), fixed e 1 c) | None \<Rightarrow> ([], []))
                in [create src (join '','' [''GLL'', lat_str, lat_hem, lon_str, lon_hem, time_str, ''A'']),
                    create src (join '','' [''RMC'', time_str, ''A'', lat_str, lat_hem, lon_str, lon_hem, sog_str, cog_str, date_str,
                      '''', '''', ''A''])])))"

subsection \<open>The dispatcher\<close>

text \<open>The branches in their order: the PGN constant of each and its rate.\<close>

definition nmea_rate :: "'f nmea_env \<Rightarrow> 'f decoded_pgn \<Rightarrow> rate option" where
  "nmea_rate e d =
     (let is = (\<lambda>c. dp_id d = ae_pgn_id (ne_ais e) c) in
      if is ''RUDDER'' then Some RateRudder
      else if is ''VESSEL_HEADING'' then Some RateVesselHeading
      else if is ''SPEED'' then Some RateWaterSpeed
      else if is ''WATER_DEPTH'' then Some RateWaterDepth
      else if is ''DISTANCE_LOG'' then Some RateDistanceLog
      else if is ''COG_SOG_RAPID_UPDATE'' then Some RateGpsSpeed
      else if is ''GNSS_POSITION_DATA'' then Some RateGpsPosition
      else if is ''GNSS_DOPS'' then Some RateGpsDop
      else if is ''WIND_DATA'' then Some RateWindData
      else if is ''ENVIRONMENTAL_PARAMETERS'' then Some RateEnvironmental
      else None)"

definition nmea_handler :: "'f nmea_env \<Rightarrow> rate \<Rightarrow> int \<Rightarrow> 'f decoded_pgn \<Rightarrow> 'f rate_limiter \<Rightarrow> string list \<times> 'f rate_limiter" where
  "nmea_handler e r now' d rl =
     (let src = dp_src d in
      case r of
        RateRudder \<Rightarrow> (rudder e src d, rl)
      | RateVesselHeading \<Rightarrow> (vessel_heading e src d, rl)
      | RateWaterSpeed \<Rightarrow> (water_speed e src d, rl)
      | RateWaterDepth \<Rightarrow> (water_depth e src d, rl)
      | RateDistanceLog \<Rightarrow> (distance_log e src d, rl)
      | RateGpsSpeed \<Rightarrow> speed_course e now' src d rl
      | RateGpsPosition \<Rightarrow> (gnss_position e now' src d rl, rl)
      | RateGpsDop \<Rightarrow> (gps_dop e src d, rl)
      | RateWindData \<Rightarrow> (wind_data e src d, rl)
      | RateEnvironmental \<Rightarrow> (environmental e src d, rl))"

text \<open>The lines, the number returned, and the limiter; \<open>None\<close> is the panic of an AIS encoder.\<close>

definition convert_nmea0183 ::
  "'f nmea_env \<Rightarrow> int \<Rightarrow> int \<Rightarrow> 'f decoded_pgn \<Rightarrow> 'f rate_limiter \<Rightarrow> (string list \<times> nat \<times> 'f rate_limiter) option" where
  "convert_nmea0183 e now now' d rl =
     (if is_ais_pgn (dp_pgn d) then
        map_option (\<lambda>(ss, c). (ss, length ss, rl\<lparr>rl_ais_seq := c\<rparr>)) (ais_convert (ne_ais e) d (rl_ais_seq rl))
      else
        (case nmea_rate e d of
           None \<Rightarrow> Some ([], 0, rl)
         | Some r \<Rightarrow>
             (let (drop, rl) = should_drop_fast now (dp_src d) r rl in
              if drop then Some ([], 0, rl)
              else let (out, rl) = nmea_handler e r now' d rl in Some (out, if out \<noteq> [] then 1 else 0, rl))))"

end
