(* ===== verification/Ais_Read.thy ===== *)
theory Ais_Read
  imports Ais_Messages Json_Lines
begin

unbundle bit_operations_syntax

section \<open>What the AIS sentences say\<close>

text \<open>
  The bits of a message are those of its calls in order, and the layout of the report of a Class A vessel reads its values back.
\<close>

subsection \<open>The bits of a message\<close>

primrec item_width :: "ais_item \<Rightarrow> nat" where
  "item_width (AisInt v len) = len"
| "item_width (AisText s len) = len"

primrec item_bits :: "ais_item \<Rightarrow> bool list" where
  "item_bits (AisInt v len) = msb_bits len v"
| "item_bits (AisText s len) = string_bits s len"

definition message_bits :: "ais_item list \<Rightarrow> bool list" where
  "message_bits items = concat (map item_bits items)"

definition message_width :: "ais_item list \<Rightarrow> nat" where
  "message_width items = sum_list (map item_width items)"

lemma length_string_bits [simp]: "length (string_bits s len) = len"
  by (induction s len rule: string_bits.induct) (subst string_bits.simps, simp)

lemma length_message_bits [simp]: "length (message_bits items) = message_width items"
proof -
  have "length (item_bits i) = item_width i" for i by (cases i) simp_all
  then show ?thesis by (simp add: message_bits_def message_width_def length_concat comp_def)
qed

lemma message_bits_simps [simp]:
  "message_bits [] = []" "message_bits (i # r) = item_bits i @ message_bits r"
  "message_width [] = 0" "message_width (i # r) = item_width i + message_width r"
  by (simp_all add: message_bits_def message_width_def)

lemma put_items_ok:
  "clean bv \<Longrightarrow> bv_pos bv + message_width items \<le> 8 * BITVEC_BYTES \<Longrightarrow>
     \<exists>bv'. put_items items bv = Some bv' \<and> clean bv' \<and> bits_of bv' = bits_of bv @ message_bits items"
proof (induction items bv rule: put_items.induct)
  case (2 v len r bv)
  then have le: "bv_pos bv + len \<le> 8 * BITVEC_BYTES" by simp
  obtain b1 where b1: "add_int v len bv = Some b1" "clean b1" "bits_of b1 = bits_of bv @ msb_bits len v"
    by (rule add_int_ok [OF "2.prems"(1) le])
  have "bv_pos b1 = bv_pos bv + len" using arg_cong [OF b1(3), of length] by simp
  then show ?case using 2 b1 by fastforce
next
  case (3 s len r bv)
  then obtain b1 where b1: "add_string s len bv = Some b1" "clean b1" "bits_of b1 = bits_of bv @ string_bits s len"
    using add_string_ok [of bv len s] by auto
  have "bv_pos b1 = bv_pos bv + len" using arg_cong [OF b1(3), of length] by simp
  then show ?case using 3 b1 by fastforce
qed simp

lemma clean_new: "clean bit_vector_new" "bits_of bit_vector_new = []" "bv_pos bit_vector_new = 0"
  by (auto simp: clean_def bit_vector_new_def bits_of_def bit_at_def less_mult_imp_div_less)

lemma packed_message:
  assumes "message_width items \<le> 8 * BITVEC_BYTES"
  obtains bv where "put_items items bit_vector_new = Some bv" "clean bv" "bits_of bv = message_bits items"
    "bv_pos bv = message_width items"
proof -
  obtain bv where bv: "put_items items bit_vector_new = Some bv" "clean bv" "bits_of bv = message_bits items"
    using put_items_ok [of bit_vector_new items] assms clean_new by auto
  moreover have "bv_pos bv = message_width items" using arg_cong [OF bv(3), of length] by simp
  ultimately show ?thesis by (rule that)
qed

subsection \<open>Reading by layout\<close>

definition bits_value :: "bool list \<Rightarrow> int" where
  "bits_value bs = horner_sum of_bool 2 (rev bs)"

definition layout_value :: "bool \<Rightarrow> bool list \<Rightarrow> int" where
  "layout_value sg bs = (let v = bits_value bs in if sg \<and> 2 ^ (length bs - 1) \<le> v then v - 2 ^ length bs else v)"

fun read_layout :: "(bool \<times> nat) list \<Rightarrow> bool list \<Rightarrow> int list" where
  "read_layout [] bs = []"
| "read_layout ((sg, len) # L) bs = layout_value sg (take len bs) # read_layout L (drop len bs)"

lemma bits_value_msb: "bits_value (msb_bits len (v :: 'a::len word)) = uint v mod 2 ^ len"
proof -
  have "rev (msb_bits len v) = map (bit (uint v)) [0..<len]"
    by (rule nth_equalityI) (simp_all add: msb_bits_def rev_nth bit_uint_iff, auto dest: bit_imp_le_length)
  then show ?thesis by (simp add: bits_value_def horner_sum_bit_eq_take_bit take_bit_eq_mod)
qed

lemma unsigned_field: "layout_value False (msb_bits len v) = uint v mod 2 ^ len"
  by (simp add: layout_value_def bits_value_msb)

lemma sint_mod: "len \<le> 64 \<Longrightarrow> uint (v :: i64) mod 2 ^ len = sint v mod 2 ^ len"
proof -
  assume "len \<le> 64"
  then have d: "(2 :: int) ^ len dvd 2 ^ 64" by (rule le_imp_power_dvd)
  have "uint v = sint v mod 2 ^ 64" using uint_sint [of v] by (simp add: take_bit_eq_mod)
  then show ?thesis using mod_mod_cancel [OF d] by simp
qed

lemma unsigned_exact: "0 \<le> sint v \<Longrightarrow> sint v < 2 ^ len \<Longrightarrow> len \<le> 64 \<Longrightarrow> layout_value False (msb_bits len (v :: i64)) = sint v"
  by (simp add: unsigned_field sint_mod)

lemma signed_exact:
  assumes "- (2 ^ (len - 1)) \<le> sint v" "sint v < 2 ^ (len - 1)" "0 < len" "len \<le> 64"
  shows "layout_value True (msb_bits len (v :: i64)) = sint v"
proof -
  have p: "(2 :: int) ^ len = 2 * 2 ^ (len - 1)" using assms(3) by (simp add: power_eq_if)
  have v: "bits_value (msb_bits len v) = sint v mod 2 ^ len" using assms(4) by (simp add: bits_value_msb sint_mod)
  show ?thesis
  proof (cases "0 \<le> sint v")
    case True
    then have "sint v mod 2 ^ len = sint v" using assms(2) p by simp
    then show ?thesis using assms(2) by (simp add: layout_value_def v)
  next
    case False
    then have "(sint v + 2 ^ len) mod 2 ^ len = sint v + 2 ^ len" using assms(1) p by (intro mod_pos_pos_trivial) auto
    then have "sint v mod 2 ^ len = sint v + 2 ^ len" by simp
    then show ?thesis using assms(1) p by (simp add: layout_value_def v)
  qed
qed

lemma read_layout_item: "read_layout ((sg, len) # L) (msb_bits len v @ bs) = layout_value sg (msb_bits len v) # read_layout L bs"
  by simp


subsection \<open>Ranges\<close>

lemma in_i64_iff: "in_i64 lo hi n \<longleftrightarrow> sint lo \<le> sint n \<and> sint n \<le> sint hi"
  by (simp add: in_i64_def word_sle_eq)

lemma clamp_i64_range: "sint lo \<le> sint hi \<Longrightarrow> sint lo \<le> sint (clamp_i64 lo hi n) \<and> sint (clamp_i64 lo hi n) \<le> sint hi"
  by (auto simp: clamp_i64_def word_sless_alt)

lemma low19_range: "0 \<le> sint (low19 n)" "sint (low19 n) < 2 ^ 19"
proof -
  have "low19 n = take_bit 19 n" by (simp add: low19_def take_bit_eq_mask mask_eq_exp_minus_1 push_bit_eq_mult)
  then have u: "uint (low19 n) < 2 ^ 19" by (simp only: unsigned_take_bit_eq take_bit_int_less_exp)
  have "- 9223372036854775808 \<le> uint (low19 n)" using uint_ge_0 [of "low19 n"] by linarith
  then have "sint (low19 n) = uint (low19 n)"
    using u unfolding sint_uint by (intro signed_take_bit_int_eq_self) simp_all
  then show "0 \<le> sint (low19 n)" "sint (low19 n) < 2 ^ 19" using u by simp_all
qed

lemma comm_state_range: "0 \<le> sint (comm_state e d f)" "sint (comm_state e d f) < 2 ^ 19"
  using low19_range
  by (auto simp: comm_state_def comm_state_text_def three_bytes_def Let_def split: option.splits)

lemma repeat_range: "0 \<le> sint (repeat_indicator e d f)" "sint (repeat_indicator e d f) < 2 ^ 2"
  using clamp_i64_range [of 0 3 "enum_field e d f REPEAT_NAMES"] by (simp_all add: repeat_indicator_def)

lemma time_stamp_range: "0 \<le> sint (time_stamp e d f)" "sint (time_stamp e d f) < 2 ^ 6"
  using clamp_i64_range [of 0 63 "or_default 60 (ais_int_field e d f)"] by simp_all

lemma rot_range: "- (2 ^ (8 - 1)) \<le> sint (rate_of_turn e d f)" "sint (rate_of_turn e d f) < 2 ^ (8 - 1)"
  by (auto simp: rate_of_turn_def in_i64_iff Let_def split: option.splits)

lemma sog_range: "0 \<le> sint (sog e d f)" "sint (sog e d f) < 2 ^ 10"
  by (auto simp: sog_def in_i64_iff Let_def split: option.splits)

lemma cog_range: "0 \<le> sint (cog e d f)" "sint (cog e d f) < 2 ^ 12"
  by (auto simp: cog_def in_i64_iff Let_def split: option.splits)

lemma heading_range: "0 \<le> sint (ais_heading e d f)" "sint (ais_heading e d f) < 2 ^ 9"
  by (auto simp: ais_heading_def in_i64_iff Let_def split: option.splits)

lemma longitude_range: "- (2 ^ (28 - 1)) \<le> sint (longitude e d f)" "sint (longitude e d f) < 2 ^ (28 - 1)"
  by (auto simp: longitude_def in_i64_iff Let_def split: option.splits)

lemma latitude_range: "- (2 ^ (27 - 1)) \<le> sint (latitude e d f)" "sint (latitude e d f) < 2 ^ (27 - 1)"
  by (auto simp: latitude_def in_i64_iff Let_def split: option.splits)


subsection \<open>Messages read back\<close>

lemma talker_channel: "ais_talker e d \<in> {''VDM'', ''VDO''}" "ais_channel e d \<in> {CHR ''A'', CHR ''B''}"
  by (simp_all add: ais_talker_def ais_channel_def)

text \<open>
  A decoded AIS message for which an encoder gives the calls \<open>items\<close> becomes sentences that are numbered \<open>1\<close> to \<open>n\<close>, name the
  talker and the channel of the transceiver field, and together hold exactly the bits of those calls; a message of more than 360 bits
  takes the next sequence digit.
\<close>

lemma converted_message:
  assumes "pgn_to_msgid e d = Some m" "encode_payload e m d = Some (Some items)"
    and "0 < message_width items" "message_width items \<le> 8 * BITVEC_BYTES" "c < 10"
  shows "\<exists>ss rs. ais_convert e d c = Some (ss, if message_width items > 360 then (c + 1) mod 10 else c) \<and>
    map read_sentence ss = map Some rs \<and> concat (map as_bits rs) = message_bits items \<and>
    map as_fragment rs = map Some [1..<(message_width items + 359) div 360 + 1] \<and>
    (\<forall>s \<in> set ss. length s \<le> 82) \<and>
    (\<forall>r \<in> set rs. as_head r = ''AI'' @ ais_talker e d \<and> as_channel r = [ais_channel e d] \<and>
       as_fragments r = Some ((message_width items + 359) div 360))"
proof -
  obtain bv where bv: "put_items items bit_vector_new = Some bv" "clean bv" "bits_of bv = message_bits items"
    "bv_pos bv = message_width items"
    using packed_message [OF assms(4)] by blast
  obtain ss c' where E: "emit_sentences bv (ais_talker e d) (ais_channel e d) c = (ss, c')" by fastforce
  define n sq where "n = (message_width items + 359) div 360" and "sq = (if n > 1 then show_nat (unat c') else [])"
  let ?rs = "map (reading_of bv (ais_talker e d) (ais_channel e d) n sq) [1..<n + 1]"
  have n1: "n > 1 \<longleftrightarrow> 360 < message_width items" by (simp add: n_def) arith
  have S: "c' = (if n > 1 then (c + 1) mod 10 else c) \<and> map read_sentence ss = map Some ?rs \<and>
      concat (map as_bits ?rs) = bits_of bv \<and> (\<forall>s \<in> set ss. length s \<le> 82)"
    using sentences_read [of bv "ais_talker e d" "ais_channel e d" c, OF bv(2) _ talker_channel assms(5)] assms(3)
    unfolding E Let_def bv(4) n_def [symmetric] sq_def [symmetric] prod.case map_map by blast
  then have "c' = (if message_width items > 360 then (c + 1) mod 10 else c)" "map read_sentence ss = map Some ?rs"
    "concat (map as_bits ?rs) = message_bits items"
    "\<forall>s \<in> set ss. length s \<le> 82"
    using n1 bv(3) by simp_all
  moreover have "ais_convert e d c = Some (ss, c')" using assms(1,2) bv(1) by (simp add: ais_convert_def E)
  moreover have "map as_fragment ?rs = map Some [1..<n + 1]" by (simp add: reading_of_def del: upt_Suc)
  ultimately show ?thesis
    unfolding n_def [symmetric] by (intro exI [of _ ss] exI [of _ ?rs]) (simp add: reading_of_def del: upt_Suc)
qed

text \<open>
  C10: a decoded AIS message for which an encoder gives the calls \<open>items\<close> becomes sentences of at most 82 characters, numbered \<open>1\<close> to
  \<open>n\<close>, that name the talker and the channel of the transceiver field and together hold exactly the bits of those calls, one after the
  other; a message of more than 360 bits takes the next sequence digit.
\<close>

theorem ais_convert_read:
  assumes "pgn_to_msgid e d = Some m" "encode_payload e m d = Some (Some items)"
    and "0 < message_width items" "message_width items \<le> 8 * BITVEC_BYTES" "c < 10"
  shows "\<exists>ss rs. ais_convert e d c = Some (ss, if message_width items > 360 then (c + 1) mod 10 else c) \<and>
    map read_sentence ss = map Some rs \<and> concat (map as_bits rs) = concat (map item_bits items) \<and>
    map as_fragment rs = map Some [1..<(message_width items + 359) div 360 + 1] \<and>
    (\<forall>s \<in> set ss. length s \<le> 82) \<and>
    (\<forall>r \<in> set rs. as_head r = ''AI'' @ ais_talker e d \<and> as_channel r = [ais_channel e d] \<and>
       as_fragments r = Some ((message_width items + 359) div 360))"
  using converted_message [OF assms] unfolding message_bits_def .

text \<open>The layout of the position report of a Class A vessel: whether a field is signed, and its bits.\<close>

definition CLASS_A_LAYOUT :: "(bool \<times> nat) list" where
  "CLASS_A_LAYOUT =
     [(False, 6), (False, 2), (False, 30), (False, 4), (True, 8), (False, 10), (False, 1), (True, 28), (True, 27), (False, 12),
      (False, 9), (False, 6), (False, 2), (False, 3), (False, 1), (False, 19)]"

text \<open>The values of the fields: exact where the encoder limits them, and else cut to the width of their field.\<close>

definition class_a_values :: "'f ais_env \<Rightarrow> 'f decoded_pgn \<Rightarrow> i64 \<Rightarrow> int list" where
  "class_a_values e d m =
     (let f = ae_field e ''ais_class_aposition_report'' in
      [sint m, sint (repeat_indicator e d (f ''REPEAT_INDICATOR'')), uint (user_id e d (f ''USER_ID'') 0) mod 2 ^ 30,
       uint (enum_field e d (f ''NAV_STATUS'') []) mod 2 ^ 4, sint (rate_of_turn e d (f ''RATE_OF_TURN'')), sint (sog e d (f ''SOG'')),
       uint (enum_field e d (f ''POSITION_ACCURACY'') POSITION_ACCURACY_NAMES) mod 2, sint (longitude e d (f ''LONGITUDE'')),
       sint (latitude e d (f ''LATITUDE'')), sint (cog e d (f ''COG'')), sint (ais_heading e d (f ''HEADING'')),
       sint (time_stamp e d (f ''TIME_STAMP'')), uint (enum_field e d (f ''SPECIAL_MANEUVER_INDICATOR'') []) mod 2 ^ 2, 0,
       uint (enum_field e d (f ''RAIM'') RAIM_NAMES) mod 2, sint (comm_state e d (f ''COMMUNICATION_STATE''))])"

lemma class_a_bits:
  assumes "in_i64 1 3 m"
  shows "read_layout CLASS_A_LAYOUT (message_bits (encode_class_a_position e m d)) = class_a_values e d m"
proof -
  have m: "0 \<le> sint m" "sint m < 2 ^ 6" using assms(1) by (simp_all add: in_i64_iff)
  note exact = unsigned_exact [OF m] unsigned_exact [OF repeat_range] signed_exact [OF rot_range] unsigned_exact [OF sog_range]
    signed_exact [OF longitude_range] signed_exact [OF latitude_range] unsigned_exact [OF cog_range] unsigned_exact [OF heading_range]
    unsigned_exact [OF time_stamp_range] unsigned_exact [OF comm_state_range]
  show ?thesis
    unfolding encode_class_a_position_def class_a_values_def Let_def CLASS_A_LAYOUT_def message_bits_simps item_bits.simps
      read_layout_item
    by (simp add: exact del: read_layout.simps, simp add: unsigned_field)
qed

text \<open>
  C11: the position of a Class A vessel becomes one sentence, whose 168 bits read by the layout of the report give the message type, the
  vessel and the values the encoder computed: rate of turn, speed, position, course and heading exactly, coded values within their width.
\<close>

theorem class_a_position_read:
  assumes "pgn_to_msgid e d = Some m" "in_i64 1 3 m" "c < 10"
  shows "\<exists>s r. ais_convert e d c = Some ([s], c) \<and> read_sentence s = Some r \<and> as_head r = ''AI'' @ ais_talker e d \<and>
    as_channel r = [ais_channel e d] \<and> length (as_bits r) = 168 \<and> read_layout CLASS_A_LAYOUT (as_bits r) = class_a_values e d m"
proof -
  let ?items = "encode_class_a_position e m d"
  have w: "message_width ?items = 168" by (simp add: encode_class_a_position_def Let_def)
  have P: "encode_payload e m d = Some (Some ?items)" using assms(2) by (simp add: encode_payload_def)
  obtain ss rs where R: "ais_convert e d c = Some (ss, c)" "map read_sentence ss = map Some rs"
      "concat (map as_bits rs) = message_bits ?items" "map as_fragment rs = map Some [1..<(168 + 359) div 360 + 1]"
      "\<forall>r \<in> set rs. as_head r = ''AI'' @ ais_talker e d \<and> as_channel r = [ais_channel e d]"
    using converted_message [OF assms(1) P _ _ assms(3)] unfolding w BITVEC_BYTES_def by fastforce
  have "[1..<(168 + 359) div 360 + 1] = [1 :: nat]" by (simp add: upt_rec)
  then have "map as_fragment rs = [Some 1]" using R(4) by simp
  then obtain r where rs: "rs = [r]" by blast
  then obtain s where "ss = [s]" "read_sentence s = Some r" using R(2) by auto
  then show ?thesis
    using R rs class_a_bits [OF assms(2), of e d] length_message_bits [of ?items] w by auto
qed

subsection \<open>No encoder stops\<close>

lemma text_width_bound: "text_width most s \<le> most + 7"
  by (auto simp: text_width_def Let_def)

lemma ascii_bytes: "list_all (\<lambda>c. c < 128) s \<Longrightarrow> length (utf8_bytes s) = length s"
  by (induction s) (simp_all add: utf8_bytes_def utf8_char_def)

lemma split_at_ascii: "list_all (\<lambda>c. c < 128) s \<Longrightarrow> n \<le> length s \<Longrightarrow> str_split_at n s = Some (take n s, drop n s)"
  by (induction n s rule: str_split_at.induct) (auto simp: utf8_char_def)

lemma aton_name_ascii:
  assumes "list_all (\<lambda>c. c < 128) s" "length s \<le> 276"
  obtains a b where "split_aton_name s = Some (a, b)" "length b \<le> 256"
proof (cases "length s \<le> 20")
  case True
  then show ?thesis using that [of s "[]"] assms by (simp add: split_aton_name_def ascii_bytes)
next
  case False
  then show ?thesis
    using that [of "take 20 s" "rev (dropWhile (\<lambda>c. c = 0) (rev (drop 20 s)))"] assms length_dropWhile_le [of "\<lambda>c. c = 0" "rev (drop 20 s)"]
    by (simp add: split_aton_name_def ascii_bytes split_at_ascii)
qed

lemma encoder_width:
  assumes "encode_payload e m d = Some (Some items)"
    and "m = 21 \<Longrightarrow> list_all (\<lambda>c. c < 128) (text_or_empty d (ae_field e ''ais_aids_to_navigation_aton_report'' ''ATON_NAME'')) \<and>
      length (text_or_empty d (ae_field e ''ais_aids_to_navigation_aton_report'' ''ATON_NAME'')) \<le> 276"
  shows "message_width items \<le> 8 * BITVEC_BYTES"
proof (cases "m = 21")
  case True
  let ?name = "text_or_empty d (ae_field e ''ais_aids_to_navigation_aton_report'' ''ATON_NAME'')"
  obtain a b where ab: "split_aton_name ?name = Some (a, b)" "length b \<le> 256"
    using aton_name_ascii [of ?name] assms(2) True by blast
  have "message_width items = 272 + (let k = length b * 6 in if k mod 8 \<noteq> 0 then k + (8 - k mod 8) else k)"
    using assms(1) True ab(1) by (auto simp: encode_payload_def in_i64_iff encode_aton_def Let_def)
  moreover have "(let k = length b * 6 in if k mod 8 \<noteq> 0 then k + (8 - k mod 8) else k) \<le> 1536"
    using ab(2) unfolding Let_def by (cases "length b = 256") (simp, presburger)
  ultimately show ?thesis by (simp add: BITVEC_BYTES_def)
next
  case False
  have "text_width 156 s \<le> 1736" "text_width 161 s \<le> 1768" for s
    using text_width_bound [of 156 s] text_width_bound [of 161 s] by simp_all
  then have safety: "message_width (encode_addressed_safety e m d) \<le> 1808" "message_width (encode_broadcast_safety e m d) \<le> 1808"
    by (simp_all add: encode_addressed_safety_def encode_broadcast_safety_def Let_def)
  have rest: "message_width (encode_class_a_position e m d) \<le> 1808" "message_width (encode_utc_date e m d) \<le> 1808"
    "message_width (encode_class_a_static e m d) \<le> 1808" "message_width (encode_sar_aircraft e m d) \<le> 1808"
    "message_width (encode_class_b_position e m d) \<le> 1808" "message_width (encode_class_b_extended e m d) \<le> 1808"
    "message_width (encode_class_b_static e m d) \<le> 1808"
    by (simp_all add: encode_class_a_position_def encode_utc_date_def encode_class_a_static_def encode_sar_aircraft_def
      encode_class_b_position_def encode_class_b_extended_def encode_class_b_static_def Let_def)
  show ?thesis
    using assms(1) False safety rest unfolding encode_payload_def BITVEC_BYTES_def by (simp split: if_splits)
qed

text \<open>
  A release build returns for every decoded message, with at most six sentences, if the name of an aid to navigation is ASCII of at
  most 276 characters: no index past the bit vector and no slice inside a character.  (A debug build also asserts that the fields asked
  for are those of the record's own PGN.)
\<close>

theorem ais_convert_total:
  assumes "pgn_to_msgid e d = Some 21 \<Longrightarrow>
      list_all (\<lambda>c. c < 128) (text_or_empty d (ae_field e ''ais_aids_to_navigation_aton_report'' ''ATON_NAME'')) \<and>
      length (text_or_empty d (ae_field e ''ais_aids_to_navigation_aton_report'' ''ATON_NAME'')) \<le> 276"
  shows "\<exists>ss c'. ais_convert e d c = Some (ss, c') \<and> length ss \<le> 6"
proof (cases "pgn_to_msgid e d")
  case (Some m)
  have "m = 21 \<Longrightarrow> encode_aton e m d \<noteq> None"
    using aton_name_ascii assms Some by (fastforce simp: encode_aton_def Let_def)
  then have P: "encode_payload e m d \<noteq> None" by (auto simp: encode_payload_def)
  show ?thesis
  proof (cases "encode_payload e m d")
    case E: (Some x)
    show ?thesis
    proof (cases x)
      case items: (Some items)
      have w: "message_width items \<le> 8 * BITVEC_BYTES"
        using encoder_width [of e m d items] assms Some E items by blast
      obtain bv where bv: "put_items items bit_vector_new = Some bv" "clean bv" "bv_pos bv = message_width items"
        using packed_message [OF w] by blast
      obtain ss c' where S: "emit_sentences bv (ais_talker e d) (ais_channel e d) c = (ss, c')" by fastforce
      have "length ss \<le> 6"
      proof (cases "bv_pos bv = 0")
        case False
        then show ?thesis
          using emitted [of bv "ais_talker e d" "ais_channel e d" c] S fragment_count [OF bv(2)] by (auto simp: Let_def simp del: upt_Suc)
      qed (use S in \<open>simp add: emit_sentences_def\<close>)
      then show ?thesis using Some E items bv S by (simp add: ais_convert_def)
    qed (use Some E in \<open>simp add: ais_convert_def\<close>)
  qed (use P in simp)
qed (simp add: ais_convert_def)

text \<open>A name whose twentieth byte is inside a character stops the bridge.\<close>

lemma aton_name_panics: "split_aton_name (replicate 19 65 @ [0xE9, 66]) = None"
  by code_simp


subsection \<open>A report\<close>

text \<open>A report over integers as numbers: message type 1 of vessel 244180106 at 5 degrees east, 52 degrees north.\<close>

definition ais_demo_env :: "int ais_env" where
  "ais_demo_env =
     \<lparr>ae_text = demo_text\<lparr>tx_fo := demo_fo\<lparr>fo_lit := (\<lambda>s. if s = ''600_000.0'' then 600000 else 0)\<rparr>\<rparr>, ae_sqrt = (\<lambda>x. x),
      ae_field = (\<lambda>_ c. demo_field (if c = ''USER_ID'' then 3 else if c = ''LONGITUDE'' then 4 else if c = ''LATITUDE'' then 5 else 9) c 8 0 FtNumber),
      ae_pgn_id = (\<lambda>c. c)\<rparr>"

definition ais_demo_record :: "int decoded_pgn" where
  "ais_demo_record = demo_record\<lparr>
     dp_fields := [demo_decoded 1 ''Message ID'' (FvLookup 1 None) 0, demo_decoded 2 ''AIS Transceiver information'' (FvInteger 1) 0,
       demo_decoded 3 ''User ID'' (FvMmsi 244180106) 0, demo_decoded 4 ''Longitude'' (FvNumber 5) 0, demo_decoded 5 ''Latitude'' (FvNumber 52) 0],
     dp_index_by_order := [0, 1, 2, 3, 4]\<rparr>"

lemma ais_demo_facts:
  "pgn_to_msgid ais_demo_env ais_demo_record = Some 1" "ais_channel ais_demo_env ais_demo_record = CHR ''B''"
  "ais_talker ais_demo_env ais_demo_record = ''VDM''"
  "class_a_values ais_demo_env ais_demo_record 1 =
     [1, 0, 244180106, 15, - 128, 1023, 1, 3000000, 31200000, 3600, 511, 60, 3, 0, 1, 393222]"
  by code_simp+

theorem class_a_position_read_witness:
  "\<exists>s r. ais_convert ais_demo_env ais_demo_record 0 = Some ([s], 0) \<and> read_sentence s = Some r \<and> as_head r = ''AIVDM'' \<and>
    as_channel r = ''B'' \<and> read_layout CLASS_A_LAYOUT (as_bits r) =
      [1, 0, 244180106, 15, - 128, 1023, 1, 3000000, 31200000, 3600, 511, 60, 3, 0, 1, 393222]"
proof -
  have "in_i64 1 3 1" by code_simp
  then show ?thesis using class_a_position_read [OF ais_demo_facts(1), of 0] unfolding ais_demo_facts(2-4) by auto
qed

theorem ais_convert_total_witness: "\<exists>ss c'. ais_convert ais_demo_env ais_demo_record 0 = Some (ss, c') \<and> length ss \<le> 6"
  by (rule ais_convert_total) (simp add: ais_demo_facts(1))

text \<open>The same vessel with message type 5: 424 bits, in two sentences.\<close>

definition ais_static_record :: "int decoded_pgn" where
  "ais_static_record = ais_demo_record\<lparr>dp_fields := demo_decoded 1 ''Message ID'' (FvLookup 5 None) 0 # tl (dp_fields ais_demo_record)\<rparr>"

theorem ais_convert_read_witness:
  "\<exists>ss rs. ais_convert ais_demo_env ais_static_record 9 = Some (ss, 0) \<and> map read_sentence ss = map Some rs \<and>
    concat (map as_bits rs) = concat (map item_bits (encode_class_a_static ais_demo_env 5 ais_static_record)) \<and>
    map as_fragment rs = [Some 1, Some 2]"
proof -
  let ?items = "encode_class_a_static ais_demo_env 5 ais_static_record"
  have m: "pgn_to_msgid ais_demo_env ais_static_record = Some 5" by code_simp
  have w: "message_width ?items = 424" by (simp add: encode_class_a_static_def Let_def)
  have P: "encode_payload ais_demo_env 5 ais_static_record = Some (Some ?items)" by (simp add: encode_payload_def in_i64_iff)
  have "[1..<(424 + 359) div 360 + 1] = [1, 2 :: nat]" by (simp add: upt_rec)
  then show ?thesis
    using ais_convert_read [OF m P, of 9] unfolding w BITVEC_BYTES_def by fastforce
qed

end
