(* ===== verification/Nmea_Sentences.thy ===== *)
theory Nmea_Sentences
  imports Nmea0183 Nmea_Filter Ais_Read
begin

unbundle bit_operations_syntax

section \<open>What the NMEA 0183 sentences are\<close>

text \<open>
  Every line the converter writes is a sentence that a reader accepts and takes apart, and the limiter keeps a second between the
  sentences of one kind and source.
\<close>

subsection \<open>A reader\<close>

definition talker_source :: "nat \<Rightarrow> nat \<Rightarrow> u8" where
  "talker_source a b = word_of_nat (16 * (if a > 80 then a - 66 else a - 65) + (b - 65))"

definition read_nmea :: "string \<Rightarrow> (u8 \<times> string list) option" where
  "read_nmea line =
     (case line of
        c # r \<Rightarrow>
          if c \<noteq> CHR ''$'' then None
          else (case split_once CHR ''*'' r of
            Some (a # b # s, tail) \<Rightarrow>
              if tail = show_byte True (checksum_byte (a # b # s)) @ [CHR 0x0D, CHR 0x0A]
              then Some (talker_source (of_char a) (of_char b), split_on CHR '','' s) else None
          | _ \<Rightarrow> None)
      | [] \<Rightarrow> None)"

lemma talker_chars_read:
  obtains a b where "talker_chars src = [a, b]" "talker_source (of_char a) (of_char b) = src" "a \<noteq> CHR ''*''" "b \<noteq> CHR ''*''"
    "a \<noteq> CHR ''P''" "65 \<le> (of_char a :: nat) \<and> (of_char a :: nat) \<le> 81" "65 \<le> (of_char b :: nat) \<and> (of_char b :: nat) \<le> 80"
proof -
  define h l where "h = unat src div 16" and "l = unat src mod 16"
  have s: "unat src < 256" using unsigned_less [where w = src] by simp
  then have hl: "h < 16" "l < 16" "unat src = 16 * h + l" by (simp_all add: h_def l_def less_mult_imp_div_less)
  have m: "x AND 0x0f = x mod 16" for x :: u8
  proof -
    have "x AND 0x0f = take_bit 4 x" by (simp add: take_bit_eq_mask mask_eq_exp_minus_1)
    then show ?thesis by (simp add: take_bit_eq_mod)
  qed
  have "drop_bit 4 src = src div 16" by (simp add: drop_bit_eq_div)
  then have hi: "unat (drop_bit 4 src AND 0x0f) = h" unfolding m using hl(1) by (simp add: h_def unat_div unat_mod)
  have lo: "unat (src AND 0x0f) = l" unfolding m by (simp add: l_def unat_mod)
  define f g where "f = 65 + (drop_bit 4 src AND 0x0f)" and "g = 65 + (src AND 0x0f)"
  have fg: "unat f = 65 + h" "unat g = 65 + l" "unat (f + 1) = 66 + h" using hl(1,2) by (simp_all add: f_def g_def unat_word_ariths hi lo)
  define k where "k = (if 80 \<le> 65 + h then 66 + h else 65 + h)"
  have "80 \<le> f \<longleftrightarrow> 80 \<le> 65 + h" using fg(1) by (simp add: word_le_nat_alt)
  then have t: "talker_chars src = [char_of k, char_of (65 + l)]"
    unfolding talker_chars_def Let_def f_def [symmetric] g_def [symmetric] using fg by (simp add: k_def)
  have k: "k \<noteq> 80" "k < 256" "65 \<le> k" "k \<le> 81" "l + 65 < 256" using hl(1,2) by (simp_all add: k_def)
  have r: "(of_char (char_of k) :: nat) = k" "(of_char (char_of (65 + l)) :: nat) = 65 + l" using k hl(2) by simp_all
  have "16 * (if k > 80 then k - 66 else k - 65) + (65 + l - 65) = unat src" using hl by (simp add: k_def)
  then have "talker_source k (65 + l) = word_of_nat (unat src)" by (simp only: talker_source_def)
  then have "talker_source k (65 + l) = src" by simp
  then have src: "talker_source (of_char (char_of k :: char)) (of_char (char_of (65 + l) :: char)) = src" unfolding r .
  have star: "char_of n \<noteq> CHR ''*''" "n \<noteq> 80 \<Longrightarrow> char_of n \<noteq> CHR ''P''" if "65 \<le> n" "n < 256" for n :: nat
    using that by (auto dest!: arg_cong [of _ _ "of_char :: char \<Rightarrow> nat"])
  show ?thesis
    by (rule that [OF t src star(1) star(1) star(2)]) (use k hl(2) in \<open>simp_all add: r\<close>)
qed

text \<open>A text that can stand in a field.\<close>

definition bare :: "string \<Rightarrow> bool" where
  "bare s \<longleftrightarrow> CHR '','' \<notin> set s \<and> CHR ''*'' \<notin> set s \<and> CHR 0x0A \<notin> set s"

lemma create_read:
  assumes "\<forall>t \<in> set fs. bare t" "fs \<noteq> []"
  shows "read_nmea (create src (join '','' fs)) = Some (src, fs)"
proof -
  obtain a b where ab: "talker_chars src = [a, b]" "talker_source (of_char a) (of_char b) = src" "a \<noteq> CHR ''*''" "b \<noteq> CHR ''*''"
    using talker_chars_read by metis
  have "CHR ''*'' \<notin> set (join '','' fs)" using assms(1) by (intro join_avoids) (auto simp: bare_def)
  then have once: "split_once CHR ''*'' (join '','' fs @ CHR ''*'' # t) = Some (join '','' fs, t)" for t by (rule split_once_append)
  have "split_on CHR '','' (join '','' fs) = fs" using assms by (intro split_on_join) (auto simp: bare_def)
  then show ?thesis by (simp add: create_def read_nmea_def ab once)
qed

subsection \<open>Texts without separators\<close>

named_theorems separators \<open>texts that can stand in a field\<close>

lemma bare_simps [separators]:
  "bare []" "bare (c # s) \<longleftrightarrow> c \<notin> {CHR '','', CHR ''*'', CHR 0x0A} \<and> bare s"
  "bare (s @ t) \<longleftrightarrow> bare s \<and> bare t"
  by (auto simp: bare_def)

lemma bare_subset: "set s \<subseteq> set t \<Longrightarrow> bare t \<Longrightarrow> bare s"
  by (auto simp: bare_def)

lemma bare_digits: "list_all is_digit s \<Longrightarrow> bare s"
  by (auto simp: bare_def list_all_iff is_digit_def)

lemma bare_shown [separators]: "bare (show_nat n)" "bare (show_padded w n)"
  by (simp_all add: bare_digits show_nat_digits show_padded_digits)

lemma bare_int [separators]: "bare (show_int_padded w x)"
  by (auto simp: show_int_padded_def Let_def separators)

lemma bare_pad [separators]: "bare s \<Longrightarrow> bare (pad_left CHR ''0'' w s)"
  by (auto simp: pad_left_def bare_def)

lemma split_on_subset: "t \<in> set (split_on c s) \<Longrightarrow> set t \<subseteq> set s"
  by (induction s arbitrary: t) (fastforce split: list.splits if_splits)+

lemma bare_date [separators]: "bare (nmea_date_string (format_date days))"
proof -
  have d: "bare (format_date days)" by (simp add: format_date_def separators split: prod.split)
  have "bare t" if "t \<in> set (split_on CHR ''.'' (format_date days))" for t
    using bare_subset [OF split_on_subset [OF that] d] .
  moreover have "bare (drop k t)" if "bare t" for k t
    using that set_drop_subset [of k t] by (rule bare_subset [rotated])
  ultimately show ?thesis by (simp add: nmea_date_string_def Let_def separators)
qed

lemma bare_time [separators]: "bare (cleanup_time (format_time tx s p z))"
proof -
  have f: "bare (format_time tx s p z)" by (simp add: format_time_def Let_def separators)
  have "set (cleanup_time t) \<subseteq> set t" for t
  proof -
    let ?s = "rev (dropWhile (\<lambda>c. c = CHR ''0'') (rev (filter (\<lambda>c. c \<noteq> CHR '':'') t)))"
    have "set ?s \<subseteq> set t" by (auto dest: set_dropWhileD)
    then show ?thesis unfolding cleanup_time_def Let_def using in_set_butlastD [of _ ?s] by (auto split: if_splits)
  qed
  then show ?thesis using f by (rule bare_subset)
qed

subsection \<open>The lines of the handlers\<close>

text \<open>Formatted numbers hold no separator: they are digits, a sign and a point, or one of the names of infinity and NaN.\<close>

definition fixed_plain :: "'f nmea_env \<Rightarrow> bool" where
  "fixed_plain e \<longleftrightarrow> (\<forall>p v. bare (tx_fixed (ne_tx e) p v))"

lemma fixed_bare: "fixed_plain e \<Longrightarrow> bare (fixed e p v)"
  by (simp add: fixed_plain_def fixed_def)

text \<open>The sentences a record of a kind can become.\<close>

primrec sentence_kinds :: "rate \<Rightarrow> string list list" where
  "sentence_kinds RateVesselHeading = [[], [''HDG''], [''HDT''], [''HDM'']]"
| "sentence_kinds RateWindData = [[], [''MWV'']]"
| "sentence_kinds RateWaterDepth = [[], [''DPT'']]"
| "sentence_kinds RateWaterSpeed = [[], [''VHW'']]"
| "sentence_kinds RateRudder = [[], [''RSA'']]"
| "sentence_kinds RateGpsSpeed = [[], [''VTG'']]"
| "sentence_kinds RateGpsDop = [[''GSA'']]"
| "sentence_kinds RateGpsPosition = [[], [''GLL'', ''RMC'']]"
| "sentence_kinds RateEnvironmental = [[], [''MTW'']]"
| "sentence_kinds RateDistanceLog = [[], [''VLW'']]"

definition lines_of :: "u8 \<Rightarrow> string list list \<Rightarrow> string list" where
  "lines_of src fss = map (\<lambda>fs. create src (join '','' fs)) fss"

definition lines_ok :: "u8 \<Rightarrow> string list list \<Rightarrow> string list \<Rightarrow> bool" where
  "lines_ok src kinds lines \<longleftrightarrow>
     (\<exists>fss. lines = lines_of src fss \<and> (\<forall>fs \<in> set fss. fs \<noteq> [] \<and> (\<forall>t \<in> set fs. bare t)) \<and> map hd fss \<in> set kinds)"

lemma lines_ok_intros:
  "[] \<in> set kinds \<Longrightarrow> lines_ok src kinds []"
  "[f] \<in> set kinds \<Longrightarrow> \<forall>t \<in> set (f # fs). bare t \<Longrightarrow> lines_ok src kinds [create src (join '','' (f # fs))]"
  "[f, g] \<in> set kinds \<Longrightarrow> \<forall>t \<in> set (f # fs @ g # gs). bare t \<Longrightarrow>
     lines_ok src kinds [create src (join '','' (f # fs)), create src (join '','' (g # gs))]"
proof -
  show "[] \<in> set kinds \<Longrightarrow> lines_ok src kinds []"
    unfolding lines_ok_def by (rule exI [of _ "[]"]) (simp add: lines_of_def)
  show "[f] \<in> set kinds \<Longrightarrow> \<forall>t \<in> set (f # fs). bare t \<Longrightarrow> lines_ok src kinds [create src (join '','' (f # fs))]"
    unfolding lines_ok_def by (rule exI [of _ "[f # fs]"]) (simp add: lines_of_def)
  show "[f, g] \<in> set kinds \<Longrightarrow> \<forall>t \<in> set (f # fs @ g # gs). bare t \<Longrightarrow>
     lines_ok src kinds [create src (join '','' (f # fs)), create src (join '','' (g # gs))]"
    unfolding lines_ok_def by (rule exI [of _ "[f # fs, g # gs]"]) (simp add: lines_of_def)
qed

lemma simple_handlers_ok:
  assumes "fixed_plain e"
  shows "lines_ok src (sentence_kinds RateRudder) (rudder e src d)"
    "lines_ok src (sentence_kinds RateWaterSpeed) (water_speed e src d)"
    "lines_ok src (sentence_kinds RateDistanceLog) (distance_log e src d)"
    "lines_ok src (sentence_kinds RateEnvironmental) (environmental e src d)"
    "lines_ok src (sentence_kinds RateWindData) (wind_data e src d)"
    "lines_ok src (sentence_kinds RateGpsSpeed) (fst (speed_course e now' src d rl))"
  using fixed_bare [OF assms]
  by (auto simp: rudder_def water_speed_def distance_log_def environmental_def wind_data_def speed_course_def Let_def separators
      intro!: lines_ok_intros split: option.split simp del: join.simps)

lemma water_depth_ok: "fixed_plain e \<Longrightarrow> lines_ok src (sentence_kinds RateWaterDepth) (water_depth e src d)"
  using fixed_bare [of e]
  by (auto simp: water_depth_def separators intro!: lines_ok_intros split: option.split simp del: join.simps)

lemma vessel_heading_ok: "fixed_plain e \<Longrightarrow> lines_ok src (sentence_kinds RateVesselHeading) (vessel_heading e src d)"
  using fixed_bare [of e]
  by (auto simp: vessel_heading_def east_west_def Let_def separators intro!: lines_ok_intros split: option.split simp del: join.simps)

lemma gps_dop_ok:
  assumes "fixed_plain e"
  shows "lines_ok src (sentence_kinds RateGpsDop) (gps_dop e src d)"
proof -
  have "bare [digit_char n]" if "n < 10" for n
    using bare_shown(1) [of n] that by (simp add: show_nat.simps)
  then show ?thesis
    using fixed_bare [OF assms] unfolding gps_dop_def Let_def append_Cons
    by (intro lines_ok_intros(2)) (auto simp: separators word_less_nat_alt split: option.split)
qed

lemma gnss_position_ok:
  assumes "fixed_plain e"
  shows "lines_ok src (sentence_kinds RateGpsPosition) (gnss_position e now' src d rl)"
proof -
  have "bare (position_time e d)" "bare (position_date e d)"
    by (simp_all add: position_time_def position_date_def separators split: option.split)
  then show ?thesis
    using fixed_bare [OF assms] unfolding gnss_position_def latlon_to_nmea_def Let_def prod.case
    by (auto simp: separators intro!: lines_ok_intros split: option.split simp del: join.simps)
qed

lemma nmea_handler_ok:
  "fixed_plain e \<Longrightarrow> lines_ok (dp_src d) (sentence_kinds r) (fst (nmea_handler e r now' d rl))"
  using simple_handlers_ok [of e "dp_src d"] water_depth_ok [of e "dp_src d" d] vessel_heading_ok [of e "dp_src d" d]
    gps_dop_ok [of e "dp_src d" d] gnss_position_ok [of e "dp_src d" now' d rl]
  by (cases r) (simp_all add: nmea_handler_def Let_def)

subsection \<open>Properties\<close>

lemma converted_lines:
  assumes "fixed_plain e" "convert_nmea0183 e now now' d rl = Some (lines, n, rl')" "\<not> is_ais_pgn (dp_pgn d)"
  obtains fss where "lines = lines_of (dp_src d) fss" "\<forall>fs \<in> set fss. fs \<noteq> [] \<and> (\<forall>t \<in> set fs. bare t)"
    "lines = [] \<or> (\<exists>r. nmea_rate e d = Some r \<and> map hd fss \<in> set (sentence_kinds r))" "n = (if lines = [] then 0 else 1)"
proof (cases "lines = []")
  case True
  then show ?thesis
    using that [of "[]"] assms(2,3) by (auto simp: convert_nmea0183_def lines_of_def Let_def split: option.splits prod.splits if_splits)
next
  case False
  then obtain r rl1 where r: "nmea_rate e d = Some r" "nmea_handler e r now' d rl1 = (lines, rl')" "n = 1"
    using assms(2,3) by (auto simp: convert_nmea0183_def Let_def split: option.splits prod.splits if_splits)
  then have "lines_ok (dp_src d) (sentence_kinds r) lines" using nmea_handler_ok [OF assms(1), of d r now' rl1] by simp
  then show ?thesis using that r False by (auto simp: lines_ok_def)
qed

text \<open>
  C14: Every line made of a record that is not AIS is accepted by a reader of NMEA 0183 that checks the checksum; its talker gives the
  source address back, and its sentence is one of those of the record's kind.
\<close>

theorem nmea_sentences_read:
  assumes "fixed_plain e" "convert_nmea0183 e now now' d rl = Some (lines, n, rl')" "\<not> is_ais_pgn (dp_pgn d)"
  shows "\<forall>l \<in> set lines. \<exists>fs r. read_nmea l = Some (dp_src d, fs) \<and> fs \<noteq> [] \<and> nmea_rate e d = Some r \<and>
    hd fs \<in> set (concat (sentence_kinds r))"
proof
  fix l
  assume l: "l \<in> set lines"
  obtain fss where F: "lines = lines_of (dp_src d) fss" "\<forall>fs \<in> set fss. fs \<noteq> [] \<and> (\<forall>t \<in> set fs. bare t)"
    "lines = [] \<or> (\<exists>r. nmea_rate e d = Some r \<and> map hd fss \<in> set (sentence_kinds r))"
    by (rule converted_lines [OF assms])
  obtain fs where fs: "fs \<in> set fss" "l = create (dp_src d) (join '','' fs)" using l unfolding F(1) lines_of_def by auto
  obtain r where r: "nmea_rate e d = Some r" "map hd fss \<in> set (sentence_kinds r)" using F(3) l by auto
  have "read_nmea l = Some (dp_src d, fs)" unfolding fs(2) by (rule create_read) (use F(2) fs(1) in auto)
  moreover have "hd fs \<in> set (map hd fss)" using fs(1) by simp
  ultimately show "\<exists>fs r. read_nmea l = Some (dp_src d, fs) \<and> fs \<noteq> [] \<and> nmea_rate e d = Some r \<and>
      hd fs \<in> set (concat (sentence_kinds r))"
    using F(2) fs(1) r by (intro exI [of _ fs] exI [of _ r]) (auto simp del: set_map)
qed

subsection \<open>Through the filter\<close>

definition line_bytes :: "string \<Rightarrow> u8 list" where
  "line_bytes s = map (\<lambda>c. word_of_nat (of_char c)) s"

lemma split_lines_line: "10 \<notin> set s \<Longrightarrow> split_lines (s @ 10 # r) = (s @ [10]) # split_lines r"
  by (induction s) auto

lemma line_bytes_newline: "CHR 0x0A \<notin> set s \<Longrightarrow> 10 \<notin> set (line_bytes s)"
proof
  assume "CHR 0x0A \<notin> set s" "10 \<in> set (line_bytes s)"
  then obtain c where c: "c \<in> set s" "word_of_nat (of_char c) = (10 :: u8)" by (auto simp: line_bytes_def)
  have "(of_char c :: nat) < 256" by simp
  then have "(of_char c :: nat) = unat (word_of_nat (of_char c) :: u8)" by (simp add: unat_of_nat)
  then have "(of_char c :: nat) = of_char (CHR 0x0A)" using c(2) by simp
  then show False using c(1) \<open>CHR 0x0A \<notin> set s\<close> by (metis of_char_eq_iff)
qed

definition FORMATTERS :: "string list" where
  "FORMATTERS = [''HDG'', ''HDT'', ''HDM'', ''MWV'', ''DPT'', ''VHW'', ''RSA'', ''VTG'', ''GSA'', ''GLL'', ''RMC'', ''MTW'', ''VLW'']"

lemma kinds_formatters: "fs \<in> set (sentence_kinds r) \<Longrightarrow> f \<in> set fs \<Longrightarrow> f \<in> set FORMATTERS"
  by (cases r) (auto simp: FORMATTERS_def)

lemma formatter_found:
  assumes "f \<in> set FORMATTERS" "c = 44 \<or> c = 42"
  shows "sentence_formatter (36 # a # b # line_bytes f @ c # r) = Some (line_bytes f)"
  using assms by (auto simp: FORMATTERS_def line_bytes_def sentence_formatter_def char_boundary_def)

lemma created_line:
  assumes "\<forall>t \<in> set fs. bare t" "fs \<noteq> []" "hd fs \<in> set FORMATTERS"
  obtains s where "line_bytes (create src (join '','' fs)) = s @ [10]" "10 \<notin> set s"
    "sentence_formatter (s @ [10]) = Some (line_bytes (hd fs))"
proof -
  obtain a b where ab: "talker_chars src = [a, b]" "65 \<le> (of_char a :: nat) \<and> (of_char a :: nat) \<le> 81" "65 \<le> (of_char b :: nat) \<and> (of_char b :: nat) \<le> 80"
    using talker_chars_read by metis
  define body tail where "body = join '','' fs" and "tail = CHR ''*'' # show_byte True (checksum_byte (a # b # body)) @ [CHR 0x0D]"
  let ?t = "CHR ''$'' # a # b # body @ tail"
  have "CHR 0x0A \<notin> set body" unfolding body_def using assms(1) by (intro join_avoids) (auto simp: bare_def)
  moreover have "CHR 0x0A \<notin> set (show_byte True k)" for k
    using show_hex_padded_digits [of True 2 "unat k"] by (auto simp: show_byte_def list_all_iff is_hex_def hex_value_def)
  moreover have "a \<noteq> CHR 0x0A" "b \<noteq> CHR 0x0A" using ab(2,3) by auto
  ultimately have no: "10 \<notin> set (line_bytes ?t)" by (intro line_bytes_newline) (auto simp: tail_def)
  have line: "line_bytes (create src (join '','' fs)) = line_bytes ?t @ [10]"
    by (simp add: create_def Let_def ab(1) tail_def body_def line_bytes_def)
  obtain f gs where fs: "fs = f # gs" using assms(2) by (cases fs) auto
  have "\<exists>c r. body @ tail = f @ c # r \<and> c \<in> {CHR '','', CHR ''*''}"
    by (cases gs) (auto simp: body_def fs tail_def)
  then obtain c r where "body @ tail = f @ c # r" "c \<in> {CHR '','', CHR ''*''}" by blast
  then have "line_bytes ?t @ [10] = 36 # word_of_nat (of_char a) # word_of_nat (of_char b) # line_bytes f @
      word_of_nat (of_char c) # line_bytes r @ [10]" "word_of_nat (of_char c) \<in> {44, 42 :: u8}"
    by (auto simp: line_bytes_def)
  then have "sentence_formatter (line_bytes ?t @ [10]) = Some (line_bytes (hd fs))"
    using formatter_found [of f] assms(3) fs by auto
  then show ?thesis using that no line by blast
qed

text \<open>
  C12: The lines of a record, run through the filter for its source, come out by the NAME of the source.  Under a rule that mutes the
  device all are dropped.  Otherwise those whose sentence, as a reader finds it, the rule of that NAME mutes are dropped, and the others
  go through in their order, byte for byte.  Without a learned NAME all are dropped, once the filter has a rule; the case of a source
  without a NAME under a filter without rules is left out, since the code passes its lines although the module comment says that it
  stays silent.
\<close>

theorem filtered_sentences:
  assumes "fixed_plain e" "convert_nmea0183 e now now' d rl = Some (lines, n, rl')" "\<not> is_ais_pgn (dp_pgn d)"
    and "nf_src_name f (dp_src d) \<noteq> None \<or> nf_rules f \<noteq> []"
  shows "snd (filter_apply (dp_src d) (concat (map line_bytes lines)) f) =
    (case nf_src_name f (dp_src d) of
       None \<Rightarrow> []
     | Some nm \<Rightarrow>
         if ru_muted (rule_of f nm) then []
         else concat (map line_bytes
           (filter (\<lambda>l. \<not> (\<exists>fs. read_nmea l = Some (dp_src d, fs) \<and> line_bytes (hd fs) \<in> set (ru_sentences (rule_of f nm)))) lines)))"
proof -
  obtain fss where F: "lines = lines_of (dp_src d) fss" "\<forall>fs \<in> set fss. fs \<noteq> [] \<and> (\<forall>t \<in> set fs. bare t)"
    "lines = [] \<or> (\<exists>r. nmea_rate e d = Some r \<and> map hd fss \<in> set (sentence_kinds r))"
    by (rule converted_lines [OF assms(1-3)])
  have hd: "hd fs \<in> set FORMATTERS" if "fs \<in> set fss" for fs
    using F(1,3) that kinds_formatters by (fastforce simp: lines_of_def)
  have ok: "split_lines (line_bytes l @ r) = line_bytes l # split_lines r"
    "muted_line muted (line_bytes l) \<longleftrightarrow> (\<exists>fs. read_nmea l = Some (dp_src d, fs) \<and> line_bytes (hd fs) \<in> set muted)"
    if "l \<in> set lines" for l r muted
  proof -
    note l = that
    obtain fs where fs: "fs \<in> set fss" "l = create (dp_src d) (join '','' fs)" using l unfolding F(1) lines_of_def by auto
    have P: "\<forall>t \<in> set fs. bare t" "fs \<noteq> []" using F(2) fs(1) by blast+
    obtain s where s: "line_bytes l = s @ [10]" "10 \<notin> set s" "sentence_formatter (s @ [10]) = Some (line_bytes (hd fs))"
      unfolding fs(2) by (rule created_line [OF P hd [OF fs(1)]])
    have read: "read_nmea l = Some (dp_src d, fs)" unfolding fs(2) by (rule create_read [OF P])
    show "split_lines (line_bytes l @ r) = line_bytes l # split_lines r" using split_lines_line [OF s(2)] by (simp add: s(1))
    show "muted_line muted (line_bytes l) \<longleftrightarrow> (\<exists>fs. read_nmea l = Some (dp_src d, fs) \<and> line_bytes (hd fs) \<in> set muted)"
      by (simp add: muted_line_def s read)
  qed
  have "split_lines (concat (map line_bytes ls)) = map line_bytes ls" if "set ls \<subseteq> set lines" for ls
    using that by (induction ls) (simp_all add: ok(1))
  then have out: "snd (filter_apply (dp_src d) (concat (map line_bytes lines)) f) =
      concat (map line_bytes (filter (\<lambda>l. \<not> dropped f (dp_src d) (line_bytes l)) lines))"
    by (simp add: filter_apply_output filter_map comp_def)
  have kept: "filter (\<lambda>l. \<not> dropped f (dp_src d) (line_bytes l)) lines =
      filter (\<lambda>l. \<not> (\<exists>fs. read_nmea l = Some (dp_src d, fs) \<and> line_bytes (hd fs) \<in> set muted)) lines"
    if "decide f (dp_src d) = Keep muted" for muted
    by (rule filter_cong [OF refl]) (simp only: ok(2) dropped_def that decision.case)
  show ?thesis
  proof (cases "nf_src_name f (dp_src d)")
    case None
    then have "decide f (dp_src d) = DropAll" using assms(4) by (cases "nf_rules f") (simp_all add: decide_def)
    then show ?thesis unfolding out by (simp add: dropped_def None)
  next
    case (Some nm)
    show ?thesis
    proof (cases "ru_muted (rule_of f nm)")
      case True
      then show ?thesis unfolding out using decide_known [OF Some] by (simp add: dropped_def Some)
    next
      case False
      with decide_known [OF Some] have "decide f (dp_src d) = Keep (ru_sentences (rule_of f nm))" by simp
      from kept [OF this] show ?thesis unfolding out by (simp add: Some False)
    qed
  qed
qed

subsection \<open>A second between sentences\<close>

text \<open>A run of conversions: what became of each record, with the clock at its gate.\<close>

fun nmea_run :: "'f nmea_env \<Rightarrow> (int \<times> int \<times> 'f decoded_pgn) list \<Rightarrow> 'f rate_limiter \<Rightarrow> string list list" where
  "nmea_run e [] rl = []"
| "nmea_run e ((now, now', d) # evs) rl =
     (case convert_nmea0183 e now now' d rl of
        None \<Rightarrow> []
      | Some (lines, n, rl) \<Rightarrow> lines # nmea_run e evs rl)"

text \<open>The stamp of a source and kind.\<close>

abbreviation stamp_of :: "'f rate_limiter \<Rightarrow> u8 \<Rightarrow> rate \<Rightarrow> int option" where
  "stamp_of rl src r \<equiv> rl_last_passed rl (unat src) (rate_index r)"

lemma rate_index_inj: "rate_index r = rate_index s \<Longrightarrow> r = s"
  by (cases r; cases s) simp_all

lemma handler_keeps_gate:
  "rl_last_passed (snd (nmea_handler e r now' d rl)) = rl_last_passed rl" "rl_enabled (snd (nmea_handler e r now' d rl)) = rl_enabled rl"
  by (cases r; simp add: nmea_handler_def speed_course_def record_sog_cog_def Let_def split: option.split)+

lemma converted_stamp:
  assumes "convert_nmea0183 e now now' d rl = Some (lines, n, rl')" "rl_enabled rl"
  shows "rl_enabled rl'" "stamp_of rl' src r = stamp_of rl src r \<or> stamp_of rl' src r = Some now"
    "\<not> is_ais_pgn (dp_pgn d) \<Longrightarrow> nmea_rate e d = Some r \<Longrightarrow> lines \<noteq> [] \<Longrightarrow>
       stamp_of rl' (dp_src d) r = Some now \<and> (\<forall>t. stamp_of rl (dp_src d) r = Some t \<longrightarrow> ONE_SECOND \<le> now - t)"
proof -
  have "rl_enabled rl' \<and> (stamp_of rl' src r = stamp_of rl src r \<or> stamp_of rl' src r = Some now) \<and>
    (\<not> is_ais_pgn (dp_pgn d) \<longrightarrow> nmea_rate e d = Some r \<longrightarrow> lines \<noteq> [] \<longrightarrow>
       stamp_of rl' (dp_src d) r = Some now \<and> (\<forall>t. stamp_of rl (dp_src d) r = Some t \<longrightarrow> ONE_SECOND \<le> now - t))"
  proof (cases "is_ais_pgn (dp_pgn d)")
    case True
    then show ?thesis using assms by (auto simp: convert_nmea0183_def)
  next
    case False
    show ?thesis
    proof (cases "nmea_rate e d")
      case None
      then show ?thesis using assms False by (simp add: convert_nmea0183_def)
    next
      case (Some s)
      obtain drop rl1 where g: "should_drop_fast now (dp_src d) s rl = (drop, rl1)" by fastforce
      show ?thesis
      proof (cases drop)
        case True
        then show ?thesis using assms False Some g by (auto simp: convert_nmea0183_def should_drop_fast_def split: if_splits)
      next
        case passed: False
        then have "rl' = snd (nmea_handler e s now' d rl1)" using assms(1) False Some g by (auto simp: convert_nmea0183_def Let_def split: prod.splits)
        then have rl': "rl_last_passed rl' = rl_last_passed rl1" "rl_enabled rl' = rl_enabled rl1" using handler_keeps_gate [of e s now' d rl1] by simp_all
        have open_gate: "\<not> (case stamp_of rl (dp_src d) s of Some prev \<Rightarrow> elapsed now prev < ONE_SECOND | None \<Rightarrow> False)"
          "rl1 = rl\<lparr>rl_last_passed := (rl_last_passed rl)(unat (dp_src d) := (rl_last_passed rl (unat (dp_src d)))(rate_index s := Some now))\<rparr>"
          using g passed assms(2) by (auto simp: should_drop_fast_def split: if_splits)
        then have "\<forall>t. stamp_of rl (dp_src d) s = Some t \<longrightarrow> ONE_SECOND \<le> now - t"
          by (auto simp: elapsed_def ONE_SECOND_def split: option.splits)
        then show ?thesis unfolding rl' open_gate(2) using assms(2) Some by (auto dest: rate_index_inj)
      qed
    qed
  qed
  then show "rl_enabled rl'" "stamp_of rl' src r = stamp_of rl src r \<or> stamp_of rl' src r = Some now"
    "\<not> is_ais_pgn (dp_pgn d) \<Longrightarrow> nmea_rate e d = Some r \<Longrightarrow> lines \<noteq> [] \<Longrightarrow>
       stamp_of rl' (dp_src d) r = Some now \<and> (\<forall>t. stamp_of rl (dp_src d) r = Some t \<longrightarrow> ONE_SECOND \<le> now - t)"
    by blast+
qed

lemma length_nmea_run: "length (nmea_run e evs rl) \<le> length evs"
  by (induction e evs rl rule: nmea_run.induct) (auto split: option.split)

text \<open>Once a stamp is at least \<open>t\<close>, later sentences of that source and kind come a second after \<open>t\<close>.\<close>

lemma stamped_spacing:
  assumes "rl_enabled rl" "stamp_of rl src r = Some p" "t \<le> p" "\<forall>ev \<in> set evs. t \<le> fst ev"
    and "j < length (nmea_run e evs rl)" "nmea_run e evs rl ! j \<noteq> []" "evs ! j = (now, now', d)"
    and "dp_src d = src" "nmea_rate e d = Some r" "\<not> is_ais_pgn (dp_pgn d)"
  shows "ONE_SECOND \<le> now - t"
  using assms
proof (induction e evs rl arbitrary: j p rule: nmea_run.induct)
  case (2 e now0 now0' d0 evs rl)
  obtain lines n rl' where C: "convert_nmea0183 e now0 now0' d0 rl = Some (lines, n, rl')"
    using "2.prems"(5) by (auto split: option.splits)
  note S = converted_stamp [OF C "2.prems"(1)]
  show ?case
  proof (cases j)
    case 0
    then show ?thesis using S(3) [of r] "2.prems" C by auto
  next
    case (Suc i)
    obtain q where "stamp_of rl' src r = Some q" "t \<le> q" using S(2) [of src r] "2.prems"(2-4) by fastforce
    then show ?thesis using "2.IH" [OF C refl refl S(1), of q i] "2.prems" C Suc by simp
  qed
qed simp

text \<open>
  C13: with the limiter on, two sentences of one source and one kind never come less than a second apart, whatever else is converted in
  between, on a clock that does not go back.
\<close>

theorem sentences_rate_limited:
  assumes "rl_enabled rl" "sorted (map fst evs)" "i < j" "j < length (nmea_run e evs rl)"
    and "evs ! i = (now1, now1', d1)" "evs ! j = (now2, now2', d2)"
    and "nmea_run e evs rl ! i \<noteq> []" "nmea_run e evs rl ! j \<noteq> []"
    and "dp_src d2 = dp_src d1" "nmea_rate e d1 = Some r" "nmea_rate e d2 = Some r"
    and "\<not> is_ais_pgn (dp_pgn d1)" "\<not> is_ais_pgn (dp_pgn d2)"
  shows "now2 - now1 \<ge> ONE_SECOND"
  using assms
proof (induction e evs rl arbitrary: i j rule: nmea_run.induct)
  case (2 e now0 now0' d0 evs rl)
  obtain lines n rl' where C: "convert_nmea0183 e now0 now0' d0 rl = Some (lines, n, rl')"
    using "2.prems"(4) by (auto split: option.splits)
  note S = converted_stamp [OF C "2.prems"(1)]
  obtain k where k: "j = Suc k" using "2.prems"(3) by (cases j) auto
  show ?case
  proof (cases i)
    case 0
    then have first: "now0 = now1" "d0 = d1" "lines \<noteq> []" using "2.prems" C by auto
    then have "stamp_of rl' (dp_src d1) r = Some now1" using S(3) [of r] "2.prems" by blast
    then show ?thesis
      using stamped_spacing [of rl' "dp_src d1" r now1 now1 evs k e now2 now2' d2] S(1) "2.prems" C k first by auto
  next
    case (Suc l)
    then show ?thesis using "2.IH" [OF C refl refl S(1), of l k] "2.prems" C k by simp
  qed
qed simp

subsection \<open>A rudder\<close>

text \<open>A rudder at \<open>-7\<close> of source 17, on a limiter that is on, and a filter that mutes its sentence.\<close>

definition nmea_demo_env :: "int nmea_env" where
  "nmea_demo_env = \<lparr>ne_ais = ais_demo_env\<lparr>ae_field := (\<lambda>_ c. demo_field 1 c 8 0 FtNumber)\<rparr>, ne_floor = (\<lambda>x. x), ne_neg = uminus\<rparr>"

definition rudder_record :: "int decoded_pgn" where
  "rudder_record = demo_record\<lparr>dp_pgn := 127245, dp_id := ''RUDDER'', dp_index_by_order := [0]\<rparr>"

definition rudder_line :: string where
  "rudder_line = ''$BBRSA,7,A,,F*70'' @ [CHR 0x0D, CHR 0x0A]"

definition rudder_filter :: nmea_filter where
  "rudder_filter = fst (filter_set 17 [82, 83, 65] True (note_address_claim 17 0x77 demo_filter))"

lemma nmea_demo_plain: "fixed_plain nmea_demo_env"
  by (simp add: fixed_plain_def nmea_demo_env_def ais_demo_env_def demo_text_def bare_int)

lemma rudder_facts:
  "fst (the (convert_nmea0183 nmea_demo_env 0 0 rudder_record (rate_limiter_new True))) = [rudder_line]"
  "is_ais_pgn (dp_pgn rudder_record) = False" "dp_src rudder_record = 17" "nmea_rate nmea_demo_env rudder_record = Some RateRudder"
  "nmea_run nmea_demo_env [(0, 0, rudder_record), (1500000000, 1500000000, rudder_record)] (rate_limiter_new True) = [[rudder_line], [rudder_line]]"
  "read_nmea rudder_line = Some (17, [''RSA'', ''7'', ''A'', '''', ''F''])"
  "decide rudder_filter 17 = Keep [[82, 83, 65]]" "line_bytes ''RSA'' = [82, 83, 65]"
  by code_simp+

lemma rudder_rule: "nf_src_name rudder_filter 17 = Some 0x77" "rule_of rudder_filter 0x77 = \<lparr>ru_muted = False, ru_sentences = [[82, 83, 65]]\<rparr>"
  by code_simp+

lemma rudder_converted:
  obtains n rl where "convert_nmea0183 nmea_demo_env 0 0 rudder_record (rate_limiter_new True) = Some ([rudder_line], n, rl)"
proof -
  have "convert_nmea0183 nmea_demo_env 0 0 rudder_record (rate_limiter_new True) \<noteq> None"
    using rudder_facts(2,4) by (auto simp: convert_nmea0183_def Let_def split: prod.split)
  then show ?thesis using that rudder_facts(1) by (cases "the (convert_nmea0183 nmea_demo_env 0 0 rudder_record (rate_limiter_new True))") auto
qed

theorem nmea_sentences_read_witness:
  "\<exists>n rl. convert_nmea0183 nmea_demo_env 0 0 rudder_record (rate_limiter_new True) = Some ([rudder_line], n, rl) \<and>
    (\<exists>fs. read_nmea rudder_line = Some (17, fs) \<and> fs \<noteq> [])"
proof -
  obtain n rl where C: "convert_nmea0183 nmea_demo_env 0 0 rudder_record (rate_limiter_new True) = Some ([rudder_line], n, rl)"
    by (rule rudder_converted)
  have "\<not> is_ais_pgn (dp_pgn rudder_record)" using rudder_facts(2) by simp
  from nmea_sentences_read [OF nmea_demo_plain C this]
  have "\<exists>fs. read_nmea rudder_line = Some (17, fs) \<and> fs \<noteq> []" by (simp add: rudder_facts(3)) blast
  then show ?thesis using C by blast
qed

theorem filtered_sentences_witness: "snd (filter_apply 17 (line_bytes rudder_line) rudder_filter) = []"
proof -
  obtain n rl where C: "convert_nmea0183 nmea_demo_env 0 0 rudder_record (rate_limiter_new True) = Some ([rudder_line], n, rl)"
    by (rule rudder_converted)
  have "\<not> is_ais_pgn (dp_pgn rudder_record)" using rudder_facts(2) by simp
  from filtered_sentences [OF nmea_demo_plain C this, of rudder_filter] show ?thesis
    using rudder_rule by (simp add: rudder_facts)
qed

theorem sentences_rate_limited_witness: "(1500000000 :: int) - 0 \<ge> ONE_SECOND"
proof -
  let ?evs = "[(0, 0, rudder_record), (1500000000, 1500000000, rudder_record)]"
  have "rudder_line \<noteq> []" "rl_enabled (rate_limiter_new True)" by (simp_all add: rudder_line_def rate_limiter_new_def)
  then show ?thesis
    using sentences_rate_limited [of "rate_limiter_new True" ?evs 0 1 nmea_demo_env 0 0 rudder_record 1500000000 1500000000 rudder_record RateRudder]
    by (simp add: rudder_facts del: nmea_run.simps)
qed

end
