(* ===== verification/Overrides.thy ===== *)
theory Overrides
  imports Nmea_Filter Schema Gateway_Answers Decode
begin

section \<open>Transmission intervals the server keeps (canboat-bridge/src/n2kd/overrides.rs)\<close>

text \<open>
  \<open>OverrideEngine\<close>: the intervals asked of devices, keyed by NAME and PGN, the NAME learned for each source, and the source each NAME was
  last sent its overrides at.  A \<open>HashMap\<close> that is iterated is an association list, and \<open>iter\<close> is the order of an iteration, which the code
  does not fix; one that is only looked up is a function.  The file is read and written with serde\_json: its rows are modelled.
\<close>

subsection \<open>Control messages\<close>

definition PGN_PGN_OVERRIDE :: u32 where "PGN_PGN_OVERRIDE = 262658"
definition OV_FN_REPORT :: u8 where "OV_FN_REPORT = 0"
definition OV_FN_SET :: u8 where "OV_FN_SET = 1"
definition OV_FN_REQUEST :: u8 where "OV_FN_REQUEST = 2"
definition OV_FN_DELETE :: u8 where "OV_FN_DELETE = 3"
definition PGN_REQUEST_GROUP_FUNCTION :: u32 where "PGN_REQUEST_GROUP_FUNCTION = 126208"
definition LOCAL_SRC :: u8 where "LOCAL_SRC = 0"
definition OFFSET_DONT_CHANGE :: u16 where "OFFSET_DONT_CHANGE = 0xFFFF"
definition MFR_NA :: u16 where "MFR_NA = 0xFFFF"
definition IND_NA :: u8 where "IND_NA = 0xFF"

definition override_frame_of :: "u8 \<Rightarrow> raw_frame \<Rightarrow> bool" where
  "override_frame_of fn f \<longleftrightarrow> rf_pgn f = PGN_PGN_OVERRIDE \<and> rf_data f \<noteq> [] \<and> hd (rf_data f) = fn"

definition ov_is_set_frame :: "raw_frame \<Rightarrow> bool" where "ov_is_set_frame = override_frame_of OV_FN_SET"
definition ov_is_request_frame :: "raw_frame \<Rightarrow> bool" where "ov_is_request_frame = override_frame_of OV_FN_REQUEST"
definition ov_is_delete_frame :: "raw_frame \<Rightarrow> bool" where "ov_is_delete_frame = override_frame_of OV_FN_DELETE"

record override =
  ov_interval_ms :: u32
  ov_manufacturer_code :: "u16 option"
  ov_industry_code :: "u8 option"
  ov_description :: "string option"

record file_entry =
  fe_name :: string
  fe_pgn :: u32
  fe_ov :: override

record override_engine =
  oe_src_name :: "u8 \<Rightarrow> u64 option"
  oe_rules :: "(u64 \<times> (u32 \<times> override) list) list"
  oe_replayed :: "u64 \<Rightarrow> u8 option"

record control =
  ct_src :: u8
  ct_pgn :: u32
  ct_interval_ms :: u32
  ct_manufacturer_code :: "u16 option"
  ct_industry_code :: "u8 option"

definition parse_control :: "u8 list \<Rightarrow> control option" where
  "parse_control data =
     (if length data < 12 then None
      else let pgn = ucast (data ! 2) OR push_bit 8 (ucast (data ! 3)) OR push_bit 16 (ucast (data ! 4));
               interval = from_le [data ! 5, data ! 6, data ! 7, data ! 8];
               mfr = from_le [data ! 9, data ! 10];
               industry = data ! 11
           in Some \<lparr>ct_src = data ! 1, ct_pgn = pgn, ct_interval_ms = interval,
                ct_manufacturer_code = (if mfr \<noteq> MFR_NA then Some mfr else None),
                ct_industry_code = (if industry \<noteq> IND_NA then Some industry else None)\<rparr>)"

definition report_frame :: "string option \<Rightarrow> u8 \<Rightarrow> u32 \<Rightarrow> u32 \<Rightarrow> override \<Rightarrow> raw_frame" where
  "report_frame timestamp src pgn interval_ms ov =
     (let mfr = or_default MFR_NA (ov_manufacturer_code ov); ind = or_default IND_NA (ov_industry_code ov) in
      raw_frame_new timestamp 7 PGN_PGN_OVERRIDE LOCAL_SRC 255
        ([OV_FN_REPORT, src] @ take 3 (le_bytes 4 pgn) @ le_bytes 4 interval_ms @ le_bytes 2 mfr @ [ind]))"

definition request_interval_frame :: "u8 \<Rightarrow> u32 \<Rightarrow> u32 \<Rightarrow> u16 option \<Rightarrow> u8 option \<Rightarrow> raw_frame" where
  "request_interval_frame dst pgn interval_ms mfr industry =
     raw_frame_new None 3 PGN_REQUEST_GROUP_FUNCTION LOCAL_SRC dst
       ([0x00] @ take 3 (le_bytes 4 pgn) @ le_bytes 4 interval_ms @ le_bytes 2 OFFSET_DONT_CHANGE @
        (case (mfr, industry) of
           (Some m, Some i) \<Rightarrow> [2, 1] @ le_bytes 2 (m AND 0x07FF) @ [3, i AND 0x07]
         | _ \<Rightarrow> [0]))"

subsection \<open>The engine\<close>

definition parse_name :: "string \<Rightarrow> u64 option" where
  "parse_name s = map_option word_of_nat (parse_hex (2 ^ 64 - 1) (trim_start_0x s))"

definition pgn_rules :: "override_engine \<Rightarrow> u64 \<Rightarrow> (u32 \<times> override) list" where
  "pgn_rules e nm = or_default [] (map_of (oe_rules e) nm)"

definition insert_rule :: "u64 \<Rightarrow> u32 \<Rightarrow> override \<Rightarrow> override_engine \<Rightarrow> override_engine" where
  "insert_rule nm pgn ov e = e\<lparr>oe_rules := AList.update nm (AList.update pgn ov (pgn_rules e nm)) (oe_rules e)\<rparr>"

text \<open>The engine over the rows of the file, if there is one.\<close>

definition engine_load :: "file_entry list option \<Rightarrow> override_engine" where
  "engine_load stored =
     foldl (\<lambda>e r. case parse_name (fe_name r) of Some nm \<Rightarrow> insert_rule nm (fe_pgn r) (fe_ov r) e | None \<Rightarrow> e)
       \<lparr>oe_src_name = (\<lambda>_. None), oe_rules = [], oe_replayed = (\<lambda>_. None)\<rparr> (or_default [] stored)"

text \<open>The rows written after every edit.\<close>

definition engine_rows :: "override_engine \<Rightarrow> file_entry list" where
  "engine_rows e =
     sort_key (\<lambda>r. (map of_char (fe_name r) :: nat list, fe_pgn r))
       (concat (map (\<lambda>(nm, pgns). map (\<lambda>(pgn, ov). \<lparr>fe_name = show_hex_padded False 16 (unat nm), fe_pgn = pgn, fe_ov = ov\<rparr>) pgns)
          (oe_rules e)))"

definition override_request :: "u8 \<Rightarrow> u32 \<times> override \<Rightarrow> raw_frame" where
  "override_request src r =
     request_interval_frame src (fst r) (ov_interval_ms (snd r)) (ov_manufacturer_code (snd r)) (ov_industry_code (snd r))"

definition ov_note_address_claim ::
  "((u32 \<times> override) list \<Rightarrow> (u32 \<times> override) list) \<Rightarrow> u8 \<Rightarrow> u64 \<Rightarrow> override_engine \<Rightarrow> override_engine \<times> raw_frame list" where
  "ov_note_address_claim iter src nm e =
     (let e = e\<lparr>oe_src_name := (oe_src_name e)(src := Some nm)\<rparr> in
      if oe_replayed e nm = Some src then (e, [])
      else let e = e\<lparr>oe_replayed := (oe_replayed e)(nm := Some src)\<rparr> in
           (e, case map_of (oe_rules e) nm of
                 Some pgns \<Rightarrow> map (override_request src) (iter pgns)
               | None \<Rightarrow> []))"

definition pgn_description :: "'f pgn_database \<Rightarrow> u32 \<Rightarrow> string option" where
  "pgn_description db pgn = map_option pg_description (first_pgn db pgn)"

definition ov_apply_set_frame :: "'f pgn_database \<Rightarrow> u8 list \<Rightarrow> override_engine \<Rightarrow> override_engine \<times> raw_frame option" where
  "ov_apply_set_frame db data e =
     (case parse_control data of
        None \<Rightarrow> (e, None)
      | Some c \<Rightarrow>
          (case oe_src_name e (ct_src c) of
             None \<Rightarrow> (e, None)
           | Some nm \<Rightarrow>
               (let ov = \<lparr>ov_interval_ms = ct_interval_ms c, ov_manufacturer_code = ct_manufacturer_code c,
                          ov_industry_code = ct_industry_code c, ov_description = pgn_description db (ct_pgn c)\<rparr>;
                    e = insert_rule nm (ct_pgn c) ov e;
                    e = e\<lparr>oe_replayed := (oe_replayed e)(nm := Some (ct_src c))\<rparr>
                in (e, Some (request_interval_frame (ct_src c) (ct_pgn c) (ct_interval_ms c)
                          (ct_manufacturer_code c) (ct_industry_code c))))))"

definition ov_remove :: "u64 \<Rightarrow> u32 \<Rightarrow> override_engine \<Rightarrow> override_engine \<times> bool" where
  "ov_remove nm pgn e =
     (case map_of (oe_rules e) nm of
        None \<Rightarrow> (e, False)
      | Some pgns \<Rightarrow>
          if map_of pgns pgn = None then (e, False)
          else let pgns = AList.delete pgn pgns in
               (e\<lparr>oe_rules := (if pgns = [] then AList.delete nm (oe_rules e) else AList.update nm pgns (oe_rules e))\<rparr>, True))"

definition ov_apply_delete_frame :: "u8 list \<Rightarrow> override_engine \<Rightarrow> override_engine" where
  "ov_apply_delete_frame data e =
     (case parse_control data of
        None \<Rightarrow> e
      | Some c \<Rightarrow> (case oe_src_name e (ct_src c) of None \<Rightarrow> e | Some nm \<Rightarrow> fst (ov_remove nm (ct_pgn c) e)))"

definition note_nak :: "u8 \<Rightarrow> u32 \<Rightarrow> override_engine \<Rightarrow> override_engine \<times> bool" where
  "note_nak src acked_pgn e = (case oe_src_name e src of None \<Rightarrow> (e, False) | Some nm \<Rightarrow> ov_remove nm acked_pgn e)"

text \<open>The source each NAME is reported under: the first that holds it.\<close>

definition name_source :: "override_engine \<Rightarrow> u64 \<Rightarrow> u8 option" where
  "name_source e nm = find (\<lambda>s. oe_src_name e s = Some nm) (map word_of_nat [0..<256])"

definition report_rows :: "override_engine \<Rightarrow> (u8 \<times> u32 \<times> override) list" where
  "report_rows e =
     sort_key (\<lambda>(src, pgn, ov). (src, pgn))
       (concat (map (\<lambda>(nm, pgns). case name_source e nm of None \<Rightarrow> [] | Some src \<Rightarrow> map (\<lambda>(pgn, ov). (src, pgn, ov)) pgns)
          (oe_rules e)))"

definition ov_report_frames :: "string option \<Rightarrow> override_engine \<Rightarrow> raw_frame list" where
  "ov_report_frames timestamp e = map (\<lambda>(src, pgn, ov). report_frame timestamp src pgn (ov_interval_ms ov) ov) (report_rows e)"

subsection \<open>Lookups\<close>

definition rule_at :: "override_engine \<Rightarrow> u64 \<Rightarrow> u32 \<Rightarrow> override option" where
  "rule_at e nm pgn = map_of (pgn_rules e nm) pgn"

definition engine_wf :: "override_engine \<Rightarrow> bool" where
  "engine_wf e \<longleftrightarrow> distinct (map fst (oe_rules e)) \<and> (\<forall>nm. distinct (map fst (pgn_rules e nm)))"

lemma rule_at_insert [simp]:
  "rule_at (insert_rule nm pgn ov e) nm' pgn' = (if nm' = nm \<and> pgn' = pgn then Some ov else rule_at e nm' pgn')"
  by (simp add: rule_at_def insert_rule_def pgn_rules_def update_conv or_default_def)

text \<open>Both cases of a removal leave the same lookups: a NAME without rules is looked up as one with none.\<close>

lemma pgn_rules_remove:
  "pgn_rules (fst (ov_remove nm pgn e)) nm' = (if nm' = nm then AList.delete pgn (pgn_rules e nm) else pgn_rules e nm')"
proof (cases "map_of (oe_rules e) nm")
  case None
  then show ?thesis by (simp add: ov_remove_def pgn_rules_def or_default_def)
next
  case (Some pgns)
  moreover have "AList.delete pgn pgns = pgns" if "map_of pgns pgn = None" using that by (simp add: map_of_eq_None_iff)
  ultimately show ?thesis by (auto simp: ov_remove_def pgn_rules_def update_conv delete_conv or_default_def Let_def)
qed

lemma rule_at_remove [simp]:
  "rule_at (fst (ov_remove nm pgn e)) nm' pgn' = (if nm' = nm \<and> pgn' = pgn then None else rule_at e nm' pgn')"
  by (simp add: rule_at_def pgn_rules_remove delete_conv)

lemma ov_remove_keeps [simp]:
  "oe_src_name (fst (ov_remove nm pgn e)) = oe_src_name e" "oe_replayed (fst (ov_remove nm pgn e)) = oe_replayed e"
  by (simp_all add: ov_remove_def Let_def split: option.split)

lemma insert_rule_keeps [simp]:
  "oe_src_name (insert_rule nm pgn ov e) = oe_src_name e" "oe_replayed (insert_rule nm pgn ov e) = oe_replayed e"
  by (simp_all add: insert_rule_def)

lemma learned_keeps [simp]:
  "rule_at (e\<lparr>oe_src_name := f\<rparr>) = rule_at e" "rule_at (e\<lparr>oe_replayed := g\<rparr>) = rule_at e"
  "engine_wf (e\<lparr>oe_src_name := f\<rparr>) = engine_wf e" "engine_wf (e\<lparr>oe_replayed := g\<rparr>) = engine_wf e"
  by (simp_all add: rule_at_def engine_wf_def pgn_rules_def fun_eq_iff)

lemma insert_rule_wf [wf_intros]: "engine_wf e \<Longrightarrow> engine_wf (insert_rule nm pgn ov e)"
  unfolding engine_wf_def insert_rule_def pgn_rules_def or_default_def
  by (auto simp: update_conv distinct_update split: option.split)

lemma ov_remove_wf [wf_intros]: "engine_wf e \<Longrightarrow> engine_wf (fst (ov_remove nm pgn e))"
  by (simp add: engine_wf_def pgn_rules_remove distinct_delete) (auto simp: ov_remove_def Let_def distinct_update distinct_delete split: option.split)

subsection \<open>Histories\<close>

text \<open>What the engine is told; the newest comes first in a history.\<close>

datatype override_event = ClaimSeen u8 u64 | SetSent "u8 list" | DeleteSent "u8 list" | NakSeen u8 u32

definition override_step ::
  "'f pgn_database \<Rightarrow> ((u32 \<times> override) list \<Rightarrow> (u32 \<times> override) list) \<Rightarrow> override_event \<Rightarrow> override_engine \<Rightarrow> override_engine" where
  "override_step db iter ev e =
     (case ev of
        ClaimSeen src nm \<Rightarrow> fst (ov_note_address_claim iter src nm e)
      | SetSent data \<Rightarrow> fst (ov_apply_set_frame db data e)
      | DeleteSent data \<Rightarrow> ov_apply_delete_frame data e
      | NakSeen src pgn \<Rightarrow> fst (note_nak src pgn e))"

primrec override_run ::
  "'f pgn_database \<Rightarrow> ((u32 \<times> override) list \<Rightarrow> (u32 \<times> override) list) \<Rightarrow> file_entry list option \<Rightarrow> override_event list \<Rightarrow> override_engine" where
  "override_run db iter stored [] = engine_load stored"
| "override_run db iter stored (ev # h) = override_step db iter ev (override_run db iter stored h)"

text \<open>The NAME a source claimed last, the source a NAME was last sent its overrides at, and the override asked for last.\<close>

primrec claimed_name :: "override_event list \<Rightarrow> u8 \<Rightarrow> u64 option" where
  "claimed_name [] s = None"
| "claimed_name (ev # h) s =
     (case ev of ClaimSeen src nm \<Rightarrow> if src = s then Some nm else claimed_name h s | _ \<Rightarrow> claimed_name h s)"

definition control_for :: "override_event list \<Rightarrow> u8 list \<Rightarrow> u64 \<Rightarrow> control option" where
  "control_for h data nm =
     (case parse_control data of Some c \<Rightarrow> if claimed_name h (ct_src c) = Some nm then Some c else None | None \<Rightarrow> None)"

primrec sent_at :: "override_event list \<Rightarrow> u64 \<Rightarrow> u8 option" where
  "sent_at [] nm = None"
| "sent_at (ev # h) nm =
     (case ev of
        ClaimSeen src nm' \<Rightarrow> if nm' = nm then Some src else sent_at h nm
      | SetSent data \<Rightarrow> (case control_for h data nm of Some c \<Rightarrow> Some (ct_src c) | None \<Rightarrow> sent_at h nm)
      | _ \<Rightarrow> sent_at h nm)"

definition filed :: "file_entry list option \<Rightarrow> u64 \<Rightarrow> u32 \<Rightarrow> override option" where
  "filed stored nm pgn =
     map_option fe_ov (find (\<lambda>r. parse_name (fe_name r) = Some nm \<and> fe_pgn r = pgn) (rev (or_default [] stored)))"

definition override_of :: "'f pgn_database \<Rightarrow> control \<Rightarrow> override" where
  "override_of db c =
     \<lparr>ov_interval_ms = ct_interval_ms c, ov_manufacturer_code = ct_manufacturer_code c,
      ov_industry_code = ct_industry_code c, ov_description = pgn_description db (ct_pgn c)\<rparr>"

primrec wanted :: "'f pgn_database \<Rightarrow> file_entry list option \<Rightarrow> override_event list \<Rightarrow> u64 \<Rightarrow> u32 \<Rightarrow> override option" where
  "wanted db stored [] nm pgn = filed stored nm pgn"
| "wanted db stored (ev # h) nm pgn =
     (let before = wanted db stored h nm pgn in
      case ev of
        ClaimSeen src nm' \<Rightarrow> before
      | SetSent data \<Rightarrow> (case control_for h data nm of Some c \<Rightarrow> if ct_pgn c = pgn then Some (override_of db c) else before | None \<Rightarrow> before)
      | DeleteSent data \<Rightarrow> (case control_for h data nm of Some c \<Rightarrow> if ct_pgn c = pgn then None else before | None \<Rightarrow> before)
      | NakSeen src p \<Rightarrow> if claimed_name h src = Some nm \<and> p = pgn then None else before)"

lemma engine_load_filed:
  "rule_at (engine_load stored) nm pgn = filed stored nm pgn" "engine_wf (engine_load stored)"
  "oe_src_name (engine_load stored) = (\<lambda>_. None)" "oe_replayed (engine_load stored) = (\<lambda>_. None)"
proof -
  let ?add = "\<lambda>e r. case parse_name (fe_name r) of Some nm \<Rightarrow> insert_rule nm (fe_pgn r) (fe_ov r) e | None \<Rightarrow> e"
  let ?e0 = "\<lparr>oe_src_name = (\<lambda>_. None), oe_rules = [], oe_replayed = (\<lambda>_. None)\<rparr>"
  have "rule_at (foldl ?add ?e0 rs) nm pgn =
      map_option fe_ov (find (\<lambda>r. parse_name (fe_name r) = Some nm \<and> fe_pgn r = pgn) (rev rs)) \<and>
    engine_wf (foldl ?add ?e0 rs) \<and> oe_src_name (foldl ?add ?e0 rs) = (\<lambda>_. None) \<and> oe_replayed (foldl ?add ?e0 rs) = (\<lambda>_. None)" for rs
  proof (induction rs rule: rev_induct)
    case Nil
    then show ?case by (simp add: rule_at_def engine_wf_def pgn_rules_def or_default_def)
  next
    case (snoc r rs)
    then show ?case by (auto intro: wf_intros split: option.split)
  qed
  from this [of "or_default [] stored"] show "rule_at (engine_load stored) nm pgn = filed stored nm pgn" "engine_wf (engine_load stored)"
    "oe_src_name (engine_load stored) = (\<lambda>_. None)" "oe_replayed (engine_load stored) = (\<lambda>_. None)"
    by (simp_all add: engine_load_def filed_def)
qed

lemma override_history:
  "engine_wf (override_run db iter stored h)" "oe_src_name (override_run db iter stored h) = claimed_name h"
  "oe_replayed (override_run db iter stored h) = sent_at h" "rule_at (override_run db iter stored h) = wanted db stored h"
proof -
  let ?P = "\<lambda>h e. engine_wf e \<and> oe_src_name e = claimed_name h \<and> oe_replayed e = sent_at h \<and> rule_at e = wanted db stored h"
  have "?P h (override_run db iter stored h)"
  proof (induction h)
    case Nil
    then show ?case by (simp add: fun_eq_iff engine_load_filed)
  next
    case (Cons ev h)
    let ?e = "override_run db iter stored h"
    show ?case
    proof (cases ev)
      case (ClaimSeen src nm)
      then show ?thesis using Cons
        by (auto simp: override_step_def ov_note_address_claim_def Let_def fun_eq_iff)
    next
      case (SetSent data)
      then show ?thesis using Cons 
        by (auto simp: override_step_def ov_apply_set_frame_def control_for_def override_of_def Let_def fun_eq_iff intro: wf_intros split: option.split)
    next
      case (DeleteSent data)
      then show ?thesis using Cons
        by (auto simp: override_step_def ov_apply_delete_frame_def control_for_def Let_def fun_eq_iff intro: wf_intros split: option.split)
    next
      case (NakSeen src pgn)
      then show ?thesis using Cons
        by (auto simp: override_step_def note_nak_def Let_def fun_eq_iff intro: wf_intros split: option.split)
    qed
  qed
  then show "engine_wf (override_run db iter stored h)" "oe_src_name (override_run db iter stored h) = claimed_name h"
    "oe_replayed (override_run db iter stored h) = sent_at h" "rule_at (override_run db iter stored h) = wanted db stored h" by auto
qed

subsection \<open>What reads the frames\<close>

definition readable :: "u32 \<Rightarrow> override \<Rightarrow> bool" where
  "readable pgn ov \<longleftrightarrow> pgn < 2 ^ 24 \<and> ov_manufacturer_code ov \<noteq> Some MFR_NA \<and> ov_industry_code ov \<noteq> Some IND_NA"

definition control_of :: "u8 \<Rightarrow> u32 \<Rightarrow> override \<Rightarrow> control" where
  "control_of src pgn ov =
     \<lparr>ct_src = src, ct_pgn = pgn, ct_interval_ms = ov_interval_ms ov, ct_manufacturer_code = ov_manufacturer_code ov,
      ct_industry_code = ov_industry_code ov\<rparr>"

lemma or_le24: "ucast a OR push_bit 8 (ucast b) OR push_bit 16 (ucast c) = le24 a b c"
  by (simp add: le24_def or.assoc)

lemma le_bytes_nths:
  "[le_bytes 4 (i :: u32) ! 0, le_bytes 4 i ! 1, le_bytes 4 i ! 2, le_bytes 4 i ! 3] = le_bytes 4 i"
  "[le_bytes 2 (m :: u16) ! 0, le_bytes 2 m ! 1] = le_bytes 2 m"
  by (auto intro!: nth_equalityI simp: less_Suc_eq numeral_nat)

lemma report_read:
  assumes "readable pgn ov"
  shows "parse_control (rf_data (report_frame ts src pgn (ov_interval_ms ov) ov)) = Some (control_of src pgn ov)"
proof -
  let ?i = "le_bytes 4 (ov_interval_ms ov)" and ?m = "le_bytes 2 (or_default MFR_NA (ov_manufacturer_code ov))" and ?p = "le_bytes 4 pgn"
  let ?d = "[OV_FN_REPORT, src, ?p ! 0, ?p ! 1, ?p ! 2, ?i ! 0, ?i ! 1, ?i ! 2, ?i ! 3, ?m ! 0, ?m ! 1, or_default IND_NA (ov_industry_code ov)]"
  have "take 3 ?p = [?p ! 0, ?p ! 1, ?p ! 2]" by (auto intro!: nth_equalityI simp: less_Suc_eq numeral_nat)
  then have d: "rf_data (report_frame ts src pgn (ov_interval_ms ov) ov) = ?d"
    using le_bytes_nths(1) [of "ov_interval_ms ov"] le_bytes_nths(2) [of "or_default MFR_NA (ov_manufacturer_code ov)"]
    by (simp add: report_frame_def Let_def RAWFRAME_MAX_SIZE_def)
  have "le24 (?p ! 0) (?p ! 1) (?p ! 2) = pgn"
    using assms by (simp add: readable_def le24_bytes take_bit_24_id le_bytes_def)
  then show ?thesis
    unfolding d parse_control_def
    using assms le_bytes_nths(1) [of "ov_interval_ms ov"] le_bytes_nths(2) [of "or_default MFR_NA (ov_manufacturer_code ov)"]
    by (simp add: or_le24 control_of_def readable_def or_default_def from_le_le_bytes split: option.splits)
qed

text \<open>What a control message sets can be reported.\<close>

lemma le24_below: "le24 a b c < 2 ^ 24"
proof -
  have "take_bit 24 (le24 a b c) = le24 a b c"
  proof (rule bit_word_eqI)
    fix n
    show "bit (take_bit 24 (le24 a b c)) n = bit (le24 a b c) n"
      using bit_imp_le_length [of a n] bit_imp_le_length [of b "n - 8"] bit_imp_le_length [of c "n - 16"]
      by (auto simp: le24_def bit_simps)
  qed
  then have "unat (le24 a b c) < 2 ^ 24" using unsigned_take_bit_eq [of 24 "le24 a b c", where ?'a = nat] by (metis take_bit_nat_less_exp)
  then show ?thesis by (simp add: word_less_nat_alt)
qed

lemma parse_control_readable: "parse_control data = Some c \<Longrightarrow> readable (ct_pgn c) (override_of db c)"
proof -
  assume c: "parse_control data = Some c"
  have "ct_pgn c = le24 (data ! 2) (data ! 3) (data ! 4)"
    using c by (auto simp: parse_control_def or_le24 Let_def split: if_splits)
  then have "ct_pgn c < 2 ^ 24" using le24_below by simp
  then show ?thesis
    using c by (auto simp: readable_def override_of_def parse_control_def Let_def split: if_splits)
qed

lemma found_in: "find P xs = Some x \<Longrightarrow> x \<in> set xs \<and> P x"
  by (induction xs) (auto split: if_splits)

lemma wanted_readable:
  assumes "\<forall>r \<in> set (or_default [] stored). readable (fe_pgn r) (fe_ov r)"
  shows "wanted db stored h nm pgn = Some ov \<Longrightarrow> readable pgn ov"
proof (induction h arbitrary: ov)
  case Nil
  then obtain r where "find (\<lambda>r. parse_name (fe_name r) = Some nm \<and> fe_pgn r = pgn) (rev (or_default [] stored)) = Some r" "ov = fe_ov r"
    by (auto simp: filed_def)
  then show ?case using assms by (auto dest!: found_in)
next
  case (Cons ev h)
  have from_control: "readable pgn (override_of db c)" if "control_for h data nm = Some c" "ct_pgn c = pgn" for data c
    using that parse_control_readable [of data c db] by (auto simp: control_for_def split: option.splits if_splits)
  show ?case
  proof (cases ev)
    case (SetSent data)
    then show ?thesis using Cons from_control [of data] by (auto simp: Let_def split: option.splits if_splits)
  next
    case (DeleteSent data)
    then show ?thesis using Cons by (auto simp: Let_def split: option.splits if_splits)
  qed (use Cons in \<open>auto split: if_splits\<close>)
qed

subsection \<open>The rows of a report\<close>

definition source_rows :: "override_engine \<Rightarrow> u64 \<times> (u32 \<times> override) list \<Rightarrow> (u8 \<times> u32 \<times> override) list" where
  "source_rows e = (\<lambda>(nm, pgns). case name_source e nm of None \<Rightarrow> [] | Some src \<Rightarrow> map (\<lambda>(pgn, ov). (src, pgn, ov)) pgns)"

definition row_key :: "u8 \<times> u32 \<times> override \<Rightarrow> u8 \<times> u32" where "row_key = (\<lambda>(src, pgn, ov). (src, pgn))"

lemma report_rows_alt: "report_rows e = sort_key row_key (concat (map (source_rows e) (oe_rules e)))"
  by (simp add: report_rows_def source_rows_def row_key_def)

lemma sources_ordered: "find P (map word_of_nat [0..<256]) = Some (s :: u8) \<longleftrightarrow> P s \<and> (\<nexists>r. r < s \<and> P r)"
proof -
  have nth: "map word_of_nat [0..<256] ! i = (word_of_nat i :: u8)" if "i < 256" for i using that by simp
  have small: "unat r < 256" for r :: u8 using unsigned_less [of r] by simp
  have "find P (map word_of_nat [0..<256]) = Some s \<longleftrightarrow> (\<exists>i<256. P (word_of_nat i) \<and> s = word_of_nat i \<and> (\<forall>j<i. \<not> P (word_of_nat j)))"
    unfolding find_Some_iff by (auto simp: nth simp del: upt_Suc)
  also have "\<dots> \<longleftrightarrow> P s \<and> (\<forall>j < unat s. \<not> P (word_of_nat j))"
    using small [of s] by (auto simp: unsigned_of_nat take_bit_nat_eq_self intro!: exI [of _ "unat s"])
  also have "(\<forall>j < unat s. \<not> P (word_of_nat j)) \<longleftrightarrow> (\<nexists>r. r < s \<and> P r)"
  proof -
    have "word_of_nat j < s" if "j < unat s" for j
      using that small [of s] by (simp add: word_less_nat_alt unsigned_of_nat take_bit_nat_eq_self)
    moreover have "word_of_nat (unat r) = r" for r :: u8 by simp
    ultimately show ?thesis using word_less_nat_alt by metis
  qed
  finally show ?thesis .
qed

lemma name_source_iff: "name_source e nm = Some s \<longleftrightarrow> oe_src_name e s = Some nm \<and> (\<nexists>r. r < s \<and> oe_src_name e r = Some nm)"
  unfolding name_source_def by (rule sources_ordered)

lemma bex_pair: "(\<exists>x \<in> A. P x) \<longleftrightarrow> (\<exists>a b. (a, b) \<in> A \<and> P (a, b))"
  by auto

lemma source_rows_in:
  "r \<in> set (source_rows e (nm, pgns)) \<longleftrightarrow> (\<exists>src pgn ov. r = (src, pgn, ov) \<and> name_source e nm = Some src \<and> (pgn, ov) \<in> set pgns)"
  by (auto simp: source_rows_def split: option.split)

lemma source_rows_distinct:
  assumes "distinct (map fst rs)" "\<forall>(nm, pgns) \<in> set rs. distinct (map fst pgns)"
  shows "distinct (map row_key (concat (map (source_rows e) rs)))"
  using assms
proof (induction rs)
  case (Cons r rs)
  obtain nm pgns where r: "r = (nm, pgns)" by force
  have "map row_key (source_rows e r) = (case name_source e nm of None \<Rightarrow> [] | Some src \<Rightarrow> map (\<lambda>pgn. (src, pgn)) (map fst pgns))"
    by (auto simp: r source_rows_def row_key_def split: option.split)
  then have own: "distinct (map row_key (source_rows e r))"
    using Cons.prems(2) by (auto simp: r distinct_map inj_on_def split: option.split)
  have same: "nm' = nm" if "row_key x = row_key y" "x \<in> set (source_rows e (nm, pgns))" "y \<in> set (source_rows e (nm', pgns'))" for x y nm' pgns'
    using that by (auto simp: source_rows_in row_key_def name_source_iff)
  have apart: "row_key x \<noteq> row_key y" if "x \<in> set (source_rows e r)" "y \<in> set (source_rows e (nm', pgns'))" "(nm', pgns') \<in> set rs"
    for x y nm' pgns'
  proof
    assume "row_key x = row_key y"
    from same [OF this] that(1,2) have "nm' = nm" by (simp add: r)
    moreover have "nm' \<in> fst ` set rs" using that(3) by force
    ultimately show False using Cons.prems(1) by (simp add: r)
  qed
  have "row_key ` set (source_rows e r) \<inter> row_key ` set (concat (map (source_rows e) rs)) = {}"
  proof -
    have False if "k \<in> row_key ` set (source_rows e r)" "k \<in> row_key ` set (concat (map (source_rows e) rs))" for k
    proof -
      note k = that
      obtain x where x: "x \<in> set (source_rows e r)" "k = row_key x" using k(1) by blast
      obtain y z where y: "z \<in> set rs" "y \<in> set (source_rows e z)" "k = row_key y" using k(2) by auto
      obtain nm' pgns' where z: "z = (nm', pgns')" by force
      show False using apart [OF x(1), of y nm' pgns'] x y z by simp
    qed
    then show ?thesis by blast
  qed
  then show ?case using own Cons by simp
qed simp

lemma rules_in:
  assumes "engine_wf e"
  shows "(nm, pgns) \<in> set (oe_rules e) \<Longrightarrow> pgns = pgn_rules e nm" "pgn_rules e nm \<noteq> [] \<Longrightarrow> (nm, pgn_rules e nm) \<in> set (oe_rules e)"
  using assms by (auto simp: engine_wf_def pgn_rules_def or_default_def split: option.splits dest: map_of_SomeD)

lemma report_rows_in:
  assumes "engine_wf e"
  shows "(src, pgn, ov) \<in> set (report_rows e) \<longleftrightarrow> (\<exists>nm. name_source e nm = Some src \<and> rule_at e nm pgn = Some ov)"
proof -
  have d: "(pgn, ov) \<in> set (pgn_rules e nm) \<longleftrightarrow> rule_at e nm pgn = Some ov" for nm
    using assms by (simp add: rule_at_def engine_wf_def)
  have "(src, pgn, ov) \<in> set (report_rows e) \<longleftrightarrow> (\<exists>x \<in> set (oe_rules e). (src, pgn, ov) \<in> set (source_rows e x))"
    by (simp add: report_rows_alt)
  also have "\<dots> \<longleftrightarrow> (\<exists>nm pgns. (nm, pgns) \<in> set (oe_rules e) \<and> name_source e nm = Some src \<and> (pgn, ov) \<in> set pgns)"
    by (simp add: bex_pair source_rows_in)
  also have "\<dots> \<longleftrightarrow> (\<exists>nm. name_source e nm = Some src \<and> (pgn, ov) \<in> set (pgn_rules e nm))"
  proof (intro iffI; elim exE conjE)
    fix nm pgns
    assume "(nm, pgns) \<in> set (oe_rules e)" "name_source e nm = Some src" "(pgn, ov) \<in> set pgns"
    then show "\<exists>nm. name_source e nm = Some src \<and> (pgn, ov) \<in> set (pgn_rules e nm)" using rules_in(1) [OF assms] by blast
  next
    fix nm
    assume l: "name_source e nm = Some src" "(pgn, ov) \<in> set (pgn_rules e nm)"
    then have "(nm, pgn_rules e nm) \<in> set (oe_rules e)" by (intro rules_in(2) [OF assms]) auto
    then show "\<exists>nm pgns. (nm, pgns) \<in> set (oe_rules e) \<and> name_source e nm = Some src \<and> (pgn, ov) \<in> set pgns" using l by blast
  qed
  finally show ?thesis by (simp add: d)
qed

lemma report_rows_ordered:
  assumes "engine_wf e"
  shows "sorted_wrt (<) (map row_key (report_rows e))"
proof -
  have "\<forall>(nm, pgns) \<in> set (oe_rules e). distinct (map fst pgns)" using assms rules_in(1) [OF assms] by (auto simp: engine_wf_def)
  then have "distinct (map row_key (report_rows e))"
    using source_rows_distinct [of "oe_rules e" e] assms
    by (simp only: report_rows_alt distinct_map engine_wf_def distinct_sort set_sort)
  then show ?thesis by (simp add: strict_sorted_iff report_rows_alt)
qed

subsection \<open>The rows on file\<close>

lemma parse_name_shown: "parse_name (show_hex_padded False 16 (unat nm)) = Some nm"
  using name_hex_roundtrip [of nm] by (simp add: name_from_hex_def name_to_hex_def parse_name_def)

lemma engine_rows_in:
  assumes "engine_wf e"
  shows "r \<in> set (engine_rows e) \<longleftrightarrow>
    (\<exists>nm. fe_name r = show_hex_padded False 16 (unat nm) \<and> rule_at e nm (fe_pgn r) = Some (fe_ov r))"
proof -
  have d: "(pgn, ov) \<in> set (pgn_rules e nm) \<longleftrightarrow> rule_at e nm pgn = Some ov" for nm pgn ov
    using assms by (simp add: rule_at_def engine_wf_def)
  let ?row = "\<lambda>nm pgn ov. \<lparr>fe_name = show_hex_padded False 16 (unat nm), fe_pgn = pgn, fe_ov = ov\<rparr>"
  have "r \<in> set (engine_rows e) \<longleftrightarrow> (\<exists>nm pgns. (nm, pgns) \<in> set (oe_rules e) \<and> (\<exists>pgn ov. (pgn, ov) \<in> set pgns \<and> r = ?row nm pgn ov))"
    by (simp add: engine_rows_def bex_pair image_iff split_beta)
  also have "\<dots> \<longleftrightarrow> (\<exists>nm pgn ov. (pgn, ov) \<in> set (pgn_rules e nm) \<and> r = ?row nm pgn ov)"
  proof (intro iffI; elim exE conjE)
    fix nm pgns pgn ov
    assume "(nm, pgns) \<in> set (oe_rules e)" "(pgn, ov) \<in> set pgns" "r = ?row nm pgn ov"
    then show "\<exists>nm pgn ov. (pgn, ov) \<in> set (pgn_rules e nm) \<and> r = ?row nm pgn ov" using rules_in(1) [OF assms] by blast
  next
    fix nm pgn ov
    assume l: "(pgn, ov) \<in> set (pgn_rules e nm)" "r = ?row nm pgn ov"
    then have "(nm, pgn_rules e nm) \<in> set (oe_rules e)" by (intro rules_in(2) [OF assms]) auto
    then show "\<exists>nm pgns. (nm, pgns) \<in> set (oe_rules e) \<and> (\<exists>pgn ov. (pgn, ov) \<in> set pgns \<and> r = ?row nm pgn ov)" using l by blast
  qed
  finally show ?thesis by (cases r) (auto simp: d)
qed

lemma filed_rows:
  assumes "engine_wf e"
  shows "filed (Some (engine_rows e)) nm pgn = rule_at e nm pgn"
proof -
  let ?P = "\<lambda>r. parse_name (fe_name r) = Some nm \<and> fe_pgn r = pgn" and ?rows = "rev (engine_rows e)"
  have own: "rule_at e nm pgn = Some (fe_ov r)" if "r \<in> set ?rows" "?P r" for r
    using that engine_rows_in [OF assms, of r] by (auto simp: parse_name_shown)
  show ?thesis
  proof (cases "find ?P ?rows")
    case (Some r)
    then show ?thesis using own [of r] found_in [OF Some] by (simp add: filed_def or_default_def del: set_rev)
  next
    case None
    have "\<lparr>fe_name = show_hex_padded False 16 (unat nm), fe_pgn = pgn, fe_ov = ov\<rparr> \<in> set (engine_rows e)" if "rule_at e nm pgn = Some ov" for ov
      using that engine_rows_in [OF assms] by auto
    moreover have "r \<notin> set (engine_rows e)" if "?P r" for r using that None by (auto simp: find_None_iff)
    ultimately have "rule_at e nm pgn \<noteq> Some ov" for ov using parse_name_shown [of nm] by force
    then have "rule_at e nm pgn = None" by (metis not_Some_eq)
    then show ?thesis using None by (simp add: filed_def or_default_def)
  qed
qed

subsection \<open>Properties\<close>

text \<open>
  Whatever claims, settings, deletions and refusals came before, when a NAME claims an address the engine sends it, at that address, one request for
  each override that stands for it (the one set last for the PGN, or else filed, and neither deleted nor refused since), and none if the
  NAME was last sent its overrides at that very address.
\<close>

theorem overrides_follow_history:
  assumes "\<forall>xs. mset (iter xs) = mset xs"
  shows "let sent = snd (ov_note_address_claim iter src nm (override_run db iter stored h)) in
    if sent_at h nm = Some src then sent = []
    else set sent = override_request src ` {(pgn, ov). wanted db stored h nm pgn = Some ov} \<and>
         length sent = card {pgn. wanted db stored h nm pgn \<noteq> None}"
proof -
  let ?e = "override_run db iter stored h"
  have at: "map_of (pgn_rules ?e nm) = wanted db stored h nm"
    using override_history(4) [of db iter stored h] by (simp add: rule_at_def fun_eq_iff)
  have d: "distinct (map fst (pgn_rules ?e nm))" using override_history(1) [of db iter stored h] by (simp add: engine_wf_def)
  have set: "set (iter xs) = set xs" "length (iter xs) = length xs" for xs
    using assms by (metis mset_eq_setD, metis mset_eq_length)
  have rules: "set (pgn_rules ?e nm) = {(pgn, ov). wanted db stored h nm pgn = Some ov}"
    using d at by (auto simp flip: at)
  have "length (pgn_rules ?e nm) = card (fst ` set (pgn_rules ?e nm))"
    using distinct_card [OF d] by simp
  also have "fst ` set (pgn_rules ?e nm) = {pgn. wanted db stored h nm pgn \<noteq> None}" unfolding rules by force
  finally have len: "length (pgn_rules ?e nm) = card {pgn. wanted db stored h nm pgn \<noteq> None}" .
  have none: "pgn_rules ?e nm = []" if "map_of (oe_rules ?e) nm = None" using that by (simp add: pgn_rules_def or_default_def)
  have some: "pgn_rules ?e nm = pgns" if "map_of (oe_rules ?e) nm = Some pgns" for pgns using that by (simp add: pgn_rules_def or_default_def)
  show ?thesis
    using rules len override_history(3) [of db iter stored h] none some set
    by (auto simp: ov_note_address_claim_def Let_def split: option.split)
qed

text \<open>
  The reports to a client, read the way a control message is read, are the overrides that stand for the NAMEs on the bus, each under the lowest address
  that claims the NAME; they come in the order of address and PGN.
\<close>

theorem reports_follow_history:
  assumes "\<forall>r \<in> set (or_default [] stored). readable (fe_pgn r) (fe_ov r)"
  shows "\<exists>cs. map (parse_control \<circ> rf_data) (ov_report_frames ts (override_run db iter stored h)) = map Some cs \<and>
    sorted_wrt (<) (map (\<lambda>c. (ct_src c, ct_pgn c)) cs) \<and>
    set cs = {control_of src pgn ov | src pgn ov nm. wanted db stored h nm pgn = Some ov \<and>
      claimed_name h src = Some nm \<and> (\<nexists>s. s < src \<and> claimed_name h s = Some nm)}"
proof -
  let ?e = "override_run db iter stored h"
  let ?c = "\<lambda>(src, pgn, ov). control_of src pgn ov"
  have rows: "(src, pgn, ov) \<in> set (report_rows ?e) \<longleftrightarrow> (\<exists>nm. wanted db stored h nm pgn = Some ov \<and>
      claimed_name h src = Some nm \<and> (\<nexists>s. s < src \<and> claimed_name h s = Some nm))" for src pgn ov
    by (simp only: report_rows_in [OF override_history(1)] name_source_iff override_history(2,4)) blast
  then have "(\<lambda>(src, pgn, ov). parse_control (rf_data (report_frame ts src pgn (ov_interval_ms ov) ov))) r = Some (?c r)"
    if "r \<in> set (report_rows ?e)" for r
  proof -
    note row = that
    obtain src pgn ov where r: "r = (src, pgn, ov)" by (cases r) auto
    obtain nm where "wanted db stored h nm pgn = Some ov" using row rows [of src pgn ov] by (auto simp: r)
    then show ?thesis using report_read [OF wanted_readable [OF assms]] by (simp add: r)
  qed
  then have read: "map (parse_control \<circ> rf_data) (ov_report_frames ts ?e) = map Some (map ?c (report_rows ?e))"
    by (auto simp: ov_report_frames_def)
  have keys: "map (\<lambda>c. (ct_src c, ct_pgn c)) (map ?c (report_rows ?e)) = map row_key (report_rows ?e)"
    by (auto simp: row_key_def control_of_def)
  have "set (map ?c (report_rows ?e)) = {control_of src pgn ov | src pgn ov. (src, pgn, ov) \<in> set (report_rows ?e)}"
    by (auto intro: rev_image_eqI)
  also have "\<dots> = {control_of src pgn ov | src pgn ov nm. wanted db stored h nm pgn = Some ov \<and>
      claimed_name h src = Some nm \<and> (\<nexists>s. s < src \<and> claimed_name h s = Some nm)}"
    by (intro Collect_cong) (simp only: rows, metis)
  finally show ?thesis
    by (intro exI [of _ "map ?c (report_rows ?e)"] conjI read) (simp_all only: keys report_rows_ordered [OF override_history(1)])
qed

text \<open>
  A server that is started again over the file it wrote has every override it had, and no other.
\<close>

theorem overrides_survive_restart:
  "rule_at (engine_load (Some (engine_rows (override_run db iter stored h)))) nm pgn = wanted db stored h nm pgn"
  by (simp only: engine_load_filed filed_rows [OF override_history(1)] override_history(4))

definition demo_history :: "override_event list" where
  "demo_history = [SetSent [1, 5, 0x10, 0xf1, 0x01, 0xf4, 0x01, 0, 0, 0xff, 0xff, 0xff], ClaimSeen 5 0x77]"

lemma overrides_follow_history_witness:
  "let sent = snd (ov_note_address_claim id 9 0x77 (override_run db id None demo_history)) in
   set sent = override_request 9 ` {(pgn, ov). wanted db None demo_history 0x77 pgn = Some ov} \<and>
   length sent = card {pgn. wanted db None demo_history 0x77 pgn \<noteq> None}"
proof -
  have "sent_at demo_history 0x77 \<noteq> Some 9"
    by (simp add: demo_history_def control_for_def parse_control_def)
  then show ?thesis using overrides_follow_history [where iter = id and src = 9 and nm = "0x77" and db = db and stored = None and h = demo_history]
    by (simp add: Let_def)
qed

lemma reports_follow_history_witness:
  "\<exists>cs. map (parse_control \<circ> rf_data) (ov_report_frames None (override_run db id None demo_history)) = map Some cs \<and>
    sorted_wrt (<) (map (\<lambda>c. (ct_src c, ct_pgn c)) cs) \<and>
    set cs = {control_of src pgn ov | src pgn ov nm. wanted db None demo_history nm pgn = Some ov \<and>
      claimed_name demo_history src = Some nm \<and> (\<nexists>s. s < src \<and> claimed_name demo_history s = Some nm)}"
  by (rule reports_follow_history) (simp add: or_default_def)

end
