(* ===== verification/Hubs.thy ===== *)
theory Hubs
  imports Main
begin

section \<open>Broadcast hubs and batches (canboat-bridge/src/n2kd/serving/hub.rs, server/pipeline.rs)\<close>

text \<open>
  A hub sends each chunk to every subscriber and forgets those whose receiver is gone; a batcher collects lines and hands them to its hub when
  the oldest has waited 25 ms or 16 KiB have come together.  \<open>Hub\<close> and \<open>BinHub\<close>, and their batchers, are the same over characters
  and bytes.  A subscriber is a number with the chunks it was sent; an instant is a number of milliseconds.
\<close>

record 'a hub =
  hb_subscribers :: "(nat \<times> 'a list list) list"
  hb_gone :: "nat set"
  hb_count :: nat

definition hub_new :: "'a hub" where
  "hub_new = \<lparr>hb_subscribers = [], hb_gone = {}, hb_count = 0\<rparr>"

definition has_subscribers :: "'a hub \<Rightarrow> bool" where
  "has_subscribers h \<longleftrightarrow> hb_count h > 0"

definition subscribe :: "nat \<Rightarrow> 'a hub \<Rightarrow> 'a hub" where
  "subscribe i h = (let subs = hb_subscribers h @ [(i, [])] in h\<lparr>hb_subscribers := subs, hb_count := length subs\<rparr>)"

definition broadcast :: "'a list \<Rightarrow> 'a hub \<Rightarrow> 'a hub" where
  "broadcast chunk h =
     (let subs = map (\<lambda>(i, got). (i, got @ [chunk])) (filter (\<lambda>(i, got). i \<notin> hb_gone h) (hb_subscribers h))
      in h\<lparr>hb_subscribers := subs, hb_count := length subs\<rparr>)"

record 'a batcher =
  bt_hub :: "'a hub"
  bt_pending :: "'a list"
  bt_oldest :: int

definition BATCH_MAX_AGE :: int where "BATCH_MAX_AGE = 25"
definition BATCH_MAX_BYTES :: nat where "BATCH_MAX_BYTES = 16 * 1024"

definition batcher_new :: "int \<Rightarrow> 'a hub \<Rightarrow> 'a batcher" where
  "batcher_new now h = \<lparr>bt_hub = h, bt_pending = [], bt_oldest = now\<rparr>"

definition batch_subscribed :: "'a batcher \<Rightarrow> bool" where
  "batch_subscribed b \<longleftrightarrow> has_subscribers (bt_hub b)"

definition has_pending :: "'a batcher \<Rightarrow> bool" where
  "has_pending b \<longleftrightarrow> bt_pending b \<noteq> []"

definition flush :: "'a batcher \<Rightarrow> 'a batcher" where
  "flush b = b\<lparr>bt_hub := broadcast (bt_pending b) (bt_hub b), bt_pending := []\<rparr>"

definition batch_push :: "'a list \<Rightarrow> int \<Rightarrow> 'a batcher \<Rightarrow> 'a batcher" where
  "batch_push line now b =
     (let b = (if bt_pending b = [] then b\<lparr>bt_oldest := now\<rparr> else b);
          b = b\<lparr>bt_pending := bt_pending b @ line\<rparr>
      in if length (bt_pending b) \<ge> BATCH_MAX_BYTES then flush b else b)"

definition flush_due :: "int \<Rightarrow> 'a batcher \<Rightarrow> 'a batcher" where
  "flush_due now b = (if bt_pending b \<noteq> [] \<and> max 0 (now - bt_oldest b) \<ge> BATCH_MAX_AGE then flush b else b)"

subsection \<open>What a subscriber gets\<close>

text \<open>A subscriber that is there, what it got so far, and that with what waits for it.\<close>

definition listening :: "nat \<Rightarrow> 'a hub \<Rightarrow> bool" where
  "listening i h \<longleftrightarrow> i \<in> fst ` set (hb_subscribers h) \<and> i \<notin> hb_gone h \<and> hb_count h = length (hb_subscribers h)"

definition received :: "nat \<Rightarrow> 'a hub \<Rightarrow> 'a list" where
  "received i h = (case map_of (hb_subscribers h) i of Some chunks \<Rightarrow> concat chunks | None \<Rightarrow> [])"

definition stream_to :: "nat \<Rightarrow> 'a batcher \<Rightarrow> 'a list" where
  "stream_to i b = received i (bt_hub b) @ bt_pending b"

definition batch_listening :: "nat \<Rightarrow> 'a batcher \<Rightarrow> bool" where
  "batch_listening i b \<longleftrightarrow> listening i (bt_hub b)"

lemma listening_counts: "listening i h \<Longrightarrow> has_subscribers h"
  by (auto simp: listening_def has_subscribers_def)

lemma batch_listening_counts: "batch_listening i b \<Longrightarrow> batch_subscribed b"
  by (simp add: batch_listening_def batch_subscribed_def listening_counts)

lemma listening_broadcast: "listening i h \<Longrightarrow> listening i (broadcast chunk h)"
  by (force simp: listening_def broadcast_def Let_def)

lemma received_broadcast: "listening i h \<Longrightarrow> received i (broadcast chunk h) = received i h @ chunk"
proof -
  have "map_of (map (\<lambda>(i, got). (i, got @ [chunk])) (filter (\<lambda>(i, got). i \<notin> g) subs)) i = map_option (\<lambda>got. got @ [chunk]) (map_of subs i)"
    if "i \<notin> g" for subs :: "(nat \<times> 'a list list) list" and g
    using that by (induction subs) auto
  moreover assume l: "listening i h"
  moreover have "map_of (hb_subscribers h) i \<noteq> None" using l unfolding listening_def map_of_eq_None_iff by blast
  ultimately show ?thesis by (auto simp: received_def broadcast_def listening_def Let_def split: option.split)
qed

lemma stream_flush [simp]: "batch_listening i b \<Longrightarrow> stream_to i (flush b) = stream_to i b"
  by (simp add: stream_to_def flush_def batch_listening_def received_broadcast)

lemma listening_flush [simp]: "batch_listening i b \<Longrightarrow> batch_listening i (flush b)"
  by (simp add: batch_listening_def flush_def listening_broadcast)

lemma batch_push_alt:
  "batch_push line now b =
     (let b' = b\<lparr>bt_pending := bt_pending b @ line, bt_oldest := (if bt_pending b = [] then now else bt_oldest b)\<rparr>
      in if length (bt_pending b @ line) \<ge> BATCH_MAX_BYTES then flush b' else b')"
  by (cases b) (simp add: batch_push_def Let_def)

lemma listening_keep [simp]:
  "batch_listening i (b\<lparr>bt_pending := p\<rparr>) = batch_listening i b" "batch_listening i (b\<lparr>bt_oldest := t\<rparr>) = batch_listening i b"
  by (simp_all add: batch_listening_def)

lemma stream_push [simp]:
  "batch_listening i b \<Longrightarrow> stream_to i (batch_push line now b) = stream_to i b @ line"
  "batch_listening i b \<Longrightarrow> batch_listening i (batch_push line now b)"
  by (auto simp: batch_push_alt Let_def) (simp_all add: stream_to_def)

lemma stream_flush_due [simp]:
  "batch_listening i b \<Longrightarrow> stream_to i (flush_due now b) = stream_to i b"
  "batch_listening i b \<Longrightarrow> batch_listening i (flush_due now b)"
  by (simp_all add: flush_due_def)

text \<open>Nothing waits longer than the limit, and what waits is less than the size that goes out at once.\<close>

definition batch_fresh :: "int \<Rightarrow> 'a batcher \<Rightarrow> bool" where
  "batch_fresh now b \<longleftrightarrow> length (bt_pending b) < BATCH_MAX_BYTES \<and> (bt_pending b = [] \<or> max 0 (now - bt_oldest b) < BATCH_MAX_AGE)"

lemma fresh_flush_due: "length (bt_pending b) < BATCH_MAX_BYTES \<Longrightarrow> batch_fresh now (flush_due now b)"
  by (auto simp: batch_fresh_def flush_due_def flush_def BATCH_MAX_BYTES_def)

lemma push_below: "length (bt_pending b) < BATCH_MAX_BYTES \<Longrightarrow> length (bt_pending (batch_push line now b)) < BATCH_MAX_BYTES"
  by (simp add: batch_push_alt flush_def Let_def BATCH_MAX_BYTES_def)

end
