(* ===== verification/Server_Snapshot.thy ===== *)
theory Server_Snapshot
  imports Snapshot Decode
begin

section \<open>The server's snapshot of decoded records (canboat-bridge/src/server/snapshot.rs)\<close>

text \<open>
  The cache of Snapshot fed with decoded records instead of lines: the key is read from the fields, and the line is written when a client
  asks for it.  A record whose key is in a repeating set is stored once for each of its iterations.
\<close>

definition field_value_text :: "'f float_text \<Rightarrow> 'f decoded_field \<Rightarrow> string option" where
  "field_value_text tx f =
     (case df_value f of
        FvLookup v _ \<Rightarrow> Some (show_nat (unat v))
      | FvInteger v \<Rightarrow> Some (show_i64 v)
      | FvNumber v \<Rightarrow> Some (tx_display tx v)
      | FvFloat v \<Rightarrow> Some (tx_display tx v)
      | FvString s \<Rightarrow> Some (chars_text s)
      | FvMmsi v \<Rightarrow> Some (show_nat (unat v))
      | FvPgn v _ \<Rightarrow> Some (show_nat (unat v))
      | FvDate v \<Rightarrow> Some (show_nat (unat v))
      | FvTime raw _ \<Rightarrow> Some (show_i64 raw)
      | _ \<Rightarrow> None)"

definition top_field_text :: "'f float_text \<Rightarrow> 'f decoded_pgn \<Rightarrow> 'f field_info \<Rightarrow> string option" where
  "top_field_text tx d f =
     Option.bind (find (\<lambda>x. df_repeat_set x = 0 \<and> fi_order (df_info x) = fi_order f) (dp_fields d)) (field_value_text tx)"

definition iter_field_text :: "'f float_text \<Rightarrow> 'f decoded_pgn \<Rightarrow> u8 \<Rightarrow> u32 \<Rightarrow> 'f field_info \<Rightarrow> string option" where
  "iter_field_text tx d rs it f =
     Option.bind (find (\<lambda>x. df_repeat_set x = rs \<and> df_repeat_index x = Some it \<and> fi_order (df_info x) = fi_order f) (dp_fields d))
       (field_value_text tx)"

definition collect_iter_indexes :: "'f decoded_pgn \<Rightarrow> u8 \<Rightarrow> u32 list" where
  "collect_iter_indexes d rs =
     sort (remdups (List.map_filter (\<lambda>f. if df_repeat_set f = rs then df_repeat_index f else None) (dp_fields d)))"

definition iter_record :: "'f decoded_pgn \<Rightarrow> u8 \<Rightarrow> u32 \<Rightarrow> 'f decoded_pgn" where
  "iter_record d rs it =
     d\<lparr>dp_fields := map (\<lambda>f. if df_repeat_set f = rs then DecodedField (df_info f) (df_value f) (df_bit_offset f) (df_bit_length f) (Some 0) (df_repeat_set f) (df_overrides f) else f)
       (filter (\<lambda>f. df_repeat_set f = 0 \<or> df_repeat_set f = rs \<and> df_repeat_index f = Some it) (dp_fields d))\<rparr>"

definition synthesize_iter_line :: "'f float_text \<Rightarrow> json_options \<Rightarrow> 'f decoded_pgn \<Rightarrow> u8 \<Rightarrow> u32 \<Rightarrow> string" where
  "synthesize_iter_line tx opts d rs it = write_json tx opts (iter_record d rs it)"

definition store_whole ::
  "'f float_text \<Rightarrow> json_options \<Rightarrow> 'f decoded_pgn \<Rightarrow> string option \<Rightarrow> bool \<Rightarrow> nat \<Rightarrow> snapshot_store \<Rightarrow> snapshot_store" where
  "store_whole tx opts d secondary is_ais now s =
     store_lazy (dp_pgn d) (dp_src d) secondary is_ais (dp_description d) (\<lambda>_. write_json tx opts d) now s"

definition store_per_iteration ::
  "'f float_text \<Rightarrow> json_options \<Rightarrow> 'f decoded_pgn \<Rightarrow> 'f pgn_info \<Rightarrow> u8 \<Rightarrow> bool \<Rightarrow> nat \<Rightarrow> snapshot_store \<Rightarrow> snapshot_store" where
  "store_per_iteration tx opts d info rs is_ais now s =
     foldl (\<lambda>s it. store_lazy (dp_pgn d) (dp_src d)
         (per_iteration_secondary info rs it (top_field_text tx d) (\<lambda>f i. iter_field_text tx d rs i f))
         is_ais (dp_description d) (\<lambda>_. synthesize_iter_line tx opts d rs it) now s)
       s (collect_iter_indexes d rs)"

definition store_decoded ::
  "'f float_text \<Rightarrow> json_options \<Rightarrow> 'f pgn_database \<Rightarrow> 'f decoded_pgn \<Rightarrow> nat \<Rightarrow> snapshot_store \<Rightarrow> snapshot_store" where
  "store_decoded tx opts db d now s =
     (let is_ais = is_ais_pgn (dp_pgn d) in
      case first_pgn db (dp_pgn d) of
        None \<Rightarrow> store_whole tx opts d None is_ais now s
      | Some info \<Rightarrow>
          (case repeating_pk_set info of
             Some rs \<Rightarrow> store_per_iteration tx opts d info rs is_ais now s
           | None \<Rightarrow> store_whole tx opts d (composite_secondary info (top_field_text tx d)) is_ais now s))"

end
