(* ===== verification/Quirks.thy ===== *)
theory Quirks
  imports Ais_Messages Encode Requests Responder Address_Claim Timestamp Message Overrides
begin

unbundle bit_operations_syntax

section \<open>Device quirks (canboat-bridge/src/server/quirks)\<close>

text \<open>
  Workarounds for three devices: each sees every decoded PGN and returns frames to send.  Instants are milliseconds on a monotonic clock as in
  Requests, \<open>host\<close> is the host's clock in milliseconds since 1970.  The embedded SI database, the generated \<open>FieldRef\<close>
  constants (as in Ais\_Messages) and the crate world\_magnetic\_model with its dates are the environment.
\<close>

record 'f quirk_env =
  qe_ais :: "'f ais_env"
  qe_si :: "'f pgn_database"
  qe_variation :: "'f \<Rightarrow> 'f \<Rightarrow> int \<times> int \<times> int \<Rightarrow> 'f option"

abbreviation qe_fo :: "'f quirk_env \<Rightarrow> 'f float_ops" where "qe_fo e \<equiv> ae_fo (qe_ais e)"
abbreviation qe_field :: "'f quirk_env \<Rightarrow> string \<Rightarrow> string \<Rightarrow> 'f field_info" where "qe_field e \<equiv> ae_field (qe_ais e)"
abbreviation qe_int :: "'f quirk_env \<Rightarrow> 'f decoded_pgn \<Rightarrow> string \<Rightarrow> string \<Rightarrow> i64 option" where
  "qe_int e d m c \<equiv> ais_int_field (qe_ais e) d (qe_field e m c)"

text \<open>\<open>b.push(field, value)?\<close> for a list of fields, and the frame of \<open>b.build()\<close>, if there is one.\<close>

primrec push_all :: "'f float_ops \<Rightarrow> ('f field_info \<times> 'f encode_value) list \<Rightarrow> 'f pgn_builder \<Rightarrow> 'f encode_error + 'f pgn_builder" where
  "push_all fo [] b = Inr b"
| "push_all fo (v # vs) b = and_then (builder_push fo (fst v) (snd v) b) (push_all fo vs)"

definition built :: "'f encode_error + raw_frame \<Rightarrow> raw_frame option" where
  "built r = (case r of Inr f \<Rightarrow> Some f | Inl _ \<Rightarrow> None)"

definition ev_text :: "string \<Rightarrow> 'f encode_value" where
  "ev_text s = EvText (map of_char s)"

definition product_values :: "'f quirk_env \<Rightarrow> product_info \<Rightarrow> ('f field_info \<times> 'f encode_value) list" where
  "product_values e p =
     (let f = qe_field e ''product_information'' in
      [(f ''NMEA2000_VERSION'', EvInt (pi_db_version p)), (f ''PRODUCT_CODE'', EvInt (pi_product_code p)),
       (f ''MODEL_ID'', ev_text (pi_model_id p)), (f ''SOFTWARE_VERSION_CODE'', ev_text (pi_software_version p)),
       (f ''MODEL_VERSION'', ev_text (pi_model_version p)), (f ''MODEL_SERIAL_CODE'', ev_text (pi_model_serial p)),
       (f ''CERTIFICATION_LEVEL'', EvInt (pi_certification_level p)), (f ''LOAD_EQUIVALENCY'', EvInt (pi_load_equivalency p))])"

text \<open>\<open>ProductInfo::frame\<close> of nmea\_responder.rs.\<close>

definition product_info_frame :: "'f quirk_env \<Rightarrow> product_info \<Rightarrow> u8 \<Rightarrow> raw_frame option" where
  "product_info_frame e p src =
     built (and_then (encode (qe_si e) ''productInformation'') (\<lambda>b.
            and_then (push_all (qe_fo e) (product_values e p) (b\<lparr>pb_src := src\<rparr>)) builder_build))"

subsection \<open>The SCX-20 (scx20.rs)\<close>

definition FURUNO_MFG :: u16 where "FURUNO_MFG = 1855"
definition NAV_CLASS :: u8 where "NAV_CLASS = 60"
definition SCX20_FUNCTION :: u8 where "SCX20_FUNCTION = 140"
definition MIN_SYNTH_GAP :: int where "MIN_SYNTH_GAP = 1000"

definition SCX20_INFO :: product_info where
  "SCX20_INFO =
     \<lparr>pi_db_version = 2100, pi_product_code = 10571, pi_model_id = ''SCX-20'', pi_software_version = ''2051601-01.04'',
      pi_model_version = ''20P8235-00'', pi_model_serial = ''100118101056'', pi_certification_level = 2, pi_load_equivalency = 4\<rparr>"

type_synonym scx20 = "u8 \<Rightarrow> int option"

definition is_scx20_name :: "u64 \<Rightarrow> bool" where
  "is_scx20_name nm \<longleftrightarrow>
     (let mfg = (ucast (drop_bit 21 nm AND 0x7FF) :: u16); function = (ucast (drop_bit 40 nm AND 0xFF) :: u8);
          cls = (ucast (drop_bit 49 nm AND 0x7F) :: u8)
      in mfg = FURUNO_MFG \<and> cls = NAV_CLASS \<and> function = SCX20_FUNCTION)"

definition build_scx20_product_info :: "'f quirk_env \<Rightarrow> u64 \<Rightarrow> u8 \<Rightarrow> raw_frame option" where
  "build_scx20_product_info e host src =
     built (and_then (encode (qe_si e) ''productInformation'') (\<lambda>b.
            and_then (push_all (qe_fo e) (product_values e SCX20_INFO)
              (b\<lparr>pb_prio := 6, pb_src := src, pb_dst := ADDR_GLOBAL, pb_timestamp := Some (format_iso (unat host))\<rparr>)) builder_build))"

definition scx20_targets :: "u8 \<Rightarrow> scx20 \<Rightarrow> u8 list" where
  "scx20_targets dst q =
     (if dst = ADDR_GLOBAL then filter (\<lambda>s. q s \<noteq> None) (map word_of_nat [0..<256])
      else if q dst \<noteq> None then [dst] else [])"

text \<open>One unit the request reaches: the stamp of its last answer, and the answer unless it is too early.\<close>

definition scx20_answer :: "'f quirk_env \<Rightarrow> u64 \<Rightarrow> int \<Rightarrow> u8 \<Rightarrow> scx20 \<times> raw_frame list \<Rightarrow> scx20 \<times> raw_frame list" where
  "scx20_answer e host now src st =
     (let (q, out) = st in
      case q src of
        None \<Rightarrow> st
      | Some prev \<Rightarrow>
          if duration_since now prev < MIN_SYNTH_GAP then st
          else (q(src := Some now), out @ (case build_scx20_product_info e host src of Some f \<Rightarrow> [f] | None \<Rightarrow> [])))"

definition scx20_process :: "'f quirk_env \<Rightarrow> u64 \<Rightarrow> 'f decoded_pgn \<Rightarrow> int \<Rightarrow> scx20 \<Rightarrow> scx20 \<times> raw_frame list" where
  "scx20_process e host d now q =
     (if dp_pgn d = PGN_ISO_ADDRESS_CLAIM then
        (case iso_name (qe_fo e) d of
           Some nm \<Rightarrow> if is_scx20_name nm \<and> q (dp_src d) = None then (q(dp_src d := Some (now - MIN_SYNTH_GAP)), []) else (q, [])
         | None \<Rightarrow> (q, []))
      else if dp_pgn d \<noteq> PGN_ISO_REQUEST then (q, [])
      else if qe_int e d ''iso_request'' ''PGN'' \<noteq> Some (ucast PGN_PRODUCT_INFO) then (q, [])
      else fold (scx20_answer e host now) (scx20_targets (dp_dst d) q) (q, []))"

subsection \<open>Magnetic variation (wmm.rs)\<close>

definition PGN_POSITION_RAPID :: u32 where "PGN_POSITION_RAPID = 129025"
definition PGN_GNSS_POSITION :: u32 where "PGN_GNSS_POSITION = 129029"
definition PGN_SYSTEM_TIME :: u32 where "PGN_SYSTEM_TIME = 126992"
definition PGN_MAGNETIC_VARIATION :: u32 where "PGN_MAGNETIC_VARIATION = 127258"
definition SOURCE_WMM_2025 :: i64 where "SOURCE_WMM_2025 = 9"
definition COMPUTE_INTERVAL :: int where "COMPUTE_INTERVAL = 600000"
definition EMIT_INTERVAL :: int where "EMIT_INTERVAL = 1000"

record 'f wmm =
  wm_last_pos :: "('f \<times> 'f) option"
  wm_last_days :: "u16 option"
  wm_cached_rad :: "'f option"
  wm_last_compute :: "int option"
  wm_last_emit :: "int option"
  wm_asked_stop :: "u8 \<Rightarrow> bool"

definition wmm_new :: "'f wmm" where
  "wmm_new = \<lparr>wm_last_pos = None, wm_last_days = None, wm_cached_rad = None, wm_last_compute = None, wm_last_emit = None,
     wm_asked_stop = (\<lambda>_. False)\<rparr>"

definition host_days :: "u64 \<Rightarrow> u16" where
  "host_days host = ucast (host div 1000 div 86400)"

definition observe_position :: "'f quirk_env \<Rightarrow> 'f decoded_pgn \<Rightarrow> string \<Rightarrow> 'f wmm \<Rightarrow> 'f wmm" where
  "observe_position e d m w =
     (case (num_field (qe_ais e) d (qe_field e m ''LATITUDE''), num_field (qe_ais e) d (qe_field e m ''LONGITUDE'')) of
        (Some lat, Some lon) \<Rightarrow> w\<lparr>wm_last_pos := Some (lat, lon)\<rparr>
      | _ \<Rightarrow> w)"

definition observe_date :: "'f quirk_env \<Rightarrow> 'f decoded_pgn \<Rightarrow> string \<Rightarrow> 'f wmm \<Rightarrow> 'f wmm" where
  "observe_date e d m w =
     (case qe_int e d m ''DATE'' of
        Some days \<Rightarrow> if 0 \<le>s days \<and> days \<le>s 0xFFFF then w\<lparr>wm_last_days := Some (ucast days)\<rparr> else w
      | None \<Rightarrow> w)"

definition maybe_request_stop :: "'f quirk_env \<Rightarrow> 'f decoded_pgn \<Rightarrow> 'f wmm \<Rightarrow> 'f wmm \<times> raw_frame option" where
  "maybe_request_stop e d w =
     (case qe_int e d ''magnetic_variation'' ''SOURCE'' of
        None \<Rightarrow> (w, None)
      | Some source \<Rightarrow>
          if \<not> (4 \<le>s source \<and> source \<le>s 8) then (w, None)
          else let seen = wm_asked_stop w (dp_src d); w = w\<lparr>wm_asked_stop := (wm_asked_stop w)(dp_src d := True)\<rparr> in
            if seen then (w, None) else (w, Some (request_interval_frame (dp_src d) PGN_MAGNETIC_VARIATION 0 None None)))"

definition build_variation :: "'f quirk_env \<Rightarrow> u64 \<Rightarrow> 'f \<Rightarrow> u16 \<Rightarrow> raw_frame option" where
  "build_variation e host rad age =
     (let f = qe_field e ''magnetic_variation'' in
      built (and_then (encode (qe_si e) ''magneticVariation'') (\<lambda>b.
            and_then (push_all (qe_fo e) [(f ''SOURCE'', EvInt SOURCE_WMM_2025), (f ''VARIATION'', EvNumber rad), (f ''AGE_OF_SERVICE'', EvInt (ucast age))]
              (b\<lparr>pb_prio := 7, pb_src := ADDR_GLOBAL, pb_timestamp := Some (format_iso (unat host))\<rparr>)) builder_build)))"

definition maybe_emit :: "'f quirk_env \<Rightarrow> u64 \<Rightarrow> int \<Rightarrow> 'f wmm \<Rightarrow> 'f wmm \<times> raw_frame option" where
  "maybe_emit e host now w =
     (case wm_last_pos w of
        None \<Rightarrow> (w, None)
      | Some (lat, lon) \<Rightarrow>
          if (case wm_last_emit w of Some t \<Rightarrow> duration_since now t < EMIT_INTERVAL | None \<Rightarrow> False) then (w, None)
          else let due = (case wm_last_compute w of None \<Rightarrow> True | Some t \<Rightarrow> duration_since now t \<ge> COMPUTE_INTERVAL);
                   days = or_default (host_days host) (wm_last_days w);
                   w = (if wm_cached_rad w = None \<or> due then
                          (case qe_variation e lat lon (days_to_ymd (uint days)) of
                             Some rad \<Rightarrow> w\<lparr>wm_cached_rad := Some rad\<rparr>
                           | None \<Rightarrow> w)\<lparr>wm_last_compute := Some now\<rparr>
                        else w)
               in case wm_cached_rad w of
                    None \<Rightarrow> (w, None)
                  | Some rad \<Rightarrow>
                      (case build_variation e host rad days of
                         None \<Rightarrow> (w, None)
                       | Some f \<Rightarrow> (w\<lparr>wm_last_emit := Some now\<rparr>, Some f)))"

definition wmm_process :: "'f quirk_env \<Rightarrow> u64 \<Rightarrow> 'f decoded_pgn \<Rightarrow> int \<Rightarrow> 'f wmm \<Rightarrow> 'f wmm \<times> raw_frame list" where
  "wmm_process e host d now w =
     (let (w, out) =
        (if dp_pgn d = PGN_POSITION_RAPID then (observe_position e d ''position_rapid_update'' w, [])
         else if dp_pgn d = PGN_GNSS_POSITION then
           (observe_date e d ''gnss_position_data'' (observe_position e d ''gnss_position_data'' w), [])
         else if dp_pgn d = PGN_SYSTEM_TIME then (observe_date e d ''system_time'' w, [])
         else if dp_pgn d = PGN_MAGNETIC_VARIATION then
           (case maybe_request_stop e d w of (w, Some f) \<Rightarrow> (w, [f]) | (w, None) \<Rightarrow> (w, []))
         else (w, []));
          (w, f) = maybe_emit e host now w
      in (w, out @ (case f of Some f \<Rightarrow> [f] | None \<Rightarrow> [])))"

subsection \<open>The motion sensor (motion.rs)\<close>

definition PGN_BG_RATES :: u32 where "PGN_BG_RATES = 130824"
definition PGN_SCX_6DOF :: u32 where "PGN_SCX_6DOF = 130842"
definition KEY_ROLL_RATE :: u16 where "KEY_ROLL_RATE = 60"
definition KEY_PITCH_RATE :: u16 where "KEY_PITCH_RATE = 158"
definition KEY_YAW_RATE :: u16 where "KEY_YAW_RATE = 68"
definition MFG_BANDG :: u16 where "MFG_BANDG = 381"
definition INDUSTRY_MARINE :: u16 where "INDUSTRY_MARINE = 4"
definition PREFERRED_ADDRESS :: u8 where "PREFERRED_ADDRESS = 24"

definition MOTION_INFO :: product_info where
  "MOTION_INFO =
     \<lparr>pi_db_version = 2100, pi_product_code = 21488, pi_model_id = ''H5000 Motion Sensor'', pi_software_version = ''1.2.4'',
      pi_model_version = ''Motion'', pi_model_serial = ''canboat'', pi_certification_level = 2, pi_load_equivalency = 1\<rparr>"

definition MOTION_TX_PGN_LIST :: "u32 list" where "MOTION_TX_PGN_LIST = [PGN_ISO_ADDRESS_CLAIM, PGN_PRODUCT_INFO, PGN_PGN_LIST, PGN_BG_RATES]"
definition MOTION_RX_PGN_LIST :: "u32 list" where "MOTION_RX_PGN_LIST = [PGN_ISO_REQUEST, PGN_ISO_ADDRESS_CLAIM, PGN_SCX_6DOF]"

record motion =
  mo_claim :: address_claim
  mo_base :: "int option"
  mo_started :: bool
  mo_rate_source :: "u8 option"

definition motion_name :: "u64 \<Rightarrow> u64" where
  "motion_name machine_id = name_to_u64 (set_device_class 60 (set_device_function 140 (name_new MFG_BANDG (ucast machine_id))))"

definition motion_new :: "u64 \<Rightarrow> motion" where
  "motion_new machine_id =
     \<lparr>mo_claim = ac_new (motion_name machine_id) PREFERRED_ADDRESS True, mo_base = None, mo_started = False, mo_rate_source = None\<rparr>"

definition header_manufacturer :: "u8 list \<Rightarrow> u16 option" where
  "header_manufacturer data = (if length data < 2 then None else Some (from_le [data ! 0, data ! 1] AND 0x07ff))"

text \<open>An \<open>i32\<close> is its 32-bit word.\<close>

definition scx_6dof_rates :: "u8 list \<Rightarrow> (u32 \<times> u32 \<times> u32) option" where
  "scx_6dof_rates data =
     (let at = (\<lambda>i. if i + 4 \<le> length data then Some (from_le (take 4 (drop i data)) :: u32) else None) in
      case (at 15, at 19, at 23) of
        (Some roll, Some pitch, Some yaw) \<Rightarrow> Some (roll, pitch, yaw)
      | _ \<Rightarrow> None)"

definition transcode_rate :: "'f quirk_env \<Rightarrow> u32 \<Rightarrow> u32" where
  "transcode_rate e scx_count =
     (let fo = qe_fo e;
          scx_lsb = fo_div fo (fo_mul fo (fo_lit fo ''0.001'') (fo_lit fo ''3.14159265358979323846264338327950288'')) (fo_lit fo ''180.0'');
          rad_s = fo_mul fo (fo_of_i64 fo (scast scx_count)) scx_lsb;
          x = fo_round fo (fo_div fo rad_s (fo_lit fo ''3.125e-8''));
          lo = fo_of_i64 fo (- 0x80000000); hi = fo_of_i64 fo 0x7FFFFFFF;
          x = (if fo_le fo x lo \<and> \<not> fo_eq fo x lo then lo else if fo_le fo hi x \<and> \<not> fo_eq fo x hi then hi else x)
      in ucast (fo_to_i64 fo x))"

definition build_130824_payload :: "'f quirk_env \<Rightarrow> u32 \<Rightarrow> u32 \<Rightarrow> u32 \<Rightarrow> u8 list" where
  "build_130824_payload e roll pitch yaw =
     (let header = MFG_BANDG OR push_bit 11 3 OR push_bit 13 INDUSTRY_MARINE in
      le_bytes 2 header @
      concat (map (\<lambda>(key, count). le_bytes 2 ((key AND 0x0fff) OR push_bit 12 4) @ le_bytes 4 (transcode_rate e count))
        [(KEY_ROLL_RATE, roll), (KEY_PITCH_RATE, pitch), (KEY_YAW_RATE, yaw)]))"

definition maybe_emit_rates :: "'f quirk_env \<Rightarrow> 'f decoded_pgn \<Rightarrow> motion \<Rightarrow> motion \<times> raw_frame option" where
  "maybe_emit_rates e d m =
     (case claimed_address (mo_claim m) of
        None \<Rightarrow> (m, None)
      | Some addr \<Rightarrow>
          if dp_src d = addr then (m, None)
          else if header_manufacturer (dp_data d) \<noteq> Some FURUNO_MFG then (m, None)
          else case scx_6dof_rates (dp_data d) of
            None \<Rightarrow> (m, None)
          | Some (roll, pitch, yaw) \<Rightarrow>
              (let m = (if mo_rate_source m = None then m\<lparr>mo_rate_source := Some (dp_src d)\<rparr> else m) in
               if mo_rate_source m \<noteq> Some (dp_src d) then (m, None)
               else (m, Some (raw_frame_new None 3 PGN_BG_RATES addr ADDR_GLOBAL (build_130824_payload e roll pitch yaw)))))"

definition motion_product_info :: "'f quirk_env \<Rightarrow> motion \<Rightarrow> raw_frame option" where
  "motion_product_info e m = Option.bind (claimed_address (mo_claim m)) (product_info_frame e MOTION_INFO)"

definition motion_pgn_lists :: "motion \<Rightarrow> raw_frame list" where
  "motion_pgn_lists m =
     (case claimed_address (mo_claim m) of Some addr \<Rightarrow> pgn_list_frames addr ADDR_GLOBAL MOTION_TX_PGN_LIST MOTION_RX_PGN_LIST | None \<Rightarrow> [])"

definition frame_list :: "raw_frame option \<Rightarrow> raw_frame list" where
  "frame_list f = (case f of Some f \<Rightarrow> [f] | None \<Rightarrow> [])"

definition motion_handle_request :: "'f quirk_env \<Rightarrow> 'f decoded_pgn \<Rightarrow> motion \<Rightarrow> raw_frame list" where
  "motion_handle_request e d m =
     (case qe_int e d ''iso_request'' ''PGN'' of
        None \<Rightarrow> []
      | Some v \<Rightarrow>
          (let requested = (ucast v :: u32) in
           if \<not> (claimed_address (mo_claim m) = Some (dp_dst d) \<or> dp_dst d = ADDR_GLOBAL) then []
           else if requested = PGN_ISO_ADDRESS_CLAIM then frame_list (respond_to_claim_request (mo_claim m))
           else if requested = PGN_PRODUCT_INFO then frame_list (motion_product_info e m)
           else if requested = PGN_PGN_LIST then motion_pgn_lists m
           else []))"

definition stamp_frames :: "u64 \<Rightarrow> raw_frame list \<Rightarrow> raw_frame list" where
  "stamp_frames host = map (\<lambda>f. if rf_timestamp f = None then f\<lparr>rf_timestamp := Some (format_iso (unat host))\<rparr> else f)"

definition motion_start :: "u64 \<Rightarrow> motion \<Rightarrow> motion \<times> raw_frame list" where
  "motion_start now_ms m =
     (if mo_started m then (m, [])
      else let (c, fs) = ac_start (mo_claim m) now_ms in (m\<lparr>mo_started := True, mo_claim := c\<rparr>, fs))"

definition motion_handle :: "'f quirk_env \<Rightarrow> 'f decoded_pgn \<Rightarrow> u64 \<Rightarrow> motion \<Rightarrow> motion \<times> raw_frame list" where
  "motion_handle e d now_ms m =
     (if dp_pgn d = PGN_ISO_ADDRESS_CLAIM then
        (case iso_name (qe_fo e) d of
           Some their_name \<Rightarrow> (let (c, fs) = on_address_claim (mo_claim m) now_ms (dp_src d) their_name in (m\<lparr>mo_claim := c\<rparr>, fs))
         | None \<Rightarrow> (m, []))
      else if dp_pgn d = PGN_ISO_REQUEST then (m, motion_handle_request e d m)
      else if dp_pgn d = PGN_SCX_6DOF then (let (m, f) = maybe_emit_rates e d m in (m, frame_list f))
      else (m, []))"

definition motion_tick :: "'f quirk_env \<Rightarrow> u64 \<Rightarrow> bool \<Rightarrow> motion \<Rightarrow> motion \<times> raw_frame list" where
  "motion_tick e now_ms was_claimed m =
     (let (c, fs) = ac_tick (mo_claim m) now_ms; m = m\<lparr>mo_claim := c\<rparr> in
      (m, fs @ (if \<not> was_claimed \<and> claimed_address c \<noteq> None then frame_list (motion_product_info e m) else [])))"

definition motion_process :: "'f quirk_env \<Rightarrow> u64 \<Rightarrow> 'f decoded_pgn \<Rightarrow> int \<Rightarrow> motion \<Rightarrow> motion \<times> raw_frame list" where
  "motion_process e host d now m =
     (let base = or_default now (mo_base m); m = m\<lparr>mo_base := Some base\<rparr>;
          now_ms = word_of_int (duration_since now base);
          (m, started) = motion_start now_ms m;
          was_claimed = is_claimed (mo_claim m);
          (m, handled) = motion_handle e d now_ms m;
          (m, ticked) = motion_tick e now_ms was_claimed m
      in (m, stamp_frames host (started @ handled @ ticked)))"

subsection \<open>All quirks (mod.rs)\<close>

datatype quirk_kind = Scx20 | Wmm | Motion

record 'f quirks =
  qk_scx20 :: "scx20 option"
  qk_wmm :: "'f wmm option"
  qk_motion :: "motion option"

definition quirks_new :: "u64 \<Rightarrow> quirk_kind list \<Rightarrow> 'f quirks" where
  "quirks_new machine_id kinds =
     \<lparr>qk_scx20 = (if Scx20 \<in> set kinds then Some (\<lambda>_. None) else None),
      qk_wmm = (if Wmm \<in> set kinds then Some wmm_new else None),
      qk_motion = (if Motion \<in> set kinds then Some (motion_new machine_id) else None)\<rparr>"

definition quirks_enabled :: "'f quirks \<Rightarrow> bool" where
  "quirks_enabled q \<longleftrightarrow> qk_scx20 q \<noteq> None \<or> qk_wmm q \<noteq> None \<or> qk_motion q \<noteq> None"

definition step_quirk :: "('s \<Rightarrow> 's \<times> raw_frame list) \<Rightarrow> 's option \<Rightarrow> 's option \<times> raw_frame list" where
  "step_quirk f s = (case s of None \<Rightarrow> (None, []) | Some s \<Rightarrow> (let (s, out) = f s in (Some s, out)))"

definition process_decoded :: "'f quirk_env \<Rightarrow> u64 \<Rightarrow> 'f decoded_pgn \<Rightarrow> int \<Rightarrow> 'f quirks \<Rightarrow> 'f quirks \<times> raw_frame list" where
  "process_decoded e host d now q =
     (let (s, fs) = step_quirk (scx20_process e host d now) (qk_scx20 q);
          (w, gs) = step_quirk (wmm_process e host d now) (qk_wmm q);
          (m, hs) = step_quirk (motion_process e host d now) (qk_motion q)
      in (\<lparr>qk_scx20 = s, qk_wmm = w, qk_motion = m\<rparr>, fs @ gs @ hs))"

subsection \<open>Frames built under an address\<close>

lemma built_iff: "built r = Some f \<longleftrightarrow> r = Inr f"
  by (auto simp: built_def split: sum.split)

lemma push_all_header:
  "push_all fo vs b = Inr b' \<Longrightarrow> pb_src b' = pb_src b \<and> pb_dst b' = pb_dst b \<and> pb_prio b' = pb_prio b \<and> pb_pgn b' = pb_pgn b"
proof (induction vs arbitrary: b)
  case (Cons v vs)
  then obtain b1 where b1: "builder_push fo (fst v) (snd v) b = Inr b1" "push_all fo vs b1 = Inr b'"
    by (auto simp: and_then_eq_Inr_iff)
  have "pb_src b1 = pb_src b \<and> pb_dst b1 = pb_dst b \<and> pb_prio b1 = pb_prio b \<and> pb_pgn b1 = pb_pgn b"
    using b1(1) by (auto simp: builder_push_def stage_at_def Let_def and_then_eq_Inr_iff split: if_splits)
  then show ?case using Cons.IH [OF b1(2)] by simp
qed simp

lemma built_header:
  assumes "built (and_then (encode db i) (\<lambda>b. and_then (push_all fo vs (put b)) builder_build)) = Some f"
  shows "\<exists>b. rf_src f = pb_src (put b) \<and> rf_dst f = pb_dst (put b)"
proof -
  obtain b b' where b: "encode db i = Inr b" "push_all fo vs (put b) = Inr b'" "builder_build b' = Inr f"
    using assms by (auto simp: built_iff and_then_eq_Inr_iff)
  have "rf_src f = pb_src b'" "rf_dst f = pb_dst b'"
    using b(3) by (auto simp: builder_build_def Let_def and_then_eq_Inr_iff split: prod.splits option.splits if_splits)
  then show ?thesis using push_all_header [OF b(2)] by auto
qed

lemma scx20_info_src: "build_scx20_product_info e host src = Some f \<Longrightarrow> rf_src f = src \<and> rf_dst f = ADDR_GLOBAL"
  unfolding build_scx20_product_info_def by (drule built_header) auto

subsection \<open>Answers in the name of a unit\<close>

definition scx20_due :: "int \<Rightarrow> scx20 \<Rightarrow> u8 \<Rightarrow> bool" where
  "scx20_due now q s = (case q s of Some t \<Rightarrow> MIN_SYNTH_GAP \<le> now - t | None \<Rightarrow> False)"

lemma scx20_answer_alt:
  "scx20_answer e host now s (q, out) =
     (if scx20_due now q s then (q(s := Some now), out @ frame_list (build_scx20_product_info e host s)) else (q, out))"
  by (auto simp: scx20_answer_def scx20_due_def duration_since_def MIN_SYNTH_GAP_def frame_list_def split: option.split)

lemma scx20_due_stamped: "scx20_due now (q(s := Some now)) r = (r \<noteq> s \<and> scx20_due now q r)"
  by (simp add: scx20_due_def MIN_SYNTH_GAP_def)

lemma scx20_answers:
  "distinct ss \<Longrightarrow> fold (scx20_answer e host now) ss (q, out) =
     (\<lambda>s. if s \<in> set ss \<and> scx20_due now q s then Some now else q s,
      out @ concat (map (\<lambda>s. frame_list (build_scx20_product_info e host s)) (filter (scx20_due now q) ss)))"
proof (induction ss arbitrary: q out)
  case (Cons s ss)
  have same: "filter (\<lambda>r. r \<noteq> s \<and> scx20_due now q r) ss = filter (scx20_due now q) ss"
    using Cons.prems by (intro filter_cong) auto
  show ?case
  proof (cases "scx20_due now q s")
    case True
    have "fold (scx20_answer e host now) (s # ss) (q, out) =
        fold (scx20_answer e host now) ss (q(s := Some now), out @ frame_list (build_scx20_product_info e host s))"
      using True by (simp add: scx20_answer_alt)
    also have "\<dots> = (\<lambda>r. if r \<in> set ss \<and> r \<noteq> s \<and> scx20_due now q r then Some now else (q(s := Some now)) r,
        (out @ frame_list (build_scx20_product_info e host s)) @
        concat (map (\<lambda>s. frame_list (build_scx20_product_info e host s)) (filter (scx20_due now q) ss)))"
      using Cons.prems by (simp only: Cons.IH distinct.simps scx20_due_stamped same)
    finally show ?thesis using True by auto
  qed (use Cons in \<open>auto simp: scx20_answer_alt\<close>)
qed simp

lemma scx20_targets_distinct: "distinct (scx20_targets dst q)"
proof -
  have "inj_on (word_of_nat :: nat \<Rightarrow> u8) {0..<256}"
    by (rule inj_onI) (metis atLeastLessThan_iff unat_u8_of_nat)
  then show ?thesis by (simp add: scx20_targets_def distinct_map inj_on_def)
qed

text \<open>Every stamp is older than the time; an answer replaces it, and nothing else moves it.\<close>

lemma scx20_step:
  assumes "scx20_process e host d now q = (q', out)"
  shows "f \<in> set out \<Longrightarrow> scx20_due now q (rf_src f) \<and> q' (rf_src f) = Some now"
    and "q s = Some t \<Longrightarrow> q' s = Some t \<or> q' s = Some now \<and> t \<le> now"
    and "q s = None \<Longrightarrow> q' s \<noteq> None \<Longrightarrow>
      dp_pgn d = PGN_ISO_ADDRESS_CLAIM \<and> dp_src d = s \<and> (\<exists>nm. iso_name (qe_fo e) d = Some nm \<and> is_scx20_name nm)"
proof -
  let ?ts = "scx20_targets (dp_dst d) q"
  have run: "fold (scx20_answer e host now) ?ts (q, []) =
      (\<lambda>s. if s \<in> set ?ts \<and> scx20_due now q s then Some now else q s,
       concat (map (\<lambda>s. frame_list (build_scx20_product_info e host s)) (filter (scx20_due now q) ?ts)))"
    by (simp add: scx20_answers scx20_targets_distinct)
  have src: "rf_src f = s" if "f \<in> set (frame_list (build_scx20_product_info e host s))" for f s
    using that scx20_info_src [of e host s f] by (auto simp: frame_list_def split: option.splits)
  show "f \<in> set out \<Longrightarrow> scx20_due now q (rf_src f) \<and> q' (rf_src f) = Some now"
    using assms unfolding scx20_process_def run
    by (auto dest!: src split: if_splits option.splits)
  show "q s = Some t \<Longrightarrow> q' s = Some t \<or> q' s = Some now \<and> t \<le> now"
    using assms unfolding scx20_process_def run
    by (auto simp: scx20_due_def MIN_SYNTH_GAP_def split: if_splits option.splits)
  show "q s = None \<Longrightarrow> q' s \<noteq> None \<Longrightarrow>
      dp_pgn d = PGN_ISO_ADDRESS_CLAIM \<and> dp_src d = s \<and> (\<exists>nm. iso_name (qe_fo e) d = Some nm \<and> is_scx20_name nm)"
    using assms unfolding scx20_process_def run
    by (auto simp: scx20_due_def split: if_splits option.splits)
qed

text \<open>A run over the host clock, the record and the time of each turn.\<close>

primrec scx20_run :: "'f quirk_env \<Rightarrow> scx20 \<Rightarrow> (u64 \<times> 'f decoded_pgn \<times> int) list \<Rightarrow> raw_frame list list" where
  "scx20_run e q [] = []"
| "scx20_run e q (x # xs) =
     (let (q', out) = scx20_process e (fst x) (fst (snd x)) (snd (snd x)) q in out # scx20_run e q' xs)"

definition claims_scx20 :: "'f quirk_env \<Rightarrow> 'f decoded_pgn \<Rightarrow> u8 \<Rightarrow> bool" where
  "claims_scx20 e d s \<longleftrightarrow>
     dp_pgn d = PGN_ISO_ADDRESS_CLAIM \<and> dp_src d = s \<and> (\<exists>nm. iso_name (qe_fo e) d = Some nm \<and> is_scx20_name nm)"

lemma scx20_later_answer:
  "q (rf_src g) = Some t \<Longrightarrow> j < length xs \<Longrightarrow> g \<in> set (scx20_run e q xs ! j) \<Longrightarrow> MIN_SYNTH_GAP \<le> snd (snd (xs ! j)) - t"
proof (induction xs arbitrary: q t j)
  case (Cons x xs)
  obtain q' out where p: "scx20_process e (fst x) (fst (snd x)) (snd (snd x)) q = (q', out)" by fastforce
  show ?case
  proof (cases j)
    case 0
    then show ?thesis using Cons.prems p scx20_step(1) [OF p, of g] by (auto simp: scx20_due_def)
  next
    case (Suc i)
    have "q' (rf_src g) = Some t \<or> q' (rf_src g) = Some (snd (snd x)) \<and> t \<le> snd (snd x)"
      using scx20_step(2) [OF p Cons.prems(1)] .
    then show ?thesis using Cons.IH [of q' t i] Cons.IH [of q' "snd (snd x)" i] Cons.prems p Suc by auto
  qed
qed simp

lemma scx20_spaced:
  "i < j \<Longrightarrow> j < length xs \<Longrightarrow> f \<in> set (scx20_run e q xs ! i) \<Longrightarrow> g \<in> set (scx20_run e q xs ! j) \<Longrightarrow> rf_src f = rf_src g \<Longrightarrow>
   MIN_SYNTH_GAP \<le> snd (snd (xs ! j)) - snd (snd (xs ! i))"
proof (induction xs arbitrary: q i j)
  case (Cons x xs)
  obtain q' out where p: "scx20_process e (fst x) (fst (snd x)) (snd (snd x)) q = (q', out)" by fastforce
  obtain j' where j: "j = Suc j'" using Cons.prems(1) by (cases j) auto
  show ?case
  proof (cases i)
    case 0
    then have "q' (rf_src g) = Some (snd (snd x))" using Cons.prems p scx20_step(1) [OF p, of f] by simp
    then show ?thesis using scx20_later_answer [of q' g "snd (snd x)" j' xs e] Cons.prems p j 0 by simp
  next
    case (Suc i')
    then show ?thesis using Cons.IH [of i' j' q'] Cons.prems p j by simp
  qed
qed simp

lemma scx20_claimed:
  "i < length xs \<Longrightarrow> f \<in> set (scx20_run e q xs ! i) \<Longrightarrow>
   q (rf_src f) \<noteq> None \<or> (\<exists>k<i. claims_scx20 e (fst (snd (xs ! k))) (rf_src f))"
proof (induction xs arbitrary: q i)
  case (Cons x xs)
  obtain q' out where p: "scx20_process e (fst x) (fst (snd x)) (snd (snd x)) q = (q', out)" by fastforce
  show ?case
  proof (cases i)
    case 0
    then show ?thesis using Cons.prems p scx20_step(1) [OF p, of f] by (auto simp: scx20_due_def split: option.splits)
  next
    case (Suc i')
    have "q' (rf_src f) \<noteq> None \<or> (\<exists>k<i'. claims_scx20 e (fst (snd (xs ! k))) (rf_src f))"
      using Cons.IH [of i' q'] Cons.prems p Suc by simp
    then show ?thesis
    proof (elim disjE exE conjE)
      assume "q' (rf_src f) \<noteq> None"
      then show ?thesis using scx20_step(3) [OF p, of "rf_src f"] Suc by (fastforce simp: claims_scx20_def)
    next
      fix k assume "k < i'" "claims_scx20 e (fst (snd (xs ! k))) (rf_src f)"
      then show ?thesis using Suc by (auto intro!: exI [of _ "Suc k"])
    qed
  qed
qed simp

text \<open>
  The quirk speaks only in the name of units that claimed their address with an SCX-20's NAME before, and in the name of each at most
  once a second.
\<close>

theorem scx20_answers_spaced:
  assumes "i < j" "j < length xs" "f \<in> set (scx20_run e (\<lambda>_. None) xs ! i)" "g \<in> set (scx20_run e (\<lambda>_. None) xs ! j)" "rf_src f = rf_src g"
  shows "1000 \<le> snd (snd (xs ! j)) - snd (snd (xs ! i)) \<and>
    (\<exists>k<i. dp_pgn (fst (snd (xs ! k))) = 60928 \<and> dp_src (fst (snd (xs ! k))) = rf_src f \<and>
       (\<exists>nm. iso_name (qe_fo e) (fst (snd (xs ! k))) = Some nm \<and> is_scx20_name nm))"
  using scx20_spaced [OF assms] scx20_claimed [OF _ assms(3)] assms(1,2)
  by (auto simp: MIN_SYNTH_GAP_def claims_scx20_def PGN_ISO_ADDRESS_CLAIM_def)

subsection \<open>A unit on the bus\<close>

definition demo_product_pgn :: "int pgn_info" where
  "demo_product_pgn = demo_pgn\<lparr>pg_pgn := 126996, pg_id := ''productInformation'', pg_length := None,
     pg_fields := [demo_field 1 ''Code'' 16 0 FtNumber, (demo_field 2 ''Text'' 0 0 FtStringLau)\<lparr>fi_bit_length := None\<rparr>]\<rparr>"

definition demo_product_db :: "int pgn_database" where
  "demo_product_db = demo_db\<lparr>db_pgns := [demo_product_pgn], db_pgn_index := [(126996, [0])]\<rparr>"

definition demo_texts :: "string list" where
  "demo_texts = [''MODEL_ID'', ''SOFTWARE_VERSION_CODE'', ''MODEL_VERSION'', ''MODEL_SERIAL_CODE'']"

definition demo_quirk_env :: "int quirk_env" where
  "demo_quirk_env =
     \<lparr>qe_ais = \<lparr>ae_text = \<lparr>tx_fo = demo_fo, tx_abs = abs, tx_sign_negative = (\<lambda>x. x < 0), tx_trunc = id, tx_powi10 = (\<lambda>n. 10 ^ n),
          tx_to_i128 = id, tx_to_u64 = word_of_int, tx_of_u64 = uint, tx_display = (\<lambda>_. []), tx_fixed = (\<lambda>_ _. [])\<rparr>,
        ae_sqrt = id, ae_field = (\<lambda>m c. demo_field (if c \<in> set demo_texts then 2 else 1) c 0 0 FtNumber), ae_pgn_id = id\<rparr>,
      qe_si = demo_product_db, qe_variation = (\<lambda>_ _ _. None)\<rparr>"

definition demo_value :: "string \<Rightarrow> i64 \<Rightarrow> int decoded_field" where
  "demo_value nm v = DecodedField (demo_field 1 nm 0 0 FtNumber) (FvInteger v) None None None 0 None"

definition demo_seen :: "u32 \<Rightarrow> u8 \<Rightarrow> int decoded_field list \<Rightarrow> int decoded_pgn" where
  "demo_seen pgn src fs =
     \<lparr>dp_timestamp = None, dp_prio = 6, dp_pgn = pgn, dp_src = src, dp_dst = 33, dp_description = [], dp_id = [], dp_id_is_pinned = False,
      dp_data = [], dp_fields = fs, dp_has_repeating_set = (False, False), dp_index_by_order = [0]\<rparr>"

definition demo_turns :: "(u64 \<times> int decoded_pgn \<times> int) list" where
  "demo_turns =
     [(0, demo_seen 60928 33 [demo_value ''Manufacturer Code'' 1855, demo_value ''Device Function'' 140, demo_value ''Device Class'' 60], 0),
      (0, demo_seen 59904 7 [demo_value ''PGN'' 126996], 5000), (0, demo_seen 59904 7 [demo_value ''PGN'' 126996], 6000)]"

definition demo_ready :: "int pgn_builder \<Rightarrow> bool" where
  "demo_ready b \<longleftrightarrow> pb_pgn b = demo_product_pgn \<and> (\<exists>x y. pb_staged b = [x, y] \<and> (x = None \<or> (\<exists>v. x = Some (Scalar v))) \<and>
     (y = None \<or> (\<exists>v. y = Some (Bytes v))))"

definition demo_storable :: "int field_info \<times> int encode_value \<Rightarrow> bool" where
  "demo_storable fv \<longleftrightarrow> fi_order (fst fv) = 1 \<and> (\<exists>n. snd fv = EvInt n) \<or>
     fi_order (fst fv) = 2 \<and> (\<exists>s. snd fv = EvText s \<and> length (utf8_bytes s) \<le> 253)"

lemmas demo_pgn_defs = demo_product_pgn_def demo_pgn_def demo_field_def

lemma demo_push:
  assumes "demo_ready b" "demo_storable fv"
  shows "\<exists>b'. builder_push demo_fo (fst fv) (snd fv) b = Inr b' \<and> demo_ready b'"
  using assms(2) unfolding demo_storable_def
proof (elim disjE conjE exE)
  fix n assume "fi_order (fst fv) = 1" "snd fv = EvInt n"
  then show ?thesis using assms(1)
    by (auto simp: demo_ready_def builder_push_def stage_at_def stage_value_def value_to_raw_def Let_def demo_pgn_defs)
next
  fix s assume "fi_order (fst fv) = 2" "snd fv = EvText s" "length (utf8_bytes s) \<le> 253"
  then show ?thesis using assms(1)
    by (auto simp: demo_ready_def builder_push_def stage_at_def stage_value_def stage_string_lau_def text_of_value_def Let_def demo_pgn_defs)
qed

lemma demo_push_all: "demo_ready b \<Longrightarrow> list_all demo_storable vs \<Longrightarrow> \<exists>b'. push_all demo_fo vs b = Inr b' \<and> demo_ready b'"
proof (induction vs arbitrary: b)
  case (Cons v vs)
  obtain b1 where "builder_push demo_fo (fst v) (snd v) b = Inr b1" "demo_ready b1"
    using demo_push [OF Cons.prems(1), of v] Cons.prems(2) by auto
  then show ?case using Cons.IH [of b1] Cons.prems(2) by simp
qed simp

lemma demo_build: "demo_ready b \<Longrightarrow> \<exists>f. builder_build b = Inr f"
  by (auto simp: demo_ready_def builder_build_def pack_field_def write_unset_def Let_def demo_pgn_defs split: prod.split)

lemma demo_values: "list_all demo_storable (product_values demo_quirk_env SCX20_INFO)"
  by (simp add: product_values_def demo_storable_def demo_quirk_env_def demo_texts_def ev_text_def SCX20_INFO_def demo_field_def
      utf8_bytes_def utf8_char_def)

lemma demo_builds: "\<exists>f. build_scx20_product_info demo_quirk_env 0 33 = Some f"
proof -
  let ?b = "for_pgn demo_product_db demo_product_pgn"
  let ?b1 = "?b\<lparr>pb_prio := 6, pb_src := 33, pb_dst := ADDR_GLOBAL, pb_timestamp := Some (format_iso (unat (0 :: u64)))\<rparr>"
  have "encode demo_product_db ''productInformation'' = Inr ?b"
    by (simp add: encode_def pgn_by_id_def demo_product_db_def demo_db_def demo_product_pgn_def)
  moreover have "demo_ready ?b1" by (simp add: demo_ready_def for_pgn_def demo_product_pgn_def)
  then obtain b f where "push_all demo_fo (product_values demo_quirk_env SCX20_INFO) ?b1 = Inr b" "builder_build b = Inr f"
    using demo_push_all [OF _ demo_values] demo_build by blast
  ultimately show ?thesis
    unfolding build_scx20_product_info_def by (simp add: demo_quirk_env_def built_def)
qed

lemma demo_name: "iso_name demo_fo (fst (snd (demo_turns ! 0))) = Some 0x00788C00E7E00000"
  by code_simp

lemma demo_unit: "is_scx20_name 0x00788C00E7E00000" "iso_name demo_fo (fst (snd (demo_turns ! 1))) = None"
  "qe_int demo_quirk_env (fst (snd (demo_turns ! 1))) ''iso_request'' ''PGN'' = Some (ucast PGN_PRODUCT_INFO)"
  by code_simp+

lemma demo_seen_sel [simp]: "dp_pgn (demo_seen p s fs) = p" "dp_src (demo_seen p s fs) = s" "dp_dst (demo_seen p s fs) = 33"
  by (simp_all add: demo_seen_def)

lemma demo_answers:
  assumes "build_scx20_product_info demo_quirk_env 0 33 = Some f"
  shows "scx20_run demo_quirk_env (\<lambda>_. None) demo_turns = [[], [f], [f]]"
proof -
  have "qe_fo demo_quirk_env = demo_fo" by (simp add: demo_quirk_env_def)
  then show ?thesis
    using demo_name demo_unit assms
    by (simp add: demo_turns_def scx20_process_def scx20_targets_def ADDR_GLOBAL_def PGN_ISO_REQUEST_def PGN_ISO_ADDRESS_CLAIM_def
        scx20_answer_def duration_since_def MIN_SYNTH_GAP_def)
qed

lemma scx20_answers_spaced_witness:
  "1000 \<le> snd (snd (demo_turns ! 2)) - snd (snd (demo_turns ! 1)) \<and>
    (\<exists>k<1. dp_pgn (fst (snd (demo_turns ! k))) = 60928 \<and> dp_src (fst (snd (demo_turns ! k))) = 33 \<and>
       (\<exists>nm. iso_name (qe_fo demo_quirk_env) (fst (snd (demo_turns ! k))) = Some nm \<and> is_scx20_name nm))"
proof -
  obtain f where f: "build_scx20_product_info demo_quirk_env 0 33 = Some f" using demo_builds by blast
  have "rf_src f = 33" using scx20_info_src [OF f] by simp
  moreover have "f \<in> set (scx20_run demo_quirk_env (\<lambda>_. None) demo_turns ! 1)" "f \<in> set (scx20_run demo_quirk_env (\<lambda>_. None) demo_turns ! 2)"
    by (simp_all add: demo_answers [OF f])
  moreover have "length demo_turns = 3" by (simp add: demo_turns_def)
  ultimately show ?thesis using scx20_answers_spaced [of 1 2 demo_turns f demo_quirk_env f] by simp
qed

end
