(* ===== verification/Pipeline.thy ===== *)
theory Pipeline
  imports Hubs Server_Snapshot Quirks Source Wire Nmea_Sentences Requests Overrides
begin

unbundle bit_operations_syntax

section \<open>The server's pipeline (canboat-bridge/src/server/pipeline.rs)\<close>

text \<open>
  The loop between the source of frames and everything the server offers: a frame is put together and decoded, the record goes to the quirks,
  the engines and the snapshot, and in its forms (PLAIN, analyzer JSON, NMEA 0183, binary) to the hubs.  What a quirk sends is fed back as a frame.
  The databases, the serializer, the environments of the converters and the order of a \<open>HashMap\<close> are the environment; the clock readings of
  a turn and the address the gateway holds are its \<open>turn_clock\<close>.  A lock is held over one call.  \<open>None\<close> is a panic of an AIS
  encoder or a decoder that does not return.
\<close>

record ('f, 'e) pipeline_env =
  pe_db :: "'f pgn_database"
  pe_depth :: nat
  pe_metric :: "'f pgn_database"
  pe_json :: json_options
  pe_nmea :: "'f nmea_env"
  pe_quirk :: "'f quirk_env"
  pe_ser :: "'f wire_pgn \<Rightarrow> 'e + u8 list"
  pe_iter :: "(u32 \<times> override) list \<Rightarrow> (u32 \<times> override) list"
  pe_stdout :: bool

abbreviation pe_tx :: "('f, 'e) pipeline_env \<Rightarrow> 'f float_text" where "pe_tx e \<equiv> ne_tx (pe_nmea e)"
abbreviation pe_fo :: "('f, 'e) pipeline_env \<Rightarrow> 'f float_ops" where "pe_fo e \<equiv> tx_fo (pe_tx e)"

record turn_clock =
  tc_now :: int
  tc_quirk :: int
  tc_host :: u64
  tc_engine :: int
  tc_gate :: int
  tc_handler :: int
  tc_snapshot :: nat
  tc_claim_addr :: "u8 option"

record 'f pipeline =
  pl_reasm :: reassembler
  pl_coalesced :: bool
  pl_limiter :: "'f rate_limiter"
  pl_quirks :: "'f quirks"
  pl_synth :: "raw_frame list"
  pl_raw :: "char batcher"
  pl_nmea :: "char batcher"
  pl_analyzer :: "char batcher"
  pl_bin :: "u8 batcher"
  pl_snapshot :: "snapshot_store option"
  pl_engine :: devices
  pl_filter :: "nmea_filter option"
  pl_overrides :: "override_engine option"
  pl_device :: "raw_frame list option"
  pl_tap :: "'f decoded_pgn list option"
  pl_printed :: string

definition pipeline_is_ais :: "u32 \<Rightarrow> bool" where
  "pipeline_is_ais pgn \<longleftrightarrow>
     pgn \<in> {129038, 129039, 129040, 129041, 129793, 129794, 129798, 129801, 129802, 129809, 129810}"

text \<open>\<open>send_frame\<close> of the device's sender, if there is one; and the decoded tap.\<close>

definition send_device :: "raw_frame \<Rightarrow> 'f pipeline \<Rightarrow> 'f pipeline" where
  "send_device f st = st\<lparr>pl_device := map_option (\<lambda>fs. fs @ [f]) (pl_device st)\<rparr>"

definition tap :: "'f decoded_pgn \<Rightarrow> 'f pipeline \<Rightarrow> 'f pipeline" where
  "tap d st = st\<lparr>pl_tap := map_option (\<lambda>ds. ds @ [d]) (pl_tap st)\<rparr>"

definition pipeline_assemble :: "'f pgn_database \<Rightarrow> raw_frame \<Rightarrow> 'f pipeline \<Rightarrow> 'f pipeline \<times> raw_frame option" where
  "pipeline_assemble db frame st =
     (let st = (if \<not> pl_coalesced st \<and> length (rf_data frame) > 8 then st\<lparr>pl_coalesced := True\<rparr> else st) in
      if pl_coalesced st then (st, Some frame)
      else let (r, out) = push (pl_reasm st) frame (source_packet_type db (rf_pgn frame)) in
        (st\<lparr>pl_reasm := r\<rparr>, case out of PassThrough f \<Rightarrow> Some f | Complete f \<Rightarrow> Some f | _ \<Rightarrow> None))"

definition raw_out :: "int \<Rightarrow> raw_frame \<Rightarrow> 'f pipeline \<Rightarrow> 'f pipeline" where
  "raw_out now f st =
     (if batch_subscribed (pl_raw st) then st\<lparr>pl_raw := batch_push (plain_write_line f @ [newline]) now (pl_raw st)\<rparr> else st)"

text \<open>A quirk that sends as the server's own node has the address the gateway holds stamped on its frame.\<close>

definition own_address :: "u8 option \<Rightarrow> u8 option" where
  "own_address a = (case a of Some x \<Rightarrow> if x \<noteq> ADDR_GLOBAL \<and> x \<noteq> ADDR_NULL then Some x else None | None \<Rightarrow> None)"

definition stamp_source :: "u8 option \<Rightarrow> raw_frame \<Rightarrow> raw_frame" where
  "stamp_source own f =
     (case own of
        Some addr \<Rightarrow> if rf_src f = 0 \<or> rf_src f = ADDR_GLOBAL then f\<lparr>rf_src := addr\<rparr> else f
      | None \<Rightarrow> f)"

definition emit_synth :: "u8 option \<Rightarrow> raw_frame \<Rightarrow> 'f pipeline \<Rightarrow> 'f pipeline" where
  "emit_synth own f st = (let f = stamp_source own f; st = send_device f st in st\<lparr>pl_synth := pl_synth st @ [f]\<rparr>)"

definition run_quirks :: "('f, 'e) pipeline_env \<Rightarrow> turn_clock \<Rightarrow> 'f decoded_pgn \<Rightarrow> 'f pipeline \<Rightarrow> 'f pipeline" where
  "run_quirks e c d st =
     (if quirks_enabled (pl_quirks st) then
        let (q, fs) = process_decoded (pe_quirk e) (tc_host c) d (tc_quirk c) (pl_quirks st)
        in fold (emit_synth (own_address (tc_claim_addr c))) fs (st\<lparr>pl_quirks := q\<rparr>)
      else st)"

definition note_engine :: "turn_clock \<Rightarrow> 'f decoded_pgn \<Rightarrow> 'f pipeline \<Rightarrow> 'f pipeline" where
  "note_engine c d st = st\<lparr>pl_engine := note_device_seen (tc_engine c) (dp_pgn d) (dp_src d) (pl_engine st)\<rparr>"

definition learn_name :: "('f, 'e) pipeline_env \<Rightarrow> 'f decoded_pgn \<Rightarrow> 'f pipeline \<Rightarrow> 'f pipeline" where
  "learn_name e d st =
     (case (pl_filter st, iso_name (pe_fo e) d) of
        (Some f, Some nm) \<Rightarrow> st\<lparr>pl_filter := Some (note_address_claim (dp_src d) nm f)\<rparr>
      | _ \<Rightarrow> st)"

text \<open>The override a record refuses: a group function acknowledgement with an error for the PGN.\<close>

definition refused_pgn :: "('f, 'e) pipeline_env \<Rightarrow> 'f decoded_pgn \<Rightarrow> u32 option" where
  "refused_pgn e d =
     (let field_int = (\<lambda>c. qe_int (pe_quirk e) d ''nmea_acknowledge_group_function'' c) in
      if dp_pgn d \<noteq> 126208 \<or> field_int ''FUNCTION_CODE'' \<noteq> Some 2 then None
      else let pgn_err = or_default 0 (field_int ''PGN_ERROR_CODE'');
               iv_err = or_default 0 (field_int ''TRANSMISSION_INTERVAL_PRIORITY_ERROR_CODE'')
           in if pgn_err \<noteq> 0 \<or> iv_err \<noteq> 0 then map_option ucast (field_int ''PGN'') else None)"

definition run_overrides :: "('f, 'e) pipeline_env \<Rightarrow> 'f decoded_pgn \<Rightarrow> 'f pipeline \<Rightarrow> 'f pipeline" where
  "run_overrides e d st =
     (case pl_overrides st of
        None \<Rightarrow> st
      | Some ov \<Rightarrow>
          (case iso_name (pe_fo e) d of
             Some nm \<Rightarrow>
               (let (ov, replay) = ov_note_address_claim (pe_iter e) (dp_src d) nm ov
                in fold send_device replay (st\<lparr>pl_overrides := Some ov\<rparr>))
           | None \<Rightarrow>
               (case refused_pgn e d of
                  Some pgn \<Rightarrow> st\<lparr>pl_overrides := Some (fst (note_nak (dp_src d) pgn ov))\<rparr>
                | None \<Rightarrow> st)))"

definition run_snapshot :: "('f, 'e) pipeline_env \<Rightarrow> turn_clock \<Rightarrow> 'f decoded_pgn \<Rightarrow> 'f pipeline \<Rightarrow> 'f pipeline" where
  "run_snapshot e c d st =
     st\<lparr>pl_snapshot := map_option (store_decoded (pe_tx e) (pe_json e) (pe_metric e) d (tc_snapshot c)) (pl_snapshot st)\<rparr>"

text \<open>The sentences of a record and the state after them.\<close>

definition nmea_out :: "('f, 'e) pipeline_env \<Rightarrow> turn_clock \<Rightarrow> 'f decoded_pgn \<Rightarrow> 'f pipeline \<Rightarrow> 'f pipeline option" where
  "nmea_out e c d st =
     (if \<not> (pe_stdout e \<or> batch_subscribed (pl_nmea st) \<or> pl_filter st \<noteq> None) then Some st
      else
        (case convert_nmea0183 (pe_nmea e) (tc_gate c) (tc_handler c) d (pl_limiter st) of
           None \<Rightarrow> None
         | Some (lines, n, rl) \<Rightarrow>
             (let st = st\<lparr>pl_limiter := rl\<rparr>; buf = concat lines;
                  (st, buf) =
                    (case pl_filter st of
                       Some f \<Rightarrow>
                         if n > 0 \<and> \<not> pipeline_is_ais (dp_pgn d) then
                           (let (f, kept) = filter_apply (dp_src d) (line_bytes buf) f
                            in (st\<lparr>pl_filter := Some f\<rparr>, map (\<lambda>b. char_of (unat b)) kept))
                         else (st, buf)
                     | None \<Rightarrow> (st, buf))
              in if buf = [] then Some st
                 else let st = (if pe_stdout e then st\<lparr>pl_printed := pl_printed st @ buf\<rparr> else st)
                      in Some (if batch_subscribed (pl_nmea st) then st\<lparr>pl_nmea := batch_push buf (tc_now c) (pl_nmea st)\<rparr> else st))))"

definition analyzer_out :: "('f, 'e) pipeline_env \<Rightarrow> turn_clock \<Rightarrow> 'f decoded_pgn \<Rightarrow> 'f pipeline \<Rightarrow> 'f pipeline" where
  "analyzer_out e c d st =
     (if batch_subscribed (pl_analyzer st) then
        st\<lparr>pl_analyzer := batch_push (write_json (pe_tx e) (pe_json e) d @ [newline]) (tc_now c) (pl_analyzer st)\<rparr>
      else st)"

definition bin_out :: "('f, 'e) pipeline_env \<Rightarrow> turn_clock \<Rightarrow> 'f decoded_pgn \<Rightarrow> 'f pipeline \<Rightarrow> 'f pipeline" where
  "bin_out e c d st =
     (if batch_subscribed (pl_bin st) then
        (case append_frame (pe_ser e) [] (wire_pgn_of d) of
           Inr frame \<Rightarrow> st\<lparr>pl_bin := batch_push frame (tc_now c) (pl_bin st)\<rparr>
         | Inl _ \<Rightarrow> st)
      else st)"

definition flush_all_due :: "int \<Rightarrow> 'f pipeline \<Rightarrow> 'f pipeline" where
  "flush_all_due now st =
     st\<lparr>pl_raw := flush_due now (pl_raw st), pl_nmea := flush_due now (pl_nmea st),
       pl_analyzer := flush_due now (pl_analyzer st), pl_bin := flush_due now (pl_bin st)\<rparr>"

text \<open>What becomes of a decoded record.\<close>

definition handle_record :: "('f, 'e) pipeline_env \<Rightarrow> turn_clock \<Rightarrow> 'f decoded_pgn \<Rightarrow> 'f pipeline \<Rightarrow> 'f pipeline option" where
  "handle_record e c d st =
     map_option (\<lambda>st. bin_out e c d (analyzer_out e c d st))
       (nmea_out e c d (run_snapshot e c d (run_overrides e d (learn_name e d (note_engine c d (run_quirks e c d (tap d st)))))))"

definition pipeline_frame :: "('f, 'e) pipeline_env \<Rightarrow> turn_clock \<Rightarrow> raw_frame \<Rightarrow> 'f pipeline \<Rightarrow> 'f pipeline option" where
  "pipeline_frame e c frame st =
     (case pipeline_assemble (pe_db e) frame st of
        (st, None) \<Rightarrow> Some st
      | (st, Some f) \<Rightarrow>
          (let st = raw_out (tc_now c) f st in
           case decode_frame (pe_fo e) (pe_db e) (pe_depth e) f of
             None \<Rightarrow> None
           | Some (Inl _) \<Rightarrow> Some st
           | Some (Inr d) \<Rightarrow> map_option (flush_all_due (tc_now c)) (handle_record e c d st)))"

text \<open>One turn of the loop: a frame of the quirks goes before the frames of the channel; with none of either the wait for the deadline of a batch ends.\<close>

definition pipeline_turn ::
  "('f, 'e) pipeline_env \<Rightarrow> turn_clock \<Rightarrow> raw_frame list \<times> 'f pipeline \<Rightarrow> (raw_frame list \<times> 'f pipeline) option" where
  "pipeline_turn e c s =
     (let (queue, st) = s in
      case pl_synth st of
        f # fs \<Rightarrow> map_option (Pair queue) (pipeline_frame e c f (st\<lparr>pl_synth := fs\<rparr>))
      | [] \<Rightarrow>
          (case queue of
             f # queue \<Rightarrow> map_option (Pair queue) (pipeline_frame e c f st)
           | [] \<Rightarrow> Some ([], flush_all_due (tc_now c) st)))"

primrec pipeline_run ::
  "('f, 'e) pipeline_env \<Rightarrow> turn_clock list \<Rightarrow> raw_frame list \<times> 'f pipeline \<Rightarrow> (raw_frame list \<times> 'f pipeline) option" where
  "pipeline_run e [] s = Some s"
| "pipeline_run e (c # cs) s = Option.bind (pipeline_turn e c s) (pipeline_run e cs)"

text \<open>The channel is closed: what the batches hold goes out.\<close>

definition pipeline_end :: "'f pipeline \<Rightarrow> 'f pipeline" where
  "pipeline_end st =
     st\<lparr>pl_raw := flush (pl_raw st), pl_nmea := flush (pl_nmea st), pl_analyzer := flush (pl_analyzer st), pl_bin := flush (pl_bin st)\<rparr>"

subsection \<open>What the stages leave alone\<close>

lemma send_device_keeps [simp]:
  "pl_analyzer (send_device f st) = pl_analyzer st" "pl_bin (send_device f st) = pl_bin st" "pl_raw (send_device f st) = pl_raw st"
  "pl_nmea (send_device f st) = pl_nmea st" "pl_tap (send_device f st) = pl_tap st" "pl_synth (send_device f st) = pl_synth st"
  "pl_reasm (send_device f st) = pl_reasm st" "pl_coalesced (send_device f st) = pl_coalesced st" "pl_quirks (send_device f st) = pl_quirks st"
  by (simp_all add: send_device_def)

lemma fold_send_keeps [simp]:
  "pl_analyzer (fold send_device fs st) = pl_analyzer st" "pl_bin (fold send_device fs st) = pl_bin st"
  "pl_raw (fold send_device fs st) = pl_raw st" "pl_nmea (fold send_device fs st) = pl_nmea st"
  "pl_tap (fold send_device fs st) = pl_tap st" "pl_synth (fold send_device fs st) = pl_synth st"
  "pl_reasm (fold send_device fs st) = pl_reasm st" "pl_coalesced (fold send_device fs st) = pl_coalesced st"
  "pl_quirks (fold send_device fs st) = pl_quirks st"
  by (induction fs arbitrary: st) simp_all

lemma emit_synth_keeps [simp]:
  "pl_analyzer (emit_synth own f st) = pl_analyzer st" "pl_bin (emit_synth own f st) = pl_bin st" "pl_raw (emit_synth own f st) = pl_raw st"
  "pl_nmea (emit_synth own f st) = pl_nmea st" "pl_tap (emit_synth own f st) = pl_tap st" "pl_reasm (emit_synth own f st) = pl_reasm st"
  "pl_coalesced (emit_synth own f st) = pl_coalesced st" "pl_quirks (emit_synth own f st) = pl_quirks st"
  by (simp_all add: emit_synth_def Let_def)

lemma fold_emit_keeps [simp]:
  "pl_analyzer (fold (emit_synth own) fs st) = pl_analyzer st" "pl_bin (fold (emit_synth own) fs st) = pl_bin st"
  "pl_raw (fold (emit_synth own) fs st) = pl_raw st" "pl_nmea (fold (emit_synth own) fs st) = pl_nmea st"
  "pl_tap (fold (emit_synth own) fs st) = pl_tap st" "pl_reasm (fold (emit_synth own) fs st) = pl_reasm st"
  "pl_coalesced (fold (emit_synth own) fs st) = pl_coalesced st" "pl_quirks (fold (emit_synth own) fs st) = pl_quirks st"
  by (induction fs arbitrary: st) simp_all

text \<open>The parts of the state the stages from the tap to the snapshot share.\<close>

definition digest :: "('f, 'e) pipeline_env \<Rightarrow> turn_clock \<Rightarrow> 'f decoded_pgn \<Rightarrow> 'f pipeline \<Rightarrow> 'f pipeline" where
  "digest e c d st = run_snapshot e c d (run_overrides e d (learn_name e d (note_engine c d (run_quirks e c d (tap d st)))))"

lemma digest_keeps [simp]:
  "pl_analyzer (digest e c d st) = pl_analyzer st" "pl_bin (digest e c d st) = pl_bin st" "pl_raw (digest e c d st) = pl_raw st"
  "pl_nmea (digest e c d st) = pl_nmea st" "pl_reasm (digest e c d st) = pl_reasm st" "pl_coalesced (digest e c d st) = pl_coalesced st"
  "pl_tap (digest e c d st) = map_option (\<lambda>ds. ds @ [d]) (pl_tap st)"
  by (simp_all add: digest_def run_snapshot_def run_overrides_def learn_name_def note_engine_def run_quirks_def tap_def case_prod_beta
      split: option.split)

lemma nmea_out_keeps:
  assumes "nmea_out e c d st = Some st'"
  shows "pl_analyzer st' = pl_analyzer st" "pl_bin st' = pl_bin st" "pl_raw st' = pl_raw st" "pl_tap st' = pl_tap st"
    "pl_reasm st' = pl_reasm st" "pl_coalesced st' = pl_coalesced st" "pl_synth st' = pl_synth st" "pl_quirks st' = pl_quirks st"
  using assms by (auto simp: nmea_out_def Let_def case_prod_beta split: if_splits option.splits prod.splits)

lemma assemble_keeps:
  assumes "pipeline_assemble db f st = (st', r)"
  shows "pl_analyzer st' = pl_analyzer st" "pl_bin st' = pl_bin st" "pl_raw st' = pl_raw st" "pl_tap st' = pl_tap st"
    "pl_nmea st' = pl_nmea st" "pl_synth st' = pl_synth st" "pl_quirks st' = pl_quirks st"
  using assms by (auto simp: pipeline_assemble_def Let_def case_prod_beta split: if_splits)

subsection \<open>Streams\<close>

definition json_lines :: "('f, 'e) pipeline_env \<Rightarrow> 'f decoded_pgn list \<Rightarrow> string" where
  "json_lines e ds = concat (map (\<lambda>d. write_json (pe_tx e) (pe_json e) d @ [newline]) ds)"

definition wire_frames :: "('f, 'e) pipeline_env \<Rightarrow> 'f decoded_pgn list \<Rightarrow> u8 list" where
  "wire_frames e ds = concat (map (\<lambda>d. case append_frame (pe_ser e) [] (wire_pgn_of d) of Inr bs \<Rightarrow> bs | Inl _ \<Rightarrow> []) ds)"

text \<open>From one state to another the subscribers were sent these records.\<close>

definition served :: "('f, 'e) pipeline_env \<Rightarrow> 'f decoded_pgn list \<Rightarrow> 'f pipeline \<Rightarrow> 'f pipeline \<Rightarrow> bool" where
  "served e ds st st' \<longleftrightarrow>
     pl_tap st' = map_option (\<lambda>old. old @ ds) (pl_tap st) \<and>
     (\<forall>i. batch_listening i (pl_analyzer st) \<longrightarrow>
        batch_listening i (pl_analyzer st') \<and> stream_to i (pl_analyzer st') = stream_to i (pl_analyzer st) @ json_lines e ds) \<and>
     (\<forall>i. batch_listening i (pl_bin st) \<longrightarrow>
        batch_listening i (pl_bin st') \<and> stream_to i (pl_bin st') = stream_to i (pl_bin st) @ wire_frames e ds)"

lemma served_none: "pl_tap st' = pl_tap st \<Longrightarrow> pl_analyzer st' = pl_analyzer st \<Longrightarrow> pl_bin st' = pl_bin st \<Longrightarrow> served e [] st st'"
  by (auto simp: served_def json_lines_def wire_frames_def option.map_ident)

lemma served_trans: "served e ds st st' \<Longrightarrow> served e ds' st' st'' \<Longrightarrow> served e (ds @ ds') st st''"
  by (auto simp: served_def json_lines_def wire_frames_def option.map_comp comp_def)

lemma served_flush: "served e [] st (flush_all_due now st)"
  by (auto simp: served_def flush_all_due_def json_lines_def wire_frames_def option.map_ident)

lemma served_record:
  assumes "handle_record e c d st = Some st'"
  shows "served e [d] st st'"
proof -
  obtain st1 where st1: "nmea_out e c d (digest e c d st) = Some st1" "st' = bin_out e c d (analyzer_out e c d st1)"
    using assms by (auto simp: handle_record_def digest_def)
  show ?thesis
    using nmea_out_keeps [OF st1(1)]
    by (auto simp: st1(2) served_def json_lines_def wire_frames_def bin_out_def analyzer_out_def dest: batch_listening_counts split: sum.split)
qed

lemma served_frame:
  assumes "pipeline_frame e c f st = Some st'"
  shows "\<exists>ds. length ds \<le> 1 \<and> served e ds st st'"
proof -
  obtain st1 r where a: "pipeline_assemble (pe_db e) f st = (st1, r)" by fastforce
  have s1: "served e [] st st1" using assemble_keeps [OF a] by (intro served_none) auto
  show ?thesis
  proof (cases r)
    case None
    then show ?thesis using assms a s1 by (auto simp: pipeline_frame_def intro!: exI [of _ "[]"])
  next
    case (Some g)
    let ?st2 = "raw_out (tc_now c) g st1"
    have s2: "served e [] st1 ?st2" by (intro served_none) (simp_all add: raw_out_def)
    from served_trans [OF s1 this] have s: "served e [] st ?st2" by simp
    show ?thesis
    proof (cases "decode_frame (pe_fo e) (pe_db e) (pe_depth e) g")
      case None
      then show ?thesis using assms a Some by (simp add: pipeline_frame_def)
    next
      case (Some r2)
      show ?thesis
      proof (cases r2)
        case (Inl x)
        then show ?thesis using assms a Some \<open>r = Some g\<close> s by (auto simp: pipeline_frame_def intro!: exI [of _ "[]"])
      next
        case (Inr d)
        then obtain st3 where st3: "handle_record e c d ?st2 = Some st3" "st' = flush_all_due (tc_now c) st3"
          using assms a Some \<open>r = Some g\<close> by (auto simp: pipeline_frame_def)
        have "served e ([] @ [d] @ []) st st'"
          unfolding st3(2) by (intro served_trans [OF s] served_trans [OF served_record [OF st3(1)]] served_flush)
        then show ?thesis by (auto intro!: exI [of _ "[d]"])
      qed
    qed
  qed
qed

lemma served_turn: "pipeline_turn e c (queue, st) = Some (queue', st') \<Longrightarrow> \<exists>ds. served e ds st st'"
proof (cases "pl_synth st")
  case Nil
  then show "pipeline_turn e c (queue, st) = Some (queue', st') \<Longrightarrow> ?thesis"
    using served_frame served_flush by (fastforce simp: pipeline_turn_def split: list.splits)
next
  case (Cons f fs)
  assume "pipeline_turn e c (queue, st) = Some (queue', st')"
  then have "pipeline_frame e c f (st\<lparr>pl_synth := fs\<rparr>) = Some st'" using Cons by (auto simp: pipeline_turn_def)
  from served_frame [OF this] obtain ds where "served e ds (st\<lparr>pl_synth := fs\<rparr>) st'" by blast
  then show ?thesis by (auto simp: served_def)
qed

lemma served_run: "pipeline_run e cs (queue, st) = Some (queue', st') \<Longrightarrow> \<exists>ds. served e ds st st'"
proof (induction cs arbitrary: queue st)
  case Nil
  then show ?case using served_none by fastforce
next
  case (Cons c cs)
  then obtain q1 st1 where 1: "pipeline_turn e c (queue, st) = Some (q1, st1)" "pipeline_run e cs (q1, st1) = Some (queue', st')"
    by (auto simp: bind_eq_Some_conv)
  from served_turn [OF 1(1)] Cons.IH [OF 1(2)] served_trans show ?case by blast
qed

subsection \<open>A burst of frames\<close>

text \<open>A loop without quirks that puts frames together itself.\<close>

definition plain_loop :: "'f pipeline \<Rightarrow> bool" where
  "plain_loop st \<longleftrightarrow> pl_synth st = [] \<and> \<not> pl_coalesced st \<and> \<not> quirks_enabled (pl_quirks st)"

lemma digest_plain:
  assumes "plain_loop st"
  shows "pl_synth (digest e c d st) = []" "pl_quirks (digest e c d st) = pl_quirks st"
  using assms by (simp_all add: plain_loop_def digest_def run_snapshot_def run_overrides_def learn_name_def note_engine_def run_quirks_def
      tap_def case_prod_beta split: option.split)

lemma record_handled:
  assumes "\<not> is_ais_pgn (dp_pgn d)"
  obtains st' where "handle_record e c d st = Some st'"
proof -
  have "convert_nmea0183 (pe_nmea e) (tc_gate c) (tc_handler c) d (pl_limiter (digest e c d st)) \<noteq> None"
    using assms by (simp add: convert_nmea0183_def case_prod_beta Let_def split: option.split)
  then obtain lines n rl where "convert_nmea0183 (pe_nmea e) (tc_gate c) (tc_handler c) d (pl_limiter (digest e c d st)) = Some (lines, n, rl)"
    by fastforce
  then have "nmea_out e c d (digest e c d st) \<noteq> None" by (simp add: nmea_out_def Let_def case_prod_beta split: option.split)
  then show ?thesis using that by (auto simp: handle_record_def digest_def [symmetric])
qed

lemma plain_record:
  assumes "handle_record e c d st = Some st'" "plain_loop st"
  shows "plain_loop st'" "pl_reasm st' = pl_reasm st"
proof -
  obtain st1 where st1: "nmea_out e c d (digest e c d st) = Some st1" "st' = bin_out e c d (analyzer_out e c d st1)"
    using assms by (auto simp: handle_record_def digest_def)
  show "plain_loop st'" "pl_reasm st' = pl_reasm st"
    using nmea_out_keeps [OF st1(1)] digest_plain [OF assms(2), of e c d] assms(2)
    by (auto simp: st1(2) plain_loop_def bin_out_def analyzer_out_def split: sum.split)
qed

lemma fragment_turn:
  assumes "source_packet_type (pe_db e) (rf_pgn frame) = Fast" "rf_pgn frame \<noteq> PGN_ISO_TP_CM" "rf_pgn frame \<noteq> PGN_ISO_TP_DT"
    and "0 < length (rf_data frame)" "length (rf_data frame) \<le> 223" "k < frame_count (length (rf_data frame))"
    and "reassembler_wf (pl_reasm st)" "burst_state (pl_reasm st) (rf_pgn frame, rf_src frame, push_bit 5 seq) (rf_data frame) {..<k}"
    and "decode_frame (pe_fo e) (pe_db e) (pe_depth e) frame = Some (Inr d)" "\<not> is_ais_pgn (dp_pgn d)" "plain_loop st"
  obtains st' where "plain_loop st'" "reassembler_wf (pl_reasm st')"
    "Suc k < frame_count (length (rf_data frame)) \<longrightarrow>
       burst_state (pl_reasm st') (rf_pgn frame, rf_src frame, push_bit 5 seq) (rf_data frame) {..<Suc k}"
    "pipeline_turn e c (frame\<lparr>rf_data := fragment seq (rf_data frame) k\<rparr> # queue, st) = Some (queue, st')"
    "served e (if Suc k = frame_count (length (rf_data frame)) then [d] else []) st st'"
proof -
  let ?f = "frame\<lparr>rf_data := fragment seq (rf_data frame) k\<rparr>" and ?n = "frame_count (length (rf_data frame))"
  obtain r' where r': "reassembler_wf r'"
    "Suc k < ?n \<longrightarrow> burst_state r' (rf_pgn frame, rf_src frame, push_bit 5 seq) (rf_data frame) {..<Suc k}"
    "push (pl_reasm st) ?f Fast = (r', if Suc k = ?n then Complete frame else Partial)"
    by (rule push_in_order [OF assms(2-8)])
  let ?st1 = "st\<lparr>pl_reasm := r'\<rparr>"
  have a: "pipeline_assemble (pe_db e) ?f st = (?st1, if Suc k = ?n then Some frame else None)"
    using assms(1,11) r'(3) length_fragment [of seq "rf_data frame" k] by (simp add: pipeline_assemble_def plain_loop_def)
  have turn: "pipeline_turn e c (?f # queue, st) = map_option (Pair queue) (pipeline_frame e c ?f st)"
    using assms(11) by (simp add: pipeline_turn_def plain_loop_def)
  have plain1: "plain_loop ?st1" using assms(11) by (simp add: plain_loop_def)
  show ?thesis
  proof (cases "Suc k = ?n")
    case False
    then have "pipeline_frame e c ?f st = Some ?st1" by (simp add: pipeline_frame_def a)
    moreover have "served e [] st ?st1" by (rule served_none) simp_all
    ultimately show ?thesis using that [of ?st1] plain1 r' False turn by simp
  next
    case True
    let ?st2 = "raw_out (tc_now c) frame ?st1"
    obtain st3 where st3: "handle_record e c d ?st2 = Some st3" by (rule record_handled [OF assms(10)])
    have h: "pipeline_frame e c ?f st = Some (flush_all_due (tc_now c) st3)" using True assms(9) st3 by (simp add: pipeline_frame_def a)
    have "plain_loop ?st2" "pl_reasm ?st2 = r'" using plain1 by (auto simp: plain_loop_def raw_out_def)
    then have 3: "plain_loop (flush_all_due (tc_now c) st3)" "pl_reasm (flush_all_due (tc_now c) st3) = r'"
      using plain_record [OF st3] by (auto simp: plain_loop_def flush_all_due_def)
    have "served e [] st ?st2" by (intro served_none) (simp_all add: raw_out_def)
    from served_trans [OF served_trans [OF this served_record [OF st3]] served_flush [of e st3 "tc_now c"]]
    have s: "served e [d] st (flush_all_due (tc_now c) st3)" by simp
    show ?thesis using that [OF 3(1)] 3(2) r' True h turn s by simp
  qed
qed

lemma burst_run:
  assumes "source_packet_type (pe_db e) (rf_pgn frame) = Fast" "rf_pgn frame \<noteq> PGN_ISO_TP_CM" "rf_pgn frame \<noteq> PGN_ISO_TP_DT"
    and "0 < length (rf_data frame)" "length (rf_data frame) \<le> 223"
    and "decode_frame (pe_fo e) (pe_db e) (pe_depth e) frame = Some (Inr d)" "\<not> is_ais_pgn (dp_pgn d)"
  shows "plain_loop st \<Longrightarrow> reassembler_wf (pl_reasm st) \<Longrightarrow>
    burst_state (pl_reasm st) (rf_pgn frame, rf_src frame, push_bit 5 seq) (rf_data frame) {..<k} \<Longrightarrow>
    k < frame_count (length (rf_data frame)) \<Longrightarrow> length cs = frame_count (length (rf_data frame)) - k \<Longrightarrow>
    \<exists>st'. plain_loop st' \<and> reassembler_wf (pl_reasm st') \<and> served e [d] st st' \<and>
      pipeline_run e cs (map (\<lambda>i. frame\<lparr>rf_data := fragment seq (rf_data frame) i\<rparr>) [k..<frame_count (length (rf_data frame))] @ queue, st) =
        Some (queue, st')"
proof (induction cs arbitrary: k st)
  case (Cons c cs)
  let ?n = "frame_count (length (rf_data frame))"
  let ?fs = "\<lambda>k. map (\<lambda>i. frame\<lparr>rf_data := fragment seq (rf_data frame) i\<rparr>) [k..<?n]"
  have upt: "?fs k = frame\<lparr>rf_data := fragment seq (rf_data frame) k\<rparr> # ?fs (Suc k)"
    using Cons.prems(4) by (simp add: upt_conv_Cons)
  obtain st1 where st1: "plain_loop st1" "reassembler_wf (pl_reasm st1)"
    "Suc k < ?n \<longrightarrow> burst_state (pl_reasm st1) (rf_pgn frame, rf_src frame, push_bit 5 seq) (rf_data frame) {..<Suc k}"
    "pipeline_turn e c (frame\<lparr>rf_data := fragment seq (rf_data frame) k\<rparr> # ?fs (Suc k) @ queue, st) = Some (?fs (Suc k) @ queue, st1)"
    "served e (if Suc k = ?n then [d] else []) st st1"
    by (rule fragment_turn [OF assms(1-5) Cons.prems(4,2,3) assms(6,7) Cons.prems(1)])
  show ?case
  proof (cases "Suc k = ?n")
    case True
    have "length cs = 0" using Cons.prems(5) by (simp flip: True)
    then have "cs = []" by simp
    then show ?thesis using st1 True unfolding upt by auto
  next
    case False
    then have k: "Suc k < ?n" using Cons.prems(4) by simp
    have len: "length cs = ?n - Suc k" using Cons.prems(5) by simp
    have bs: "burst_state (pl_reasm st1) (rf_pgn frame, rf_src frame, push_bit 5 seq) (rf_data frame) {..<Suc k}"
      using st1(3) k by blast
    obtain st' where st': "plain_loop st'" "reassembler_wf (pl_reasm st')" "served e [d] st1 st'"
      "pipeline_run e cs (?fs (Suc k) @ queue, st1) = Some (queue, st')"
      using Cons.IH [OF st1(1,2) bs k len] by blast
    have "served e ([] @ [d]) st st'" using served_trans [OF _ st'(3), of "[]" st] st1(5) False by simp
    then show ?thesis using st' st1(4) unfolding upt by auto
  qed
qed simp

subsection \<open>Properties\<close>

text \<open>
  C40: Every client of the analyzer port and every client of the binary port that stays connected is sent the very same records, those the decoded tap
  shows, each once and in order: what it got, what was waiting for it, and then the JSON line of each, or its frame of the wire.
\<close>

theorem clients_get_all_records:
  assumes "pipeline_run e cs (queue, st) = Some (queue', st')" "pl_tap st = Some old"
    and "listening i (bt_hub (pl_analyzer st))" "listening j (bt_hub (pl_bin st))"
  shows "\<exists>ds. pl_tap st' = Some (old @ ds) \<and>
    received i (bt_hub (pl_analyzer (pipeline_end st'))) =
      received i (bt_hub (pl_analyzer st)) @ bt_pending (pl_analyzer st) @ concat (map (\<lambda>d. write_json (pe_tx e) (pe_json e) d @ [newline]) ds) \<and>
    received j (bt_hub (pl_bin (pipeline_end st'))) =
      received j (bt_hub (pl_bin st)) @ bt_pending (pl_bin st) @
      concat (map (\<lambda>d. case append_frame (pe_ser e) [] (wire_pgn_of d) of Inr bs \<Rightarrow> bs | Inl _ \<Rightarrow> []) ds)"
proof -
  obtain ds where ds: "served e ds st st'" using served_run [OF assms(1)] by blast
  have l: "batch_listening i (pl_analyzer st)" "batch_listening j (pl_bin st)" using assms(3,4) by (simp_all add: batch_listening_def)
  have l': "listening i (bt_hub (pl_analyzer st'))" "listening j (bt_hub (pl_bin st'))"
    using ds l by (auto simp: served_def batch_listening_def)
  have "stream_to i (pl_analyzer st') = stream_to i (pl_analyzer st) @ json_lines e ds" "stream_to j (pl_bin st') = stream_to j (pl_bin st) @ wire_frames e ds"
    "pl_tap st' = Some (old @ ds)"
    using ds l assms(2) by (simp_all add: served_def)
  then show ?thesis
    using l' by (intro exI [of _ ds]) (simp add: pipeline_end_def flush_def received_broadcast stream_to_def json_lines_def wire_frames_def)
qed

text \<open>
  A message that is built and split into the frames of a fast packet goes through a server that puts frames together as one record: with a turn for each
  frame the tap has one more record, with the builder's header and the reading of what was staged, and a client of the analyzer port one more line,
  that record's; the frames behind it are still to come.
\<close>

theorem built_message_served:
  assumes "scalar_message (pb_pgn b)" "staged_ok b" "builder_build b = Inr frame"
    "pick_variant (pb_db b) (rf_pgn frame) (rf_data frame) = Some (pb_pgn b)"
    and "source_packet_type (pb_db b) (rf_pgn frame) = Fast" "rf_pgn frame \<noteq> PGN_ISO_TP_CM" "rf_pgn frame \<noteq> PGN_ISO_TP_DT"
    and "0 < length (rf_data frame)" "length (rf_data frame) \<le> 223" "\<not> is_ais_pgn (rf_pgn frame)"
    and "pe_db e = pb_db b" "pl_synth st = []" "\<not> pl_coalesced st" "\<not> quirks_enabled (pl_quirks st)" "reassembler_wf (pl_reasm st)"
    and "find_slot (ra_slots (pl_reasm st)) (rf_pgn frame) (rf_src frame) (push_bit 5 seq) = None"
    and "length cs = length (burst_frames seq frame)" "listening i (bt_hub (pl_analyzer st))" "pl_tap st = Some old"
  shows "\<exists>d st'. pipeline_run e cs (burst_frames seq frame @ queue, st) = Some (queue, st') \<and> pl_tap st' = Some (old @ [d]) \<and>
    received i (bt_hub (pl_analyzer (pipeline_end st'))) =
      received i (bt_hub (pl_analyzer st)) @ bt_pending (pl_analyzer st) @ write_json (pe_tx e) (pe_json e) d @ [newline] \<and>
    dp_prio d = pb_prio b \<and> dp_pgn d = pg_pgn (pb_pgn b) \<and> dp_src d = pb_src b \<and> dp_dst d = pb_dst b \<and>
    map df_info (dp_fields d) = pg_fields (pb_pgn b) \<and>
    map df_value (dp_fields d) =
      field_readings (pe_fo e) (pb_db b) (pg_fields (pb_pgn b)) (map2 staged_raw (pg_fields (pb_pgn b)) (pb_staged b))"
proof -
  obtain d where d: "decode_frame (pe_fo e) (pb_db b) (pe_depth e) frame = Some (Inr d)"
    and fields: "dp_prio d = pb_prio b" "dp_pgn d = pg_pgn (pb_pgn b)" "dp_src d = pb_src b" "dp_dst d = pb_dst b"
      "map df_info (dp_fields d) = pg_fields (pb_pgn b)"
      "map df_value (dp_fields d) =
        field_readings (pe_fo e) (pb_db b) (pg_fields (pb_pgn b)) (map2 staged_raw (pg_fields (pb_pgn b)) (pb_staged b))"
    using built_message_decodes [OF assms(1-4), of "pe_fo e" "pe_depth e"] by blast
  have pgn: "dp_pgn d = rf_pgn frame" using d by (auto simp: decode_frame_def split: option.splits prod.splits)
  have bs: "burst_frames seq frame = map (\<lambda>i. frame\<lparr>rf_data := fragment seq (rf_data frame) i\<rparr>) [0..<frame_count (length (rf_data frame))]"
    using fast_frames_eq [OF assms(9,8)] by (simp add: burst_frames_def)
  have "burst_state (pl_reasm st) (rf_pgn frame, rf_src frame, push_bit 5 seq) (rf_data frame) {..<0}"
    using assms(16) by (simp add: burst_state_def find_key_def)
  then obtain st' where st': "served e [d] st st'" "pipeline_run e cs (burst_frames seq frame @ queue, st) = Some (queue, st')"
    using burst_run [of e frame d st seq 0 cs queue] assms(5-17) d pgn bs by (auto simp: plain_loop_def frame_count_def)
  have l: "batch_listening i (pl_analyzer st)" using assms(18) by (simp add: batch_listening_def)
  then have "listening i (bt_hub (pl_analyzer st'))" "stream_to i (pl_analyzer st') = stream_to i (pl_analyzer st) @ json_lines e [d]"
    "pl_tap st' = Some (old @ [d])"
    using st'(1) assms(19) by (simp_all add: served_def batch_listening_def)
  then show ?thesis
    using st'(2) fields
    by (intro exI [of _ d] exI [of _ st']) (simp add: pipeline_end_def flush_def received_broadcast stream_to_def json_lines_def)
qed

subsection \<open>A server with a client on each port\<close>

definition server_demo_env :: "(int, string) pipeline_env" where
  "server_demo_env =
     \<lparr>pe_db = demo_db, pe_depth = 1, pe_metric = demo_db, pe_json = demo_options,
      pe_nmea = \<lparr>ne_ais = ais_demo_env\<lparr>ae_text := Json_Lines.demo_text\<rparr>, ne_floor = id, ne_neg = uminus\<rparr>, pe_quirk = demo_quirk_env,
      pe_ser = (\<lambda>_. Inr [7, 7]), pe_iter = id, pe_stdout = False\<rparr>"

definition server_demo_clock :: "turn_clock" where
  "server_demo_clock =
     \<lparr>tc_now = 0, tc_quirk = 0, tc_host = 0, tc_engine = 0, tc_gate = 0, tc_handler = 0, tc_snapshot = 0, tc_claim_addr = None\<rparr>"

definition server_demo :: "int pipeline" where
  "server_demo =
     \<lparr>pl_reasm = reassembler_new, pl_coalesced = False, pl_limiter = rate_limiter_new True, pl_quirks = quirks_new 0 [], pl_synth = [],
      pl_raw = batcher_new 0 hub_new, pl_nmea = batcher_new 0 hub_new, pl_analyzer = batcher_new 0 (subscribe 3 hub_new),
      pl_bin = batcher_new 0 (subscribe 2 hub_new), pl_snapshot = Some (snapshot_store_new 0 0), pl_engine = (\<lambda>_. None),
      pl_filter = None, pl_overrides = None, pl_device = None, pl_tap = Some [], pl_printed = []\<rparr>"

lemma server_demo_facts:
  "listening 3 (bt_hub (pl_analyzer server_demo))" "listening 2 (bt_hub (pl_bin server_demo))" "pl_tap server_demo = Some []"
  "pe_fo server_demo_env = demo_fo" "pe_db server_demo_env = demo_db" "pl_synth server_demo = []" "\<not> pl_coalesced server_demo"
  "\<not> quirks_enabled (pl_quirks server_demo)" "pl_reasm server_demo = reassembler_new" "pe_depth server_demo_env = 1"
  "received 3 (bt_hub (pl_analyzer server_demo)) = []" "bt_pending (pl_analyzer server_demo) = []"
  by (simp_all add: server_demo_def server_demo_env_def listening_def subscribe_def hub_new_def batcher_new_def quirks_enabled_def
      quirks_new_def Json_Lines.demo_text_def received_def)

lemma server_demo_served:
  "\<exists>d st'. pipeline_run server_demo_env (replicate (length (burst_frames 0 demo_frame_sent)) server_demo_clock) (burst_frames 0 demo_frame_sent @ [], server_demo) = Some ([], st') \<and> pl_tap st' = Some ([] @ [d]) \<and>
    received 3 (bt_hub (pl_analyzer (pipeline_end st'))) =
      received 3 (bt_hub (pl_analyzer server_demo)) @ bt_pending (pl_analyzer server_demo) @ write_json (pe_tx server_demo_env) (pe_json server_demo_env) d @ [newline] \<and>
    dp_prio d = 3 \<and> dp_pgn d = 130840 \<and> dp_src d = 0 \<and> dp_dst d = 255 \<and>
    map df_info (dp_fields d) = demo_fields \<and>
    map df_value (dp_fields d) =
      [FvLookup 1857 None, FvReserved 3 [] 2, FvLookup 4 None, FvNotAvailable, FvInteger (- 5), FvNotAvailable]"
proof -
  have sel: "pb_prio demo_sent = 3" "pb_src demo_sent = 0" "pb_dst demo_sent = 255" "pg_pgn demo_pgn = 130840"
    by (simp_all add: demo_sent_def demo_builder_def for_pgn_def demo_pgn_def)
  have fast: "source_packet_type demo_db (rf_pgn demo_frame_sent) = Fast" by code_simp
  have frame: "rf_pgn demo_frame_sent = 130840" "length (rf_data demo_frame_sent) = 9" by (simp_all add: demo_frame_sent_def)
  have free: "find_slot (ra_slots reassembler_new) p s q = None" for p s q
    by (simp add: find_slot_def position_None_iff reassembler_new_def slot_default_def)
  have quiet: "\<not> is_ais_pgn 130840" by code_simp
  show ?thesis
    using built_message_served [where b = demo_sent and frame = demo_frame_sent and e = server_demo_env and st = server_demo and i = 3 and seq = 0
        and cs = "replicate (length (burst_frames 0 demo_frame_sent)) server_demo_clock" and old = "[]" and queue = "[]", OF _ demo_facts(3) demo_built]
      demo_facts(1) fast reassembler_wf_new free frame quiet server_demo_facts
    unfolding demo_variant sel by (simp add: PGN_ISO_TP_CM_def PGN_ISO_TP_DT_def demo_readings)
qed

lemma clients_get_all_records_witness:
  "\<exists>q st' ds. pipeline_run server_demo_env (replicate (length (burst_frames 0 demo_frame_sent)) server_demo_clock)
      (burst_frames 0 demo_frame_sent @ [], server_demo) = Some (q, st') \<and> length ds = 1 \<and>
    received 2 (bt_hub (pl_bin (pipeline_end st'))) =
      received 2 (bt_hub (pl_bin server_demo)) @ bt_pending (pl_bin server_demo) @
      concat (map (\<lambda>d. case append_frame (pe_ser server_demo_env) [] (wire_pgn_of d) of Inr bs \<Rightarrow> bs | Inl _ \<Rightarrow> []) ds)"
proof -
  obtain d st' where run: "pipeline_run server_demo_env (replicate (length (burst_frames 0 demo_frame_sent)) server_demo_clock)
      (burst_frames 0 demo_frame_sent @ [], server_demo) = Some ([], st')" and tap: "pl_tap st' = Some ([] @ [d])"
    using server_demo_served by blast
  from clients_get_all_records [OF run server_demo_facts(3,1,2)]
  obtain ds where ds: "pl_tap st' = Some ([] @ ds)"
    "received 2 (bt_hub (pl_bin (pipeline_end st'))) =
      received 2 (bt_hub (pl_bin server_demo)) @ bt_pending (pl_bin server_demo) @
      concat (map (\<lambda>d. case append_frame (pe_ser server_demo_env) [] (wire_pgn_of d) of Inr bs \<Rightarrow> bs | Inl _ \<Rightarrow> []) ds)"
    by blast
  have "length ds = 1" using ds(1) tap by auto
  then show ?thesis using run ds(2) by blast
qed

end
