(* ===== verification/Spec2Isabelle.thy ===== *)
theory Spec2Isabelle
  imports
    Bit_Fields
    Can_Id
    Claim_Bus
    Iso_Tp
    Ngt1
    Timestamp
    Ebl
    Frame_Stream
    Ikonvert_Session
    Supervisor
    Gateway_Link
    Gateway_Answers
    Source
    Strings
    Wire
    Requests
    Nmea_Filter
    Json_Lines
    Snapshot
    Nmea_Sentences
    Overrides
    Pipeline
begin

text \<open>
  A verification library for canboat-rs, the NMEA 2000 tools of src/crates.

  \<^bold>\<open>The program.\<close>  canboat-rs reads and writes the traffic of an NMEA 2000 bus.  Frames come from a capture file or a device (NGT-1,
  iKonvert, YDWG-02, Maretron IPG100, SocketCAN); fragments are put together into whole messages; a message is decoded over a PGN
  database generated at build time, and shown as JSON, kept in a cache, filtered, sent to other processes, or turned into AIS
  sentences.  In the other direction a message is built over the same database, split into frames and sent by a gateway that
  first claims an address on the bus.  The crates: canboat-core (formats, reassembly, decoder, encoder, output), canboat-schema
  (types of the database), canboat-io (devices, streams, address claiming), canboat-wire (messages between processes),
  canboat-bridge (the NMEA 0183 bridge and server), canboat (the command line and its terminal interface).

  \<^bold>\<open>How the model follows the code.\<close>  A struct is a record, an enum a datatype, a fixed-width integer a word of that width with
  Rust's wrap-around of the release build, \<open>usize\<close> a \<open>nat\<close>, \<open>Option\<close> an \<open>option\<close>, \<open>Result\<close> a sum with the error on the left, a
  panic the \<open>None\<close> of an outer option.  Text that the code treats as ASCII or bytes is a \<open>string\<close>, text where characters count is
  a list of code points (\<open>chars\<close>).  A method that changes its receiver returns the new record.  A loop is a recursion; where it
  may not end, \<open>partial_function\<close> gives \<open>None\<close> for a run without end.  Names are the ones of the source, with a prefix where two
  components share one (\<open>rf_\<close> for the fields of \<open>RawFrame\<close>, \<open>fi_\<close> for \<open>FieldInfo\<close>, and so on).

  \<^bold>\<open>Theories.\<close>  Each names its source files in its section title.

  \<^emph>\<open>Foundations.\<close>  Prelude (integers, results, little-endian bytes, the \<open>byte_simps\<close> and \<open>wf_intros\<close> collections), Ascii, Hex, Base64, Text\_Codec
  (UTF-8 and UTF-16 text), Calendar and Timestamp (canboat-core/src/format/timestamp.rs), Raw\_Frame (frame.rs), Can\_Id
  (format/common.rs).

  \<^emph>\<open>Frames in and out.\<close>  Plain, Actisense\_Ascii, Ydwg02, Captures, Ikonvert\_Lines, Maretron, Ngt1, Ebl: one format each
  (canboat-core/src/format).  Formats detects and dispatches them, Frame\_Stream reads and copies whole streams
  (canboat-io/src/stream.rs).  Each format has its round trip: what is written is parsed back (\<open>plain_roundtrip\<close>,
  \<open>ngt_stream_roundtrip\<close>, \<open>maretron_frame_roundtrip\<close>, \<open>written_lines_detected\<close>), and streams are copied frame by frame:
  an EBL log whatever the size of the reads (\<open>ebl_stream_copied\<close>), a PLAIN stream when its frames carry the stamps a driver gives them
  (\<open>plain_stream_copied\<close>; a stamp of the time of day alone is taken for another format).

  \<^emph>\<open>Messages out of frames.\<close>  Packet\_Type says which PGNs are fast packets; Reassembly is \<open>Reassembler\<close> with its two tables; Slot\_Table
  and Assembly are the interfaces both tables and both protocols satisfy; Fast\_Packet, Fast\_Reassembly and Iso\_Tp prove the
  invariant of the state and that the fragments of a message, in any order the protocol allows and among other traffic, come out
  as that message once.

  \<^emph>\<open>Values.\<close>  Bit\_Fields extracts and packs bits (bits.rs, encode.rs) and equates the loop with a reading of the bit stream; Schema is
  the database with its sorted indexes and their search; Field\_Values and Decode are decode.rs, Encode is \<open>PgnBuilder\<close>; Message and
  Strings prove that a built message decodes to what was staged; Source composes reassembly and decoding over a frame source; Wire
  is the transfer of a decoded message between processes.

  \<^emph>\<open>Text.\<close>  Json\_Text is the JSON grammar as inductive predicates; Json\_Output the writer, Json\_Lines the proof that it writes JSON;
  Analyzer\_Json the scanners over those lines; Snapshot the cache of the last line of every device and PGN, refined to the history of
  what was stored.

  \<^emph>\<open>Devices.\<close>  Device is the interface of a decoder as a locale, interpreted by the codecs of Codecs and Ikonvert\_Session; Nmea\_Name,
  Address\_Claim, Responder, Tx\_Buffer, Gateway and Socketcan are the SocketCAN gateway from its NAME to one turn of its worker;
  Claim\_Bus runs many claiming nodes on one bus, Gateway\_Answers and Gateway\_Link show what other nodes see of a gateway;
  Supervisor reconnects.

  \<^emph>\<open>The bridge.\<close>  Requests asks devices who they are, Nmea\_Filter mutes sentences by device, Ais packs bits and emits AIS sentences,
  Ais\_Messages encodes the AIS messages of a decoded PGN and Ais\_Read reads them back; Nmea0183 makes the other NMEA 0183 sentences under
  their rate limit, and Nmea\_Sentences proves what they are, composes them with the filter and bounds their rate.  Overrides keeps the
  intervals a user asked of a device and sends them again when it claims an address, refined to the history of what was set, refused and
  claimed.

  \<^emph>\<open>The server.\<close>  Hubs is the broadcast to subscribers with its batches, Server\_Snapshot feeds the cache with decoded records, Quirks are
  the workarounds for three devices (server/quirks), and Pipeline is the loop of server/pipeline.rs that connects all of it: frames in,
  records to the quirks, the engines and the snapshot, their texts to the hubs, and the frames of the quirks back in.  Pipeline proves that
  every client gets every record in order (\<open>clients_get_all_records\<close>) and follows a built message through the loop to a client
  (\<open>built_message_served\<close>); Quirks that an impersonated unit answers at most once a second (\<open>scx20_answers_spaced\<close>).

  \<^bold>\<open>Interfaces.\<close>  \<open>slot_table\<close> (claim a slot, find it again) is interpreted by the fast-packet and the ISO TP table; \<open>assembly\<close> (a
  message from numbered pieces) by the two protocols; \<open>device_decoder\<close> (the events do not depend on where the bytes are cut, as
  long as the cuts are clean) by the four codecs, where every cut is clean for the two that take bytes and a cut between characters
  for the two that convert each read to text; \<open>bracket_pair\<close> (a scan over nested brackets) by braces and square brackets.

  The orders of the schema search are an instance of the library's \<open>linorder\<close>, so the sorted indexes are \<open>sorted\<close> lists.

  \<^bold>\<open>Parameters.\<close>  What is not under src/ is an argument: the operations on \<open>f64\<close> (\<open>float_ops\<close>, \<open>float_text\<close>, and those of the bridge in \<open>ais_env\<close>, \<open>nmea_env\<close>, \<open>quirk_env\<close> and \<open>pipeline_env\<close>), the generated
  database with its variant pickers (\<open>pgn_database\<close>) and constants, the embedded database of the snapshot, the serializer postcard
  (\<open>ser\<close>, \<open>de\<close>), the host of the gateway (\<open>gateway_host\<close>: its clock, counters, machine-id files and encoder of Product Information),
  the implementation of a frame source (\<open>read\<close>), the clock (\<open>now\<close>).  The laws a theorem needs of them are its hypotheses, and its
  witness instantiates them.

  \<^bold>\<open>Bounds and fuel.\<close>  An ISO TP transfer has at most 1785 bytes, a fast packet 223.  \<open>decode_name\<close> decodes an ISO NAME inside a
  field by running the decoder again, to a given depth; depth 1 is enough for a database whose PGN 60928 holds no NAME itself.
  \<open>decode_frame\<close> gives \<open>None\<close> when a repeating set of zero fields would be walked for ever.  Times are milliseconds in 64 bits.

  \<^bold>\<open>Not modelled.\<close>  The terminal interface (canboat/src/tui) draws a screen and reads keys.  The command line (canboat/src, canboat-cli)
  parses arguments and connects streams already modelled.  The code generators (canboat-core/build.rs, canboat-bridge/build.rs) run
  at build time: their output is the database, which is a parameter.  The text form of the analyzer (output/text.rs) prints for people
  and nothing reads it back.  The sockets and threads of the server (server/mod.rs, bridge.rs, tcp.rs) and of n2kd (app.rs, serving/tcp.rs)
  are tasks around channels; what they pass on is modelled, their scheduling is not.  canboat-tokio wraps the codecs of Codecs in
  futures.  The capture containers (canboat-io/src/container.rs) and the reader of JSON lines (from\_json.rs) are left for later.  Of
  modelled files, the
  netlink and recvmmsg calls of socketcan.rs, the threads of supervisor.rs and the system files of os.rs are arguments.
\<close>

end
